(* ===== verification/Js_Prelude.thy ===== *)
theory Js_Prelude
  imports Complex_Main "HOL-Library.Word" "HOL-Library.Sublist"
begin

text \<open>
  Shared basis of the development: the collections of facts the component proofs use,
  and the generic lemmas on lists, association lists and options that several
  components share.

  \<^item> \<open>js_eval\<close> collects the definitions a proof unfolds to compute with
    JavaScript values (truthiness, property reads, the nullish and logical operators).
  \<^item> \<open>js_bounds\<close> collects numeric bounds the components export to their clients.
\<close>

named_theorems js_eval \<open>definitions that evaluate JavaScript operators\<close>
named_theorems js_bounds \<open>numeric bounds exported by the components\<close>

section \<open>First match in a list\<close>

text \<open>
  \<open>first_pos f xs\<close> is the loop ``for each x: r = f(x); if (r > 0) return r'' with
  the fall-through value 0, which the retry-hint reader uses twice.
\<close>

fun first_pos :: "('a \<Rightarrow> rat) \<Rightarrow> 'a list \<Rightarrow> rat" where
  "first_pos f [] = 0"
| "first_pos f (x # xs) = (if 0 < f x then f x else first_pos f xs)"

lemma first_pos_cong [fundef_cong]:
  "xs = ys \<Longrightarrow> (\<And>x. x \<in> set ys \<Longrightarrow> f x = g x) \<Longrightarrow> first_pos f xs = first_pos g ys"
proof (induction xs arbitrary: ys)
  case (Cons x xs)
  then show ?case by (cases ys) auto
qed simp

lemma first_pos_nonneg [js_bounds]: "0 \<le> first_pos f xs"
  by (induction xs) auto

lemma first_pos_zero: "(\<And>x. x \<in> set xs \<Longrightarrow> f x \<le> 0) \<Longrightarrow> first_pos f xs = 0"
  by (induction xs) (auto simp: leD)

lemma find_Some_in: "find P xs = Some x \<Longrightarrow> x \<in> set xs \<and> P x"
  by (auto simp: find_Some_iff)

section \<open>Association lists\<close>

text \<open>
  The insertion-ordered containers of the code (\<open>Map\<close>, \<open>Set\<close>, plain objects)
  are lists without duplicate keys. \<open>aput\<close> is \<open>Map.prototype.set\<close>: it replaces
  the value in place or appends; \<open>sadd\<close> is \<open>Set.prototype.add\<close>.
\<close>

fun aput :: "'k \<Rightarrow> 'v \<Rightarrow> ('k \<times> 'v) list \<Rightarrow> ('k \<times> 'v) list" where
  "aput k v [] = [(k, v)]"
| "aput k v ((k', v') # ps) = (if k = k' then (k, v) # ps else (k', v') # aput k v ps)"

definition sadd :: "'a \<Rightarrow> 'a list \<Rightarrow> 'a list" where
  "sadd x xs = (if x \<in> set xs then xs else xs @ [x])"

lemma map_of_aput [simp]: "map_of (aput k v ps) = (map_of ps)(k \<mapsto> v)"
  by (induction k v ps rule: aput.induct) (auto simp: fun_eq_iff)

lemma keys_aput [simp]: "fst ` set (aput k v ps) = insert k (fst ` set ps)"
  by (induction k v ps rule: aput.induct) auto

lemma set_aput: "set (aput k v ps) \<subseteq> insert (k, v) (set ps)"
  by (induction k v ps rule: aput.induct) auto

lemma aput_fresh: "k \<notin> fst ` set ps \<Longrightarrow> aput k v ps = ps @ [(k, v)]"
  by (induction k v ps rule: aput.induct) auto

lemma map_fst_aput: "map fst (aput k v ps) = sadd k (map fst ps)"
  by (induction k v ps rule: aput.induct) (auto simp: sadd_def)

lemma distinct_aput [intro]: "distinct (map fst ps) \<Longrightarrow> distinct (map fst (aput k v ps))"
  by (simp add: map_fst_aput sadd_def)

lemma set_sadd [simp]: "set (sadd x xs) = insert x (set xs)"
  by (auto simp: sadd_def)

lemma distinct_sadd [intro]: "distinct xs \<Longrightarrow> distinct (sadd x xs)"
  by (auto simp: sadd_def)

lemma map_of_Some_in: "map_of ps k = Some v \<Longrightarrow> v \<in> snd ` set ps"
  by (auto dest: map_of_SomeD intro: rev_image_eqI)

text \<open>
  The contract of a JavaScript \<open>Map\<close> that its clients rely on, and what follows for a run of
  \<open>set\<close> calls: the last value written for a key is the one found.
\<close>

locale js_map =
  fixes get :: "'m \<Rightarrow> 'k \<Rightarrow> 'v option" and set_key :: "'k \<Rightarrow> 'v \<Rightarrow> 'm \<Rightarrow> 'm" and empty :: "'m"
  assumes get_empty [simp]: "get empty k = None"
    and get_set [simp]: "get (set_key k v m) k' = (if k' = k then Some v else get m k')"
begin

lemma get_fold:
  "get (fold (\<lambda>(k, v). set_key k v) kvs m) k =
     (case map_of (rev kvs) k of None \<Rightarrow> get m k | Some v \<Rightarrow> Some v)"
proof (induction kvs rule: rev_induct)
  case (snoc kv kvs)
  then show ?case by (cases kv) auto
qed simp

lemma get_fold_empty: "get (fold (\<lambda>(k, v). set_key k v) kvs empty) k = map_of (rev kvs) k"
  by (simp add: get_fold split: option.split)

lemma get_fold_None: "k \<notin> fst ` set kvs \<Longrightarrow> get (fold (\<lambda>(k, v). set_key k v) kvs m) k = get m k"
proof -
  assume "k \<notin> fst ` set kvs"
  then have "map_of (rev kvs) k = None" by (simp add: map_of_eq_None_iff)
  then show ?thesis by (simp add: get_fold)
qed

end

interpretation amap: js_map map_of aput "[]"
  by unfold_locales simp_all

section \<open>Options\<close>

fun or_else :: "'a option \<Rightarrow> 'a option \<Rightarrow> 'a option" where
  "or_else (Some x) y = Some x"
| "or_else None y = y"

lemma or_else_None [simp]: "or_else x None = x"
  by (cases x) auto

lemma or_else_assoc: "or_else (or_else a b) c = or_else a (or_else b c)"
  by (cases a) auto

lemma or_else_eq_None [simp]: "or_else a b = None \<longleftrightarrow> a = None \<and> b = None"
  by (cases a) auto

end
