(* ===== verification/Js_Value.thy ===== *)
theory Js_Value
  imports Js_Prelude
begin

text \<open>
  The JavaScript values the program computes with: strings of UTF-16 code units, numbers,
  and the plain data (null, booleans, numbers, strings, arrays, objects) that comes out of
  \<open>JSON.parse\<close> and goes through the worker. Functions and host objects are not values
  of this type: the components that call them take them as parameters.

  Numbers are the finite rationals with the two infinities and NaN. Arithmetic on finite
  numbers is exact: rounding to the 53-bit double format is not modelled (the code's
  counts and quotients by powers of two are exact in doubles), and there is one zero.
\<close>

section \<open>Strings\<close>

type_synonym u16 = "16 word"
type_synonym jstr = "u16 list"

text \<open>ASCII literals of the source: one code unit for each character.\<close>

definition js :: "string \<Rightarrow> jstr" where
  "js s = map (\<lambda>c. word_of_nat (of_char c)) s"

lemma unit_of_char_inj: "inj (\<lambda>c. word_of_nat (of_char c) :: u16)"
proof (rule injI)
  fix c d :: char
  assume eq: "(word_of_nat (of_char c) :: u16) = word_of_nat (of_char d)"
  have small: "(of_char x :: nat) < 2 ^ 16" for x :: char
    by (rule order_less_trans [OF nat_of_char_less_256]) simp
  from eq have "unat (word_of_nat (of_char c) :: u16) = unat (word_of_nat (of_char d) :: u16)"
    by simp
  then have "(of_char c :: nat) = of_char d"
    using small by (simp add: unat_of_nat)
  then show "c = d" by simp
qed

lemma js_eq_iff [simp]: "js a = js b \<longleftrightarrow> a = b"
  unfolding js_def using unit_of_char_inj by (simp add: inj_map_eq_map)

text \<open>
  Code equations for evaluation by the simplifier: the tests of a unit read its value once and
  compare integers.
\<close>

lemma js_code [code]: "js s = map (\<lambda>c. word_of_int (of_char c)) s"
  by (simp add: js_def flip: of_nat_of_char [where 'a = int])

lemma js_Nil [simp]: "js [] = []" and js_eq_Nil [simp]: "js s = [] \<longleftrightarrow> s = []"
    and Nil_eq_js [simp]: "[] = js s \<longleftrightarrow> s = []"
  by (auto simp: js_def)

lemma js_append [simp]: "js (a @ b) = js a @ js b"
  by (simp add: js_def)

lemma length_js [simp]: "length (js s) = length s"
  by (simp add: js_def)

text \<open>
  \<open>is_ws\<close> is the set that \<open>trim\<close> removes and that \<open>\s\<close> matches: the white
  space and line terminators of ECMAScript.
\<close>

definition is_ws :: "u16 \<Rightarrow> bool" where
  "is_ws c \<longleftrightarrow> c = 32 \<or> c = 9 \<or> c = 10 \<or> c = 11 \<or> c = 12 \<or> c = 13 \<or> c = 0xA0 \<or> c = 0x1680
     \<or> (0x2000 \<le> c \<and> c \<le> 0x200A) \<or> c = 0x2028 \<or> c = 0x2029 \<or> c = 0x202F \<or> c = 0x205F
     \<or> c = 0x3000 \<or> c = 0xFEFF"

lemma is_ws_code [code]:
  "is_ws c \<longleftrightarrow> (let n = uint c in n = 32 \<or> n = 9 \<or> n = 10 \<or> n = 11 \<or> n = 12 \<or> n = 13 \<or> n = 0xA0 \<or> n = 0x1680
     \<or> (0x2000 \<le> n \<and> n \<le> 0x200A) \<or> n = 0x2028 \<or> n = 0x2029 \<or> n = 0x202F \<or> n = 0x205F \<or> n = 0x3000 \<or> n = 0xFEFF)"
  unfolding is_ws_def word_uint_eq_iff word_le_def Let_def by simp

definition ltrim :: "jstr \<Rightarrow> jstr" where
  "ltrim s = dropWhile is_ws s"

definition trim :: "jstr \<Rightarrow> jstr" where
  "trim s = rev (dropWhile is_ws (rev (dropWhile is_ws s)))"

text \<open>
  \<open>to_lower\<close> is \<open>toLowerCase\<close> on the ASCII, Latin-1, Greek and Cyrillic capitals;
  other code units are kept.
\<close>

definition lower_unit :: "u16 \<Rightarrow> u16" where
  "lower_unit c =
     (if (65 \<le> c \<and> c \<le> 90) \<or> (0xC0 \<le> c \<and> c \<le> 0xDE \<and> c \<noteq> 0xD7)
         \<or> (0x391 \<le> c \<and> c \<le> 0x3A9 \<and> c \<noteq> 0x3A2) \<or> (0x410 \<le> c \<and> c \<le> 0x42F) then c + 32
      else if 0x400 \<le> c \<and> c \<le> 0x40F then c + 80 else c)"

lemma lower_unit_code [code]:
  "lower_unit c = (let n = uint c in
     if (65 \<le> n \<and> n \<le> 90) \<or> (0xC0 \<le> n \<and> n \<le> 0xDE \<and> n \<noteq> 0xD7)
         \<or> (0x391 \<le> n \<and> n \<le> 0x3A9 \<and> n \<noteq> 0x3A2) \<or> (0x410 \<le> n \<and> n \<le> 0x42F) then c + 32
      else if 0x400 \<le> n \<and> n \<le> 0x40F then c + 80 else c)"
  unfolding lower_unit_def word_uint_eq_iff word_le_def Let_def by simp

definition to_lower :: "jstr \<Rightarrow> jstr" where
  "to_lower s = map lower_unit s"

definition starts_with :: "jstr \<Rightarrow> jstr \<Rightarrow> bool" where
  "starts_with p s \<longleftrightarrow> take (length p) s = p"

fun contains :: "jstr \<Rightarrow> jstr \<Rightarrow> bool" where
  "contains p [] \<longleftrightarrow> p = []"
| "contains p (c # s) \<longleftrightarrow> starts_with p (c # s) \<or> contains p s"

fun join :: "jstr \<Rightarrow> jstr list \<Rightarrow> jstr" where
  "join sep [] = []"
| "join sep [x] = x"
| "join sep (x # y # zs) = x @ sep @ join sep (y # zs)"

text \<open>\<open>split(/\n/)\<close> and friends: split at every occurrence of one code unit.\<close>

fun split_on :: "u16 \<Rightarrow> jstr \<Rightarrow> jstr list" where
  "split_on d [] = [[]]"
| "split_on d (c # s) = (if c = d then [] # split_on d s
     else (case split_on d s of [] \<Rightarrow> [[c]] | x # xs \<Rightarrow> (c # x) # xs))"

lemma starts_with_append: "starts_with p s \<longleftrightarrow> (\<exists>t. s = p @ t)"
  unfolding starts_with_def by (metis append_take_drop_id append_eq_conv_conj)

lemma contains_iff: "contains p s \<longleftrightarrow> (\<exists>a b. s = a @ p @ b)"
proof (induction s)
  case (Cons c s)
  have "(\<exists>a b. c # s = a @ p @ b) \<longleftrightarrow> (\<exists>b. c # s = p @ b) \<or> (\<exists>a b. s = a @ p @ b)"
    by (auto simp: Cons_eq_append_conv)
  with Cons.IH show ?case by (simp add: starts_with_append)
qed auto

lemma split_on_nonempty [simp]: "split_on d s \<noteq> []"
  by (induction s) (auto split: list.splits)

lemma trim_idem [simp]: "trim (trim s) = trim s"
proof -
  have drop: "dropWhile is_ws (dropWhile is_ws t) = dropWhile is_ws t" for t
    by (induction t) auto
  define t where "t = dropWhile is_ws s"
  have head: "dropWhile is_ws (rev (dropWhile is_ws (rev t))) = rev (dropWhile is_ws (rev t))"
  proof (cases "rev (dropWhile is_ws (rev t))")
    case (Cons c cs)
    then obtain u where "t = rev (dropWhile is_ws (rev t)) @ u"
      by (metis takeWhile_dropWhile_id rev_append rev_rev_ident)
    with Cons have "hd t = c" and "t \<noteq> []" by (metis append_Cons list.sel(1), auto)
    then have "\<not> is_ws c"
      using hd_dropWhile [of is_ws s] by (auto simp: t_def)
    with Cons show ?thesis by simp
  next
    case Nil
    show ?thesis unfolding Nil by simp
  qed
  show ?thesis
    unfolding trim_def t_def [symmetric] head by (simp add: drop)
qed

lemma trim_Nil [simp]: "trim [] = []"
  by (simp add: trim_def)

lemma set_trim: "set (trim s) \<subseteq> set s"
  unfolding trim_def by (auto dest!: set_dropWhileD)

lemma trim_no_ws: "\<forall>c \<in> set s. \<not> is_ws c \<Longrightarrow> trim s = s"
proof -
  assume s: "\<forall>c \<in> set s. \<not> is_ws c"
  have "dropWhile is_ws t = t" if "\<forall>c \<in> set t. \<not> is_ws c" for t
    using that by (cases t) auto
  from this [of s] this [of "rev s"] s show ?thesis by (simp add: trim_def)
qed

lemma length_trim: "length (trim s) \<le> length s"
  unfolding trim_def using length_dropWhile_le le_trans length_rev by metis

section \<open>Numbers\<close>

datatype jsnum = Fin rat | Inf | NegInf | NaN

fun num_le :: "jsnum \<Rightarrow> jsnum \<Rightarrow> bool" where
  "num_le (Fin a) (Fin b) \<longleftrightarrow> a \<le> b"
| "num_le NaN _ \<longleftrightarrow> False"
| "num_le _ NaN \<longleftrightarrow> False"
| "num_le NegInf _ \<longleftrightarrow> True"
| "num_le _ Inf \<longleftrightarrow> True"
| "num_le _ _ \<longleftrightarrow> False"

fun num_truthy :: "jsnum \<Rightarrow> bool" where
  "num_truthy (Fin q) \<longleftrightarrow> q \<noteq> 0"
| "num_truthy NaN \<longleftrightarrow> False"
| "num_truthy _ \<longleftrightarrow> True"

fun num_finite :: "jsnum \<Rightarrow> bool" where
  "num_finite (Fin _) \<longleftrightarrow> True"
| "num_finite _ \<longleftrightarrow> False"

fun fin_val :: "jsnum \<Rightarrow> rat" where
  "fin_val (Fin q) = q"
| "fin_val _ = 0"

definition is_int_rat :: "rat \<Rightarrow> bool" where
  "is_int_rat q \<longleftrightarrow> of_int \<lfloor>q\<rfloor> = q"

text \<open>\<open>Math.round\<close>: to the nearest integer, halves upwards.\<close>

definition math_round :: "rat \<Rightarrow> int" where
  "math_round q = \<lfloor>q + 1 / 2\<rfloor>"

subsection \<open>Number to string\<close>

definition digit_unit :: "int \<Rightarrow> u16" where
  "digit_unit d = word_of_int (48 + d)"

function dec_digits :: "int \<Rightarrow> jstr" where
  "dec_digits n = (if n < 10 then [digit_unit n] else dec_digits (n div 10) @ [digit_unit (n mod 10)])"
  by pat_completeness auto
termination by (relation "measure nat") auto

declare dec_digits.simps [simp del]

text \<open>
  The digits after the point of a fraction in [0, 1), at most \<open>n\<close> of them, stopping
  when the remainder is zero. Numbers below \<open>10\<^sup>2\<^sup>1\<close> with at most 17 decimals print
  as JavaScript prints them; the exponent notation of larger and of very small numbers is
  not modelled.
\<close>

fun frac_digits :: "nat \<Rightarrow> rat \<Rightarrow> jstr" where
  "frac_digits 0 q = []"
| "frac_digits (Suc n) q = (if q = 0 then []
     else digit_unit \<lfloor>10 * q\<rfloor> # frac_digits n (10 * q - of_int \<lfloor>10 * q\<rfloor>))"

definition rat_to_str :: "rat \<Rightarrow> jstr" where
  "rat_to_str q = (let a = \<bar>q\<bar>; i = \<lfloor>a\<rfloor>; f = frac_digits 17 (a - of_int i) in
     (if q < 0 then js ''-'' else []) @ dec_digits i @ (if f = [] then [] else js ''.'' @ f))"

fun num_to_str :: "jsnum \<Rightarrow> jstr" where
  "num_to_str (Fin q) = rat_to_str q"
| "num_to_str Inf = js ''Infinity''"
| "num_to_str NegInf = js ''-Infinity''"
| "num_to_str NaN = js ''NaN''"

subsection \<open>String to number\<close>

definition is_digit :: "u16 \<Rightarrow> bool" where
  "is_digit c \<longleftrightarrow> 48 \<le> c \<and> c \<le> 57"

lemma is_digit_code [code]: "is_digit c \<longleftrightarrow> (let n = uint c in 48 \<le> n \<and> n \<le> 57)"
  by (simp add: is_digit_def word_le_def Let_def)

definition dec_val :: "jstr \<Rightarrow> int" where
  "dec_val ds = foldl (\<lambda>a c. 10 * a + (uint c - 48)) 0 ds"

definition scale10 :: "int \<Rightarrow> int \<Rightarrow> rat" where
  "scale10 m e = (if 0 \<le> e then of_int m * 10 ^ nat e else of_int m / 10 ^ nat (- e))"

text \<open>
  The value of a decimal numeral \<open>m * 10\<^sup>e\<close>. From \<open>10\<^sup>3\<^sup>0\<^sup>9\<close> on it is an
  infinity (the exact bound of the double format is just below \<open>1.8 * 10\<^sup>3\<^sup>0\<^sup>8\<close>).
\<close>

definition num_of_dec :: "int \<Rightarrow> int \<Rightarrow> jsnum" where
  "num_of_dec m e =
     (if m = 0 then Fin 0
      else if 308 < int (length (dec_digits \<bar>m\<bar>)) - 1 + e then (if 0 < m then Inf else NegInf)
      else Fin (scale10 m e))"

text \<open>
  An unsigned decimal \<open>\d+(\.\d*)?\<close> or \<open>\.\d+\<close> at the head of a string: mantissa,
  power of ten, rest.
\<close>

definition udec_prefix :: "jstr \<Rightarrow> (int \<times> int \<times> jstr) option" where
  "udec_prefix s =
     (let ds = takeWhile is_digit s; r = dropWhile is_digit s in
      case r of
        c # r' \<Rightarrow>
          (if c = 46 then
             (let fs = takeWhile is_digit r'; r'' = dropWhile is_digit r' in
              if ds = [] \<and> fs = [] then None
              else Some (dec_val (ds @ fs), - int (length fs), r''))
           else if ds = [] then None else Some (dec_val ds, 0, r))
      | [] \<Rightarrow> if ds = [] then None else Some (dec_val ds, 0, []))"

text \<open>An optional exponent part; a malformed one is left in the rest.\<close>

definition exp_prefix :: "jstr \<Rightarrow> int \<times> jstr" where
  "exp_prefix s = (case s of
     c # r \<Rightarrow>
       (if c = 101 \<or> c = 69 then
          (let (neg, r1) = (case r of x # r' \<Rightarrow> if x = 45 then (True, r') else if x = 43 then (False, r') else (False, r)
                                    | [] \<Rightarrow> (False, r));
               es = takeWhile is_digit r1 in
           if es = [] then (0, s)
           else ((if neg then - dec_val es else dec_val es), dropWhile is_digit r1))
        else (0, s))
   | [] \<Rightarrow> (0, s))"

definition sign_prefix :: "jstr \<Rightarrow> bool \<times> jstr" where
  "sign_prefix s = (case s of
     c # r \<Rightarrow> if c = 45 then (True, r) else if c = 43 then (False, r) else (False, s)
   | [] \<Rightarrow> (False, s))"

definition radix_digit :: "u16 \<Rightarrow> int" where
  "radix_digit c =
     (if is_digit c then uint c - 48
      else if 97 \<le> c \<and> c \<le> 102 then uint c - 87
      else if 65 \<le> c \<and> c \<le> 70 then uint c - 55 else 99)"

definition radix_num :: "int \<Rightarrow> jstr \<Rightarrow> jsnum" where
  "radix_num b ds =
     (if ds = [] \<or> (\<exists>c \<in> set ds. b \<le> radix_digit c) then NaN
      else Fin (of_int (foldl (\<lambda>a c. b * a + radix_digit c) 0 ds)))"

definition str_to_num :: "jstr \<Rightarrow> jsnum" where
  "str_to_num s0 =
     (let s = trim s0; (neg, u) = sign_prefix s; p = to_lower (take 2 s) in
      if s = [] then Fin 0
      else if u = js ''Infinity'' then (if neg then NegInf else Inf)
      else if p = js ''0x'' then radix_num 16 (drop 2 s)
      else if p = js ''0o'' then radix_num 8 (drop 2 s)
      else if p = js ''0b'' then radix_num 2 (drop 2 s)
      else case udec_prefix u of
             None \<Rightarrow> NaN
           | Some (m, e, r) \<Rightarrow>
               (let (e', r') = exp_prefix r in
                if r' = [] then num_of_dec (if neg then - m else m) (e + e') else NaN))"

section \<open>Values\<close>

datatype jsval =
    Undef
  | Null
  | JBool bool
  | JNum jsnum
  | JStr jstr
  | JArr "jsval list"
  | JObj "(jstr \<times> jsval) list"

fun truthy :: "jsval \<Rightarrow> bool" where
  "truthy Undef \<longleftrightarrow> False"
| "truthy Null \<longleftrightarrow> False"
| "truthy (JBool b) \<longleftrightarrow> b"
| "truthy (JNum n) \<longleftrightarrow> num_truthy n"
| "truthy (JStr s) \<longleftrightarrow> s \<noteq> []"
| "truthy _ \<longleftrightarrow> True"

fun nullish :: "jsval \<Rightarrow> bool" where
  "nullish Undef \<longleftrightarrow> True"
| "nullish Null \<longleftrightarrow> True"
| "nullish _ \<longleftrightarrow> False"

text \<open>\<open>is_object v\<close> is \<open>v && typeof v === "object"\<close>, which arrays satisfy.\<close>

fun is_object :: "jsval \<Rightarrow> bool" where
  "is_object (JArr _) \<longleftrightarrow> True"
| "is_object (JObj _) \<longleftrightarrow> True"
| "is_object _ \<longleftrightarrow> False"

fun is_array :: "jsval \<Rightarrow> bool" where
  "is_array (JArr _) \<longleftrightarrow> True"
| "is_array _ \<longleftrightarrow> False"

fun is_string :: "jsval \<Rightarrow> bool" where
  "is_string (JStr _) \<longleftrightarrow> True"
| "is_string _ \<longleftrightarrow> False"

fun is_boolean :: "jsval \<Rightarrow> bool" where
  "is_boolean (JBool _) \<longleftrightarrow> True"
| "is_boolean _ \<longleftrightarrow> False"

text \<open>The elements of an array; \<open>Array.isArray(v) ? v : []\<close>.\<close>

fun items :: "jsval \<Rightarrow> jsval list" where
  "items (JArr vs) = vs"
| "items _ = []"

definition js_or :: "jsval \<Rightarrow> jsval \<Rightarrow> jsval" where
  "js_or a b = (if truthy a then a else b)"

definition js_nvl :: "jsval \<Rightarrow> jsval \<Rightarrow> jsval" where
  "js_nvl a b = (if nullish a then b else a)"

lemmas [js_eval] = js_or_def js_nvl_def

text \<open>
  \<open>pget v k\<close> is \<open>v?.k\<close>, and \<open>v.k\<close> where the code knows \<open>v\<close> is neither null
  nor undefined. Only own properties of plain objects are found: the property names the
  code reads are not inherited ones.
\<close>

definition lookup :: "jstr \<Rightarrow> (jstr \<times> jsval) list \<Rightarrow> jsval" where
  "lookup k ps = (case map_of ps k of None \<Rightarrow> Undef | Some v \<Rightarrow> v)"

fun props :: "jsval \<Rightarrow> (jstr \<times> jsval) list" where
  "props (JObj ps) = ps"
| "props _ = []"

definition pget :: "jsval \<Rightarrow> string \<Rightarrow> jsval" where
  "pget v k = lookup (js k) (props v)"

text \<open>
  Writing a property keeps the enumeration order of JavaScript: keys that are array
  indices come first in ascending order, the others in order of insertion.
\<close>

definition is_index :: "jstr \<Rightarrow> bool" where
  "is_index k \<longleftrightarrow> k \<noteq> [] \<and> length k \<le> 10 \<and> list_all is_digit k \<and> (hd k \<noteq> 48 \<or> length k = 1)
     \<and> dec_val k < 4294967295"

fun insert_key :: "jstr \<Rightarrow> jsval \<Rightarrow> (jstr \<times> jsval) list \<Rightarrow> (jstr \<times> jsval) list" where
  "insert_key k v [] = [(k, v)]"
| "insert_key k v ((k', v') # ps) =
     (if is_index k \<and> (\<not> is_index k' \<or> dec_val k < dec_val k') then (k, v) # (k', v') # ps
      else (k', v') # insert_key k v ps)"

definition put :: "jstr \<Rightarrow> jsval \<Rightarrow> (jstr \<times> jsval) list \<Rightarrow> (jstr \<times> jsval) list" where
  "put k v ps = (if k \<in> fst ` set ps then aput k v ps else insert_key k v ps)"

definition obj :: "(string \<times> jsval) list \<Rightarrow> jsval" where
  "obj fs = JObj (foldl (\<lambda>ps (k, v). put (js k) v ps) [] fs)"

text \<open>\<open>{ ...base, k1: v1, k2: v2 }\<close>.\<close>

definition spread :: "jsval \<Rightarrow> (string \<times> jsval) list \<Rightarrow> jsval" where
  "spread base fs = JObj (foldl (\<lambda>ps (k, v). put (js k) v ps) (props base) fs)"

lemma insert_key_eq: "\<not> is_index k \<Longrightarrow> insert_key k v ps = ps @ [(k, v)]"
  by (induction k v ps rule: insert_key.induct) auto

lemma set_insert_key [simp]: "set (insert_key k v ps) = insert (k, v) (set ps)"
  by (induction k v ps rule: insert_key.induct) auto

lemma map_of_insert_key:
  "k \<notin> fst ` set ps \<Longrightarrow> map_of (insert_key k v ps) = (map_of ps)(k \<mapsto> v)"
  by (induction k v ps rule: insert_key.induct) (auto simp: fun_eq_iff)

lemma map_of_put [simp]: "map_of (put k v ps) = (map_of ps)(k \<mapsto> v)"
  by (simp add: put_def map_of_insert_key)

lemma keys_put [simp]: "fst ` set (put k v ps) = insert k (fst ` set ps)"
  by (auto simp: put_def)

lemma distinct_insert_key:
  "distinct (map fst ps) \<Longrightarrow> k \<notin> fst ` set ps \<Longrightarrow> distinct (map fst (insert_key k v ps))"
  by (induction k v ps rule: insert_key.induct) (auto simp: image_iff)

lemma distinct_put [intro]: "distinct (map fst ps) \<Longrightarrow> distinct (map fst (put k v ps))"
  by (auto simp: put_def distinct_insert_key)

lemma set_put: "set (put k v ps) \<subseteq> insert (k, v) (set ps)"
  by (auto simp: put_def dest: subsetD [OF set_aput])

lemma lookup_Nil [simp]: "lookup k [] = Undef"
  by (simp add: lookup_def)

lemma lookup_Cons [simp]: "lookup k ((k', v) # ps) = (if k = k' then v else lookup k ps)"
  by (simp add: lookup_def)

lemma lookup_put [simp]: "lookup k (put k' v ps) = (if k = k' then v else lookup k ps)"
  by (simp add: lookup_def)

lemma pget_simps [simp]:
  "pget Undef k = Undef" "pget Null k = Undef" "pget (JBool b) k = Undef" "pget (JNum n) k = Undef"
  "pget (JStr s) k = Undef" "pget (JArr vs) k = Undef" "pget (JObj ps) k = lookup (js k) ps"
  by (simp_all add: pget_def)

lemma lookup_fold_put:
  "lookup (js k) (foldl (\<lambda>ps (k, v). put (js k) v ps) ps fs) =
     (case map_of (rev fs) k of None \<Rightarrow> lookup (js k) ps | Some v \<Rightarrow> v)"
proof (induction fs rule: rev_induct)
  case (snoc f fs)
  then show ?case by (cases f) (auto split: option.splits)
qed simp

lemma pget_spread:
  "pget (spread base fs) k = (case map_of (rev fs) k of None \<Rightarrow> pget base k | Some v \<Rightarrow> v)"
  by (auto simp: spread_def pget_def lookup_fold_put split: option.splits)

lemma pget_obj: "pget (obj fs) k = (case map_of (rev fs) k of None \<Rightarrow> Undef | Some v \<Rightarrow> v)"
  by (auto simp: obj_def lookup_fold_put split: option.splits)

lemma is_object_obj [simp]: "is_object (obj fs)" and is_object_spread [simp]: "is_object (spread b fs)"
    and is_array_obj [simp]: "\<not> is_array (obj fs)" and truthy_obj [simp]: "truthy (obj fs)"
    and truthy_spread [simp]: "truthy (spread b fs)"
  by (simp_all add: obj_def spread_def)

section \<open>Conversions\<close>

fun to_string :: "jsval \<Rightarrow> jstr" where
  "to_string Undef = js ''undefined''"
| "to_string Null = js ''null''"
| "to_string (JBool True) = js ''true''"
| "to_string (JBool False) = js ''false''"
| "to_string (JNum n) = num_to_str n"
| "to_string (JStr s) = s"
| "to_string (JArr vs) = join (js '','') (map (\<lambda>v. if nullish v then [] else to_string v) vs)"
| "to_string (JObj _) = js ''[object Object]''"

fun to_number :: "jsval \<Rightarrow> jsnum" where
  "to_number Undef = NaN"
| "to_number Null = Fin 0"
| "to_number (JBool b) = (if b then Fin 1 else Fin 0)"
| "to_number (JNum n) = n"
| "to_number (JStr s) = str_to_num s"
| "to_number (JArr vs) = str_to_num (to_string (JArr vs))"
| "to_number (JObj _) = NaN"

text \<open>\<open>{ ...v }\<close> copies the own properties of any value: units of strings and elements of arrays
  under their indices.\<close>

definition own_props :: "jsval \<Rightarrow> (jstr \<times> jsval) list" where
  "own_props v =
     (case v of
        JStr s \<Rightarrow> map (\<lambda>(i, c). (dec_digits (int i), JStr [c])) (enumerate 0 s)
      | JArr vs \<Rightarrow> map (\<lambda>(i, x). (dec_digits (int i), x)) (enumerate 0 vs)
      | _ \<Rightarrow> props v)"

definition spread_own :: "jsval \<Rightarrow> (string \<times> jsval) list \<Rightarrow> jsval" where
  "spread_own v fs = spread (JObj (own_props v)) fs"

lemma pget_spread_own:
  "pget (spread_own v fs) k = (case map_of (rev fs) k of None \<Rightarrow> lookup (js k) (own_props v) | Some x \<Rightarrow> x)"
  by (simp add: spread_own_def pget_spread split: option.split)

abbreviation jint :: "int \<Rightarrow> jsval" where
  "jint i \<equiv> JNum (Fin (of_int i))"

abbreviation jlit :: "string \<Rightarrow> jsval" where
  "jlit s \<equiv> JStr (js s)"

text \<open>A size that counts the code units of strings, for recursion through parsed text.\<close>

fun jsize :: "jsval \<Rightarrow> nat" where
  "jsize (JStr s) = Suc (length s)"
| "jsize (JArr vs) = Suc (sum_list (map jsize vs))"
| "jsize (JObj ps) = Suc (sum_list (map (\<lambda>p. jsize (snd p)) ps))"
| "jsize _ = 1"

lemma jsize_pos [simp]: "0 < jsize v"
  by (cases v) auto

lemma jsize_item: "v \<in> set vs \<Longrightarrow> jsize v < jsize (JArr vs)"
  by (simp add: less_Suc_eq_le member_le_sum_list)

lemma jsize_value: "p \<in> set ps \<Longrightarrow> jsize (snd p) < jsize (JObj ps)"
  by (simp add: less_Suc_eq_le member_le_sum_list)

lemma jsize_aput: "jsize (JObj (aput k v ps)) \<le> jsize (JObj ps) + jsize v"
  by (induction k v ps rule: aput.induct) auto

lemma jsize_insert_key: "jsize (JObj (insert_key k v ps)) = jsize (JObj ps) + jsize v"
  by (induction k v ps rule: insert_key.induct) auto

lemma jsize_put: "jsize (JObj (put k v ps)) \<le> jsize (JObj ps) + jsize v"
  using jsize_aput [of k v ps] jsize_insert_key [of k v ps] by (simp add: put_def)

end
