(* ===== verification/Js_Json.thy ===== *)
theory Js_Json
  imports Js_Value
begin

text \<open>
  \<open>JSON.parse\<close> and \<open>JSON.stringify\<close> on the values of \<open>Js_Value\<close>. The parser is a
  recursive descent over the code units with a fuel argument: every call spends one unit and
  the entry point supplies \<open>2 * length s + 1\<close> units, which \<open>parse_fuel_enough\<close> shows
  to be enough (more fuel never changes the result). \<open>json_parse_size\<close> bounds the size of the
  parsed value by the length of the text; recursions of the program that parse strings found
  inside parsed values terminate because of it.
\<close>

section \<open>Parsing\<close>

definition json_ws :: "u16 \<Rightarrow> bool" where
  "json_ws c \<longleftrightarrow> c = 32 \<or> c = 9 \<or> c = 10 \<or> c = 13"

definition skip_ws :: "jstr \<Rightarrow> jstr" where
  "skip_ws s = dropWhile json_ws s"

definition hex_val :: "jstr \<Rightarrow> u16 option" where
  "hex_val ds = (if \<exists>c \<in> set ds. 16 \<le> radix_digit c then None
     else Some (word_of_int (foldl (\<lambda>a c. 16 * a + radix_digit c) 0 ds)))"

definition escape_val :: "u16 \<Rightarrow> u16 option" where
  "escape_val c =
     (if c = 34 then Some 34 else if c = 92 then Some 92 else if c = 47 then Some 47
      else if c = 98 then Some 8 else if c = 102 then Some 12 else if c = 110 then Some 10
      else if c = 114 then Some 13 else if c = 116 then Some 9 else None)"

text \<open>The rest of a string literal after its opening quote.\<close>

function parse_chars :: "jstr \<Rightarrow> (jstr \<times> jstr) option" where
  "parse_chars [] = None"
| "parse_chars (c # s) =
     (if c = 34 then Some ([], s)
      else if c < 32 then None
      else if c = 92 then
        (case s of
           [] \<Rightarrow> None
         | e # s' \<Rightarrow>
             (if e = 117 then
                (if length s' < 4 then None
                 else case hex_val (take 4 s') of
                        None \<Rightarrow> None
                      | Some u \<Rightarrow> map_option (apfst ((#) u)) (parse_chars (drop 4 s')))
              else case escape_val e of
                     None \<Rightarrow> None
                   | Some u \<Rightarrow> map_option (apfst ((#) u)) (parse_chars s')))
      else map_option (apfst ((#) c)) (parse_chars s))"
  by pat_completeness auto
termination by (relation "measure length") auto

lemma parse_chars_code [code]:
  "parse_chars [] = None"
  "parse_chars (c # s) =
     (let n = uint c in
      if n = 34 then Some ([], s)
      else if n < 32 then None
      else if n = 92 then
        (case s of
           [] \<Rightarrow> None
         | e # s' \<Rightarrow>
             (if e = 117 then
                (if length s' < 4 then None
                 else case hex_val (take 4 s') of
                        None \<Rightarrow> None
                      | Some u \<Rightarrow> map_option (apfst ((#) u)) (parse_chars (drop 4 s')))
              else case escape_val e of
                     None \<Rightarrow> None
                   | Some u \<Rightarrow> map_option (apfst ((#) u)) (parse_chars s')))
      else map_option (apfst ((#) c)) (parse_chars s))"
  by (simp_all add: word_uint_eq_iff word_less_def split: list.split)

text \<open>\<open>-?(0|[1-9]\d*)(\.\d+)?([eE][+-]?\d+)?\<close>; what does not fit the grammar is rejected.\<close>

definition int_part :: "jstr \<Rightarrow> (jstr \<times> jstr) option" where
  "int_part s = (case s of
     [] \<Rightarrow> None
   | c # r \<Rightarrow> if c = 48 then Some ([c], r)
             else if is_digit c then Some (takeWhile is_digit s, dropWhile is_digit s)
             else None)"

definition frac_part :: "jstr \<Rightarrow> jstr \<times> jstr" where
  "frac_part s = (case s of
     [] \<Rightarrow> ([], s)
   | c # r \<Rightarrow> if c = 46 \<and> takeWhile is_digit r \<noteq> []
             then (takeWhile is_digit r, dropWhile is_digit r) else ([], s))"

definition minus_prefix :: "jstr \<Rightarrow> bool \<times> jstr" where
  "minus_prefix s = (case s of [] \<Rightarrow> (False, s) | c # r \<Rightarrow> if c = 45 then (True, r) else (False, s))"

definition parse_number :: "jstr \<Rightarrow> (jsnum \<times> jstr) option" where
  "parse_number s =
     (case minus_prefix s of (neg, u) \<Rightarrow>
      (case int_part u of
         None \<Rightarrow> None
       | Some (ds, r1) \<Rightarrow>
           (case frac_part r1 of (fs, r2) \<Rightarrow>
            (case exp_prefix r2 of (e, r3) \<Rightarrow>
               Some (num_of_dec (if neg then - dec_val (ds @ fs) else dec_val (ds @ fs))
                       (e - int (length fs)), r3)))))"

fun parse_value :: "nat \<Rightarrow> jstr \<Rightarrow> (jsval \<times> jstr) option"
  and parse_elems :: "nat \<Rightarrow> jstr \<Rightarrow> (jsval list \<times> jstr) option"
  and parse_members :: "nat \<Rightarrow> (jstr \<times> jsval) list \<Rightarrow> jstr \<Rightarrow> ((jstr \<times> jsval) list \<times> jstr) option" where
  "parse_value 0 s = None"
| "parse_value (Suc n) s =
     (case skip_ws s of
        [] \<Rightarrow> None
      | c # r \<Rightarrow>
          (if c = 34 then map_option (apfst JStr) (parse_chars r)
           else if c = 91 then
             (case skip_ws r of
                [] \<Rightarrow> None
              | d # r' \<Rightarrow> if d = 93 then Some (JArr [], r')
                         else map_option (apfst JArr) (parse_elems n r))
           else if c = 123 then
             (case skip_ws r of
                [] \<Rightarrow> None
              | d # r' \<Rightarrow> if d = 125 then Some (JObj [], r')
                         else map_option (apfst JObj) (parse_members n [] r))
           else if starts_with (js ''true'') (c # r) then Some (JBool True, drop 4 (c # r))
           else if starts_with (js ''false'') (c # r) then Some (JBool False, drop 5 (c # r))
           else if starts_with (js ''null'') (c # r) then Some (Null, drop 4 (c # r))
           else map_option (apfst JNum) (parse_number (c # r))))"
| "parse_elems 0 s = None"
| "parse_elems (Suc n) s =
     (case parse_value n s of
        None \<Rightarrow> None
      | Some (v, r) \<Rightarrow>
          (case skip_ws r of
             [] \<Rightarrow> None
           | c # r' \<Rightarrow>
               (if c = 93 then Some ([v], r')
                else if c = 44 then map_option (apfst ((#) v)) (parse_elems n r')
                else None)))"
| "parse_members 0 ps s = None"
| "parse_members (Suc n) ps s =
     (case skip_ws s of
        [] \<Rightarrow> None
      | q # r \<Rightarrow>
          (if q \<noteq> 34 then None
           else case parse_chars r of
                  None \<Rightarrow> None
                | Some (k, r1) \<Rightarrow>
                    (case skip_ws r1 of
                       [] \<Rightarrow> None
                     | c # r2 \<Rightarrow>
                         (if c \<noteq> 58 then None
                          else case parse_value n r2 of
                                 None \<Rightarrow> None
                               | Some (v, r3) \<Rightarrow>
                                   (case skip_ws r3 of
                                      [] \<Rightarrow> None
                                    | d # r4 \<Rightarrow>
                                        (if d = 125 then Some (put k v ps, r4)
                                         else if d = 44 then parse_members n (put k v ps) r4
                                         else None))))))"

definition json_parse :: "jstr \<Rightarrow> jsval option" where
  "json_parse s = (case parse_value (2 * length s + 1) s of
     None \<Rightarrow> None
   | Some (v, r) \<Rightarrow> if skip_ws r = [] then Some v else None)"

section \<open>Size and fuel\<close>

lemma length_skip_ws [simp]: "length (skip_ws s) \<le> length s"
  by (simp add: skip_ws_def length_dropWhile_le)

lemma skip_ws_Cons: "skip_ws s = c # r \<Longrightarrow> length r < length s"
  using length_skip_ws [of s] by simp

lemma parse_chars_size: "parse_chars s = Some (x, r) \<Longrightarrow> length x + length r < length s"
proof (induction s arbitrary: x r rule: parse_chars.induct)
  case (2 c s)
  show ?case
  proof (cases "c = 34 \<or> c < 32 \<or> c \<noteq> 92")
    case True
    with 2(4) show ?thesis
      using 2(3) by (auto split: if_splits)
  next
    case False
    then obtain e s' where s: "s = e # s'"
      using 2(4) by (auto split: list.splits)
    show ?thesis
    proof (cases "e = 117")
      case True
      with False s 2(4) obtain u y where
          "hex_val (take 4 s') = Some u" "parse_chars (drop 4 s') = Some (y, r)" "x = u # y"
          "4 \<le> length s'"
        by (auto split: if_splits option.splits)
      with 2(1) [OF _ _ _ s True] False show ?thesis by (fastforce simp: s)
    next
      case e: False
      with False s 2(4) obtain u y where
          "escape_val e = Some u" "parse_chars s' = Some (y, r)" "x = u # y"
        by (auto split: option.splits)
      with 2(2) [OF _ _ _ s e] False show ?thesis by (fastforce simp: s)
    qed
  qed
qed simp

lemma length_exp_prefix: "exp_prefix s = (e, r) \<Longrightarrow> length r \<le> length s"
  by (auto simp: exp_prefix_def Let_def le_SucI length_dropWhile_le
      split: list.splits prod.splits if_splits)

lemma length_int_part: "int_part s = Some (ds, r) \<Longrightarrow> length r < length s"
  by (auto simp: int_part_def le_imp_less_Suc length_dropWhile_le split: list.splits if_splits)

lemma length_frac_part: "frac_part s = (fs, r) \<Longrightarrow> length r \<le> length s"
  by (auto simp: frac_part_def le_SucI length_dropWhile_le split: list.splits if_splits)

lemma length_minus_prefix: "minus_prefix s = (b, r) \<Longrightarrow> length r \<le> length s"
  by (auto simp: minus_prefix_def split: list.splits if_splits)

lemma parse_number_size: "parse_number s = Some (n, r) \<Longrightarrow> length r < length s"
  by (auto simp: parse_number_def split: prod.splits option.splits
      dest!: length_exp_prefix length_int_part length_frac_part length_minus_prefix)

lemma length_starts_with: "starts_with p s \<Longrightarrow> length p \<le> length s"
  by (auto simp: starts_with_append)

lemma parse_size_all:
  "(\<forall>s v r. parse_value n s = Some (v, r) \<longrightarrow> jsize v + length r \<le> length s) \<and>
   (\<forall>s vs r. parse_elems n s = Some (vs, r) \<longrightarrow> jsize (JArr vs) + length r \<le> length s) \<and>
   (\<forall>ps s qs r. parse_members n ps s = Some (qs, r) \<longrightarrow>
      jsize (JObj qs) + length r \<le> jsize (JObj ps) + length s)"
proof (induction n)
  case (Suc n)
  then have value_n: "\<And>s v r. parse_value n s = Some (v, r) \<Longrightarrow> jsize v + length r \<le> length s"
    and elems_n: "\<And>s vs r. parse_elems n s = Some (vs, r) \<Longrightarrow> jsize (JArr vs) + length r \<le> length s"
    and members_n: "\<And>ps s qs r. parse_members n ps s = Some (qs, r) \<Longrightarrow>
      jsize (JObj qs) + length r \<le> jsize (JObj ps) + length s"
    by blast+
  have "jsize v + length r \<le> length s" if a: "parse_value (Suc n) s = Some (v, r)" for s v r
  proof -
    from a obtain c t where s: "skip_ws s = c # t" by (auto split: list.splits)
    note t = skip_ws_Cons [OF s]
    consider "c = 34" | "c = 91" | "c = 123" | "c \<noteq> 34" "c \<noteq> 91" "c \<noteq> 123" by blast
    then show ?thesis
    proof cases
      case 1
      with a s t show ?thesis by (auto dest!: parse_chars_size)
    next
      case 2
      with a s consider d u where "skip_ws t = d # u" "v = JArr []" "r = u"
        | vs where "v = JArr vs" "parse_elems n t = Some (vs, r)"
        by (auto split: list.splits if_splits)
      then show ?thesis using t by cases (auto dest: skip_ws_Cons elems_n)
    next
      case 3
      with a s consider d u where "skip_ws t = d # u" "v = JObj []" "r = u"
        | ps where "v = JObj ps" "parse_members n [] t = Some (ps, r)"
        by (auto split: list.splits if_splits)
      then show ?thesis using t by cases (auto dest: skip_ws_Cons members_n)
    next
      case 4
      with a s t show ?thesis
        by (auto split: if_splits dest!: parse_number_size length_starts_with)
    qed
  qed
  moreover have "jsize (JArr vs) + length r \<le> length s"
    if a: "parse_elems (Suc n) s = Some (vs, r)" for s vs r
  proof -
    from a obtain v r1 c r2 where v: "parse_value n s = Some (v, r1)" and c: "skip_ws r1 = c # r2"
      and fin: "(if c = 93 then Some ([v], r2)
                 else if c = 44 then map_option (apfst ((#) v)) (parse_elems n r2) else None)
                = Some (vs, r)"
      by (auto split: option.splits list.splits)
    from fin show ?thesis
      using value_n [OF v] skip_ws_Cons [OF c]
      by (auto split: if_splits dest!: elems_n)
  qed
  moreover have "jsize (JObj qs) + length r \<le> jsize (JObj ps) + length s"
    if a: "parse_members (Suc n) ps s = Some (qs, r)" for ps s qs r
  proof -
    from a obtain q t k r1 c r2 w r3 d r4 where
        q: "skip_ws s = q # t" and k: "parse_chars t = Some (k, r1)"
        and c: "skip_ws r1 = c # r2" and w: "parse_value n r2 = Some (w, r3)"
        and d: "skip_ws r3 = d # r4"
        and fin: "(if d = 125 then Some (put k w ps, r4)
                   else if d = 44 then parse_members n (put k w ps) r4 else None) = Some (qs, r)"
      by (auto split: list.splits option.splits if_splits)
    have "jsize w + length r4 + length k < length s"
      using skip_ws_Cons [OF q] parse_chars_size [OF k] skip_ws_Cons [OF c] value_n [OF w]
        skip_ws_Cons [OF d] by linarith
    moreover have "jsize (JObj qs) + length r \<le> jsize (JObj (put k w ps)) + length r4"
      using fin by (auto split: if_splits dest: members_n)
    ultimately show ?thesis using jsize_put [of k w ps] by linarith
  qed
  ultimately show ?case by blast
qed simp

lemmas parse_size =
  parse_size_all [THEN conjunct1, rule_format]
  parse_size_all [THEN conjunct2, THEN conjunct1, rule_format]
  parse_size_all [THEN conjunct2, THEN conjunct2, rule_format]

lemma parse_value_shrinks: "parse_value n s = Some (v, r) \<Longrightarrow> length r < length s"
  using parse_size(1) [of n s v r] jsize_pos [of v] by linarith

lemma json_parse_size: "json_parse s = Some v \<Longrightarrow> jsize v \<le> length s"
  unfolding json_parse_def by (auto split: option.splits if_splits simp del: parse_value.simps dest!: parse_size(1))

lemma json_parse_smaller: "json_parse s = Some v \<Longrightarrow> jsize v < jsize (JStr s)"
  using json_parse_size [of s v] by simp

text \<open>The fuel of \<open>json_parse\<close> suffices: with it or with more, the result is the same.\<close>

lemma parse_fuel_all:
  "(\<forall>m s. 2 * length s < n \<longrightarrow> 2 * length s < m \<longrightarrow> parse_value n s = parse_value m s) \<and>
   (\<forall>m s. 2 * length s + 1 < n \<longrightarrow> 2 * length s + 1 < m \<longrightarrow> parse_elems n s = parse_elems m s) \<and>
   (\<forall>m ps s. 2 * length s + 1 < n \<longrightarrow> 2 * length s + 1 < m \<longrightarrow>
      parse_members n ps s = parse_members m ps s)"
proof (induction n)
  case (Suc n)
  then have value_n: "\<And>m s. 2 * length s < n \<Longrightarrow> 2 * length s < m \<Longrightarrow> parse_value n s = parse_value m s"
    and elems_n: "\<And>m s. 2 * length s + 1 < n \<Longrightarrow> 2 * length s + 1 < m \<Longrightarrow>
      parse_elems n s = parse_elems m s"
    and members_n: "\<And>m ps s. 2 * length s + 1 < n \<Longrightarrow> 2 * length s + 1 < m \<Longrightarrow>
      parse_members n ps s = parse_members m ps s"
    by blast+
  have "parse_value (Suc n) s = parse_value m s" if "2 * length s < Suc n" "2 * length s < m" for m s
  proof -
    from that obtain m' where m: "m = Suc m'" by (cases m) auto
    have sub: "parse_elems n r = parse_elems m' r" "parse_members n [] r = parse_members m' [] r"
      if "skip_ws s = c # r" for c r
      using skip_ws_Cons [OF that] \<open>2 * length s < Suc n\<close> \<open>2 * length s < m\<close>
      by (auto simp: m intro!: elems_n members_n)
    show ?thesis by (auto simp: m sub split: list.splits)
  qed
  moreover have "parse_elems (Suc n) s = parse_elems m s"
    if "2 * length s + 1 < Suc n" "2 * length s + 1 < m" for m s
  proof -
    from that obtain m' where m: "m = Suc m'" by (cases m) auto
    have v: "parse_value n s = parse_value m' s" using that by (intro value_n) (auto simp: m)
    have sub: "parse_elems n r2 = parse_elems m' r2"
      if "parse_value m' s = Some (w, r1)" "skip_ws r1 = c # r2" for w r1 c r2
      using parse_value_shrinks [OF that(1)] skip_ws_Cons [OF that(2)]
        \<open>2 * length s + 1 < Suc n\<close> \<open>2 * length s + 1 < m\<close>
      by (intro elems_n) (auto simp: m)
    show ?thesis by (auto simp: m v sub split: list.splits option.splits)
  qed
  moreover have "parse_members (Suc n) ps s = parse_members m ps s"
    if "2 * length s + 1 < Suc n" "2 * length s + 1 < m" for m ps s
  proof -
    from that obtain m' where m: "m = Suc m'" by (cases m) auto
    show ?thesis
    proof (cases "skip_ws s")
      case (Cons q t)
      show ?thesis
      proof (cases "parse_chars t")
        case (Some p)
        obtain k r1 where p: "p = (k, r1)" by (cases p)
        show ?thesis
        proof (cases "skip_ws r1")
          case c: (Cons c r2)
          have len: "length r2 + 2 < length s"
            using skip_ws_Cons [OF Cons] parse_chars_size [OF Some [unfolded p]] skip_ws_Cons [OF c]
            by linarith
          have v: "parse_value n r2 = parse_value m' r2"
            by (rule value_n) (use len that in \<open>simp_all add: m\<close>)
          show ?thesis
          proof (cases "parse_value m' r2")
            case w: (Some w)
            obtain w' r3 where w': "w = (w', r3)" by (cases w)
            show ?thesis
            proof (cases "skip_ws r3")
              case d: (Cons d r4)
              have "parse_members n ps' r4 = parse_members m' ps' r4" for ps'
                by (rule members_n) (use len parse_value_shrinks [OF w [unfolded w']]
                  skip_ws_Cons [OF d] that in \<open>simp_all add: m\<close>)
              then show ?thesis by (simp add: m Cons Some p c v w w' d)
            qed (simp add: m Cons Some p c v w w')
          qed (simp add: m Cons Some p c v)
        qed (simp add: m Cons Some p)
      qed (simp add: m Cons)
    qed (simp add: m)
  qed
  ultimately show ?case by blast
qed simp

lemma parse_fuel_enough:
  "2 * length s < n \<Longrightarrow> parse_value n s = parse_value (2 * length s + 1) s"
  by (rule parse_fuel_all [THEN conjunct1, rule_format]) simp_all

declare parse_value.simps [simp del] parse_elems.simps [simp del] parse_members.simps [simp del]

section \<open>Printing\<close>

definition hex_digit :: "int \<Rightarrow> u16" where
  "hex_digit d = word_of_int (if d < 10 then 48 + d else 87 + d)"

definition unicode_escape :: "u16 \<Rightarrow> jstr" where
  "unicode_escape c = (let n = uint c in
     [92, 117, hex_digit (n div 4096), hex_digit (n div 256 mod 16), hex_digit (n div 16 mod 16),
      hex_digit (n mod 16)])"

definition is_high :: "u16 \<Rightarrow> bool" where
  "is_high c \<longleftrightarrow> 0xD800 \<le> c \<and> c \<le> 0xDBFF"

definition is_low :: "u16 \<Rightarrow> bool" where
  "is_low c \<longleftrightarrow> 0xDC00 \<le> c \<and> c \<le> 0xDFFF"

definition quote_unit :: "u16 \<Rightarrow> jstr" where
  "quote_unit c =
     (if c = 34 then [92, 34] else if c = 92 then [92, 92] else if c = 8 then [92, 98]
      else if c = 12 then [92, 102] else if c = 10 then [92, 110] else if c = 13 then [92, 114]
      else if c = 9 then [92, 116]
      else if c < 32 \<or> is_high c \<or> is_low c then unicode_escape c else [c])"

lemma quote_unit_code [code]:
  "quote_unit c = (let n = uint c in
      if n = 34 then [92, 34] else if n = 92 then [92, 92] else if n = 8 then [92, 98]
      else if n = 12 then [92, 102] else if n = 10 then [92, 110] else if n = 13 then [92, 114]
      else if n = 9 then [92, 116]
      else if n < 32 \<or> (0xD800 \<le> n \<and> n \<le> 0xDFFF) then unicode_escape c else [c])"
  unfolding quote_unit_def is_high_def is_low_def word_uint_eq_iff word_le_def word_less_def Let_def by auto

text \<open>Surrogate pairs are kept, lone surrogates are escaped.\<close>

fun quote_units :: "jstr \<Rightarrow> jstr" where
  "quote_units [] = []"
| "quote_units [c] = quote_unit c"
| "quote_units (c # d # s) =
     (if is_high c \<and> is_low d then c # d # quote_units s else quote_unit c @ quote_units (d # s))"

definition quote :: "jstr \<Rightarrow> jstr" where
  "quote s = 34 # quote_units s @ [34]"

fun is_undef :: "jsval \<Rightarrow> bool" where
  "is_undef Undef \<longleftrightarrow> True"
| "is_undef _ \<longleftrightarrow> False"

text \<open>
  The text of a value inside an array or object; an undefined element prints as null and an
  undefined property is left out. At top level \<open>JSON.stringify(undefined)\<close> is undefined.
\<close>

fun json_text :: "jsval \<Rightarrow> jstr" where
  "json_text Undef = js ''null''"
| "json_text Null = js ''null''"
| "json_text (JBool b) = (if b then js ''true'' else js ''false'')"
| "json_text (JNum n) = (if num_finite n then num_to_str n else js ''null'')"
| "json_text (JStr s) = quote s"
| "json_text (JArr vs) = js ''['' @ join (js '','') (map json_text vs) @ js '']''"
| "json_text (JObj ps) = 123 # join (js '','')
     (map (\<lambda>p. quote (fst p) @ js '':'' @ json_text (snd p)) (filter (\<lambda>p. \<not> is_undef (snd p)) ps)) @ [125]"

definition json_stringify :: "jsval \<Rightarrow> jsval" where
  "json_stringify v = (if is_undef v then Undef else JStr (json_text v))"

end
