(* ===== verification/Worker_Usage.thy ===== *)
theory Worker_Usage
  imports Js_Json
begin

text \<open>
  \<open>worker/src/usage.mjs\<close>: finding token counts in upstream frames.

  \<^item> \<open>coerce_count\<close>, \<open>pick_keys\<close>, \<open>parse_maybe_json\<close> and \<open>visit\<close> are the helpers of
    \<open>extractUsage\<close>; the mutable \<open>best\<close> of the source is the record \<open>best_usage\<close> passed
    through the walk.
  \<^item> \<open>resolve_usage\<close> is \<open>resolveUsage\<close>: its fallback argument is the record \<open>fallback\<close>
    (an absent field is \<open>None\<close>), its result the record \<open>usage\<close>; \<open>usage_js\<close> is the object the
    code builds, which the stream reader feeds back into the next extraction.
  \<^item> \<open>over\<close> is the algebra behind the walk: visiting a value overrides the counts found so
    far by those it holds (\<open>visit_over\<close>), so a walk is a fold of independent contributions.
\<close>

section \<open>Definitions\<close>

definition PROMPT_KEYS :: "string list" where
  "PROMPT_KEYS = [''prompt_tokens'', ''input_tokens'', ''input_token_count'', ''total_input_tokens'',
     ''promptTokens'', ''inputTokens'']"

definition COMPLETION_KEYS :: "string list" where
  "COMPLETION_KEYS = [''completion_tokens'', ''output_tokens'', ''output_token_count'',
     ''total_output_tokens'', ''completionTokens'', ''outputTokens'']"

definition TOTAL_KEYS :: "string list" where
  "TOTAL_KEYS = [''total_tokens'', ''total_token_count'', ''totalTokens'']"

definition CACHE_READ_KEYS :: "string list" where
  "CACHE_READ_KEYS = [''cache_read_tokens'', ''cache_read_input_tokens'', ''cached_tokens'',
     ''cached_content_token_count'']"

definition CACHE_WRITE_KEYS :: "string list" where
  "CACHE_WRITE_KEYS = [''cache_write_tokens'', ''cache_creation_input_tokens'', ''cache_creation_tokens'']"

definition CREDIT_KEYS :: "string list" where
  "CREDIT_KEYS = [''credits'', ''total_credits'', ''original_credits'']"

definition coerce_count :: "jsval \<Rightarrow> rat option" where
  "coerce_count v =
     (if nullish v \<or> v = JStr [] then None
      else case to_number v of Fin q \<Rightarrow> if 0 \<le> q then Some q else None | _ \<Rightarrow> None)"

fun pick_keys :: "jsval \<Rightarrow> string list \<Rightarrow> rat option" where
  "pick_keys v [] = None"
| "pick_keys v (k # ks) =
     (case map_of (props v) (js k) of
        None \<Rightarrow> pick_keys v ks
      | Some x \<Rightarrow> (case coerce_count x of Some n \<Rightarrow> Some n | None \<Rightarrow> pick_keys v ks))"

definition parse_maybe_json :: "jstr \<Rightarrow> jsval option" where
  "parse_maybe_json s =
     (let t = trim s in
      if \<not> starts_with (js ''{'') t \<and> \<not> starts_with (js ''['') t then None else json_parse t)"

record best_usage =
  b_prompt :: "rat option"
  b_completion :: "rat option"
  b_total :: "rat option"
  b_cache_read :: "rat option"
  b_cache_write :: "rat option"
  b_credits :: "rat option"

definition no_usage :: best_usage where
  "no_usage = \<lparr>b_prompt = None, b_completion = None, b_total = None, b_cache_read = None,
     b_cache_write = None, b_credits = None\<rparr>"

text \<open>The six assignments \<open>if (x != null) best.f = x\<close> for the counts an object holds itself.\<close>

definition note_counts :: "jsval \<Rightarrow> best_usage \<Rightarrow> best_usage" where
  "note_counts v b =
     \<lparr>b_prompt = or_else (pick_keys v PROMPT_KEYS) (b_prompt b),
      b_completion = or_else (pick_keys v COMPLETION_KEYS) (b_completion b),
      b_total = or_else (pick_keys v TOTAL_KEYS) (b_total b),
      b_cache_read = or_else (pick_keys v CACHE_READ_KEYS) (b_cache_read b),
      b_cache_write = or_else (pick_keys v CACHE_WRITE_KEYS) (b_cache_write b),
      b_credits = or_else (pick_keys v CREDIT_KEYS) (b_credits b)\<rparr>"

definition NESTED_KEYS :: "string list" where
  "NESTED_KEYS = [''prompt_tokens_details'', ''usage'', ''llm_model_result'', ''body'', ''data'']"

function visit :: "nat \<Rightarrow> jsval \<Rightarrow> best_usage \<Rightarrow> best_usage" where
  "visit d v b =
     (if nullish v \<or> 8 < d then b
      else case v of
        JStr s \<Rightarrow> (case parse_maybe_json s of
                     None \<Rightarrow> b
                   | Some p \<Rightarrow> if truthy p then visit (Suc d) p b else b)
      | JArr vs \<Rightarrow> fold (\<lambda>x. visit (Suc d) x) vs b
      | JObj _ \<Rightarrow> fold (\<lambda>k b'. if truthy (pget v k) then visit (Suc d) (pget v k) b' else b')
                    NESTED_KEYS (note_counts v b)
      | _ \<Rightarrow> b)"
  by pat_completeness auto
termination by (relation "measure (\<lambda>(d, v, b). 9 - d)") auto

declare visit.simps [simp del]

definition extract_usage :: "jsval \<Rightarrow> best_usage" where
  "extract_usage v = visit 0 v no_usage"

definition from_upstream :: "best_usage \<Rightarrow> bool" where
  "from_upstream b \<longleftrightarrow> b_prompt b \<noteq> None \<or> b_completion b \<noteq> None \<or> b_cache_read b \<noteq> None
     \<or> b_cache_write b \<noteq> None"

record usage =
  u_prompt :: rat
  u_completion :: rat
  u_total :: rat
  u_source :: jstr
  u_cache_read :: "rat option"
  u_cache_write :: "rat option"
  u_credits :: "rat option"

record fallback =
  f_prompt :: "rat option"
  f_completion :: "rat option"
  f_source :: "jstr option"
  f_cache_read :: "rat option"
  f_cache_write :: "rat option"

definition no_fallback :: fallback where
  "no_fallback = \<lparr>f_prompt = None, f_completion = None, f_source = None, f_cache_read = None,
     f_cache_write = None\<rparr>"

definition estimates :: "rat \<Rightarrow> rat \<Rightarrow> fallback" where
  "estimates p c = \<lparr>f_prompt = Some p, f_completion = Some c, f_source = Some (js ''estimate''),
     f_cache_read = None, f_cache_write = None\<rparr>"

text \<open>A previous result as the fallback of the next one (\<open>usageAcc || {}\<close>).\<close>

fun fallback_of :: "usage option \<Rightarrow> fallback" where
  "fallback_of None = no_fallback"
| "fallback_of (Some u) = \<lparr>f_prompt = Some (u_prompt u), f_completion = Some (u_completion u),
     f_source = Some (u_source u), f_cache_read = u_cache_read u, f_cache_write = u_cache_write u\<rparr>"

definition resolve_usage :: "jsval \<Rightarrow> fallback \<Rightarrow> usage" where
  "resolve_usage input f =
     (let b = extract_usage input;
          p = the (or_else (or_else (b_prompt b) (f_prompt f)) (Some 0));
          c = the (or_else (or_else (b_completion b) (f_completion f)) (Some 0))
      in \<lparr>u_prompt = p, u_completion = c,
          u_total = the (or_else (b_total b) (Some (p + c))),
          u_source = (if from_upstream b then js ''upstream''
                      else case f_source f of None \<Rightarrow> js ''estimate''
                           | Some s \<Rightarrow> if s = [] then js ''estimate'' else s),
          u_cache_read = or_else (b_cache_read b) (f_cache_read f),
          u_cache_write = or_else (b_cache_write b) (f_cache_write f),
          u_credits = b_credits b\<rparr>)"

definition opt_field :: "string \<Rightarrow> rat option \<Rightarrow> (string \<times> jsval) list" where
  "opt_field k x = (case x of None \<Rightarrow> [] | Some q \<Rightarrow> [(k, JNum (Fin q))])"

text \<open>The object \<open>resolveUsage\<close> returns.\<close>

definition usage_js :: "usage \<Rightarrow> jsval" where
  "usage_js u = obj ([(''prompt_tokens'', JNum (Fin (u_prompt u))),
     (''completion_tokens'', JNum (Fin (u_completion u))),
     (''total_tokens'', JNum (Fin (u_total u))),
     (''source'', JStr (u_source u))]
     @ opt_field ''cache_read_tokens'' (u_cache_read u)
     @ (case u_cache_read u of None \<Rightarrow> []
        | Some q \<Rightarrow> [(''prompt_tokens_details'', obj [(''cached_tokens'', JNum (Fin q))])])
     @ opt_field ''cache_write_tokens'' (u_cache_write u)
     @ opt_field ''credits'' (u_credits u))"

definition opt_usage_js :: "usage option \<Rightarrow> jsval" where
  "opt_usage_js a = (case a of None \<Rightarrow> Null | Some u \<Rightarrow> usage_js u)"

definition usage_looks_useful :: "jsval \<Rightarrow> bool" where
  "usage_looks_useful v \<longleftrightarrow> is_object v \<and>
     (truthy (pget v ''usage'') \<or> truthy (pget v ''llm_model_result'')
      \<or> pick_keys v PROMPT_KEYS \<noteq> None \<or> pick_keys v COMPLETION_KEYS \<noteq> None
      \<or> pick_keys v CACHE_READ_KEYS \<noteq> None \<or> pick_keys v CACHE_WRITE_KEYS \<noteq> None
      \<or> pick_keys v CREDIT_KEYS \<noteq> None)"

section \<open>The override algebra\<close>

definition over :: "best_usage \<Rightarrow> best_usage \<Rightarrow> best_usage" where
  "over n b =
     \<lparr>b_prompt = or_else (b_prompt n) (b_prompt b),
      b_completion = or_else (b_completion n) (b_completion b),
      b_total = or_else (b_total n) (b_total b),
      b_cache_read = or_else (b_cache_read n) (b_cache_read b),
      b_cache_write = or_else (b_cache_write n) (b_cache_write b),
      b_credits = or_else (b_credits n) (b_credits b)\<rparr>"

lemma over_no_usage [simp]: "over n no_usage = n" "over no_usage n = n"
  by (cases n, simp add: over_def no_usage_def)+

lemma over_assoc: "over (over a b) c = over a (over b c)"
  by (simp add: over_def or_else_assoc)

lemma note_counts_over: "note_counts v b = over (note_counts v no_usage) b"
  by (simp add: note_counts_def over_def no_usage_def)

lemma fold_over:
  assumes "\<And>x b. x \<in> set xs \<Longrightarrow> f x b = over (f x no_usage) b"
  shows "fold f xs b = over (fold f xs no_usage) b"
  using assms
proof (induction xs rule: rev_induct)
  case (snoc x xs)
  have IH: "fold f xs b = over (fold f xs no_usage) b"
    by (rule snoc.IH, rule snoc.prems, simp)
  show ?case
    using snoc.prems [of x "fold f xs b"] snoc.prems [of x "fold f xs no_usage"]
    by (simp add: IH over_assoc)
qed simp

text \<open>The walk, one equation for each kind of value.\<close>

definition visit_keys :: "nat \<Rightarrow> jsval \<Rightarrow> best_usage \<Rightarrow> best_usage" where
  "visit_keys d v b =
     fold (\<lambda>k b'. if truthy (pget v k) then visit d (pget v k) b' else b') NESTED_KEYS b"

lemma visit_deep [simp]: "8 < d \<Longrightarrow> visit d v b = b"
  by (simp add: visit.simps)

lemma visit_flat [simp]:
  "visit d Undef b = b" "visit d Null b = b" "visit d (JBool t) b = b" "visit d (JNum n) b = b"
  by (simp_all add: visit.simps)

lemma visit_JStr:
  "d \<le> 8 \<Longrightarrow> visit d (JStr s) b =
     (case parse_maybe_json s of None \<Rightarrow> b | Some p \<Rightarrow> if truthy p then visit (Suc d) p b else b)"
  by (subst visit.simps) simp

lemma visit_JArr: "d \<le> 8 \<Longrightarrow> visit d (JArr vs) b = fold (visit (Suc d)) vs b"
  by (subst visit.simps) simp

lemma visit_JObj:
  "d \<le> 8 \<Longrightarrow> visit d (JObj ps) b = visit_keys (Suc d) (JObj ps) (note_counts (JObj ps) b)"
  by (subst visit.simps) (simp add: visit_keys_def)

lemma visit_over: "visit d v b = over (visit d v no_usage) b"
proof (induction "9 - d" arbitrary: d v b rule: less_induct)
  case less
  show ?case
  proof (cases "8 < d")
    case False
    then have IH: "visit (Suc d) x b = over (visit (Suc d) x no_usage) b" for x b
      by (intro less) simp
    show ?thesis
    proof (cases v)
      case (JStr s)
      show ?thesis
        using False by (auto simp: JStr visit_JStr intro: IH split: option.splits)
    next
      case (JArr vs)
      with False show ?thesis by (simp add: visit_JArr fold_over [of vs "visit (Suc d)" b, OF IH])
    next
      case (JObj ps)
      have keys: "visit_keys (Suc d) v b = over (visit_keys (Suc d) v no_usage) b" for b
        unfolding visit_keys_def by (rule fold_over) (auto intro: IH)
      have "visit d v b = over (visit_keys (Suc d) v no_usage) (over (note_counts v no_usage) b)"
        using False keys [of "note_counts v b"] by (simp add: JObj visit_JObj flip: note_counts_over)
      moreover have "visit d v no_usage = over (visit_keys (Suc d) v no_usage) (note_counts v no_usage)"
        using False keys [of "note_counts v no_usage"] by (simp add: JObj visit_JObj)
      ultimately show ?thesis by (simp add: over_assoc)
    qed simp_all
  qed simp
qed

text \<open>
  The interface of the walk: a visitor that overrides, over contributions of which \<open>none\<close> is
  neutral. The lemmas of the locale are what the clients of the extraction need.
\<close>

locale overriding_visitor =
  fixes step :: "'v \<Rightarrow> 'b \<Rightarrow> 'b" and join2 :: "'b \<Rightarrow> 'b \<Rightarrow> 'b" and none :: 'b
  assumes step_join: "step x b = join2 (step x none) b"
    and join_assoc: "join2 (join2 a b) c = join2 a (join2 b c)"
    and join_none [simp]: "join2 none a = a" "join2 a none = a"
begin

lemma fold_join: "fold step xs b = join2 (fold step xs none) b"
proof (induction xs rule: rev_induct)
  case (snoc x xs)
  show ?case
    using step_join [of x "fold step xs b"] step_join [of x "fold step xs none"]
    by (simp add: snoc.IH join_assoc)
qed simp

lemma fold_snoc: "fold step (xs @ [x]) none = join2 (step x none) (fold step xs none)"
  using step_join [of x "fold step xs none"] by simp

lemma fold_silent: "(\<And>x. x \<in> set xs \<Longrightarrow> step x none = none) \<Longrightarrow> fold step xs b = b"
proof (induction xs arbitrary: b)
  case (Cons x xs)
  then show ?case using step_join [of x b] by simp
qed simp

end

interpretation walk: overriding_visitor "visit d" over no_usage for d
  by unfold_locales (rule visit_over, simp_all add: over_assoc)

lemma extract_pair:
  "extract_usage (JArr [a, b]) = over (visit 1 b no_usage) (visit 1 a no_usage)"
  using walk.fold_snoc [of 1 "[a]" b] by (simp add: extract_usage_def visit_JArr)

section \<open>Lemmas\<close>

definition best_ok :: "best_usage \<Rightarrow> bool" where
  "best_ok b \<longleftrightarrow> (\<forall>x \<in> {b_prompt b, b_completion b, b_total b, b_cache_read b, b_cache_write b, b_credits b}.
     \<forall>q. x = Some q \<longrightarrow> 0 \<le> q)"

definition usage_ok :: "usage \<Rightarrow> bool" where
  "usage_ok u \<longleftrightarrow> 0 \<le> u_prompt u \<and> 0 \<le> u_completion u \<and> 0 \<le> u_total u \<and>
     (\<forall>q. u_cache_read u = Some q \<longrightarrow> 0 \<le> q) \<and> (\<forall>q. u_cache_write u = Some q \<longrightarrow> 0 \<le> q) \<and>
     (\<forall>q. u_credits u = Some q \<longrightarrow> 0 \<le> q)"

definition fallback_ok :: "fallback \<Rightarrow> bool" where
  "fallback_ok f \<longleftrightarrow> (\<forall>x \<in> {f_prompt f, f_completion f, f_cache_read f, f_cache_write f}.
     \<forall>q. x = Some q \<longrightarrow> 0 \<le> q)"

lemma coerce_count_nonneg [js_bounds]: "coerce_count v = Some q \<Longrightarrow> 0 \<le> q"
  by (auto simp: coerce_count_def split: if_splits jsnum.splits)

lemma pick_keys_nonneg [js_bounds]: "pick_keys v ks = Some q \<Longrightarrow> 0 \<le> q"
  by (induction ks) (auto split: option.splits dest: coerce_count_nonneg)

lemma or_else_Some_iff: "or_else a b = Some q \<longleftrightarrow> a = Some q \<or> (a = None \<and> b = Some q)"
  by (cases a) auto

lemma best_ok_note [intro]: "best_ok b \<Longrightarrow> best_ok (note_counts v b)"
  by (auto simp: best_ok_def note_counts_def or_else_Some_iff dest: pick_keys_nonneg)

lemma best_ok_fold:
  "best_ok b \<Longrightarrow> (\<And>x b. best_ok b \<Longrightarrow> best_ok (f x b)) \<Longrightarrow> best_ok (fold f xs b)"
  by (induction xs arbitrary: b) auto

lemma best_ok_visit: "best_ok b \<Longrightarrow> best_ok (visit d v b)"
proof (induction "9 - d" arbitrary: d v b rule: less_induct)
  case less
  show ?case
  proof (cases "8 < d")
    case False
    then have IH: "best_ok c \<Longrightarrow> best_ok (visit (Suc d) x c)" for x c
      by (intro less) simp_all
    show ?thesis
    proof (cases v)
      case (JStr s)
      with False less.prems show ?thesis by (auto simp: visit_JStr intro: IH split: option.splits)
    next
      case (JArr vs)
      with False less.prems show ?thesis
        by (simp add: visit_JArr best_ok_fold IH)
    next
      case (JObj ps)
      with False less.prems show ?thesis
        by (simp add: visit_JObj visit_keys_def best_ok_fold best_ok_note IH)
    qed (use less.prems in simp_all)
  qed (use less.prems in simp)
qed

lemma best_ok_extract: "best_ok (extract_usage v)"
  unfolding extract_usage_def by (rule best_ok_visit) (simp add: best_ok_def no_usage_def)

lemma nonneg_default: "(\<And>q. x = Some q \<Longrightarrow> 0 \<le> q) \<Longrightarrow> 0 \<le> c \<Longrightarrow> 0 \<le> the (or_else x (Some c))"
  for c :: rat
  by (cases x) auto

lemma usage_ok_resolve: "fallback_ok f \<Longrightarrow> usage_ok (resolve_usage v f)"
proof -
  assume f: "fallback_ok f"
  define b where "b = extract_usage v"
  have b: "best_ok b" unfolding b_def by (rule best_ok_extract)
  define p where "p = the (or_else (or_else (b_prompt b) (f_prompt f)) (Some 0))"
  define c where "c = the (or_else (or_else (b_completion b) (f_completion f)) (Some 0))"
  have pc: "0 \<le> p" "0 \<le> c"
    using b f unfolding p_def c_def
    by (auto intro!: nonneg_default simp: or_else_Some_iff best_ok_def fallback_ok_def)
  moreover have "0 \<le> the (or_else (b_total b) (Some (p + c)))"
    using b pc by (intro nonneg_default) (auto simp: best_ok_def)
  ultimately show ?thesis
    using b f unfolding usage_ok_def resolve_usage_def b_def [symmetric] Let_def
      p_def [symmetric] c_def [symmetric]
    by (auto simp: or_else_Some_iff best_ok_def fallback_ok_def)
qed

lemma fallback_ok_of: "(\<And>u. a = Some u \<Longrightarrow> usage_ok u) \<Longrightarrow> fallback_ok (fallback_of a)"
  by (cases a) (auto simp: fallback_ok_def usage_ok_def no_fallback_def)

lemma map_of_props_obj: "map_of (props (obj fs)) (js k) = map_of (rev fs) k"
proof (induction fs rule: rev_induct)
  case (snoc f fs)
  then show ?case by (cases f) (auto simp: obj_def)
qed (simp add: obj_def)

lemma nonneg_count: "0 \<le> q \<Longrightarrow> coerce_count (JNum (Fin q)) = Some q"
  by (simp add: coerce_count_def)

lemmas count_keys = PROMPT_KEYS_def COMPLETION_KEYS_def TOTAL_KEYS_def CACHE_READ_KEYS_def
  CACHE_WRITE_KEYS_def CREDIT_KEYS_def

text \<open>The counts an accumulated result contributes to the next extraction: all of its own.\<close>

definition counts_of :: "usage \<Rightarrow> best_usage" where
  "counts_of u = \<lparr>b_prompt = Some (u_prompt u), b_completion = Some (u_completion u),
     b_total = Some (u_total u), b_cache_read = u_cache_read u, b_cache_write = u_cache_write u,
     b_credits = u_credits u\<rparr>"

lemma usage_js_own:
  "usage_ok u \<Longrightarrow> note_counts (usage_js u) no_usage = counts_of u"
  by (cases "u_cache_read u"; cases "u_cache_write u"; cases "u_credits u")
    (simp_all add: note_counts_def usage_js_def no_usage_def counts_of_def count_keys usage_ok_def
      map_of_props_obj opt_field_def nonneg_count)

lemma details_counts:
  "0 \<le> q \<Longrightarrow> d \<le> 8 \<Longrightarrow> visit d (obj [(''cached_tokens'', JNum (Fin q))]) b = b\<lparr>b_cache_read := Some q\<rparr>"
  by (simp add: obj_def put_def visit_JObj visit_keys_def NESTED_KEYS_def note_counts_def count_keys
      nonneg_count)

lemma usage_js_counts:
  assumes u: "usage_ok u" and d: "d \<le> 7"
  shows "visit d (usage_js u) no_usage = counts_of u"
proof -
  have obj: "usage_js u = JObj (props (usage_js u))" by (simp add: usage_js_def obj_def)
  have "visit d (usage_js u) no_usage = visit_keys (Suc d) (usage_js u) (counts_of u)"
    using d usage_js_own [OF u] visit_JObj [of d "props (usage_js u)" no_usage] by (simp flip: obj)
  also have "\<dots> = counts_of u"
    using u d by (cases "u_cache_read u"; cases "u_cache_write u"; cases "u_credits u")
      (simp_all add: visit_keys_def NESTED_KEYS_def usage_js_def pget_obj opt_field_def
        details_counts usage_ok_def counts_of_def)
  finally show ?thesis .
qed

text \<open>Arrays nested \<open>n\<close> deep around a value.\<close>

fun nest :: "nat \<Rightarrow> jsval \<Rightarrow> jsval" where
  "nest 0 v = v"
| "nest (Suc n) v = JArr [nest n v]"

lemma visit_nest: "d + n \<le> 8 \<Longrightarrow> visit d (nest n v) b = visit (d + n) v b"
  by (induction n arbitrary: d) (simp_all add: visit_JArr)

lemma visit_nest_deep: "8 < d + n \<Longrightarrow> visit d (nest n v) b = b"
proof (induction n arbitrary: d)
  case (Suc n)
  then show ?case by (cases "8 < d") (simp_all add: visit_JArr)
qed simp

lemma extract_acc:
  assumes "usage_ok u"
  shows "extract_usage (JArr [usage_js u, body]) = over (visit 1 body no_usage) (counts_of u)"
  by (simp add: extract_pair usage_js_counts [OF assms])

lemma extract_usage_js: "usage_ok u \<Longrightarrow> extract_usage (usage_js u) = counts_of u"
  by (simp add: extract_usage_def usage_js_counts)

lemma or_else_Some_right: "or_else x (Some c) = Some (the (or_else x (Some c)))"
  by (cases x) auto

section \<open>Properties\<close>

text \<open>No count that \<open>resolveUsage\<close> reports is negative, whatever the upstream frame
  holds (negative, non-numeric and non-finite values are skipped), provided the fallback's
  numbers are not.\<close>

theorem resolve_usage_nonneg: "fallback_ok f \<Longrightarrow> usage_ok (resolve_usage v f)"
  by (rule usage_ok_resolve)

theorem resolve_usage_nonneg_witness:
  "usage_ok (resolve_usage (obj [(''usage'', obj [(''prompt_tokens'', jint (-3)), (''output_tokens'', jint 7)])])
     (estimates 5 2))"
  by (rule resolve_usage_nonneg) (simp add: fallback_ok_def estimates_def)

text \<open>Folding a new frame into an accumulated usage (the stream reader's
  \<open>resolveUsage([usageAcc, body], usageAcc)\<close>) takes every count the frame reports and keeps
  the accumulated value of every count it does not; the source becomes "upstream".\<close>

theorem usage_accumulates:
  assumes "usage_ok u"
  shows "resolve_usage (JArr [usage_js u, body]) (fallback_of (Some u)) =
    (let b = visit 1 body no_usage in
     \<lparr>u_prompt = (case b_prompt b of Some q \<Rightarrow> q | None \<Rightarrow> u_prompt u),
      u_completion = (case b_completion b of Some q \<Rightarrow> q | None \<Rightarrow> u_completion u),
      u_total = (case b_total b of Some q \<Rightarrow> q | None \<Rightarrow> u_total u),
      u_source = js ''upstream'',
      u_cache_read = (case b_cache_read b of Some q \<Rightarrow> Some q | None \<Rightarrow> u_cache_read u),
      u_cache_write = (case b_cache_write b of Some q \<Rightarrow> Some q | None \<Rightarrow> u_cache_write u),
      u_credits = (case b_credits b of Some q \<Rightarrow> Some q | None \<Rightarrow> u_credits u)\<rparr>)"
proof -
  define b where "b = visit 1 body no_usage"
  have keep: "or_else x (Some c) = Some (case x of Some q \<Rightarrow> q | None \<Rightarrow> c)"
    "or_else (or_else x y) y = (case x of Some q \<Rightarrow> Some q | None \<Rightarrow> y)"
    "or_else x y = (case x of Some q \<Rightarrow> Some q | None \<Rightarrow> y)" for x y and c :: rat
    by (cases x; cases y; simp)+
  have "extract_usage (JArr [usage_js u, body]) = over b (counts_of u)"
    unfolding b_def by (rule extract_acc [OF assms])
  then show ?thesis
    unfolding resolve_usage_def Let_def b_def [symmetric]
    by (simp add: over_def counts_of_def from_upstream_def keep(1,2)) (simp add: keep(3))
qed

theorem usage_accumulates_witness:
  "u_prompt (resolve_usage (JArr [usage_js \<lparr>u_prompt = 10, u_completion = 2, u_total = 12,
      u_source = js ''upstream'', u_cache_read = Some 4, u_cache_write = None, u_credits = None\<rparr>,
      Null]) (fallback_of (Some \<lparr>u_prompt = 10, u_completion = 2, u_total = 12,
      u_source = js ''upstream'', u_cache_read = Some 4, u_cache_write = None, u_credits = None\<rparr>))) = 10"
  by (subst usage_accumulates) (simp_all add: usage_ok_def no_usage_def)

text \<open>A later frame that reports new prompt or completion counts without a total leaves the
  total of the first frame in place: the total is not recomputed from the merged counts
  (\<open>total_tokens\<close> of the accumulator is read back as an upstream total).\<close>

theorem usage_total_stale:
  assumes "usage_ok u" and "b_total (visit 1 body no_usage) = None"
  shows "u_total (resolve_usage (JArr [usage_js u, body]) (fallback_of (Some u))) = u_total u"
  using usage_accumulates [OF assms(1), of body] assms(2) by (simp add: Let_def)

definition split_u1 :: usage where
  "split_u1 = resolve_usage (JArr [Null, obj [(''usage'', obj [(''prompt_tokens'', jint 10)])]]) no_fallback"

definition split_u2 :: usage where
  "split_u2 = resolve_usage (JArr [usage_js split_u1, obj [(''usage'', obj [(''completion_tokens'', jint 5)])]])
     (fallback_of (Some split_u1))"

lemma split_u1_value: "split_u1 = \<lparr>u_prompt = 10, u_completion = 0, u_total = 10, u_source = js ''upstream'',
    u_cache_read = None, u_cache_write = None, u_credits = None\<rparr>"
  by (simp add: split_u1_def resolve_usage_def extract_usage_def obj_def put_def visit_JArr visit_JObj
      visit_keys_def NESTED_KEYS_def note_counts_def count_keys coerce_count_def no_usage_def
      no_fallback_def from_upstream_def)

theorem usage_total_stale_witness:
  "u_prompt split_u2 = 10 \<and> u_completion split_u2 = 5 \<and> u_total split_u2 = 10"
proof -
  let ?body = "obj [(''usage'', obj [(''completion_tokens'', jint 5)])]"
  have ok: "usage_ok split_u1" by (simp add: split_u1_value usage_ok_def)
  have body: "visit 1 ?body no_usage = no_usage\<lparr>b_completion := Some 5\<rparr>"
    by (simp add: obj_def put_def visit_JObj visit_keys_def NESTED_KEYS_def note_counts_def count_keys
        coerce_count_def no_usage_def)
  have "u_total split_u2 = u_total split_u1"
    unfolding split_u2_def by (rule usage_total_stale [OF ok]) (simp only: body, simp add: no_usage_def)
  moreover have "u_prompt split_u2 = 10 \<and> u_completion split_u2 = 5"
    unfolding split_u2_def resolve_usage_def extract_acc [OF ok] body
    by (simp add: Let_def over_def no_usage_def counts_of_def split_u1_value)
  ultimately show ?thesis by (simp add: split_u1_value)
qed

text \<open>When the upstream reports something that makes a frame useful but no token count
  (only credits, or an empty \<open>usage\<close> object), the zeros filled in for the missing counts
  are read back as upstream counts: the final usage is 0 prompt and 0 completion tokens from
  "upstream", and the caller's estimates are not used.\<close>

theorem usage_estimates_lost:
  assumes "b_prompt (visit 1 body no_usage) = None" and "b_completion (visit 1 body no_usage) = None"
  defines "acc \<equiv> resolve_usage (JArr [Null, body]) (fallback_of None)"
  shows "u_prompt (resolve_usage (usage_js acc) (estimates p c)) = 0
    \<and> u_completion (resolve_usage (usage_js acc) (estimates p c)) = 0
    \<and> u_source (resolve_usage (usage_js acc) (estimates p c)) = js ''upstream''"
proof -
  have "usage_ok acc"
    unfolding acc_def by (rule usage_ok_resolve) (simp add: fallback_ok_def no_fallback_def)
  moreover have "extract_usage (JArr [Null, body]) = visit 1 body no_usage"
    by (simp add: extract_pair)
  then have "u_prompt acc = 0" "u_completion acc = 0"
    using assms(1,2) by (simp_all add: acc_def resolve_usage_def no_fallback_def Let_def)
  ultimately show ?thesis
    by (simp add: resolve_usage_def extract_usage_js counts_of_def from_upstream_def)
qed

theorem usage_estimates_lost_witness:
  "u_prompt (resolve_usage (usage_js (resolve_usage (JArr [Null, obj [(''credits'', jint 3)]])
      (fallback_of None))) (estimates 250 80)) = 0"
proof -
  have "b_prompt (visit 1 (obj [(''credits'', jint 3)]) no_usage) = None
    \<and> b_completion (visit 1 (obj [(''credits'', jint 3)]) no_usage) = None"
    by (simp add: obj_def put_def visit_JObj visit_keys_def NESTED_KEYS_def note_counts_def count_keys
        no_usage_def)
  then show ?thesis using usage_estimates_lost by blast
qed

text \<open>The walk of \<open>extractUsage\<close> ends: it looks through eight levels of nesting and no
  deeper. Counts inside up to eight arrays are found as if they stood alone at that depth,
  counts inside nine or more are not found at all.\<close>

theorem extract_usage_depth:
  "extract_usage (nest n v) = (if n \<le> 8 then visit n v no_usage else no_usage)"
  using visit_nest [of 0 n v no_usage] visit_nest_deep [of 0 n v no_usage]
  by (simp add: extract_usage_def)

end
