(* ===== verification/Js_Regex.thy ===== *)
theory Js_Regex
  imports Js_Value
begin

text \<open>
  The regular expressions of the source as data, with the backtracking matcher of
  ECMAScript restricted to what the source uses: literal units, classes, sequence,
  alternation, the greedy quantifiers, word boundaries and anchors. \<open>rx_match\<close> returns
  the positions where a match can end, in the order the backtracking tries them;
  \<open>rx_test\<close> is \<open>RegExp.prototype.test\<close> for an unanchored search.

  The flag \<open>i\<close> folds the ASCII letters only. This is exact for patterns whose literals
  are ASCII or have no case (the canonical form of a unit outside ASCII is never an ASCII
  unit), which holds for every pattern here.
\<close>

datatype cls = CSpace | CDigit | CWord | CRange u16 u16

datatype rx =
    REps
  | RChar u16
  | RSet bool "cls list"
  | RAny
  | RSeq rx rx
  | RAlt rx rx
  | ROpt rx
  | RStar rx
  | RPlus rx
  | RBound
  | RBegin
  | REnd

text \<open>A position: the unit before it, if any, and the rest of the subject.\<close>

type_synonym rpos = "u16 option \<times> jstr"

definition fold_unit :: "bool \<Rightarrow> u16 \<Rightarrow> u16" where
  "fold_unit i c = (if i \<and> 65 \<le> c \<and> c \<le> 90 then c + 32 else c)"

definition is_word :: "u16 \<Rightarrow> bool" where
  "is_word c \<longleftrightarrow> is_digit c \<or> (65 \<le> c \<and> c \<le> 90) \<or> (97 \<le> c \<and> c \<le> 122) \<or> c = 95"

fun in_cls :: "bool \<Rightarrow> cls \<Rightarrow> u16 \<Rightarrow> bool" where
  "in_cls i CSpace c \<longleftrightarrow> is_ws c"
| "in_cls i CDigit c \<longleftrightarrow> is_digit c"
| "in_cls i CWord c \<longleftrightarrow> is_word c"
| "in_cls i (CRange a b) c \<longleftrightarrow> (a \<le> c \<and> c \<le> b)
     \<or> (i \<and> ((65 \<le> c \<and> c \<le> 90 \<and> a \<le> c + 32 \<and> c + 32 \<le> b)
           \<or> (97 \<le> c \<and> c \<le> 122 \<and> a \<le> c - 32 \<and> c - 32 \<le> b)))"

definition in_set :: "bool \<Rightarrow> bool \<Rightarrow> cls list \<Rightarrow> u16 \<Rightarrow> bool" where
  "in_set i neg cs c \<longleftrightarrow> (list_ex (\<lambda>k. in_cls i k c) cs \<longleftrightarrow> \<not> neg)"

definition unit_if :: "(u16 \<Rightarrow> bool) \<Rightarrow> rpos \<Rightarrow> rpos list" where
  "unit_if p st = (case snd st of [] \<Rightarrow> [] | c # r \<Rightarrow> if p c then [(Some c, r)] else [])"

definition at_bound :: "rpos \<Rightarrow> bool" where
  "at_bound st \<longleftrightarrow>
     (case fst st of None \<Rightarrow> False | Some c \<Rightarrow> is_word c)
     \<noteq> (case snd st of [] \<Rightarrow> False | c # _ \<Rightarrow> is_word c)"

text \<open>
  Greedy iteration of a step; an iteration that consumes nothing is not taken, so the
  length of the subject bounds the number of iterations.
\<close>

fun iterate :: "nat \<Rightarrow> (rpos \<Rightarrow> rpos list) \<Rightarrow> rpos \<Rightarrow> rpos list" where
  "iterate 0 f st = [st]"
| "iterate (Suc n) f st =
     concat (map (iterate n f) (filter (\<lambda>st'. length (snd st') < length (snd st)) (f st))) @ [st]"

primrec rx_match :: "bool \<Rightarrow> rx \<Rightarrow> rpos \<Rightarrow> rpos list" where
  "rx_match i REps st = [st]"
| "rx_match i (RChar d) st = unit_if (\<lambda>c. fold_unit i c = fold_unit i d) st"
| "rx_match i (RSet neg cs) st = unit_if (in_set i neg cs) st"
| "rx_match i RAny st = unit_if (\<lambda>c. c \<noteq> 10 \<and> c \<noteq> 13 \<and> c \<noteq> 0x2028 \<and> c \<noteq> 0x2029) st"
| "rx_match i (RSeq a b) st = concat (map (rx_match i b) (rx_match i a st))"
| "rx_match i (RAlt a b) st = rx_match i a st @ rx_match i b st"
| "rx_match i (ROpt a) st = rx_match i a st @ [st]"
| "rx_match i (RStar a) st = iterate (length (snd st)) (rx_match i a) st"
| "rx_match i (RPlus a) st =
     concat (map (\<lambda>st'. iterate (length (snd st')) (rx_match i a) st') (rx_match i a st))"
| "rx_match i RBound st = (if at_bound st then [st] else [])"
| "rx_match i RBegin st = (if fst st = None then [st] else [])"
| "rx_match i REnd st = (if snd st = [] then [st] else [])"

fun rx_search :: "bool \<Rightarrow> rx \<Rightarrow> u16 option \<Rightarrow> jstr \<Rightarrow> bool" where
  "rx_search i r p [] \<longleftrightarrow> rx_match i r (p, []) \<noteq> []"
| "rx_search i r p (c # s) \<longleftrightarrow> rx_match i r (p, c # s) \<noteq> [] \<or> rx_search i r (Some c) s"

definition rx_test :: "bool \<Rightarrow> rx \<Rightarrow> jstr \<Rightarrow> bool" where
  "rx_test i r s \<longleftrightarrow> rx_search i r None s"

text \<open>Pattern constructors: a literal, and an alternation of patterns.\<close>

fun rx_str :: "jstr \<Rightarrow> rx" where
  "rx_str [] = REps"
| "rx_str (c # s) = RSeq (RChar c) (rx_str s)"

definition rx_lit :: "string \<Rightarrow> rx" where
  "rx_lit s = rx_str (js s)"

fun rx_seq :: "rx list \<Rightarrow> rx" where
  "rx_seq [] = REps"
| "rx_seq [r] = r"
| "rx_seq (r # rs) = RSeq r (rx_seq rs)"

fun rx_alt :: "rx list \<Rightarrow> rx" where
  "rx_alt [] = RSet False []"
| "rx_alt [r] = r"
| "rx_alt (r # rs) = RAlt r (rx_alt rs)"

text \<open>A literal matches where the subject continues with it, up to case under the flag.\<close>

lemma rx_match_str_prefix: "\<exists>st. st \<in> set (rx_match i (rx_str p) (q, p @ s))"
proof (induction p arbitrary: q)
  case (Cons c p)
  then show ?case by (simp add: unit_if_def)
qed simp

lemma rx_search_append: "rx_match i r (Some c, s) \<noteq> [] \<Longrightarrow> rx_search i r p (t @ c # s)"
proof (induction t arbitrary: p)
  case Nil
  then show ?case by (cases s) auto
qed auto

lemma rx_search_here: "rx_match i r (p, s) \<noteq> [] \<Longrightarrow> rx_search i r p s"
  by (cases s) auto

lemma rx_search_contains: "contains p s \<Longrightarrow> rx_search i (rx_str p) q s"
proof -
  assume "contains p s"
  then obtain a b where s: "s = a @ p @ b" by (auto simp: contains_iff)
  have m: "rx_match i (rx_str p) (c, p @ b) \<noteq> []" for c
    using rx_match_str_prefix [of i p c b] by auto
  show ?thesis
  proof (cases a rule: rev_cases)
    case Nil
    with s m show ?thesis by (simp add: rx_search_here)
  next
    case (snoc t c)
    with s rx_search_append [OF m [of "Some c"], of q t] show ?thesis by simp
  qed
qed

lemma rx_search_alt: "rx_search i (RAlt a b) p s \<longleftrightarrow> rx_search i a p s \<or> rx_search i b p s"
  by (induction s arbitrary: p) auto

lemma rx_test_alt_list: "rs \<noteq> [] \<Longrightarrow> rx_test i (rx_alt rs) s \<longleftrightarrow> (\<exists>r \<in> set rs. rx_test i r s)"
proof (induction rs rule: rx_alt.induct)
  case (3 r r' rs)
  then show ?case by (auto simp: rx_test_def rx_search_alt)
qed (auto simp: rx_test_def)

lemma rx_test_lit: "contains (js p) s \<Longrightarrow> rx_test i (rx_lit p) s"
  by (simp add: rx_test_def rx_lit_def rx_search_contains)

lemma rx_test_alt_lit:
  "contains (js p) s \<Longrightarrow> rx_lit p \<in> set rs \<Longrightarrow> rx_test i (rx_alt rs) s"
  by (metis rx_test_lit rx_test_alt_list empty_iff empty_set)

lemma contains_append1: "contains p s \<Longrightarrow> contains p (s @ t)"
  by (force simp: contains_iff)

lemma contains_append2: "contains p t \<Longrightarrow> contains p (s @ t)"
  unfolding contains_iff by (metis append.assoc)

section \<open>Global replacement of runs\<close>

text \<open>
  \<open>replace(/[...]+/g, d)\<close> where the class is a predicate: the greedy quantifier takes
  every maximal run, which is replaced by \<open>d\<close>.
\<close>

function squash :: "(u16 \<Rightarrow> bool) \<Rightarrow> jstr \<Rightarrow> jstr \<Rightarrow> jstr" where
  "squash p d [] = []"
| "squash p d (c # s) =
     (if p c then d @ squash p d (dropWhile p s) else c # squash p d s)"
  by pat_completeness auto
termination
  by (relation "measure (\<lambda>(p, d, s). length s)") (auto simp: le_imp_less_Suc length_dropWhile_le)

lemma squash_id: "\<forall>c \<in> set s. \<not> p c \<Longrightarrow> squash p d s = s"
  by (induction p d s rule: squash.induct) auto

lemma set_squash: "set (squash p d s) \<subseteq> set d \<union> {c \<in> set s. \<not> p c}"
  by (induction p d s rule: squash.induct) (auto dest: set_dropWhileD)

lemma squash_eq_Nil: "d \<noteq> [] \<Longrightarrow> squash p d s = [] \<longleftrightarrow> s = []"
  by (cases s) auto

section \<open>Whole-subject matches\<close>

text \<open>
  \<open>rx_within P r\<close>: the sets of \<open>r\<close> contain only units with \<open>P\<close>. A match then consumes only such
  units; for an anchored pattern the subject has no others.
\<close>

primrec rx_within :: "(u16 \<Rightarrow> bool) \<Rightarrow> rx \<Rightarrow> bool" where
  "rx_within P REps \<longleftrightarrow> True"
| "rx_within P (RChar d) \<longleftrightarrow> (\<forall>c. fold_unit False c = fold_unit False d \<longrightarrow> P c)"
| "rx_within P (RSet neg cs) \<longleftrightarrow> (\<forall>c. in_set False neg cs c \<longrightarrow> P c)"
| "rx_within P RAny \<longleftrightarrow> (\<forall>c. P c)"
| "rx_within P (RSeq a b) \<longleftrightarrow> rx_within P a \<and> rx_within P b"
| "rx_within P (RAlt a b) \<longleftrightarrow> rx_within P a \<and> rx_within P b"
| "rx_within P (ROpt a) \<longleftrightarrow> rx_within P a"
| "rx_within P (RStar a) \<longleftrightarrow> rx_within P a"
| "rx_within P (RPlus a) \<longleftrightarrow> rx_within P a"
| "rx_within P RBound \<longleftrightarrow> True"
| "rx_within P RBegin \<longleftrightarrow> True"
| "rx_within P REnd \<longleftrightarrow> True"

definition consumes :: "(u16 \<Rightarrow> bool) \<Rightarrow> (rpos \<Rightarrow> rpos list) \<Rightarrow> bool" where
  "consumes P f \<longleftrightarrow> (\<forall>st. \<forall>st' \<in> set (f st). \<exists>u. snd st = u @ snd st' \<and> list_all P u)"

lemma consumes_unit: "(\<And>c. p c \<Longrightarrow> P c) \<Longrightarrow> consumes P (unit_if p)"
  unfolding consumes_def unit_if_def
proof (intro allI ballI)
  fix st st'
  assume p: "\<And>c. p c \<Longrightarrow> P c"
    and "st' \<in> set (case snd st of [] \<Rightarrow> [] | c # r \<Rightarrow> if p c then [(Some c, r)] else [])"
  then obtain c where "snd st = c # snd st'" "p c" by (cases "snd st") (auto split: if_splits)
  with p show "\<exists>u. snd st = u @ snd st' \<and> list_all P u" by (intro exI [of _ "[c]"]) simp
qed

lemma consumes_seq: "consumes P f \<Longrightarrow> consumes P g \<Longrightarrow> consumes P (\<lambda>st. concat (map g (f st)))"
  unfolding consumes_def by clarsimp (metis append.assoc list_all_append snd_conv)

lemma consumes_iterate: "consumes P f \<Longrightarrow> consumes P (iterate n f)"
proof (induction n)
  case 0
  then show ?case by (auto simp: consumes_def)
next
  case (Suc n)
  then have step: "consumes P (\<lambda>st. concat (map (iterate n f) (f st)))" by (intro consumes_seq) auto
  have "\<exists>u. snd st = u @ snd st' \<and> list_all P u" if "st' \<in> set (iterate (Suc n) f st)" for st st'
  proof (cases "st' = st")
    case False
    with that have "st' \<in> set (concat (map (iterate n f) (f st)))" by auto
    with step show ?thesis unfolding consumes_def by blast
  qed (auto intro: exI [of _ "[]"])
  then show ?case by (auto simp: consumes_def)
qed

lemma rx_match_consumes: "rx_within P r \<Longrightarrow> consumes P (rx_match False r)"
proof (induction r)
  case (RSeq a b)
  moreover have "rx_match False (RSeq a b) = (\<lambda>st. concat (map (rx_match False b) (rx_match False a st)))"
    by (rule ext) simp
  ultimately show ?case using consumes_seq [of P "rx_match False a" "rx_match False b"] by simp
next
  case (RStar a)
  then have "consumes P (iterate n (rx_match False a))" for n by (simp add: consumes_iterate)
  then show ?case unfolding consumes_def by (simp del: iterate.simps)
next
  case (RPlus a)
  then have f: "consumes P (rx_match False a)" by simp
  have "consumes P (\<lambda>st. iterate (length (snd st)) (rx_match False a) st)"
    using consumes_iterate [OF f] unfolding consumes_def by blast
  with f show ?case
    using consumes_seq [of P "rx_match False a" "\<lambda>st. iterate (length (snd st)) (rx_match False a) st"]
    by (simp add: consumes_def)
next
  case (RAlt a b)
  then show ?case by (simp add: consumes_def ball_Un)
next
  case (ROpt a)
  then show ?case unfolding consumes_def by (auto intro: exI [of _ "[]"])
next
  case (RChar d)
  then show ?case using consumes_unit [of "\<lambda>c. fold_unit False c = fold_unit False d" P] by (simp add: consumes_def)
next
  case (RSet neg cs)
  then show ?case using consumes_unit [of "in_set False neg cs" P] by (simp add: consumes_def)
next
  case RAny
  have eq: "rx_match False RAny = unit_if (\<lambda>c. c \<noteq> 10 \<and> c \<noteq> 13 \<and> c \<noteq> 0x2028 \<and> c \<noteq> 0x2029)"
    by (rule ext) simp
  show ?case unfolding eq by (rule consumes_unit) (use RAny in simp)
qed (auto simp: consumes_def)

lemma begin_only_at_start: "\<not> rx_search i (RSeq RBegin r) (Some c) s"
  by (induction s arbitrary: c) auto

lemma anchored_match_within:
  assumes "rx_test False (RSeq RBegin (RSeq r REnd)) s" and "rx_within P r"
  shows "list_all P s"
proof -
  have "rx_match False (RSeq RBegin (RSeq r REnd)) (None, s) \<noteq> []"
    using assms(1) begin_only_at_start by (cases s) (auto simp: rx_test_def simp del: rx_match.simps)
  then obtain st where "st \<in> set (rx_match False r (None, s))" "snd st = []"
    by (auto split: if_splits)
  with rx_match_consumes [OF assms(2)] show ?thesis
    unfolding consumes_def by fastforce
qed

section \<open>Matches inside longer subjects\<close>

text \<open>A pattern of units, sequences, alternatives and options matches wherever its text occurs.\<close>

primrec rx_free :: "rx \<Rightarrow> bool" where
  "rx_free REps \<longleftrightarrow> True"
| "rx_free (RChar d) \<longleftrightarrow> True"
| "rx_free (RSet neg cs) \<longleftrightarrow> True"
| "rx_free RAny \<longleftrightarrow> True"
| "rx_free (RSeq a b) \<longleftrightarrow> rx_free a \<and> rx_free b"
| "rx_free (RAlt a b) \<longleftrightarrow> rx_free a \<and> rx_free b"
| "rx_free (ROpt a) \<longleftrightarrow> rx_free a"
| "rx_free (RStar a) \<longleftrightarrow> False"
| "rx_free (RPlus a) \<longleftrightarrow> False"
| "rx_free RBound \<longleftrightarrow> False"
| "rx_free RBegin \<longleftrightarrow> False"
| "rx_free REnd \<longleftrightarrow> False"

lemma unit_if_extend: "(c, u) \<in> set (unit_if p (x, s)) \<Longrightarrow> \<exists>c'. (c', u @ t) \<in> set (unit_if p (y, s @ t))"
  by (cases s) (auto simp: unit_if_def split: if_splits)

lemma rx_match_extend:
  "rx_free r \<Longrightarrow> (c, u) \<in> set (rx_match i r (x, s)) \<Longrightarrow> \<exists>c'. (c', u @ t) \<in> set (rx_match i r (y, s @ t))"
proof (induction r arbitrary: c u x s y)
  case (RSeq a b)
  then obtain c1 u1 where a: "(c1, u1) \<in> set (rx_match i a (x, s))" and b: "(c, u) \<in> set (rx_match i b (c1, u1))"
    by auto
  from RSeq a obtain c1' where a': "(c1', u1 @ t) \<in> set (rx_match i a (y, s @ t))" by fastforce
  from RSeq b obtain c' where "(c', u @ t) \<in> set (rx_match i b (c1', u1 @ t))" by fastforce
  with a' show ?case by auto
next
  case (RAlt a b)
  then show ?case by fastforce
next
  case (ROpt a)
  then show ?case by fastforce
qed (auto intro: unit_if_extend)

lemma rx_search_extend: "rx_free r \<Longrightarrow> rx_search i r x s \<Longrightarrow> rx_search i r y (s @ t)"
proof (induction s arbitrary: x y)
  case Nil
  then obtain c u where "(c, u) \<in> set (rx_match i r (x, []))" by (cases "rx_match i r (x, [])") auto
  from rx_match_extend [OF Nil(1) this, of t y] show ?case by (intro rx_search_here) auto
next
  case (Cons d s)
  show ?case
  proof (cases "rx_match i r (x, d # s) = []")
    case False
    then obtain c u where "(c, u) \<in> set (rx_match i r (x, d # s))" by (cases "rx_match i r (x, d # s)") auto
    from rx_match_extend [OF Cons.prems(1) this, of t y] show ?thesis by (intro rx_search_here) auto
  next
    case True
    with Cons have "rx_search i r (Some d) (s @ t)" by simp
    then show ?thesis by simp
  qed
qed

lemma rx_search_prepend: "rx_free r \<Longrightarrow> rx_search i r x s \<Longrightarrow> rx_search i r y (a @ s)"
proof (induction a arbitrary: y)
  case Nil
  with rx_search_extend [of r i x s y "[]"] show ?case by simp
qed simp

lemma rx_test_extend: "rx_free r \<Longrightarrow> rx_test i r s \<Longrightarrow> rx_test i r (a @ s @ b)"
  unfolding rx_test_def using rx_search_extend [of r i None s None b] rx_search_prepend by blast

lemma rx_test_mono:
  assumes "\<And>st. rx_match i r st \<noteq> [] \<Longrightarrow> rx_match i r' st \<noteq> []" and "rx_test i r s"
  shows "rx_test i r' s"
proof -
  have "rx_search i r x s \<Longrightarrow> rx_search i r' x s" for x
    by (induction s arbitrary: x) (use assms(1) in auto)
  with assms(2) show ?thesis by (simp add: rx_test_def)
qed

end
