(* ===== verification/Worker_Errors.thy ===== *)
theory Worker_Errors
  imports Js_Json Js_Regex
begin

text \<open>
  \<open>worker/src/errors.mjs\<close>: from an upstream failure to a verdict (kind, HTTP status, whether
  the gateway may fail over to another account, how long the account cools down).

  \<^item> \<open>parse_duration_seconds\<close>, \<open>parse_retry_after_value\<close>, \<open>retry_hint\<close> and
    \<open>parse_retry_after\<close> read the waiting time. \<open>clock\<close> holds what the code asks the platform:
    the current time and \<open>Date.parse\<close> (implementation-defined beyond the ISO format).
  \<^item> \<open>classify_error\<close> is \<open>classifyError\<close>, with the six regular expressions as data. The
    table \<open>defaults[kind]\<close> is \<open>conf_of\<close>; as in JavaScript, a kind that is the name of a
    property of \<open>Object.prototype\<close> finds an inherited value without any of the fields.

  Termination of \<open>retry_hint\<close>, which parses strings found inside parsed values, rests on
  \<open>json_parse_smaller\<close>.
\<close>

section \<open>The patterns\<close>

definition PROMPT_LIMIT_RE :: rx where
  "PROMPT_LIMIT_RE = rx_alt
     [RSeq (ROpt (RChar 35)) (rx_lit ''token-limit''), rx_lit ''oversized prompt'',
      RSeq (rx_lit ''prompt too '') (RAlt (rx_lit ''large'') (rx_lit ''long'')),
      rx_lit ''context length'', rx_lit ''local precheck rejected'']"

text \<open>The three Chinese phrases: credits used up (twice), buy an add-on pack.\<close>

definition QUOTA_RE :: rx where
  "QUOTA_RE = rx_alt
     [rx_lit ''insufficient_quota'', rx_lit ''exceeded your current quota'',
      rx_str [0x989D, 0x5EA6, 0x5DF2, 0x7528, 0x5C3D], rx_str [0x989D, 0x5EA6, 0x7528, 0x5C3D],
      rx_str [0x8D2D, 0x4E70, 0x52A0, 0x91CF, 0x5305]]"

definition RATE_RE :: rx where
  "RATE_RE = rx_alt
     [rx_lit ''too many requests'', rx_seq [rx_lit ''rate'', ROpt RAny, rx_lit ''limit''],
      rx_lit ''response code=429'', rx_lit ''resource_exhausted'', rx_lit ''rate_limit_exceeded'',
      rx_lit ''account busy'', rx_lit ''in-flight'']"

definition AUTH_RE :: rx where
  "AUTH_RE = rx_alt
     [rx_lit ''null pointer'', rx_lit ''FORBIDDEN'', rx_lit ''Duplicate request'',
      rx_seq [RBound, rx_lit ''401'', RBound], rx_seq [RBound, rx_lit ''403'', RBound],
      rx_lit ''unauthorized'', rx_lit ''auth'', rx_lit ''credential'',
      rx_seq [rx_lit ''refresh'', ROpt RAny, rx_lit ''token''],
      rx_seq [rx_lit ''access'', ROpt RAny, rx_lit ''token'']]"

definition NOT_READY_RE :: rx where
  "NOT_READY_RE = rx_alt
     [rx_lit ''hot context not ready'', rx_lit ''auth manager not captured'', rx_lit ''not ready'',
      rx_lit ''loginWithDeviceFlow unavailable'', rx_lit ''loginWithPAT unavailable'',
      rx_lit ''worker may not be warm'']"

definition MODEL_RE :: rx where
  "MODEL_RE = rx_alt
     [rx_lit ''model_not_available'', rx_lit ''model_catalog_unavailable'',
      rx_lit ''is not available for this qoder account'']"

definition CATALOG_RE :: rx where
  "CATALOG_RE = rx_alt
     [rx_lit ''model_catalog_unavailable'', rx_lit ''dynamic model catalog is unavailable'',
      rx_lit ''model catalog unavailable'']"

definition KIND_QUOTA :: jstr where "KIND_QUOTA = js ''quota''"
definition KIND_RATE_LIMIT :: jstr where "KIND_RATE_LIMIT = js ''rate_limit''"
definition KIND_AUTH :: jstr where "KIND_AUTH = js ''auth''"
definition KIND_NOT_READY :: jstr where "KIND_NOT_READY = js ''not_ready''"
definition KIND_UNAVAILABLE :: jstr where "KIND_UNAVAILABLE = js ''unavailable''"
definition KIND_MODEL_NOT_AVAILABLE :: jstr where "KIND_MODEL_NOT_AVAILABLE = js ''model_not_available''"
definition KIND_INVALID_REQUEST :: jstr where "KIND_INVALID_REQUEST = js ''invalid_request''"

lemmas kind_defs = KIND_QUOTA_def KIND_RATE_LIMIT_def KIND_AUTH_def KIND_NOT_READY_def
  KIND_UNAVAILABLE_def KIND_MODEL_NOT_AVAILABLE_def KIND_INVALID_REQUEST_def

definition MAX_RETRY_AFTER_SEC :: int where "MAX_RETRY_AFTER_SEC = 600"
definition MIN_RATE_LIMIT_COOLDOWN_SEC :: int where "MIN_RATE_LIMIT_COOLDOWN_SEC = 30"

section \<open>Reading the waiting time\<close>

definition duration_unit :: "jstr \<Rightarrow> rat option" where
  "duration_unit u =
     (if u = js ''ns'' then Some (1 / 1000000000)
      else if u = js ''us'' \<or> u = [0xB5, 115] \<or> u = [0x3BC, 115] then Some (1 / 1000000)
      else if u = js ''ms'' then Some (1 / 1000)
      else if u = js ''s'' then Some 1
      else if u = js ''m'' then Some 60
      else if u = js ''h'' then Some 3600 else None)"

definition parse_duration_seconds :: "jstr \<Rightarrow> rat" where
  "parse_duration_seconds raw =
     (let (neg, u) = sign_prefix (trim raw) in
      case udec_prefix u of
        None \<Rightarrow> 0
      | Some (m, e, r) \<Rightarrow>
          (case duration_unit (to_lower (ltrim r)) of
             None \<Rightarrow> 0
           | Some k \<Rightarrow>
               (case num_of_dec (if neg then - m else m) e of
                  Fin q \<Rightarrow> if q \<le> 0 then 0 else q * k
                | _ \<Rightarrow> 0)))"

record clock =
  now_ms :: rat
  date_parse :: "jstr \<Rightarrow> rat option"

text \<open>A positive number is an epoch in milliseconds, an epoch in seconds, or a delay.\<close>

definition epoch_or_delay :: "clock \<Rightarrow> rat \<Rightarrow> rat" where
  "epoch_or_delay clk q =
     (if 1000000000000 \<le> q \<and> q < 100000000000000 then (q - now_ms clk) / 1000
      else if 1000000000 \<le> q \<and> q < 100000000000 then q - now_ms clk / 1000
      else q)"

definition parse_retry_after_value :: "clock \<Rightarrow> jsval \<Rightarrow> rat" where
  "parse_retry_after_value clk v =
     (if nullish v \<or> v = JStr [] then 0
      else case v of
        JNum n \<Rightarrow> (case n of Fin q \<Rightarrow> if q \<le> 0 then 0 else epoch_or_delay clk q | _ \<Rightarrow> 0)
      | _ \<Rightarrow>
          (let text = trim (to_string v); d = parse_duration_seconds text in
           if text = [] then 0
           else if 0 < d then d
           else case str_to_num text of
                  Fin q \<Rightarrow> if 0 < q then epoch_or_delay clk q
                           else (case date_parse clk text of None \<Rightarrow> 0 | Some t \<Rightarrow> (t - now_ms clk) / 1000)
                | _ \<Rightarrow> (case date_parse clk text of None \<Rightarrow> 0 | Some t \<Rightarrow> (t - now_ms clk) / 1000)))"

definition RETRY_KEYS :: "jstr list" where
  "RETRY_KEYS = map js [''retry_after'', ''retryAfter'', ''quotaResetDelay'', ''resets_in_seconds'',
     ''resets_at'', ''reset_at'']"

text \<open>\<open>Object.keys(value).find(...)\<close>: the first own key equal to \<open>k\<close> up to case.\<close>

definition find_key :: "jstr \<Rightarrow> (jstr \<times> jsval) list \<Rightarrow> jsval option" where
  "find_key k ps = map_option snd (find (\<lambda>p. to_lower (fst p) = to_lower k) ps)"

lemma find_key_in: "find_key k ps = Some w \<Longrightarrow> w \<in> snd ` set ps"
  by (auto simp: find_key_def find_Some_iff) (metis nth_mem image_eqI snd_conv)

function retry_hint :: "clock \<Rightarrow> jsval \<Rightarrow> bool \<Rightarrow> rat" where
  "retry_hint clk v primitive =
     (case v of
        JStr s \<Rightarrow>
          (let p = (if primitive then parse_retry_after_value clk v else 0) in
           if 0 < p then p
           else case json_parse s of None \<Rightarrow> 0 | Some w \<Rightarrow> retry_hint clk w False)
      | JNum n \<Rightarrow> if primitive then parse_retry_after_value clk v else 0
      | JArr vs \<Rightarrow> first_pos (\<lambda>x. retry_hint clk x False) vs
      | JObj ps \<Rightarrow>
          (let a = first_pos (\<lambda>k. case find_key k ps of None \<Rightarrow> 0 | Some w \<Rightarrow> retry_hint clk w True) RETRY_KEYS
           in if 0 < a then a
              else first_pos (\<lambda>p. if is_object (snd p) then retry_hint clk (snd p) False else 0) ps)
      | _ \<Rightarrow> 0)"
  by pat_completeness auto
termination
proof (relation "measure (\<lambda>(clk, v, p). jsize v)", goal_cases)
  case (4 clk v p ps k w)
  then obtain q where "q \<in> set ps" "w = snd q" by (auto dest: find_key_in)
  with 4 jsize_value [of q ps] show ?case by simp
qed (use jsize_item jsize_value json_parse_smaller in \<open>simp_all del: jsize.simps\<close>)

declare retry_hint.simps [simp del]

definition parse_retry_after :: "clock \<Rightarrow> jsval \<Rightarrow> jsval \<Rightarrow> int" where
  "parse_retry_after clk raw fallback =
     (let p = parse_retry_after_value clk raw in
      if 0 < p then min MAX_RETRY_AFTER_SEC \<lceil>p\<rceil>
      else min MAX_RETRY_AFTER_SEC (max 0 \<lceil>parse_retry_after_value clk fallback\<rceil>))"

section \<open>Classification\<close>

definition parse_json_or_null :: "jsval \<Rightarrow> jsval" where
  "parse_json_or_null v =
     (case json_parse (to_string (js_or v (JStr []))) of None \<Rightarrow> Null | Some w \<Rightarrow> w)"

definition error_payload :: "jsval \<Rightarrow> jsval" where
  "error_payload input =
     (if is_object input \<and> is_object (pget input ''error'') then pget input ''error''
      else let parsed = parse_json_or_null (js_or (pget input ''body'') (pget input ''message'')) in
        if is_object (pget parsed ''error'') then pget parsed ''error''
        else if is_object parsed then parsed else obj [])"

record conf =
  cf_status :: jsval
  cf_failover :: jsval
  cf_cooldown :: jsval
  cf_code :: jsval
  cf_type :: jsval

definition conf_row :: "jsval \<Rightarrow> bool \<Rightarrow> int \<Rightarrow> string \<Rightarrow> string \<Rightarrow> conf" where
  "conf_row s f c code ty = \<lparr>cf_status = s, cf_failover = JBool f, cf_cooldown = jint c,
     cf_code = jlit code, cf_type = jlit ty\<rparr>"

definition PROTOTYPE_KEYS :: "jstr list" where
  "PROTOTYPE_KEYS = map js [''constructor'', ''toString'', ''valueOf'', ''hasOwnProperty'',
     ''isPrototypeOf'', ''propertyIsEnumerable'', ''toLocaleString'', ''__proto__'',
     ''__defineGetter__'', ''__defineSetter__'', ''__lookupGetter__'', ''__lookupSetter__'']"

definition inherited_conf :: conf where
  "inherited_conf = \<lparr>cf_status = Undef, cf_failover = Undef, cf_cooldown = Undef, cf_code = Undef,
     cf_type = Undef\<rparr>"

text \<open>\<open>defaults[kind] || defaults[KIND_UNAVAILABLE]\<close>, for a status hint \<open>h\<close>.\<close>

definition conf_of :: "jsnum \<Rightarrow> jstr \<Rightarrow> conf" where
  "conf_of h k =
     (if k = KIND_QUOTA then conf_row (jint 429) False 0 ''insufficient_quota'' ''insufficient_quota''
      else if k = KIND_RATE_LIMIT then conf_row (jint 429) True 60 ''rate_limit'' ''api_error''
      else if k = KIND_AUTH then
        conf_row (if h = Fin 401 then jint 401 else jint 403) True 30 ''unauthorized'' ''api_error''
      else if k = KIND_NOT_READY then conf_row (jint 503) True 10 ''not_ready'' ''api_error''
      else if k = KIND_MODEL_NOT_AVAILABLE then
        conf_row (jint 400) True 0 ''model_not_available'' ''invalid_request_error''
      else if k = KIND_INVALID_REQUEST then
        conf_row (jint 400) False 0 ''invalid_request'' ''invalid_request_error''
      else if k \<in> set PROTOTYPE_KEYS then inherited_conf
      else conf_row (if num_le (Fin 500) h then JNum h else jint 502) True 15 ''upstream_error'' ''api_error'')"

text \<open>The choice of the kind: \<open>hint\<close> is the trimmed kind the error carries.\<close>

definition base_kind :: "jstr \<Rightarrow> jsnum \<Rightarrow> jstr \<Rightarrow> jstr \<Rightarrow> jstr" where
  "base_kind hint h searchable payload_code =
     (if rx_test True PROMPT_LIMIT_RE searchable then KIND_INVALID_REQUEST
      else if hint \<noteq> [] then hint
      else if rx_test True QUOTA_RE searchable
          \<or> payload_code \<in> {js ''insufficient_quota'', js ''1005'', js ''4008'', js ''14018''} then KIND_QUOTA
      else if rx_test True MODEL_RE searchable \<or> payload_code = js ''model_not_available''
          \<or> payload_code = js ''model_catalog_unavailable'' then KIND_MODEL_NOT_AVAILABLE
      else if rx_test True NOT_READY_RE searchable then KIND_NOT_READY
      else if rx_test True AUTH_RE searchable \<and> \<not> rx_test True QUOTA_RE searchable
          \<and> \<not> rx_test True RATE_RE searchable then KIND_AUTH
      else if rx_test True RATE_RE searchable \<or> payload_code = js ''429'' \<or> h = Fin 429 then KIND_RATE_LIMIT
      else if h = Fin 401 \<or> h = Fin 403 then KIND_AUTH
      else KIND_UNAVAILABLE)"

definition final_kind :: "jstr \<Rightarrow> jstr \<Rightarrow> jstr" where
  "final_kind searchable k =
     (if (k = KIND_AUTH \<or> k = KIND_RATE_LIMIT) \<and> rx_test True QUOTA_RE searchable then KIND_QUOTA else k)"

record classified =
  v_kind :: jstr
  v_status :: jsval
  v_failover :: jsval
  v_retry_after :: int
  v_code :: jsval
  v_type :: jsval
  v_message :: jsval

text \<open>What the classification reads from its input, as the opening declarations of the source.\<close>

record facts =
  x_payload :: jsval
  x_message :: jstr
  x_kind_hint :: jstr
  x_status_hint :: jsnum
  x_code :: jstr
  x_type :: jstr
  x_searchable :: jstr
  x_retry_raw :: jsval

definition error_facts :: "jsval \<Rightarrow> facts" where
  "error_facts input =
     (let payload = error_payload input;
          message = to_string (js_or (pget input ''message'') (js_or (pget payload ''message'')
                      (js_or (pget input ''body'') (js_or (pget input ''error'') (JStr [])))));
          nested = (if is_object (pget payload ''data'') then pget payload ''data'' else obj []);
          hint = trim (to_string (js_or (pget input ''kind'') (js_or (pget payload ''kind'')
                   (js_or (pget nested ''kind'') (JStr [])))));
          h = to_number (js_or (pget input ''status'') (js_or (pget payload ''status'')
                (js_or (pget nested ''status'') (jint 0))));
          payload_code = trim (to_string (js_nvl (pget payload ''code'') (js_nvl (pget payload ''msgCode'')
                           (js_nvl (pget nested ''code'') (js_nvl (pget nested ''msgCode'') (JStr []))))));
          payload_type = trim (to_string (js_or (pget payload ''type'') (js_or (pget nested ''type'') (JStr []))))
      in \<lparr>x_payload = payload, x_message = message, x_kind_hint = hint, x_status_hint = h,
          x_code = payload_code, x_type = payload_type,
          x_searchable = message @ js '' '' @ payload_code @ js '' '' @ payload_type @ js '' '' @
            to_string (js_or (pget payload ''msg'') (js_or (pget nested ''msg'') (JStr []))),
          x_retry_raw = js_nvl (pget input ''retryAfter'') (js_nvl (pget input ''retry_after'')
            (js_nvl (pget payload ''retry_after'') (js_nvl (pget payload ''retryAfter'')
              (js_nvl (pget nested ''retry_after'') (pget nested ''retryAfter'')))))\<rparr>)"

definition kind_of_facts :: "facts \<Rightarrow> jstr" where
  "kind_of_facts x = final_kind (x_searchable x)
     (base_kind (x_kind_hint x) (x_status_hint x) (x_searchable x) (x_code x))"

definition cooldown_of_facts :: "clock \<Rightarrow> facts \<Rightarrow> int" where
  "cooldown_of_facts clk x =
     (let k = kind_of_facts x;
          hint = retry_hint clk (x_payload x) False;
          r = parse_retry_after clk (x_retry_raw x)
                (js_or (JNum (Fin hint)) (cf_cooldown (conf_of (x_status_hint x) k)))
      in if k = KIND_RATE_LIMIT \<and> 0 < r \<and> r < MIN_RATE_LIMIT_COOLDOWN_SEC
         then MIN_RATE_LIMIT_COOLDOWN_SEC else r)"

definition status_of_facts :: "facts \<Rightarrow> jsval" where
  "status_of_facts x =
     (let k = kind_of_facts x; h = x_status_hint x; conf = conf_of h k;
          s = (if k = KIND_INVALID_REQUEST then jint 400
               else if num_le (Fin 400) h \<and> k \<noteq> KIND_QUOTA then
                 (if k = KIND_RATE_LIMIT then jint 429 else JNum h)
               else cf_status conf)
      in if k = KIND_QUOTA then jint 429
         else if rx_test True CATALOG_RE (x_searchable x) then jint 503
         else js_or s (cf_status conf))"

definition classify_error :: "clock \<Rightarrow> jsval \<Rightarrow> classified" where
  "classify_error clk input =
     (let x = error_facts input; k = kind_of_facts x; conf = conf_of (x_status_hint x) k;
          catalog = rx_test True CATALOG_RE (x_searchable x)
      in \<lparr>v_kind = k,
          v_status = status_of_facts x,
          v_failover = (if is_boolean (pget (x_payload x) ''failover'') then pget (x_payload x) ''failover''
                      else cf_failover conf),
          v_retry_after = cooldown_of_facts clk x,
          v_code = (if catalog then jlit ''model_catalog_unavailable'' else js_or (JStr (x_code x)) (cf_code conf)),
          v_type = (if catalog then jlit ''api_error'' else js_or (JStr (x_type x)) (cf_type conf)),
          v_message = js_or (JStr (x_message x)) (js_or (JStr (x_code x)) (cf_code conf))\<rparr>)"

definition should_failover :: "clock \<Rightarrow> jsval \<Rightarrow> jsval \<Rightarrow> jsval \<Rightarrow> jsval" where
  "should_failover clk st body headers =
     v_failover (classify_error clk (obj [(''status'', st), (''body'', body),
       (''retryAfter'', js_or (pget headers ''retry-after'') (pget headers ''Retry-After''))]))"

section \<open>Lemmas\<close>

text \<open>The record fields and bindings of \<open>classify_error\<close>, field by field.\<close>

lemma classify_fields:
  "v_kind (classify_error clk input) = kind_of_facts (error_facts input)"
  "v_status (classify_error clk input) = status_of_facts (error_facts input)"
  "v_failover (classify_error clk input) =
    (if is_boolean (pget (x_payload (error_facts input)) ''failover'')
     then pget (x_payload (error_facts input)) ''failover''
     else cf_failover (conf_of (x_status_hint (error_facts input)) (kind_of_facts (error_facts input))))"
  "v_retry_after (classify_error clk input) = cooldown_of_facts clk (error_facts input)"
  by (simp_all add: classify_error_def Let_def)

lemma kinds_distinct [simp]:
  "KIND_QUOTA \<noteq> KIND_RATE_LIMIT" "KIND_QUOTA \<noteq> KIND_AUTH" "KIND_QUOTA \<noteq> KIND_NOT_READY"
  "KIND_QUOTA \<noteq> KIND_UNAVAILABLE" "KIND_QUOTA \<noteq> KIND_MODEL_NOT_AVAILABLE" "KIND_QUOTA \<noteq> KIND_INVALID_REQUEST"
  "KIND_INVALID_REQUEST \<noteq> KIND_QUOTA" "KIND_INVALID_REQUEST \<noteq> KIND_RATE_LIMIT"
  "KIND_INVALID_REQUEST \<noteq> KIND_AUTH" "KIND_INVALID_REQUEST \<noteq> KIND_NOT_READY"
  "KIND_INVALID_REQUEST \<noteq> KIND_MODEL_NOT_AVAILABLE" "KIND_RATE_LIMIT \<noteq> KIND_AUTH" "KIND_RATE_LIMIT \<noteq> KIND_QUOTA"
  "KIND_RATE_LIMIT \<noteq> KIND_INVALID_REQUEST"
  by (simp_all add: kind_defs)

lemma prompt_limit_kind:
  "rx_test True PROMPT_LIMIT_RE (x_searchable x) \<Longrightarrow> kind_of_facts x = KIND_INVALID_REQUEST"
  by (simp add: kind_of_facts_def base_kind_def final_kind_def)

lemma conf_invalid: "conf_of h KIND_INVALID_REQUEST =
    conf_row (jint 400) False 0 ''invalid_request'' ''invalid_request_error''"
  and conf_quota: "conf_of h KIND_QUOTA = conf_row (jint 429) False 0 ''insufficient_quota'' ''insufficient_quota''"
  by (simp_all add: conf_of_def)

lemma cf_failover_row [simp]: "cf_failover (conf_row s f c a b) = JBool f"
  and cf_status_row [simp]: "cf_status (conf_row s f c a b) = s"
  and cf_cooldown_row [simp]: "cf_cooldown (conf_row s f c a b) = jint c"
  by (simp_all add: conf_row_def)

lemma conf_failover:
  "k \<notin> set PROTOTYPE_KEYS \<Longrightarrow>
   cf_failover (conf_of h k) = JBool (k \<noteq> KIND_QUOTA \<and> k \<noteq> KIND_INVALID_REQUEST)"
  by (simp add: conf_of_def kind_defs)

lemma conf_status:
  "k \<notin> set PROTOTYPE_KEYS \<Longrightarrow> \<exists>n. cf_status (conf_of h k) = JNum n \<and> num_le (Fin 400) n"
  by (cases h) (auto simp: conf_of_def split: if_splits)

lemma parse_retry_after_bounds [js_bounds]:
  "0 \<le> parse_retry_after clk raw fb" "parse_retry_after clk raw fb \<le> 600"
  by (auto simp: parse_retry_after_def MAX_RETRY_AFTER_SEC_def Let_def le_ceiling_iff)

lemma retry_hint_object_nonneg [js_bounds]: "is_object v \<Longrightarrow> 0 \<le> retry_hint clk v p"
proof -
  assume "is_object v"
  then consider vs where "v = JArr vs" | ps where "v = JObj ps" by (cases v) auto
  then show ?thesis
    by cases (subst retry_hint.simps, simp add: first_pos_nonneg Let_def less_imp_le)+
qed

lemma error_payload_object: "is_object (error_payload input)"
  by (auto simp: error_payload_def Let_def)

section \<open>Properties\<close>

text \<open>The cooldown of every verdict is a whole number of seconds between 0 and ten
  minutes, and a rate-limit verdict that cools down at all does so for at least half a
  minute.\<close>

theorem cooldown_bounds:
  "v_retry_after (classify_error clk input) \<in>
     (if v_kind (classify_error clk input) = KIND_RATE_LIMIT
      then {0} \<union> {MIN_RATE_LIMIT_COOLDOWN_SEC .. MAX_RETRY_AFTER_SEC} else {0 .. MAX_RETRY_AFTER_SEC})"
  using parse_retry_after_bounds [of clk]
  by (auto simp: classify_fields cooldown_of_facts_def Let_def MAX_RETRY_AFTER_SEC_def
      MIN_RATE_LIMIT_COOLDOWN_SEC_def not_less intro: antisym)

text \<open>A message that trips the prompt-limit pattern is an invalid request whatever else the
  error says (quota words, an explicit kind, a status): it is not failed over to another
  account unless the payload asks for it, and its status is 400 unless the catalog is down.\<close>

theorem prompt_limit_is_invalid_request:
  assumes "rx_test True PROMPT_LIMIT_RE (x_searchable (error_facts input))"
  shows "v_kind (classify_error clk input) = KIND_INVALID_REQUEST
    \<and> (if rx_test True CATALOG_RE (x_searchable (error_facts input))
       then v_status (classify_error clk input) = jint 503
       else v_status (classify_error clk input) = jint 400)
    \<and> (if is_boolean (pget (error_payload input) ''failover'')
       then v_failover (classify_error clk input) = pget (error_payload input) ''failover''
       else v_failover (classify_error clk input) = JBool False)"
proof -
  have "x_payload (error_facts input) = error_payload input"
    by (simp add: error_facts_def Let_def)
  then show ?thesis
    using prompt_limit_kind [OF assms]
    by (simp add: classify_fields status_of_facts_def conf_invalid js_or_def Let_def)
qed

theorem prompt_limit_is_invalid_request_witness:
  "v_kind (classify_error \<lparr>now_ms = 0, date_parse = Map.empty\<rparr>
     (obj [(''message'', jlit ''insufficient_quota: #token-limit''), (''kind'', jlit ''quota'')]))
   = KIND_INVALID_REQUEST"
proof -
  let ?input = "obj [(''message'', jlit ''insufficient_quota: #token-limit''), (''kind'', jlit ''quota'')]"
  have "rx_test True PROMPT_LIMIT_RE (x_searchable (error_facts ?input))" by code_simp
  from prompt_limit_is_invalid_request [OF this] show ?thesis by simp
qed

text \<open>A quota verdict always has status 429, is never failed over unless the payload asks for
  it, and words of exhausted quota in the text make the verdict quota when the error comes
  without a kind or with the kinds auth or rate_limit.\<close>

theorem quota_verdict:
  assumes "\<not> rx_test True PROMPT_LIMIT_RE (x_searchable (error_facts input))"
    and "rx_test True QUOTA_RE (x_searchable (error_facts input))"
    and "x_kind_hint (error_facts input) \<in> {[], KIND_AUTH, KIND_RATE_LIMIT, KIND_QUOTA}"
  shows "v_kind (classify_error clk input) = KIND_QUOTA
    \<and> v_status (classify_error clk input) = jint 429
    \<and> (if is_boolean (pget (x_payload (error_facts input)) ''failover'')
       then v_failover (classify_error clk input) = pget (x_payload (error_facts input)) ''failover''
       else v_failover (classify_error clk input) = JBool False)"
proof -
  have "kind_of_facts (error_facts input) = KIND_QUOTA"
    using assms by (auto simp: kind_of_facts_def base_kind_def final_kind_def)
  then show ?thesis
    by (simp add: classify_fields status_of_facts_def conf_quota Let_def)
qed

theorem quota_verdict_witness:
  "v_status (classify_error \<lparr>now_ms = 0, date_parse = Map.empty\<rparr>
     (obj [(''message'', jlit ''429: You exceeded your current quota''), (''kind'', jlit ''rate_limit'')]))
   = jint 429"
proof -
  let ?input = "obj [(''message'', jlit ''429: You exceeded your current quota''), (''kind'', jlit ''rate_limit'')]"
  have "\<not> rx_test True PROMPT_LIMIT_RE (x_searchable (error_facts ?input))" by code_simp
  moreover have "rx_test True QUOTA_RE (x_searchable (error_facts ?input))" by code_simp
  moreover have "x_kind_hint (error_facts ?input) = KIND_RATE_LIMIT" by code_simp
  ultimately show ?thesis using quota_verdict [of ?input] by simp
qed

definition known_kinds :: "jstr list" where
  "known_kinds = [KIND_QUOTA, KIND_RATE_LIMIT, KIND_AUTH, KIND_NOT_READY, KIND_UNAVAILABLE,
     KIND_MODEL_NOT_AVAILABLE, KIND_INVALID_REQUEST]"

lemma known_not_inherited: "k \<in> set known_kinds \<Longrightarrow> k \<notin> set PROTOTYPE_KEYS"
  by (auto simp: known_kinds_def kind_defs PROTOTYPE_KEYS_def)

text \<open>C10: The kind of a verdict is one of the seven known kinds, or the kind that the error itself came with.
  Unless the kind of the verdict is the name of a property of \<open>Object.prototype\<close>, the verdict has a numeric status
  of at least 400, and it permits failover exactly when it is neither a quota nor an invalid-request verdict (or as
  a boolean of the payload says).\<close>

theorem verdict_well_formed:
  "(v_kind (classify_error clk input) \<in> set known_kinds
      \<or> v_kind (classify_error clk input) = x_kind_hint (error_facts input) \<and> x_kind_hint (error_facts input) \<noteq> [])
    \<and> (v_kind (classify_error clk input) \<notin> set PROTOTYPE_KEYS \<longrightarrow>
        (\<exists>n. v_status (classify_error clk input) = JNum n \<and> num_le (Fin 400) n)
        \<and> (if is_boolean (pget (x_payload (error_facts input)) ''failover'')
           then v_failover (classify_error clk input) = pget (x_payload (error_facts input)) ''failover''
           else v_failover (classify_error clk input) =
              JBool (v_kind (classify_error clk input) \<noteq> KIND_QUOTA
                \<and> v_kind (classify_error clk input) \<noteq> KIND_INVALID_REQUEST)))"
proof -
  let ?x = "error_facts input"
  have known: "kind_of_facts ?x \<in> set known_kinds \<or> kind_of_facts ?x = x_kind_hint ?x \<and> x_kind_hint ?x \<noteq> []"
    by (simp add: kind_of_facts_def base_kind_def final_kind_def known_kinds_def)
  have pos: "num_truthy m" if "num_le (Fin 400) m" for m using that by (cases m) auto
  have status: "\<exists>n. status_of_facts ?x = JNum n \<and> num_le (Fin 400) n" if k: "kind_of_facts ?x \<notin> set PROTOTYPE_KEYS"
    using conf_status [OF k, of "x_status_hint ?x"] by (auto simp: status_of_facts_def js_or_def pos Let_def)
  show ?thesis using status conf_failover known by (simp add: classify_fields)
qed

theorem verdict_well_formed_witness:
  "v_kind (classify_error \<lparr>now_ms = 0, date_parse = Map.empty\<rparr> (obj [(''message'', jlit ''boom'')])) \<in> set known_kinds
   \<and> v_failover (classify_error \<lparr>now_ms = 0, date_parse = Map.empty\<rparr> (obj [(''message'', jlit ''boom'')])) = JBool True"
proof -
  let ?input = "obj [(''message'', jlit ''boom'')]"
  let ?clk = "\<lparr>now_ms = 0, date_parse = Map.empty\<rparr>"
  have h: "x_kind_hint (error_facts ?input) = []" by code_simp
  have k: "kind_of_facts (error_facts ?input) = KIND_UNAVAILABLE" by code_simp
  have p: "\<not> is_boolean (pget (x_payload (error_facts ?input)) ''failover'')" by code_simp
  have "KIND_UNAVAILABLE \<notin> set PROTOTYPE_KEYS" by (rule known_not_inherited) (simp add: known_kinds_def)
  with verdict_well_formed [of ?clk ?input] h p show ?thesis
    by (simp add: classify_fields k kind_defs)
qed

text \<open>An error that comes with a kind naming an inherited property of JavaScript objects (such
  as "constructor") finds a table entry without fields: unless the text or a status of 400 or
  more decides, the verdict has no status and no failover flag at all.\<close>

theorem inherited_kind_has_no_status:
  assumes "x_kind_hint (error_facts input) \<in> set PROTOTYPE_KEYS"
    and "\<not> rx_test True PROMPT_LIMIT_RE (x_searchable (error_facts input))"
    and "\<not> rx_test True CATALOG_RE (x_searchable (error_facts input))"
    and "\<not> num_le (Fin 400) (x_status_hint (error_facts input))"
    and "\<not> is_boolean (pget (x_payload (error_facts input)) ''failover'')"
  shows "v_status (classify_error clk input) = Undef \<and> v_failover (classify_error clk input) = Undef"
proof -
  let ?x = "error_facts input" and ?k = "x_kind_hint (error_facts input)"
  have proto: "k \<in> set PROTOTYPE_KEYS \<Longrightarrow> k \<noteq> [] \<and> k \<noteq> KIND_QUOTA \<and> k \<noteq> KIND_RATE_LIMIT \<and> k \<noteq> KIND_AUTH
      \<and> k \<noteq> KIND_NOT_READY \<and> k \<noteq> KIND_MODEL_NOT_AVAILABLE \<and> k \<noteq> KIND_INVALID_REQUEST" for k
    by (auto simp: PROTOTYPE_KEYS_def kind_defs)
  have k: "kind_of_facts ?x = ?k"
    using proto [OF assms(1)] assms(2) by (simp add: kind_of_facts_def base_kind_def final_kind_def)
  have "conf_of (x_status_hint ?x) ?k = inherited_conf"
    using proto [OF assms(1)] assms(1) by (simp add: conf_of_def)
  then show ?thesis
    using proto [OF assms(1)] assms(3-5)
    by (simp add: classify_fields status_of_facts_def k inherited_conf_def js_or_def Let_def)
qed

theorem inherited_kind_has_no_status_witness:
  "v_status (classify_error \<lparr>now_ms = 0, date_parse = Map.empty\<rparr>
     (obj [(''error'', obj [(''message'', jlit ''boom''), (''kind'', jlit ''constructor'')])])) = Undef"
proof -
  let ?input = "obj [(''error'', obj [(''message'', jlit ''boom''), (''kind'', jlit ''constructor'')])]"
  have "x_kind_hint (error_facts ?input) \<in> set PROTOTYPE_KEYS"
    "\<not> rx_test True PROMPT_LIMIT_RE (x_searchable (error_facts ?input))"
    "\<not> rx_test True CATALOG_RE (x_searchable (error_facts ?input))"
    "\<not> num_le (Fin 400) (x_status_hint (error_facts ?input))"
    "\<not> is_boolean (pget (x_payload (error_facts ?input)) ''failover'')"
    by code_simp+
  from inherited_kind_has_no_status [OF this] show ?thesis by simp
qed

text \<open>A reset time given in epoch seconds and the same time in epoch milliseconds give the same
  waiting time, the distance from now rounded up and capped, or the fallback when it is past.\<close>

theorem epoch_units_agree:
  assumes "1000000000 \<le> q" and "q < 100000000000"
  shows "parse_retry_after clk (JNum (Fin q)) fb = parse_retry_after clk (JNum (Fin (1000 * q))) fb
    \<and> (if now_ms clk < 1000 * q
       then parse_retry_after clk (JNum (Fin q)) fb = min MAX_RETRY_AFTER_SEC \<lceil>q - now_ms clk / 1000\<rceil>
       else parse_retry_after clk (JNum (Fin q)) fb = parse_retry_after clk Undef fb)"
proof -
  have s: "parse_retry_after_value clk (JNum (Fin q)) = q - now_ms clk / 1000"
    using assms by (simp add: parse_retry_after_value_def epoch_or_delay_def)
  have ms: "parse_retry_after_value clk (JNum (Fin (1000 * q))) = q - now_ms clk / 1000"
    using assms by (simp add: parse_retry_after_value_def epoch_or_delay_def field_simps)
  have u: "parse_retry_after_value clk Undef = 0" by (simp add: parse_retry_after_value_def)
  show ?thesis
    unfolding parse_retry_after_def s ms u Let_def by (auto simp: field_simps)
qed

theorem epoch_units_agree_witness:
  "parse_retry_after \<lparr>now_ms = 1700000000000, date_parse = Map.empty\<rparr> (JNum (Fin 1700000045)) Null = 45"
  using epoch_units_agree [of 1700000045 "\<lparr>now_ms = 1700000000000, date_parse = Map.empty\<rparr>" Null]
  by (simp add: MAX_RETRY_AFTER_SEC_def)

text \<open>\<open>shouldFailover\<close> says no to a plain-text body about the context length, whatever the
  status and the headers: another account would reject the same prompt.\<close>

theorem context_length_no_failover:
  assumes "contains (js ''context length'') body" and "json_parse body = None"
  shows "should_failover clk st (JStr body) headers = JBool False"
proof -
  define w where "w = js_or (pget headers ''retry-after'') (pget headers ''Retry-After'')"
  let ?input = "obj [(''status'', st), (''body'', JStr body), (''retryAfter'', w)]"
  have nonempty: "body \<noteq> []" using assms(1) by auto
  have payload: "error_payload ?input = obj []"
    using assms(2) nonempty by (simp add: error_payload_def pget_obj parse_json_or_null_def js_or_def Let_def)
  have "x_message (error_facts ?input) = body"
    using nonempty by (simp add: error_facts_def Let_def payload pget_obj js_or_def)
  then obtain rest where "x_searchable (error_facts ?input) = body @ rest"
    by (auto simp: error_facts_def Let_def)
  then have "contains (js ''context length'') (x_searchable (error_facts ?input))"
    using assms(1) by (simp add: contains_append1)
  then have "rx_test True PROMPT_LIMIT_RE (x_searchable (error_facts ?input))"
    unfolding PROMPT_LIMIT_RE_def by (rule rx_test_alt_lit) simp
  note k = prompt_limit_kind [OF this]
  have "x_payload (error_facts ?input) = obj []"
    by (simp add: error_facts_def Let_def payload)
  then show ?thesis
    by (simp add: should_failover_def w_def [symmetric] classify_fields k conf_invalid pget_obj)
qed

theorem context_length_no_failover_witness:
  "should_failover \<lparr>now_ms = 0, date_parse = Map.empty\<rparr> (jint 429)
     (jlit ''maximum context length is 128000'') Null = JBool False"
proof -
  have "contains (js ''context length'') (js ''maximum context length is 128000'')" by code_simp
  moreover have "json_parse (js ''maximum context length is 128000'') = None" by code_simp
  ultimately show ?thesis by (rule context_length_no_failover)
qed

end
