(* ===== verification/Worker_Catalog.thy ===== *)
theory Worker_Catalog
  imports Js_Value Js_Regex
begin

text \<open>
  \<open>worker/src/catalog.mjs\<close> (the dynamic model catalog of an account) with
  \<open>canonicalModelID\<close> of \<open>worker/src/plaintext.mjs\<close>, by which it is keyed.

  \<^item> \<open>route\<close> and \<open>model\<close> are the objects of the snapshot; an optional field that the source
    leaves \<open>undefined\<close> is \<open>None\<close>. The constant fields \<open>object\<close> and \<open>owned_by\<close> are left out.
  \<^item> \<open>add_entry\<close> is one round of the loop of \<open>createModelCatalogSnapshot\<close>;
    \<open>create_snapshot\<close> is the loop and \<open>resolve_catalog_model\<close> the lookup.
  \<^item> The lemmas describe the two parts of a snapshot separately: the list keeps the first
    entry of an id, the routes keep the last one written under a name.
\<close>

section \<open>Definitions\<close>

definition is_sep :: "u16 \<Rightarrow> bool" where
  "is_sep c \<longleftrightarrow> is_ws c \<or> c = 95"

definition canonical :: "jstr \<Rightarrow> jstr" where
  "canonical s = squash is_sep [45] (to_lower (trim s))"

definition canonical_model_id :: "jsval \<Rightarrow> jstr" where
  "canonical_model_id v = (if truthy v then canonical (to_string v) else js ''auto'')"

fun clean_string :: "jsval \<Rightarrow> jstr" where
  "clean_string (JStr s) = trim s"
| "clean_string _ = []"

fun number_or_undefined :: "jsval \<Rightarrow> rat option" where
  "number_or_undefined (JNum (Fin q)) = Some q"
| "number_or_undefined _ = None"

fun positive_integer :: "jsval \<Rightarrow> rat option" where
  "positive_integer (JNum (Fin q)) = (if is_int_rat q \<and> 0 < q then Some q else None)"
| "positive_integer _ = None"

definition number_array_or_undefined :: "jsval \<Rightarrow> rat list option" where
  "number_array_or_undefined v =
     (let out = List.map_filter positive_integer (items v) in if out = [] then None else Some out)"

fun bool_or_undefined :: "jsval \<Rightarrow> bool option" where
  "bool_or_undefined (JBool b) = Some b"
| "bool_or_undefined _ = None"

record route =
  r_key :: jstr
  r_display_name :: jstr
  r_source :: jstr
  r_max_input_tokens :: "jsnum option"
  r_is_reasoning :: "bool option"
  r_is_vl :: "bool option"
  r_price_factor :: "rat option"
  r_is_free :: "bool option"
  r_tags :: "jstr list option"
  r_default_context_window :: "rat option"
  r_available_context_windows :: "rat list option"
  r_max_output_tokens :: "rat option"

record model =
  m_id :: jstr
  m_display_name :: jstr
  m_mapped_key :: jstr
  m_route_display_name :: jstr
  m_context_length :: "jsnum option"
  m_is_reasoning :: "bool option"
  m_price_factor :: "rat option"
  m_is_free :: "bool option"
  m_tags :: "jstr list option"
  m_default_context_window :: "rat option"
  m_available_context_windows :: "rat list option"
  m_max_output_tokens :: "rat option"

record snapshot =
  models :: "model list"
  routes :: "(jstr \<times> route) list"
  seen_ids :: "jstr list"

definition entry_display :: "jsval \<Rightarrow> jstr" where
  "entry_display e = (let d = clean_string (pget e ''display_name'') in
     if d = [] then clean_string (pget e ''key'') else d)"

definition route_of :: "jsval \<Rightarrow> route" where
  "route_of e =
     \<lparr>r_key = clean_string (pget e ''key''),
      r_display_name = entry_display e,
      r_source = (let s = clean_string (pget e ''source'') in if s = [] then js ''system'' else s),
      r_max_input_tokens = (let n = to_number (pget e ''max_input_tokens'') in
         if num_truthy n then Some n else None),
      r_is_reasoning = bool_or_undefined (pget e ''is_reasoning''),
      r_is_vl = bool_or_undefined (pget e ''is_vl''),
      r_price_factor = number_or_undefined (pget e ''price_factor''),
      r_is_free = bool_or_undefined (pget e ''is_free''),
      r_tags = (if items (pget e ''tags'') = [] then None else Some (map to_string (items (pget e ''tags'')))),
      r_default_context_window = number_or_undefined
        (js_nvl (pget e ''default_context_window'') (pget e ''defaultContextWindow'')),
      r_available_context_windows = number_array_or_undefined
        (js_nvl (pget e ''available_context_windows'') (pget e ''availableContextWindows'')),
      r_max_output_tokens = number_or_undefined (pget e ''max_output_tokens'')\<rparr>"

definition entry_id :: "jsval \<Rightarrow> jstr" where
  "entry_id e = canonical_model_id (JStr (entry_display e))"

definition entry_key_id :: "jsval \<Rightarrow> jstr" where
  "entry_key_id e = canonical_model_id (JStr (clean_string (pget e ''key'')))"

definition model_of :: "jsval \<Rightarrow> model" where
  "model_of e = (let r = route_of e in
     \<lparr>m_id = entry_id e, m_display_name = entry_display e, m_mapped_key = r_key r,
      m_route_display_name = entry_display e, m_context_length = r_max_input_tokens r,
      m_is_reasoning = r_is_reasoning r, m_price_factor = r_price_factor r, m_is_free = r_is_free r,
      m_tags = r_tags r, m_default_context_window = r_default_context_window r,
      m_available_context_windows = r_available_context_windows r,
      m_max_output_tokens = r_max_output_tokens r\<rparr>)"

text \<open>The \<open>continue\<close> guards: not an object, disabled, or without a key.\<close>

definition usable :: "jsval \<Rightarrow> bool" where
  "usable e \<longleftrightarrow> is_object e \<and> pget e ''enable'' \<noteq> JBool False \<and> clean_string (pget e ''key'') \<noteq> []"

definition add_entry :: "jsval \<Rightarrow> snapshot \<Rightarrow> snapshot" where
  "add_entry e s =
     (if \<not> usable e then s
      else let r = route_of e; i = entry_id e;
               rs = aput (entry_key_id e) r (aput i r (routes s))
           in if i \<in> set (seen_ids s) then s\<lparr>routes := rs\<rparr>
              else \<lparr>models = models s @ [model_of e], routes = rs, seen_ids = sadd i (seen_ids s)\<rparr>)"

definition empty_snapshot :: snapshot where
  "empty_snapshot = \<lparr>models = [], routes = [], seen_ids = []\<rparr>"

definition create_snapshot :: "jsval \<Rightarrow> snapshot" where
  "create_snapshot entries = fold add_entry (items entries) empty_snapshot"

definition resolve_catalog_model :: "snapshot option \<Rightarrow> jsval \<Rightarrow> route option" where
  "resolve_catalog_model s requested =
     (let r = (let c = clean_string requested in if c = [] then js ''auto'' else c) in
      case s of None \<Rightarrow> None | Some s' \<Rightarrow> map_of (routes s') (canonical_model_id (JStr r)))"

section \<open>Canonical names\<close>

lemma uint_add_small: "uint c + k < 65536 \<Longrightarrow> 0 \<le> k \<Longrightarrow> uint (c + word_of_int k) = uint c + k" for c :: u16
proof -
  assume a: "uint c + k < 65536" "0 \<le> k"
  then have "k < 65536" using uint_ge_0 [of c] by linarith
  with a show ?thesis by (simp add: uint_word_ariths uint_word_of_int)
qed

lemma lower_unit_uint: "uint (lower_unit c) =
     (if (65 \<le> uint c \<and> uint c \<le> 90) \<or> (0xC0 \<le> uint c \<and> uint c \<le> 0xDE \<and> uint c \<noteq> 0xD7)
         \<or> (0x391 \<le> uint c \<and> uint c \<le> 0x3A9 \<and> uint c \<noteq> 0x3A2) \<or> (0x410 \<le> uint c \<and> uint c \<le> 0x42F)
      then uint c + 32
      else if 0x400 \<le> uint c \<and> uint c \<le> 0x40F then uint c + 80 else uint c)"
  using uint_add_small [of c 32] uint_add_small [of c 80]
  by (auto simp: lower_unit_def word_le_def word_uint_eq_iff)

lemma is_ws_uint: "is_ws c \<longleftrightarrow> uint c \<in> {32, 9, 10, 11, 12, 13, 0xA0, 0x1680, 0x2028, 0x2029, 0x202F, 0x205F,
     0x3000, 0xFEFF} \<or> (0x2000 \<le> uint c \<and> uint c \<le> 0x200A)"
  by (auto simp: is_ws_def word_le_def word_uint_eq_iff)

lemma lower_unit_idem [simp]: "lower_unit (lower_unit c) = lower_unit c"
  by (simp add: word_uint_eq_iff lower_unit_uint)

lemma lower_unit_ws [simp]: "is_ws (lower_unit c) \<longleftrightarrow> is_ws c"
  by (simp add: is_ws_uint lower_unit_uint)

lemma lower_unit_sep [simp]: "is_sep (lower_unit c) \<longleftrightarrow> is_sep c"
  by (simp add: is_sep_def) (simp add: word_uint_eq_iff lower_unit_uint)

lemma lower_unit_dash [simp]: "lower_unit 45 = 45" and not_sep_dash [simp]: "\<not> is_sep 45"
  by (simp_all add: lower_unit_def is_sep_def is_ws_def)

lemma canonical_units: "c \<in> set (canonical s) \<Longrightarrow> \<not> is_sep c \<and> lower_unit c = c"
  using set_squash [of is_sep "[45]" "to_lower (trim s)"]
  by (auto simp: canonical_def to_lower_def)

lemma to_lower_id: "\<forall>c \<in> set s. lower_unit c = c \<Longrightarrow> to_lower s = s"
  by (simp add: to_lower_def map_idI)

lemma canonical_idem [simp]: "canonical (canonical s) = canonical s"
proof -
  have u: "\<forall>c \<in> set (canonical s). \<not> is_sep c \<and> lower_unit c = c"
    using canonical_units by blast
  then have "trim (canonical s) = canonical s" by (intro trim_no_ws) (auto simp: is_sep_def)
  then show ?thesis
    using u by (simp add: canonical_def [of "canonical s"] to_lower_id squash_id)
qed

lemma trim_canonical [simp]: "trim (canonical s) = canonical s"
  using canonical_units by (intro trim_no_ws) (auto simp: is_sep_def)

lemma canonical_nonempty: "trim s \<noteq> [] \<Longrightarrow> canonical s \<noteq> []"
  by (simp add: canonical_def squash_eq_Nil to_lower_def)

section \<open>What a snapshot holds\<close>

definition named_routes :: "jsval \<Rightarrow> (jstr \<times> route) list" where
  "named_routes e = [(entry_id e, route_of e), (entry_key_id e, route_of e)]"

lemma routes_add_entry:
  "routes (add_entry e s) = (if usable e then fold (\<lambda>(k, r). aput k r) (named_routes e) (routes s) else routes s)"
  by (simp add: add_entry_def named_routes_def Let_def)

lemma routes_fold:
  "routes (fold add_entry es s) =
     fold (\<lambda>(k, r). aput k r) (concat (map named_routes (filter usable es))) (routes s)"
  by (induction es arbitrary: s) (auto simp: routes_add_entry)

lemma routes_create:
  "map_of (routes (create_snapshot (JArr es))) k =
     map_of (rev (concat (map named_routes (filter usable es)))) k"
  by (simp add: create_snapshot_def routes_fold empty_snapshot_def amap.get_fold_empty)

lemma seen_add_entry:
  "seen_ids (add_entry e s) = (if usable e then sadd (entry_id e) (seen_ids s) else seen_ids s)"
  by (simp add: add_entry_def sadd_def Let_def)

definition snapshot_inv :: "snapshot \<Rightarrow> bool" where
  "snapshot_inv s \<longleftrightarrow> map m_id (models s) = seen_ids s \<and> distinct (seen_ids s)
     \<and> (\<forall>m \<in> set (models s). \<exists>e. usable e \<and> m = model_of e
          \<and> map_of (routes s) (entry_id e) \<noteq> None \<and> map_of (routes s) (entry_key_id e) \<noteq> None)"

lemma snapshot_inv_empty: "snapshot_inv empty_snapshot"
  by (simp add: snapshot_inv_def empty_snapshot_def)

lemma snapshot_inv_add: "snapshot_inv s \<Longrightarrow> snapshot_inv (add_entry e s)"
proof (cases "usable e")
  case True
  assume inv: "snapshot_inv s"
  let ?rs = "aput (entry_key_id e) (route_of e) (aput (entry_id e) (route_of e) (routes s))"
  have keep: "map_of (routes s) k \<noteq> None \<Longrightarrow> map_of ?rs k \<noteq> None" for k by simp
  have old: "\<exists>e'. usable e' \<and> m = model_of e' \<and> map_of ?rs (entry_id e') \<noteq> None
      \<and> map_of ?rs (entry_key_id e') \<noteq> None" if "m \<in> set (models s)" for m
    using inv that keep unfolding snapshot_inv_def by blast
  have new: "m_id (model_of e) = entry_id e" by (simp add: model_of_def Let_def)
  show ?thesis
  proof (cases "entry_id e \<in> set (seen_ids s)")
    case seen: True
    with inv True old show ?thesis by (simp add: snapshot_inv_def add_entry_def Let_def)
  next
    case False
    have "\<exists>e'. usable e' \<and> m = model_of e' \<and> map_of ?rs (entry_id e') \<noteq> None
        \<and> map_of ?rs (entry_key_id e') \<noteq> None" if "m \<in> set (models s @ [model_of e])" for m
      using that old True by (cases "m = model_of e") auto
    with inv True False new show ?thesis
      by (simp add: snapshot_inv_def add_entry_def sadd_def Let_def)
  qed
qed (simp add: add_entry_def)

lemma snapshot_inv_create: "snapshot_inv (create_snapshot v)"
proof -
  have "snapshot_inv s \<Longrightarrow> snapshot_inv (fold add_entry es s)" for es s
    by (induction es arbitrary: s) (auto simp: snapshot_inv_add)
  then show ?thesis by (simp add: create_snapshot_def snapshot_inv_empty)
qed

lemma entry_id_canonical: "usable e \<Longrightarrow> entry_id e \<noteq> [] \<and> canonical (entry_id e) = entry_id e"
proof -
  assume u: "usable e"
  have "trim (entry_display e) = entry_display e"
    by (cases "pget e ''display_name''"; cases "pget e ''key''") (auto simp: entry_display_def Let_def)
  moreover have "entry_display e \<noteq> []"
    using u by (auto simp: usable_def entry_display_def Let_def)
  ultimately show ?thesis
    using canonical_nonempty [of "entry_display e"] by (simp add: entry_id_def canonical_model_id_def)
qed

lemma resolve_id:
  "i \<noteq> [] \<Longrightarrow> canonical i = i \<Longrightarrow> resolve_catalog_model (Some s) (JStr i) = map_of (routes s) i"
  using trim_canonical [of i] by (simp add: resolve_catalog_model_def canonical_model_id_def)

text \<open>The entries that get a place in the list: the first of each id.\<close>

fun first_by :: "('a \<Rightarrow> 'b) \<Rightarrow> 'b list \<Rightarrow> 'a list \<Rightarrow> 'a list" where
  "first_by f seen [] = []"
| "first_by f seen (x # xs) =
     (if f x \<in> set seen then first_by f seen xs else x # first_by f (f x # seen) xs)"

lemma first_by_cong: "set a = set b \<Longrightarrow> first_by f a xs = first_by f b xs"
proof (induction xs arbitrary: a b)
  case (Cons x xs)
  have "first_by f a xs = first_by f b xs" by (rule Cons.IH [OF Cons.prems])
  moreover have "first_by f (f x # a) xs = first_by f (f x # b) xs"
    by (rule Cons.IH) (simp add: Cons.prems)
  ultimately show ?case by (simp add: Cons.prems)
qed simp

lemma set_first_by: "set (first_by f seen xs) \<subseteq> set xs"
  by (induction f seen xs rule: first_by.induct) auto

lemma models_fold:
  "models (fold add_entry es s) = models s @ map model_of (first_by entry_id (seen_ids s) (filter usable es))"
proof (induction es arbitrary: s)
  case (Cons e es)
  have "first_by entry_id (xs @ [entry_id e]) ys = first_by entry_id (entry_id e # xs) ys" for xs ys
    by (rule first_by_cong) simp
  with Cons show ?case by (simp add: add_entry_def sadd_def Let_def)
qed simp

lemma map_of_named:
  "map_of (rev (concat (map named_routes es))) k =
     map_option route_of (find (\<lambda>e. entry_id e = k \<or> entry_key_id e = k) (rev es))"
  by (induction es rule: rev_induct) (auto simp: named_routes_def map_add_def split: option.splits)

lemma resolve_string:
  "trim s \<noteq> [] \<Longrightarrow> resolve_catalog_model (Some S) (JStr s) = map_of (routes S) (canonical s)"
  by (simp add: resolve_catalog_model_def canonical_model_id_def canonical_def)

section \<open>Properties\<close>

text \<open>Canonical model ids are stable: canonicalising one again changes nothing, as long as it is
  not empty (a model name of blanks canonicalises to the empty string, and that to "auto").\<close>

theorem canonical_model_id_idem:
  assumes "canonical_model_id v \<noteq> []"
  shows "canonical_model_id (JStr (canonical_model_id v)) = canonical_model_id v"
proof (cases "truthy v")
  case False
  then show ?thesis
    by (simp add: canonical_model_id_def) code_simp
qed (use assms in \<open>simp add: canonical_model_id_def\<close>)

theorem canonical_model_id_idem_witness:
  "canonical_model_id (JStr (canonical_model_id (jlit '' GLM 5_2 ''))) = canonical_model_id (jlit '' GLM 5_2 '')"
  by (rule canonical_model_id_idem) code_simp

text \<open>In every snapshot the listed model ids are pairwise distinct, and each listed model can be
  requested by its id and by its upstream key.\<close>

theorem catalog_ids_resolve:
  "distinct (map m_id (models (create_snapshot v))) \<and>
   (\<forall>m \<in> set (models (create_snapshot v)).
      resolve_catalog_model (Some (create_snapshot v)) (JStr (m_id m)) \<noteq> None \<and>
      resolve_catalog_model (Some (create_snapshot v)) (JStr (m_mapped_key m)) \<noteq> None)"
proof (intro conjI ballI)
  note inv = snapshot_inv_create [of v, unfolded snapshot_inv_def]
  then show "distinct (map m_id (models (create_snapshot v)))" by simp
  fix m assume "m \<in> set (models (create_snapshot v))"
  with inv obtain e where e: "usable e" "m = model_of e"
      "map_of (routes (create_snapshot v)) (entry_id e) \<noteq> None"
      "map_of (routes (create_snapshot v)) (entry_key_id e) \<noteq> None"
    by blast
  have id: "m_id m = entry_id e" and key: "m_mapped_key m = clean_string (pget e ''key'')"
    using e(2) by (simp_all add: model_of_def route_of_def Let_def)
  show "resolve_catalog_model (Some (create_snapshot v)) (JStr (m_id m)) \<noteq> None"
    using e(3) resolve_id entry_id_canonical [OF e(1)] by (simp add: id)
  have "clean_string (pget e ''key'') \<noteq> []" "trim (clean_string (pget e ''key'')) = clean_string (pget e ''key'')"
    using e(1) by (cases "pget e ''key''"; simp add: usable_def)+
  then show "resolve_catalog_model (Some (create_snapshot v)) (JStr (m_mapped_key m)) \<noteq> None"
    using e(4) by (simp add: key resolve_string entry_key_id_def canonical_model_id_def)
qed

definition two_models :: jsval where
  "two_models = JArr [obj [(''key'', jlit ''qmodel_a''), (''display_name'', jlit ''Auto'')],
     obj [(''key'', jlit ''qmodel_b''), (''display_name'', jlit ''auto'')]]"

theorem catalog_ids_resolve_witness:
  "\<exists>m \<in> set (models (create_snapshot two_models)).
     resolve_catalog_model (Some (create_snapshot two_models)) (JStr (m_mapped_key m)) \<noteq> None"
proof -
  have "models (create_snapshot two_models) \<noteq> []" by code_simp
  then obtain m where "m \<in> set (models (create_snapshot two_models))" by fastforce
  with catalog_ids_resolve [of two_models] show ?thesis by blast
qed

text \<open>C11: Functional behaviour of the catalog. The list holds the usable entries (enabled objects with
  a key) that are the first of their id, in order. A request is routed to the last usable
  entry whose display name or key canonicalises to the requested name, and to none when there
  is no such entry.\<close>

theorem catalog_behaviour:
  assumes "trim s \<noteq> []"
  shows "models (create_snapshot (JArr es)) = map model_of (first_by entry_id [] (filter usable es))
    \<and> resolve_catalog_model (Some (create_snapshot (JArr es))) (JStr s) =
        map_option route_of (find (\<lambda>e. entry_id e = canonical s \<or> entry_key_id e = canonical s)
          (rev (filter usable es)))"
  using models_fold [of es empty_snapshot]
  by (simp add: resolve_string [OF assms] routes_create map_of_named)
     (simp add: create_snapshot_def empty_snapshot_def)

theorem catalog_behaviour_witness:
  "map_option r_key (resolve_catalog_model (Some (create_snapshot two_models)) (jlit ''AUTO'')) =
     Some (js ''qmodel_b'')"
proof -
  have "trim (js ''AUTO'') \<noteq> []" by code_simp
  note r = catalog_behaviour [OF this, THEN conjunct2]
  show ?thesis unfolding two_models_def r by code_simp
qed

text \<open>When no name of one usable entry is a name of another, list and routes agree: requesting a
  listed id reaches the entry that was listed, with the upstream key the list shows.\<close>

theorem catalog_list_agrees_with_routes:
  assumes distinct_names: "\<And>e e'. e \<in> set es \<Longrightarrow> e' \<in> set es \<Longrightarrow> usable e \<Longrightarrow> usable e' \<Longrightarrow>
      entry_id e \<in> {entry_id e', entry_key_id e'} \<Longrightarrow> e = e'"
    and m: "m \<in> set (models (create_snapshot (JArr es)))"
  shows "map_option r_key (resolve_catalog_model (Some (create_snapshot (JArr es))) (JStr (m_id m)))
      = Some (m_mapped_key m)"
proof -
  have "models (create_snapshot (JArr es)) = map model_of (first_by entry_id [] (filter usable es))"
    using models_fold [of es empty_snapshot] by (simp add: create_snapshot_def empty_snapshot_def)
  with m obtain e where e: "m = model_of e" "e \<in> set es" "usable e"
    using set_first_by [of entry_id "[]" "filter usable es"] by auto
  have id: "m_id m = entry_id e" by (simp add: e(1) model_of_def Let_def)
  have "resolve_catalog_model (Some (create_snapshot (JArr es))) (JStr (m_id m)) =
      map_option route_of (find (\<lambda>x. entry_id x = entry_id e \<or> entry_key_id x = entry_id e)
        (rev (filter usable es)))"
    using resolve_id entry_id_canonical [OF e(3)] by (simp add: id routes_create map_of_named)
  moreover obtain x where x: "find (\<lambda>x. entry_id x = entry_id e \<or> entry_key_id x = entry_id e)
      (rev (filter usable es)) = Some x"
    using e(2,3) find_None_iff [of "\<lambda>x. entry_id x = entry_id e \<or> entry_key_id x = entry_id e"
        "rev (filter usable es)"] by fastforce
  then have "x \<in> set es" "usable x" "entry_id e \<in> {entry_id x, entry_key_id x}"
    by (auto dest: find_Some_in)
  then have "x = e" using distinct_names e(2,3) by blast
  ultimately show ?thesis by (simp add: x e(1) model_of_def Let_def)
qed

definition one_model :: "jsval list" where
  "one_model = [obj [(''key'', jlit ''qmodel_a''), (''display_name'', jlit ''Qwen Max'')], Null]"

theorem catalog_list_agrees_with_routes_witness:
  "\<exists>m :: model. m_mapped_key m = js ''qmodel_a'' \<and>
     map_option r_key (resolve_catalog_model (Some (create_snapshot (JArr one_model))) (JStr (m_id m)))
       = Some (m_mapped_key m)"
proof -
  let ?m = "model_of (hd one_model)"
  have m: "?m \<in> set (models (create_snapshot (JArr one_model)))" by code_simp
  have key: "m_mapped_key ?m = js ''qmodel_a''" by code_simp
  have "\<not> usable Null" by (simp add: usable_def)
  then have "map_option r_key (resolve_catalog_model (Some (create_snapshot (JArr one_model))) (JStr (m_id ?m)))
      = Some (m_mapped_key ?m)"
    by (intro catalog_list_agrees_with_routes m) (auto simp: one_model_def)
  with key show ?thesis by (intro exI [of _ ?m]) simp
qed

text \<open>With two enabled entries of one display name the list and the routes disagree: the listed
  model shows the upstream key of the first entry, and requests for it go to the second.\<close>

theorem catalog_duplicate_display_name:
  "\<exists>m r. models (create_snapshot two_models) = [m]
     \<and> resolve_catalog_model (Some (create_snapshot two_models)) (JStr (m_id m)) = Some r
     \<and> m_mapped_key m = js ''qmodel_a'' \<and> r_key r = js ''qmodel_b''"
proof -
  have "(case models (create_snapshot two_models) of
      [m] \<Rightarrow> m_mapped_key m = js ''qmodel_a'' \<and>
        (case resolve_catalog_model (Some (create_snapshot two_models)) (JStr (m_id m)) of
           Some r \<Rightarrow> r_key r = js ''qmodel_b'' | None \<Rightarrow> False)
    | _ \<Rightarrow> False)"
    by code_simp
  then show ?thesis by (auto split: list.splits option.splits)
qed

end
