(* ===== verification/Worker_Content.thy ===== *)
theory Worker_Content
  imports Js_Json Js_Regex
begin

text \<open>
  The content helpers of \<open>worker/src/plaintext.mjs\<close>: message content as text
  (\<open>contentToString\<close>), token estimates, the reasoning switch, tool definitions
  (\<open>normalizeTools\<close>), tool results as text (\<open>normalizeToolResultContent\<close>) and content parts in
  the shape the upstream takes (\<open>normalizeContentForUpstream\<close>).
\<close>

section \<open>Content as text\<close>

definition part_text :: "jsval \<Rightarrow> jsval" where
  "part_text p =
     (if is_string p then p
      else if is_object p then js_or (pget p ''text'') (js_or (pget p ''content'') (JStr []))
      else JStr [])"

definition content_to_string :: "jsval \<Rightarrow> jstr" where
  "content_to_string c =
     (case c of
        JStr s \<Rightarrow> s
      | JArr ps \<Rightarrow> join [10] (map to_string (filter truthy (map part_text ps)))
      | _ \<Rightarrow> if nullish c then [] else to_string c)"

section \<open>Token estimates\<close>

definition is_cjk :: "u16 \<Rightarrow> bool" where
  "is_cjk c \<longleftrightarrow> (0x4e00 \<le> c \<and> c \<le> 0x9fff) \<or> (0x3400 \<le> c \<and> c \<le> 0x4dbf) \<or> (0xf900 \<le> c \<and> c \<le> 0xfaff)
     \<or> (0x3040 \<le> c \<and> c \<le> 0x30ff) \<or> (0xac00 \<le> c \<and> c \<le> 0xd7af)"

text \<open>
  The loop \<open>for (const ch of s)\<close> goes over code points: a surrogate pair is one \<open>ch\<close>, and
  it is never in the pattern's ranges. The result is the pair (cjk, other).
\<close>

fun count_chars :: "jstr \<Rightarrow> nat \<times> nat" where
  "count_chars [] = (0, 0)"
| "count_chars [c] = (if is_cjk c then (1, 0) else (0, 1))"
| "count_chars (c # d # s) =
     (if is_high c \<and> is_low d then (case count_chars s of (k, n) \<Rightarrow> (k, Suc n))
      else if is_cjk c then (case count_chars (d # s) of (k, n) \<Rightarrow> (Suc k, n))
      else (case count_chars (d # s) of (k, n) \<Rightarrow> (k, Suc n)))"

definition estimate_tokens :: "jsval \<Rightarrow> int" where
  "estimate_tokens v =
     (let s = to_string (js_or v (JStr [])) in
      if s = [] then 0
      else case count_chars s of (k, n) \<Rightarrow> max 1 (math_round (of_nat k + of_nat n / 4)))"

definition estimate_prompt_tokens :: "jsval list \<Rightarrow> int" where
  "estimate_prompt_tokens ms =
     foldl (\<lambda>sum m. sum + (estimate_tokens (JStr (content_to_string (pget m ''content''))) + 4)) 0 ms"

section \<open>The reasoning switch\<close>

definition off_words :: "jstr list" where
  "off_words = map js [''disabled'', ''none'', ''off'']"

definition thinking_on :: "jsval \<Rightarrow> bool" where
  "thinking_on v =
     (case v of
        JBool b \<Rightarrow> b
      | JStr s \<Rightarrow> (let t = to_lower s in t \<noteq> [] \<and> t \<notin> set off_words \<and> t \<noteq> js ''false'')
      | _ \<Rightarrow>
          if is_object v then
            (let t = to_lower (to_string (js_or (pget v ''type'') (js_or (pget v ''mode'') (JStr []))))
             in (t \<noteq> [] \<and> t \<notin> set off_words) \<or> pget v ''enabled'' = JBool True)
          else False)"

definition effort_on :: "jsval \<Rightarrow> bool" where
  "effort_on v =
     (case v of JStr s \<Rightarrow> (let e = to_lower s in e \<noteq> [] \<and> e \<notin> set off_words) | _ \<Rightarrow> False)"

definition wants_reasoning :: "jsval \<Rightarrow> bool" where
  "wants_reasoning b \<longleftrightarrow>
     pget b ''is_reasoning'' = JBool True \<or> pget b ''enable_thinking'' = JBool True
     \<or> pget b ''enable_reasoning'' = JBool True \<or> thinking_on (pget b ''thinking'')
     \<or> effort_on (pget b ''reasoning_effort'')"

section \<open>Tool definitions\<close>

record tool =
  t_name :: jstr
  t_description :: jsval
  t_parameters :: jsval

definition empty_schema :: jsval where
  "empty_schema = obj [(''type'', jlit ''object''), (''properties'', obj [])]"

definition normalize_tool :: "jsval \<Rightarrow> tool option" where
  "normalize_tool t =
     (if \<not> is_object t then None
      else if pget t ''type'' = jlit ''function'' \<and> is_object (pget t ''function'') then
        (let f = pget t ''function'' in
         Some \<lparr>t_name = to_string (js_or (pget f ''name'') (JStr [])),
               t_description = js_or (pget f ''description'') (JStr []),
               t_parameters = js_or (pget f ''parameters'') empty_schema\<rparr>)
      else if truthy (pget t ''name'') \<and> (truthy (pget t ''parameters'') \<or> \<not> nullish (pget t ''description'')) then
        Some \<lparr>t_name = to_string (pget t ''name''),
              t_description = js_or (pget t ''description'') (JStr []),
              t_parameters = js_or (pget t ''parameters'') empty_schema\<rparr>
      else None)"

definition normalize_tools :: "jsval \<Rightarrow> tool list" where
  "normalize_tools ts = filter (\<lambda>t. t_name t \<noteq> []) (List.map_filter normalize_tool (items ts))"

section \<open>Tool results as text\<close>

definition result_part :: "jsval \<Rightarrow> jstr" where
  "result_part p =
     (if is_string p then to_string p
      else if \<not> is_object p then []
      else if pget p ''type'' = jlit ''text'' \<and> is_string (pget p ''text'') then to_string (pget p ''text'')
      else if pget p ''type'' = jlit ''image'' \<or> pget p ''type'' = jlit ''image_url'' then
        js ''[Image: '' @ to_string (js_or (pget p ''mime_type'') (js_or (pget p ''mimeType'')
          (js_or (pget (pget p ''image_url'') ''detail'') (jlit ''unknown'')))) @ js '']''
      else if pget p ''type'' = jlit ''resource_link'' then
        js ''[Link to '' @ to_string (js_or (pget p ''title'') (js_or (pget p ''name'')
          (js_or (pget p ''uri'') (jlit ''resource'')))) @ js '']''
      else if pget p ''type'' = jlit ''resource'' then
        (if is_string (pget (pget p ''resource'') ''text'') then to_string (pget (pget p ''resource'') ''text'')
         else js ''[Embedded Resource: '' @ to_string (js_or (pget (pget p ''resource'') ''mime_type'')
           (js_or (pget (pget p ''resource'') ''mimeType'') (jlit ''unknown''))) @ js '']'')
      else json_text p)"

definition starts_with_error :: "jstr \<Rightarrow> bool" where
  "starts_with_error s \<longleftrightarrow> starts_with (js ''Error:'') s \<and> (case drop 6 s of [] \<Rightarrow> False | c # _ \<Rightarrow> is_ws c)"

definition normalize_tool_result_content :: "jsval \<Rightarrow> bool \<Rightarrow> jstr" where
  "normalize_tool_result_content c is_error =
     (let n0 = (case c of
                  JStr s \<Rightarrow> s
                | JArr ps \<Rightarrow> join [10] (filter (\<lambda>t. t \<noteq> []) (map result_part ps))
                | _ \<Rightarrow> if nullish c then js ''(no content)'' else json_text c);
          n = (if n0 = [] then js ''(no content)'' else n0)
      in if is_error \<and> \<not> starts_with_error n then js ''Error: '' @ n else n)"

section \<open>Content parts for the upstream\<close>

definition text_types :: "jsval list" where
  "text_types = map jlit [''text'', ''input_text'', ''output_text'']"

definition upstream_part :: "jsval \<Rightarrow> jsval option" where
  "upstream_part p =
     (if is_string p then Some (obj [(''type'', jlit ''text''), (''text'', p)])
      else if \<not> is_object p then None
      else if pget p ''type'' \<in> set text_types then
        Some (obj [(''type'', jlit ''text''),
          (''text'', JStr (to_string (js_nvl (pget p ''text'') (js_nvl (pget p ''content'') (JStr [])))))])
      else if pget p ''type'' = jlit ''image_url'' then
        (let image = (if is_string (pget p ''image_url'') then obj [(''url'', pget p ''image_url'')]
                      else pget p ''image_url'')
         in if truthy (pget image ''url'') then Some (obj [(''type'', jlit ''image_url''), (''image_url'', image)])
            else None)
      else None)"

definition normalize_content_for_upstream :: "jsval \<Rightarrow> jsval" where
  "normalize_content_for_upstream c =
     (case c of JArr ps \<Rightarrow> JArr (List.map_filter upstream_part ps)
      | _ \<Rightarrow> if nullish c then JStr [] else c)"

section \<open>Lemmas\<close>

lemma count_chars_total: "0 < length s \<Longrightarrow> 0 < fst (count_chars s) + snd (count_chars s)"
  by (induction s rule: count_chars.induct) (auto split: prod.splits)

lemma count_chars_bound: "fst (count_chars s) + snd (count_chars s) \<le> length s"
proof (induction s rule: count_chars.induct)
  case (3 c d s)
  then show ?case by (cases "is_cjk c") (auto split: prod.splits)
qed simp_all

lemma estimate_tokens_bounds [js_bounds]:
  "0 \<le> estimate_tokens (JStr s)" "estimate_tokens (JStr s) \<le> int (length s)"
proof -
  obtain k n where kn: "count_chars s = (k, n)" by (cases "count_chars s")
  have le: "k + n \<le> length s" using count_chars_bound [of s] kn by simp
  have "math_round (of_nat k + of_nat n / 4) \<le> int (k + n)"
    unfolding math_round_def by (simp add: floor_le_iff)
  then show "0 \<le> estimate_tokens (JStr s)" "estimate_tokens (JStr s) \<le> int (length s)"
    using le by (auto simp: estimate_tokens_def js_or_def kn Let_def Suc_le_eq)
qed

lemma normalize_tools_named: "t \<in> set (normalize_tools ts) \<Longrightarrow> t_name t \<noteq> []"
  by (simp add: normalize_tools_def)

lemma normalize_tool_result_nonempty: "normalize_tool_result_content c e \<noteq> []"
  by (simp add: normalize_tool_result_content_def Let_def)

lemma starts_with_error_prefixed: "starts_with_error (js ''Error: '' @ s)"
  by (simp add: starts_with_error_def starts_with_def js_def is_ws_def)

end
