(* ===== verification/Worker_Filter.thy ===== *)
theory Worker_Filter
  imports Worker_Content
begin

text \<open>
  \<open>filterUnknownToolHistory\<close> of \<open>worker/src/plaintext.mjs\<close>: before a conversation is sent
  upstream, calls of tools the request does not define are removed from the assistant messages,
  together with the tool messages that answer them.

  The sets and the output array of the source are the fields of \<open>filter_state\<close>;
  \<open>filter_call\<close> is the inner loop over the calls of a message and \<open>filter_message\<close> the outer
  loop. Messages are JavaScript values: the source keeps every other field of a message.
\<close>

section \<open>Definitions\<close>

text \<open>\<open>toolCall?.function && typeof toolCall.function === "object" ? toolCall.function : {}\<close>.\<close>

definition function_part :: "jsval \<Rightarrow> jsval" where
  "function_part tc = (if is_object (pget tc ''function'') then pget tc ''function'' else obj [])"

definition call_name :: "jsval \<Rightarrow> jstr" where
  "call_name tc = to_string (js_or (pget (function_part tc) ''name'') (js_or (pget tc ''name'') (JStr [])))"

fun trimmed_string :: "jsval \<Rightarrow> jstr" where
  "trimmed_string (JStr s) = trim s"
| "trimmed_string _ = []"

text \<open>Calls kept, identifiers and names of the calls dropped so far.\<close>

record call_state =
  c_retained :: "jsval list"
  c_ids :: "jstr list"
  c_names :: "jstr list"

definition filter_call :: "jstr list \<Rightarrow> jsval \<Rightarrow> call_state \<Rightarrow> call_state" where
  "filter_call defined tc s =
     (let name = trim (call_name tc) in
      if name \<noteq> [] \<and> name \<in> set defined then s\<lparr>c_retained := c_retained s @ [tc]\<rparr>
      else s\<lparr>c_ids := (let i = trimmed_string (pget tc ''id'') in if i \<noteq> [] then sadd i (c_ids s) else c_ids s),
             c_names := (if name \<noteq> [] then sadd name (c_names s) else c_names s)\<rparr>)"

record filter_state =
  f_ids :: "jstr list"
  f_names :: "jstr list"
  f_messages :: "jsval list"

definition is_role :: "string \<Rightarrow> jsval \<Rightarrow> bool" where
  "is_role r m \<longleftrightarrow> pget m ''role'' = jlit r"

definition calls_message :: "jsval \<Rightarrow> bool" where
  "calls_message m \<longleftrightarrow> is_role ''assistant'' m \<and> is_array (pget m ''tool_calls'')"

definition filter_message :: "jstr list \<Rightarrow> jsval \<Rightarrow> filter_state \<Rightarrow> filter_state" where
  "filter_message defined m s =
     (if calls_message m then
        (let cs = fold (filter_call defined) (items (pget m ''tool_calls''))
                    \<lparr>c_retained = [], c_ids = f_ids s, c_names = f_names s\<rparr>;
             keep = (if c_retained cs = [] then
                       (if content_to_string (pget m ''content'') \<noteq> []
                        then [spread m [(''tool_calls'', Undef)]] else [])
                     else [spread m [(''tool_calls'', JArr (c_retained cs))]])
         in \<lparr>f_ids = c_ids cs, f_names = c_names cs, f_messages = f_messages s @ keep\<rparr>)
      else if is_role ''tool'' m \<and> is_string (pget m ''tool_call_id'')
              \<and> trimmed_string (pget m ''tool_call_id'') \<in> set (f_ids s) then s
      else s\<lparr>f_messages := f_messages s @ [m]\<rparr>)"

definition filter_unknown_tool_history :: "jsval \<Rightarrow> jsval \<Rightarrow> filter_state" where
  "filter_unknown_tool_history ms tools =
     (let defined = map t_name (normalize_tools tools) in
      if defined = [] then \<lparr>f_ids = [], f_names = [], f_messages = items ms\<rparr>
      else fold (filter_message defined) (items ms) \<lparr>f_ids = [], f_names = [], f_messages = []\<rparr>)"

section \<open>The inner loop\<close>

definition known_call :: "jstr list \<Rightarrow> jsval \<Rightarrow> bool" where
  "known_call defined tc \<longleftrightarrow> trim (call_name tc) \<noteq> [] \<and> trim (call_name tc) \<in> set defined"

lemma filter_calls_retained:
  "c_retained (fold (filter_call defined) tcs s) = c_retained s @ filter (known_call defined) tcs"
  by (induction tcs arbitrary: s) (auto simp: filter_call_def known_call_def Let_def)

lemma filter_calls_ids:
  "set (c_ids (fold (filter_call defined) tcs s)) =
     set (c_ids s) \<union> {i. i \<noteq> [] \<and> (\<exists>tc \<in> set tcs. \<not> known_call defined tc \<and> trimmed_string (pget tc ''id'') = i)}"
  by (induction tcs arbitrary: s) (auto simp: filter_call_def known_call_def Let_def)

lemma filter_calls_all_known:
  "\<forall>tc \<in> set tcs. known_call defined tc \<Longrightarrow>
   fold (filter_call defined) tcs s = s\<lparr>c_retained := c_retained s @ tcs\<rparr>"
  by (induction tcs arbitrary: s) (auto simp: filter_call_def known_call_def Let_def)

section \<open>The outer loop\<close>

text \<open>What one message contributes to the output, given the identifiers dropped before it.\<close>

definition kept :: "jstr list \<Rightarrow> jstr list \<Rightarrow> jsval \<Rightarrow> jsval list" where
  "kept defined ids m =
     (if calls_message m then
        (let r = filter (known_call defined) (items (pget m ''tool_calls'')) in
         if r = [] then
           (if content_to_string (pget m ''content'') \<noteq> [] then [spread m [(''tool_calls'', Undef)]] else [])
         else [spread m [(''tool_calls'', JArr r)]])
      else if is_role ''tool'' m \<and> is_string (pget m ''tool_call_id'')
              \<and> trimmed_string (pget m ''tool_call_id'') \<in> set ids then []
      else [m])"

lemma filter_message_messages:
  "f_messages (filter_message defined m s) = f_messages s @ kept defined (f_ids s) m"
  by (simp add: filter_message_def kept_def filter_calls_retained Let_def)

lemma filter_message_append:
  "filter_message defined m (s\<lparr>f_messages := a\<rparr>) =
     (filter_message defined m s)\<lparr>f_messages := a @ kept defined (f_ids s) m\<rparr>"
  by (simp add: filter_message_def kept_def filter_calls_retained Let_def)

text \<open>
  Every message of the output comes from a message of the input by \<open>kept\<close>; the predicate
  version of the loop that the properties use.
\<close>

lemma filter_messages_invariant:
  "\<forall>x \<in> set (f_messages s). P x \<Longrightarrow> \<forall>m \<in> set ms. \<forall>ids. \<forall>x \<in> set (kept defined ids m). P x \<Longrightarrow>
    \<forall>x \<in> set (f_messages (fold (filter_message defined) ms s)). P x"
proof (induction ms arbitrary: s)
  case (Cons m ms)
  have "\<forall>x \<in> set (f_messages (filter_message defined m s)). P x"
    using Cons.prems by (auto simp: filter_message_messages)
  from Cons.IH [OF this] Cons.prems(2) show ?case by simp
qed simp

definition only_known_calls :: "jstr list \<Rightarrow> jsval \<Rightarrow> bool" where
  "only_known_calls defined m \<longleftrightarrow>
     calls_message m \<longrightarrow> items (pget m ''tool_calls'') \<noteq> [] \<and>
       (\<forall>tc \<in> set (items (pget m ''tool_calls'')). known_call defined tc)"

lemma spread_role [simp]: "is_role r (spread m [(''tool_calls'', v)]) \<longleftrightarrow> is_role r m"
  by (simp add: is_role_def pget_spread)

lemma spread_calls [simp]: "pget (spread m [(''tool_calls'', v)]) ''tool_calls'' = v"
  by (simp add: pget_spread)

lemma kept_only_known: "x \<in> set (kept defined ids m) \<Longrightarrow> only_known_calls defined x"
  by (auto simp: kept_def only_known_calls_def calls_message_def Let_def split: if_splits)

text \<open>A message that passes the filter unchanged: the fixed points of \<open>kept\<close>.\<close>

lemma aput_same: "map_of ps k = Some v \<Longrightarrow> aput k v ps = ps"
  by (induction ps) auto

lemma spread_same:
  "pget m k = v \<Longrightarrow> v \<noteq> Undef \<Longrightarrow> spread m [(k, v)] = m"
proof -
  assume "pget m k = v" "v \<noteq> Undef"
  then obtain ps where m: "m = JObj ps" by (cases m) auto
  with \<open>pget m k = v\<close> \<open>v \<noteq> Undef\<close> have some: "map_of ps (js k) = Some v"
    by (auto simp: lookup_def split: option.splits)
  then have "js k \<in> fst ` set ps" by (metis map_of_eq_None_iff option.discI)
  with some show ?thesis by (simp add: m spread_def put_def aput_same)
qed

lemma kept_known:
  "only_known_calls defined m \<Longrightarrow> calls_message m \<Longrightarrow> kept defined ids m = [m]"
proof -
  assume k: "only_known_calls defined m" "calls_message m"
  then have "filter (known_call defined) (items (pget m ''tool_calls'')) = items (pget m ''tool_calls'')"
    by (simp add: only_known_calls_def)
  moreover have arr: "JArr (items (pget m ''tool_calls'')) = pget m ''tool_calls''"
    using k(2) by (cases "pget m ''tool_calls''") (auto simp: calls_message_def)
  ultimately show ?thesis
    using k spread_same [of m "''tool_calls''" "pget m ''tool_calls''"]
    by (auto simp: kept_def only_known_calls_def Let_def calls_message_def) (metis jsval.distinct)
qed

lemma filter_known_messages:
  "\<forall>m \<in> set ms. only_known_calls defined m \<Longrightarrow> f_ids s = [] \<Longrightarrow> f_names s = [] \<Longrightarrow>
   fold (filter_message defined) ms s = s\<lparr>f_messages := f_messages s @ ms\<rparr>"
proof (induction ms arbitrary: s)
  case (Cons m ms)
  have k: "only_known_calls defined m" using Cons.prems by simp
  have "filter_message defined m s = s\<lparr>f_messages := f_messages s @ [m]\<rparr>"
  proof (cases "calls_message m")
    case True
    have "\<forall>tc \<in> set (items (pget m ''tool_calls'')). known_call defined tc"
      using k True by (simp add: only_known_calls_def)
    from filter_calls_all_known [OF this]
    have "filter_message defined m s = s\<lparr>f_messages := f_messages s @ kept defined [] m\<rparr>"
      using filter_message_messages [of defined m s] Cons.prems(2,3) True
      by (simp add: filter_message_def Let_def)
    with kept_known [OF k True] show ?thesis by simp
  next
    case False
    with Cons.prems show ?thesis by (simp add: filter_message_def)
  qed
  with Cons show ?case by simp
qed simp

lemma filter_others:
  "filter (\<lambda>m. \<not> is_role ''assistant'' m \<and> \<not> is_role ''tool'' m) (kept defined ids m) =
     filter (\<lambda>m. \<not> is_role ''assistant'' m \<and> \<not> is_role ''tool'' m) [m]"
  by (auto simp: kept_def calls_message_def Let_def)

lemma filter_message_ids_mono: "set (f_ids s) \<subseteq> set (f_ids (filter_message defined m s))"
  by (auto simp: filter_message_def filter_calls_ids Let_def)

lemma filter_messages_ids_mono: "set (f_ids s) \<subseteq> set (f_ids (fold (filter_message defined) ms s))"
proof (induction ms arbitrary: s)
  case (Cons m ms)
  from Cons.IH [of "filter_message defined m s"] filter_message_ids_mono [of s defined m]
  show ?case by auto
qed simp

lemma filter_message_drops_id:
  "calls_message m \<Longrightarrow> tc \<in> set (items (pget m ''tool_calls'')) \<Longrightarrow> \<not> known_call defined tc \<Longrightarrow>
   trimmed_string (pget tc ''id'') \<noteq> [] \<Longrightarrow>
   trimmed_string (pget tc ''id'') \<in> set (f_ids (filter_message defined m s))"
  by (auto simp: filter_message_def filter_calls_ids Let_def)

lemma filter_messages_drops_id:
  assumes "a \<in> set ms" "calls_message a" "tc \<in> set (items (pget a ''tool_calls''))"
    and "\<not> known_call defined tc" "trimmed_string (pget tc ''id'') \<noteq> []"
  shows "trimmed_string (pget tc ''id'') \<in> set (f_ids (fold (filter_message defined) ms s))"
proof -
  from assms(1) obtain us vs where ms: "ms = us @ a # vs" by (auto simp: in_set_conv_decomp)
  let ?s = "fold (filter_message defined) us s"
  from filter_message_drops_id [OF assms(2-5), of ?s]
    filter_messages_ids_mono [of "filter_message defined a ?s" defined vs]
  show ?thesis by (auto simp: ms)
qed

section \<open>Properties\<close>

text \<open>
  Once a request defines at least one tool, no call of another tool is sent upstream: in every
  assistant message of the filtered history that has an array of calls, the array is not empty and
  the trimmed name of each call is the name of a defined tool.
\<close>

theorem filter_sends_only_defined_calls:
  assumes "normalize_tools tools \<noteq> []"
    and "m \<in> set (f_messages (filter_unknown_tool_history ms tools))" and "calls_message m"
  shows "items (pget m ''tool_calls'') \<noteq> [] \<and>
    (\<forall>tc \<in> set (items (pget m ''tool_calls'')).
       trim (call_name tc) \<in> set (map t_name (normalize_tools tools)))"
proof -
  let ?d = "map t_name (normalize_tools tools)"
  have "\<forall>x \<in> set (f_messages (fold (filter_message ?d) (items ms) \<lparr>f_ids = [], f_names = [], f_messages = []\<rparr>)).
          only_known_calls ?d x"
    by (rule filter_messages_invariant) (auto intro: kept_only_known)
  with assms show ?thesis
    by (auto simp: filter_unknown_tool_history_def only_known_calls_def known_call_def Let_def)
qed

definition wtool :: "jsval" where
  "wtool = JArr [obj [(''name'', jlit ''read''), (''description'', jlit ''d'')]]"

definition wcall :: "string \<Rightarrow> string \<Rightarrow> jsval" where
  "wcall i n = obj [(''id'', jlit i), (''function'', obj [(''name'', jlit n)])]"

definition wcalls :: "jsval list \<Rightarrow> jsval" where
  "wcalls tcs = obj [(''role'', jlit ''assistant''), (''content'', Null), (''tool_calls'', JArr tcs)]"

definition wresult :: "string \<Rightarrow> jsval" where
  "wresult i = obj [(''role'', jlit ''tool''), (''tool_call_id'', jlit i), (''content'', jlit ''x'')]"

theorem filter_sends_only_defined_calls_witness:
  "trim (call_name (wcall ''a'' ''read'')) \<in> set (map t_name (normalize_tools wtool))"
proof -
  let ?out = "wcalls [wcall ''a'' ''read'']"
    and ?in = "JArr [wcalls [wcall ''a'' ''read'', wcall ''b'' ''exec'']]"
  have "normalize_tools wtool \<noteq> []" "calls_message ?out"
    "?out \<in> set (f_messages (filter_unknown_tool_history ?in wtool))"
    "wcall ''a'' ''read'' \<in> set (items (pget ?out ''tool_calls''))" by code_simp+
  with filter_sends_only_defined_calls [of wtool ?out ?in] show ?thesis by blast
qed

text \<open>
  Filtering is idempotent: the filtered history passes through a second filter with the same
  tools unchanged, and nothing is reported as dropped. (A retry of a request whose history was
  filtered already sends the same messages.)
\<close>

theorem filter_idempotent:
  "filter_unknown_tool_history (JArr (f_messages (filter_unknown_tool_history ms tools))) tools =
     \<lparr>f_ids = [], f_names = [], f_messages = f_messages (filter_unknown_tool_history ms tools)\<rparr>"
proof (cases "normalize_tools tools = []")
  case False
  let ?d = "map t_name (normalize_tools tools)"
  let ?s = "\<lparr>f_ids = [], f_names = [], f_messages = []\<rparr>"
  have all: "\<forall>x \<in> set (f_messages (fold (filter_message ?d) (items ms) ?s)). only_known_calls ?d x"
    by (rule filter_messages_invariant) (auto intro: kept_only_known)
  show ?thesis
    using False filter_known_messages [OF all, of ?s]
    by (simp add: filter_unknown_tool_history_def Let_def)
qed (simp add: filter_unknown_tool_history_def)

text \<open>
  The filter touches only assistant and tool messages: the messages of every other role (system,
  developer, user, or none) come out unchanged, all of them and in the same order.
\<close>

theorem filter_keeps_other_roles:
  "filter (\<lambda>m. \<not> is_role ''assistant'' m \<and> \<not> is_role ''tool'' m) (f_messages (filter_unknown_tool_history ms tools)) =
     filter (\<lambda>m. \<not> is_role ''assistant'' m \<and> \<not> is_role ''tool'' m) (items ms)"
proof -
  have "filter (\<lambda>m. \<not> is_role ''assistant'' m \<and> \<not> is_role ''tool'' m) (f_messages (fold (filter_message d) xs s)) =
      filter (\<lambda>m. \<not> is_role ''assistant'' m \<and> \<not> is_role ''tool'' m) (f_messages s @ xs)" for d xs s
  proof (induction xs arbitrary: s)
    case (Cons x xs)
    show ?case by (simp add: Cons.IH filter_message_messages filter_others) 
  qed simp
  then show ?thesis by (simp add: filter_unknown_tool_history_def Let_def)
qed

text \<open>
  The result of a dropped call goes with the call. If an earlier message calls an undefined tool
  under an identifier, a tool message answering that identifier (both trimmed) does not change what
  is sent: the history is filtered as if the tool message were not there.
\<close>

theorem filter_drops_results_of_dropped_calls:
  assumes "normalize_tools tools \<noteq> []"
    and "a \<in> set us" and "calls_message a" and "tc \<in> set (items (pget a ''tool_calls''))"
    and "trim (call_name tc) \<notin> set (map t_name (normalize_tools tools))"
    and "is_role ''tool'' m" and "pget m ''tool_call_id'' = JStr i" and "pget tc ''id'' = JStr j"
    and "trim i = trim j" and "trim j \<noteq> []"
  shows "filter_unknown_tool_history (JArr (us @ m # vs)) tools = filter_unknown_tool_history (JArr (us @ vs)) tools"
proof -
  let ?d = "map t_name (normalize_tools tools)"
  let ?s = "fold (filter_message ?d) us \<lparr>f_ids = [], f_names = [], f_messages = []\<rparr>"
  have "\<not> known_call ?d tc" using assms(5) by (simp add: known_call_def)
  from filter_messages_drops_id [OF assms(2-4) this] assms(8-10)
  have "trim i \<in> set (f_ids ?s)" by simp
  moreover have "\<not> calls_message m" using assms(6) by (simp add: calls_message_def is_role_def)
  ultimately have "filter_message ?d m ?s = ?s" using assms(6,7) by (simp add: filter_message_def)
  then show ?thesis using assms(1) by (simp add: filter_unknown_tool_history_def Let_def)
qed

theorem filter_drops_results_of_dropped_calls_witness:
  "filter_unknown_tool_history (JArr ([wcalls [wcall ''a'' ''exec'']] @ wresult '' a '' # [wresult ''b''])) wtool =
   filter_unknown_tool_history (JArr ([wcalls [wcall ''a'' ''exec'']] @ [wresult ''b''])) wtool"
proof (rule filter_drops_results_of_dropped_calls
    [where a = "wcalls [wcall ''a'' ''exec'']" and tc = "wcall ''a'' ''exec''" and i = "js '' a ''" and j = "js ''a''"])
  show "normalize_tools wtool \<noteq> []" by code_simp
  show "wcalls [wcall ''a'' ''exec''] \<in> set [wcalls [wcall ''a'' ''exec'']]" by simp
  show "calls_message (wcalls [wcall ''a'' ''exec''])" by code_simp
  show "wcall ''a'' ''exec'' \<in> set (items (pget (wcalls [wcall ''a'' ''exec'']) ''tool_calls''))" by code_simp
  show "trim (call_name (wcall ''a'' ''exec'')) \<notin> set (map t_name (normalize_tools wtool))" by code_simp
  show "is_role ''tool'' (wresult '' a '')" by code_simp
  show "pget (wresult '' a '') ''tool_call_id'' = jlit '' a ''" by code_simp
  show "pget (wcall ''a'' ''exec'') ''id'' = jlit ''a''" by code_simp
  show "trim (js '' a '') = trim (js ''a'')" by code_simp
  show "trim (js ''a'') \<noteq> []" by code_simp
qed

end
