(* ===== verification/Worker_Normalize.thy ===== *)
theory Worker_Normalize
  imports Worker_Filter "HOL-Library.Multiset"
begin

text \<open>
  \<open>normalizeToolCall\<close> and \<open>normalizeMessagesForUpstream\<close> of \<open>worker/src/plaintext.mjs\<close>: the
  messages of a request in the shape the upstream takes. Tool calls get unique identifiers, tool
  results are matched to the calls of the assistant message before them, held back, sorted into the
  order of the calls and emitted together, followed by the images they carried.

  The local variables of the source are the fields of \<open>norm_state\<close>: the identifiers in use, the
  map from an identifier of the client to the identifier sent, the calls emitted, the output, the
  identifiers of the last batch, those of them that were answered, and the results held back.
\<close>

section \<open>Tool calls\<close>

text \<open>
  The loop \<open>while (usedIds.has(id)) id += "_retry"\<close>. It ends because every turn makes the
  identifier longer: the identifiers in use that are at least as long as \<open>i\<close> become fewer.
\<close>

definition retry_suffix :: jstr where
  "retry_suffix = js ''_retry''"

lemma length_retry_suffix [simp]: "length retry_suffix = 6"
  by (simp add: retry_suffix_def)

function fresh_id :: "jstr list \<Rightarrow> jstr \<Rightarrow> jstr" where
  "fresh_id used i = (if i \<in> set used then fresh_id used (i @ retry_suffix) else i)"
  by pat_completeness auto
termination
proof (relation "measure (\<lambda>(used, i). card {u \<in> set used. length i \<le> length u})")
  fix used :: "jstr list" and i :: jstr
  assume "i \<in> set used"
  then have "i \<in> {u \<in> set used. length i \<le> length u}"
    and "i \<notin> {u \<in> set used. length (i @ retry_suffix) \<le> length u}" by auto
  moreover have "{u \<in> set used. length (i @ retry_suffix) \<le> length u} \<subseteq> {u \<in> set used. length i \<le> length u}"
    by auto
  ultimately have "{u \<in> set used. length (i @ retry_suffix) \<le> length u} \<subset> {u \<in> set used. length i \<le> length u}"
    by blast
  then show "((used, i @ retry_suffix), used, i)
      \<in> measure (\<lambda>(used, i). card {u \<in> set used. length i \<le> length u})"
    by (simp add: psubset_card_mono)
qed simp

declare fresh_id.simps [simp del]

definition call_arguments :: "jsval \<Rightarrow> jstr" where
  "call_arguments f =
     (if is_string (pget f ''arguments'') then to_string (pget f ''arguments'')
      else json_text (js_nvl (pget f ''arguments'') (obj [])))"

definition index_str :: "nat \<Rightarrow> jstr" where
  "index_str n = dec_digits (int n)"

definition generated_id :: "nat \<Rightarrow> nat \<Rightarrow> jstr" where
  "generated_id mi ci = js ''qoder_call_'' @ index_str mi @ js ''_'' @ index_str ci"

definition call_id :: "jstr list \<Rightarrow> jsval \<Rightarrow> nat \<Rightarrow> nat \<Rightarrow> jstr" where
  "call_id used tc mi ci =
     (let source = trimmed_string (pget tc ''id'') in
      if source = [] \<or> source \<in> set used then fresh_id used (generated_id mi ci) else source)"

definition out_call :: "jstr \<Rightarrow> jsval \<Rightarrow> jsval" where
  "out_call i tc =
     obj [(''id'', JStr i), (''type'', jlit ''function''),
          (''function'', obj [(''name'', JStr (call_name tc)),
                              (''arguments'', JStr (call_arguments (function_part tc)))])]"

section \<open>The state of the normalizer\<close>

record pending =
  p_message :: jsval
  p_call_id :: jstr
  p_images :: "jsval list"

record norm_state =
  n_used :: "jstr list"
  n_sources :: "(jstr \<times> jstr) list"
  n_calls :: "(jstr \<times> jsval) list"
  n_out :: "jsval list"
  n_batch :: "jstr list"
  n_consumed :: "jstr list"
  n_pending :: "pending list"

definition norm_start :: norm_state where
  "norm_start = \<lparr>n_used = [], n_sources = [], n_calls = [], n_out = [], n_batch = [], n_consumed = [], n_pending = []\<rparr>"

text \<open>\<open>normalizeToolCall\<close> for the call at index \<open>ci\<close>, with the registration of the result in
  \<open>callsById\<close>; the calls normalized so far are returned with the state.\<close>

definition normalize_tool_call :: "nat \<Rightarrow> nat \<Rightarrow> jsval \<Rightarrow> norm_state \<Rightarrow> jsval \<times> norm_state" where
  "normalize_tool_call mi ci tc s =
     (let source = trimmed_string (pget tc ''id'');
          i = call_id (n_used s) tc mi ci;
          c = out_call i tc
      in (c, s\<lparr>n_used := sadd i (n_used s),
               n_sources := (if source \<noteq> [] \<and> source \<notin> fst ` set (n_sources s)
                             then aput source i (n_sources s) else n_sources s),
               n_calls := aput i c (n_calls s)\<rparr>))"

fun normalize_calls :: "nat \<Rightarrow> nat \<Rightarrow> jsval list \<Rightarrow> norm_state \<Rightarrow> jsval list \<times> norm_state" where
  "normalize_calls mi ci [] s = ([], s)"
| "normalize_calls mi ci (tc # tcs) s =
     (let (c, s1) = normalize_tool_call mi ci tc s; (cs, s2) = normalize_calls mi (Suc ci) tcs s1
      in (c # cs, s2))"

section \<open>Tool results\<close>

text \<open>
  The order of the results: the position of the call in the batch (the last one, as
  \<open>new Map\<close> keeps the last binding of a key), and \<open>Number.MAX_SAFE_INTEGER\<close> for the rest. The
  sort of JavaScript is stable, and so is \<open>sort_key\<close>.
\<close>

definition batch_order :: "jstr list \<Rightarrow> jstr \<Rightarrow> nat option" where
  "batch_order batch = map_of (rev (zip batch [0..<length batch]))"

definition order_key :: "jstr list \<Rightarrow> pending \<Rightarrow> nat" where
  "order_key batch r = (case batch_order batch (p_call_id r) of Some k \<Rightarrow> k | None \<Rightarrow> 9007199254740991)"

definition belongs :: "norm_state \<Rightarrow> pending \<Rightarrow> bool" where
  "belongs s r \<longleftrightarrow>
     (if n_batch s \<noteq> [] then p_call_id r \<in> set (n_batch s) else p_call_id r \<in> fst ` set (n_calls s))"

definition flushed_results :: "norm_state \<Rightarrow> pending list" where
  "flushed_results s = filter (belongs s) (sort_key (order_key (n_batch s)) (n_pending s))"

definition image_messages :: "jsval list \<Rightarrow> jsval list" where
  "image_messages images =
     (if images \<noteq> [] then [obj [(''role'', jlit ''user''), (''content'', JArr images)]] else [])"

definition flush :: "norm_state \<Rightarrow> norm_state" where
  "flush s =
     (if n_pending s = [] then s
      else s\<lparr>n_out := n_out s @ map p_message (flushed_results s)
                      @ image_messages (concat (map p_images (flushed_results s))),
             n_pending := []\<rparr>)"

definition part_mime :: "jsval \<Rightarrow> jsval" where
  "part_mime p = js_or (pget p ''mimeType'') (pget p ''mime_type'')"

definition part_images :: "jsval \<Rightarrow> jsval list" where
  "part_images p =
     (if pget p ''type'' = jlit ''image_url'' then items (normalize_content_for_upstream (JArr [p]))
      else if pget p ''type'' = jlit ''image'' \<and> is_string (pget p ''data'') \<and> truthy (pget p ''data'')
              \<and> truthy (part_mime p) then
        [obj [(''type'', jlit ''image_url''),
              (''image_url'', obj [(''url'', JStr (js ''data:'' @ to_string (part_mime p) @ js '';base64,''
                                                  @ to_string (pget p ''data'')))])]]
      else [])"

text \<open>The identifier a tool message answers; the empty string when it answers none.\<close>

definition answered_id :: "norm_state \<Rightarrow> jsval \<Rightarrow> jstr" where
  "answered_id s m =
     (let requested = trimmed_string (pget m ''tool_call_id'');
          mapped = (case map_of (n_sources s) requested of
                      Some i \<Rightarrow> if i \<noteq> [] then i else requested | None \<Rightarrow> requested)
      in if mapped \<noteq> [] then mapped
         else (case find (\<lambda>i. i \<notin> set (n_consumed s)) (n_batch s) of Some i \<Rightarrow> i | None \<Rightarrow> []))"

definition tool_result :: "jstr \<Rightarrow> jsval \<Rightarrow> pending" where
  "tool_result i m =
     \<lparr>p_message = obj ([(''role'', pget m ''role''),
         (''content'', JStr (normalize_tool_result_content (pget m ''content'') (pget m ''is_error'' = JBool True))),
         (''tool_call_id'', JStr i)]
         @ (if truthy (pget m ''name'') then [(''name'', JStr (to_string (pget m ''name'')))] else [])),
      p_call_id = i,
      p_images = concat (map part_images (items (pget m ''content'')))\<rparr>"

section \<open>The loop over the messages\<close>

definition step_assistant :: "nat \<Rightarrow> jsval \<Rightarrow> norm_state \<Rightarrow> norm_state" where
  "step_assistant mi m s0 =
     (let s = (flush s0)\<lparr>n_consumed := []\<rparr>;
          content = normalize_content_for_upstream (pget m ''content'');
          tcs = items (pget m ''tool_calls'')
      in if tcs \<noteq> [] then
           (let (cs, s1) = normalize_calls mi 0 tcs s
            in s1\<lparr>n_batch := map (\<lambda>c. to_string (pget c ''id'')) cs,
                  n_out := n_out s1 @ [obj [(''role'', pget m ''role''), (''content'', js_or content (JStr [])),
                                            (''tool_calls'', JArr cs)]]\<rparr>)
         else s\<lparr>n_batch := [], n_out := n_out s @ [obj [(''role'', pget m ''role''), (''content'', content)]]\<rparr>)"

definition step_tool :: "jsval \<Rightarrow> norm_state \<Rightarrow> norm_state" where
  "step_tool m s =
     (let i = answered_id s m in
      if i = [] \<or> i \<notin> fst ` set (n_calls s) then s
      else s\<lparr>n_consumed := sadd i (n_consumed s), n_pending := n_pending s @ [tool_result i m]\<rparr>)"

definition step_other :: "jsval \<Rightarrow> norm_state \<Rightarrow> norm_state" where
  "step_other m s0 =
     (let s = flush s0 in
      s\<lparr>n_batch := [], n_consumed := [],
        n_out := n_out s @ [obj [(''role'', pget m ''role''),
          (''content'', if is_role ''user'' m then normalize_content_for_upstream (pget m ''content'')
                        else JStr (content_to_string (pget m ''content'')))]]\<rparr>)"

definition norm_step :: "nat \<Rightarrow> jsval \<Rightarrow> norm_state \<Rightarrow> norm_state" where
  "norm_step mi m s =
     (if is_role ''assistant'' m then step_assistant mi m s
      else if is_role ''tool'' m then step_tool m s
      else step_other m s)"

fun norm_loop :: "nat \<Rightarrow> jsval list \<Rightarrow> norm_state \<Rightarrow> norm_state" where
  "norm_loop mi [] s = s"
| "norm_loop mi (m # ms) s = norm_loop (Suc mi) ms (norm_step mi m s)"

definition normalize_messages :: "jsval \<Rightarrow> jsval list" where
  "normalize_messages ms = n_out (flush (norm_loop 0 (items ms) norm_start))"

section \<open>Identifiers of calls\<close>

lemma fresh_id_notin: "fresh_id used i \<notin> set used"
proof (induction used i rule: fresh_id.induct)
  case (1 used i)
  then show ?case by (subst fresh_id.simps) auto
qed

lemma fresh_id_nonempty: "i \<noteq> [] \<Longrightarrow> fresh_id used i \<noteq> []"
proof (induction used i rule: fresh_id.induct)
  case (1 used i)
  then show ?case by (subst fresh_id.simps) auto
qed

lemma generated_id_nonempty [simp]: "generated_id mi ci \<noteq> []"
  by (simp add: generated_id_def)

lemma call_id_notin: "call_id used tc mi ci \<notin> set used"
  by (simp add: call_id_def fresh_id_notin Let_def)

lemma call_id_nonempty: "call_id used tc mi ci \<noteq> []"
  by (simp add: call_id_def fresh_id_nonempty Let_def)

lemma call_id_source:
  "trimmed_string (pget tc ''id'') \<noteq> [] \<Longrightarrow> trimmed_string (pget tc ''id'') \<notin> set used \<Longrightarrow>
   call_id used tc mi ci = trimmed_string (pget tc ''id'')"
  by (simp add: call_id_def Let_def)

text \<open>The identifiers of the calls of an output message.\<close>

definition out_id :: "jsval \<Rightarrow> jstr" where
  "out_id c = to_string (pget c ''id'')"

definition out_ids :: "jsval \<Rightarrow> jstr list" where
  "out_ids m = map out_id (items (pget m ''tool_calls''))"

lemma out_id_call [simp]: "out_id (out_call i tc) = i"
  by (simp add: out_id_def out_call_def pget_obj)

text \<open>
  One batch of calls: the identifiers of the normalized calls are new, distinct and not empty, and
  they extend the identifiers in use and the calls emitted in the same order.
\<close>

lemma normalize_calls_spec:
  assumes "normalize_calls mi ci tcs s = (cs, s')" and "set (map fst (n_calls s)) = set (n_used s)"
  shows "n_used s' = n_used s @ map out_id cs \<and> map fst (n_calls s') = map fst (n_calls s) @ map out_id cs
    \<and> distinct (map out_id cs) \<and> set (map out_id cs) \<inter> set (n_used s) = {} \<and> [] \<notin> set (map out_id cs)
    \<and> length cs = length tcs
    \<and> n_out s' = n_out s \<and> n_batch s' = n_batch s \<and> n_consumed s' = n_consumed s \<and> n_pending s' = n_pending s"
  using assms
proof (induction mi ci tcs s arbitrary: cs s' rule: normalize_calls.induct)
  case (2 mi ci tc tcs s)
  obtain c s1 where c: "normalize_tool_call mi ci tc s = (c, s1)" by (cases "normalize_tool_call mi ci tc s")
  obtain cs' s2 where cs': "normalize_calls mi (Suc ci) tcs s1 = (cs', s2)"
    by (cases "normalize_calls mi (Suc ci) tcs s1")
  have eq: "cs = c # cs'" "s' = s2" using 2(2) by (simp_all add: c cs')
  have new: "out_id c \<notin> set (n_used s)" "out_id c \<noteq> []" and used: "n_used s1 = n_used s @ [out_id c]"
    and keep: "n_out s1 = n_out s" "n_batch s1 = n_batch s" "n_consumed s1 = n_consumed s" "n_pending s1 = n_pending s"
    using c by (auto simp: normalize_tool_call_def Let_def call_id_notin call_id_nonempty sadd_def)
  have calls: "map fst (n_calls s1) = map fst (n_calls s) @ [out_id c]"
    using c new(1) 2(3) by (auto simp: normalize_tool_call_def Let_def map_fst_aput sadd_def)
  from 2(1) [OF c [symmetric] refl cs'] 2(3) used calls
  show ?case using new keep by (auto simp: eq)
qed simp

section \<open>The invariant of the loop\<close>

text \<open>
  What the output looks like at any time: its calls are the identifiers in use, in the order of
  emission; the calls on record are the same; results held back answer calls on record.
\<close>

definition result_ok :: "jstr list \<Rightarrow> pending \<Rightarrow> bool" where
  "result_ok used r \<longleftrightarrow> is_role ''tool'' (p_message r) \<and> out_ids (p_message r) = []
     \<and> pget (p_message r) ''tool_call_id'' = JStr (p_call_id r) \<and> p_call_id r \<in> set used"

definition answers_earlier :: "jsval list \<Rightarrow> bool" where
  "answers_earlier out \<longleftrightarrow>
     (\<forall>k < length out. is_role ''tool'' (out ! k) \<longrightarrow>
        (\<exists>i \<in> set (concat (map out_ids (take k out))). pget (out ! k) ''tool_call_id'' = JStr i))"

definition norm_inv :: "norm_state \<Rightarrow> bool" where
  "norm_inv s \<longleftrightarrow> concat (map out_ids (n_out s)) = n_used s \<and> map fst (n_calls s) = n_used s
     \<and> distinct (n_used s) \<and> [] \<notin> set (n_used s) \<and> set (n_batch s) \<subseteq> set (n_used s)
     \<and> list_all (result_ok (n_used s)) (n_pending s) \<and> answers_earlier (n_out s)"

lemma answers_earlier_Nil [simp]: "answers_earlier []"
  by (simp add: answers_earlier_def)

lemma answers_earlier_snoc:
  "answers_earlier (out @ [m]) \<longleftrightarrow> answers_earlier out \<and>
     (is_role ''tool'' m \<longrightarrow> (\<exists>i \<in> set (concat (map out_ids out)). pget m ''tool_call_id'' = JStr i))"
  by (auto simp: answers_earlier_def less_Suc_eq nth_append)

lemma answers_earlier_results:
  "answers_earlier out \<Longrightarrow> concat (map out_ids out) = used \<Longrightarrow> list_all (result_ok used) rs \<Longrightarrow>
   answers_earlier (out @ map p_message rs) \<and> concat (map out_ids (out @ map p_message rs)) = used"
proof (induction rs rule: rev_induct)
  case (snoc r rs)
  have ok: "result_ok used r" and rs: "list_all (result_ok used) rs" using snoc.prems(3) by simp_all
  from snoc.IH [OF snoc.prems(1,2) rs]
  have ans: "answers_earlier (out @ map p_message rs)"
    and ids: "concat (map out_ids (out @ map p_message rs)) = used" by simp_all
  have "\<exists>i \<in> set used. pget (p_message r) ''tool_call_id'' = JStr i" using ok by (auto simp: result_ok_def)
  with ans have "answers_earlier ((out @ map p_message rs) @ [p_message r])"
    unfolding answers_earlier_snoc ids by simp
  with ids ok show ?case by (simp add: result_ok_def)
qed simp

lemma norm_start_inv: "norm_inv norm_start"
  by (simp add: norm_inv_def norm_start_def)

lemma answers_earlier_image:
  "answers_earlier out \<Longrightarrow>
   answers_earlier (out @ image_messages is) \<and> concat (map out_ids (out @ image_messages is)) = concat (map out_ids out)"
  using answers_earlier_snoc [of out]
  by (simp add: image_messages_def is_role_def out_ids_def pget_obj)

lemma flushed_results_ok:
  "list_all P (n_pending s) \<Longrightarrow> list_all P (flushed_results s)"
  by (simp add: flushed_results_def list_all_iff)

lemma flush_inv:
  assumes "norm_inv s"
  shows "norm_inv (flush s) \<and> n_used (flush s) = n_used s \<and> n_pending (flush s) = []"
proof (cases "n_pending s = []")
  case False
  have used: "concat (map out_ids (n_out s)) = n_used s" and ans: "answers_earlier (n_out s)"
    and ok: "list_all (result_ok (n_used s)) (flushed_results s)"
    using assms by (simp_all add: norm_inv_def flushed_results_ok)
  note res = answers_earlier_results [OF ans used ok]
  note img = answers_earlier_image [OF conjunct1 [OF res]]
  have "answers_earlier (n_out (flush s))" "concat (map out_ids (n_out (flush s))) = n_used s"
    using res img False by (simp_all add: flush_def)
  with assms False show ?thesis by (simp add: norm_inv_def flush_def)
qed (use assms in \<open>simp add: flush_def\<close>)

section \<open>Results in the order of the calls\<close>

definition position :: "'a list \<Rightarrow> 'a \<Rightarrow> nat" where
  "position xs x = length (takeWhile (\<lambda>y. y \<noteq> x) xs)"

lemma position_nth: "distinct xs \<Longrightarrow> k < length xs \<Longrightarrow> position xs (xs ! k) = k"
proof -
  assume d: "distinct xs" "k < length xs"
  have "takeWhile (\<lambda>y. y \<noteq> xs ! k) xs = take k xs"
    using d by (intro takeWhile_eq_take_P_nth) (auto simp: nth_eq_iff_index_eq)
  with d show ?thesis by (simp add: position_def)
qed

lemma batch_order_position:
  "distinct batch \<Longrightarrow> i \<in> set batch \<Longrightarrow> batch_order batch i = Some (position batch i)"
proof -
  assume d: "distinct batch" "i \<in> set batch"
  then obtain k where k: "k < length batch" "i = batch ! k" by (auto simp: in_set_conv_nth)
  have "(i, k) \<in> set (rev (zip batch [0..<length batch]))" using k by (auto simp: in_set_zip)
  moreover have "distinct (map fst (rev (zip batch [0..<length batch])))"
    using d(1) by (simp add: rev_map [symmetric])
  ultimately have "batch_order batch i = Some k" by (simp add: batch_order_def)
  with d(1) k position_nth show ?thesis by fastforce
qed

text \<open>The call a tool message answers, and the results a batch of calls may be followed by.\<close>

definition tool_id :: "jsval \<Rightarrow> jstr" where
  "tool_id m = to_string (pget m ''tool_call_id'')"

definition batch_ok :: "jstr list \<Rightarrow> jsval list \<Rightarrow> bool" where
  "batch_ok batch ts \<longleftrightarrow> set (map tool_id ts) \<subseteq> set batch \<and> sorted (map (position batch \<circ> tool_id) ts)"

fun in_batch_order :: "jsval list \<Rightarrow> bool" where
  "in_batch_order [] \<longleftrightarrow> True"
| "in_batch_order (m # ms) \<longleftrightarrow>
     (out_ids m \<noteq> [] \<longrightarrow> batch_ok (out_ids m) (takeWhile (is_role ''tool'') ms)) \<and> in_batch_order ms"

lemma in_batch_order_append:
  "\<not> is_role ''tool'' y \<Longrightarrow> in_batch_order (xs @ y # ys) \<longleftrightarrow> in_batch_order xs \<and> in_batch_order (y # ys)"
  by (induction xs) (auto simp: takeWhile_tail)

lemma in_batch_order_results:
  "list_all (result_ok used) rs \<Longrightarrow> in_batch_order (map p_message rs)"
  by (induction rs) (auto simp: result_ok_def)

lemma tool_id_result: "result_ok used r \<Longrightarrow> tool_id (p_message r) = p_call_id r"
  by (simp add: result_ok_def tool_id_def)

lemma flushed_results_batch:
  assumes "distinct (n_batch s)" and "n_batch s \<noteq> []" and "list_all (result_ok used) (n_pending s)"
  shows "batch_ok (n_batch s) (map p_message (flushed_results s))"
proof -
  let ?rs = "flushed_results s"
  have ok: "list_all (result_ok used) ?rs" using assms(3) by (rule flushed_results_ok)
  have mem: "p_call_id r \<in> set (n_batch s)" if "r \<in> set ?rs" for r
    using that assms(2) by (simp add: flushed_results_def belongs_def)
  have key: "order_key (n_batch s) r = position (n_batch s) (tool_id (p_message r))" if "r \<in> set ?rs" for r
    using that mem [OF that] ok assms(1) batch_order_position [OF assms(1) mem [OF that]]
      tool_id_result [of used r]
    by (simp add: order_key_def list_all_iff)
  have "sorted (map (order_key (n_batch s)) ?rs)"
    by (simp add: flushed_results_def sorted_filter)
  moreover have "map (order_key (n_batch s)) ?rs = map (position (n_batch s) \<circ> tool_id) (map p_message ?rs)"
    using key by simp
  moreover have "set (map tool_id (map p_message ?rs)) \<subseteq> set (n_batch s)"
    using ok mem by (auto simp: list_all_iff tool_id_result)
  ultimately show ?thesis by (simp add: batch_ok_def)
qed

text \<open>Between two steps the output ends with the message of the current batch.\<close>

definition norm_tail :: "norm_state \<Rightarrow> bool" where
  "norm_tail s \<longleftrightarrow> in_batch_order (n_out s) \<and>
     (n_out s = [] \<and> n_batch s = [] \<or>
      (\<exists>out a. n_out s = out @ [a] \<and> out_ids a = n_batch s \<and> \<not> is_role ''tool'' a))"

lemma norm_start_tail: "norm_tail norm_start"
  by (simp add: norm_tail_def norm_start_def)

lemma takeWhile_results:
  "list_all (result_ok used) rs \<Longrightarrow>
   takeWhile (is_role ''tool'') (map p_message rs @ image_messages is) = map p_message rs"
  by (induction rs) (auto simp: result_ok_def image_messages_def is_role_def pget_obj)

lemma in_batch_order_image:
  "in_batch_order out \<Longrightarrow> in_batch_order (out @ image_messages is)"
  using in_batch_order_append [of "obj [(''role'', jlit ''user''), (''content'', JArr is)]" out "[]"]
  by (simp add: image_messages_def is_role_def out_ids_def pget_obj)

lemma flush_in_order:
  assumes "norm_inv s" and "norm_tail s"
  shows "in_batch_order (n_out (flush s))"
proof (cases "n_pending s = []")
  case False
  let ?rs = "flushed_results s"
  have pend: "list_all (result_ok (n_used s)) (n_pending s)" using assms(1) by (simp add: norm_inv_def)
  note ok = flushed_results_ok [OF pend]
  have rest: "in_batch_order (map p_message ?rs @ image_messages is)" for "is"
    using in_batch_order_results [OF ok] by (rule in_batch_order_image)
  from assms(2) consider "n_out s = []" "n_batch s = []"
    | out a where "n_out s = out @ [a]" "out_ids a = n_batch s" "\<not> is_role ''tool'' a"
    by (auto simp: norm_tail_def)
  then show ?thesis
  proof cases
    case 1
    with rest False show ?thesis by (simp add: flush_def)
  next
    case (2 out a)
    have "distinct (n_batch s)"
      using assms(1) 2 distinct_append [of "concat (map out_ids out)" "n_batch s"]
      by (auto simp: norm_inv_def)
    then have "batch_ok (n_batch s) (map p_message ?rs)" if "n_batch s \<noteq> []"
      using flushed_results_batch that pend by blast
    moreover have "in_batch_order out"
      using assms(2) 2 in_batch_order_append [OF 2(3), of out "[]"] by (simp add: norm_tail_def)
    ultimately show ?thesis
      using False rest 2 by (simp add: flush_def in_batch_order_append takeWhile_results [OF ok])
  qed
qed (use assms in \<open>simp add: flush_def norm_tail_def\<close>)

section \<open>Every step keeps the invariant\<close>

lemma norm_inv_emit:
  assumes "norm_inv s" and "n_pending s = []" and "\<not> is_role ''tool'' m" and "out_ids m = []"
  shows "norm_inv (s\<lparr>n_batch := [], n_consumed := c, n_out := n_out s @ [m]\<rparr>)"
  using assms answers_earlier_snoc [of "n_out s" m] by (auto simp: norm_inv_def)

lemma norm_tail_emit:
  "in_batch_order (n_out s) \<Longrightarrow> \<not> is_role ''tool'' m \<Longrightarrow> out_ids m = b \<Longrightarrow> n_out s' = n_out s @ [m] \<Longrightarrow>
   n_batch s' = b \<Longrightarrow> norm_tail s'"
  by (auto simp: norm_tail_def in_batch_order_append batch_ok_def)

definition norm_ok :: "norm_state \<Rightarrow> bool" where
  "norm_ok s \<longleftrightarrow> norm_inv s \<and> norm_tail s"

lemma step_assistant_ok:
  assumes "norm_ok s0" and "is_role ''assistant'' m"
  shows "norm_ok (step_assistant mi m s0)"
proof -
  let ?s = "(flush s0)\<lparr>n_consumed := []\<rparr>"
  have inv: "norm_inv (flush s0)" and pend: "n_pending (flush s0) = []"
    and ord: "in_batch_order (n_out (flush s0))"
    using assms(1) flush_inv [of s0] flush_in_order [of s0] by (auto simp: norm_ok_def)
  show ?thesis
  proof (cases "items (pget m ''tool_calls'') = []")
    case True
    define a where "a = obj [(''role'', pget m ''role''), (''content'', normalize_content_for_upstream (pget m ''content''))]"
    have a: "\<not> is_role ''tool'' a" "out_ids a = []"
      using assms(2) by (simp_all add: a_def is_role_def out_ids_def pget_obj)
    have eq: "step_assistant mi m s0 = (flush s0)\<lparr>n_batch := [], n_consumed := [], n_out := n_out (flush s0) @ [a]\<rparr>"
      using True by (simp add: step_assistant_def a_def Let_def)
    show ?thesis
      unfolding eq norm_ok_def using norm_inv_emit [OF inv pend a] norm_tail_emit [OF ord a] by simp
  next
    case False
    obtain cs s1 where cs: "normalize_calls mi 0 (items (pget m ''tool_calls'')) ?s = (cs, s1)"
      by (cases "normalize_calls mi 0 (items (pget m ''tool_calls'')) ?s")
    define a where "a = obj [(''role'', pget m ''role''),
      (''content'', js_or (normalize_content_for_upstream (pget m ''content'')) (JStr [])), (''tool_calls'', JArr cs)]"
    have a: "\<not> is_role ''tool'' a" "out_ids a = map out_id cs"
      using assms(2) by (simp_all add: a_def is_role_def out_ids_def pget_obj)
    have eq: "step_assistant mi m s0 = s1\<lparr>n_batch := map out_id cs, n_out := n_out s1 @ [a]\<rparr>"
      using False cs by (simp add: step_assistant_def a_def Let_def out_id_def)
    have "set (map fst (n_calls ?s)) = set (n_used ?s)" using inv by (simp add: norm_inv_def)
    note spec = normalize_calls_spec [OF cs this]
    have "norm_inv (s1\<lparr>n_batch := map out_id cs, n_out := n_out s1 @ [a]\<rparr>)"
      using inv pend spec a answers_earlier_snoc [of "n_out (flush s0)" a] by (auto simp: norm_inv_def)
    moreover have "norm_tail (s1\<lparr>n_batch := map out_id cs, n_out := n_out s1 @ [a]\<rparr>)"
      by (rule norm_tail_emit [OF ord a]) (use spec in simp_all)
    ultimately show ?thesis by (simp add: eq norm_ok_def)
  qed
qed

lemma step_tool_ok:
  assumes "norm_ok s" and "is_role ''tool'' m"
  shows "norm_ok (step_tool m s)"
proof -
  let ?i = "answered_id s m"
  have "result_ok (n_used s) (tool_result ?i m)" if "?i \<in> fst ` set (n_calls s)"
  proof -
    have "set (map fst (n_calls s)) = set (n_used s)" using assms(1) by (simp add: norm_ok_def norm_inv_def)
    then have "?i \<in> set (n_used s)" using that by simp
    then show ?thesis
      using assms(2) by (simp add: result_ok_def tool_result_def is_role_def out_ids_def pget_obj)
  qed
  with assms(1) show ?thesis by (auto simp: step_tool_def norm_ok_def norm_inv_def norm_tail_def Let_def)
qed

lemma step_other_ok:
  assumes "norm_ok s0" and "\<not> is_role ''tool'' m"
  shows "norm_ok (step_other m s0)"
proof -
  have inv: "norm_inv (flush s0)" and pend: "n_pending (flush s0) = []"
    and ord: "in_batch_order (n_out (flush s0))"
    using assms(1) flush_inv [of s0] flush_in_order [of s0] by (auto simp: norm_ok_def)
  have a: "\<not> is_role ''tool'' (obj [(''role'', pget m ''role''), (''content'', c)])"
    "out_ids (obj [(''role'', pget m ''role''), (''content'', c)]) = []" for c
    using assms(2) by (simp_all add: is_role_def out_ids_def pget_obj)
  show ?thesis
    unfolding step_other_def norm_ok_def Let_def
    using norm_inv_emit [OF inv pend a] norm_tail_emit [OF ord a] by simp
qed

lemma norm_step_ok: "norm_ok s \<Longrightarrow> norm_ok (norm_step mi m s)"
  by (simp add: norm_step_def step_assistant_ok step_tool_ok step_other_ok)

lemma norm_loop_ok: "norm_ok s \<Longrightarrow> norm_ok (norm_loop mi ms s)"
  by (induction mi ms s rule: norm_loop.induct) (simp_all add: norm_step_ok)

lemma norm_final:
  "norm_inv (flush (norm_loop 0 ms norm_start)) \<and> in_batch_order (n_out (flush (norm_loop 0 ms norm_start)))"
proof -
  have "norm_ok (norm_loop 0 ms norm_start)"
    by (rule norm_loop_ok) (simp add: norm_ok_def norm_start_inv norm_start_tail)
  then show ?thesis using flush_inv flush_in_order by (auto simp: norm_ok_def)
qed

section \<open>One turn\<close>

lemma insort_key_cong: "\<forall>y \<in> insert x (set xs). f y = g y \<Longrightarrow> insort_key f x xs = insort_key g x xs"
  by (induction xs) auto

lemma sort_key_cong: "(\<And>x. x \<in> set xs \<Longrightarrow> f x = g x) \<Longrightarrow> sort_key f xs = sort_key g xs"
proof (induction xs)
  case (Cons x xs)
  have "sort_key f xs = sort_key g xs" using Cons by simp
  then show ?case using insort_key_cong [of x "sort_key g xs" f g] Cons.prems by simp
qed simp

lemma nth_position: "i \<in> set ids \<Longrightarrow> position ids i < length ids \<and> ids ! position ids i = i"
proof (induction ids)
  case (Cons j js)
  then show ?case by (cases "j = i") (auto simp: position_def)
qed simp

lemma sort_by_position:
  assumes "distinct ids" and "mset (map f rs) = mset ids"
  shows "map f (sort_key (position ids \<circ> f) rs) = ids"
proof -
  let ?s = "map f (sort_key (position ids \<circ> f) rs)"
  have ms: "mset ?s = mset ids" using assms(2) by simp
  have "sorted (map (position ids \<circ> f) (sort_key (position ids \<circ> f) rs))" by (rule sorted_sort_key)
  then have sorted: "sorted (map (position ids) ?s)" by simp
  have pos: "map (position ids) ids = [0..<length ids]"
    using position_nth [OF assms(1)] by (intro nth_equalityI) simp_all
  have "mset (map (position ids) ?s) = mset (map (position ids) ids)"
    unfolding mset_map [of "position ids"] ms ..
  then have "mset (map (position ids) ?s) = mset [0..<length ids]" by (simp only: pos)
  then have "map (position ids) ?s = [0..<length ids]"
    using properties_for_sort [OF _ sorted, of "[0..<length ids]"] by (metis sort_upt)
  from arg_cong [OF this, of "map ((!) ids)"]
  have nth: "map (\<lambda>i. ids ! position ids i) ?s = map ((!) ids) [0..<length ids]"
    unfolding map_map comp_def .
  have "set ?s = set ids" using ms by (metis mset_eq_setD)
  then have "map (\<lambda>i. ids ! position ids i) ?s = ?s"
    using nth_position [of _ ids] by (intro map_idI) blast
  with nth show ?thesis by (simp add: map_nth)
qed

definition source_id :: "jsval \<Rightarrow> jstr" where
  "source_id tc = trimmed_string (pget tc ''id'')"

text \<open>Calls that come with identifiers of their own keep them.\<close>

lemma normalize_calls_sources:
  assumes "normalize_calls mi ci tcs s = (cs, s')" and "distinct (map source_id tcs)"
    and "[] \<notin> set (map source_id tcs)"
    and "set (map source_id tcs) \<inter> (set (n_used s) \<union> fst ` set (n_sources s)) = {}"
  shows "map out_id cs = map source_id tcs
    \<and> n_sources s' = n_sources s @ map (\<lambda>tc. (source_id tc, source_id tc)) tcs"
  using assms
proof (induction mi ci tcs s arbitrary: cs s' rule: normalize_calls.induct)
  case (2 mi ci tc tcs s)
  obtain c s1 where c: "normalize_tool_call mi ci tc s = (c, s1)" by (cases "normalize_tool_call mi ci tc s")
  obtain cs' s2 where cs': "normalize_calls mi (Suc ci) tcs s1 = (cs', s2)"
    by (cases "normalize_calls mi (Suc ci) tcs s1")
  have eq: "cs = c # cs'" "s' = s2" using 2(2) by (simp_all add: c cs')
  have i: "call_id (n_used s) tc mi ci = source_id tc"
    using 2(4,5) by (auto simp: source_id_def intro!: call_id_source)
  have src: "source_id tc \<noteq> []" "source_id tc \<notin> fst ` set (n_sources s)" using 2(4,5) by auto
  have s1: "out_id c = source_id tc" "set (n_used s1) = insert (source_id tc) (set (n_used s))"
    "n_sources s1 = n_sources s @ [(source_id tc, source_id tc)]"
    using c src i by (auto simp: normalize_tool_call_def Let_def source_id_def [symmetric] aput_fresh)
  have "map out_id cs' = map source_id tcs \<and>
      n_sources s2 = n_sources s1 @ map (\<lambda>tc. (source_id tc, source_id tc)) tcs"
    by (rule 2(1) [OF c [symmetric] refl cs']) (use 2(3-5) s1 in auto)
  with s1 show ?case by (simp add: eq)
qed simp

text \<open>A run of tool messages, each answering a call of the current batch by its own identifier.\<close>

definition answers :: "jstr list \<Rightarrow> jsval \<Rightarrow> bool" where
  "answers ids t \<longleftrightarrow> is_role ''tool'' t \<and> trimmed_string (pget t ''tool_call_id'') \<in> set ids"

definition asked_id :: "jsval \<Rightarrow> jstr" where
  "asked_id t = trimmed_string (pget t ''tool_call_id'')"

lemma tool_run:
  assumes "\<forall>t \<in> set ts. answers ids t" and "\<forall>i \<in> set ids. map_of (n_sources s) i = Some i"
    and "[] \<notin> set ids" and "set ids \<subseteq> fst ` set (n_calls s)"
  shows "\<exists>c. norm_loop mi ts s =
    s\<lparr>n_consumed := c, n_pending := n_pending s @ map (\<lambda>t. tool_result (asked_id t) t) ts\<rparr>"
  using assms
proof (induction mi ts s rule: norm_loop.induct)
  case (2 mi t ts s)
  have t: "is_role ''tool'' t" "asked_id t \<in> set ids" using 2(2) by (simp_all add: answers_def asked_id_def)
  have role: "\<not> is_role ''assistant'' t" using t(1) by (simp add: is_role_def)
  have "answered_id s t = asked_id t"
    using 2(3,4) t(2) by (auto simp: answered_id_def asked_id_def Let_def)
  moreover have "asked_id t \<noteq> []" "asked_id t \<in> fst ` set (n_calls s)" using t(2) 2(4,5) by auto
  ultimately have step: "norm_step mi t s =
      s\<lparr>n_consumed := sadd (asked_id t) (n_consumed s), n_pending := n_pending s @ [tool_result (asked_id t) t]\<rparr>"
    using t(1) role by (simp add: norm_step_def step_tool_def Let_def)
  have "\<exists>c. norm_loop (Suc mi) ts (norm_step mi t s) = (norm_step mi t s)\<lparr>n_consumed := c,
      n_pending := n_pending (norm_step mi t s) @ map (\<lambda>t. tool_result (asked_id t) t) ts\<rparr>"
    by (rule 2(1)) (use 2(2-5) in \<open>auto simp: step\<close>)
  then show ?case by (auto simp: step)
next
  case (1 mi s)
  show ?case by (rule exI [of _ "n_consumed s"]) simp
qed

lemma turn_start:
  assumes "is_role ''assistant'' m" and "items (pget m ''tool_calls'') \<noteq> []"
    and "distinct (map source_id (items (pget m ''tool_calls'')))"
    and "[] \<notin> set (map source_id (items (pget m ''tool_calls'')))"
  shows "\<exists>a s :: norm_state. norm_step 0 m norm_start = s \<and> norm_ok s \<and> n_out s = [a] \<and> \<not> is_role ''tool'' a
    \<and> n_batch s = map source_id (items (pget m ''tool_calls'')) \<and> n_pending s = []
    \<and> n_used s = map source_id (items (pget m ''tool_calls''))
    \<and> n_sources s = map (\<lambda>i. (i, i)) (map source_id (items (pget m ''tool_calls'')))
    \<and> map fst (n_calls s) = map source_id (items (pget m ''tool_calls''))"
proof -
  let ?tcs = "items (pget m ''tool_calls'')" and ?s = "norm_start"
  obtain cs s1 where cs: "normalize_calls 0 0 ?tcs ?s = (cs, s1)" by (cases "normalize_calls 0 0 ?tcs ?s")
  have start: "n_used ?s = []" "n_sources ?s = []" "n_calls ?s = []" "n_out ?s = []" "n_pending ?s = []"
    by (simp_all add: norm_start_def)
  have same: "?s\<lparr>n_consumed := []\<rparr> = ?s" by (simp add: norm_start_def)
  have spec: "map out_id cs = map source_id ?tcs" "n_sources s1 = map (\<lambda>i. (i, i)) (map source_id ?tcs)"
    "map fst (n_calls s1) = map source_id ?tcs" "n_used s1 = map source_id ?tcs" "n_out s1 = []" "n_pending s1 = []"
    using normalize_calls_sources [OF cs assms(3,4)] normalize_calls_spec [OF cs] start
    by simp_all
  define a where "a = obj [(''role'', pget m ''role''),
      (''content'', js_or (normalize_content_for_upstream (pget m ''content'')) (JStr [])), (''tool_calls'', JArr cs)]"
  have a: "\<not> is_role ''tool'' a"
    using assms(1) by (simp add: a_def is_role_def pget_obj)
  have step: "norm_step 0 m norm_start = s1\<lparr>n_batch := map out_id cs, n_out := [a]\<rparr>"
    using assms(1,2) cs spec
    by (simp add: norm_step_def step_assistant_def flush_def start same a_def Let_def
        out_id_def [abs_def, symmetric])
  have "norm_ok (norm_step 0 m norm_start)"
    by (intro norm_step_ok) (simp add: norm_ok_def norm_start_inv norm_start_tail)
  with step spec a show ?thesis by simp
qed

text \<open>Flushing one answer for each call of the batch.\<close>

lemma turn_flush:
  assumes "norm_ok s" and "n_out s = [a]" and "\<not> is_role ''tool'' a"
    and "distinct (n_batch s)" and "n_batch s \<noteq> []" and "n_used s = n_batch s"
    and "mset (map p_call_id (n_pending s)) = mset (n_batch s)"
  shows "concat (map out_ids (n_out (flush s))) = n_batch s
    \<and> map tool_id (filter (is_role ''tool'') (n_out (flush s))) = n_batch s"
proof -
  let ?b = "n_batch s" and ?rs = "flushed_results s"
  have pend: "list_all (result_ok ?b) (n_pending s)"
    using assms(1,6) by (simp add: norm_ok_def norm_inv_def)
  have mem: "p_call_id r \<in> set ?b" if "r \<in> set (n_pending s)" for r
    using that pend by (simp add: list_all_iff result_ok_def)
  then have "sort_key (order_key ?b) (n_pending s) = sort_key (position ?b \<circ> p_call_id) (n_pending s)"
    by (intro sort_key_cong) (simp add: order_key_def batch_order_position [OF assms(4)])
  then have "?rs = sort_key (position ?b \<circ> p_call_id) (n_pending s)"
    using mem assms(5) by (auto simp: flushed_results_def belongs_def intro!: filter_True)
  then have ids: "map p_call_id ?rs = ?b" using sort_by_position [OF assms(4,7)] by simp
  have ok: "list_all (result_ok ?b) ?rs" using pend by (rule flushed_results_ok)
  then have "map (tool_id \<circ> p_message) ?rs = map p_call_id ?rs"
    by (intro map_cong) (auto simp: list_all_iff intro: tool_id_result)
  with ids have tool: "map (tool_id \<circ> p_message) ?rs = ?b" by simp
  have tools: "filter (is_role ''tool'') (map p_message ?rs) = map p_message ?rs"
    using ok by (auto simp: list_all_iff result_ok_def)
  have "n_pending s \<noteq> []" using assms(5,7) by auto
  then obtain im where im: "n_out (flush s) = a # map p_message ?rs @ image_messages im"
    using assms(2) by (simp add: flush_def)
  have "filter (is_role ''tool'') (image_messages im) = []"
    by (simp add: image_messages_def is_role_def pget_obj)
  with tool tools assms(3) have "map tool_id (filter (is_role ''tool'') (n_out (flush s))) = ?b"
    by (simp add: im)
  moreover have "concat (map out_ids (n_out (flush s))) = ?b"
    using assms(1,6) flush_inv [of s] by (simp add: norm_ok_def norm_inv_def)
  ultimately show ?thesis by simp
qed

section \<open>Properties\<close>

text \<open>
  C1: In the normalized history every tool call has an identifier of its own: the identifiers of all
  the calls of all the messages, read in order, are non-empty and pairwise distinct, whatever
  identifiers (missing, blank, repeated) the client sent.
\<close>

theorem normalized_call_ids_unique:
  "distinct (concat (map out_ids (normalize_messages ms)))
   \<and> [] \<notin> set (concat (map out_ids (normalize_messages ms)))"
  using norm_final [of "items ms"] by (simp add: normalize_messages_def norm_inv_def)

text \<open>
  C2: In the normalized history no tool result is an orphan: every tool message answers, by its
  \<open>tool_call_id\<close>, a call that a message before it makes.
\<close>

theorem normalized_results_answer_calls: "answers_earlier (normalize_messages ms)"
  using norm_final [of "items ms"] by (simp add: normalize_messages_def norm_inv_def)

text \<open>
  C3: The tool messages that directly follow an assistant message with calls answer calls of that
  very message, and stand in the order of its calls, in whatever order the client sent them.
\<close>

theorem normalized_results_in_call_order: "in_batch_order (normalize_messages ms)"
  using norm_final [of "items ms"] by (simp add: normalize_messages_def)

text \<open>
  C4: A turn of tool calls comes back complete and in order. When an assistant message makes calls
  with distinct, non-blank identifiers, and is followed by exactly one tool message for each of
  them in any order, the normalized history calls the same identifiers and answers every one of
  them once, in the order of the calls.
\<close>

theorem normalized_turn_complete:
  assumes "is_role ''assistant'' m" and "items (pget m ''tool_calls'') \<noteq> []"
    and "distinct (map source_id (items (pget m ''tool_calls'')))"
    and "[] \<notin> set (map source_id (items (pget m ''tool_calls'')))"
    and "\<forall>t \<in> set ts. is_role ''tool'' t"
    and "mset (map asked_id ts) = mset (map source_id (items (pget m ''tool_calls'')))"
  shows "concat (map out_ids (normalize_messages (JArr (m # ts)))) = map source_id (items (pget m ''tool_calls''))
    \<and> map tool_id (filter (is_role ''tool'') (normalize_messages (JArr (m # ts))))
        = map source_id (items (pget m ''tool_calls''))"
proof -
  define ids where "ids = map source_id (items (pget m ''tool_calls''))"
  define rs where "rs = map (\<lambda>t. tool_result (asked_id t) t) ts"
  from turn_start [OF assms(1-4)] obtain a s where s: "norm_step 0 m norm_start = s" "norm_ok s"
    "n_out s = [a]" "\<not> is_role ''tool'' a" "n_batch s = ids" "n_pending s = []" "n_used s = ids"
    "n_sources s = map (\<lambda>i. (i, i)) ids" "map fst (n_calls s) = ids" by (auto simp: ids_def)
  have asked: "set (map asked_id ts) = set ids" using assms(6) unfolding ids_def by (metis mset_eq_setD)
  have "\<forall>t \<in> set ts. answers ids t" using assms(5) asked by (auto simp: answers_def asked_id_def)
  moreover have "\<forall>i \<in> set ids. map_of (n_sources s) i = Some i" by (auto simp: s(8) map_of_map_restrict)
  moreover have "set ids \<subseteq> fst ` set (n_calls s)" by (simp flip: set_map add: s(9))
  ultimately obtain c where loop: "norm_loop (Suc 0) ts s = s\<lparr>n_consumed := c, n_pending := rs\<rparr>"
    using tool_run [of ts ids s "Suc 0"] assms(4) s(6) by (auto simp: rs_def ids_def)
  have ok: "norm_ok (s\<lparr>n_consumed := c, n_pending := rs\<rparr>)" using norm_loop_ok [OF s(2)] loop by metis
  have "distinct ids" "ids \<noteq> []" using assms(2,3) by (simp_all add: ids_def)
  moreover have "mset (map p_call_id rs) = mset ids"
    using assms(6) by (simp add: rs_def ids_def tool_result_def comp_def)
  ultimately show ?thesis
    using turn_flush [OF ok] s unfolding normalize_messages_def ids_def [symmetric]
    by (simp add: loop)
qed

theorem normalized_turn_complete_witness:
  "map tool_id (filter (is_role ''tool'') (normalize_messages
     (JArr [wcalls [wcall ''a'' ''read'', wcall ''b'' ''read''], wresult ''b'', wresult '' a'']))) = [js ''a'', js ''b'']"
proof -
  let ?m = "wcalls [wcall ''a'' ''read'', wcall ''b'' ''read'']" and ?ts = "[wresult ''b'', wresult '' a'']"
  have ids: "map source_id (items (pget ?m ''tool_calls'')) = [js ''a'', js ''b'']" by code_simp
  have asked: "map asked_id ?ts = [js ''b'', js ''a'']" by code_simp
  have "is_role ''assistant'' ?m" "items (pget ?m ''tool_calls'') \<noteq> []" "\<forall>t \<in> set ?ts. is_role ''tool'' t"
    by code_simp+
  from normalized_turn_complete [OF this(1,2) _ _ this(3)] show ?thesis
    unfolding ids asked by (simp add: add_mset_commute)
qed

end
