(* ===== verification/Worker_Sse.thy ===== *)
theory Worker_Sse
  imports Worker_Usage Worker_Errors Worker_Content
begin

text \<open>
  \<open>worker/src/sse.mjs\<close>: reading the upstream event stream.

  \<^item> \<open>score_upstream_error\<close>, \<open>remember_error\<close> and \<open>format_upstream_error\<close> choose and word the
    error a stream reports.
  \<^item> \<open>parse_nested_openai_chunks\<close> reads a complete response; its local variables are the fields
    of \<open>batch_state\<close>.
  \<^item> \<open>pipe\<close> is \<open>pipeNestedSseToOpenAI\<close>: its local variables are the fields of \<open>stream\<close>, the
    writes to the client the list \<open>s_out\<close>, and its end an \<open>outcome\<close>: the result it returns, or
    the message of the error it throws. The decoded text of the network chunks and the way the
    body ends (closed, or a failed read) are its inputs.

  An exception inside a frame is caught by the loop: what the frame assigned before it stays.
  Console output and the counters only the console shows are left out.
\<close>

section \<open>Choosing and wording an error\<close>

definition lower_text :: "jsval \<Rightarrow> jstr" where
  "lower_text v = to_lower (to_string (js_or v (JStr [])))"

definition error_message :: "jsval \<Rightarrow> jsval" where
  "error_message e = js_or (pget e ''message'') (pget e ''localizedMessage'')"

definition score_upstream_error :: "jsval \<Rightarrow> rat" where
  "score_upstream_error e =
     (if \<not> is_object e then 0
      else
        (let code = lower_text (pget e ''code''); type = lower_text (pget e ''type'');
             msg = lower_text (error_message e)
         in 1 + (if code = js ''insufficient_quota'' \<or> type = js ''insufficient_quota'' then 100 else 0)
              + (if contains (js ''exceeded your current quota'') msg \<or> contains (js ''token-limit'') msg then 90 else 0)
              + (if contains (js ''429'') code \<or> contains (js ''response code=429'') msg
                    \<or> contains (js ''too many requests'') msg then 40 else 0)
              - (if contains (js ''unknown sse issue'') msg then 50 else 0)
              + (if truthy (error_message e)
                 then min 20 (of_nat (length (to_string (error_message e))) / 20) else 0)))"

definition remember_error :: "jsval \<Rightarrow> jsval \<Rightarrow> jsval" where
  "remember_error prev nxt =
     (if \<not> truthy nxt then prev
      else if \<not> truthy prev then nxt
      else if score_upstream_error prev \<le> score_upstream_error nxt then nxt else prev)"

definition LIMIT_TEXT_RE :: rx where
  "LIMIT_TEXT_RE = rx_alt
     [rx_lit ''token-limit'', rx_lit ''oversized prompt'',
      RSeq (rx_lit ''prompt too '') (RAlt (rx_lit ''large'') (rx_lit ''long'')),
      rx_lit ''context length'', rx_lit ''local precheck rejected'']"

definition QUOTA_TEXT_RE :: rx where
  "QUOTA_TEXT_RE = rx_alt
     [rx_lit ''exceeded your current quota'',
      rx_str [0x989D, 0x5EA6, 0x5DF2, 0x7528, 0x5C3D], rx_str [0x989D, 0x5EA6, 0x7528, 0x5C3D],
      rx_str [0x8D2D, 0x4E70, 0x52A0, 0x91CF, 0x5305]]"

definition BUSY_TEXT_RE :: rx where
  "BUSY_TEXT_RE = rx_alt
     [rx_lit ''unknown sse issue'', rx_lit ''sse connection failed'', rx_lit ''response code=429'']"

record formatted =
  fe_code :: jsval
  fe_type :: jsval
  fe_message :: jsval

definition format_upstream_error :: "jsval \<Rightarrow> formatted" where
  "format_upstream_error e =
     (let nested = (if is_object (pget e ''data'') then pget e ''data'' else obj []);
          code = js_or (pget e ''code'') (js_or (pget e ''type'') (js_or (pget nested ''code'')
                   (js_or (pget nested ''msgCode'') (jlit ''upstream_error''))));
          type = js_or (pget e ''type'') (js_or (pget nested ''type'') (jlit ''api_error''));
          msg = js_or (pget e ''message'') (js_or (pget e ''localizedMessage'') (js_or (pget e ''msg'')
                  (js_or (pget nested ''message'') (js_or (pget nested ''msg'')
                    (JStr (take 300 (json_text e)))))));
          text = to_string msg
      in if rx_test True LIMIT_TEXT_RE text then
           \<lparr>fe_code = jlit ''prompt_too_large'', fe_type = jlit ''invalid_request_error'',
            fe_message = JStr (js ''Upstream model input token limit hit. Reduce system prompt / history / tools. Detail: '' @ text)\<rparr>
         else if code = jlit ''insufficient_quota'' \<or> type = jlit ''insufficient_quota'' \<or> rx_test True QUOTA_TEXT_RE text then
           \<lparr>fe_code = jlit ''insufficient_quota'', fe_type = jlit ''insufficient_quota'',
            fe_message = JStr (js ''Upstream model quota exhausted. Detail: '' @ text)\<rparr>
         else
           \<lparr>fe_code = code, fe_type = type,
            fe_message = (if rx_test True BUSY_TEXT_RE text
                          then JStr (js ''Upstream rate-limited/quota error (429). Original: '' @ text) else msg)\<rparr>)"

section \<open>Tool calls under construction\<close>

record call_acc =
  a_id :: jsval
  a_type :: jsval
  a_name :: jstr
  a_args :: "jsval list"

definition new_call :: "jstr \<Rightarrow> call_acc" where
  "new_call i = \<lparr>a_id = JStr i, a_type = jlit ''function'', a_name = [], a_args = []\<rparr>"

definition call_part :: "jsval \<Rightarrow> string \<Rightarrow> jsval" where
  "call_part tc k = pget (pget tc ''function'') k"

definition merge_call :: "jsval \<Rightarrow> call_acc \<Rightarrow> call_acc" where
  "merge_call tc a =
     \<lparr>a_id = js_or (pget tc ''id'') (a_id a),
      a_type = js_or (pget tc ''type'') (a_type a),
      a_name = a_name a @ (if truthy (call_part tc ''name'') then to_string (call_part tc ''name'') else []),
      a_args = a_args a @ (if truthy (call_part tc ''arguments'') then [call_part tc ''arguments''] else [])\<rparr>"

text \<open>\<open>Number.isInteger\<close>.\<close>

fun int_index :: "jsval \<Rightarrow> int option" where
  "int_index (JNum (Fin q)) = (if is_int_rat q then Some \<lfloor>q\<rfloor> else None)"
| "int_index _ = None"

text \<open>\<open>parts.join("")\<close> for an array of truthy parts.\<close>

definition join_parts :: "jsval list \<Rightarrow> jstr" where
  "join_parts vs = concat (map to_string vs)"

definition call_js :: "call_acc \<Rightarrow> jsval" where
  "call_js a = obj [(''id'', a_id a), (''type'', a_type a),
     (''function'', obj [(''name'', JStr (a_name a)), (''arguments'', JStr (join_parts (a_args a)))])]"

definition finished_calls :: "(int \<times> call_acc) list \<Rightarrow> jsval list" where
  "finished_calls cs = map (\<lambda>(i, a). call_js a) (filter (\<lambda>(i, a). a_name a \<noteq> []) (sort_key fst cs))"

text \<open>\<open>v?.[0]\<close>.\<close>

fun first_item :: "jsval \<Rightarrow> jsval" where
  "first_item (JArr (v # _)) = v"
| "first_item (JStr (c # _)) = JStr [c]"
| "first_item (JObj ps) = lookup (js ''0'') ps"
| "first_item _ = Undef"

definition event_of_line :: "jstr \<Rightarrow> jstr" where
  "event_of_line line = (let n = trim (drop 6 line) in if n = [] then js ''message'' else n)"

section \<open>Reading a complete response\<close>

record batch_state =
  k_content :: "jsval list"
  k_reasoning :: "jsval list"
  k_error :: jsval
  k_calls :: "(int \<times> call_acc) list"
  k_finish :: jsval
  k_event :: jstr
  k_usage :: "usage option"

definition batch_start :: batch_state where
  "batch_start = \<lparr>k_content = [], k_reasoning = [], k_error = Null, k_calls = [], k_finish = Null,
     k_event = js ''message'', k_usage = None\<rparr>"

text \<open>The loop over the calls of a delta; \<open>tc.index\<close> of \<open>null\<close> throws and ends it.\<close>

fun batch_calls :: "jsval list \<Rightarrow> (int \<times> call_acc) list \<Rightarrow> (int \<times> call_acc) list" where
  "batch_calls [] cs = cs"
| "batch_calls (tc # tcs) cs =
     (if nullish tc then cs
      else
        (let i = (case int_index (pget tc ''index'') of Some i \<Rightarrow> i | None \<Rightarrow> int (length cs));
             prev = (case map_of cs i of Some a \<Rightarrow> a | None \<Rightarrow> new_call [])
         in batch_calls tcs (aput i (merge_call tc prev) cs)))"

definition batch_choice :: "jsval \<Rightarrow> batch_state \<Rightarrow> batch_state" where
  "batch_choice choice s =
     (let delta = js_or (pget choice ''delta'') (obj []);
          tcs = js_or (pget delta ''tool_calls'') (pget (pget choice ''message'') ''tool_calls'')
      in s\<lparr>k_finish := js_or (pget choice ''finish_reason'') (k_finish s),
           k_content := k_content s @ (if truthy (pget delta ''content'') then [pget delta ''content''] else []),
           k_reasoning := k_reasoning s @
             (if truthy (pget delta ''reasoning_content'') then [pget delta ''reasoning_content'']
              else if truthy (pget delta ''reasoning'') then [pget delta ''reasoning''] else []),
           k_calls := (if is_array tcs then batch_calls (items tcs) (k_calls s) else k_calls s)\<rparr>)"

definition has_code :: "jsval \<Rightarrow> bool" where
  "has_code b \<longleftrightarrow> truthy (pget b ''code'') \<or> truthy (pget b ''msgCode'')"

definition batch_body :: "jsval \<Rightarrow> jsval \<Rightarrow> batch_state \<Rightarrow> batch_state" where
  "batch_body outer body s0 =
     (let s = (if usage_looks_useful outer \<or> usage_looks_useful body
               then s0\<lparr>k_usage := Some (resolve_usage (JArr [opt_usage_js (k_usage s0), outer, body])
                                                (fallback_of (k_usage s0)))\<rparr> else s0)
      in if truthy (pget body ''error'') \<and> \<not> truthy (pget body ''choices'')
         then s\<lparr>k_error := remember_error (k_error s) (pget body ''error'')\<rparr>
         else if has_code body \<and> \<not> truthy (pget body ''choices'')
         then s\<lparr>k_error := remember_error (k_error s) body\<rparr>
         else batch_choice (js_or (first_item (pget body ''choices'')) (obj [])) s)"

definition batch_frame :: "jsval \<Rightarrow> batch_state \<Rightarrow> batch_state" where
  "batch_frame outer s =
     (if nullish outer then s\<lparr>k_event := js ''message''\<rparr>
      else if pget outer ''body'' = jlit ''[DONE]'' then s
      else case (case pget outer ''body'' of JStr t \<Rightarrow> json_parse t | v \<Rightarrow> Some v) of
             None \<Rightarrow> s\<lparr>k_event := js ''message''\<rparr>
           | Some body \<Rightarrow> (batch_body outer body s)\<lparr>k_event := js ''message''\<rparr>)"

definition batch_line :: "jstr \<Rightarrow> batch_state \<Rightarrow> batch_state" where
  "batch_line line s =
     (if starts_with (js ''event:'') line then s\<lparr>k_event := event_of_line line\<rparr>
      else if \<not> starts_with (js ''data:'') line then s
      else
        (let raw = trim (drop 5 line) in
         if raw = [] \<or> raw = js ''[DONE]'' then s
         else case json_parse raw of
                None \<Rightarrow> s\<lparr>k_event := js ''message''\<rparr>
              | Some v \<Rightarrow>
                  if k_event s = js ''error'' then
                    (if nullish v then s\<lparr>k_event := js ''message''\<rparr>
                     else s\<lparr>k_error := remember_error (k_error s) (js_or (pget v ''error'') v),
                            k_event := js ''message''\<rparr>)
                  else batch_frame v s))"

record batch_result =
  br_content :: jstr
  br_reasoning :: jstr
  br_error :: jsval
  br_calls :: "jsval list"
  br_finish :: jsval
  br_usage :: "usage option"

definition parse_nested_openai_chunks :: "jsval \<Rightarrow> batch_result" where
  "parse_nested_openai_chunks text =
     (let s = fold batch_line (split_on 10 (to_string (js_or text (JStr [])))) batch_start
      in \<lparr>br_content = join_parts (k_content s), br_reasoning = join_parts (k_reasoning s), br_error = k_error s,
          br_calls = finished_calls (k_calls s), br_finish = k_finish s, br_usage = k_usage s\<rparr>)"

text \<open>
  \<open>readSSEText\<close>: the chunks, each decoded on its own, are gathered until the text has
  \<open>maxBytes\<close> units (the name says bytes, the code counts units of the decoded text).
\<close>

fun read_sse_text :: "nat \<Rightarrow> jstr list \<Rightarrow> jstr \<Rightarrow> jstr" where
  "read_sse_text max_units [] out = out"
| "read_sse_text max_units (c # cs) out =
     (if max_units \<le> length (out @ c) then out @ c else read_sse_text max_units cs (out @ c))"

section \<open>Choosing the error to report\<close>

text \<open>The last of the errors with the best score.\<close>

definition last_best :: "jsval \<Rightarrow> jsval list \<Rightarrow> bool" where
  "last_best e es \<longleftrightarrow> (\<exists>us vs. es = us @ e # vs
     \<and> list_all (\<lambda>u. score_upstream_error u \<le> score_upstream_error e) us
     \<and> list_all (\<lambda>v. score_upstream_error v < score_upstream_error e) vs)"

lemma last_best_new:
  "list_all (\<lambda>u. score_upstream_error u \<le> score_upstream_error e) es \<Longrightarrow> last_best e (es @ [e])"
  unfolding last_best_def by (intro exI [of _ es] exI [of _ "[]"]) simp

lemma last_best_keep:
  "last_best e es \<Longrightarrow> score_upstream_error v < score_upstream_error e \<Longrightarrow> last_best e (es @ [v])"
  unfolding last_best_def by (elim exE, rule_tac x = us in exI, rule_tac x = "vs @ [v]" in exI) simp

lemma last_best_le:
  "last_best e es \<Longrightarrow> e \<in> set es \<and> list_all (\<lambda>u. score_upstream_error u \<le> score_upstream_error e) es"
  unfolding last_best_def by (auto simp: list_all_iff) (meson less_imp_le)

lemma list_all_le: "list_all (\<lambda>u. f u \<le> x) us \<Longrightarrow> x \<le> (y :: rat) \<Longrightarrow> list_all (\<lambda>u. f u \<le> y) us"
  by (auto simp: list_all_iff)

section \<open>Properties\<close>

text \<open>
  The error a stream reports is the most informative one it saw: among the errors noted in turn,
  the last of those with the highest score; falsy values never displace it, and there is none when
  all of them are falsy.
\<close>

theorem reported_error_scores_best:
  "if filter truthy es = [] then foldl remember_error Null es = Null
   else last_best (foldl remember_error Null es) (filter truthy es)"
proof (induction es rule: rev_induct)
  case (snoc e es)
  let ?r = "foldl remember_error Null es"
  show ?case
  proof (cases "truthy e")
    case False
    then have "remember_error a e = a" for a by (simp add: remember_error_def)
    with False snoc show ?thesis by simp
  next
    case e: True
    show ?thesis
    proof (cases "filter truthy es = []")
      case True
      with snoc e have "remember_error ?r e = e" by (simp add: remember_error_def)
      with True e last_best_new [of e "[]"] show ?thesis by simp
    next
      case False
      with snoc have r: "last_best ?r (filter truthy es)" by simp
      with last_best_le have "truthy ?r" by fastforce
      with e have step: "remember_error ?r e = (if score_upstream_error ?r \<le> score_upstream_error e then e else ?r)"
        by (simp add: remember_error_def)
      have "last_best (remember_error ?r e) (filter truthy es @ [e])"
        unfolding step using r last_best_le [OF r]
        by (auto intro!: last_best_new last_best_keep elim: list_all_le)
      with e show ?thesis by simp
    qed
  qed
qed simp

end
