(* ===== verification/Line_Reader.thy ===== *)
theory Line_Reader
  imports Js_Value
begin

text \<open>
  Reading a text line by line while it arrives in pieces. The event stream readers of the code keep
  the unfinished last line in a buffer: a piece is appended to it, the complete lines are processed,
  and what follows the last line feed becomes the buffer. The locale states what such a reader
  has to be like for the pieces not to matter: processing a line neither reads nor writes the buffer.
\<close>

lemma split_on_append:
  "split_on d (x @ y) = butlast (split_on d x) @ split_on d (last (split_on d x) @ y)"
proof (induction x)
  case (Cons c x)
  show ?case
  proof (cases "c = d")
    case True
    with Cons show ?thesis by simp
  next
    case False
    show ?thesis
    proof (cases "split_on d x")
      case (Cons l ls)
      show ?thesis
      proof (cases "ls = []")
        case True
        with Cons Cons.IH False show ?thesis by (simp split: list.splits)
      next
        case ls: False
        with Cons have "butlast (split_on d x) = l # butlast ls" "last (split_on d x) = last ls" by simp_all
        with Cons Cons.IH False ls show ?thesis by simp
      qed
    qed simp
  qed
qed simp

lemma split_on_no: "d \<notin> set s \<Longrightarrow> split_on d s = [s]"
  by (induction s) auto

lemma last_split_on: "d \<notin> set (last (split_on d s))"
  by (induction s) (auto split: list.splits)

lemma split_on_end: "d \<notin> set s \<Longrightarrow> split_on d (s @ [d]) = [s, []]"
  by (induction s) auto

locale line_reader =
  fixes line :: "jstr \<Rightarrow> 's \<Rightarrow> 's" and get_buf :: "'s \<Rightarrow> jstr" and set_buf :: "jstr \<Rightarrow> 's \<Rightarrow> 's"
    and feed :: "jstr \<Rightarrow> 's \<Rightarrow> 's"
  assumes line_set: "line l (set_buf b s) = set_buf b (line l s)"
    and get_set: "get_buf (set_buf b s) = b"
    and set_set: "set_buf b (set_buf c s) = set_buf b s"
    and set_get: "set_buf (get_buf s) s = s"
    and feed: "feed t s = fold line (butlast (split_on 10 (get_buf s @ t)))
                 (set_buf (last (split_on 10 (get_buf s @ t))) s)"
begin

lemma lines_set: "fold line ls (set_buf b s) = set_buf b (fold line ls s)"
  by (induction ls arbitrary: s) (simp_all add: line_set)

lemma feed_eq: "feed t s = set_buf (last (split_on 10 (get_buf s @ t)))
    (fold line (butlast (split_on 10 (get_buf s @ t))) s)"
  by (simp add: feed lines_set)

lemma get_feed: "get_buf (feed t s) = last (split_on 10 (get_buf s @ t))"
  by (simp add: feed_eq get_set)

lemma feed_append: "feed (a @ b) s = feed b (feed a s)"
proof -
  let ?p = "split_on 10 (get_buf s @ a)"
  let ?q = "split_on 10 (last ?p @ b)"
  have split: "split_on 10 (get_buf s @ a @ b) = butlast ?p @ ?q"
    using split_on_append [of 10 "get_buf s @ a" b] by simp
  have "feed (a @ b) s = set_buf (last ?q) (fold line (butlast ?p @ butlast ?q) s)"
    unfolding feed_eq [of "a @ b" s] split by (simp add: butlast_append)
  also have "\<dots> = feed b (feed a s)"
    unfolding feed_eq [of b "feed a s"] get_feed
    unfolding feed_eq [of a s] by (simp add: lines_set set_set)
  finally show ?thesis .
qed

lemma feed_Nil: "10 \<notin> set (get_buf s) \<Longrightarrow> feed [] s = s"
  by (simp add: feed_eq split_on_no set_get)

text \<open>Any way of cutting the text into pieces gives what the whole text gives.\<close>

lemma feed_pieces: "10 \<notin> set (get_buf s) \<Longrightarrow> fold feed cs s = feed (concat cs) s"
  by (induction cs rule: rev_induct) (simp_all add: feed_Nil feed_append)

end

end
