(* ===== verification/Worker_Stream.thy ===== *)
theory Worker_Stream
  imports Worker_Sse Line_Reader
begin

text \<open>
  \<open>pipeNestedSseToOpenAI\<close> of \<open>worker/src/sse.mjs\<close>: the upstream event stream rewritten chunk by
  chunk into the events an OpenAI client reads.

  \<open>stream\<close> holds the local variables of the source, \<open>s_out\<close> what was written to the client.
  \<open>stream_text\<close> is one turn of the read loop, \<open>stream_line\<close> one line, \<open>stream_body\<close> one decoded
  frame and \<open>stream_calls\<close> the loop over the tool calls of a delta. \<open>finish\<close> is the code after the
  loop and \<open>pipe\<close> the whole function.
\<close>

section \<open>The state of the stream\<close>

text \<open>The parameters of a call: chat id, creation time, model, token estimates, the clock of the
  error classification, and whether the client is still there to be told of an error.\<close>

record chat =
  g_id :: jstr
  g_created :: int
  g_model :: jsval
  g_prompt_tokens :: rat
  g_estimated :: rat
  g_clock :: clock
  g_open :: bool

text \<open>What is written: a chunk with a delta and a finish reason, the usage chunk, the end mark, or
  a structured error.\<close>

datatype out = OChunk jsval jsval | OUsage usage | ODone | OError jsval

record stream =
  s_content :: "jsval list"
  s_reasoning :: "jsval list"
  s_content_len :: jsval
  s_reasoning_len :: jsval
  s_role :: bool
  s_buffer :: jstr
  s_event :: jstr
  s_done :: bool
  s_error :: jsval
  s_calls :: "(int \<times> call_acc) list"
  s_anon :: "(jsval \<times> int) list"
  s_next :: int
  s_finish :: jsval
  s_usage :: "usage option"
  s_bad :: nat
  s_out :: "out list"

definition stream_start :: stream where
  "stream_start = \<lparr>s_content = [], s_reasoning = [], s_content_len = jint 0, s_reasoning_len = jint 0,
     s_role = False, s_buffer = [], s_event = js ''message'', s_done = False, s_error = Null,
     s_calls = [], s_anon = [], s_next = 0, s_finish = Null, s_usage = None, s_bad = 0, s_out = []\<rparr>"

text \<open>\<open>parseErrorCount += 1; eventName = "message"\<close>, the handler of an exception in a frame.\<close>

definition bad_frame :: "stream \<Rightarrow> stream" where
  "bad_frame s = s\<lparr>s_bad := Suc (s_bad s), s_event := js ''message''\<rparr>"

definition note_error :: "jsval \<Rightarrow> stream \<Rightarrow> stream" where
  "note_error e s = s\<lparr>s_error := remember_error (s_error s) e\<rparr>"

section \<open>Writing chunks\<close>

definition emit_delta :: "jsval \<Rightarrow> stream \<Rightarrow> stream" where
  "emit_delta d s =
     s\<lparr>s_out := s_out s @ (if s_role s then [] else [OChunk (obj [(''role'', jlit ''assistant'')]) Null])
                      @ [OChunk d Null],
       s_role := True\<rparr>"

section \<open>Tool calls of a delta\<close>

definition lookup_key :: "jsval \<Rightarrow> jsval" where
  "lookup_key tc = js_or (pget tc ''id'')
     (if truthy (call_part tc ''name'') then JStr (js ''name:'' @ to_string (call_part tc ''name'')) else JStr [])"

text \<open>
  The map from identifiers and names to indices. A key that is an object is a new reference in
  every frame, which no later lookup finds.
\<close>

definition anon_get :: "(jsval \<times> int) list \<Rightarrow> jsval \<Rightarrow> int option" where
  "anon_get m k = (if \<not> truthy k \<or> is_object k then None else map_of m k)"

definition anon_set :: "jsval \<Rightarrow> int \<Rightarrow> (jsval \<times> int) list \<Rightarrow> (jsval \<times> int) list" where
  "anon_set k i m = (if \<not> truthy k \<or> is_object k then m else aput k i m)"

text \<open>\<open>while (toolCallsByIndex.has(idx)) idx += 1\<close>.\<close>

function free_index :: "int list \<Rightarrow> int \<Rightarrow> int" where
  "free_index used i = (if i \<in> set used then free_index used (i + 1) else i)"
  by pat_completeness auto
termination
proof (relation "measure (\<lambda>(used, i). card {u \<in> set used. i \<le> u})")
  fix used :: "int list" and i :: int
  assume "i \<in> set used"
  then have "i \<in> {u \<in> set used. i \<le> u}" and "i \<notin> {u \<in> set used. i + 1 \<le> u}" by auto
  moreover have "{u \<in> set used. i + 1 \<le> u} \<subseteq> {u \<in> set used. i \<le> u}" by auto
  ultimately have "{u \<in> set used. i + 1 \<le> u} \<subset> {u \<in> set used. i \<le> u}" by blast
  then show "((used, i + 1), used, i) \<in> measure (\<lambda>(used, i). card {u \<in> set used. i \<le> u})"
    by (simp add: psubset_card_mono)
qed simp

declare free_index.simps [simp del]

definition choose_index :: "bool \<Rightarrow> jsval \<Rightarrow> stream \<Rightarrow> int" where
  "choose_index first tc s =
     (case or_else (int_index (pget tc ''index'')) (anon_get (s_anon s) (lookup_key tc)) of
        Some i \<Rightarrow> i
      | None \<Rightarrow> if first \<and> length (s_calls s) = 1 then fst (hd (s_calls s))
                else free_index (map fst (s_calls s)) (s_next s))"

definition generated_call_id :: "chat \<Rightarrow> int \<Rightarrow> jstr" where
  "generated_call_id g i = js ''call_'' @ g_id g @ js ''_'' @ rat_to_str (of_int i)"

definition stream_call :: "chat \<Rightarrow> bool \<Rightarrow> jsval \<Rightarrow> stream \<Rightarrow> jsval \<times> stream" where
  "stream_call g first tc s =
     (let i = choose_index first tc s;
          prev = (case map_of (s_calls s) i of Some a \<Rightarrow> a | None \<Rightarrow> new_call (generated_call_id g i));
          a = merge_call tc prev
      in (spread_own tc ([(''index'', jint i), (''id'', js_or (pget tc ''id'') (a_id a)),
                          (''type'', js_or (pget tc ''type'') (a_type a))]
            @ (if truthy (pget tc ''function'') then [(''function'', pget tc ''function'')] else [])),
          s\<lparr>s_next := max (s_next s) (i + 1), s_anon := anon_set (lookup_key tc) i (s_anon s),
            s_calls := aput i a (s_calls s)\<rparr>))"

text \<open>The loop; \<open>None\<close> when \<open>tc.index\<close> of \<open>null\<close> throws.\<close>

fun stream_calls :: "chat \<Rightarrow> bool \<Rightarrow> jsval list \<Rightarrow> stream \<Rightarrow> jsval list option \<times> stream" where
  "stream_calls g first [] s = (Some [], s)"
| "stream_calls g first (tc # tcs) s =
     (if nullish tc then (None, s)
      else
        (let (e, s1) = stream_call g first tc s; (es, s2) = stream_calls g False tcs s1
         in (map_option ((#) e) es, s2)))"

section \<open>One frame\<close>

datatype extracted = XDone | XBody jsval jsval

text \<open>\<open>extractDeltaFromOuter\<close>; \<open>None\<close> when \<open>JSON.parse\<close> throws.\<close>

definition extract_delta :: "jstr \<Rightarrow> extracted option" where
  "extract_delta raw =
     (if raw = js ''[DONE]'' then Some XDone
      else case json_parse raw of
             None \<Rightarrow> None
           | Some outer \<Rightarrow>
               if outer = jlit ''[DONE]'' then Some XDone
               else case pget outer ''body'' of
                      JStr t \<Rightarrow>
                        if t = js ''[DONE]'' \<or> t = 34 # js ''[DONE]'' @ [34] then Some XDone
                        else map_option (\<lambda>b. XBody b (js_or (pget outer ''statusCodeValue'') (pget outer ''statusCode'')))
                               (json_parse t)
                    | _ \<Rightarrow> Some (XBody outer Undef))"

text \<open>\<open>x.length\<close> of a truthy value; only strings and arrays have one that is surely a number.\<close>

fun js_length :: "jsval \<Rightarrow> jsval" where
  "js_length (JStr s) = JNum (Fin (of_nat (length s)))"
| "js_length (JArr vs) = JNum (Fin (of_nat (length vs)))"
| "js_length v = pget v ''length''"

fun num_add :: "jsnum \<Rightarrow> jsnum \<Rightarrow> jsnum" where
  "num_add (Fin a) (Fin b) = Fin (a + b)"
| "num_add NaN _ = NaN"
| "num_add _ NaN = NaN"
| "num_add Inf NegInf = NaN"
| "num_add NegInf Inf = NaN"
| "num_add Inf _ = Inf"
| "num_add _ Inf = Inf"
| "num_add NegInf _ = NegInf"
| "num_add _ NegInf = NegInf"

text \<open>The operator \<open>+\<close>: texts are joined, and objects and arrays are texts for it; all else are numbers.\<close>

definition text_like :: "jsval \<Rightarrow> bool" where
  "text_like v \<longleftrightarrow> is_string v \<or> is_object v"

definition js_plus :: "jsval \<Rightarrow> jsval \<Rightarrow> jsval" where
  "js_plus a b =
     (if text_like a \<or> text_like b then JStr (to_string a @ to_string b) else JNum (num_add (to_number a) (to_number b)))"


definition delta_content :: "jsval \<Rightarrow> jsval" where
  "delta_content d = pget d ''content''"

definition delta_reasoning :: "jsval \<Rightarrow> jsval" where
  "delta_reasoning d = js_or (pget d ''reasoning_content'') (pget d ''reasoning'')"

text \<open>The text of a delta: the counters and parts, before the tool calls.\<close>

definition note_text :: "jsval \<Rightarrow> stream \<Rightarrow> stream" where
  "note_text d s =
     (let s1 = (if truthy (delta_content d)
                then s\<lparr>s_content_len := js_plus (s_content_len s) (js_length (delta_content d)),
                       s_content := s_content s @ [delta_content d]\<rparr> else s)
      in if truthy (delta_reasoning d)
         then s1\<lparr>s_reasoning_len := js_plus (s_reasoning_len s1) (js_length (delta_reasoning d)),
                 s_reasoning := s_reasoning s1 @ [delta_reasoning d]\<rparr> else s1)"

definition text_fields :: "jsval \<Rightarrow> (string \<times> jsval) list" where
  "text_fields d =
     (if truthy (delta_content d) then [(''content'', delta_content d)] else [])
     @ (if truthy (delta_reasoning d) then [(''reasoning_content'', delta_reasoning d)] else [])"

definition stream_choice :: "chat \<Rightarrow> jsval \<Rightarrow> stream \<Rightarrow> stream" where
  "stream_choice g choice s0 =
     (let d = js_or (pget choice ''delta'') (obj []);
          s1 = note_text d (s0\<lparr>s_finish := js_or (pget choice ''finish_reason'') (s_finish s0)\<rparr>);
          tcs = items (pget d ''tool_calls'')
      in case stream_calls g True tcs s1 of
           (None, s2) \<Rightarrow> bad_frame s2
         | (Some es, s2) \<Rightarrow>
             (let fields = text_fields d @ (if tcs \<noteq> [] then [(''tool_calls'', JArr es)] else [])
              in (if fields \<noteq> [] then emit_delta (obj fields) s2 else s2)\<lparr>s_event := js ''message''\<rparr>))"

definition stream_body :: "chat \<Rightarrow> jsval \<Rightarrow> jsval \<Rightarrow> stream \<Rightarrow> stream" where
  "stream_body g body status s0 =
     (let s = (if usage_looks_useful body
               then s0\<lparr>s_usage := Some (resolve_usage (JArr [opt_usage_js (s_usage s0), body])
                                                (fallback_of (s_usage s0)))\<rparr> else s0);
          flat = \<not> truthy (pget body ''choices'')
      in if flat \<and> truthy (pget body ''error'') then note_error (pget body ''error'') s
         else if flat \<and> has_code body then note_error body s
         else if flat \<and> truthy status \<and> num_le (Fin 400) (to_number status)
         then note_error (js_or (pget body ''error'') body) s
         else stream_choice g (js_or (first_item (pget body ''choices'')) (obj [])) s)"

definition stream_frame :: "chat \<Rightarrow> jstr \<Rightarrow> stream \<Rightarrow> stream" where
  "stream_frame g raw s =
     (if s_event s = js ''error'' then
        (case json_parse raw of
           Some v \<Rightarrow>
             if nullish v then note_error (obj [(''message'', JStr raw)]) s
             else note_error (js_or (pget v ''error'') v) s
         | None \<Rightarrow> note_error (obj [(''message'', JStr raw)]) s)\<lparr>s_event := js ''message''\<rparr>
      else case extract_delta raw of
             None \<Rightarrow> bad_frame s
           | Some XDone \<Rightarrow> s\<lparr>s_done := True\<rparr>
           | Some (XBody body status) \<Rightarrow> if truthy body then stream_body g body status s else s)"

section \<open>Lines and chunks\<close>

definition stream_line :: "chat \<Rightarrow> jstr \<Rightarrow> stream \<Rightarrow> stream" where
  "stream_line g line s =
     (if starts_with (js ''event:'') line then s\<lparr>s_event := event_of_line line\<rparr>
      else if \<not> starts_with (js ''data:'') line then s
      else (let raw = trim (drop 5 line) in if raw = [] then s else stream_frame g raw s))"

definition stream_text :: "chat \<Rightarrow> jstr \<Rightarrow> stream \<Rightarrow> stream" where
  "stream_text g text s =
     (let parts = split_on 10 (s_buffer s @ text)
      in fold (stream_line g) (butlast parts) (s\<lparr>s_buffer := last parts\<rparr>))"

text \<open>When the body is closed, a last line without a line feed is read as if it had one.\<close>

definition close_buffer :: "chat \<Rightarrow> stream \<Rightarrow> stream" where
  "close_buffer g s = (if s_buffer s = [] then s else stream_text g (s_buffer s @ [10]) (s\<lparr>s_buffer := []\<rparr>))"

section \<open>The end of the stream\<close>

text \<open>\<open>writeStructuredStreamError\<close> for an object.\<close>

definition error_event :: "clock \<Rightarrow> jsval \<Rightarrow> jsval" where
  "error_event clk raw =
     (let message = to_string (js_or (error_message raw) (jlit ''upstream stream failed''));
          v = classify_error clk (spread_own raw [(''error'', raw),
                (''body'', JStr (json_text (obj [(''error'', raw)]))), (''message'', JStr message)])
      in obj [(''error'', obj ([(''message'', v_message v),
           (''type'', js_or (pget raw ''type'') (v_type v)),
           (''code'', if nullish (pget raw ''code'') then v_code v else JStr (to_string (pget raw ''code''))),
           (''kind'', js_or (pget raw ''kind'') (JStr (v_kind v))),
           (''status'', v_status v), (''failover'', v_failover v)]
           @ (if 0 < v_retry_after v then [(''retry_after'', jint (v_retry_after v))] else [])))])"

definition write_error :: "chat \<Rightarrow> jsval \<Rightarrow> stream \<Rightarrow> stream" where
  "write_error g raw s =
     (if g_open g then s\<lparr>s_out := s_out s @ [OError (error_event (g_clock g) raw)]\<rparr> else s)"

definition unavailable :: "jsval \<Rightarrow> jsval \<Rightarrow> jsval" where
  "unavailable code message = obj [(''code'', code), (''type'', jlit ''api_error''), (''kind'', jlit ''unavailable''),
     (''status'', jint 502), (''failover'', JBool True), (''message'', message)]"

record result =
  q_content :: jstr
  q_reasoning :: jstr
  q_usage :: usage
  q_calls :: "jsval list"
  q_finish :: jsval

datatype outcome = Returned result | Threw jstr

definition incomplete_message :: string where
  "incomplete_message = ''upstream stream ended before [DONE]''"

definition empty_message :: string where
  "empty_message = ''upstream returned empty content (possible context overflow / silent reject)''"

definition completion_estimate :: "chat \<Rightarrow> stream \<Rightarrow> rat" where
  "completion_estimate g s =
     (if g_estimated g \<noteq> 0 then g_estimated g
      else of_int (estimate_tokens (js_plus (s_content_len s) (s_reasoning_len s))))"

definition finish :: "chat \<Rightarrow> stream \<Rightarrow> outcome \<times> stream" where
  "finish g s =
     (if truthy (s_error s) then
        (let f = format_upstream_error (s_error s)
         in (Threw (to_string (fe_code f) @ js '': '' @ to_string (fe_message f)),
             write_error g (spread_own (s_error s) [(''code'', fe_code f), (''type'', fe_type f),
               (''message'', fe_message f)]) s))
      else if \<not> s_done s \<and> \<not> truthy (s_finish s) then
        (Threw (js ''upstream_stream_incomplete: '' @ js incomplete_message),
         write_error g (unavailable (jlit ''upstream_stream_incomplete'') (jlit incomplete_message)) s)
      else
        (let usage = resolve_usage (opt_usage_js (s_usage s)) (estimates (g_prompt_tokens g) (completion_estimate g s));
             calls = finished_calls (s_calls s)
         in if \<not> truthy (s_content_len s) \<and> \<not> truthy (s_reasoning_len s) \<and> calls = [] then
              (Threw (js ''upstream_empty: '' @ js empty_message),
               write_error g (unavailable (jlit ''upstream_empty'') (jlit empty_message)) s)
            else
              (let reason = js_or (s_finish s) (if calls \<noteq> [] then jlit ''tool_calls'' else jlit ''stop'')
               in (Returned \<lparr>q_content = join_parts (s_content s), q_reasoning = join_parts (s_reasoning s),
                             q_usage = usage, q_calls = calls, q_finish = reason\<rparr>,
                   s\<lparr>s_out := s_out s @ [OChunk (obj []) reason, OUsage usage, ODone]\<rparr>))))"

text \<open>How the body ends: closed, or a read fails with an error code (if any) and a message.\<close>

datatype body_end = Closed | Failed jsval jstr

definition pipe :: "chat \<Rightarrow> jstr list \<Rightarrow> body_end \<Rightarrow> outcome \<times> stream" where
  "pipe g chunks e =
     (let s = fold (stream_text g) chunks stream_start
      in case e of
           Closed \<Rightarrow> finish g (close_buffer g s)
         | Failed code detail \<Rightarrow>
             (let c = js_or code (jlit ''upstream_stream_interrupted'')
              in (Threw (to_string c @ js '': '' @ detail), write_error g (unavailable c (JStr detail)) s)))"

section \<open>The bytes written\<close>

definition usage_chunk_js :: "usage \<Rightarrow> jsval" where
  "usage_chunk_js u = obj ([(''prompt_tokens'', JNum (Fin (u_prompt u))), (''completion_tokens'', JNum (Fin (u_completion u))),
     (''total_tokens'', JNum (Fin (u_total u))), (''source'', JStr (u_source u))]
     @ opt_field ''cache_read_tokens'' (u_cache_read u) @ opt_field ''cache_write_tokens'' (u_cache_write u)
     @ (case u_cache_read u of None \<Rightarrow> []
        | Some q \<Rightarrow> [(''prompt_tokens_details'', obj [(''cached_tokens'', JNum (Fin q))])])
     @ opt_field ''credits'' (u_credits u))"

definition chunk_fields :: "chat \<Rightarrow> (string \<times> jsval) list" where
  "chunk_fields g = [(''id'', JStr (g_id g)), (''object'', jlit ''chat.completion.chunk''),
     (''created'', jint (g_created g)), (''model'', g_model g)]"

definition data_line :: "jsval \<Rightarrow> jstr" where
  "data_line v = js ''data: '' @ json_text v @ [10, 10]"

fun render :: "chat \<Rightarrow> out \<Rightarrow> jstr" where
  "render g (OChunk d reason) = data_line (obj (chunk_fields g @ [(''choices'', JArr
     [obj [(''index'', jint 0), (''delta'', d), (''finish_reason'', reason)]])]))"
| "render g (OUsage u) = data_line (obj (chunk_fields g @ [(''choices'', JArr []), (''usage'', usage_chunk_js u)]))"
| "render g ODone = js ''data: [DONE]'' @ [10, 10]"
| "render g (OError e) = js ''event: error'' @ [10] @ data_line e"

section \<open>The pieces of the text do not matter\<close>

lemma note_text_buffer: "note_text d (s\<lparr>s_buffer := b\<rparr>) = (note_text d s)\<lparr>s_buffer := b\<rparr>"
  by (simp add: note_text_def Let_def)

lemma choose_index_buffer: "choose_index f tc (s\<lparr>s_buffer := b\<rparr>) = choose_index f tc s"
  by (auto simp: choose_index_def split: option.split)

lemma stream_call_buffer:
  "stream_call g f tc (s\<lparr>s_buffer := b\<rparr>) = map_prod id (s_buffer_update (\<lambda>_. b)) (stream_call g f tc s)"
  by (simp add: stream_call_def choose_index_buffer Let_def)

lemma stream_calls_buffer:
  "stream_calls g f tcs (s\<lparr>s_buffer := b\<rparr>) = map_prod id (s_buffer_update (\<lambda>_. b)) (stream_calls g f tcs s)"
  by (induction g f tcs s rule: stream_calls.induct) (auto simp: stream_call_buffer split: prod.splits)

lemma stream_choice_buffer: "stream_choice g c (s\<lparr>s_buffer := b\<rparr>) = (stream_choice g c s)\<lparr>s_buffer := b\<rparr>"
proof -
  define d where "d = js_or (pget c ''delta'') (obj [])"
  define s1 where "s1 = note_text d (s\<lparr>s_finish := js_or (pget c ''finish_reason'') (s_finish s)\<rparr>)"
  have "s\<lparr>s_buffer := b, s_finish := x\<rparr> = (s\<lparr>s_finish := x\<rparr>)\<lparr>s_buffer := b\<rparr>" for x by simp
  then have "note_text d (s\<lparr>s_buffer := b, s_finish := js_or (pget c ''finish_reason'') (s_finish s)\<rparr>) = s1\<lparr>s_buffer := b\<rparr>"
    by (simp only: note_text_buffer s1_def)
  moreover obtain es s2 where "stream_calls g True (items (pget d ''tool_calls'')) s1 = (es, s2)"
    by (cases "stream_calls g True (items (pget d ''tool_calls'')) s1")
  ultimately show ?thesis
    using stream_calls_buffer [where g = g and f = True and tcs = "items (pget d ''tool_calls'')" and s = s1 and b = b]
    by (cases es) (simp_all add: stream_choice_def d_def [symmetric] s1_def [symmetric] Let_def bad_frame_def emit_delta_def)
qed

lemma note_error_buffer: "note_error e (s\<lparr>s_buffer := b\<rparr>) = (note_error e s)\<lparr>s_buffer := b\<rparr>"
  by (simp add: note_error_def)

lemma stream_body_buffer: "stream_body g v st (s\<lparr>s_buffer := b\<rparr>) = (stream_body g v st s)\<lparr>s_buffer := b\<rparr>"
proof -
  define u :: "stream \<Rightarrow> stream" where "u = (\<lambda>s. if usage_looks_useful v
     then s\<lparr>s_usage := Some (resolve_usage (JArr [opt_usage_js (s_usage s), v]) (fallback_of (s_usage s)))\<rparr> else s)"
  have u: "u (s\<lparr>s_buffer := b\<rparr>) = (u s)\<lparr>s_buffer := b\<rparr>" by (simp add: u_def)
  show ?thesis
    unfolding stream_body_def u_def [symmetric, THEN fun_cong, simplified] Let_def
    using u by (simp add: u_def [symmetric] note_error_buffer stream_choice_buffer)
qed

lemma stream_frame_buffer: "stream_frame g raw (s\<lparr>s_buffer := b\<rparr>) = (stream_frame g raw s)\<lparr>s_buffer := b\<rparr>"
  by (auto simp: stream_frame_def note_error_buffer stream_body_buffer bad_frame_def
      split: option.splits extracted.splits)

lemma stream_line_buffer: "stream_line g l (s\<lparr>s_buffer := b\<rparr>) = (stream_line g l s)\<lparr>s_buffer := b\<rparr>"
  by (simp add: stream_line_def stream_frame_buffer Let_def)

text \<open>The stream reader is a line reader: its buffer is \<open>s_buffer\<close>.\<close>

interpretation lines: line_reader "stream_line g" s_buffer "\<lambda>b s. s\<lparr>s_buffer := b\<rparr>" "stream_text g" for g
  by unfold_locales (simp_all add: stream_line_buffer stream_text_def Let_def)

lemma stream_start_buffer [simp]: "s_buffer stream_start = []"
  by (simp add: stream_start_def)

section \<open>What is written\<close>

text \<open>The chunks of a run of deltas: the role first and once, then the deltas.\<close>

definition role_chunk :: out where
  "role_chunk = OChunk (obj [(''role'', jlit ''assistant'')]) Null"

definition delta_chunks :: "jsval list \<Rightarrow> out list" where
  "delta_chunks ds = (if ds = [] then [] else role_chunk # map (\<lambda>d. OChunk d Null) ds)"

definition text_delta :: "jsval \<Rightarrow> bool" where
  "text_delta d \<longleftrightarrow> pget d ''role'' = Undef \<and>
     (truthy (pget d ''content'') \<or> truthy (pget d ''reasoning_content'') \<or> items (pget d ''tool_calls'') \<noteq> [])"

definition out_ok :: "stream \<Rightarrow> bool" where
  "out_ok s \<longleftrightarrow> (\<exists>ds. list_all text_delta ds \<and> s_out s = delta_chunks ds \<and> (s_role s \<longleftrightarrow> ds \<noteq> []))"

lemma stream_call_frame:
  "s_out (snd (stream_call g f tc s)) = s_out s" "s_role (snd (stream_call g f tc s)) = s_role s"
  "s_error (snd (stream_call g f tc s)) = s_error s" "s_content (snd (stream_call g f tc s)) = s_content s"
  "s_reasoning (snd (stream_call g f tc s)) = s_reasoning s" "s_content_len (snd (stream_call g f tc s)) = s_content_len s"
  "s_reasoning_len (snd (stream_call g f tc s)) = s_reasoning_len s" "s_finish (snd (stream_call g f tc s)) = s_finish s"
  "s_bad (snd (stream_call g f tc s)) = s_bad s" "s_event (snd (stream_call g f tc s)) = s_event s"
  "s_done (snd (stream_call g f tc s)) = s_done s" "s_usage (snd (stream_call g f tc s)) = s_usage s"
  by (simp_all add: stream_call_def Let_def)

lemma stream_calls_frame:
  "stream_calls g f tcs s = (r, s') \<Longrightarrow>
   s_out s' = s_out s \<and> s_role s' = s_role s \<and> s_error s' = s_error s \<and> s_content s' = s_content s
   \<and> s_reasoning s' = s_reasoning s \<and> s_content_len s' = s_content_len s \<and> s_reasoning_len s' = s_reasoning_len s
   \<and> s_finish s' = s_finish s \<and> s_bad s' = s_bad s \<and> s_event s' = s_event s \<and> s_done s' = s_done s \<and> s_usage s' = s_usage s"
proof (induction g f tcs s arbitrary: r s' rule: stream_calls.induct)
  case (2 g f tc tcs s)
  show ?case
  proof (cases "nullish tc")
    case False
    obtain e s1 where e: "stream_call g f tc s = (e, s1)" by (cases "stream_call g f tc s")
    obtain es s2 where es: "stream_calls g False tcs s1 = (es, s2)" by (cases "stream_calls g False tcs s1")
    from 2(2) False e es have "s' = s2" by (simp add: Let_def)
    with 2(1) [OF False e [symmetric] refl es] stream_call_frame [of g f tc s] show ?thesis by (simp add: e)
  qed (use 2(2) in simp)
qed simp

lemma stream_calls_length: "stream_calls g f tcs s = (Some es, s') \<Longrightarrow> length es = length tcs"
proof (induction g f tcs s arbitrary: es s' rule: stream_calls.induct)
  case (2 g f tc tcs s)
  obtain e s1 where e: "stream_call g f tc s = (e, s1)" by (cases "stream_call g f tc s")
  obtain r s2 where r: "stream_calls g False tcs s1 = (r, s2)" by (cases "stream_calls g False tcs s1")
  from 2 e r show ?case by (auto split: if_splits)
qed simp

lemma note_text_frame [simp]:
  "s_out (note_text d s) = s_out s" "s_role (note_text d s) = s_role s" "s_error (note_text d s) = s_error s"
  "s_calls (note_text d s) = s_calls s" "s_finish (note_text d s) = s_finish s" "s_event (note_text d s) = s_event s"
  "s_bad (note_text d s) = s_bad s" "s_next (note_text d s) = s_next s"
  by (simp_all add: note_text_def Let_def)

lemma emit_delta_ok: "out_ok s \<Longrightarrow> text_delta d \<Longrightarrow> out_ok (emit_delta d s)"
proof -
  assume "out_ok s" and d: "text_delta d"
  then obtain ds where ds: "list_all text_delta ds" "s_out s = delta_chunks ds" "s_role s \<longleftrightarrow> ds \<noteq> []"
    by (auto simp: out_ok_def)
  then have "s_out (emit_delta d s) = delta_chunks (ds @ [d])" "list_all text_delta (ds @ [d])"
    "s_role (emit_delta d s)" using d by (auto simp: emit_delta_def delta_chunks_def role_chunk_def)
  then show ?thesis unfolding out_ok_def by blast
qed

lemma out_ok_cong: "s_out s' = s_out s \<Longrightarrow> s_role s' = s_role s \<Longrightarrow> out_ok s' = out_ok s"
  by (simp add: out_ok_def)

lemma text_fields_delta:
  assumes "fs = text_fields d @ (if tcs \<noteq> [] then [(''tool_calls'', JArr es)] else [])"
    and "fs \<noteq> []" and "length es = length tcs"
  shows "text_delta (obj fs)"
  using assms by (auto simp: text_delta_def text_fields_def pget_obj)

lemma stream_choice_ok: "out_ok s \<Longrightarrow> out_ok (stream_choice g c s)"
proof -
  assume ok: "out_ok s"
  define d where "d = js_or (pget c ''delta'') (obj [])"
  define s1 where "s1 = note_text d (s\<lparr>s_finish := js_or (pget c ''finish_reason'') (s_finish s)\<rparr>)"
  obtain r s2 where r: "stream_calls g True (items (pget d ''tool_calls'')) s1 = (r, s2)"
    by (cases "stream_calls g True (items (pget d ''tool_calls'')) s1")
  have ok2: "out_ok s2"
    using ok stream_calls_frame [OF r] out_ok_cong [of s2 s] by (simp add: s1_def)
  show ?thesis
  proof (cases r)
    case None
    then show ?thesis
      using ok2 r out_ok_cong [of "bad_frame s2" s2]
      by (simp add: stream_choice_def d_def [symmetric] s1_def [symmetric] Let_def bad_frame_def)
  next
    case (Some es)
    define fs where "fs = text_fields d @ (if items (pget d ''tool_calls'') \<noteq> [] then [(''tool_calls'', JArr es)] else [])"
    have "out_ok (if fs \<noteq> [] then emit_delta (obj fs) s2 else s2)"
      using ok2 emit_delta_ok [OF ok2] text_fields_delta [OF fs_def _ stream_calls_length [OF r [unfolded Some]]]
      by simp
    moreover have "stream_choice g c s =
        (if fs \<noteq> [] then emit_delta (obj fs) s2 else s2)\<lparr>s_event := js ''message''\<rparr>"
      using r Some by (simp add: stream_choice_def d_def [symmetric] s1_def [symmetric] fs_def Let_def)
    ultimately show ?thesis
      using out_ok_cong [of "stream_choice g c s" "if fs \<noteq> [] then emit_delta (obj fs) s2 else s2"]
      by simp
  qed
qed

text \<open>A step that only reads a frame keeps what holds of the writes if every choice does.\<close>

lemma stream_body_cases:
  assumes "P s" and "\<And>s u. P s \<Longrightarrow> P (s\<lparr>s_usage := u\<rparr>)" and "\<And>s e. P s \<Longrightarrow> P (note_error e s)"
    and "\<And>s c. P s \<Longrightarrow> P (stream_choice g c s)"
  shows "P (stream_body g v st s)"
  using assms by (simp add: stream_body_def Let_def)

lemma stream_line_cases:
  assumes "P s" and "\<And>s u. P s \<Longrightarrow> P (s\<lparr>s_usage := u\<rparr>)" and "\<And>s e. P s \<Longrightarrow> P (note_error e s)"
    and "\<And>s c. P s \<Longrightarrow> P (stream_choice g c s)" and "\<And>s e. P s \<Longrightarrow> P (s\<lparr>s_event := e\<rparr>)"
    and "\<And>s. P s \<Longrightarrow> P (bad_frame s)" and "\<And>s. P s \<Longrightarrow> P (s\<lparr>s_done := True\<rparr>)"
  shows "P (stream_line g l s)"
proof -
  have body: "P (stream_body g v st s)" for v st
    by (rule stream_body_cases [of P, OF assms(1-4)])
  have err: "P ((note_error e s)\<lparr>s_event := ev\<rparr>)" for e ev
    by (rule assms(5) [OF assms(3) [OF assms(1)]])
  have "P (stream_frame g raw s)" for raw
    using err body assms(1,6,7)
    by (auto simp: stream_frame_def split: option.split extracted.split)
  then show ?thesis
    using assms(1,5) by (simp add: stream_line_def Let_def)
qed

lemma stream_text_cases:
  assumes "P s" and "\<And>s u. P s \<Longrightarrow> P (s\<lparr>s_usage := u\<rparr>)" and "\<And>s e. P s \<Longrightarrow> P (note_error e s)"
    and "\<And>s c. P s \<Longrightarrow> P (stream_choice g c s)" and "\<And>s e. P s \<Longrightarrow> P (s\<lparr>s_event := e\<rparr>)"
    and "\<And>s. P s \<Longrightarrow> P (bad_frame s)" and "\<And>s. P s \<Longrightarrow> P (s\<lparr>s_done := True\<rparr>)"
    and "\<And>s b. P s \<Longrightarrow> P (s\<lparr>s_buffer := b\<rparr>)"
  shows "P (stream_text g t s)"
proof -
  have "P (fold (stream_line g) ls s)" if "P s" for ls s
    using that
  proof (induction ls arbitrary: s)
    case (Cons l ls)
    have "P (stream_line g l s)" by (rule stream_line_cases [of P, OF Cons.prems assms(2-7)])
    then show ?case by (simp add: Cons.IH)
  qed simp
  with assms(1,8) show ?thesis by (simp add: stream_text_def Let_def)
qed

lemma run_cases:
  assumes "P stream_start" and "\<And>s u. P s \<Longrightarrow> P (s\<lparr>s_usage := u\<rparr>)" and "\<And>s e. P s \<Longrightarrow> P (note_error e s)"
    and "\<And>s c. P s \<Longrightarrow> P (stream_choice g c s)" and "\<And>s e. P s \<Longrightarrow> P (s\<lparr>s_event := e\<rparr>)"
    and "\<And>s. P s \<Longrightarrow> P (bad_frame s)" and "\<And>s. P s \<Longrightarrow> P (s\<lparr>s_done := True\<rparr>)"
    and "\<And>s b. P s \<Longrightarrow> P (s\<lparr>s_buffer := b\<rparr>)"
  shows "P (fold (stream_text g) cs stream_start)" and "P (close_buffer g (fold (stream_text g) cs stream_start))"
proof -
  have chunk: "P (stream_text g t s)" if "P s" for t s
    by (rule stream_text_cases [of P, OF that assms(2-8)])
  show run: "P (fold (stream_text g) cs stream_start)"
    using assms(1) chunk by (induction cs rule: rev_induct) simp_all
  show "P (close_buffer g (fold (stream_text g) cs stream_start))"
    using run chunk assms(8) by (simp add: close_buffer_def)
qed

lemma out_ok_start: "out_ok stream_start"
  by (simp add: out_ok_def stream_start_def delta_chunks_def)

lemma out_ok_silent:
  "out_ok s \<Longrightarrow> out_ok (s\<lparr>s_usage := u\<rparr>)" "out_ok s \<Longrightarrow> out_ok (note_error e s)"
  "out_ok s \<Longrightarrow> out_ok (s\<lparr>s_event := ev\<rparr>)" "out_ok s \<Longrightarrow> out_ok (bad_frame s)"
  "out_ok s \<Longrightarrow> out_ok (s\<lparr>s_done := True\<rparr>)" "out_ok s \<Longrightarrow> out_ok (s\<lparr>s_buffer := b\<rparr>)"
  by (simp_all add: out_ok_def note_error_def bad_frame_def)

lemmas run_out_ok = run_cases [of out_ok, OF out_ok_start out_ok_silent(1,2) stream_choice_ok out_ok_silent(3-6)]

lemma finish_returned:
  assumes "fst (finish g s) = Returned r"
  shows "r = \<lparr>q_content = join_parts (s_content s), q_reasoning = join_parts (s_reasoning s),
      q_usage = resolve_usage (opt_usage_js (s_usage s)) (estimates (g_prompt_tokens g) (completion_estimate g s)),
      q_calls = finished_calls (s_calls s), q_finish = q_finish r\<rparr>"
    and "snd (finish g s) = s\<lparr>s_out := s_out s @ [OChunk (obj []) (q_finish r), OUsage (q_usage r), ODone]\<rparr>"
proof -
  have 1: "\<not> truthy (s_error s)" using assms by (auto simp: finish_def Let_def)
  have 2: "\<not> (\<not> s_done s \<and> \<not> truthy (s_finish s))" 
  proof
    assume "\<not> s_done s \<and> \<not> truthy (s_finish s)"
    then have "\<exists>m. fst (finish g s) = Threw m" by (simp add: finish_def 1)
    with assms show False by simp
  qed
  have 3: "\<not> (\<not> truthy (s_content_len s) \<and> \<not> truthy (s_reasoning_len s) \<and> finished_calls (s_calls s) = [])"
  proof
    assume "\<not> truthy (s_content_len s) \<and> \<not> truthy (s_reasoning_len s) \<and> finished_calls (s_calls s) = []"
    then have "\<exists>m. fst (finish g s) = Threw m"
      unfolding finish_def Let_def if_not_P [OF 1] if_not_P [OF 2] by simp
    with assms show False by simp
  qed
  have "finish g s = (let usage = resolve_usage (opt_usage_js (s_usage s)) (estimates (g_prompt_tokens g) (completion_estimate g s));
      reason = js_or (s_finish s) (if finished_calls (s_calls s) \<noteq> [] then jlit ''tool_calls'' else jlit ''stop'')
    in (Returned \<lparr>q_content = join_parts (s_content s), q_reasoning = join_parts (s_reasoning s),
          q_usage = usage, q_calls = finished_calls (s_calls s), q_finish = reason\<rparr>,
        s\<lparr>s_out := s_out s @ [OChunk (obj []) reason, OUsage usage, ODone]\<rparr>))"
    unfolding finish_def Let_def if_not_P [OF 1] if_not_P [OF 2] if_not_P [OF 3] ..
  with assms show "r = \<lparr>q_content = join_parts (s_content s), q_reasoning = join_parts (s_reasoning s),
      q_usage = resolve_usage (opt_usage_js (s_usage s)) (estimates (g_prompt_tokens g) (completion_estimate g s)),
      q_calls = finished_calls (s_calls s), q_finish = q_finish r\<rparr>"
    "snd (finish g s) = s\<lparr>s_out := s_out s @ [OChunk (obj []) (q_finish r), OUsage (q_usage r), ODone]\<rparr>"
    by (auto simp: Let_def)
qed

section \<open>What the client reads\<close>

text \<open>
  The reader at the other end: an OpenAI client that concatenates the text of the deltas and merges
  the calls of the deltas by their index.
\<close>

record client =
  cl_content :: jstr
  cl_reasoning :: jstr
  cl_calls :: "(int \<times> call_acc) list"

definition client_call :: "jsval \<Rightarrow> (int \<times> call_acc) list \<Rightarrow> (int \<times> call_acc) list" where
  "client_call tc cs =
     (case int_index (pget tc ''index'') of
        None \<Rightarrow> cs
      | Some i \<Rightarrow> aput i (merge_call tc (case map_of cs i of Some a \<Rightarrow> a | None \<Rightarrow> new_call [])) cs)"

definition shown :: "jsval \<Rightarrow> jstr" where
  "shown v = (if truthy v then to_string v else [])"

fun client_chunk :: "out \<Rightarrow> client \<Rightarrow> client" where
  "client_chunk (OChunk d reason) c =
     \<lparr>cl_content = cl_content c @ shown (pget d ''content''),
      cl_reasoning = cl_reasoning c @ shown (pget d ''reasoning_content''),
      cl_calls = fold client_call (items (pget d ''tool_calls'')) (cl_calls c)\<rparr>"
| "client_chunk _ c = c"

definition client_view :: "out list \<Rightarrow> client" where
  "client_view outs = fold client_chunk outs \<lparr>cl_content = [], cl_reasoning = [], cl_calls = []\<rparr>"

lemma dec_digits_head: "0 \<le> n \<Longrightarrow> \<exists>c ds. dec_digits n = c # ds \<and> 48 \<le> c \<and> c \<le> 57"
proof (induction n rule: dec_digits.induct)
  case (1 n)
  show ?case
  proof (cases "n < 10")
    case True
    with 1(2) have "n = 0 \<or> n = 1 \<or> n = 2 \<or> n = 3 \<or> n = 4 \<or> n = 5 \<or> n = 6 \<or> n = 7 \<or> n = 8 \<or> n = 9"
      by presburger
    then show ?thesis by (elim disjE) (simp_all add: dec_digits.simps digit_unit_def)
  next
    case False
    then have "0 \<le> n div 10" by simp
    with 1(1) [OF False] False show ?thesis by (subst dec_digits.simps) auto
  qed
qed

lemma own_props_function: "lookup (js ''function'') (own_props v) = pget v ''function''"
proof -
  have digits: "dec_digits (int i) \<noteq> js ''function''" for i
    using dec_digits_head [of "int i"] by (auto simp: js_def)
  have none: "map_of (map (\<lambda>(i, c). (dec_digits (int i), f c)) (enumerate n xs)) (js ''function'') = None"
    for f :: "'a \<Rightarrow> jsval" and n xs
    by (induction xs arbitrary: n) (simp_all add: digits digits [symmetric])
  from none [of "\<lambda>c :: u16. JStr [c]"] none [of "\<lambda>x :: jsval. x"]
  show ?thesis by (cases v) (simp_all add: own_props_def lookup_def)
qed

lemma truthy_js_or: "truthy b \<Longrightarrow> truthy (js_or a b)"
  by (simp add: js_or_def)

lemma client_call_agrees:
  assumes "stream_call g f tc s = (e, s1)"
  shows "client_call e (s_calls s) = s_calls s1"
proof -
  let ?i = "choose_index f tc s"
  define prev where "prev = (case map_of (s_calls s) ?i of Some a \<Rightarrow> a | None \<Rightarrow> new_call (generated_call_id g ?i))"
  define mine where "mine = (case map_of (s_calls s) ?i of Some a \<Rightarrow> a | None \<Rightarrow> new_call [])"
  define a where "a = merge_call tc prev"
  have e: "e = spread_own tc ([(''index'', jint ?i), (''id'', js_or (pget tc ''id'') (a_id a)),
        (''type'', js_or (pget tc ''type'') (a_type a))]
      @ (if truthy (pget tc ''function'') then [(''function'', pget tc ''function'')] else []))"
    and s1: "s_calls s1 = aput ?i a (s_calls s)"
    using assms by (auto simp: stream_call_def Let_def prev_def [symmetric] a_def [symmetric])
  have f: "call_part e k = call_part tc k" for k
    by (simp add: call_part_def e pget_spread_own own_props_function)
  have i: "int_index (pget e ''index'') = Some ?i"
    by (simp add: e pget_spread_own is_int_rat_def)
  have id: "pget e ''id'' = js_or (pget tc ''id'') (a_id a)" and type: "pget e ''type'' = js_or (pget tc ''type'') (a_type a)"
    by (simp_all add: e pget_spread_own)
  have prev_id: "a_id mine = a_id prev \<or> truthy (a_id prev)" and prev_type: "a_type mine = a_type prev"
    and rest: "a_name mine = a_name prev" "a_args mine = a_args prev"
    by (auto simp: mine_def prev_def new_call_def generated_call_id_def split: option.split)
  have "merge_call e mine = a"
    using prev_id by (auto simp: merge_call_def f id type a_def prev_type rest js_or_def)
  then show ?thesis by (simp add: client_call_def i s1 mine_def)
qed

lemma client_calls_agree: "stream_calls g f tcs s = (Some es, s') \<Longrightarrow> fold client_call es (s_calls s) = s_calls s'"
proof (induction g f tcs s arbitrary: es s' rule: stream_calls.induct)
  case (2 g f tc tcs s)
  have n: "\<not> nullish tc" using 2(2) by (auto split: if_splits)
  obtain e s1 where e: "stream_call g f tc s = (e, s1)" by (cases "stream_call g f tc s")
  obtain r s2 where r: "stream_calls g False tcs s1 = (r, s2)" by (cases "stream_calls g False tcs s1")
  from 2(2) n e r obtain es' where "r = Some es'" "es = e # es'" "s' = s2" by auto
  with 2(1) [OF n e [symmetric] refl] r client_call_agrees [OF e] show ?case by simp
qed simp

text \<open>As long as no frame was rejected, the client has read what the stream has gathered.\<close>

definition in_step :: "stream \<Rightarrow> bool" where
  "in_step s \<longleftrightarrow> s_bad s = 0 \<longrightarrow> client_view (s_out s) =
     \<lparr>cl_content = join_parts (s_content s), cl_reasoning = join_parts (s_reasoning s), cl_calls = s_calls s\<rparr>"

lemma in_step_silent:
  "in_step stream_start" "in_step s \<Longrightarrow> in_step (s\<lparr>s_usage := u\<rparr>)" "in_step s \<Longrightarrow> in_step (note_error e s)"
  "in_step s \<Longrightarrow> in_step (s\<lparr>s_event := ev\<rparr>)" "in_step s \<Longrightarrow> in_step (bad_frame s)"
  "in_step s \<Longrightarrow> in_step (s\<lparr>s_done := True\<rparr>)" "in_step s \<Longrightarrow> in_step (s\<lparr>s_buffer := b\<rparr>)"
  by (simp_all add: in_step_def note_error_def bad_frame_def stream_start_def client_view_def join_parts_def)

lemma note_text_parts:
  "join_parts (s_content (note_text d s)) = join_parts (s_content s) @ shown (delta_content d)"
  "join_parts (s_reasoning (note_text d s)) = join_parts (s_reasoning s) @ shown (delta_reasoning d)"
  by (simp_all add: note_text_def Let_def join_parts_def shown_def)

lemma client_view_snoc: "client_view (outs @ [out]) = client_chunk out (client_view outs)"
  by (simp add: client_view_def)

lemma client_view_emit: "client_view (s_out (emit_delta d s)) = client_chunk (OChunk d Null) (client_view (s_out s))"
proof -
  have "client_chunk (OChunk (obj [(''role'', jlit ''assistant'')]) Null) c = c" for c
    by (simp add: pget_obj shown_def)
  then show ?thesis by (simp add: emit_delta_def client_view_def)
qed

lemma in_step_choice: "in_step s \<Longrightarrow> in_step (stream_choice g c s)"
proof -
  assume ok: "in_step s"
  define d where "d = js_or (pget c ''delta'') (obj [])"
  define s1 where "s1 = note_text d (s\<lparr>s_finish := js_or (pget c ''finish_reason'') (s_finish s)\<rparr>)"
  let ?tcs = "items (pget d ''tool_calls'')"
  obtain r s2 where r: "stream_calls g True ?tcs s1 = (r, s2)" by (cases "stream_calls g True ?tcs s1")
  note frame = stream_calls_frame [OF r]
  show ?thesis
  proof (cases r)
    case None
    then show ?thesis
      using r by (simp add: stream_choice_def d_def [symmetric] s1_def [symmetric] Let_def bad_frame_def in_step_def)
  next
    case (Some es)
    define fs where "fs = text_fields d @ (if ?tcs \<noteq> [] then [(''tool_calls'', JArr es)] else [])"
    define s3 where "s3 = (if fs \<noteq> [] then emit_delta (obj fs) s2 else s2)"
    have step: "stream_choice g c s = s3\<lparr>s_event := js ''message''\<rparr>"
      using r Some by (simp add: stream_choice_def d_def [symmetric] s1_def [symmetric] fs_def s3_def Let_def)
    have calls: "fold client_call es (s_calls s) = s_calls s2"
      using client_calls_agree [OF r [unfolded Some]] by (simp add: s1_def)
    have len: "length es = length ?tcs" using stream_calls_length [OF r [unfolded Some]] .
    have parts: "shown (pget (obj fs) ''content'') = shown (delta_content d)"
      "shown (pget (obj fs) ''reasoning_content'') = shown (delta_reasoning d)"
      "items (pget (obj fs) ''tool_calls'') = es"
      using len by (auto simp: fs_def text_fields_def pget_obj shown_def)
    show ?thesis
      unfolding step in_step_def
    proof
      assume "s_bad (s3\<lparr>s_event := js ''message''\<rparr>) = 0"
      then have "s_bad s = 0" using frame by (simp add: s3_def s1_def emit_delta_def split: if_splits)
      with ok have view: "client_view (s_out s) = \<lparr>cl_content = join_parts (s_content s),
          cl_reasoning = join_parts (s_reasoning s), cl_calls = s_calls s\<rparr>" by (simp add: in_step_def)
      have s2: "s_out s2 = s_out s" "join_parts (s_content s2) = join_parts (s_content s) @ shown (delta_content d)"
        "join_parts (s_reasoning s2) = join_parts (s_reasoning s) @ shown (delta_reasoning d)"
        using frame by (simp_all add: s1_def note_text_parts)
      have "client_view (s_out s3) = \<lparr>cl_content = join_parts (s_content s2),
          cl_reasoning = join_parts (s_reasoning s2), cl_calls = s_calls s2\<rparr>"
      proof (cases "fs = []")
        case True
        with parts calls show ?thesis by (simp add: s3_def s2 view shown_def pget_obj)
      next
        case False
        then show ?thesis by (simp add: s3_def client_view_emit s2 view parts calls)
      qed
      then show "client_view (s_out (s3\<lparr>s_event := js ''message''\<rparr>)) =
          \<lparr>cl_content = join_parts (s_content (s3\<lparr>s_event := js ''message''\<rparr>)),
           cl_reasoning = join_parts (s_reasoning (s3\<lparr>s_event := js ''message''\<rparr>)),
           cl_calls = s_calls (s3\<lparr>s_event := js ''message''\<rparr>)\<rparr>"
        by (simp add: s3_def emit_delta_def split: if_splits)
    qed
  qed
qed

lemmas run_in_step = run_cases [of in_step, OF in_step_silent(1-3) in_step_choice in_step_silent(4-7)]

section \<open>The estimate of the completion\<close>

text \<open>
  Without counts from upstream the code estimates the tokens of \<open>contentLen + reasoningLen\<close>, which
  is a number: what is estimated is its decimal representation.
\<close>

definition digits :: "jstr \<Rightarrow> bool" where
  "digits s \<longleftrightarrow> list_all (\<lambda>c. 48 \<le> c \<and> c \<le> 57) s"

lemma count_chars_digits: "digits s \<Longrightarrow> count_chars s = (0, length s)"
  unfolding digits_def
proof (induction s rule: count_chars.induct)
  case (2 c)
  then have "\<not> is_cjk c" unfolding is_cjk_def by (simp add: word_le_def)
  then show ?case by simp
next
  case (3 c d s)
  then have "\<not> is_cjk c" "\<not> is_high c" unfolding is_cjk_def is_high_def by (simp_all add: word_le_def)
  with 3 show ?case by simp
qed simp

lemma digit_unit_digit: "0 \<le> n \<Longrightarrow> n < 10 \<Longrightarrow> digits [digit_unit n]"
proof -
  assume n: "0 \<le> n" "n < 10"
  then have "dec_digits n = [digit_unit n]" by (subst dec_digits.simps) simp
  with dec_digits_head [OF n(1)] show ?thesis by (simp add: digits_def)
qed

lemma dec_digits_digits: "0 \<le> n \<Longrightarrow> digits (dec_digits n)"
proof (induction n rule: dec_digits.induct)
  case (1 n)
  show ?case
  proof (cases "n < 10")
    case True
    with 1(2) digit_unit_digit [of n] show ?thesis by (subst dec_digits.simps) simp
  next
    case False
    then have "digits (dec_digits (n div 10))" using 1 by simp
    moreover have "digits [digit_unit (n mod 10)]" by (rule digit_unit_digit) simp_all
    ultimately show ?thesis using False by (subst dec_digits.simps) (simp add: digits_def)
  qed
qed

lemma dec_digits_length: "n < 10 ^ Suc k \<Longrightarrow> length (dec_digits n) \<le> Suc k"
proof (induction k arbitrary: n)
  case 0
  then show ?case by (subst dec_digits.simps) simp
next
  case (Suc k)
  show ?case
  proof (cases "n < 10")
    case False
    have "n div 10 < 10 ^ Suc k" using Suc.prems by (simp add: div_less_iff_less_mult)
    from Suc.IH [OF this] False show ?thesis by (subst dec_digits.simps) simp
  qed (subst dec_digits.simps, simp)
qed

lemma dec_digits_nonempty: "dec_digits n \<noteq> []"
  by (subst dec_digits.simps) simp

lemma rat_to_str_nat: "rat_to_str (of_nat n) = dec_digits (int n)"
proof -
  have "frac_digits 17 (0 :: rat) = []" by (simp add: numeral_eq_Suc)
  then show ?thesis by (simp add: rat_to_str_def Let_def)
qed

lemma estimate_of_number:
  "0 < n \<Longrightarrow> n < 100000 \<Longrightarrow> estimate_tokens (JNum (Fin (of_nat n))) = 1"
proof -
  assume n: "0 < n" "n < 100000"
  let ?d = "dec_digits (int n)"
  have len: "length ?d \<le> 5" using dec_digits_length [of "int n" 4] n(2) by simp
  then have "math_round (of_nat (length ?d) / 4) \<le> 1"
    unfolding math_round_def by (simp add: floor_le_iff)
  moreover have "count_chars ?d = (0, length ?d)" by (rule count_chars_digits) (simp add: dec_digits_digits)
  ultimately show ?thesis
    using n(1) by (simp add: estimate_tokens_def js_or_def rat_to_str_nat dec_digits_nonempty Let_def)
qed

section \<open>The two readers\<close>

text \<open>
  Lines on which the reader of complete responses and the stream reader are meant to agree: no
  \<open>error\<close> event, and every frame an object with a JSON text as its body, without an error status
  of its own. (\<open>statusCode\<close> is looked at by the stream reader only.)
\<close>

definition nested_frame :: "jsval \<Rightarrow> bool" where
  "nested_frame outer \<longleftrightarrow>
     (case pget outer ''body'' of
        JStr t \<Rightarrow> t = js ''[DONE]'' \<or>
          (case json_parse t of
             Some b \<Rightarrow>
               truthy (pget b ''choices'') \<or> truthy (pget b ''error'') \<or> has_code b
               \<or> \<not> num_le (Fin 400) (to_number (js_or (pget outer ''statusCodeValue'') (pget outer ''statusCode'')))
           | None \<Rightarrow> False)
      | _ \<Rightarrow> False)"

definition nested_line :: "jstr \<Rightarrow> bool" where
  "nested_line l \<longleftrightarrow>
     (if starts_with (js ''event:'') l then event_of_line l \<noteq> js ''error''
      else if starts_with (js ''data:'') l then
        (let raw = trim (drop 5 l) in raw = [] \<or> raw = js ''[DONE]'' \<or>
           (case json_parse raw of Some outer \<Rightarrow> nested_frame outer | None \<Rightarrow> False))
      else True)"

definition same_state :: "batch_state \<Rightarrow> stream \<Rightarrow> bool" where
  "same_state k s \<longleftrightarrow> k_content k = s_content s \<and> k_reasoning k = s_reasoning s \<and> k_error k = s_error s
     \<and> k_finish k = s_finish s \<and> k_event k \<noteq> js ''error'' \<and> s_event s \<noteq> js ''error''"

lemma same_state_choice:
  assumes "same_state k s"
  shows "same_state ((batch_choice c k)\<lparr>k_event := js ''message''\<rparr>) (stream_choice g c s)"
proof -
  define d where "d = js_or (pget c ''delta'') (obj [])"
  define s1 where "s1 = note_text d (s\<lparr>s_finish := js_or (pget c ''finish_reason'') (s_finish s)\<rparr>)"
  obtain r s2 where r: "stream_calls g True (items (pget d ''tool_calls'')) s1 = (r, s2)"
    by (cases "stream_calls g True (items (pget d ''tool_calls'')) s1")
  note frame = stream_calls_frame [OF r]
  have ev: "js ''message'' \<noteq> js ''error''" by simp
  have s2: "s_content s2 = s_content s @ (if truthy (delta_content d) then [delta_content d] else [])"
    "s_reasoning s2 = s_reasoning s @ (if truthy (delta_reasoning d) then [delta_reasoning d] else [])"
    "s_error s2 = s_error s" "s_finish s2 = js_or (pget c ''finish_reason'') (s_finish s)"
    using frame by (simp_all add: s1_def note_text_def Let_def)
  have eq: "s_content (stream_choice g c s) = s_content s2 \<and> s_reasoning (stream_choice g c s) = s_reasoning s2
    \<and> s_error (stream_choice g c s) = s_error s2 \<and> s_finish (stream_choice g c s) = s_finish s2
    \<and> s_event (stream_choice g c s) = js ''message''"
    using r by (cases r) (simp_all add: stream_choice_def d_def [symmetric] s1_def [symmetric] Let_def bad_frame_def emit_delta_def)
  have reasoning: "(if truthy (delta_reasoning d) then [delta_reasoning d] else []) =
      (if truthy (pget d ''reasoning_content'') then [pget d ''reasoning_content'']
       else if truthy (pget d ''reasoning'') then [pget d ''reasoning''] else [])"
    by (simp add: delta_reasoning_def js_or_def)
  have batch: "k_content (batch_choice c k) = k_content k @ (if truthy (delta_content d) then [delta_content d] else [])"
    "k_reasoning (batch_choice c k) = k_reasoning k @ (if truthy (delta_reasoning d) then [delta_reasoning d] else [])"
    "k_error (batch_choice c k) = k_error k" "k_finish (batch_choice c k) = js_or (pget c ''finish_reason'') (k_finish k)"
    unfolding reasoning by (simp_all add: batch_choice_def d_def [symmetric] delta_content_def Let_def)
  show ?thesis
    using assms ev by (simp add: same_state_def eq s2 batch)
qed

lemma same_state_body:
  assumes "same_state k s" and "truthy (pget b ''choices'') \<or> truthy (pget b ''error'') \<or> has_code b
      \<or> \<not> num_le (Fin 400) (to_number st)"
  shows "same_state ((batch_body outer b k)\<lparr>k_event := js ''message''\<rparr>) (stream_body g b st s)"
proof -
  define k1 where "k1 = (if usage_looks_useful outer \<or> usage_looks_useful b
     then k\<lparr>k_usage := Some (resolve_usage (JArr [opt_usage_js (k_usage k), outer, b]) (fallback_of (k_usage k)))\<rparr> else k)"
  define s1 where "s1 = (if usage_looks_useful b
     then s\<lparr>s_usage := Some (resolve_usage (JArr [opt_usage_js (s_usage s), b]) (fallback_of (s_usage s)))\<rparr> else s)"
  have 1: "same_state k1 s1" using assms(1) by (simp add: same_state_def k1_def s1_def)
  have err: "same_state (k1\<lparr>k_error := remember_error (k_error k1) e, k_event := js ''message''\<rparr>) (note_error e s1)" for e
    using 1 by (simp add: same_state_def note_error_def)
  show ?thesis
    using err same_state_choice [OF 1] assms(2)
    unfolding batch_body_def stream_body_def k1_def [symmetric] s1_def [symmetric] Let_def by auto
qed

lemma same_state_falsy: "same_state k s \<Longrightarrow> \<not> truthy b \<Longrightarrow> same_state ((batch_body outer b k)\<lparr>k_event := js ''message''\<rparr>) s"
proof -
  assume s: "same_state k s" and b: "\<not> truthy b"
  have none: "pget b x = Undef" for x using b by (cases b) auto
  show ?thesis
    using s by (simp add: batch_body_def none has_code_def batch_choice_def same_state_def js_or_def pget_obj Let_def)
qed

lemma same_state_frame:
  assumes "same_state k s" and "json_parse raw = Some outer" and "nested_frame outer" and "raw \<noteq> js ''[DONE]''"
  shows "same_state (batch_frame outer k) (stream_frame g raw s)"
proof -
  obtain t where t: "pget outer ''body'' = JStr t" using assms(3) by (auto simp: nested_frame_def split: jsval.splits)
  then have outer: "\<not> nullish outer" "outer \<noteq> jlit ''[DONE]''" by (cases outer, auto)+
  have ev: "s_event s \<noteq> js ''error''" using assms(1) by (simp add: same_state_def)
  show ?thesis
  proof (cases "t = js ''[DONE]''")
    case True
    then have "stream_frame g raw s = s\<lparr>s_done := True\<rparr>" "batch_frame outer k = k"
      using t outer ev assms(2,4) by (simp_all add: stream_frame_def extract_delta_def batch_frame_def)
    with assms(1) show ?thesis by (simp add: same_state_def)
  next
    case False
    with assms(3) t obtain b where b: "json_parse t = Some b"
      and st: "truthy (pget b ''choices'') \<or> truthy (pget b ''error'') \<or> has_code b
        \<or> \<not> num_le (Fin 400) (to_number (js_or (pget outer ''statusCodeValue'') (pget outer ''statusCode'')))"
      by (auto simp: nested_frame_def split: option.splits)
    have batch: "batch_frame outer k = (batch_body outer b k)\<lparr>k_event := js ''message''\<rparr>"
      using t outer b False by (simp add: batch_frame_def)
    show ?thesis
    proof (cases "t = 34 # js ''[DONE]'' @ [34]")
      case True
      then have stream: "stream_frame g raw s = s\<lparr>s_done := True\<rparr>"
        using t outer ev assms(2,4) by (simp add: stream_frame_def extract_delta_def)
      have "json_parse (34 # js ''[DONE]'' @ [34]) = Some (jlit ''[DONE]'')" by code_simp
      with b True have "b = jlit ''[DONE]''" by simp
      with assms(1) show ?thesis
        by (simp add: batch stream batch_body_def has_code_def batch_choice_def same_state_def js_or_def pget_obj Let_def)
    next
      case no: False
      then have stream: "stream_frame g raw s = (if truthy b then stream_body g b
          (js_or (pget outer ''statusCodeValue'') (pget outer ''statusCode'')) s else s)"
        using t outer ev assms(2,4) False b by (simp add: stream_frame_def extract_delta_def)
      show ?thesis
        using same_state_body [OF assms(1) st] same_state_falsy [OF assms(1)] by (simp add: batch stream)
    qed
  qed
qed

lemma same_state_line:
  "same_state k s \<Longrightarrow> nested_line l \<Longrightarrow> same_state (batch_line l k) (stream_line g l s)"
proof -
  assume s: "same_state k s" and l: "nested_line l"
  define raw where "raw = trim (drop 5 l)"
  consider "starts_with (js ''event:'') l" | "\<not> starts_with (js ''event:'') l" "\<not> starts_with (js ''data:'') l"
    | "\<not> starts_with (js ''event:'') l" "starts_with (js ''data:'') l" "raw = []"
    | "\<not> starts_with (js ''event:'') l" "starts_with (js ''data:'') l" "raw = js ''[DONE]''"
    | "\<not> starts_with (js ''event:'') l" "starts_with (js ''data:'') l" "raw \<noteq> []" "raw \<noteq> js ''[DONE]''" by blast
  then show ?thesis
  proof cases
    case 4
    then show ?thesis
      using s by (simp add: batch_line_def stream_line_def raw_def [symmetric] stream_frame_def extract_delta_def
          same_state_def Let_def)
  next
    case 5
    with l obtain outer where outer: "json_parse raw = Some outer" "nested_frame outer"
      by (auto simp: nested_line_def raw_def [symmetric] Let_def split: option.splits)
    have "k_event k \<noteq> js ''error''" using s by (simp add: same_state_def)
    with 5 outer same_state_frame [OF s outer(1,2) 5(4)] show ?thesis
      by (simp add: batch_line_def stream_line_def raw_def [symmetric] Let_def)
  qed (use s l in \<open>simp_all add: batch_line_def stream_line_def raw_def [symmetric] same_state_def nested_line_def Let_def\<close>)
qed

lemma same_state_lines:
  "same_state k s \<Longrightarrow> list_all nested_line ls \<Longrightarrow> same_state (fold batch_line ls k) (fold (stream_line g) ls s)"
  by (induction ls arbitrary: k s) (simp_all add: same_state_line)

text \<open>The stream reader, too, processes the lines of the whole text, the last one included.\<close>

lemma stream_line_Nil: "stream_line g [] s = s"
  by (simp add: stream_line_def starts_with_def js_def)

lemma close_buffer_lines:
  "close_buffer g (stream_text g t stream_start) = (fold (stream_line g) (split_on 10 t) stream_start)\<lparr>s_buffer := []\<rparr>"
proof -
  let ?p = "split_on 10 t"
  let ?s = "fold (stream_line g) (butlast ?p) stream_start"
  have p: "?p = butlast ?p @ [last ?p]" by simp
  have first: "stream_text g t stream_start = ?s\<lparr>s_buffer := last ?p\<rparr>"
    using lines.feed_eq [of g t stream_start] by simp
  have last: "10 \<notin> set (last ?p)"
    by (rule last_split_on)
  have lines: "fold (stream_line g) ?p stream_start = stream_line g (last ?p) ?s"
    by (subst p) (simp only: fold_append fold.simps comp_def id_def)
  show ?thesis
  proof (cases "last ?p = []")
    case True
    have "s_buffer ?s = []"
    proof -
      have "stream_start\<lparr>s_buffer := []\<rparr> = stream_start" by (simp add: stream_start_def)
      then have "?s = ?s\<lparr>s_buffer := []\<rparr>"
        using lines.lines_set [of g "butlast ?p" "[]" stream_start] by (simp only:)
      from arg_cong [OF this, of s_buffer] show ?thesis by simp
    qed
    with True show ?thesis by (simp add: close_buffer_def first lines stream_line_Nil)
  next
    case False
    have "split_on 10 (last ?p @ [10]) = [last ?p, []]"
      using last by (rule split_on_end)
    then show ?thesis
      using False lines.feed_eq [of g "last ?p @ [10]" "?s\<lparr>s_buffer := []\<rparr>"]
      by (simp add: close_buffer_def first lines stream_line_buffer)
  qed
qed

section \<open>An example stream\<close>

definition sample_chat :: chat where
  "sample_chat = \<lparr>g_id = js ''c'', g_created = 0, g_model = jlit ''auto'', g_prompt_tokens = 9, g_estimated = 0,
     g_clock = \<lparr>now_ms = 0, date_parse = Map.empty\<rparr>, g_open = True\<rparr>"

definition sample_frame :: "(string \<times> jsval) list \<Rightarrow> jstr" where
  "sample_frame d = js ''data: '' @ json_text (obj [(''body'',
     JStr (json_text (obj [(''choices'', JArr [obj [(''delta'', obj d)]])])))]) @ [10]"

definition sample_text :: jstr where
  "sample_text = sample_frame [(''content'', jlit ''hi'')] @ js ''data: [DONE]''"

definition sample_result :: result where
  "sample_result = \<lparr>q_content = js ''hi'', q_reasoning = [],
     q_usage = \<lparr>u_prompt = 9, u_completion = 1, u_total = 10, u_source = js ''estimate'', u_cache_read = None,
       u_cache_write = None, u_credits = None\<rparr>, q_calls = [], q_finish = jlit ''stop''\<rparr>"

definition flat_text :: jstr where
  "flat_text = js ''data: '' @ json_text (obj [(''choices'', JArr [obj [(''delta'', obj [(''content'', jlit ''hi'')])]])])
     @ [10] @ js ''data: [DONE]''"

lemma sample_returned: "fst (pipe sample_chat [sample_text] Closed) = Returned sample_result"
  by code_simp

lemma sample_state: "(let s = snd (pipe sample_chat [sample_text] Closed) in
  (s_bad s, s_usage s, s_content_len s, s_reasoning_len s)) = (0, None, jint 2, jint 0)"
  by code_simp

text \<open>What a whole call writes.\<close>

lemma pipe_grammar:
  "\<exists>ds p. list_all text_delta ds \<and>
     s_out (snd (pipe g chunks e)) = delta_chunks ds @
       (case fst (pipe g chunks e) of
          Returned r \<Rightarrow> [OChunk (obj []) (q_finish r), OUsage (q_usage r), ODone]
        | Threw m \<Rightarrow> if g_open g then [OError p] else [])"
proof -
  let ?s = "fold (stream_text g) chunks stream_start"
  have run: "out_ok ?s" by (rule run_out_ok(1))
  have run2: "out_ok (close_buffer g ?s)" by (rule run_out_ok(2))
  have err: "\<exists>ds p. list_all text_delta ds \<and>
      s_out (write_error g raw s) = delta_chunks ds @ (if g_open g then [OError p] else [])"
    if "out_ok s" for s raw
    using that by (auto simp: out_ok_def write_error_def)
  have fin: "\<exists>ds p. list_all text_delta ds \<and> s_out (snd (finish g s)) = delta_chunks ds @
       (case fst (finish g s) of
          Returned r \<Rightarrow> [OChunk (obj []) (q_finish r), OUsage (q_usage r), ODone]
        | Threw m \<Rightarrow> if g_open g then [OError p] else [])" if ok: "out_ok s" for s
    using err [OF ok] ok by (auto simp: finish_def Let_def out_ok_def)
  show ?thesis
  proof (cases e)
    case Closed
    with fin [OF run2] show ?thesis by (simp add: pipe_def)
  next
    case (Failed c m)
    with err [OF run] show ?thesis by (simp add: pipe_def Let_def)
  qed
qed

section \<open>Properties\<close>

text \<open>
  C7: How the network cuts the upstream response does not matter: any sequence of text chunks gives
  the same result, the same error and the same writes as the whole text in one chunk.
\<close>

theorem chunking_irrelevant: "pipe g chunks e = pipe g [concat chunks] e"
proof -
  have "fold (stream_text g) chunks stream_start = stream_text g (concat chunks) stream_start"
    by (rule lines.feed_pieces) simp
  then show ?thesis by (simp add: pipe_def)
qed

text \<open>
  C6: The grammar of the output. A stream writes nothing but deltas, the first of them preceded by
  the one role chunk; a call that returns then writes the chunk with the finish reason, the usage
  chunk and the end mark, each once; a call that throws writes one structured error event if the
  client is still there, and never an end mark.
\<close>

theorem stream_grammar:
  "\<exists>ds p. list_all text_delta ds \<and>
     s_out (snd (pipe g chunks e)) = delta_chunks ds @
       (case fst (pipe g chunks e) of
          Returned r \<Rightarrow> [OChunk (obj []) (q_finish r), OUsage (q_usage r), ODone]
        | Threw m \<Rightarrow> if g_open g then [OError p] else [])"
  by (rule pipe_grammar)

text \<open>
  C8: The streamed response and the returned one agree. When the stream was returned and no frame threw while it
  was read (the count of parse errors is zero), a client that concatenates the deltas it receives and merges
  the tool call fragments by index ends up with the content, the reasoning and the tool calls that the
  call returns.
\<close>

theorem client_reads_result:
  assumes "fst (pipe g chunks e) = Returned r" and "s_bad (snd (pipe g chunks e)) = 0"
  shows "cl_content (client_view (s_out (snd (pipe g chunks e)))) = q_content r
    \<and> cl_reasoning (client_view (s_out (snd (pipe g chunks e)))) = q_reasoning r
    \<and> finished_calls (cl_calls (client_view (s_out (snd (pipe g chunks e))))) = q_calls r"
proof -
  let ?s = "close_buffer g (fold (stream_text g) chunks stream_start)"
  have "e = Closed" using assms(1) by (cases e) (simp_all add: pipe_def Let_def)
  then have pipe: "pipe g chunks e = finish g ?s" by (simp add: pipe_def)
  from assms(1) have ret: "fst (finish g ?s) = Returned r" by (simp only: pipe)
  note fin = finish_returned [OF ret]
  have "in_step ?s" by (rule run_in_step(2))
  with assms(2) have view: "client_view (s_out ?s) = \<lparr>cl_content = join_parts (s_content ?s),
      cl_reasoning = join_parts (s_reasoning ?s), cl_calls = s_calls ?s\<rparr>"
    by (simp add: pipe fin(2) in_step_def)
  have "client_view (outs @ [OChunk (obj []) (q_finish r), OUsage (q_usage r), ODone]) = client_view outs" for outs
    by (simp add: client_view_def pget_obj shown_def)
  with view have "client_view (s_out (snd (pipe g chunks e))) = \<lparr>cl_content = join_parts (s_content ?s),
      cl_reasoning = join_parts (s_reasoning ?s), cl_calls = s_calls ?s\<rparr>"
    by (simp add: pipe fin(2))
  moreover have "q_content r = join_parts (s_content ?s)" "q_reasoning r = join_parts (s_reasoning ?s)"
    "q_calls r = finished_calls (s_calls ?s)" by (subst fin(1), simp)+
  ultimately show ?thesis by simp
qed

theorem client_reads_result_witness:
  "cl_content (client_view (s_out (snd (pipe sample_chat [sample_text] Closed)))) = js ''hi''"
proof -
  have "s_bad (snd (pipe sample_chat [sample_text] Closed)) = 0" using sample_state by (simp add: Let_def)
  from client_reads_result [OF sample_returned this] show ?thesis by (simp add: sample_result_def)
qed

text \<open>
  A frame that throws after its text was counted is not written: the call returns a text that the client
  has not been sent.
\<close>

definition torn_text :: jstr where
  "torn_text = sample_frame [(''content'', jlit ''x''), (''tool_calls'', JArr [Null])] @ js ''data: [DONE]''"

lemma half_rejected_frame_unsent:
  "case fst (pipe sample_chat [torn_text] Closed) of
     Returned r \<Rightarrow> q_content r = js ''x'' \<and> cl_content (client_view (s_out (snd (pipe sample_chat [torn_text] Closed)))) = []
   | Threw m \<Rightarrow> False"
  by code_simp

text \<open>
  When the upstream reports no usage and the caller no estimate, every answer of 1 to 99999
  units is charged as one completion token: \<open>estimateTokens\<close> is given the length of the text, not the
  text, and estimates the digits of the number.
\<close>

theorem completion_estimate_counts_digits:
  assumes "fst (pipe g chunks e) = Returned r" and "s_usage (snd (pipe g chunks e)) = None"
    and "g_estimated g = 0"
    and "s_content_len (snd (pipe g chunks e)) = jint (int n)"
    and "s_reasoning_len (snd (pipe g chunks e)) = jint (int m)"
    and "0 < n + m" and "n + m < 100000"
  shows "u_completion (q_usage r) = 1"
proof -
  let ?s = "close_buffer g (fold (stream_text g) chunks stream_start)"
  have "e = Closed" using assms(1) by (cases e) (simp_all add: pipe_def Let_def)
  then have pipe: "pipe g chunks e = finish g ?s" by (simp add: pipe_def)
  from assms(1) have ret: "fst (finish g ?s) = Returned r" by (simp only: pipe)
  note fin = finish_returned [OF ret]
  have s: "s_usage ?s = None" "js_plus (s_content_len ?s) (s_reasoning_len ?s) = jint (int (n + m))"
    using assms(2,4,5) by (simp_all add: pipe fin(2) js_plus_def text_like_def)
  have "completion_estimate g ?s = 1"
    using estimate_of_number [OF assms(6,7)] assms(3) s(2) by (simp add: completion_estimate_def)
  then have "q_usage r = resolve_usage Null (estimates (g_prompt_tokens g) 1)"
    using s(1) by (subst fin(1)) (simp add: opt_usage_js_def)
  then show ?thesis
    by (simp add: resolve_usage_def extract_usage_def visit.simps estimates_def no_usage_def Let_def)
qed

theorem completion_estimate_counts_digits_witness:
  "u_completion (q_usage sample_result) = 1"
proof -
  have "fst (pipe sample_chat [sample_text] Closed) = Returned sample_result"
    "s_usage (snd (pipe sample_chat [sample_text] Closed)) = None"
    "s_content_len (snd (pipe sample_chat [sample_text] Closed)) = jint (int 2)"
    "s_reasoning_len (snd (pipe sample_chat [sample_text] Closed)) = jint (int 0)"
    using sample_returned sample_state by (simp_all add: Let_def)
  from completion_estimate_counts_digits [OF this(1,2) _ this(3,4)] show ?thesis by (simp add: sample_chat_def)
qed

text \<open>
  The reader of complete responses and the stream reader agree on well-formed nested frames: for
  a text without \<open>error\<close> events whose frames carry a JSON text as body and no error status, both
  gather the same content, reasoning, error and finish reason, however the text is cut into chunks.
\<close>

theorem readers_agree:
  assumes "list_all nested_line (split_on 10 (concat chunks))"
  shows "join_parts (s_content (snd (pipe g chunks Closed))) = br_content (parse_nested_openai_chunks (JStr (concat chunks)))
    \<and> join_parts (s_reasoning (snd (pipe g chunks Closed))) = br_reasoning (parse_nested_openai_chunks (JStr (concat chunks)))
    \<and> s_error (snd (pipe g chunks Closed)) = br_error (parse_nested_openai_chunks (JStr (concat chunks)))
    \<and> s_finish (snd (pipe g chunks Closed)) = br_finish (parse_nested_openai_chunks (JStr (concat chunks)))"
proof -
  let ?t = "concat chunks"
  let ?k = "fold batch_line (split_on 10 ?t) batch_start" and ?s = "fold (stream_line g) (split_on 10 ?t) stream_start"
  have "same_state batch_start stream_start" by (simp add: same_state_def batch_start_def stream_start_def)
  from same_state_lines [OF this assms] have same: "same_state ?k ?s" .
  have "fold (stream_text g) chunks stream_start = stream_text g ?t stream_start"
    by (rule lines.feed_pieces) simp
  then have pipe: "pipe g chunks Closed = finish g (?s\<lparr>s_buffer := []\<rparr>)"
    by (simp add: pipe_def close_buffer_lines)
  have "js_or (JStr ?t) (JStr []) = JStr ?t" by (cases ?t) (simp_all add: js_or_def)
  then have batch: "parse_nested_openai_chunks (JStr ?t) = \<lparr>br_content = join_parts (k_content ?k),
      br_reasoning = join_parts (k_reasoning ?k), br_error = k_error ?k, br_calls = finished_calls (k_calls ?k),
      br_finish = k_finish ?k, br_usage = k_usage ?k\<rparr>"
    by (simp add: parse_nested_openai_chunks_def Let_def)
  have "s_content (snd (finish g x)) = s_content x \<and> s_reasoning (snd (finish g x)) = s_reasoning x
      \<and> s_error (snd (finish g x)) = s_error x \<and> s_finish (snd (finish g x)) = s_finish x" for x
    by (simp add: finish_def write_error_def Let_def)
  with same show ?thesis by (simp add: pipe batch same_state_def)
qed

theorem readers_agree_witness:
  "br_content (parse_nested_openai_chunks (JStr sample_text)) = js ''hi''"
proof -
  have "list_all nested_line (split_on 10 (concat [sample_text]))" by code_simp
  from readers_agree [OF this, of sample_chat]
  have "br_content (parse_nested_openai_chunks (JStr sample_text)) =
      join_parts (s_content (snd (pipe sample_chat [sample_text] Closed)))" by simp
  moreover have "join_parts (s_content (snd (pipe sample_chat [sample_text] Closed))) = js ''hi''" by code_simp
  ultimately show ?thesis by simp
qed

text \<open>
  The two readers disagree on flat frames, whose chunk is the frame itself and not the text of a
  \<open>body\<close>: the stream reader passes the content on, the reader of complete responses drops it and
  reports an empty answer without an error.
\<close>

theorem readers_disagree_on_flat_frames:
  "fst (pipe sample_chat [flat_text] Closed) = Returned sample_result \<and> q_content sample_result = js ''hi''
   \<and> br_content (parse_nested_openai_chunks (JStr flat_text)) = []
   \<and> br_error (parse_nested_openai_chunks (JStr flat_text)) = Null"
  by code_simp

end
