(* ===== verification/Worker_Body.thy ===== *)
theory Worker_Body
  imports Worker_Catalog Worker_Normalize
begin

text \<open>
  \<open>buildPlainChatBody\<close> of \<open>worker/src/plaintext.mjs\<close>: the upstream request body of a chat. The
  history goes through the filter and the normalizer, the system prompts are gathered into one
  message in front, and the options of the caller are laid over a captured template.

  \<open>chat_args\<close> is the argument object (an absent option is \<open>Undef\<close>) and \<open>fresh\<close> what the function
  takes from the outside: three random identifiers, the version of the environment and the time.
\<close>

section \<open>Definitions\<close>

record chat_args =
  ca_messages :: jsval
  ca_model :: jsval
  ca_route :: jsval
  ca_system :: jsval
  ca_max_tokens :: jsval
  ca_template :: jsval
  ca_enable_reasoning :: bool
  ca_enable_thinking :: jsval
  ca_reasoning_effort :: jsval
  ca_reasoning_budget_tokens :: jsval
  ca_context_length :: jsval
  ca_max_input_tokens :: jsval
  ca_tools :: jsval
  ca_tool_choice :: jsval
  ca_temperature :: jsval
  ca_top_p :: jsval
  ca_stop :: jsval
  ca_parallel_tool_calls :: jsval
  ca_response_format :: jsval

record fresh =
  fr_request :: jstr
  fr_session :: jstr
  fr_set :: jstr
  fr_business :: jstr
  fr_version :: jsval
  fr_now :: int

definition is_system :: "jsval \<Rightarrow> bool" where
  "is_system m \<longleftrightarrow> is_role ''system'' m \<or> is_role ''developer'' m"

definition upstream_history :: "chat_args \<Rightarrow> jsval list" where
  "upstream_history a = normalize_messages
     (JArr (f_messages (filter_unknown_tool_history (js_or (ca_messages a) (JArr [])) (ca_tools a))))"

definition non_system :: "chat_args \<Rightarrow> jsval list" where
  "non_system a = filter (\<lambda>m. \<not> is_system m) (upstream_history a)"

definition system_prompts :: "chat_args \<Rightarrow> jstr list" where
  "system_prompts a = filter (\<lambda>t. t \<noteq> [])
     (map (\<lambda>m. content_to_string (pget m ''content'')) (filter is_system (upstream_history a)))"

definition system_text :: "chat_args \<Rightarrow> jstr" where
  "system_text a =
     (if \<not> nullish (ca_system a) \<and> trim (to_string (ca_system a)) \<noteq> [] then trim (to_string (ca_system a))
      else join [10, 10] (system_prompts a))"

definition ping_message :: jsval where
  "ping_message = obj [(''role'', jlit ''user''), (''content'', jlit ''ping'')]"

definition system_message :: "jstr \<Rightarrow> jsval" where
  "system_message t = obj [(''role'', jlit ''system''), (''content'', JStr t)]"

definition body_messages :: "chat_args \<Rightarrow> jsval list" where
  "body_messages a =
     (let sys = (if system_text a \<noteq> [] then [system_message (system_text a)] else []); rest = non_system a
      in if sys \<noteq> [] \<or> rest \<noteq> [] then sys @ (if rest \<noteq> [] then rest else [ping_message]) else [ping_message])"

definition requested_model :: "chat_args \<Rightarrow> jstr" where
  "requested_model a = (if truthy (ca_model a) then trim (to_string (ca_model a)) else js ''auto'')"

definition mapped_model :: "chat_args \<Rightarrow> jsval" where
  "mapped_model a = js_or (pget (ca_route a) ''key'') (JStr (requested_model a))"

text \<open>\<open>normalizedEffort\<close>: the empty string stands for \<open>undefined\<close>.\<close>

definition normalized_effort :: "chat_args \<Rightarrow> jstr" where
  "normalized_effort a = trimmed_string (ca_reasoning_effort a)"

definition effective_thinking :: "chat_args \<Rightarrow> bool option" where
  "effective_thinking a =
     (case ca_enable_thinking a of
        JBool b \<Rightarrow> Some b
      | _ \<Rightarrow>
          if normalized_effort a \<noteq> [] then Some (to_lower (normalized_effort a) \<notin> set off_words)
          else if ca_enable_reasoning a then Some True else None)"

definition base_of :: "chat_args \<Rightarrow> jsval" where
  "base_of a = js_or (ca_template a) (obj [])"

definition base_config :: "chat_args \<Rightarrow> jsval" where
  "base_config a = pget (base_of a) ''model_config''"

definition default_max_input :: "chat_args \<Rightarrow> jsval" where
  "default_max_input a =
     js_or (JNum (to_number (pget (ca_route a) ''max_input_tokens'')))
       (js_or (pget (base_config a) ''max_input_tokens'') (jint 180000))"

definition model_config :: "chat_args \<Rightarrow> jsval" where
  "model_config a = spread_own (js_or (base_config a) (obj []))
     [(''key'', mapped_model a),
      (''display_name'', js_or (pget (ca_route a) ''display_name'') (mapped_model a)),
      (''model'', JStr []),
      (''format'', js_or (pget (base_config a) ''format'') (jlit ''openai'')),
      (''is_vl'', js_nvl (pget (ca_route a) ''is_vl'') (js_nvl (pget (base_config a) ''is_vl'') (JBool True))),
      (''is_reasoning'', (case effective_thinking a of
          Some b \<Rightarrow> JBool b
        | None \<Rightarrow> js_nvl (pget (ca_route a) ''is_reasoning'')
                    (js_nvl (pget (base_config a) ''is_reasoning'') (JBool False)))),
      (''api_key'', JStr []),
      (''url'', JStr []),
      (''source'', js_or (pget (ca_route a) ''source'') (js_or (pget (base_config a) ''source'') (jlit ''system''))),
      (''max_input_tokens'', js_nvl (ca_max_input_tokens a) (default_max_input a))]"

text \<open>\<open>...(v !== undefined ? { k: v } : {})\<close>.\<close>

definition given :: "string \<Rightarrow> jsval \<Rightarrow> (string \<times> jsval) list" where
  "given k v = (if v = Undef then [] else [(k, v)])"

text \<open>The default of an option that is absent: \<open>maxTokens = 32000\<close>.\<close>

definition max_tokens_arg :: "chat_args \<Rightarrow> jsval" where
  "max_tokens_arg a = (if ca_max_tokens a = Undef then jint 32000 else ca_max_tokens a)"

definition parameters :: "chat_args \<Rightarrow> jsval" where
  "parameters a =
     (let base = pget (base_of a) ''parameters'' in
      spread_own (js_or base (obj []))
        ([(''max_tokens'', js_or (max_tokens_arg a) (js_or (pget base ''max_tokens'') (jint 32000)))]
         @ (if normalized_effort a \<noteq> [] then [(''reasoning_effort'', JStr (normalized_effort a))] else [])
         @ (case effective_thinking a of None \<Rightarrow> [] | Some b \<Rightarrow> [(''enable_thinking'', JBool b)])
         @ given ''reasoning_budget_tokens'' (ca_reasoning_budget_tokens a)
         @ given ''context_length'' (ca_context_length a)
         @ given ''tool_choice'' (ca_tool_choice a)
         @ given ''temperature'' (ca_temperature a)
         @ given ''top_p'' (ca_top_p a)
         @ given ''stop'' (ca_stop a)
         @ given ''parallel_tool_calls'' (ca_parallel_tool_calls a)
         @ given ''response_format'' (ca_response_format a)))"

definition tool_js :: "tool \<Rightarrow> jsval" where
  "tool_js t = obj [(''type'', jlit ''function''), (''function'', obj [(''name'', JStr (t_name t)),
     (''description'', t_description t), (''parameters'', t_parameters t)])]"

definition chat_name :: "chat_args \<Rightarrow> jstr" where
  "chat_name a = take 40 (to_string (js_or (case non_system a of [] \<Rightarrow> Undef | m # _ \<Rightarrow> pget m ''content'') (jlit ''chat'')))"

definition build_plain_chat_body :: "fresh \<Rightarrow> chat_args \<Rightarrow> jsval" where
  "build_plain_chat_body f a =
     (let base = base_of a in
      spread_own base
        [(''request_id'', JStr (fr_request f)),
         (''request_set_id'', JStr (fr_set f)),
         (''chat_record_id'', JStr (fr_request f)),
         (''session_id'', JStr (fr_session f)),
         (''stream'', JBool True),
         (''chat_task'', js_or (pget base ''chat_task'') (jlit ''FREE_INPUT'')),
         (''chat_context'', obj [(''text'', JStr []), (''features'', obj []), (''extra'', obj []),
            (''chatPrompt'', JStr []), (''imageUrls'', JArr [])]),
         (''is_reply'', JBool False),
         (''is_retry'', JBool False),
         (''source'', js_or (pget base ''source'') (jlit ''cli'')),
         (''version'', js_or (pget base ''version'') (jlit ''1.0'')),
         (''agent_id'', js_or (pget base ''agent_id'') (jlit ''agent_common'')),
         (''task_id'', jlit ''common''),
         (''session_type'', js_or (pget base ''session_type'') (jlit ''assistant'')),
         (''aliyun_user_type'', js_or (pget base ''aliyun_user_type'') (JStr [])),
         (''model_config'', model_config a),
         (''custom_model'', Null),
         (''system'', JStr (system_text a)),
         (''messages'', JArr (body_messages a)),
         (''tools'', JArr (map tool_js (normalize_tools (ca_tools a)))),
         (''parameters'', parameters a),
         (''business'', obj [(''product'', jlit ''cli''), (''version'', js_or (fr_version f) (jlit ''1.1.32'')),
            (''type'', jlit ''agent''), (''id'', JStr (fr_business f)), (''name'', JStr (chat_name a)),
            (''begin_at'', jint (fr_now f)), (''stage'', jlit ''start'')])])"

section \<open>Lemmas\<close>

lemma body_fields:
  "pget (build_plain_chat_body f a) ''messages'' = JArr (body_messages a)"
  "pget (build_plain_chat_body f a) ''system'' = JStr (system_text a)"
  "pget (build_plain_chat_body f a) ''model_config'' = model_config a"
  "pget (build_plain_chat_body f a) ''parameters'' = parameters a"
  "pget (build_plain_chat_body f a) ''tools'' = JArr (map tool_js (normalize_tools (ca_tools a)))"
  by (simp_all add: build_plain_chat_body_def pget_spread_own Let_def)

lemma ping_not_system: "\<not> is_system ping_message"
  by (simp add: is_system_def is_role_def ping_message_def pget_obj)

lemma system_message_system: "is_system (system_message t)" "is_role ''system'' (system_message t)"
  by (simp_all add: is_system_def is_role_def system_message_def pget_obj)

lemma filter_system_non_system: "filter is_system (non_system a) = []"
  by (auto simp: non_system_def filter_empty_conv)

text \<open>Messages that make no calls and answer none can be taken out of a history.\<close>

lemma ids_filter:
  "\<forall>m \<in> set ms. P m \<or> out_ids m = [] \<Longrightarrow> concat (map out_ids (filter P ms)) = concat (map out_ids ms)"
  by (induction ms) auto

lemma answers_earlier_filter:
  "answers_earlier ms \<Longrightarrow> \<forall>m \<in> set ms. P m \<or> out_ids m = [] \<Longrightarrow> answers_earlier (filter P ms)"
proof (induction ms rule: rev_induct)
  case (snoc m ms)
  then have "answers_earlier (filter P ms)" by (simp add: answers_earlier_snoc)
  moreover have "concat (map out_ids (filter P ms)) = concat (map out_ids ms)"
    by (rule ids_filter) (use snoc.prems(2) in simp)
  ultimately show ?case
    using snoc.prems(1) by (simp add: answers_earlier_snoc)
qed simp

lemma answers_earlier_Cons:
  "\<not> is_role ''tool'' x \<Longrightarrow> out_ids x = [] \<Longrightarrow> answers_earlier ms \<Longrightarrow> answers_earlier (x # ms)"
proof (induction ms rule: rev_induct)
  case Nil
  then show ?case using answers_earlier_snoc [of "[]" x] by simp
next
  case (snoc m ms)
  from snoc have "answers_earlier (x # ms)" by (simp add: answers_earlier_snoc)
  with snoc.prems show ?case
    using answers_earlier_snoc [of "x # ms" m] answers_earlier_snoc [of ms m] by simp
qed

text \<open>The normalizer gives calls to assistant messages only.\<close>

definition calls_by_assistant :: "jsval list \<Rightarrow> bool" where
  "calls_by_assistant ms \<longleftrightarrow> list_all (\<lambda>m. is_role ''assistant'' m \<or> out_ids m = []) ms"

lemma calls_by_assistant_flush:
  "norm_inv s \<Longrightarrow> calls_by_assistant (n_out s) \<Longrightarrow> calls_by_assistant (n_out (flush s))"
proof -
  assume inv: "norm_inv s" and out: "calls_by_assistant (n_out s)"
  have "list_all (result_ok (n_used s)) (flushed_results s)"
    using inv by (intro flushed_results_ok) (simp add: norm_inv_def)
  then have "calls_by_assistant (map p_message (flushed_results s))"
    by (auto simp: calls_by_assistant_def list_all_iff result_ok_def)
  moreover have "calls_by_assistant (image_messages is)" for "is"
    by (simp add: calls_by_assistant_def image_messages_def out_ids_def pget_obj)
  ultimately show ?thesis using out by (simp add: flush_def calls_by_assistant_def)
qed

lemma normalize_calls_out: "normalize_calls mi ci tcs s = (cs, s') \<Longrightarrow> n_out s' = n_out s"
proof (induction mi ci tcs s arbitrary: cs s' rule: normalize_calls.induct)
  case (2 mi ci tc tcs s)
  obtain c s1 where c: "normalize_tool_call mi ci tc s = (c, s1)" by (cases "normalize_tool_call mi ci tc s")
  obtain cs' s2 where cs': "normalize_calls mi (Suc ci) tcs s1 = (cs', s2)"
    by (cases "normalize_calls mi (Suc ci) tcs s1")
  from 2(1) [OF c [symmetric] refl cs'] c cs' 2(2) show ?case
    by (auto simp: normalize_tool_call_def Let_def)
qed simp

lemma calls_by_assistant_step:
  assumes "norm_ok s" and "calls_by_assistant (n_out s)"
  shows "calls_by_assistant (n_out (norm_step mi m s))"
proof -
  have flush: "calls_by_assistant (n_out (flush s))"
    using assms by (intro calls_by_assistant_flush) (simp_all add: norm_ok_def)
  show ?thesis
  proof (cases "is_role ''assistant'' m")
    case True
    then have role: "is_role ''assistant'' (obj ([(''role'', pget m ''role''), (''content'', c)] @ fs))"
      if "fs = [] \<or> (\<exists>v. fs = [(''tool_calls'', v)])" for c fs
      using that by (auto simp: is_role_def pget_obj)
    obtain cs s1 where cs: "normalize_calls mi 0 (items (pget m ''tool_calls'')) ((flush s)\<lparr>n_consumed := []\<rparr>) = (cs, s1)"
      by (cases "normalize_calls mi 0 (items (pget m ''tool_calls'')) ((flush s)\<lparr>n_consumed := []\<rparr>)")
    from normalize_calls_out [OF cs] True flush role [of "[]"] role [of "[(''tool_calls'', JArr cs)]"]
    show ?thesis by (simp add: norm_step_def step_assistant_def cs calls_by_assistant_def Let_def)
  next
    case False
    then show ?thesis
      using assms(2) flush
      by (simp add: norm_step_def step_tool_def step_other_def calls_by_assistant_def out_ids_def pget_obj Let_def)
  qed
qed

lemma calls_by_assistant_loop:
  "norm_ok s \<Longrightarrow> calls_by_assistant (n_out s) \<Longrightarrow> calls_by_assistant (n_out (norm_loop mi ms s))"
proof (induction mi ms s rule: norm_loop.induct)
  case (2 mi m ms s)
  from 2(1) [OF norm_step_ok [OF 2(2)] calls_by_assistant_step [OF 2(2,3)]] show ?case by simp
qed simp

lemma calls_by_assistant_normalize: "calls_by_assistant (normalize_messages ms)"
proof -
  have ok: "norm_ok norm_start" by (simp add: norm_ok_def norm_start_inv norm_start_tail)
  have "calls_by_assistant (n_out norm_start)" by (simp add: norm_start_def calls_by_assistant_def)
  from calls_by_assistant_loop [OF ok this] norm_loop_ok [OF ok] show ?thesis
    unfolding normalize_messages_def by (intro calls_by_assistant_flush) (auto simp: norm_ok_def)
qed

lemma system_makes_no_calls: "m \<in> set (normalize_messages ms) \<Longrightarrow> \<not> is_system m \<or> out_ids m = []"
  using calls_by_assistant_normalize [of ms]
  by (auto simp: calls_by_assistant_def list_all_iff is_system_def is_role_def)

section \<open>Properties\<close>

text \<open>
  C5: The messages of the body are a conversation the upstream accepts, whatever history and tools
  the client sent: there is at least one message and the last one is not a system message; the
  system prompts are in one system message at the very front (and are the \<open>system\<close> field of the
  body); the identifiers of all tool calls are distinct and not empty, and every tool message
  answers a call of an earlier message.
\<close>

theorem body_messages_accepted:
  "\<exists>ms. pget (build_plain_chat_body f a) ''messages'' = JArr ms \<and> ms \<noteq> [] \<and> \<not> is_system (last ms)
     \<and> (if system_text a = [] then filter is_system ms = []
        else filter is_system ms = [system_message (system_text a)] \<and> hd ms = system_message (system_text a))
     \<and> distinct (concat (map out_ids ms)) \<and> [] \<notin> set (concat (map out_ids ms)) \<and> answers_earlier ms"
proof -
  let ?h = "upstream_history a"
  define rest where "rest = (if non_system a \<noteq> [] then non_system a else [ping_message])"
  define sys where "sys = (if system_text a \<noteq> [] then [system_message (system_text a)] else [])"
  have ms: "body_messages a = sys @ rest" by (simp add: body_messages_def sys_def rest_def Let_def)
  have quiet: "\<forall>m \<in> set ?h. \<not> is_system m \<or> out_ids m = []"
    unfolding upstream_history_def using system_makes_no_calls by blast
  have norm: "norm_inv (flush (norm_loop 0 (items (JArr (f_messages (filter_unknown_tool_history
      (js_or (ca_messages a) (JArr [])) (ca_tools a))))) norm_start))" (is "norm_inv ?s")
    using norm_final by blast
  have h: "?h = n_out ?s" by (simp add: upstream_history_def normalize_messages_def)
  have ids: "distinct (concat (map out_ids ?h))" "[] \<notin> set (concat (map out_ids ?h))" "answers_earlier ?h"
    using norm unfolding h norm_inv_def by simp_all
  have non: "concat (map out_ids (non_system a)) = concat (map out_ids ?h)" "answers_earlier (non_system a)"
    unfolding non_system_def
    using ids_filter [where P = "\<lambda>m. \<not> is_system m", OF quiet]
      answers_earlier_filter [where P = "\<lambda>m. \<not> is_system m", OF ids(3) quiet] by simp_all
  have ping: "out_ids ping_message = []" "answers_earlier [ping_message]"
    using answers_earlier_snoc [of "[]" ping_message]
    by (simp_all add: out_ids_def ping_message_def pget_obj is_role_def)
  have rest: "distinct (concat (map out_ids rest))" "[] \<notin> set (concat (map out_ids rest))" "answers_earlier rest"
    unfolding rest_def using non ids ping by (simp_all only: split: if_split) simp_all
  have sys: "\<not> is_role ''tool'' (system_message t)" "out_ids (system_message t) = []" for t
    by (simp_all add: out_ids_def system_message_def pget_obj is_role_def)
  have last: "rest \<noteq> []" "filter is_system rest = []"
    using ping_not_system filter_system_non_system [of a] by (simp_all add: rest_def)
  then have "\<not> is_system (last rest)" by (metis filter_empty_conv last_in_set)
  moreover have "concat (map out_ids (sys @ rest)) = concat (map out_ids rest)" using sys by (simp add: sys_def)
  moreover have "answers_earlier (sys @ rest)" using sys rest(3) answers_earlier_Cons by (simp add: sys_def)
  ultimately show ?thesis
    using last rest system_message_system by (auto simp: body_fields ms sys_def)
qed

text \<open>
  Nothing of the captured template speaks for the caller: with any other template the body has
  the same messages, system prompt, tools and chat context, and no credentials or endpoint of the
  template's model configuration are sent on.
\<close>

theorem body_independent_of_template:
  "map (pget (build_plain_chat_body f (a\<lparr>ca_template := t\<rparr>))) [''messages'', ''system'', ''tools'', ''chat_context'', ''stream'']
     = map (pget (build_plain_chat_body f a)) [''messages'', ''system'', ''tools'', ''chat_context'', ''stream'']
   \<and> pget (pget (build_plain_chat_body f a) ''model_config'') ''api_key'' = JStr []
   \<and> pget (pget (build_plain_chat_body f a) ''model_config'') ''url'' = JStr []
   \<and> pget (build_plain_chat_body f a) ''custom_model'' = Null"
proof -
  have history: "upstream_history (a\<lparr>ca_template := t\<rparr>) = upstream_history a"
    by (simp add: upstream_history_def)
  then have "body_messages (a\<lparr>ca_template := t\<rparr>) = body_messages a" "system_text (a\<lparr>ca_template := t\<rparr>) = system_text a"
    by (simp_all add: body_messages_def non_system_def system_text_def system_prompts_def)
  moreover have "pget (build_plain_chat_body f b) ''chat_context'' = pget (build_plain_chat_body f a) ''chat_context''"
    "pget (build_plain_chat_body f b) ''stream'' = JBool True" "pget (build_plain_chat_body f b) ''custom_model'' = Null" for b
    by (simp_all add: build_plain_chat_body_def pget_spread_own Let_def)
  ultimately show ?thesis
    by (simp add: body_fields model_config_def pget_spread_own)
qed

text \<open>
  The reasoning switches agree. An explicit \<open>enable_thinking\<close> decides; otherwise a given effort
  does (off for none, off and disabled); otherwise a request that asks for reasoning turns it on.
  Whatever is decided is both the \<open>is_reasoning\<close> of the model configuration and the
  \<open>enable_thinking\<close> of the parameters.
\<close>

theorem thinking_switches_agree:
  "(case effective_thinking a of
      Some b \<Rightarrow> pget (model_config a) ''is_reasoning'' = JBool b \<and> pget (parameters a) ''enable_thinking'' = JBool b
    | None \<Rightarrow> pget (parameters a) ''enable_thinking'' =
        lookup (js ''enable_thinking'') (own_props (js_or (pget (base_of a) ''parameters'') (obj []))))
   \<and> effective_thinking a =
      (if is_boolean (ca_enable_thinking a) then Some (ca_enable_thinking a = JBool True)
       else if normalized_effort a \<noteq> [] then Some (to_lower (normalized_effort a) \<notin> set off_words)
       else if ca_enable_reasoning a then Some True else None)"
proof -
  have "pget (parameters a) ''enable_thinking'' =
      (case effective_thinking a of Some b \<Rightarrow> JBool b
       | None \<Rightarrow> lookup (js ''enable_thinking'') (own_props (js_or (pget (base_of a) ''parameters'') (obj []))))"
    by (simp add: parameters_def pget_spread_own given_def map_add_def Let_def split: option.split)
  moreover have "pget (model_config a) ''is_reasoning'' = JBool b" if "effective_thinking a = Some b" for b
    using that by (simp add: model_config_def pget_spread_own)
  moreover have "effective_thinking a =
      (if is_boolean (ca_enable_thinking a) then Some (ca_enable_thinking a = JBool True)
       else if normalized_effort a \<noteq> [] then Some (to_lower (normalized_effort a) \<notin> set off_words)
       else if ca_enable_reasoning a then Some True else None)"
    by (cases "ca_enable_thinking a") (auto simp: effective_thinking_def)
  ultimately show ?thesis by (simp split: option.split)
qed

end
