(* ===== verification/Js_Utf8.thy ===== *)
theory Js_Utf8
  imports Js_Value
begin

text \<open>
  UTF-8: \<open>utf8_encode\<close> is \<open>Buffer.from(s, "utf8")\<close> (a lone surrogate becomes U+FFFD) and
  \<open>utf8_decode\<close> is \<open>Buffer.prototype.toString("utf8")\<close>, the decoder of the WHATWG standard:
  every maximal ill-formed part is replaced by one U+FFFD. \<open>encode_uri_component\<close> is the
  function of ECMAScript, which rejects lone surrogates.
\<close>

section \<open>Code points\<close>

type_synonym byte = "8 word"

definition high_surrogate :: "u16 \<Rightarrow> bool" where
  "high_surrogate c \<longleftrightarrow> 0xD800 \<le> c \<and> c \<le> 0xDBFF"

definition low_surrogate :: "u16 \<Rightarrow> bool" where
  "low_surrogate c \<longleftrightarrow> 0xDC00 \<le> c \<and> c \<le> 0xDFFF"

text \<open>The code points of a string; \<open>None\<close> stands for a lone surrogate.\<close>

fun code_points :: "jstr \<Rightarrow> int option list" where
  "code_points [] = []"
| "code_points [c] = [if high_surrogate c \<or> low_surrogate c then None else Some (uint c)]"
| "code_points (c # d # s) =
     (if high_surrogate c \<and> low_surrogate d
      then Some (0x10000 + (uint c - 0xD800) * 0x400 + (uint d - 0xDC00)) # code_points s
      else (if high_surrogate c \<or> low_surrogate c then None else Some (uint c)) # code_points (d # s))"

definition point_units :: "int \<Rightarrow> jstr" where
  "point_units p =
     (if p < 0x10000 then [word_of_int p]
      else [word_of_int (0xD800 + (p - 0x10000) div 0x400), word_of_int (0xDC00 + (p - 0x10000) mod 0x400)])"

section \<open>Encoding\<close>

definition point_bytes :: "int \<Rightarrow> byte list" where
  "point_bytes p =
     (if p < 0x80 then [word_of_int p]
      else if p < 0x800 then [word_of_int (0xC0 + p div 64), word_of_int (0x80 + p mod 64)]
      else if p < 0x10000 then
        [word_of_int (0xE0 + p div 4096), word_of_int (0x80 + p div 64 mod 64), word_of_int (0x80 + p mod 64)]
      else
        [word_of_int (0xF0 + p div 262144), word_of_int (0x80 + p div 4096 mod 64),
         word_of_int (0x80 + p div 64 mod 64), word_of_int (0x80 + p mod 64)])"

definition or_replacement :: "int option \<Rightarrow> int" where
  "or_replacement p = (case p of None \<Rightarrow> 0xFFFD | Some n \<Rightarrow> n)"

definition utf8_encode :: "jstr \<Rightarrow> byte list" where
  "utf8_encode s = concat (map (point_bytes \<circ> or_replacement) (code_points s))"

text \<open>\<open>Buffer.byteLength(s, "utf8")\<close>.\<close>

definition byte_length :: "jstr \<Rightarrow> nat" where
  "byte_length s = length (utf8_encode s)"

section \<open>Decoding\<close>

text \<open>
  The continuation bytes of a sequence: \<open>n\<close> of them, the first between \<open>lo\<close> and \<open>hi\<close>. The
  first byte that does not fit ends the sequence and is read again.
\<close>

fun utf8_more :: "nat \<Rightarrow> byte \<Rightarrow> byte \<Rightarrow> int \<Rightarrow> byte list \<Rightarrow> int option \<times> byte list" where
  "utf8_more 0 lo hi p bs = (Some p, bs)"
| "utf8_more (Suc n) lo hi p [] = (None, [])"
| "utf8_more (Suc n) lo hi p (b # bs) =
     (if lo \<le> b \<and> b \<le> hi then utf8_more n 0x80 0xBF (p * 64 + (uint b - 0x80)) bs else (None, b # bs))"

definition utf8_point :: "byte \<Rightarrow> byte list \<Rightarrow> int option \<times> byte list" where
  "utf8_point b bs =
     (if b < 0x80 then (Some (uint b), bs)
      else if 0xC2 \<le> b \<and> b \<le> 0xDF then utf8_more 1 0x80 0xBF (uint b - 0xC0) bs
      else if 0xE0 \<le> b \<and> b \<le> 0xEF then
        utf8_more 2 (if b = 0xE0 then 0xA0 else 0x80) (if b = 0xED then 0x9F else 0xBF) (uint b - 0xE0) bs
      else if 0xF0 \<le> b \<and> b \<le> 0xF4 then
        utf8_more 3 (if b = 0xF0 then 0x90 else 0x80) (if b = 0xF4 then 0x8F else 0xBF) (uint b - 0xF0) bs
      else (None, bs))"

lemma utf8_more_length: "length (snd (utf8_more n lo hi p bs)) \<le> length bs"
  by (induction n lo hi p bs rule: utf8_more.induct) auto

lemma utf8_point_length: "utf8_point b bs = (p, r) \<Longrightarrow> length r \<le> length bs"
  using utf8_more_length [of 1 _ _ _ bs] utf8_more_length [of 2 _ _ _ bs] utf8_more_length [of 3 _ _ _ bs]
  by (auto simp: utf8_point_def split: if_splits dest!: arg_cong [where f = snd] simp del: utf8_more.simps)

function utf8_decode :: "byte list \<Rightarrow> jstr" where
  "utf8_decode [] = []"
| "utf8_decode (b # bs) =
     (case utf8_point b bs of (p, r) \<Rightarrow> point_units (or_replacement p) @ utf8_decode r)"
  by pat_completeness auto
termination
  by (relation "measure length") (auto dest!: utf8_point_length [OF sym])

section \<open>Percent encoding\<close>

definition uri_unescaped :: "u16 \<Rightarrow> bool" where
  "uri_unescaped c \<longleftrightarrow> is_digit c \<or> (65 \<le> c \<and> c \<le> 90) \<or> (97 \<le> c \<and> c \<le> 122) \<or> c \<in> set (js ''-_.!~*'' @ [39] @ js ''()'')"

definition hex_unit :: "int \<Rightarrow> u16" where
  "hex_unit n = word_of_int (if n < 10 then 48 + n else 55 + n)"

definition percent :: "byte \<Rightarrow> jstr" where
  "percent b = [37, hex_unit (uint b div 16), hex_unit (uint b mod 16)]"

definition encode_point :: "int \<Rightarrow> jstr" where
  "encode_point p = (if p < 128 \<and> uri_unescaped (word_of_int p) then [word_of_int p]
     else concat (map percent (point_bytes p)))"

definition encode_uri_component :: "jstr \<Rightarrow> jstr option" where
  "encode_uri_component s = (if None \<in> set (code_points s) then None
     else Some (concat (map (encode_point \<circ> or_replacement) (code_points s))))"

end
