(* ===== verification/Js_Async.thy ===== *)
theory Js_Async
  imports Js_Value
begin

text \<open>
  Sequential asynchronous code. An action takes the log of the events so far (the calls the
  program made to its surroundings) and gives a value or a thrown error message, with the log
  extended by its own calls. What the surroundings answer is a function of the log up to and
  including the call: the answers may depend on everything the program did, and nothing is
  assumed about them.

  \<open>valid P m Q\<close> is the Hoare triple of an action, \<open>P\<close> on the log before and \<open>Q\<close> on the outcome
  and the log after; the rules below decompose it along the constructors.
\<close>

section \<open>Actions\<close>

type_synonym ('e, 'a) action = "'e list \<Rightarrow> (jstr + 'a) \<times> 'e list"

definition ret :: "'a \<Rightarrow> ('e, 'a) action" where
  "ret x = (\<lambda>l. (Inr x, l))"

definition throw :: "jstr \<Rightarrow> ('e, 'a) action" where
  "throw e = (\<lambda>l. (Inl e, l))"

definition lift_sum :: "jstr + 'a \<Rightarrow> ('e, 'a) action" where
  "lift_sum r = (\<lambda>l. (r, l))"

definition bind :: "('e, 'a) action \<Rightarrow> ('a \<Rightarrow> ('e, 'b) action) \<Rightarrow> ('e, 'b) action" where
  "bind m f = (\<lambda>l. case m l of (Inl e, l') \<Rightarrow> (Inl e, l') | (Inr x, l') \<Rightarrow> f x l')"

text \<open>\<open>try { return await m } catch (e) { return await h(e) }\<close>.\<close>

definition handle :: "('e, 'a) action \<Rightarrow> (jstr \<Rightarrow> ('e, 'a) action) \<Rightarrow> ('e, 'a) action" where
  "handle m h = (\<lambda>l. case m l of (Inl e, l') \<Rightarrow> h e l' | (Inr x, l') \<Rightarrow> (Inr x, l'))"

text \<open>A call to the surroundings, and its answer.\<close>

definition call :: "('e list \<Rightarrow> 'a) \<Rightarrow> 'e \<Rightarrow> ('e, 'a) action" where
  "call answer e = (\<lambda>l. (Inr (answer (l @ [e])), l @ [e]))"

text \<open>A read of the surroundings that is no call of its own.\<close>

definition look :: "('e list \<Rightarrow> 'a) \<Rightarrow> ('e, 'a) action" where
  "look f = (\<lambda>l. (Inr (f l), l))"

lemmas action_defs = ret_def throw_def lift_sum_def bind_def handle_def call_def look_def

section \<open>Rules\<close>

definition valid :: "('e list \<Rightarrow> bool) \<Rightarrow> ('e, 'a) action \<Rightarrow> (jstr + 'a \<Rightarrow> 'e list \<Rightarrow> bool) \<Rightarrow> bool" where
  "valid P m Q \<longleftrightarrow> (\<forall>l. P l \<longrightarrow> Q (fst (m l)) (snd (m l)))"

lemma validD: "valid P m Q \<Longrightarrow> P l \<Longrightarrow> m l = (r, l') \<Longrightarrow> Q r l'"
  by (auto simp: valid_def)

lemma valid_conseq: "valid P m Q \<Longrightarrow> (\<And>l. P' l \<Longrightarrow> P l) \<Longrightarrow> (\<And>r l. Q r l \<Longrightarrow> Q' r l) \<Longrightarrow> valid P' m Q'"
  by (auto simp: valid_def)

lemma valid_ret: "(\<And>l. P l \<Longrightarrow> Q (Inr x) l) \<Longrightarrow> valid P (ret x) Q"
  and valid_throw: "(\<And>l. P l \<Longrightarrow> Q (Inl m) l) \<Longrightarrow> valid P (throw m) Q"
  and valid_lift: "(\<And>l. P l \<Longrightarrow> Q r l) \<Longrightarrow> valid P (lift_sum r) Q"
  and valid_call: "(\<And>l. P l \<Longrightarrow> Q (Inr (answer (l @ [e]))) (l @ [e])) \<Longrightarrow> valid P (call answer e) Q"
  and valid_look: "(\<And>l. P l \<Longrightarrow> Q (Inr (f l)) l) \<Longrightarrow> valid P (look f) Q"
  by (simp_all add: valid_def action_defs)

lemma valid_bind:
  assumes "valid P m (\<lambda>r l. case r of Inl e \<Rightarrow> Q (Inl e) l | Inr x \<Rightarrow> R x l)"
    and "\<And>x. valid (R x) (f x) Q"
  shows "valid P (bind m f) Q"
proof -
  have "Q (fst (bind m f l)) (snd (bind m f l))" if "P l" for l
  proof (cases "m l")
    case (Pair r l')
    with assms(1) that have "case r of Inl e \<Rightarrow> Q (Inl e) l' | Inr x \<Rightarrow> R x l'" by (auto dest: validD)
    with Pair assms(2) show ?thesis by (cases r) (auto simp: bind_def valid_def)
  qed
  then show ?thesis by (simp add: valid_def)
qed

lemma valid_handle:
  assumes "valid P m (\<lambda>r l. case r of Inl e \<Rightarrow> R e l | Inr x \<Rightarrow> Q (Inr x) l)"
    and "\<And>e. valid (R e) (h e) Q"
  shows "valid P (handle m h) Q"
proof -
  have "Q (fst (handle m h l)) (snd (handle m h l))" if "P l" for l
  proof (cases "m l")
    case (Pair r l')
    with assms(1) that have "case r of Inl e \<Rightarrow> R e l' | Inr x \<Rightarrow> Q (Inr x) l'" by (auto dest: validD)
    with Pair assms(2) show ?thesis by (cases r) (auto simp: handle_def valid_def)
  qed
  then show ?thesis by (simp add: valid_def)
qed

text \<open>A property of the log that the action keeps whatever its outcome.\<close>

definition keeps :: "('e list \<Rightarrow> bool) \<Rightarrow> ('e, 'a) action \<Rightarrow> bool" where
  "keeps I m \<longleftrightarrow> valid I m (\<lambda>_ l. I l)"

named_theorems keeping \<open>invariants of the log, one rule for each constructor of actions\<close>

lemma keeps_iff: "keeps I m \<longleftrightarrow> (\<forall>l. I l \<longrightarrow> I (snd (m l)))"
  by (simp add: keeps_def valid_def)

lemma keeps_basic [keeping]: "keeps I (ret x)" "keeps I (throw e)" "keeps I (lift_sum r)" "keeps I (look f)"
  by (simp_all add: keeps_iff action_defs)

lemma keeps_bind [keeping]:
  assumes "keeps I m" and "\<And>x. keeps I (f x)"
  shows "keeps I (bind m f)"
proof -
  have "I (snd (bind m f l))" if "I l" for l
  proof (cases "m l")
    case (Pair r l')
    with assms(1) that have "I l'" unfolding keeps_iff by (metis snd_conv)
    with Pair assms(2) show ?thesis by (cases r) (auto simp: bind_def keeps_iff)
  qed
  then show ?thesis by (simp add: keeps_iff)
qed

lemma keeps_handle [keeping]:
  assumes "keeps I m" and "\<And>e. keeps I (h e)"
  shows "keeps I (handle m h)"
proof -
  have "I (snd (handle m h l))" if "I l" for l
  proof (cases "m l")
    case (Pair r l')
    with assms(1) that have "I l'" unfolding keeps_iff by (metis snd_conv)
    with Pair assms(2) show ?thesis by (cases r) (auto simp: handle_def keeps_iff)
  qed
  then show ?thesis by (simp add: keeps_iff)
qed

lemma keeps_if [keeping]: "keeps I a \<Longrightarrow> keeps I b \<Longrightarrow> keeps I (if c then a else b)"
  by simp

lemma keeps_option [keeping]:
  "keeps I a \<Longrightarrow> (\<And>x. keeps I (b x)) \<Longrightarrow> keeps I (case o' of None \<Rightarrow> a | Some x \<Rightarrow> b x)"
  by (cases o') auto

lemma keeps_call: "(\<And>l. I l \<Longrightarrow> I (l @ [e])) \<Longrightarrow> keeps I (call answer e)"
  by (simp add: keeps_iff call_def)

lemma keepsD: "keeps I m \<Longrightarrow> I l \<Longrightarrow> m l = (r, l') \<Longrightarrow> I l'"
  by (auto simp: keeps_def dest: validD)

end
