(* ===== verification/Worker_Checkin.thy ===== *)
theory Worker_Checkin
  imports Js_Utf8 Js_Json Js_Regex Js_Async
begin

text \<open>
  The daily check-in of \<open>worker/src/checkin.mjs\<close>: read the campaigns of an account, claim the
  credit campaigns that can be claimed, and report what was confirmed.

  The function talks to the account's auth manager, to a helper process that reads the identity of
  the machine, and to the campaign server. They are the record \<open>env\<close>: what they answer is a
  function of the calls made so far (\<open>Js_Async\<close>), and the theorems hold for every such function.
\<close>

section \<open>Definitions\<close>

subsection \<open>Values of the responses\<close>

definition plain_object :: "jsval \<Rightarrow> bool" where
  "plain_object v \<longleftrightarrow> is_object v \<and> \<not> is_array v"

definition campaign_id :: "jsval \<Rightarrow> jstr" where
  "campaign_id v = (case v of JStr s \<Rightarrow> s | _ \<Rightarrow> [])"

definition campaigns_path :: string where
  "campaigns_path = ''/sash/api/v1/me/campaigns''"

definition max_response_bytes :: int where
  "max_response_bytes = 65536"

text \<open>\<open>rs_body\<close>: the chunks of the body and the message of a failure after them, if any.\<close>

record response =
  rs_status :: int
  rs_body :: "(byte list list \<times> jstr option) option"

definition rs_ok :: "response \<Rightarrow> bool" where
  "rs_ok r \<longleftrightarrow> 200 \<le> rs_status r \<and> rs_status r \<le> 299"

fun read_chunks :: "int \<Rightarrow> byte list list \<Rightarrow> jstr option \<Rightarrow> jstr + byte list" where
  "read_chunks n [] failure = (case failure of None \<Rightarrow> Inr [] | Some e \<Rightarrow> Inl e)"
| "read_chunks n (c # cs) failure =
     (if max_response_bytes < n + int (length c) then Inl (js ''qoder_checkin_response_too_large'')
      else (case read_chunks (n + int (length c)) cs failure of Inl e \<Rightarrow> Inl e | Inr bs \<Rightarrow> Inr (c @ bs)))"

definition read_json :: "response \<Rightarrow> jstr + jsval" where
  "read_json r =
     (case rs_body r of
        None \<Rightarrow> Inl (js ''qoder_checkin_empty_response'')
      | Some (cs, failure) \<Rightarrow>
          (case read_chunks 0 cs failure of
             Inl e \<Rightarrow> Inl e
           | Inr bs \<Rightarrow>
               (case json_parse (utf8_decode bs) of
                  None \<Rightarrow> Inl (js ''qoder_checkin_invalid_json'')
                | Some v \<Rightarrow> if plain_object v then Inr v else Inl (js ''qoder_checkin_invalid_response''))))"

definition has_key :: "string \<Rightarrow> jsval \<Rightarrow> bool" where
  "has_key k v \<longleftrightarrow> js k \<in> fst ` set (props v)"

definition campaigns_from :: "jsval \<Rightarrow> jstr + jsval list" where
  "campaigns_from p =
     (if has_key ''campaigns'' p then
        (case pget p ''campaigns'' of
           JArr vs \<Rightarrow> Inr (filter plain_object vs)
         | _ \<Rightarrow> Inl (js ''qoder_checkin_invalid_response''))
      else if plain_object (pget p ''data'') \<and> is_array (pget (pget p ''data'') ''campaigns'') then
        Inr (filter plain_object (items (pget (pget p ''data'') ''campaigns'')))
      else if is_array (pget p ''data'') then Inr (filter plain_object (items (pget p ''data'')))
      else Inr [])"

definition unwrap_claim :: "jsval \<Rightarrow> jsval" where
  "unwrap_claim p = (if plain_object (pget p ''data'') then pget p ''data'' else p)"

definition credit_campaigns :: "jsval list \<Rightarrow> jsval list" where
  "credit_campaigns vs =
     filter (\<lambda>v. pget v ''actionType'' = jlit ''CLAIM_BENEFIT'' \<and> campaign_id (pget v ''campaignId'') \<noteq> []) vs"

definition claim_status :: "jsval list \<Rightarrow> jstr \<Rightarrow> jsval" where
  "claim_status vs i =
     (case find (\<lambda>v. pget v ''campaignId'' = JStr i) vs of None \<Rightarrow> Undef | Some v \<Rightarrow> pget v ''claimStatus'')"

definition reward_from :: "jsval \<Rightarrow> rat option" where
  "reward_from c =
     (let b = pget c ''benefit'' in
      if \<not> plain_object b \<or> pget b ''kind'' \<noteq> jlit ''CREDITS'' then None
      else (case pget b ''amount'' of
              JNum (Fin q) \<Rightarrow> if q < 0 then None else Some q
            | _ \<Rightarrow> None))"

subsection \<open>Header values and the machine\<close>

definition printable :: cls where
  "printable = CRange 0x21 0x7E"

definition printable_header :: rx where
  "printable_header = rx_seq [RBegin, RSeq (RSet False [printable])
     (ROpt (RSeq (RStar (RSet False [CRange 0x20 0x7E])) (RSet False [printable]))), REnd]"

definition header_value :: "jsval \<Rightarrow> jstr" where
  "header_value v =
     (case v of
        JStr s \<Rightarrow>
          (let t = trim s in
           if t = [] \<or> 4096 < int (byte_length t) \<or> \<not> rx_test False printable_header t then [] else t)
      | _ \<Rightarrow> [])"

definition machine_os :: "jstr \<Rightarrow> jstr \<Rightarrow> jstr" where
  "machine_os arch platform =
     (if arch = js ''arm64'' then js ''aarch64'' else if arch = js ''x64'' then js ''x86_64'' else arch)
     @ js ''_'' @ platform"

definition drop_dashes_end :: "jstr \<Rightarrow> jstr" where
  "drop_dashes_end s = rev (dropWhile (\<lambda>c. c = 45) (rev s))"

definition graphic :: "u16 \<Rightarrow> bool" where
  "graphic c \<longleftrightarrow> 0x21 \<le> c \<and> c \<le> 0x7E"

text \<open>\<open>hostname\<close> is \<open>None\<close> when \<open>os.hostname\<close> throws; \<open>sha256\<close> is the hex digest.\<close>

definition machine_hostname :: "(jstr \<Rightarrow> jstr) \<Rightarrow> jstr option \<Rightarrow> jstr" where
  "machine_hostname sha256 hostname =
     (case hostname of
        None \<Rightarrow> []
      | Some name \<Rightarrow>
          (let t = trim name in
           if rx_test False printable_header t then (if length t \<le> 96 then t else [])
           else
             (let safe = drop_dashes_end (dropWhile (\<lambda>c. c = 45)
                           (squash (\<lambda>c. c = 45) [45] (squash (\<lambda>c. \<not> graphic c) [45] t)));
                  short = drop_dashes_end (take 87 safe @ js ''-'' @ take 8 (sha256 t))
              in if rx_test False printable_header short then short else [])))"

definition account_id :: "jsval \<Rightarrow> jstr" where
  "account_id user =
     (case find (\<lambda>v. case v of JStr s \<Rightarrow> trim s \<noteq> [] | _ \<Rightarrow> False)
             [pget user ''uid'', pget user ''user_id'', pget user ''userId'', pget user ''id''] of
        Some (JStr s) \<Rightarrow> trim s
      | _ \<Rightarrow> [])"

subsection \<open>The helper process\<close>

text \<open>
  \<open>readRiskIdentity\<close>: what the child process and the timer do, in the order they do it. The
  promise takes the first value it is given; what the process does afterwards changes nothing.
\<close>

datatype child_event = ChildData jstr | ChildError | ChildClose int | ChildTimeout

record identity =
  id_token :: jstr
  id_type :: jstr
  id_code :: jstr

definition identity_of_output :: "jstr \<Rightarrow> identity option" where
  "identity_of_output out =
     (case json_parse (hd (split_on 10 out)) of
        None \<Rightarrow> None
      | Some v \<Rightarrow>
          (let i = \<lparr>id_token = header_value (pget v ''machineToken''), id_type = header_value (pget v ''machineType''),
                    id_code = header_value (pget v ''machineCode'')\<rparr>
           in if nullish v then None
              else if id_token i \<noteq> [] \<and> id_type i \<noteq> [] \<and> id_code i \<noteq> [] then Some i else None))"

fun child_outcome :: "jstr \<Rightarrow> child_event list \<Rightarrow> identity option option" where
  "child_outcome out [] = None"
| "child_outcome out (ChildData s # es) =
     (if max_response_bytes < int (byte_length (out @ s)) then Some None else child_outcome (out @ s) es)"
| "child_outcome out (ChildError # es) = Some None"
| "child_outcome out (ChildTimeout # es) = Some None"
| "child_outcome out (ChildClose code # es) = Some (if code = 0 then identity_of_output out else None)"

text \<open>\<open>installedRuntimeInfo\<close>: the last file name with the prefix, in the order of code units.\<close>

fun units_le :: "jstr \<Rightarrow> jstr \<Rightarrow> bool" where
  "units_le [] t \<longleftrightarrow> True"
| "units_le (c # s) [] \<longleftrightarrow> False"
| "units_le (c # s) (d # t) \<longleftrightarrow> c < d \<or> (c = d \<and> units_le s t)"

fun greatest :: "jstr list \<Rightarrow> jstr option" where
  "greatest [] = None"
| "greatest (n # ns) = (case greatest ns of None \<Rightarrow> Some n | Some k \<Rightarrow> Some (if units_le n k then k else n))"

definition runtime_prefix :: "jstr \<Rightarrow> jstr \<Rightarrow> jstr" where
  "runtime_prefix platform arch = js ''runtime-info-'' @ platform @ js ''-'' @ arch @ js ''-''"

definition installed_runtime_info ::
    "(jstr \<Rightarrow> jstr \<Rightarrow> jstr) \<Rightarrow> (jstr \<Rightarrow> jstr list option) \<Rightarrow> jstr \<Rightarrow> jstr \<Rightarrow> jstr \<Rightarrow> jstr" where
  "installed_runtime_info path_join readdir platform arch home =
     (if home = [] then []
      else (let dir = path_join home (js ''.bin'') in
            case readdir dir of
              None \<Rightarrow> []
            | Some names \<Rightarrow>
                (case greatest (filter (starts_with (runtime_prefix platform arch)) names) of
                   None \<Rightarrow> []
                 | Some n \<Rightarrow> path_join dir n)))"

text \<open>\<open>prepare\<close> copies the file to a directory where it can run; \<open>None\<close> when it throws.\<close>

definition executable_runtime_info :: "jstr \<Rightarrow> (jstr \<Rightarrow> jstr option) \<Rightarrow> jstr" where
  "executable_runtime_info source prepare =
     (if source = [] then []
      else (case prepare source of None \<Rightarrow> source | Some p \<Rightarrow> if p = [] then source else p))"

subsection \<open>Calls and answers\<close>

datatype event =
    Refresh
  | ForceRefresh
  | RiskIdentity jstr jstr
  | MachineId
  | Fetch jstr string jsval

text \<open>
  \<open>env_region\<close> is one of the site names or anything else (names of properties of
  \<open>Object.prototype\<close> aside). The functions on event lists answer the last event of the list;
  \<open>None\<close> stands for a rejected promise (for \<open>env_risk\<close>: \<open>spawn\<close> throws).
\<close>

record env =
  env_region :: jstr
  env_authenticated :: bool
  env_api :: bool
  env_can_force :: bool
  env_home :: jstr
  env_path_join :: "jstr \<Rightarrow> jstr \<Rightarrow> jstr"
  env_readdir :: "jstr \<Rightarrow> jstr list option"
  env_prepare :: "jstr \<Rightarrow> jstr option"
  env_arch :: jstr
  env_platform :: jstr
  env_sha256 :: "jstr \<Rightarrow> jstr"
  env_hostname :: "jstr option"
  env_machine_id :: jsval
  env_has_get_machine_id :: bool
  env_user :: "event list \<Rightarrow> jsval"
  env_refresh :: "event list \<Rightarrow> unit option"
  env_force :: "event list \<Rightarrow> unit option"
  env_risk :: "event list \<Rightarrow> child_event list option"
  env_get_machine_id :: "event list \<Rightarrow> jsval option"
  env_fetch :: "event list \<Rightarrow> response option"

text \<open>\<open>endpoints\<close>: the base of the requests and the origin they claim.\<close>

definition endpoint :: "jstr \<Rightarrow> (jstr \<times> jstr) option" where
  "endpoint region =
     (if region = js ''cn'' then Some (js ''https://openapi.qoder.com.cn'', js ''https://qoder.com.cn'')
      else if region = js ''global'' then Some (js ''https://openapi.qoder.sh'', js ''https://qoder.sh'')
      else None)"

definition read_risk_identity :: "env \<Rightarrow> jstr \<Rightarrow> jstr \<Rightarrow> (event, identity option) action" where
  "read_risk_identity e exe account =
     bind (call (env_risk e) (RiskIdentity exe account)) (\<lambda>r.
       ret (case r of
              None \<Rightarrow> None
            | Some es \<Rightarrow> (case child_outcome [] (es @ [ChildTimeout]) of None \<Rightarrow> None | Some i \<Rightarrow> i)))"

definition identity_fields :: "env \<Rightarrow> identity \<Rightarrow> jsval \<Rightarrow> (string \<times> jsval) list" where
  "identity_fields e i machine_id =
     (let mid = header_value machine_id; os = machine_os (env_arch e) (env_platform e);
          host = machine_hostname (env_sha256 e) (env_hostname e) in
      (if mid \<noteq> [] then [(''Cosy-MachineId'', JStr mid)] else [])
      @ [(''Cosy-MachineToken'', JStr (id_token i)), (''Cosy-MachineType'', JStr (id_type i)),
         (''Cosy-MachineCode'', JStr (id_code i))]
      @ (if os \<noteq> [] then [(''Cosy-MachineOS'', JStr os)] else [])
      @ (if host \<noteq> [] then [(''Cosy-MachineHostname'', JStr host)] else []))"

definition machine_headers :: "env \<Rightarrow> jsval \<Rightarrow> (event, (string \<times> jsval) list) action" where
  "machine_headers e user =
     (let exe = executable_runtime_info (installed_runtime_info (env_path_join e) (env_readdir e)
                  (env_platform e) (env_arch e) (env_home e)) (env_prepare e);
          account = account_id user in
      bind (if exe \<noteq> [] \<and> account \<noteq> [] then read_risk_identity e exe account else ret None) (\<lambda>identity.
        case identity of
          None \<Rightarrow> ret []
        | Some i \<Rightarrow>
            bind (if env_has_get_machine_id e
                  then bind (call (env_get_machine_id e) MachineId) (\<lambda>r.
                         ret (case r of None \<Rightarrow> JStr [] | Some v \<Rightarrow> v))
                  else ret (env_machine_id e))
              (\<lambda>mid. ret (identity_fields e i mid))))"

definition request_headers :: "jstr \<times> jstr \<Rightarrow> jstr \<Rightarrow> (string \<times> jsval) list \<Rightarrow> jsval" where
  "request_headers ep token machine =
     obj ([(''Authorization'', JStr (js ''Bearer '' @ token)), (''Accept'', jlit ''application/json''),
           (''Content-Type'', jlit ''application/json''), (''User-Agent'', jlit ''Qoder''),
           (''Cosy-ClientType'', jlit ''10''), (''Cosy-Version'', jlit ''0.3.4'')]
          @ machine
          @ [(''Origin'', JStr (snd ep)), (''Referer'', JStr (fst ep @ js ''/growth-page/activity-iframe''))])"

definition bearer :: "jsval \<Rightarrow> jstr" where
  "bearer user = (case js_nvl (pget user ''security_oauth_token'') (pget user ''access_token'') of
     JStr t \<Rightarrow> t | _ \<Rightarrow> [])"

definition http_error :: "int \<Rightarrow> jstr" where
  "http_error status = js ''qoder_checkin_http_'' @ num_to_str (Fin (of_int status))"

function request :: "env \<Rightarrow> jstr \<times> jstr \<Rightarrow> (string \<times> jsval) list \<Rightarrow> jstr \<Rightarrow> string \<Rightarrow> bool \<Rightarrow> (event, jsval) action" where
  "request e ep machine path m refreshed =
     bind (look (env_user e)) (\<lambda>user.
       if bearer user = [] then throw (js ''qoder_checkin_token_unavailable'')
       else bind (call (env_fetch e) (Fetch (fst ep @ path) m (request_headers ep (bearer user) machine))) (\<lambda>r.
         case r of
           None \<Rightarrow> throw (js ''qoder_checkin_request_failed'')
         | Some resp \<Rightarrow>
             if rs_status resp = 401 \<and> \<not> refreshed \<and> env_can_force e then
               bind (call (env_force e) ForceRefresh) (\<lambda>f.
                 case f of
                   None \<Rightarrow> throw (js ''qoder_checkin_auth_refresh_failed'')
                 | Some _ \<Rightarrow> request e ep machine path m True)
             else if \<not> rs_ok resp then throw (http_error (rs_status resp))
             else lift_sum (read_json resp)))"
  by pat_completeness auto
termination by (relation "measure (\<lambda>(e, ep, machine, path, m, refreshed). if refreshed then 0 else 1)") auto

declare request.simps [simp del]

definition list_campaigns :: "env \<Rightarrow> jstr \<times> jstr \<Rightarrow> (string \<times> jsval) list \<Rightarrow> (event, jsval list) action" where
  "list_campaigns e ep machine =
     bind (request e ep machine (js campaigns_path) ''GET'' False) (\<lambda>p. lift_sum (campaigns_from p))"

subsection \<open>Claiming\<close>

record tally =
  t_confirmed :: nat
  t_recovered :: nat
  t_reward :: rat
  t_has_reward :: bool

definition claim_path :: "jstr \<Rightarrow> jstr" where
  "claim_path encoded = js campaigns_path @ js ''/'' @ encoded @ js ''/claim''"

text \<open>One claim: \<open>True\<close> when it was confirmed, \<open>False\<close> when the list shows it claimed all the same.\<close>

definition claim_one :: "env \<Rightarrow> jstr \<times> jstr \<Rightarrow> (string \<times> jsval) list \<Rightarrow> jsval \<Rightarrow> (event, bool) action" where
  "claim_one e ep machine c =
     (let i = campaign_id (pget c ''campaignId'') in
      case encode_uri_component i of
        None \<Rightarrow> throw (js ''URI malformed'')
      | Some enc \<Rightarrow>
          handle
            (bind (request e ep machine (claim_path enc) ''POST'' False) (\<lambda>p.
               if pget (unwrap_claim p) ''status'' = jlit ''CLAIMED'' then ret True
               else throw (js ''qoder_checkin_claim_unconfirmed'')))
            (\<lambda>err. bind (handle (list_campaigns e ep machine) (\<lambda>_. ret [])) (\<lambda>vs.
               if claim_status vs i = jlit ''CLAIMED'' then ret False else throw err)))"

definition add_claim :: "jsval \<Rightarrow> bool \<Rightarrow> tally \<Rightarrow> tally" where
  "add_claim c confirmed t =
     (let t' = (if confirmed then t\<lparr>t_confirmed := t_confirmed t + 1\<rparr> else t\<lparr>t_recovered := t_recovered t + 1\<rparr>) in
      case reward_from c of
        None \<Rightarrow> t'
      | Some q \<Rightarrow> t'\<lparr>t_has_reward := True, t_reward := t_reward t' + q\<rparr>)"

fun claim_all :: "env \<Rightarrow> jstr \<times> jstr \<Rightarrow> (string \<times> jsval) list \<Rightarrow> jsval list \<Rightarrow> tally \<Rightarrow> (event, tally) action" where
  "claim_all e ep machine [] t = ret t"
| "claim_all e ep machine (c # cs) t =
     bind (claim_one e ep machine c) (\<lambda>confirmed. claim_all e ep machine cs (add_claim c confirmed t))"

record checkin_result =
  co_status :: string
  co_message :: jstr
  co_reward :: "rat option"

text \<open>The messages of the source, in code units.\<close>

definition msg_not_open :: jstr where
  "msg_not_open = [0x7B7E, 0x5230, 0x6D3B, 0x52A8, 0x672A, 0x5F00, 0x653E]"

definition msg_already :: jstr where
  "msg_already = [0x4ECA, 0x65E5, 0x5DF2, 0x7B7E, 0x5230]"

definition msg_recovered :: jstr where
  "msg_recovered = [0x5DF2, 0x7B7E, 0x5230, 0xFF08, 0x590D, 0x67E5, 0x786E, 0x8BA4, 0xFF09]"

definition msg_success :: jstr where
  "msg_success = [0x7B7E, 0x5230, 0x6210, 0x529F]"

definition msg_credits :: jstr where
  "msg_credits = [0x20, 0x79EF, 0x5206]"

definition skipped :: checkin_result where
  "skipped = \<lparr>co_status = ''skipped'', co_message = msg_not_open, co_reward = None\<rparr>"

definition claimable :: "jsval list \<Rightarrow> jsval list" where
  "claimable vs = filter (\<lambda>v. pget v ''claimStatus'' = jlit ''CLAIMABLE'') (credit_campaigns vs)"

definition report :: "tally \<Rightarrow> jstr + checkin_result" where
  "report t =
     (if t_confirmed t = 0 \<and> t_recovered t = 0 then Inl (js ''qoder_checkin_claim_unconfirmed'')
      else if t_confirmed t = 0 then
        Inr \<lparr>co_status = ''already'', co_message = msg_recovered, co_reward = None\<rparr>
      else if t_has_reward t then
        Inr \<lparr>co_status = ''success'', co_message = msg_success @ js '' +'' @ num_to_str (Fin (t_reward t)) @ msg_credits,
             co_reward = Some (t_reward t)\<rparr>
      else Inr \<lparr>co_status = ''success'', co_message = msg_success, co_reward = None\<rparr>)"

definition no_claims :: tally where
  "no_claims = \<lparr>t_confirmed = 0, t_recovered = 0, t_reward = 0, t_has_reward = False\<rparr>"

text \<open>What follows a listing.\<close>

definition settle :: "env \<Rightarrow> jstr \<times> jstr \<Rightarrow> (string \<times> jsval) list \<Rightarrow> jsval list \<Rightarrow> (event, checkin_result) action" where
  "settle e ep machine vs =
     (if credit_campaigns vs = [] then ret skipped
      else if claimable vs = [] then
        (if list_ex (\<lambda>v. pget v ''claimStatus'' = jlit ''CLAIMED'') (credit_campaigns vs)
         then ret \<lparr>co_status = ''already'', co_message = msg_already, co_reward = None\<rparr>
         else ret skipped)
      else bind (claim_all e ep machine (claimable vs) no_claims) (\<lambda>t. lift_sum (report t)))"

definition campaigns_step :: "env \<Rightarrow> jstr \<times> jstr \<Rightarrow> (string \<times> jsval) list \<Rightarrow> (event, checkin_result) action" where
  "campaigns_step e ep machine =
     bind
       (handle (bind (list_campaigns e ep machine) (\<lambda>vs. ret (Some vs)))
          (\<lambda>err. if err = http_error 404 then ret None else throw err))
       (\<lambda>r. case r of None \<Rightarrow> ret skipped | Some vs \<Rightarrow> settle e ep machine vs)"

definition checkin :: "env \<Rightarrow> (event, checkin_result) action" where
  "checkin e =
     (case endpoint (env_region e) of
        None \<Rightarrow> throw (js ''qoder_checkin_region_unsupported'')
      | Some ep \<Rightarrow>
          if \<not> env_authenticated e then throw (js ''qoder_checkin_not_authenticated'')
          else if \<not> env_api e then throw (js ''qoder_checkin_auth_api_incompatible'')
          else bind (call (env_refresh e) Refresh) (\<lambda>r.
            case r of
              None \<Rightarrow> throw (js ''qoder_checkin_auth_refresh_failed'')
            | Some _ \<Rightarrow>
                bind (look (env_user e)) (\<lambda>user.
                  bind (machine_headers e user) (\<lambda>machine. campaigns_step e ep machine))))"


section \<open>Header values\<close>

text \<open>Whatever passes the header pattern is printable ASCII.\<close>

definition header_text :: "jstr \<Rightarrow> bool" where
  "header_text s \<longleftrightarrow> list_all (\<lambda>c. 0x20 \<le> c \<and> c \<le> 0x7E) s"

lemma printable_header_text: "rx_test False printable_header s \<Longrightarrow> header_text s"
  unfolding header_text_def
proof (rule anchored_match_within)
  show "rx_within (\<lambda>c. 0x20 \<le> c \<and> c \<le> 0x7E) (RSeq (RSet False [printable])
     (ROpt (RSeq (RStar (RSet False [CRange 0x20 0x7E])) (RSet False [printable]))))"
    by (auto simp: printable_def in_set_def word_le_nat_alt)
qed (simp add: printable_header_def)

lemma length_squash_dash: "length (squash p [45] s) \<le> length s"
proof (induction p "[45] :: jstr" s rule: squash.induct)
  case (2 p c s)
  then show ?case using length_dropWhile_le [of p s] by auto
qed simp

lemma length_drop_dashes_end: "length (drop_dashes_end s) \<le> length s"
  using length_dropWhile_le [of "\<lambda>c. c = 45" "rev s"] by (simp add: drop_dashes_end_def)

lemma header_value_text: "header_text (header_value v)"
  by (cases v) (auto simp: header_value_def Let_def header_text_def [of "[]"] intro: printable_header_text)

text \<open>
  No header value taken from outside can break out of its header: the values of the helper
  process and the machine identifier, and the host name, are empty (then the header is not sent) or
  printable ASCII without line breaks; the host name has at most 96 units.
\<close>

theorem header_values_safe:
  "header_text (header_value v) \<and> header_text (machine_hostname sha hostname)
     \<and> length (machine_hostname sha hostname) \<le> 96"
proof -
  have "header_text (header_value v)" by (rule header_value_text)
  moreover have "header_text (machine_hostname sha hostname)"
    by (cases hostname)
       (auto simp: machine_hostname_def Let_def header_text_def [of "[]"] intro: printable_header_text)
  moreover have "length (machine_hostname sha hostname) \<le> 96"
  proof (cases hostname)
    case (Some n)
    have "length (drop_dashes_end (take 87 safe @ js ''-'' @ take 8 d)) \<le> 96" for safe d
      by (rule le_trans [OF length_drop_dashes_end]) simp
    with Some show ?thesis by (simp add: machine_hostname_def Let_def)
  qed (simp add: machine_hostname_def)
  ultimately show ?thesis by simp
qed

section \<open>The trace of a request\<close>

text \<open>A request is sent once, or once more after the token was refreshed because of a 401.\<close>

definition request_trace :: "jstr \<Rightarrow> string \<Rightarrow> event list \<Rightarrow> bool" where
  "request_trace u m t \<longleftrightarrow>
     t = [] \<or> (\<exists>h. t = [Fetch u m h]) \<or> (\<exists>h. t = [Fetch u m h, ForceRefresh])
     \<or> (\<exists>h h'. t = [Fetch u m h, ForceRefresh, Fetch u m h'])"

definition accepted :: "env \<Rightarrow> jstr \<Rightarrow> string \<Rightarrow> jsval \<Rightarrow> event list \<Rightarrow> bool" where
  "accepted e u m p l \<longleftrightarrow>
     (\<exists>l' h resp. l = l' @ [Fetch u m h] \<and> env_fetch e l = Some resp \<and> rs_ok resp \<and> read_json resp = Inr p)"

lemma request_refreshed:
  assumes "request e ep machine path m True l = (r, l')"
  shows "(\<exists>t. l' = l @ t \<and> (t = [] \<or> (\<exists>h. t = [Fetch (fst ep @ path) m h])))
    \<and> (case r of Inl _ \<Rightarrow> True | Inr p \<Rightarrow> accepted e (fst ep @ path) m p l')"
  using assms
  by (subst (asm) request.simps)
     (auto simp: action_defs accepted_def split: option.splits if_splits sum.splits)

lemma request_runs:
  assumes "request e ep machine path m False l = (r, l')"
  shows "(\<exists>t. l' = l @ t \<and> request_trace (fst ep @ path) m t)
    \<and> (case r of Inl _ \<Rightarrow> True | Inr p \<Rightarrow> accepted e (fst ep @ path) m p l')"
proof (cases "bearer (env_user e l) = []")
  case True
  with assms show ?thesis
    by (subst (asm) request.simps) (auto simp: action_defs request_trace_def)
next
  case False
  define l1 where "l1 = l @ [Fetch (fst ep @ path) m (request_headers ep (bearer (env_user e l)) machine)]"
  have run: "request e ep machine path m False l =
      (case env_fetch e l1 of
         None \<Rightarrow> (Inl (js ''qoder_checkin_request_failed''), l1)
       | Some resp \<Rightarrow>
           if rs_status resp = 401 \<and> env_can_force e then
             (case env_force e (l1 @ [ForceRefresh]) of
                None \<Rightarrow> (Inl (js ''qoder_checkin_auth_refresh_failed''), l1 @ [ForceRefresh])
              | Some _ \<Rightarrow> request e ep machine path m True (l1 @ [ForceRefresh]))
           else if \<not> rs_ok resp then (Inl (http_error (rs_status resp)), l1)
           else (read_json resp, l1))"
    by (subst request.simps) (simp add: False action_defs l1_def split: option.split)
  show ?thesis
  proof (cases "\<exists>resp u. env_fetch e l1 = Some resp \<and> rs_status resp = 401 \<and> env_can_force e
        \<and> env_force e (l1 @ [ForceRefresh]) = Some u")
    case True
    with assms run have "request e ep machine path m True (l1 @ [ForceRefresh]) = (r, l')" by auto
    from request_refreshed [OF this] show ?thesis
      unfolding l1_def request_trace_def by auto
  next
    case again: False
    then have "l' = l1 \<or> l' = l1 @ [ForceRefresh]"
      using assms unfolding run by (auto split: option.splits if_splits)
    moreover have "case r of Inl _ \<Rightarrow> True | Inr p \<Rightarrow> accepted e (fst ep @ path) m p l'"
      using assms again unfolding run accepted_def l1_def
      by (auto split: option.splits if_splits sum.splits)
    ultimately show ?thesis unfolding l1_def request_trace_def by auto
  qed
qed

section \<open>The trace of a check-in\<close>

definition list_url :: "jstr \<times> jstr \<Rightarrow> jstr" where
  "list_url ep = fst ep @ js campaigns_path"

definition claim_url :: "jstr \<times> jstr \<Rightarrow> jsval \<Rightarrow> jstr" where
  "claim_url ep c = fst ep @ claim_path (the (encode_uri_component (campaign_id (pget c ''campaignId''))))"

fun claims_trace :: "jstr \<times> jstr \<Rightarrow> jsval list \<Rightarrow> event list \<Rightarrow> bool" where
  "claims_trace ep [] t \<longleftrightarrow> t = []"
| "claims_trace ep (c # cs) t \<longleftrightarrow>
     (\<exists>t1 t2 t3. t = t1 @ t2 @ t3 \<and> request_trace (claim_url ep c) ''POST'' t1
        \<and> request_trace (list_url ep) ''GET'' t2 \<and> claims_trace ep cs t3)"

lemma request_trace_Nil [simp]: "request_trace u m []"
  by (simp add: request_trace_def)

lemma claims_trace_Nil [simp]: "claims_trace ep cs []"
  by (induction cs) auto

lemma claims_trace_Cons:
  "request_trace (claim_url ep c) ''POST'' t1 \<Longrightarrow> request_trace (list_url ep) ''GET'' t2 \<Longrightarrow> claims_trace ep cs t3
     \<Longrightarrow> claims_trace ep (c # cs) (t1 @ t2 @ t3)"
  by auto

declare claims_trace.simps(2) [simp del]

fun posted :: "event \<Rightarrow> jstr list" where
  "posted (Fetch u m h) = (if m = ''POST'' then [u] else [])"
| "posted _ = []"

definition posts :: "event list \<Rightarrow> jstr list" where
  "posts l = concat (map posted l)"

fun is_fetch :: "event \<Rightarrow> bool" where
  "is_fetch (Fetch u m h) \<longleftrightarrow> True"
| "is_fetch _ \<longleftrightarrow> False"

definition fetches :: "event list \<Rightarrow> nat" where
  "fetches l = length (filter is_fetch l)"

lemma posts_append [simp]: "posts (a @ b) = posts a @ posts b" and posts_Nil [simp]: "posts [] = []"
    and fetches_append [simp]: "fetches (a @ b) = fetches a + fetches b" and fetches_Nil [simp]: "fetches [] = 0"
  by (simp_all add: posts_def fetches_def)

lemma request_trace_counts:
  "request_trace u m t \<Longrightarrow> fetches t \<le> 2"
  "request_trace u ''GET'' t \<Longrightarrow> posts t = []"
  "request_trace u m t \<Longrightarrow> set (posts t) \<subseteq> {u}"
  by (auto simp: request_trace_def posts_def fetches_def)

lemma claims_trace_counts:
  "claims_trace ep cs t \<Longrightarrow> fetches t \<le> 4 * length cs \<and> set (posts t) \<subseteq> claim_url ep ` set cs"
proof (induction cs arbitrary: t)
  case (Cons c cs)
  then obtain t1 t2 t3 where t: "t = t1 @ t2 @ t3" and one: "request_trace (claim_url ep c) ''POST'' t1"
    and again: "request_trace (list_url ep) ''GET'' t2" and rest: "claims_trace ep cs t3"
    by (auto simp: claims_trace.simps)
  show ?case
    using t Cons.IH [OF rest] request_trace_counts(1,3) [OF one] request_trace_counts(1,2) [OF again] by auto
qed simp

text \<open>A confirmed claim: a POST to its URL was answered with the status CLAIMED.\<close>

definition confirmed_at :: "env \<Rightarrow> jstr \<times> jstr \<Rightarrow> jsval \<Rightarrow> event list \<Rightarrow> bool" where
  "confirmed_at e ep c l \<longleftrightarrow>
     (\<exists>p. accepted e (claim_url ep c) ''POST'' p l \<and> pget (unwrap_claim p) ''status'' = jlit ''CLAIMED'')"

lemma list_campaigns_runs:
  "list_campaigns e ep machine l = (r, l') \<Longrightarrow> \<exists>t. l' = l @ t \<and> request_trace (list_url ep) ''GET'' t"
proof -
  assume run: "list_campaigns e ep machine l = (r, l')"
  obtain r1 l1 where first: "request e ep machine (js campaigns_path) ''GET'' False l = (r1, l1)" by fastforce
  with run have "l' = l1" by (auto simp: list_campaigns_def action_defs split: sum.splits)
  with request_runs [OF first] show ?thesis by (simp add: list_url_def)
qed

lemma claim_one_runs:
  assumes "claim_one e ep machine c l = (r, l')"
  shows "(\<exists>t1 t2. l' = l @ t1 @ t2 \<and> request_trace (claim_url ep c) ''POST'' t1
            \<and> request_trace (list_url ep) ''GET'' t2)
    \<and> (case r of Inl _ \<Rightarrow> True | Inr confirmed \<Rightarrow> confirmed \<longrightarrow> confirmed_at e ep c l')"
proof (cases "encode_uri_component (campaign_id (pget c ''campaignId''))")
  case None
  with assms have "l' = l" "\<exists>x. r = Inl x" by (auto simp: claim_one_def action_defs Let_def)
  then show ?thesis by auto
next
  case (Some enc)
  then have url: "claim_url ep c = fst ep @ claim_path enc" by (simp add: claim_url_def)
  obtain r1 l1 where post: "request e ep machine (claim_path enc) ''POST'' False l = (r1, l1)" by fastforce
  note runs = request_runs [OF post, folded url]
  obtain r2 l2 where again: "list_campaigns e ep machine l1 = (r2, l2)" by fastforce
  show ?thesis
  proof (cases "\<exists>p. r1 = Inr p \<and> pget (unwrap_claim p) ''status'' = jlit ''CLAIMED''")
    case True
    with assms Some post have "l' = l1" "r = Inr True" by (auto simp: claim_one_def action_defs Let_def)
    with runs True show ?thesis
      by (auto simp: confirmed_at_def) (metis append_Nil2 request_trace_Nil)
  next
    case False
    with assms Some post again have out: "l' = l2 \<and> r \<noteq> Inr True"
      by (auto simp: claim_one_def action_defs Let_def split: sum.splits if_splits)
    from runs obtain t1 where t1: "l1 = l @ t1" "request_trace (claim_url ep c) ''POST'' t1" by auto
    from list_campaigns_runs [OF again] obtain t2 where t2: "l2 = l1 @ t2" "request_trace (list_url ep) ''GET'' t2"
      by auto
    have "\<exists>t1 t2. l' = l @ t1 @ t2 \<and> request_trace (claim_url ep c) ''POST'' t1 \<and> request_trace (list_url ep) ''GET'' t2"
      using out t1 t2 by (intro exI [of _ t1] exI [of _ t2]) simp
    with out show ?thesis by (auto split: sum.split)
  qed
qed

lemma claim_all_runs:
  assumes "claim_all e ep machine cs t l = (r, l')"
  shows "\<exists>tr. l' = l @ tr \<and> claims_trace ep cs tr"
  using assms
proof (induction cs arbitrary: t l)
  case (Cons c cs)
  obtain r1 l1 where one: "claim_one e ep machine c l = (r1, l1)" by fastforce
  from claim_one_runs [OF this] obtain t1 t2 where
    l1: "l1 = l @ t1 @ t2" "request_trace (claim_url ep c) ''POST'' t1" "request_trace (list_url ep) ''GET'' t2"
    by auto
  show ?case
  proof (cases r1)
    case (Inl err)
    with Cons.prems one have "l' = l1" by (simp add: bind_def)
    with l1 show ?thesis 
      using claims_trace_Cons [OF l1(2,3) claims_trace_Nil] by (intro exI [of _ "t1 @ t2"]) simp
  next
    case (Inr b)
    with Cons.prems one have "claim_all e ep machine cs (add_claim c b t) l1 = (r, l')" by (simp add: bind_def)
    from Cons.IH [OF this] obtain t3 where "l' = l1 @ t3" "claims_trace ep cs t3" by auto
    with l1 claims_trace_Cons [OF l1(2,3)] show ?thesis by (intro exI [of _ "t1 @ t2 @ t3"]) simp
  qed
qed (simp add: ret_def)

text \<open>The reward is the sum over the claimed campaigns; a growing count has a confirmed claim.\<close>

definition amount :: "jsval \<Rightarrow> rat" where
  "amount c = (case reward_from c of None \<Rightarrow> 0 | Some q \<Rightarrow> q)"

definition total_reward :: "jsval list \<Rightarrow> rat option" where
  "total_reward cs = (if list_all (\<lambda>c. reward_from c = None) cs then None else Some (sum_list (map amount cs)))"

lemma add_claim_fields:
  "t_reward (add_claim c b t) = t_reward t + amount c"
  "t_has_reward (add_claim c b t) = (t_has_reward t \<or> reward_from c \<noteq> None)"
  "t_confirmed (add_claim c b t) = t_confirmed t + (if b then 1 else 0)"
  "t_recovered (add_claim c b t) = t_recovered t + (if b then 0 else 1)"
  by (auto simp: add_claim_def amount_def Let_def split: option.split)

lemma claim_all_tally:
  assumes "claim_all e ep machine cs t l = (Inr t', l')"
  shows "t_reward t' = t_reward t + sum_list (map amount cs)"
    and "t_has_reward t' = (t_has_reward t \<or> \<not> list_all (\<lambda>c. reward_from c = None) cs)"
    and "t_confirmed t' + t_recovered t' = t_confirmed t + t_recovered t + length cs"
    and "t_confirmed t' = t_confirmed t \<or> (\<exists>c \<in> set cs. \<exists>k. confirmed_at e ep c (take k l'))"
  using assms
proof (induction cs arbitrary: t l)
  case (Cons c cs)
  { case 1 then show ?case using Cons.IH(1) by (auto simp: bind_def add_claim_fields split: prod.splits sum.splits) }
  { case 2 then show ?case using Cons.IH(2) by (auto simp: bind_def add_claim_fields split: prod.splits sum.splits) }
  { case 3 then show ?case using Cons.IH(3) by (fastforce simp: bind_def add_claim_fields split: prod.splits sum.splits) }
  case 4
  obtain r1 l1 where one: "claim_one e ep machine c l = (r1, l1)" by fastforce
  with 4 obtain b where b: "r1 = Inr b" and rest: "claim_all e ep machine cs (add_claim c b t) l1 = (Inr t', l')"
    by (auto simp: bind_def split: sum.splits)
  show ?case
  proof (cases b)
    case True
    from claim_all_runs [OF rest] obtain tr where "l' = l1 @ tr" by auto
    with claim_one_runs [OF one] b True have "confirmed_at e ep c (take (length l1) l')" by simp
    then show ?thesis by auto
  next
    case False
    with Cons.IH(4) [OF rest] show ?thesis by (auto simp: add_claim_fields)
  qed
qed (auto simp: ret_def)

lemma machine_headers_quiet: "keeps (\<lambda>l. fetches l = 0) (machine_headers e user)"
proof -
  have events: "fetches [RiskIdentity x y] = 0" "fetches [MachineId] = 0" for x y
    by (simp_all add: fetches_def)
  show ?thesis
    unfolding machine_headers_def read_risk_identity_def Let_def
    by (intro keeping keeps_call) (simp_all add: events)
qed

lemma no_posts: "fetches l = 0 \<Longrightarrow> posts l = []"
proof -
  have "posted ev = []" if "\<not> is_fetch ev" for ev
    using that by (cases ev) auto
  then show "fetches l = 0 \<Longrightarrow> posts l = []"
    by (auto simp: fetches_def posts_def filter_empty_conv)
qed

text \<open>
  What a check-in did: nothing was fetched, or only the listing was (with a retry), or the campaigns
  the listing showed as claimable were worked through.
\<close>

definition listed :: "env \<Rightarrow> jstr \<times> jstr \<Rightarrow> jsval list \<Rightarrow> event list \<Rightarrow> bool" where
  "listed e ep vs l \<longleftrightarrow> endpoint (env_region e) = Some ep
     \<and> (\<exists>machine l0. list_campaigns e ep machine l0 = (Inr vs, l)) \<and> posts l = [] \<and> fetches l \<le> 2"

lemma settle_runs:
  assumes "settle e ep machine vs l = (r, l')"
  shows "\<exists>t. l' = l @ t \<and> claims_trace ep (claimable vs) t"
proof (cases "credit_campaigns vs = [] \<or> claimable vs = []")
  case True
  with assms have "l' = l" by (auto simp: settle_def ret_def split: if_splits)
  then show ?thesis by (intro exI [of _ "[]"]) simp
next
  case False
  obtain r1 l1 where all: "claim_all e ep machine (claimable vs) no_claims l = (r1, l1)" by fastforce
  with assms False have "l' = l1" by (auto simp: settle_def bind_def lift_sum_def split: sum.splits)
  with claim_all_runs [OF all] show ?thesis by simp
qed

lemma campaigns_step_runs:
  assumes "campaigns_step e ep machine l = (r, l')" and "endpoint (env_region e) = Some ep" and "fetches l = 0"
  shows "(posts l' = [] \<and> fetches l' \<le> 2 \<and> (r = Inr skipped \<or> (\<exists>err. r = Inl err)))
    \<or> (\<exists>vs l1. listed e ep vs l1 \<and> settle e ep machine vs l1 = (r, l'))"
proof -
  obtain r1 l1 where first: "list_campaigns e ep machine l = (r1, l1)" by fastforce
  from list_campaigns_runs [OF first] obtain t where t: "l1 = l @ t" "request_trace (list_url ep) ''GET'' t" by auto
  then have l1: "posts l1 = []" "fetches l1 \<le> 2"
    using request_trace_counts(1,2) [OF t(2)] no_posts [OF assms(3)] assms(3) by auto
  show ?thesis
  proof (cases r1)
    case (Inl err)
    with assms(1) first have "l' = l1 \<and> (r = Inr skipped \<or> (\<exists>err. r = Inl err))"
      by (auto simp: campaigns_step_def action_defs split: if_splits)
    with l1 show ?thesis by auto
  next
    case (Inr vs)
    with assms(1) first have "settle e ep machine vs l1 = (r, l')" by (auto simp: campaigns_step_def action_defs)
    with Inr first l1 assms(2) show ?thesis unfolding listed_def by blast
  qed
qed

lemma checkin_runs:
  assumes "checkin e [] = (r, l)"
  shows "(posts l = [] \<and> fetches l \<le> 2 \<and> (r = Inr skipped \<or> (\<exists>err. r = Inl err)))
    \<or> (\<exists>ep machine vs l1. listed e ep vs l1 \<and> settle e ep machine vs l1 = (r, l))"
proof -
  have start: "posts [Refresh] = []" "fetches [Refresh] = 0" by (simp_all add: posts_def fetches_def)
  consider (early) "l = [] \<or> l = [Refresh]" "\<exists>err. r = Inl err"
    | (run) ep machine l1 where "endpoint (env_region e) = Some ep"
        "machine_headers e (env_user e [Refresh]) [Refresh] = (Inr machine, l1)"
        "campaigns_step e ep machine l1 = (r, l)"
    | (failed) err where "machine_headers e (env_user e [Refresh]) [Refresh] = (Inl err, l)" "r = Inl err"
    using assms by (auto simp: checkin_def action_defs split: option.splits if_splits prod.splits sum.splits)
  then show ?thesis
  proof cases
    case early
    with start show ?thesis by auto
  next
    case run
    have "fetches l1 = 0" using keepsD [OF machine_headers_quiet _ run(2)] start by simp
    from campaigns_step_runs [OF run(3,1) this] show ?thesis by blast
  next
    case failed
    have "fetches l = 0" using keepsD [OF machine_headers_quiet _ failed(1)] start by simp
    with no_posts failed show ?thesis by auto
  qed
qed

section \<open>Properties\<close>

text \<open>
  C9: A check-in claims only what it saw. Either it sent no POST at all, or the server's listing was
  read first, and every POST goes to the claim URL of a credit campaign that listing showed as
  claimable. At most two requests read the listing and four are made for each claimable campaign
  (a claim and the look at the list after a failure, each once more after a 401).
\<close>

theorem checkin_claims_only_listed:
  "case checkin e [] of (r, l) \<Rightarrow>
     (posts l = [] \<and> fetches l \<le> 2)
     \<or> (\<exists>ep vs l1 t. listed e ep vs l1 \<and> l = l1 @ t \<and> claims_trace ep (claimable vs) t
          \<and> set (posts l) \<subseteq> claim_url ep ` set (claimable vs) \<and> fetches l \<le> 2 + 4 * length (claimable vs))"
proof (cases "checkin e []")
  case (Pair r l)
  show ?thesis
  proof (cases "posts l = [] \<and> fetches l \<le> 2")
    case False
    with checkin_runs [OF Pair] obtain ep machine vs l1 where
      list: "listed e ep vs l1" and settle: "settle e ep machine vs l1 = (r, l)" by auto
    from settle_runs [OF settle] obtain t where t: "l = l1 @ t" "claims_trace ep (claimable vs) t" by auto
    have "set (posts l) \<subseteq> claim_url ep ` set (claimable vs)" "fetches l \<le> 2 + 4 * length (claimable vs)"
      using list claims_trace_counts [OF t(2)] by (auto simp: t(1) listed_def)
    with list t have "\<exists>ep vs l1 t. listed e ep vs l1 \<and> l = l1 @ t \<and> claims_trace ep (claimable vs) t
        \<and> set (posts l) \<subseteq> claim_url ep ` set (claimable vs) \<and> fetches l \<le> 2 + 4 * length (claimable vs)"
      by blast
    with Pair show ?thesis by simp
  qed (simp add: Pair)
qed

text \<open>
  A reported success is one the server confirmed: some claim's POST was answered with the status
  CLAIMED, every campaign the listing showed as claimable was claimed, and the reported credits are
  the sum of their amounts (and absent when none of them states an amount).
\<close>

theorem checkin_success_confirmed:
  assumes "checkin e [] = (Inr res, l)" and "co_status res = ''success''"
  shows "\<exists>ep vs l1. listed e ep vs l1 \<and> claimable vs \<noteq> [] \<and> co_reward res = total_reward (claimable vs)
    \<and> (\<exists>c k. c \<in> set (claimable vs) \<and> confirmed_at e ep c (take k l))"
proof -
  from checkin_runs [OF assms(1)] assms(2) obtain ep machine vs l1 where
    list: "listed e ep vs l1" and settle: "settle e ep machine vs l1 = (Inr res, l)"
    by (auto simp: skipped_def)
  from settle assms(2) have some: "credit_campaigns vs \<noteq> []" "claimable vs \<noteq> []"
    by (auto simp: settle_def skipped_def ret_def split: if_splits)
  then obtain t l2 where all: "claim_all e ep machine (claimable vs) no_claims l1 = (Inr t, l2)"
    and rep: "report t = Inr res" "l2 = l"
    using settle by (auto simp: settle_def bind_def lift_sum_def split: prod.splits sum.splits)
  note tally = claim_all_tally [OF all]
  from rep(1) assms(2) have "t_confirmed t \<noteq> 0" and reward: "co_reward res = (if t_has_reward t then Some (t_reward t) else None)"
    by (auto simp: report_def split: if_splits)
  with tally(4) have "\<exists>c k. c \<in> set (claimable vs) \<and> confirmed_at e ep c (take k l)"
    by (auto simp: no_claims_def rep(2))
  moreover have "co_reward res = total_reward (claimable vs)"
    using reward tally(1,2) by (auto simp: total_reward_def no_claims_def)
  ultimately show ?thesis using list some by blast
qed

text \<open>
  A check-in of an account with one campaign of 100 credits: the listing is answered after a 401 and
  a refresh of the token, the claim at once.
\<close>

definition sample_json :: "(string \<times> jsval) list \<Rightarrow> response" where
  "sample_json fs = \<lparr>rs_status = 200, rs_body = Some ([utf8_encode (json_text (obj fs))], None)\<rparr>"

definition sample_campaign :: jsval where
  "sample_campaign = obj [(''campaignId'', jlit ''a/1''), (''actionType'', jlit ''CLAIM_BENEFIT''),
     (''claimStatus'', jlit ''CLAIMABLE''), (''benefit'', obj [(''kind'', jlit ''CREDITS''), (''amount'', jint 100)])]"

definition sample_env :: env where
  "sample_env = \<lparr>env_region = js ''cn'', env_authenticated = True, env_api = True, env_can_force = True,
     env_home = [], env_path_join = (\<lambda>a b. a @ b), env_readdir = (\<lambda>_. None), env_prepare = (\<lambda>_. None),
     env_arch = js ''x64'', env_platform = js ''linux'', env_sha256 = (\<lambda>s. s), env_hostname = None,
     env_machine_id = Undef, env_has_get_machine_id = False,
     env_user = (\<lambda>_. obj [(''access_token'', jlit ''t'')]), env_refresh = (\<lambda>_. Some ()), env_force = (\<lambda>_. Some ()),
     env_risk = (\<lambda>_. None), env_get_machine_id = (\<lambda>_. None),
     env_fetch = (\<lambda>l. if length l = 2 then Some \<lparr>rs_status = 401, rs_body = None\<rparr>
       else if length l = 4 then Some (sample_json [(''campaigns'', JArr [sample_campaign])])
       else Some (sample_json [(''status'', jlit ''CLAIMED'')]))\<rparr>"

definition sample_outcome :: checkin_result where
  "sample_outcome = \<lparr>co_status = ''success'', co_message = msg_success @ js '' +100'' @ msg_credits, co_reward = Some 100\<rparr>"

lemma sample_checkin: "fst (checkin sample_env []) = Inr sample_outcome"
  by code_simp

theorem checkin_success_confirmed_witness:
  "\<exists>ep vs l1. listed sample_env ep vs l1 \<and> claimable vs \<noteq> [] \<and> co_reward sample_outcome = total_reward (claimable vs)
    \<and> (\<exists>c k. c \<in> set (claimable vs) \<and> confirmed_at sample_env ep c (take k (snd (checkin sample_env []))))"
  by (rule checkin_success_confirmed)
     (simp_all add: sample_checkin [symmetric] prod_eq_iff, simp add: sample_checkin sample_outcome_def)

text \<open>
  The identity of the machine is sent completely or not at all, as the comment in the source
  asks for: preparing the headers never fails, and either there are none, or token, type and code
  are all there, not empty and printable.
\<close>

theorem machine_identity_complete:
  "case fst (machine_headers e user l) of
     Inl err \<Rightarrow> False
   | Inr hs \<Rightarrow> hs = [] \<or>
       list_all (\<lambda>k. \<exists>s. map_of hs k = Some (JStr s) \<and> s \<noteq> [] \<and> header_text s)
         [''Cosy-MachineToken'', ''Cosy-MachineType'', ''Cosy-MachineCode'']"
proof -
  have ok: "id_token i \<noteq> [] \<and> header_text (id_token i) \<and> id_type i \<noteq> [] \<and> header_text (id_type i)
      \<and> id_code i \<noteq> [] \<and> header_text (id_code i)" if "child_outcome out es = Some (Some i)" for out es i
    using that header_value_text
    by (induction out es rule: child_outcome.induct)
       (auto simp: identity_of_output_def Let_def split: if_splits option.splits)
  have fields: "list_all (\<lambda>k. \<exists>s. map_of (identity_fields e i mid) k = Some (JStr s) \<and> s \<noteq> [] \<and> header_text s)
      [''Cosy-MachineToken'', ''Cosy-MachineType'', ''Cosy-MachineCode'']"
    if "child_outcome out es = Some (Some i)" for out es i mid
    using ok [OF that] by (auto simp: identity_fields_def Let_def)
  show ?thesis
    using fields
    by (auto simp: machine_headers_def read_risk_identity_def action_defs Let_def split: option.splits)
qed

end
