(* ===== verification/Worker_Compat.thy ===== *)
theory Worker_Compat
  imports Js_Utf8 Js_Json Js_Regex
begin

text \<open>
  The patching of the Qoder CLI bundle: \<open>worker/src/compat.mjs\<close> looks for fixed pieces of code (the
  needles), reports whether the bundle can be hooked and inserts the hooks; \<open>rewrite-loader.mjs\<close> does
  it while the module is loaded.

  \<open>replace_first\<close> is \<open>String.prototype.replace\<close> with a string pattern. None of the replacement texts
  has a dollar sign, so they are inserted as they are (\<open>no_dollar\<close>).
\<close>

section \<open>Definitions\<close>

definition pinned_version :: string where
  "pinned_version = ''1.1.32''"

definition needle_prepare :: string where
  "needle_prepare = ''prepareInferRequest(A,e,t,i){''"

definition needle_wasm :: string where
  "needle_wasm = ''async createWasmContext(){let A=await Ki();this.machineId||(this.machineId=await this.getMachineId()),HlA(this.machineId,A,JSON.stringify(this.getUserInfoForAuth()))}''"

definition needle_catalog :: string where
  "needle_catalog = ''function kn(){return r9e||(r9e=new o9e),r9e}''"

definition needle_quota :: string where
  "needle_quota = ''function zf(){return B_t||(B_t=new nw(_e())),B_t}function tAe(){c4e.clear(),nFA.clear()}''"

definition needle_auth :: string where
  "needle_auth = ''getUserInfo(){return this.cachedUserInfo}''"

definition needle_main :: string where
  "needle_main = ''async function QNu(){let{main:A}=await Promise.resolve().then(()=>(Uds(),Fds));await A()}''"

definition mark_injected :: string where "mark_injected = ''__QODER_WORKER_INJECTED__''"
definition mark_catalog :: string where "mark_catalog = ''__QODER_WORKER_MODEL_CATALOG__''"
definition mark_quota :: string where "mark_quota = ''__QODER_WORKER_QUOTA_API__''"
definition mark_main :: string where "mark_main = ''__QODER_WORKER_SKIP_MAIN__''"

definition has :: "string \<Rightarrow> jstr \<Rightarrow> bool" where
  "has p s \<longleftrightarrow> contains (js p) s"

definition marked :: "jstr \<Rightarrow> bool" where
  "marked t \<longleftrightarrow> has mark_injected t \<and> has mark_catalog t \<and> has mark_quota t"

record report =
  rp_ok :: bool
  rp_already :: bool
  rp_prepare :: bool
  rp_wasm :: bool
  rp_catalog :: bool
  rp_quota :: bool
  rp_auth :: bool
  rp_main :: bool
  rp_main_patched :: bool
  rp_version :: jstr
  rp_message :: jstr

text \<open>A missing version is the empty string.\<close>

definition compat_message :: "bool \<Rightarrow> jstr \<Rightarrow> jstr" where
  "compat_message ok version =
     (if ok then js ''qodercli hooks compatible'' @ (if version \<noteq> [] then js '' ('' @ version @ js '')'' else [])
      else js ''incompatible qodercli source: missing WASM/catalog/quota/auth needles (pinned '' @ js pinned_version
           @ (if version \<noteq> [] then js '', found '' @ version else []) @ js ''). Pin @qoder-ai/qodercli@'' @ js pinned_version
           @ js '' or @qodercn-ai/qoderclicn@'' @ js pinned_version @ js '', or update worker/src/compat.mjs.'')"

definition inspect_source :: "jstr \<Rightarrow> jstr \<Rightarrow> report" where
  "inspect_source version t =
     (let already = marked t;
          prepare = already \<or> has needle_prepare t;
          wasm = already \<or> has needle_wasm t;
          catalog = already \<or> has needle_catalog t;
          quota = already \<or> has needle_quota t;
          auth = has needle_auth t;
          main = already \<or> has needle_main t;
          ok = auth \<and> (already \<or> (prepare \<and> wasm \<and> catalog \<and> quota)) in
      \<lparr>rp_ok = ok, rp_already = already, rp_prepare = prepare, rp_wasm = wasm, rp_catalog = catalog, rp_quota = quota,
       rp_auth = auth, rp_main = main, rp_main_patched = already \<and> has mark_main t, rp_version = version,
       rp_message = compat_message ok version\<rparr>)"

fun replace_first :: "jstr \<Rightarrow> jstr \<Rightarrow> jstr \<Rightarrow> jstr" where
  "replace_first p r [] = (if p = [] then r else [])"
| "replace_first p r (c # s) =
     (if starts_with p (c # s) then r @ drop (length p) (c # s) else c # replace_first p r s)"

definition hook_prepare :: string where
  "hook_prepare = ''prepareInferRequest(A,e,t,i){ /* __QODER_WORKER_INJECTED__ */ try{ if(typeof globalThis.__qoderWorkerOnPrepareInfer==='function'){ globalThis.__qoderWorkerOnPrepareInfer(this,A,e,t,i); } }catch(_e){} ''"

definition hook_wasm :: string where
  "hook_wasm = ''async createWasmContext(){ /* __QODER_WORKER_INJECTED__ */ try{ globalThis.__qoderAuthManager=this; }catch(_e){} let A=await Ki();this.machineId||(this.machineId=await this.getMachineId()); const __ctx=HlA(this.machineId,A,JSON.stringify(this.getUserInfoForAuth())); try{ if(typeof globalThis.__qoderWorkerAdoptContext==='function'){ globalThis.__qoderWorkerAdoptContext(__ctx,this); } }catch(_e2){} }''"

definition hook_catalog :: string where
  "hook_catalog = ''function kn(){return r9e||(r9e=new o9e),r9e} /* __QODER_WORKER_MODEL_CATALOG__ */ try{globalThis.__qoderWorkerGetModelCatalog=()=>{ph();return kn()}}catch(_e){}''"

definition hook_quota :: string where
  "hook_quota = ''function zf(){return B_t||(B_t=new nw(_e())),B_t}function tAe(){c4e.clear(),nFA.clear()} /* __QODER_WORKER_QUOTA_API__ */ try{globalThis.__qoderWorkerGetQuotaApi=()=>{o5();return zf()}}catch(_e){}''"

definition hook_main :: string where
  "hook_main = ''async function QNu(){ /* __QODER_WORKER_INJECTED__ __QODER_WORKER_SKIP_MAIN__ */ if(typeof globalThis.__qoderWorkerBoot==='function'){ const {getQoderAuthManager}=await Promise.resolve().then(()=>(Ul(),D3A)); const {initializeQoderRuntime}=await Promise.resolve().then(()=>(eG(),FeA)); return globalThis.__qoderWorkerBoot({getQoderAuthManager,initializeQoderRuntime}); } let{main:A}=await Promise.resolve().then(()=>(Uds(),Fds));await A()}''"

definition hook :: "string \<Rightarrow> string \<Rightarrow> jstr \<Rightarrow> jstr" where
  "hook needle text t = replace_first (js needle) (js text) t"

definition insert_hooks :: "jstr \<Rightarrow> jstr" where
  "insert_hooks t =
     (let next = hook needle_quota hook_quota (hook needle_catalog hook_catalog
                  (hook needle_wasm hook_wasm (hook needle_prepare hook_prepare t))) in
      if has needle_main next then hook needle_main hook_main next else next)"

definition patch_source :: "jstr \<Rightarrow> jstr \<Rightarrow> jstr + jstr" where
  "patch_source version t =
     (if marked t \<and> has needle_auth t then Inr t
      else (let r = inspect_source version t in if \<not> rp_ok r then Inl (rp_message r) else Inr (insert_hooks t)))"

text \<open>
  \<open>readQodercliVersion\<close>: the first of the two package files that can be read, is JSON and names
  the package or has a version. The texts of the files are the argument.
\<close>

fun read_version :: "jstr option list \<Rightarrow> jstr option" where
  "read_version [] = None"
| "read_version (f # fs) =
     (case Option.bind f json_parse of
        None \<Rightarrow> read_version fs
      | Some v \<Rightarrow>
          if pget v ''name'' = jlit ''@qoder-ai/qodercli'' \<or> pget v ''name'' = jlit ''@qodercn-ai/qoderclicn''
             \<or> truthy (pget v ''version'')
          then Some (to_string (js_or (pget v ''version'') (JStr [])))
          else read_version fs)"

subsection \<open>The loader\<close>

definition hex_digit :: "u16 \<Rightarrow> int option" where
  "hex_digit c = (if radix_digit c < 16 then Some (radix_digit c) else None)"

text \<open>\<open>decodeURIComponent\<close>: runs of escapes are decoded as UTF-8; \<open>None\<close> is a \<open>URIError\<close>.\<close>

fun escape_byte :: "jstr \<Rightarrow> (byte \<times> jstr) option" where
  "escape_byte (p # h # l # s) =
     (if p = 37 then
        (case (hex_digit h, hex_digit l) of
           (Some a, Some b) \<Rightarrow> Some (word_of_int (16 * a + b), s)
         | _ \<Rightarrow> None)
      else None)"
| "escape_byte _ = None"

lemma escape_byte_length: "escape_byte s = Some (b, r) \<Longrightarrow> length r < length s"
  by (cases s rule: escape_byte.cases) (simp_all split: if_splits option.splits)

function escape_run :: "jstr \<Rightarrow> byte list \<times> jstr" where
  "escape_run s = (case escape_byte s of None \<Rightarrow> ([], s) | Some (b, r) \<Rightarrow> apfst ((#) b) (escape_run r))"
  by pat_completeness auto
termination by (relation "measure length") (simp_all, metis escape_byte_length)

declare escape_run.simps [simp del]

lemma escape_run_None: "escape_byte s = None \<Longrightarrow> escape_run s = ([], s)"
  by (subst escape_run.simps) simp

lemma escape_run_Some: "escape_byte s = Some (b, r) \<Longrightarrow> escape_run s = (b # fst (escape_run r), snd (escape_run r))"
  by (subst escape_run.simps) (simp add: apfst_def map_prod_def split_beta)

lemma escape_run_length: "length (snd (escape_run s)) \<le> length s"
proof (induction "length s" arbitrary: s rule: less_induct)
  case less
  show ?case
  proof (cases "escape_byte s")
    case None
    then show ?thesis by (simp add: escape_run_None)
  next
    case (Some x)
    obtain b r where "x = (b, r)" by fastforce
    with Some have s: "escape_byte s = Some (b, r)" by simp
    from less [OF escape_byte_length [OF s]] escape_byte_length [OF s] show ?thesis
      by (simp add: escape_run_Some [OF s])
  qed
qed

function utf8_strict :: "byte list \<Rightarrow> jstr option" where
  "utf8_strict [] = Some []"
| "utf8_strict (b # bs) =
     (case utf8_point b bs of
        (None, r) \<Rightarrow> None
      | (Some p, r) \<Rightarrow> map_option ((@) (point_units p)) (utf8_strict r))"
  by pat_completeness auto
termination
  by (relation "measure length") (auto dest!: utf8_point_length [OF sym])

function decode_uri_component :: "jstr \<Rightarrow> jstr option" where
  "decode_uri_component [] = Some []"
| "decode_uri_component (c # s) =
     (if c \<noteq> 37 then map_option ((#) c) (decode_uri_component s)
      else (case escape_byte (c # s) of
              None \<Rightarrow> None
            | Some (b, r) \<Rightarrow>
                (case utf8_strict (b # fst (escape_run r)) of
                   None \<Rightarrow> None
                 | Some t \<Rightarrow> map_option ((@) t) (decode_uri_component (snd (escape_run r))))))"
  by pat_completeness auto
termination
proof (relation "measure length", goal_cases)
  case (3 c s x b r y)
  then show ?case using escape_byte_length [of "c # s" b r] escape_run_length [of r] by auto
qed auto

text \<open>
  \<open>load\<close>: \<open>format\<close> and \<open>source\<close> are what the next loader gave (\<open>source\<close> is \<open>None\<close> when it is neither
  text nor bytes); the result is the new source, \<open>None\<close> when the module is passed on unchanged.
\<close>

definition bundle_file :: "jstr \<Rightarrow> jstr option" where
  "bundle_file url =
     decode_uri_component (last (split_on 47 (takeWhile (\<lambda>c. c \<noteq> 63 \<and> c \<noteq> 35) url)))"

definition load_module ::
    "(jstr \<Rightarrow> jstr option list) \<Rightarrow> jstr \<Rightarrow> jstr \<Rightarrow> jstr option \<Rightarrow> jstr + jstr option" where
  "load_module package_files url format source =
     (case bundle_file url of
        None \<Rightarrow> Inl (js ''URI malformed'')
      | Some file \<Rightarrow>
          if (file \<noteq> js ''qodercli.js'' \<and> file \<noteq> js ''qoderclicn.js'') \<or> format \<noteq> js ''module'' then Inr None
          else (case source of
                  None \<Rightarrow> Inr None
                | Some text \<Rightarrow>
                    (case patch_source (case read_version (package_files url) of None \<Rightarrow> [] | Some v \<Rightarrow> v) text of
                       Inl err \<Rightarrow> Inl err
                     | Inr patched \<Rightarrow> Inr (Some patched))))"


section \<open>Occurrences\<close>

text \<open>
  Two texts clash when one occurs in the other or an end of one is a beginning of the other. A
  replacement keeps every text that does not clash with what it replaces.
\<close>

fun overlaps :: "'a list \<Rightarrow> 'a list \<Rightarrow> bool" where
  "overlaps [] y \<longleftrightarrow> False"
| "overlaps (c # x) y \<longleftrightarrow> prefix (c # x) y \<or> overlaps x y"

definition clash :: "'a list \<Rightarrow> 'a list \<Rightarrow> bool" where
  "clash x y \<longleftrightarrow> sublist x y \<or> sublist y x \<or> overlaps x y \<or> overlaps y x"

lemma overlapsI: "b \<noteq> [] \<Longrightarrow> overlaps (a @ b) (b @ c)"
proof (induction a)
  case Nil
  then show ?case by (cases b) auto
qed simp

lemma overlapsD: "overlaps x y \<Longrightarrow> \<exists>a b c. b \<noteq> [] \<and> x = a @ b \<and> y = b @ c"
proof (induction x)
  case (Cons d x)
  show ?case
  proof (cases "prefix (d # x) y")
    case True
    then obtain c where "y = (d # x) @ c" by (auto simp: prefix_def)
    then show ?thesis by (intro exI [of _ "[]"] exI [of _ "d # x"] exI [of _ c]) simp
  next
    case False
    with Cons obtain a b c where "b \<noteq> []" "x = a @ b" "y = b @ c" by auto
    then show ?thesis by (intro exI [of _ "d # a"] exI [of _ b] exI [of _ c]) simp
  qed
qed simp

lemma js_split: "js y = u @ v \<longleftrightarrow> (\<exists>u' v'. y = u' @ v' \<and> u = js u' \<and> v = js v')"
  by (auto simp: js_def map_eq_append_conv)

lemma sublist_js: "sublist (js x) (js y) \<longleftrightarrow> sublist x y"
proof
  assume "sublist (js x) (js y)"
  then obtain a b where "js y = a @ js x @ b" by (auto simp: sublist_def)
  then obtain y1 y2 where y: "y = y1 @ y2" "js x @ b = js y2" by (auto simp: js_split)
  from y(2) [symmetric] obtain y3 where "y2 = x @ y3" by (auto simp: js_split)
  with y show "sublist x y" by (auto simp: sublist_def)
next
  assume "sublist x y"
  then obtain a b where "js y = js a @ js x @ js b" by (auto simp: sublist_def)
  then show "sublist (js x) (js y)" unfolding sublist_def by blast
qed

lemma overlaps_js: "overlaps (js x) (js y) \<Longrightarrow> overlaps x y"
proof -
  assume "overlaps (js x) (js y)"
  then obtain a b c where "b \<noteq> []" "js x = a @ b" "js y = b @ c" using overlapsD by blast
  then obtain x1 x2 y2 where "x = x1 @ x2" "b = js x2" "y = x2 @ y2" by (auto simp: js_split)
  with \<open>b \<noteq> []\<close> show "overlaps x y" by (auto intro: overlapsI)
qed

lemma clash_js: "clash (js x) (js y) \<Longrightarrow> clash x y"
  by (auto simp: clash_def sublist_js dest: overlaps_js)

lemma contains_sublist: "contains p s \<longleftrightarrow> sublist p s"
  by (auto simp: contains_iff sublist_def)

lemma prefix_clash: "w' \<noteq> [] \<Longrightarrow> p = w @ w' \<Longrightarrow> w' @ b = y @ v \<Longrightarrow> clash p y"
proof -
  assume w: "w' \<noteq> []" "p = w @ w'" and eq: "w' @ b = y @ v"
  from eq have "prefix w' y \<or> prefix y w'" by (metis prefixI prefix_same_cases)
  then show "clash p y"
  proof
    assume "prefix w' y"
    with w show ?thesis by (auto simp: clash_def prefix_def intro: overlapsI)
  next
    assume "prefix y w'"
    with w show ?thesis by (auto simp: clash_def prefix_def sublist_def)
  qed
qed

lemma contains_split:
  assumes "contains y (a @ p @ b)" and "\<not> clash p y"
  shows "contains y a \<or> contains y b"
proof -
  from assms(1) obtain u v where eq: "a @ p @ b = u @ y @ v" by (auto simp: contains_iff)
  have sym: "clash y p \<Longrightarrow> clash p y" by (auto simp: clash_def)
  obtain w where "a = u @ w \<and> w @ p @ b = y @ v \<or> a @ w = u \<and> p @ b = w @ y @ v"
    using eq unfolding append_eq_append_conv2 [of a "p @ b" u "y @ v"] by blast
  then consider (left) "u = a @ w" "p @ b = w @ y @ v" | (right) "w \<noteq> []" "a = u @ w" "w @ p @ b = y @ v"
    by (cases "w = []") auto
  then show ?thesis
  proof cases
    case left
    obtain w' where "p = w @ w' \<and> w' @ b = y @ v \<or> p @ w' = w \<and> b = w' @ y @ v"
      using left(2) unfolding append_eq_append_conv2 [of p b w "y @ v"] by blast
    then consider (in_b) "b = w' @ y @ v" | (cut) "w' \<noteq> []" "p = w @ w'" "w' @ b = y @ v"
      by (cases "w' = []") auto
    then show ?thesis
    proof cases
      case in_b
      then show ?thesis by (auto simp: contains_iff)
    next
      case cut
      from prefix_clash [OF this] assms(2) show ?thesis by simp
    qed
  next
    case right
    obtain w' where "w = y @ w' \<and> w' @ p @ b = v \<or> w @ w' = y \<and> p @ b = w' @ v"
      using right(3) unfolding append_eq_append_conv2 [of w "p @ b" y v] by blast
    then consider (in_a) "w = y @ w'" | (cut) "w' \<noteq> []" "y = w @ w'" "w' @ v = p @ b"
      by (cases "w' = []") auto
    then show ?thesis
    proof cases
      case in_a
      with right show ?thesis by (auto simp: contains_iff)
    next
      case cut
      from prefix_clash [OF this] sym assms(2) show ?thesis by simp
    qed
  qed
qed

lemma replace_first_cases:
  "(\<exists>a b. s = a @ p @ b \<and> replace_first p r s = a @ r @ b) \<or> (\<not> contains p s \<and> replace_first p r s = s)"
proof (induction p r s rule: replace_first.induct)
  case (2 p r c s)
  show ?case
  proof (cases "starts_with p (c # s)")
    case True
    then obtain t where "c # s = p @ t" by (auto simp: starts_with_append)
    moreover have "replace_first p r (c # s) = r @ drop (length p) (c # s)" using True by simp
    ultimately have "c # s = [] @ p @ t" "replace_first p r (c # s) = [] @ r @ t" by simp_all
    then show ?thesis by blast
  next
    case False
    from 2 [OF this] show ?thesis
    proof
      assume "\<exists>a b. s = a @ p @ b \<and> replace_first p r s = a @ r @ b"
      then obtain a b where "s = a @ p @ b" "replace_first p r s = a @ r @ b" by auto
      with False show ?thesis by (intro disjI1 exI [of _ "c # a"] exI [of _ b]) simp
    qed (use False in auto)
  qed
qed auto

lemma has_hook_keeps: "has y t \<Longrightarrow> \<not> clash p y \<Longrightarrow> has y (hook p r t)"
proof -
  assume y: "has y t" and "\<not> clash p y"
  then have apart: "\<not> clash (js p) (js y)" using clash_js by blast
  from replace_first_cases [of t "js p" "js r"] show ?thesis
  proof
    assume "\<exists>a b. t = a @ js p @ b \<and> replace_first (js p) (js r) t = a @ js r @ b"
    then obtain a b where t: "t = a @ js p @ b" "hook p r t = a @ js r @ b" by (auto simp: hook_def)
    from contains_split [OF _ apart, of a b] y t(1) have "contains (js y) a \<or> contains (js y) b"
      by (simp add: has_def)
    then show ?thesis by (auto simp: has_def t(2) contains_append1 contains_append2)
  qed (use y in \<open>simp add: hook_def\<close>)
qed

lemma has_hook_new: "has p t \<Longrightarrow> sublist y r \<Longrightarrow> has y (hook p r t)"
proof -
  assume "has p t" and y: "sublist y r"
  then obtain a b where "hook p r t = a @ js r @ b"
    using replace_first_cases [of t "js p" "js r"] by (auto simp: has_def hook_def)
  moreover have "contains (js y) (js r)"
    using y by (simp add: contains_sublist sublist_js)
  ultimately show ?thesis by (simp add: has_def contains_append1 contains_append2)
qed

section \<open>The needles and the hooks\<close>

definition hook_calls :: "string list" where
  "hook_calls = [''globalThis.__qoderWorkerOnPrepareInfer(this,A,e,t,i)'', ''globalThis.__qoderWorkerAdoptContext(__ctx,this)'',
     ''globalThis.__qoderWorkerGetModelCatalog=()=>{ph();return kn()}'', ''globalThis.__qoderWorkerGetQuotaApi=()=>{o5();return zf()}'']"

lemma no_dollar: "list_all (\<lambda>t. CHR ''$'' \<notin> set t) [hook_prepare, hook_wasm, hook_catalog, hook_quota, hook_main]"
  by code_simp

lemma needles_apart:
  "list_all (\<lambda>(p, ys). list_all (\<lambda>y. \<not> clash p y) ys)
    [(needle_prepare, [needle_wasm, needle_catalog, needle_quota, needle_auth, needle_main]),
     (needle_wasm, [needle_catalog, needle_quota, needle_auth, needle_main]),
     (needle_catalog, [needle_quota, needle_auth, needle_main]),
     (needle_quota, [needle_auth, needle_main]),
     (needle_main, [needle_auth])]"
  by code_simp

lemma marks_apart:
  "list_all (\<lambda>x. list_all (\<lambda>y. \<not> clash x y) ([mark_injected, mark_catalog, mark_quota, mark_main] @ hook_calls))
    [needle_prepare, needle_wasm, needle_catalog, needle_quota, needle_main]"
  by code_simp

lemma hooks_mark:
  "sublist mark_injected hook_prepare" "sublist mark_catalog hook_catalog" "sublist mark_quota hook_quota"
  "sublist mark_main hook_main"
  "sublist (hook_calls ! 0) hook_prepare" "sublist (hook_calls ! 1) hook_wasm"
  "sublist (hook_calls ! 2) hook_catalog" "sublist (hook_calls ! 3) hook_quota"
  by code_simp+

lemma hook_call_indices: "i < 4 \<Longrightarrow> hook_calls ! i \<in> set hook_calls"
  by (rule nth_mem) (simp add: hook_calls_def)

lemmas apart = needles_apart [simplified] marks_apart [unfolded list_all_iff, simplified]

text \<open>
  The four replacements that are always made: the markers, the hooks and the auth needle are in the
  result, and the main needle is there when it was there before.
\<close>

definition four_hooks :: "jstr \<Rightarrow> jstr" where
  "four_hooks t = hook needle_quota hook_quota (hook needle_catalog hook_catalog
     (hook needle_wasm hook_wasm (hook needle_prepare hook_prepare t)))"

definition hookable :: "jstr \<Rightarrow> bool" where
  "hookable t \<longleftrightarrow> has needle_prepare t \<and> has needle_wasm t \<and> has needle_catalog t \<and> has needle_quota t \<and> has needle_auth t"

lemma four_hooks_marks:
  assumes "hookable t"
  shows "marked (four_hooks t)" "has needle_auth (four_hooks t)"
    "list_all (\<lambda>c. has c (four_hooks t)) hook_calls"
    "has needle_main t \<Longrightarrow> has needle_main (four_hooks t)"
proof -
  note new = has_hook_new and keeps = has_hook_keeps
  define t1 where "t1 = hook needle_prepare hook_prepare t"
  define t2 where "t2 = hook needle_wasm hook_wasm t1"
  define t3 where "t3 = hook needle_catalog hook_catalog t2"
  have four: "four_hooks t = hook needle_quota hook_quota t3" by (simp add: four_hooks_def t1_def t2_def t3_def)
  have needles: "has needle_wasm t1" "has needle_catalog t2" "has needle_quota t3"
    using assms apart by (simp_all add: hookable_def t1_def t2_def t3_def keeps)
  have t1: "has mark_injected t1" "has (hook_calls ! 0) t1"
    using assms new [OF _ hooks_mark(1)] new [OF _ hooks_mark(5)] by (simp_all add: hookable_def t1_def)
  have t2: "has mark_injected t2" "has (hook_calls ! 0) t2" "has (hook_calls ! 1) t2"
    using t1 needles(1) new [OF _ hooks_mark(6)] apart hook_call_indices by (simp_all add: t2_def keeps)
  have t3: "has mark_injected t3" "has (hook_calls ! 0) t3" "has (hook_calls ! 1) t3" "has (hook_calls ! 2) t3" "has mark_catalog t3"
    using t2 needles(2) new [OF _ hooks_mark(7)] new [OF _ hooks_mark(2)] apart hook_call_indices by (simp_all add: t3_def keeps)
  have t4: "has mark_injected (four_hooks t)" "has mark_catalog (four_hooks t)" "has mark_quota (four_hooks t)"
    "has (hook_calls ! 0) (four_hooks t)" "has (hook_calls ! 1) (four_hooks t)" "has (hook_calls ! 2) (four_hooks t)"
    "has (hook_calls ! 3) (four_hooks t)"
    using t3 needles(3) new [OF _ hooks_mark(3)] new [OF _ hooks_mark(8)] apart hook_call_indices
    by (simp_all add: four keeps)
  show "marked (four_hooks t)" using t4 by (simp add: marked_def)
  show "has needle_auth (four_hooks t)"
    using assms apart by (simp add: hookable_def four_hooks_def keeps)
  show "has needle_main t \<Longrightarrow> has needle_main (four_hooks t)"
    using apart by (simp add: four_hooks_def keeps)
  show "list_all (\<lambda>c. has c (four_hooks t)) hook_calls"
    using t4 by (simp add: hook_calls_def)
qed

lemma insert_hooks_marks:
  assumes "hookable t"
  shows "marked (insert_hooks t)" "has needle_auth (insert_hooks t)"
    "list_all (\<lambda>c. has c (insert_hooks t)) hook_calls"
    "has needle_main t \<Longrightarrow> has mark_main (insert_hooks t)"
proof -
  have four: "insert_hooks t = (if has needle_main (four_hooks t) then hook needle_main hook_main (four_hooks t) else four_hooks t)"
    by (simp add: insert_hooks_def four_hooks_def Let_def)
  have keep: "has y (insert_hooks t)" if "has y (four_hooks t)" "\<not> clash needle_main y" for y
    using that by (simp add: four has_hook_keeps)
  show "marked (insert_hooks t)" "has needle_auth (insert_hooks t)"
    using four_hooks_marks [OF assms] apart by (simp_all add: marked_def keep)
  show "list_all (\<lambda>c. has c (insert_hooks t)) hook_calls"
    using four_hooks_marks(3) [OF assms] apart by (auto simp: list_all_iff intro!: keep)
  show "has needle_main t \<Longrightarrow> has mark_main (insert_hooks t)"
    using four_hooks_marks(4) [OF assms] has_hook_new [OF _ hooks_mark(4)] by (simp add: four)
qed

lemma patch_source_cases:
  "patch_source v t =
     (if marked t \<and> has needle_auth t then Inr t
      else if hookable t then Inr (insert_hooks t) else Inl (compat_message False v))"
  by (auto simp: patch_source_def inspect_source_def hookable_def Let_def)

section \<open>Properties\<close>

text \<open>
  C22: A bundle is patched exactly when the report calls it compatible, and the patch is complete:
  the result passes the inspection as already patched, keeps the auth accessor the check-in needs,
  and, unless the bundle was patched before, contains every call that hands the CLI's internals to
  the worker; a bundle whose main entry is known gets the boot hook as well.
\<close>

theorem patch_complete:
  "case patch_source v t of
     Inl err \<Rightarrow> \<not> rp_ok (inspect_source v t) \<and> err = rp_message (inspect_source v t)
   | Inr u \<Rightarrow> rp_ok (inspect_source v t) \<and> rp_ok (inspect_source w u) \<and> rp_already (inspect_source w u)
       \<and> (u = t \<or> list_all (\<lambda>c. has c u) hook_calls
            \<and> (if has needle_main t then rp_main_patched (inspect_source w u) else True))"
proof -
  have ok: "rp_ok (inspect_source v t) \<longleftrightarrow> has needle_auth t \<and> (marked t \<or> hookable t)" for v t
    by (auto simp: inspect_source_def hookable_def Let_def)
  have already: "rp_already (inspect_source v t) \<longleftrightarrow> marked t" for v t
    by (simp add: inspect_source_def Let_def)
  have main: "rp_main_patched (inspect_source v t) \<longleftrightarrow> marked t \<and> has mark_main t" for v t
    by (simp add: inspect_source_def Let_def)
  have message: "\<not> rp_ok (inspect_source v t) \<Longrightarrow> rp_message (inspect_source v t) = compat_message False v"
    by (auto simp: inspect_source_def Let_def)
  show ?thesis
    using insert_hooks_marks [of t] message by (auto simp: patch_source_cases ok already main hookable_def)
qed

text \<open>
  Patching is idempotent: the loader may see a bundle that was patched before, whatever version
  it reports, and leaves it alone.
\<close>

theorem patch_idempotent:
  "case patch_source v t of Inl _ \<Rightarrow> True | Inr u \<Rightarrow> patch_source w u = Inr u"
  using insert_hooks_marks [of t] by (simp add: patch_source_cases)

end
