(* ===== verification/Worker_Upstream.thy ===== *)
theory Worker_Upstream
  imports Js_Value
begin

text \<open>
  \<open>worker/src/upstream.mjs\<close>: fetch with a deadline for the head of the response and a watchdog on
  its body. The head is a comparison of times; the watchdog is a state machine whose events are the
  passing of time, the firing of the timer, the calls of the stream's consumer (\<open>pull\<close>, \<open>cancel\<close>),
  the settling of the pending read and the continuation that runs after it. The continuation is an
  event of its own because \<open>cancel\<close> can come between the read and it.

  Times are whole milliseconds. A timer fires when its time has come and not later: \<open>Elapse\<close> does
  not pass a deadline.
\<close>

section \<open>Definitions\<close>

subsection \<open>Deadlines\<close>

fun num_max :: "jsnum \<Rightarrow> jsnum \<Rightarrow> jsnum" where
  "num_max NaN b = NaN"
| "num_max a NaN = NaN"
| "num_max a b = (if num_le a b then b else a)"

text \<open>\<open>Number(v || d) || d\<close> for a variable of the environment.\<close>

definition env_number :: "jsval \<Rightarrow> rat \<Rightarrow> jsnum" where
  "env_number v d = (let n = to_number (js_or v (JNum (Fin d))) in if num_truthy n then n else Fin d)"

definition stream_ttfb_ms :: "jsval \<Rightarrow> jsnum" where
  "stream_ttfb_ms ttfb = num_max (Fin 5000) (env_number ttfb 60000)"

definition stream_stall_ms :: "jsval \<Rightarrow> jsval \<Rightarrow> jsnum" where
  "stream_stall_ms ttfb stall = num_max (stream_ttfb_ms ttfb) (env_number stall 300000)"

text \<open>The delay of \<open>setTimeout\<close>: whole, at least 1, and 1 as well for what 31 bits cannot hold.\<close>

fun timer_delay :: "jsnum \<Rightarrow> nat" where
  "timer_delay (Fin q) = (if 1 \<le> q \<and> q \<le> 2147483647 then nat \<lfloor>q\<rfloor> else 1)"
| "timer_delay _ = 1"

record failure =
  fl_message :: jstr
  fl_code :: "string option"

definition first_byte_timeout :: "jsnum \<Rightarrow> failure" where
  "first_byte_timeout ms = \<lparr>fl_message = js ''upstream first-byte timeout after '' @ num_to_str ms @ js ''ms'',
     fl_code = Some ''first_byte_timeout''\<rparr>"

definition stalled :: "jsnum \<Rightarrow> failure" where
  "stalled ms = \<lparr>fl_message = js ''upstream stream stalled for '' @ num_to_str ms @ js ''ms'',
     fl_code = Some ''stream_total_timeout''\<rparr>"

subsection \<open>The watchdog\<close>

datatype 'c read_result = Chunk 'c | End | Failed failure

datatype status = Open | Closed | Errored failure | Cancelled

record 'c watchdog =
  w_now :: nat
  w_timer :: "nat option"
  w_aborted :: bool
  w_reading :: bool
  w_settled :: "'c read_result option"
  w_status :: status
  w_out :: "'c list"

definition arm :: "nat \<Rightarrow> 'c watchdog \<Rightarrow> 'c watchdog" where
  "arm stall s = s\<lparr>w_timer := Some (w_now s + stall)\<rparr>"

definition disarm :: "'c watchdog \<Rightarrow> 'c watchdog" where
  "disarm s = s\<lparr>w_timer := None\<rparr>"

definition attach :: "nat \<Rightarrow> nat \<Rightarrow> 'c watchdog" where
  "attach stall now = arm stall \<lparr>w_now = now, w_timer = None, w_aborted = False, w_reading = False,
     w_settled = None, w_status = Open, w_out = []\<rparr>"

text \<open>
  \<open>pull\<close> after its read: on a stream that is no longer open, \<open>enqueue\<close> and \<open>close\<close> throw, which
  leads to the \<open>catch\<close> block; \<open>error\<close> does nothing there.
\<close>

definition caught :: "failure \<Rightarrow> 'c watchdog \<Rightarrow> 'c watchdog" where
  "caught e s = (let s' = disarm s in if w_status s' = Open then s'\<lparr>w_status := Errored e\<rparr> else s')"

definition not_open :: failure where
  "not_open = \<lparr>fl_message = js ''Invalid state: Controller is already closed'', fl_code = Some ''ERR_INVALID_STATE''\<rparr>"

fun after_read :: "nat \<Rightarrow> 'c read_result \<Rightarrow> 'c watchdog \<Rightarrow> 'c watchdog" where
  "after_read stall End s =
     (let s' = disarm s in if w_status s' = Open then s'\<lparr>w_status := Closed\<rparr> else caught not_open s')"
| "after_read stall (Chunk c) s =
     (let s' = arm stall s in if w_status s' = Open then s'\<lparr>w_out := w_out s' @ [c]\<rparr> else caught not_open s')"
| "after_read stall (Failed e) s = caught e s"

datatype 'c wd_event = Elapse nat | Fire | Pull | Settle "'c read_result" | Continue | Cancel

text \<open>
  An event where it is possible. After the abort the pending read can only be rejected, with the
  reason of the abort.
\<close>

fun wd_apply :: "jsnum \<Rightarrow> 'c wd_event \<Rightarrow> 'c watchdog \<Rightarrow> 'c watchdog option" where
  "wd_apply ms (Elapse d) s =
     (if (case w_timer s of None \<Rightarrow> True | Some t \<Rightarrow> w_now s + d \<le> t) then Some (s\<lparr>w_now := w_now s + d\<rparr>) else None)"
| "wd_apply ms Fire s =
     (if w_timer s = Some (w_now s) then Some (s\<lparr>w_timer := None, w_aborted := True\<rparr>) else None)"
| "wd_apply ms Pull s =
     (if w_status s = Open \<and> \<not> w_reading s \<and> w_settled s = None then Some (s\<lparr>w_reading := True\<rparr>) else None)"
| "wd_apply ms (Settle r) s =
     (if w_reading s \<and> (w_aborted s \<longrightarrow> r = Failed (stalled ms))
      then Some (s\<lparr>w_reading := False, w_settled := Some r\<rparr>) else None)"
| "wd_apply ms Continue s =
     (case w_settled s of
        None \<Rightarrow> None
      | Some r \<Rightarrow> Some (after_read (timer_delay ms) r (s\<lparr>w_settled := None\<rparr>)))"
| "wd_apply ms Cancel s =
     (if w_status s = Open then Some (disarm (s\<lparr>w_status := Cancelled\<rparr>)) else None)"

inductive wd_run :: "jsnum \<Rightarrow> 'c watchdog \<Rightarrow> 'c wd_event list \<Rightarrow> 'c watchdog \<Rightarrow> bool" for ms where
  start: "wd_run ms s [] s"
| step: "wd_run ms s evs s' \<Longrightarrow> wd_apply ms ev s' = Some s'' \<Longrightarrow> wd_run ms s (evs @ [ev]) s''"

subsection \<open>The head of the response\<close>

text \<open>
  When and how \<open>fetch\<close> settles after the call; \<open>None\<close> when it would not. At the deadline itself the
  timer is first. \<open>has_body\<close> of a response decides whether a watchdog is attached.
\<close>

datatype head = Head bool | HeadFailed failure

datatype 'c fetched = Fetched "'c watchdog option" | FetchFailed failure

definition fetch_with_timeout :: "jsnum \<Rightarrow> jsnum \<Rightarrow> (nat \<times> head) option \<Rightarrow> nat \<times> 'c fetched" where
  "fetch_with_timeout ttfb stall head =
     (case head of
        None \<Rightarrow> (timer_delay ttfb, FetchFailed (first_byte_timeout ttfb))
      | Some (t, h) \<Rightarrow>
          if timer_delay ttfb \<le> t then (timer_delay ttfb, FetchFailed (first_byte_timeout ttfb))
          else (case h of
                  HeadFailed e \<Rightarrow> (t, FetchFailed e)
                | Head has_body \<Rightarrow>
                    (t, Fetched (if \<not> num_le stall (Fin 0) \<and> stall \<noteq> NaN \<and> has_body
                                 then Some (attach (timer_delay stall) t) else None))))"

section \<open>Runs\<close>

text \<open>A run is a fold of the events; the executable form is used for concrete runs.\<close>

fun wd_exec :: "jsnum \<Rightarrow> 'c wd_event list \<Rightarrow> 'c watchdog \<Rightarrow> 'c watchdog option" where
  "wd_exec ms [] s = Some s"
| "wd_exec ms (ev # evs) s = Option.bind (wd_apply ms ev s) (wd_exec ms evs)"

inductive_cases wd_run_NilE: "wd_run ms s [] s'"

inductive_simps wd_run_snoc: "wd_run ms s (evs @ [ev]) s'"

lemma wd_exec_append: "wd_exec ms (as @ bs) s = Option.bind (wd_exec ms as s) (wd_exec ms bs)"
  by (induction as arbitrary: s) (auto simp: bind_assoc split: Option.bind_split)

lemma wd_run_exec: "wd_run ms s evs s' \<longleftrightarrow> wd_exec ms evs s = Some s'"
proof
  show "wd_run ms s evs s' \<Longrightarrow> wd_exec ms evs s = Some s'"
    by (induction rule: wd_run.induct) (auto simp: wd_exec_append)
  show "wd_exec ms evs s = Some s' \<Longrightarrow> wd_run ms s evs s'"
  proof (induction evs arbitrary: s' rule: rev_induct)
    case (snoc ev evs)
    then obtain s1 where "wd_exec ms evs s = Some s1" "wd_apply ms ev s1 = Some s'"
      by (auto simp: wd_exec_append bind_eq_Some_conv split: Option.bind_splits)
    with snoc.IH show ?case by (auto intro: wd_run.step)
  qed (auto intro: wd_run.start)
qed

text \<open>The time since the last continuation, and the chunks the upstream delivered.\<close>

definition since_step :: "'c wd_event \<Rightarrow> nat \<Rightarrow> nat" where
  "since_step ev n = (case ev of Elapse d \<Rightarrow> n + d | Continue \<Rightarrow> 0 | _ \<Rightarrow> n)"

definition silence :: "'c wd_event list \<Rightarrow> nat" where
  "silence evs = fold since_step evs 0"

fun delivered :: "'c wd_event list \<Rightarrow> 'c list" where
  "delivered [] = []"
| "delivered (Settle (Chunk c) # evs) = c # delivered evs"
| "delivered (_ # evs) = delivered evs"

lemma delivered_append: "delivered (as @ bs) = delivered as @ delivered bs"
  by (induction as rule: delivered.induct) auto

lemma silence_snoc [simp]: "silence (evs @ [ev]) = since_step ev (silence evs)"
  by (simp add: silence_def)

lemma delivered_snoc [simp]: "delivered (evs @ [ev]) = delivered evs @ delivered [ev]"
  by (simp add: delivered_append)

fun waiting :: "'c read_result option \<Rightarrow> 'c list" where
  "waiting (Some (Chunk c)) = [c]"
| "waiting _ = []"

definition timer_inv :: "jsnum \<Rightarrow> 'c wd_event list \<Rightarrow> 'c watchdog \<Rightarrow> bool" where
  "timer_inv ms evs s \<longleftrightarrow>
     (w_status s \<noteq> Open \<longrightarrow> w_timer s = None)
   \<and> (w_status s = Open \<longrightarrow> w_aborted s \<or> w_timer s \<noteq> None)
   \<and> (\<forall>t. w_timer s = Some t \<longrightarrow> w_now s \<le> t \<and> t + silence evs = w_now s + timer_delay ms)"

definition out_inv :: "'c wd_event list \<Rightarrow> 'c watchdog \<Rightarrow> bool" where
  "out_inv evs s \<longleftrightarrow>
     (w_reading s \<longrightarrow> w_settled s = None)
   \<and> (w_status s = Open \<longrightarrow> w_out s @ waiting (w_settled s) = delivered evs)
   \<and> (w_status s = Closed \<longrightarrow> w_out s = delivered evs)
   \<and> prefix (w_out s) (delivered evs)
   \<and> (w_status s \<noteq> Open \<and> w_status s \<noteq> Cancelled \<longrightarrow> \<not> w_reading s \<and> w_settled s = None)"

definition abort_inv :: "jsnum \<Rightarrow> 'c wd_event list \<Rightarrow> 'c watchdog \<Rightarrow> bool" where
  "abort_inv ms evs s \<longleftrightarrow> w_aborted s = (Fire \<in> set evs)
   \<and> (\<forall>as bs. evs = as @ Fire # bs \<longrightarrow> silence as = timer_delay ms)"

lemma inv_start:
  "timer_inv ms [] (attach (timer_delay ms) now)" "out_inv [] (attach (timer_delay ms) now)"
  "abort_inv ms [] (attach (timer_delay ms) now)"
  by (simp_all add: timer_inv_def out_inv_def abort_inv_def attach_def arm_def silence_def)

lemma timer_inv_step:
  assumes "timer_inv ms evs s" and "wd_apply ms ev s = Some s'"
  shows "timer_inv ms (evs @ [ev]) s'"
proof (cases ev)
  case Continue
  with assms(2) obtain r where r: "w_settled s = Some r" and
    s': "s' = after_read (timer_delay ms) r (s\<lparr>w_settled := None\<rparr>)" by (auto split: option.splits)
  with assms(1) show ?thesis unfolding Continue s'
    by (cases r; cases "w_status s")
       (simp_all add: timer_inv_def since_step_def arm_def disarm_def caught_def)
next
  case (Elapse d)
  with assms show ?thesis
    by (cases "w_timer s") (auto simp: timer_inv_def since_step_def split: if_splits)
qed (use assms in \<open>auto simp: timer_inv_def since_step_def disarm_def split: if_splits\<close>)

lemma out_inv_step:
  assumes "out_inv evs s" and "wd_apply ms ev s = Some s'"
  shows "out_inv (evs @ [ev]) s'"
proof (cases ev)
  case Continue
  with assms(2) obtain r where r: "w_settled s = Some r" and
    s': "s' = after_read (timer_delay ms) r (s\<lparr>w_settled := None\<rparr>)" by (auto split: option.splits)
  with assms(1) show ?thesis unfolding Continue s'
    by (cases r; cases "w_status s")
       (simp_all add: out_inv_def arm_def disarm_def caught_def prefix_def)
next
  case (Settle r)
  with assms show ?thesis by (cases r) (auto simp: out_inv_def prefix_def split: if_splits)
qed (use assms in \<open>auto simp: out_inv_def disarm_def split: if_splits option.splits\<close>)

lemma after_read_aborted [simp]: "w_aborted (after_read stall r s) = w_aborted s"
  by (cases r) (simp_all add: arm_def disarm_def caught_def Let_def)

lemma split_snoc:
  "evs @ [ev] = as @ x # bs \<longleftrightarrow> (bs = [] \<and> evs = as \<and> ev = x) \<or> (\<exists>bs'. bs = bs' @ [ev] \<and> evs = as @ x # bs')"
  by (cases bs rule: rev_cases) auto

lemma abort_inv_step:
  assumes "abort_inv ms evs s" and "timer_inv ms evs s" and "wd_apply ms ev s = Some s'"
  shows "abort_inv ms (evs @ [ev]) s'"
proof -
  have "w_aborted s' = (w_aborted s \<or> ev = Fire)"
    using assms(3) by (cases ev) (auto simp: disarm_def split: if_splits option.splits)
  moreover have "silence evs = timer_delay ms" if "ev = Fire"
    using assms(2,3) that by (auto simp: timer_inv_def split: if_splits)
  ultimately show ?thesis
    using assms(1) by (auto simp: abort_inv_def split_snoc)
qed

lemma wd_run_inv:
  "wd_run ms s evs s' \<Longrightarrow> s = attach (timer_delay ms) now \<Longrightarrow> timer_inv ms evs s' \<and> out_inv evs s' \<and> abort_inv ms evs s'"
  by (induction rule: wd_run.induct) (auto simp: inv_start intro: timer_inv_step out_inv_step abort_inv_step)

section \<open>Properties\<close>

text \<open>
  C20: The watchdog never cuts off a stream that keeps producing. In every run the consumer has been
  given a beginning of what the upstream delivered, and all of it when the stream was closed. The
  request is aborted only by the timer, and the timer fires exactly when a full window has passed since
  the answer of a read was last processed (or since the beginning), however long the stream has been
  running: when it fires, the window has passed; and when the window has passed on an open stream, the
  timer can fire and no time passes before it does, unless an answer is processed at that very moment.
\<close>

theorem watchdog_never_truncates:
  assumes "wd_run ms (attach (timer_delay ms) now) evs s"
  shows "prefix (w_out s) (delivered evs) \<and> (w_status s = Closed \<longrightarrow> w_out s = delivered evs)
    \<and> w_aborted s = (Fire \<in> set evs)
    \<and> (\<forall>as bs. evs = as @ Fire # bs \<longrightarrow> silence as = timer_delay ms)
    \<and> (w_status s = Open \<and> \<not> w_aborted s \<longrightarrow>
        (wd_apply ms Fire s \<noteq> None \<longleftrightarrow> silence evs = timer_delay ms)
        \<and> (\<forall>d. wd_apply ms (Elapse d) s \<noteq> None \<longleftrightarrow> silence evs + d \<le> timer_delay ms))"
proof -
  note inv = wd_run_inv [OF assms refl]
  have "(wd_apply ms Fire s \<noteq> None \<longleftrightarrow> silence evs = timer_delay ms)
      \<and> (\<forall>d. wd_apply ms (Elapse d) s \<noteq> None \<longleftrightarrow> silence evs + d \<le> timer_delay ms)"
    if "w_status s = Open" "\<not> w_aborted s"
  proof -
    from inv that obtain t where "w_timer s = Some t" "t + silence evs = w_now s + timer_delay ms"
      by (auto simp: timer_inv_def)
    then show ?thesis by auto
  qed
  with inv show ?thesis by (auto simp: out_inv_def abort_inv_def)
qed

text \<open>
  From some time on the upstream does not answer: no read settles before the timer fires, and the consumer
  does not cancel. (After the abort a read is rejected with its reason.)
\<close>

definition is_settle :: "'c wd_event \<Rightarrow> bool" where
  "is_settle ev = (case ev of Settle r \<Rightarrow> True | _ \<Rightarrow> False)"

definition unanswered :: "'c wd_event list \<Rightarrow> bool" where
  "unanswered evs \<longleftrightarrow> Cancel \<notin> set evs \<and> list_all (\<lambda>ev. \<not> is_settle ev) (takeWhile (\<lambda>ev. ev \<noteq> Fire) evs)"

lemma unanswered_snoc:
  "unanswered (evs @ [ev]) \<longleftrightarrow> unanswered evs \<and> ev \<noteq> Cancel \<and> (Fire \<in> set evs \<or> \<not> is_settle ev)"
proof (cases "Fire \<in> set evs")
  case True
  then have "takeWhile (\<lambda>ev. ev \<noteq> Fire) (evs @ [ev]) = takeWhile (\<lambda>ev. ev \<noteq> Fire) evs"
    by (intro takeWhile_append1 [of Fire]) simp_all
  with True show ?thesis by (auto simp: unanswered_def)
next
  case False
  then have all: "takeWhile (\<lambda>ev. ev \<noteq> Fire) evs = evs" by (auto simp: takeWhile_eq_all_conv)
  have "takeWhile (\<lambda>ev. ev \<noteq> Fire) (evs @ [ev]) = evs @ takeWhile (\<lambda>ev. ev \<noteq> Fire) [ev]"
    using False by (intro takeWhile_append2) auto
  with False show ?thesis by (cases ev) (auto simp only: unanswered_def all, simp_all add: is_settle_def)
qed

text \<open>The state in such a time, for the deadline \<open>t\<close>: before the timer fires, then up to the rejected read, then after it.\<close>

definition still_waiting :: "nat \<Rightarrow> 'c watchdog \<Rightarrow> bool" where
  "still_waiting t s \<longleftrightarrow> w_status s = Open \<and> \<not> w_aborted s \<and> w_settled s = None \<and> w_timer s = Some t \<and> w_now s \<le> t"

definition aborting :: "jsnum \<Rightarrow> 'c watchdog \<Rightarrow> bool" where
  "aborting ms s \<longleftrightarrow> w_status s = Open \<and> w_aborted s \<and> w_timer s = None
     \<and> (w_settled s = None \<or> w_settled s = Some (Failed (stalled ms)) \<and> \<not> w_reading s)"

definition given_up :: "jsnum \<Rightarrow> 'c watchdog \<Rightarrow> bool" where
  "given_up ms s \<longleftrightarrow> w_status s = Errored (stalled ms) \<and> w_timer s = None \<and> w_settled s = None \<and> \<not> w_reading s"

lemma unanswered_run:
  assumes "wd_run ms s evs s'" and "still_waiting t s" and "unanswered evs"
  shows "if Fire \<notin> set evs then still_waiting t s'
    else if Continue \<notin> set (tl (dropWhile (\<lambda>ev. ev \<noteq> Fire) evs)) then aborting ms s' else given_up ms s'"
  using assms
proof (induction rule: wd_run.induct)
  case (step s evs s' ev s'')
  then have u: "unanswered evs" "ev \<noteq> Cancel" "Fire \<in> set evs \<or> \<not> is_settle ev" by (simp_all add: unanswered_snoc)
  note ih = step.IH [OF step.prems(1) u(1)]
  show ?case
  proof (cases "Fire \<in> set evs")
    case False
    with ih have w: "still_waiting t s'" by simp
    have d: "dropWhile (\<lambda>ev. ev \<noteq> Fire) evs = []" using False by (auto simp: dropWhile_eq_Nil_conv)
    then have d': "dropWhile (\<lambda>ev. ev \<noteq> Fire) (evs @ [ev]) = dropWhile (\<lambda>ev. ev \<noteq> Fire) [ev]"
      using False by (intro dropWhile_append2) auto
    from step.hyps(2) w u(2,3) False show ?thesis unfolding set_append d'
      by (cases ev) (auto simp: still_waiting_def aborting_def is_settle_def split: if_splits)
  next
    case True
    then have d: "dropWhile (\<lambda>ev. ev \<noteq> Fire) (evs @ [ev]) = dropWhile (\<lambda>ev. ev \<noteq> Fire) evs @ [ev]"
      by (intro dropWhile_append1 [of Fire]) simp_all
    from True have "dropWhile (\<lambda>ev. ev \<noteq> Fire) evs \<noteq> []" by (auto simp: dropWhile_eq_Nil_conv)
    then have tl: "tl (dropWhile (\<lambda>ev. ev \<noteq> Fire) (evs @ [ev])) = tl (dropWhile (\<lambda>ev. ev \<noteq> Fire) evs) @ [ev]"
      unfolding d by (cases "dropWhile (\<lambda>ev. ev \<noteq> Fire) evs") simp_all
    show ?thesis
    proof (cases "Continue \<in> set (tl (dropWhile (\<lambda>ev. ev \<noteq> Fire) evs))")
      case False
      with ih True have "aborting ms s'" by simp
      with step.hyps(2) u(2) False True show ?thesis unfolding tl
        by (cases ev) (auto simp: aborting_def given_up_def caught_def disarm_def split: if_splits)
    next
      case c: True
      with ih True have "given_up ms s'" by simp
      with step.hyps(2) u(2) c True show ?thesis unfolding tl
        by (cases ev) (auto simp: given_up_def split: if_splits)
    qed
  qed
qed simp

lemma aborting_ends:
  fixes s :: "'c watchdog"
  assumes "aborting ms s"
  shows "\<exists>evs s'. wd_run ms s evs s' \<and> w_status s' = Errored (stalled ms) \<and> w_now s' = w_now s
    \<and> set evs \<subseteq> {Pull, Settle (Failed (stalled ms)), Continue}"
proof -
  define evs :: "'c wd_event list" where "evs = (if w_settled s \<noteq> None then [Continue]
    else (if w_reading s then [] else [Pull]) @ [Settle (Failed (stalled ms)), Continue])"
  obtain s' where "wd_exec ms evs s = Some s'" "w_status s' = Errored (stalled ms)" "w_now s' = w_now s"
    using assms by (cases "w_reading s"; cases "w_settled s") (auto simp: evs_def aborting_def caught_def disarm_def Let_def)
  then show ?thesis by (intro exI [of _ evs] exI [of _ s']) (auto simp: wd_run_exec evs_def)
qed

text \<open>
  C21: A silent stream does not stay open. While it is open, not aborted and no answer waits to be processed,
  let \<open>rest\<close> be what is left of the window. In every run in which the upstream answers no more read and the consumer
  does not cancel, the time that passes without the timer having fired is at most \<open>rest\<close>; once the timer has
  fired, the stream either is still open, and then reading from it ends it with the error of the stall at
  once, or it has ended with that error, and in no other way; and as long as the timer has not fired, letting
  \<open>rest\<close> pass makes it fire.
\<close>

theorem watchdog_ends_silence:
  fixes s s' :: "'c watchdog"
  assumes "wd_run ms (attach (timer_delay ms) now) evs s" and "w_status s = Open" and "\<not> w_aborted s"
    and "w_settled s = None" and "wd_run ms s evs' s'" and "unanswered evs'"
  shows "silence evs \<le> timer_delay ms
    \<and> (Fire \<notin> set evs' \<longrightarrow> w_status s' = Open \<and> w_now s' \<le> w_now s + (timer_delay ms - silence evs)
        \<and> wd_exec ms [Elapse (w_now s + (timer_delay ms - silence evs) - w_now s'), Fire] s' \<noteq> None)
    \<and> (Fire \<in> set evs' \<longrightarrow> w_status s' = Errored (stalled ms) \<or> w_status s' = Open \<and>
        (\<exists>es v. wd_run ms s' es v \<and> set es \<subseteq> {Pull, Settle (Failed (stalled ms)), Continue}
          \<and> w_status v = Errored (stalled ms) \<and> w_now v = w_now s'))"
proof -
  from wd_run_inv [OF assms(1) refl] assms(2,3) obtain t where
    t: "w_timer s = Some t" "w_now s \<le> t" "t + silence evs = w_now s + timer_delay ms"
    by (auto simp: timer_inv_def)
  with assms(2-4) have "still_waiting t s" by (simp add: still_waiting_def)
  note r = unanswered_run [OF assms(5) this assms(6)]
  have d: "w_now s + (timer_delay ms - silence evs) = t" "silence evs \<le> timer_delay ms" using t by simp_all
  have "w_status s' = Open \<and> w_now s' \<le> t \<and> wd_exec ms [Elapse (t - w_now s'), Fire] s' \<noteq> None" if "Fire \<notin> set evs'"
    using r that by (simp add: still_waiting_def)
  moreover have "w_status s' = Errored (stalled ms) \<or> w_status s' = Open \<and>
        (\<exists>es v. wd_run ms s' es v \<and> set es \<subseteq> {Pull, Settle (Failed (stalled ms)), Continue}
          \<and> w_status v = Errored (stalled ms) \<and> w_now v = w_now s')" if "Fire \<in> set evs'"
  proof (cases "aborting ms s'")
    case True
    from aborting_ends [OF this] show ?thesis using True by (auto simp: aborting_def)
  next
    case False
    with r that have "given_up ms s'" by (simp split: if_splits)
    then show ?thesis by (simp add: given_up_def)
  qed
  ultimately show ?thesis using d by simp
qed

text \<open>
  The timer runs between the reads too: a consumer that does not ask for more for a whole window has its
  stream aborted, although the upstream may have more to give.
\<close>

definition slow_run :: "nat wd_event list" where
  "slow_run = [Pull, Settle (Chunk 7), Continue, Elapse 300, Fire]"

lemma slow_consumer_aborted:
  "\<exists>s. wd_run (Fin 300) (attach (timer_delay (Fin 300)) 0) slow_run s \<and> \<not> w_reading s \<and> w_aborted s"
  by (rule exI [of _ "the (wd_exec (Fin 300) slow_run (attach (timer_delay (Fin 300)) 0))"])
    (unfold wd_run_exec, code_simp)

text \<open>
  The timer never outlives the stream: once the body is closed, failed or cancelled no timer is
  armed, whatever the order of the events, in particular when \<open>cancel\<close> comes between a read and its
  continuation, which arms the timer first.
\<close>

theorem watchdog_timer_released:
  assumes "wd_run ms (attach (timer_delay ms) now) evs s" and "w_status s \<noteq> Open"
  shows "w_timer s = None"
  using wd_run_inv [OF assms(1) refl] assms(2) by (simp add: timer_inv_def)

text \<open>Runs with a window of 300 ms: a cancelled stream, a closed one, and one that falls silent.\<close>

definition cancelled_run :: "nat wd_event list" where
  "cancelled_run = [Elapse 200, Pull, Settle (Chunk 7), Cancel, Continue]"

definition closed_run :: "nat wd_event list" where
  "closed_run = [Pull, Elapse 299, Settle (Chunk 7), Continue, Pull, Elapse 299, Settle (Chunk 8), Continue, Pull, Settle End, Continue]"

definition silent_run :: "nat wd_event list" where
  "silent_run = [Pull, Elapse 200, Settle (Chunk 7), Continue, Elapse 100]"

definition after_run :: "nat wd_event list \<Rightarrow> nat watchdog" where
  "after_run evs = the (wd_exec (Fin 300) evs (attach (timer_delay (Fin 300)) 0))"

lemma sample_runs:
  "wd_run (Fin 300) (attach (timer_delay (Fin 300)) 0) cancelled_run (after_run cancelled_run)"
  "wd_run (Fin 300) (attach (timer_delay (Fin 300)) 0) closed_run (after_run closed_run)"
  "wd_run (Fin 300) (attach (timer_delay (Fin 300)) 0) silent_run (after_run silent_run)"
  unfolding wd_run_exec by code_simp+

theorem watchdog_timer_released_witness: "w_timer (after_run cancelled_run) = None"
  by (rule watchdog_timer_released [OF sample_runs(1)]) code_simp

theorem watchdog_never_truncates_witness:
  "w_status (after_run closed_run) = Closed \<and> prefix (w_out (after_run closed_run)) [7, 8]"
proof -
  have "w_status (after_run closed_run) = Closed" by code_simp
  moreover have "delivered closed_run = [7, 8]" by code_simp
  ultimately show ?thesis using watchdog_never_truncates [OF sample_runs(2)] by simp
qed

definition fallen_silent :: "nat wd_event list" where
  "fallen_silent = [Pull, Elapse 200, Fire, Settle (Failed (stalled (Fin 300))), Continue]"

theorem watchdog_ends_silence_witness:
  "\<exists>s'. wd_run (Fin 300) (after_run silent_run) fallen_silent s' \<and> w_status s' = Errored (stalled (Fin 300))"
proof -
  let ?s = "after_run silent_run"
  have s: "w_status ?s = Open" "\<not> w_aborted ?s" "w_settled ?s = None" by code_simp+
  obtain s' where s': "wd_exec (Fin 300) fallen_silent ?s = Some s'" "w_status s' \<noteq> Open"
    by (rule that [of "the (wd_exec (Fin 300) fallen_silent ?s)"]) code_simp+
  then have run: "wd_run (Fin 300) ?s fallen_silent s'" by (simp add: wd_run_exec)
  have "unanswered fallen_silent" by code_simp
  from watchdog_ends_silence [OF sample_runs(3) s run this] s'(2) run show ?thesis
    by (auto simp: fallen_silent_def)
qed

text \<open>
  The deadlines are at least five seconds, and the window of the watchdog is at least the deadline
  of the first byte; but a deadline of more than 2147483647 ms, such as \<open>Infinity\<close> to switch it off,
  becomes a timer of one millisecond.
\<close>

theorem deadline_bounds:
  "num_le (Fin 5000) (stream_ttfb_ms a) \<and> num_le (stream_ttfb_ms a) (stream_stall_ms a b)
   \<and> (if num_le (stream_ttfb_ms a) (Fin 2147483647) then 5000 \<le> timer_delay (stream_ttfb_ms a)
      else timer_delay (stream_ttfb_ms a) = 1)"
proof -
  have max: "num_le x (num_max x y)" if "x \<noteq> NaN" "y \<noteq> NaN" for x y
    using that by (cases x; cases y) auto
  have "env_number v d \<noteq> NaN" for v d
    by (auto simp: env_number_def Let_def)
  moreover have "num_max x y \<noteq> NaN" if "x \<noteq> NaN" "y \<noteq> NaN" for x y
    using that by (cases x; cases y) auto
  ultimately have "num_le (Fin 5000) (stream_ttfb_ms a)" "num_le (stream_ttfb_ms a) (stream_stall_ms a b)"
    using max by (simp_all add: stream_ttfb_ms_def stream_stall_ms_def)
  moreover have "(if num_le x (Fin 2147483647) then 5000 \<le> timer_delay x else timer_delay x = 1)"
    if "num_le (Fin 5000) x" for x
    using that by (cases x) (auto simp: le_nat_iff le_floor_iff)
  ultimately show ?thesis by blast
qed

end
