(* ===== verification/Worker_Diagnostics.thy ===== *)
theory Worker_Diagnostics
  imports Worker_Filter Worker_Catalog Worker_Usage
begin

text \<open>
  The diagnoses the worker logs: \<open>summarizeNormalizedToolHistory\<close>, \<open>diagnoseToolResults\<close> and
  \<open>diagnoseOpenAIToolHistory\<close> of \<open>plaintext.mjs\<close>, and the shape summary of \<open>sse.mjs\<close>. They return
  plain data, built here as JavaScript values; the diagnosis of a history is a loop over a state
  record.
\<close>

section \<open>Definitions\<close>

fun type_of :: "jsval \<Rightarrow> string" where
  "type_of Undef = ''undefined''"
| "type_of Null = ''object''"
| "type_of (JBool _) = ''boolean''"
| "type_of (JNum _) = ''number''"
| "type_of (JStr _) = ''string''"
| "type_of (JArr _) = ''object''"
| "type_of (JObj _) = ''object''"

abbreviation jnat :: "nat \<Rightarrow> jsval" where
  "jnat n \<equiv> jint (int n)"

definition string_or_missing :: "jsval \<Rightarrow> jsval" where
  "string_or_missing v = (if is_string v then v else jlit ''<missing>'')"

fun string_length :: "jsval \<Rightarrow> nat" where
  "string_length (JStr s) = length s"
| "string_length _ = 0"

definition content_type :: "jsval \<Rightarrow> jsval" where
  "content_type c = jlit (if nullish c then ''null'' else if is_array c then ''array'' else type_of c)"

subsection \<open>The summary of a normalized history\<close>

definition summarize_call :: "jsval \<Rightarrow> jsval" where
  "summarize_call tc = obj
     [(''id'', string_or_missing (pget tc ''id'')),
      (''name'', JStr (to_string (js_or (pget (pget tc ''function'') ''name'') (js_or (pget tc ''name'') (jlit ''<missing>''))))),
      (''argumentLength'', jnat (string_length (pget (pget tc ''function'') ''arguments'')))]"

definition summarize_message :: "nat \<Rightarrow> jsval \<Rightarrow> jsval" where
  "summarize_message index m =
     (let role = js_or (pget m ''role'') (jlit ''<missing>'');
          calls = pget m ''tool_calls'';
          content = pget m ''content'';
          calling = (role = jlit ''assistant'' \<and> is_array calls);
          tool = (role = jlit ''tool'')
      in obj ([(''index'', jnat index), (''role'', role)]
         @ (if calling then [(''toolCalls'', JArr (map summarize_call (take 32 (items calls))))] else [])
         @ (if tool then
              [(''toolCallId'', string_or_missing (pget m ''tool_call_id'')), (''contentType'', content_type content),
               (''contentLength'', jnat (case content of JStr s \<Rightarrow> length s
                  | _ \<Rightarrow> length (json_text (js_nvl content (JStr [])))))]
            else [])
         @ (if \<not> tool \<and> \<not> calling then
              [(''contentLength'', jnat (case content of JStr s \<Rightarrow> length s
                  | _ \<Rightarrow> if nullish content then 0 else length (json_text content)))]
            else [])))"

definition summarize_tool_history :: "jsval \<Rightarrow> jsval list" where
  "summarize_tool_history ms = map (\<lambda>(i, m). summarize_message i m) (enumerate 0 (take 128 (items ms)))"

subsection \<open>Tool results\<close>

definition calls_of :: "jsval \<Rightarrow> jsval list" where
  "calls_of m = (if is_role ''assistant'' m then items (pget m ''tool_calls'') else [])"

text \<open>\<open>String(fn.name || toolCall?.name || "<missing>").trim() || "<missing>"\<close>.\<close>

definition shown_name :: "jstr \<Rightarrow> jstr" where
  "shown_name n = (if n = [] then js ''<missing>'' else n)"

definition result_call_name :: "jsval \<Rightarrow> jstr" where
  "result_call_name tc = shown_name (trim (to_string
     (js_or (pget (function_part tc) ''name'') (js_or (pget tc ''name'') (jlit ''<missing>'')))))"

record result_maps =
  rm_names :: "(jstr \<times> jstr) list"
  rm_batch :: "(jstr \<times> nat) list"

definition note_calls :: "jsval \<Rightarrow> result_maps \<Rightarrow> result_maps" where
  "note_calls m s =
     (let named = filter (\<lambda>tc. trimmed_string (pget tc ''id'') \<noteq> []) (calls_of m);
          ids = map (\<lambda>tc. trimmed_string (pget tc ''id'')) named
      in s\<lparr>rm_names := fold (\<lambda>tc. aput (trimmed_string (pget tc ''id'')) (result_call_name tc)) named (rm_names s),
           rm_batch := fold (\<lambda>i. aput i (length ids)) ids (rm_batch s)\<rparr>)"

definition control_unit :: "u16 \<Rightarrow> bool" where
  "control_unit c \<longleftrightarrow> c \<le> 8 \<or> c = 0xB \<or> c = 0xC \<or> (0xE \<le> c \<and> c \<le> 0x1F) \<or> c = 0x7F"

definition binary_unit :: "u16 \<Rightarrow> bool" where
  "binary_unit c \<longleftrightarrow> c \<le> 8 \<or> (0xE \<le> c \<and> c \<le> 0x1F)"

definition looks_binary :: "jstr \<Rightarrow> bool" where
  "looks_binary s \<longleftrightarrow> 0 \<in> set s \<or> 0xFFFD \<in> set s
     \<or> (s \<noteq> [] \<and> 1 / 100 < (of_nat (length (filter binary_unit s)) / of_nat (length s) :: rat))"

definition serialized :: "jsval \<Rightarrow> jstr" where
  "serialized c = (case c of JStr s \<Rightarrow> s | _ \<Rightarrow> if nullish c then [] else json_text c)"

definition json_valid :: "jsval \<Rightarrow> jsval" where
  "json_valid c = (case c of JStr s \<Rightarrow> JBool (json_parse s \<noteq> None) | _ \<Rightarrow> Null)"

definition diagnose_result :: "result_maps \<Rightarrow> nat \<Rightarrow> jsval \<Rightarrow> jsval" where
  "diagnose_result r index m =
     (let i = trimmed_string (pget m ''tool_call_id''); c = pget m ''content''; s = serialized c;
          known = (case map_of (rm_names r) i of None \<Rightarrow> [] | Some n \<Rightarrow> n)
      in obj [(''resultIndex'', jnat index), (''toolCallId'', JStr (shown_name i)),
         (''toolName'', JStr (if known \<noteq> [] then known else to_string (js_or (pget m ''name'') (jlit ''<unknown>'')))),
         (''contentType'', content_type c), (''contentLength'', jnat (length s)),
         (''hasControlChars'', JBool (list_ex control_unit s)), (''looksBinary'', JBool (looks_binary s)),
         (''jsonValid'', json_valid c),
         (''parallelBatchSize'', jnat (case map_of (rm_batch r) i of None \<Rightarrow> 1 | Some n \<Rightarrow> if n = 0 then 1 else n))])"

definition diagnose_tool_results :: "jsval \<Rightarrow> jsval list" where
  "diagnose_tool_results ms =
     (let r = fold note_calls (items ms) \<lparr>rm_names = [], rm_batch = []\<rparr>
      in take 64 (map (\<lambda>(i, m). diagnose_result r i m)
                    (filter (\<lambda>(i, m). is_role ''tool'' m) (enumerate 0 (items ms)))))"

subsection \<open>The history of a request\<close>

record tool_names =
  tn_defined :: "jstr list"
  tn_duplicate :: "jstr list"
  tn_malformed :: "nat list"

definition note_tool :: "nat \<times> jsval \<Rightarrow> tool_names \<Rightarrow> tool_names" where
  "note_tool it s =
     (let t = snd it; fn = (if pget t ''type'' = jlit ''function'' then pget t ''function'' else t);
          name = trimmed_string (pget fn ''name'')
      in if name = [] then s\<lparr>tn_malformed := tn_malformed s @ [fst it]\<rparr>
         else s\<lparr>tn_duplicate := (if name \<in> set (tn_defined s) then tn_duplicate s @ [name] else tn_duplicate s),
                tn_defined := sadd name (tn_defined s)\<rparr>)"

definition tool_names_of :: "jsval \<Rightarrow> tool_names" where
  "tool_names_of tools = fold note_tool (enumerate 0 (items tools)) \<lparr>tn_defined = [], tn_duplicate = [], tn_malformed = []\<rparr>"

text \<open>\<open>dg_pending\<close>: the open calls, identifier and name, in the order of their calls.\<close>

record diagnosis =
  dg_seen :: "jstr list"
  dg_pending :: "(jstr \<times> jstr) list"
  dg_call_names :: "jstr list"
  dg_result_names :: "jstr list"
  dg_duplicate :: "jsval list"
  dg_missing :: "jsval list"
  dg_orphan :: "jsval list"
  dg_invalid :: "jsval list"
  dg_undefined :: "(jstr \<times> jsval) list"
  dg_breaks :: "jsval list"
  dg_results :: nat

definition diagnosis_start :: diagnosis where
  "diagnosis_start = \<lparr>dg_seen = [], dg_pending = [], dg_call_names = [], dg_result_names = [], dg_duplicate = [],
     dg_missing = [], dg_orphan = [], dg_invalid = [], dg_undefined = [], dg_breaks = [], dg_results = 0\<rparr>"

definition argument_fault :: "jsval \<Rightarrow> string option" where
  "argument_fault a =
     (case a of
        JStr s \<Rightarrow> if trim s = [] then Some ''not_string_or_empty''
                  else if json_parse s = None then Some ''invalid_json'' else None
      | _ \<Rightarrow> Some ''not_string_or_empty'')"

definition at_call :: "nat \<Rightarrow> nat \<Rightarrow> (string \<times> jsval) list \<Rightarrow> jsval" where
  "at_call mi ci fs = obj ([(''messageIndex'', jnat mi), (''callIndex'', jnat ci)] @ fs)"

definition shown :: "jsval \<Rightarrow> jsval" where
  "shown tc = JStr (shown_name (trim (call_name tc)))"

definition note_call_id :: "nat \<Rightarrow> nat \<Rightarrow> jsval \<Rightarrow> diagnosis \<Rightarrow> diagnosis" where
  "note_call_id mi ci tc s =
     (let i = trimmed_string (pget tc ''id'') in
      if i = [] then s\<lparr>dg_missing := dg_missing s @ [at_call mi ci [(''name'', shown tc)]]\<rparr>
      else if i \<in> set (dg_seen s) then
        s\<lparr>dg_duplicate := dg_duplicate s @ [at_call mi ci [(''id'', JStr i), (''name'', shown tc)]]\<rparr>
      else s\<lparr>dg_seen := dg_seen s @ [i], dg_pending := aput i (shown_name (trim (call_name tc))) (dg_pending s)\<rparr>)"

definition note_undefined :: "jstr list \<Rightarrow> nat \<Rightarrow> nat \<Rightarrow> jsval \<Rightarrow> diagnosis \<Rightarrow> diagnosis" where
  "note_undefined defined mi ci tc s =
     (let name = trim (call_name tc) in
      if defined \<noteq> [] \<and> name \<noteq> [] \<and> name \<notin> set defined
      then s\<lparr>dg_undefined := dg_undefined s @ [(name, at_call mi ci [(''name'', JStr name)])]\<rparr> else s)"

definition note_arguments :: "nat \<Rightarrow> nat \<Rightarrow> jsval \<Rightarrow> diagnosis \<Rightarrow> diagnosis" where
  "note_arguments mi ci tc s =
     (case argument_fault (pget (function_part tc) ''arguments'') of
        None \<Rightarrow> s
      | Some reason \<Rightarrow>
          s\<lparr>dg_invalid := dg_invalid s @ [at_call mi ci [(''name'', shown tc), (''reason'', jlit reason)]]\<rparr>)"

definition diagnose_call :: "jstr list \<Rightarrow> nat \<Rightarrow> nat \<times> jsval \<Rightarrow> diagnosis \<Rightarrow> diagnosis" where
  "diagnose_call defined mi itc s =
     (let ci = fst itc; tc = snd itc in
      note_arguments mi ci tc (note_undefined defined mi ci tc (note_call_id mi ci tc
        (s\<lparr>dg_call_names := dg_call_names s @ [shown_name (trim (call_name tc))]\<rparr>))))"

definition diagnose_tool :: "nat \<Rightarrow> jsval \<Rightarrow> diagnosis \<Rightarrow> diagnosis" where
  "diagnose_tool mi m s =
     (let i = trimmed_string (pget m ''tool_call_id'');
          name = trim (to_string (js_or (pget m ''name'') (JStr [])));
          s1 = s\<lparr>dg_results := dg_results s + 1, dg_result_names := dg_result_names s @ [shown_name name]\<rparr>
      in if i = [] then
           s1\<lparr>dg_missing := dg_missing s1 @ [obj [(''messageIndex'', jnat mi), (''name'', JStr (shown_name name)),
                (''kind'', jlit ''tool_result'')]]\<rparr>
         else if i \<notin> fst ` set (dg_pending s1) then
           s1\<lparr>dg_orphan := dg_orphan s1 @ [obj [(''messageIndex'', jnat mi), (''id'', JStr i), (''name'', JStr (shown_name name))]]\<rparr>
         else s1\<lparr>dg_pending := filter (\<lambda>p. fst p \<noteq> i) (dg_pending s1)\<rparr>)"

definition pending_names :: "diagnosis \<Rightarrow> jsval" where
  "pending_names s = JArr (map (\<lambda>p. JStr (snd p)) (take 16 (dg_pending s)))"

definition diagnose_message :: "jstr list \<Rightarrow> nat \<times> jsval \<Rightarrow> diagnosis \<Rightarrow> diagnosis" where
  "diagnose_message defined im s =
     (let mi = fst im; m = snd im in
      if calls_of m \<noteq> [] then fold (diagnose_call defined mi) (enumerate 0 (calls_of m)) s
      else if is_role ''tool'' m then diagnose_tool mi m s
      else if dg_pending s \<noteq> [] \<and> \<not> is_role ''system'' m \<and> \<not> is_role ''developer'' m then
        s\<lparr>dg_breaks := dg_breaks s @ [obj [(''messageIndex'', jnat mi),
            (''role'', js_or (pget m ''role'') (jlit ''<missing>'')), (''pendingCount'', jnat (length (dg_pending s))),
            (''pendingToolNames'', pending_names s)]]\<rparr>
      else s)"

definition diagnose :: "jsval \<Rightarrow> jsval \<Rightarrow> diagnosis" where
  "diagnose ms tools = fold (diagnose_message (tn_defined (tool_names_of tools))) (enumerate 0 (items ms)) diagnosis_start"

definition history_valid :: "diagnosis \<Rightarrow> bool" where
  "history_valid s \<longleftrightarrow> dg_duplicate s = [] \<and> dg_missing s = [] \<and> dg_orphan s = [] \<and> dg_invalid s = []
     \<and> dg_undefined s = [] \<and> dg_breaks s = []"

definition diagnose_openai_tool_history :: "jsval \<Rightarrow> jsval \<Rightarrow> jsval" where
  "diagnose_openai_tool_history ms tools =
     (let s = diagnose ms tools; t = tool_names_of tools; strs = (\<lambda>ns. JArr (map JStr ns)) in
      obj [(''messageCount'', jnat (length (items ms))),
           (''definedToolCount'', jnat (length (tn_defined t))),
           (''definedToolNames'', strs (take 32 (tn_defined t))),
           (''assistantToolCallCount'', jnat (length (dg_call_names s))),
           (''toolResultCount'', jnat (dg_results s)),
           (''pendingToolCallCount'', jnat (length (dg_pending s))),
           (''pendingToolNames'', pending_names s),
           (''assistantToolNames'', strs (take 32 (dg_call_names s))),
           (''toolResultNames'', strs (take 32 (dg_result_names s))),
           (''duplicateToolCallIds'', JArr (dg_duplicate s)),
           (''missingToolCallIds'', JArr (dg_missing s)),
           (''orphanToolResultIds'', JArr (dg_orphan s)),
           (''invalidArguments'', JArr (dg_invalid s)),
           (''undefinedToolCalls'', JArr (map snd (dg_undefined s))),
           (''undefinedToolNames'', strs (fold sadd (map fst (dg_undefined s)) [])),
           (''toolResultDiagnostics'', JArr (diagnose_tool_results ms)),
           (''duplicateToolNames'', strs (tn_duplicate t)),
           (''malformedToolDefinitions'', JArr (map jnat (tn_malformed t))),
           (''sequenceBreaks'', JArr (dg_breaks s)),
           (''valid'', JBool (history_valid s))])"

subsection \<open>The shape of a frame\<close>

definition diagnostic_models :: "jsval \<Rightarrow> jstr list" where
  "diagnostic_models env = filter (\<lambda>s. s \<noteq> []) (map canonical (split_on 44 (to_string (js_or env (JStr [])))))"

definition should_diagnose_model :: "jsval \<Rightarrow> jsval \<Rightarrow> bool" where
  "should_diagnose_model env model \<longleftrightarrow>
     js ''*'' \<in> set (diagnostic_models env) \<or> canonical (to_string (js_or model (JStr []))) \<in> set (diagnostic_models env)"

text \<open>\<open>Object.keys\<close> of a value that is not null.\<close>

definition key_names :: "jsval \<Rightarrow> jsval" where
  "key_names v = JArr (map (\<lambda>p. JStr (fst p)) (take 24 (own_props v)))"

definition summarize_sse_body :: "jsval \<Rightarrow> jsval" where
  "summarize_sse_body b =
     (if \<not> is_object b then obj [(''kind'', jlit (type_of b))]
      else (let choices = pget b ''choices'';
                choice = (if is_array choices then (case items choices of [] \<Rightarrow> Undef | c # _ \<Rightarrow> c) else Null);
                delta = pget choice ''delta'';
                delta = (if is_object delta then delta else Null)
            in obj [(''keys'', key_names b),
                    (''choiceKeys'', if truthy choice then key_names choice else JArr []),
                    (''deltaKeys'', if truthy delta then key_names delta else JArr []),
                    (''choiceCount'', jnat (length (items choices))),
                    (''hasError'', JBool (truthy (pget b ''error''))),
                    (''hasUsage'', JBool (usage_looks_useful b))]))"


section \<open>A history the diagnosis accepts\<close>

definition source_ids :: "jsval list \<Rightarrow> jstr list" where
  "source_ids tcs = map (\<lambda>tc. trimmed_string (pget tc ''id'')) tcs"

definition sound_call :: "jstr list \<Rightarrow> jsval \<Rightarrow> bool" where
  "sound_call defined tc \<longleftrightarrow> argument_fault (pget (function_part tc) ''arguments'') = None
     \<and> (defined = [] \<or> trim (call_name tc) = [] \<or> trim (call_name tc) \<in> set defined)"

text \<open>The identifiers that tool messages carry.\<close>

definition answered_ids :: "jsval list \<Rightarrow> jstr list" where
  "answered_ids ms = map (\<lambda>m. trimmed_string (pget m ''tool_call_id'')) (filter (is_role ''tool'') ms)"

lemma note_arguments_facts [simp]:
  "history_valid (note_arguments mi ci tc s) \<longleftrightarrow>
     history_valid s \<and> argument_fault (pget (function_part tc) ''arguments'') = None"
  "dg_seen (note_arguments mi ci tc s) = dg_seen s" "dg_pending (note_arguments mi ci tc s) = dg_pending s"
  by (auto simp: note_arguments_def history_valid_def split: option.split)

lemma note_undefined_facts [simp]:
  "history_valid (note_undefined defined mi ci tc s) \<longleftrightarrow>
     history_valid s \<and> (defined = [] \<or> trim (call_name tc) = [] \<or> trim (call_name tc) \<in> set defined)"
  "dg_seen (note_undefined defined mi ci tc s) = dg_seen s" "dg_pending (note_undefined defined mi ci tc s) = dg_pending s"
  by (auto simp: note_undefined_def history_valid_def Let_def)

lemma note_call_id_valid:
  "history_valid (note_call_id mi ci tc s) \<longleftrightarrow>
     history_valid s \<and> trimmed_string (pget tc ''id'') \<noteq> [] \<and> trimmed_string (pget tc ''id'') \<notin> set (dg_seen s)"
  by (auto simp: note_call_id_def history_valid_def Let_def)

lemma history_valid_names [simp]: "history_valid (s\<lparr>dg_call_names := ns\<rparr>) \<longleftrightarrow> history_valid s"
  by (simp add: history_valid_def)

lemma history_valid_call:
  assumes "history_valid (diagnose_call defined mi (ci, tc) s)"
  shows "history_valid s" "trimmed_string (pget tc ''id'') \<noteq> []" "trimmed_string (pget tc ''id'') \<notin> set (dg_seen s)"
    "sound_call defined tc" "dg_seen (diagnose_call defined mi (ci, tc) s) = dg_seen s @ [trimmed_string (pget tc ''id'')]"
    "fst ` set (dg_pending (diagnose_call defined mi (ci, tc) s)) = insert (trimmed_string (pget tc ''id'')) (fst ` set (dg_pending s))"
proof -
  from assms have valid: "history_valid s" "trimmed_string (pget tc ''id'') \<noteq> []"
    "trimmed_string (pget tc ''id'') \<notin> set (dg_seen s)" "sound_call defined tc"
    by (simp_all add: diagnose_call_def note_call_id_valid sound_call_def)
  then show "history_valid s" "trimmed_string (pget tc ''id'') \<noteq> []"
    "trimmed_string (pget tc ''id'') \<notin> set (dg_seen s)" "sound_call defined tc"
    by simp_all
  show "dg_seen (diagnose_call defined mi (ci, tc) s) = dg_seen s @ [trimmed_string (pget tc ''id'')]"
    "fst ` set (dg_pending (diagnose_call defined mi (ci, tc) s)) = insert (trimmed_string (pget tc ''id'')) (fst ` set (dg_pending s))"
    using valid(2,3) by (simp_all add: diagnose_call_def note_call_id_def Let_def)
qed

lemma dg_seen_call:
  "dg_seen (diagnose_call defined mi (ci, tc) s) = dg_seen s \<or>
   (dg_seen (diagnose_call defined mi (ci, tc) s) = dg_seen s @ [trimmed_string (pget tc ''id'')]
      \<and> trimmed_string (pget tc ''id'') \<notin> set (dg_seen s))"
  by (simp add: diagnose_call_def note_call_id_def Let_def)

lemma history_valid_calls:
  assumes "history_valid (fold (diagnose_call defined mi) (enumerate k tcs) s)" and "distinct (dg_seen s)"
  shows "history_valid s \<and> list_all (sound_call defined) tcs \<and> [] \<notin> set (source_ids tcs)
    \<and> dg_seen (fold (diagnose_call defined mi) (enumerate k tcs) s) = dg_seen s @ source_ids tcs
    \<and> distinct (dg_seen s @ source_ids tcs)
    \<and> fst ` set (dg_pending (fold (diagnose_call defined mi) (enumerate k tcs) s)) = set (source_ids tcs) \<union> fst ` set (dg_pending s)"
  using assms
proof (induction tcs arbitrary: k s)
  case Nil
  then show ?case by (simp add: source_ids_def)
next
  case (Cons tc tcs)
  define s1 where "s1 = diagnose_call defined mi (k, tc) s"
  have rest: "history_valid (fold (diagnose_call defined mi) (enumerate (Suc k) tcs) s1)"
    using Cons.prems(1) by (simp add: s1_def)
  from Cons.IH [OF rest] have one: "distinct (dg_seen s1) \<Longrightarrow> history_valid s1" by simp
  have valid1: "history_valid s1"
  proof (rule one)
    show "distinct (dg_seen s1)"
      using dg_seen_call [of defined mi k tc s] Cons.prems(2) by (auto simp: s1_def)
  qed
  note call = history_valid_call [OF valid1 [unfolded s1_def]]
  from call(3,5) Cons.prems(2) have "distinct (dg_seen s1)" by (simp add: s1_def)
  from Cons.IH [OF rest this] call show ?case
    by (auto simp: source_ids_def s1_def)
qed

text \<open>What the state says about the messages read so far, as long as no fault was found.\<close>

definition diag_inv :: "jstr list \<Rightarrow> jsval list \<Rightarrow> diagnosis \<Rightarrow> bool" where
  "diag_inv defined ms s \<longleftrightarrow>
     dg_seen s = source_ids (concat (map calls_of ms)) \<and> distinct (dg_seen s) \<and> [] \<notin> set (dg_seen s)
   \<and> list_all (sound_call defined) (concat (map calls_of ms))
   \<and> distinct (answered_ids ms) \<and> set (answered_ids ms) \<subseteq> set (dg_seen s)
   \<and> fst ` set (dg_pending s) = set (dg_seen s) - set (answered_ids ms)"

lemma answered_ids_Nil [simp]: "answered_ids [] = []"
    and answered_ids_snoc [simp]: "answered_ids (ms @ [m]) =
      answered_ids ms @ (if is_role ''tool'' m then [trimmed_string (pget m ''tool_call_id'')] else [])"
  by (simp_all add: answered_ids_def)

lemma source_ids_append [simp]: "source_ids (a @ b) = source_ids a @ source_ids b"
  by (simp add: source_ids_def)

lemma distinct_seen_calls: "distinct (dg_seen s) \<Longrightarrow> distinct (dg_seen (fold (diagnose_call defined mi) itcs s))"
proof (induction itcs arbitrary: s)
  case (Cons itc itcs)
  have "distinct (dg_seen (diagnose_call defined mi itc s))"
    using dg_seen_call [of defined mi "fst itc" "snd itc" s] Cons.prems by auto
  with Cons.IH show ?case by simp
qed simp

lemma diag_inv_step:
  assumes "history_valid (diagnose_message defined (mi, m) s)" and "history_valid s \<Longrightarrow> diag_inv defined ms s"
    and "distinct (dg_seen s)"
  shows "diag_inv defined (ms @ [m]) (diagnose_message defined (mi, m) s)"
proof (cases "calls_of m = []")
  case False
  then have other: "\<not> is_role ''tool'' m" by (auto simp: calls_of_def is_role_def split: if_splits)
  have step: "diagnose_message defined (mi, m) s = fold (diagnose_call defined mi) (enumerate 0 (calls_of m)) s"
    using False by (simp add: diagnose_message_def)
  note calls = history_valid_calls [OF assms(1) [unfolded step] assms(3)]
  with assms(2) have inv: "diag_inv defined ms s" by simp
  then have "set (answered_ids ms) \<inter> set (source_ids (calls_of m)) = {}"
    using calls by (fastforce simp: diag_inv_def)
  then have "set (source_ids (calls_of m)) \<union> (set (dg_seen s) - set (answered_ids ms))
      = (set (dg_seen s) \<union> set (source_ids (calls_of m))) - set (answered_ids ms)" by auto
  with calls inv other show ?thesis
    unfolding step by (simp add: diag_inv_def Un_commute subset_iff) metis
next
  case True
  show ?thesis
  proof (cases "is_role ''tool'' m")
    case tool: True
    have step: "diagnose_message defined (mi, m) s = diagnose_tool mi m s"
      using True tool by (simp add: diagnose_message_def)
    from assms(1) have "history_valid s" "trimmed_string (pget m ''tool_call_id'') \<in> fst ` set (dg_pending s)"
      and pending: "dg_pending (diagnose_tool mi m s) = filter (\<lambda>p. fst p \<noteq> trimmed_string (pget m ''tool_call_id'')) (dg_pending s)"
      "dg_seen (diagnose_tool mi m s) = dg_seen s"
      unfolding step by (auto simp: diagnose_tool_def history_valid_def Let_def split: if_splits)
    moreover have "fst ` set (filter (\<lambda>p. fst p \<noteq> i) ps) = fst ` set ps - {i}" for i and ps :: "(jstr \<times> jstr) list"
      by auto
    ultimately show ?thesis
      using assms(2) True tool unfolding step by (auto simp: diag_inv_def)
  next
    case False
    with True assms(1) have "diagnose_message defined (mi, m) s = s"
      by (auto simp: diagnose_message_def history_valid_def split: if_splits)
    with assms True False show ?thesis by (auto simp: diag_inv_def)
  qed
qed

lemma distinct_seen_message: "distinct (dg_seen s) \<Longrightarrow> distinct (dg_seen (diagnose_message defined im s))"
  by (auto simp: diagnose_message_def diagnose_tool_def distinct_seen_calls Let_def)

lemma diag_inv_fold:
  "distinct (dg_seen (fold (diagnose_message defined) (enumerate k ms) diagnosis_start))
   \<and> (history_valid (fold (diagnose_message defined) (enumerate k ms) diagnosis_start)
        \<longrightarrow> diag_inv defined ms (fold (diagnose_message defined) (enumerate k ms) diagnosis_start))"
proof (induction ms rule: rev_induct)
  case Nil
  show ?case by (simp add: diagnosis_start_def diag_inv_def answered_ids_def source_ids_def)
next
  case (snoc m ms)
  then show ?case
    by (auto simp: enumerate_append_eq intro: distinct_seen_message diag_inv_step)
qed

section \<open>Properties\<close>

text \<open>
  A history the diagnosis calls valid is one: all tool calls have identifiers, different ones,
  with arguments that are JSON texts, of tools the request defines (when it defines any); every tool
  message answers a call, and no two answer the same.
\<close>

theorem valid_history_sound:
  assumes "pget (diagnose_openai_tool_history ms tools) ''valid'' = JBool True"
  shows "distinct (source_ids (concat (map calls_of (items ms)))) \<and> [] \<notin> set (source_ids (concat (map calls_of (items ms))))
    \<and> list_all (sound_call (tn_defined (tool_names_of tools))) (concat (map calls_of (items ms)))
    \<and> distinct (answered_ids (items ms))
    \<and> set (answered_ids (items ms)) \<subseteq> set (source_ids (concat (map calls_of (items ms))))"
proof -
  have "history_valid (diagnose ms tools)"
    using assms by (simp add: diagnose_openai_tool_history_def pget_obj Let_def)
  with diag_inv_fold [of "tn_defined (tool_names_of tools)" 0 "items ms"] show ?thesis
    by (auto simp: diagnose_def diag_inv_def)
qed

definition sample_history :: jsval where
  "sample_history = JArr
     [obj [(''role'', jlit ''user''), (''content'', jlit ''go'')],
      obj [(''role'', jlit ''assistant''), (''tool_calls'', JArr
         [obj [(''id'', jlit ''a''), (''function'', obj [(''name'', jlit ''f''), (''arguments'', jlit ''[1]'')])]])],
      obj [(''role'', jlit ''tool''), (''tool_call_id'', jlit '' a''), (''content'', jlit ''1'')]]"

theorem valid_history_sound_witness:
  "source_ids (concat (map calls_of (items sample_history))) = [js ''a''] \<and> distinct (answered_ids (items sample_history))"
proof -
  have "history_valid (diagnose sample_history (JArr []))" by code_simp
  then have "pget (diagnose_openai_tool_history sample_history (JArr [])) ''valid'' = JBool True"
    by (simp add: diagnose_openai_tool_history_def pget_obj Let_def)
  moreover have "source_ids (concat (map calls_of (items sample_history))) = [js ''a'']" by code_simp
  ultimately show ?thesis using valid_history_sound [of sample_history "JArr []"] by simp
qed

end
