(* ===== verification/Worker_Requests.thy ===== *)
theory Worker_Requests
  imports Worker_Stream Worker_Content Js_Utf8
begin

text \<open>
  The parts of \<open>worker/src/daemon.mjs\<close> that compute and keep no state: the configuration, the
  check of the API key, the choice of the route, the shape of the responses and of the errors, the
  quota blocks. The state of the daemon is in \<open>Worker_Daemon\<close>, the chat calls in \<open>Worker_Chat\<close>.

  The parsed URL of a request is given by its path and by whether its first \<open>refresh\<close> parameter is
  "1"; the headers by the two the code reads.
\<close>

section \<open>Configuration\<close>

record config =
  c_api_key :: jstr
  c_account :: jstr
  c_allow_insecure :: bool
  c_default_endpoint :: jstr
  c_catalog_ttl :: jsnum
  c_max_in_flight :: jsnum

text \<open>\<open>Math.max(lo, Number(v || d) || d)\<close>.\<close>

definition at_least :: "rat \<Rightarrow> jsval \<Rightarrow> rat \<Rightarrow> jsnum" where
  "at_least lo v d =
     (let n = to_number (js_or v (JNum (Fin d))); n = (if num_truthy n then n else Fin d)
      in if num_le (Fin lo) n then n else Fin lo)"

definition default_catalog_ttl_ms :: rat where
  "default_catalog_ttl_ms = 5 * 60000"

definition catalog_ttl_ms :: "jsval \<Rightarrow> jsnum" where
  "catalog_ttl_ms v = at_least 10000 v default_catalog_ttl_ms"

definition max_in_flight :: "jsval \<Rightarrow> jsnum" where
  "max_in_flight v = at_least 1 v 4"

definition cn_bundles :: "jstr \<Rightarrow> jstr list" where
  "cn_bundles dir = [js ''/usr/local/lib/node_modules/@qodercn-ai/qoderclicn/bundle/qoderclicn.js'',
     dir @ js ''/node_modules/@qodercn-ai/qoderclicn/bundle/qoderclicn.js'']"

definition global_bundles :: "jstr \<Rightarrow> jstr list" where
  "global_bundles dir = [js ''/usr/local/lib/node_modules/@qoder-ai/qodercli/bundle/qodercli.js'',
     dir @ js ''/node_modules/@qoder-ai/qodercli/bundle/qodercli.js'']"

text \<open>\<open>dir\<close> is the directory above the one of the daemon.\<close>

definition default_qodercli_path :: "jsval \<Rightarrow> jstr \<Rightarrow> (jstr \<Rightarrow> bool) \<Rightarrow> jstr" where
  "default_qodercli_path site dir exists_file =
     (let candidates = (if to_lower (to_string (js_or site (JStr []))) = js ''cn'' then cn_bundles dir @ global_bundles dir
                        else global_bundles dir @ cn_bundles dir)
      in case find exists_file candidates of Some p \<Rightarrow> p | None \<Rightarrow> hd candidates)"

text \<open>\<open>base\<close> is the base name of the bundle's path.\<close>

definition qoder_site :: "jsval \<Rightarrow> jstr \<Rightarrow> jstr" where
  "qoder_site site base =
     (let s = to_lower (to_string (js_or site (JStr []))) in
      if s = js ''cn'' \<or> s = js ''global'' then s
      else if contains (js ''qoderclicn'') base then js ''cn'' else js ''global'')"

definition default_hot_endpoint :: "jstr \<Rightarrow> jstr" where
  "default_hot_endpoint site = (if site = js ''cn'' then js ''https://gateway.qoder.com.cn'' else js ''https://api1.qoder.sh'')"

definition api_key_ok :: "config \<Rightarrow> bool" where
  "api_key_ok c \<longleftrightarrow> c_allow_insecure c
     \<or> (c_api_key c \<noteq> [] \<and> c_api_key c \<noteq> js ''change-me'' \<and> c_api_key c \<noteq> js ''dev-key'')"

definition api_key_error :: string where
  "api_key_error = ''PROXY_API_KEY is required. Set a real key, or ALLOW_INSECURE_API_KEY=1 for local experiments.''"

text \<open>\<open>configureProxy\<close>: what a proxy setting means; \<open>scheme\<close> is the protocol of the parsed URL,
  \<open>None\<close> when it is no URL.\<close>

datatype proxy = No_setting | Direct | Proxy_agent | Proxy_error string

definition configure_proxy :: "jsval \<Rightarrow> (jstr \<Rightarrow> jstr option) \<Rightarrow> proxy" where
  "configure_proxy setting scheme =
     (let raw = trim (to_string (js_or setting (JStr []))); word = map (fold_unit True) raw in
      if raw = [] then No_setting
      else if word = js ''direct'' \<or> word = js ''none'' then Direct
      else (case scheme raw of
              None \<Rightarrow> Proxy_error ''QODER_PROXY_URL must be a valid http(s) proxy URL, direct, or none''
            | Some p \<Rightarrow>
                if p \<noteq> js ''http:'' \<and> p \<noteq> js ''https:'' then
                  Proxy_error ''QODER_PROXY_URL for the Qoder worker supports http(s) proxies; use an HTTP proxy for child runtimes''
                else Proxy_agent))"

text \<open>\<open>loadTemplate\<close> on the texts of the candidate files (\<open>None\<close> when one cannot be read).\<close>

fun load_template :: "jstr option list \<Rightarrow> jsval" where
  "load_template [] = Null"
| "load_template (f # fs) = (case Option.bind f json_parse of Some v \<Rightarrow> v | None \<Rightarrow> load_template fs)"

section \<open>Requests\<close>

record http_request =
  rq_method :: string
  rq_path :: jstr
  rq_refresh :: bool
  rq_authorization :: "jstr option"
  rq_x_api_key :: "jstr option"

definition auth_ok :: "config \<Rightarrow> http_request \<Rightarrow> bool" where
  "auth_ok c r =
     (if c_api_key c = [] then True
      else (let h = (case rq_authorization r of None \<Rightarrow> [] | Some h \<Rightarrow> h);
                got = (if starts_with (js ''Bearer '') h then Some (drop 7 h) else rq_x_api_key r)
            in got = Some (c_api_key c)))"

datatype route =
    Health | Unauthorized | ListModels bool | Quota bool | Checkin | LoginStatus | LoginDevice | LoginPat
  | Rewarm | ChatCompletion | NotFound

definition route_of_request :: "config \<Rightarrow> http_request \<Rightarrow> route" where
  "route_of_request c r =
     (let path = rq_path r; get = (rq_method r = ''GET''); post = (rq_method r = ''POST'') in
      if path = js ''/health'' then Health
      else if \<not> auth_ok c r then Unauthorized
      else if get \<and> path = js ''/admin/models'' then ListModels (rq_refresh r)
      else if get \<and> path = js ''/admin/quota'' then Quota (rq_refresh r)
      else if post \<and> path = js ''/admin/checkin'' then Checkin
      else if get \<and> path = js ''/admin/login/status'' then LoginStatus
      else if post \<and> path = js ''/admin/login/device'' then LoginDevice
      else if post \<and> path = js ''/admin/login/pat'' then LoginPat
      else if post \<and> path = js ''/admin/rewarm'' then Rewarm
      else if post \<and> (path = js ''/v1/chat/completions'' \<or> path = js ''/internal/chat'') then ChatCompletion
      else NotFound)"

definition read_body :: "byte list list \<Rightarrow> jsval option" where
  "read_body chunks =
     (let raw = utf8_decode (concat chunks) in if raw = [] then Some (obj []) else json_parse raw)"

section \<open>Responses\<close>

record http_response =
  hr_status :: jsval
  hr_headers :: "(string \<times> jsval) list"
  hr_body :: jsval

definition send_json :: "config \<Rightarrow> int \<Rightarrow> jsval \<Rightarrow> http_response" where
  "send_json c status body = \<lparr>hr_status = jint status,
     hr_headers = [(''content-type'', jlit ''application/json''),
       (''content-length'', jint (int (byte_length (json_text body)))), (''x-qoder-account'', JStr (c_account c))],
     hr_body = body\<rparr>"

text \<open>What is thrown: the message of an error with the properties the code adds to some.\<close>

record thrown =
  th_message :: jstr
  th_kind :: jsval
  th_status :: jsval
  th_retry_after :: jsval
  th_body :: jsval

definition plain_error :: "jstr \<Rightarrow> thrown" where
  "plain_error m = \<lparr>th_message = m, th_kind = Undef, th_status = Undef, th_retry_after = Undef, th_body = Undef\<rparr>"

definition kind_error :: "string \<Rightarrow> jstr \<Rightarrow> thrown" where
  "kind_error k m = (plain_error m)\<lparr>th_kind := jlit k\<rparr>"

definition busy_error :: "int \<Rightarrow> jsnum \<Rightarrow> thrown" where
  "busy_error in_flight limit = (kind_error ''rate_limit'' (js ''account busy: '' @ dec_digits in_flight
     @ js '' in-flight requests (limit '' @ num_to_str limit @ js '')''))\<lparr>th_status := jint 429\<rparr>"

definition classify_thrown :: "clock \<Rightarrow> thrown \<Rightarrow> classified" where
  "classify_thrown clk e = classify_error clk (obj [(''message'',
       JStr (if th_message e = [] then js ''Error'' else th_message e)), (''kind'', th_kind e),
     (''status'', th_status e), (''retryAfter'', th_retry_after e), (''body'', th_body e)])"

definition send_classified :: "clock \<Rightarrow> config \<Rightarrow> thrown \<Rightarrow> http_response" where
  "send_classified clk c e =
     (let v = classify_thrown clk e;
          body = obj [(''error'', obj ([(''message'', v_message v), (''type'', v_type v), (''code'', v_code v),
                   (''kind'', JStr (v_kind v)), (''failover'', v_failover v)]
                   @ (if 0 < v_retry_after v then [(''retry_after'', jint (v_retry_after v))] else [])))]
      in \<lparr>hr_status = v_status v,
          hr_headers = [(''content-type'', jlit ''application/json'')]
            @ (if 0 < v_retry_after v then [(''retry-after'', JStr (dec_digits (v_retry_after v)))] else [])
            @ [(''x-qoder-error-kind'', JStr (v_kind v)),
               (''x-qoder-failover'', jlit (if truthy (v_failover v) then ''1'' else ''0'')),
               (''x-qoder-account'', JStr (c_account c)),
               (''content-length'', jint (int (byte_length (json_text body))))],
          hr_body = body\<rparr>)"

definition is_auth_error :: "clock \<Rightarrow> jstr \<Rightarrow> bool" where
  "is_auth_error clk m \<longleftrightarrow> v_kind (classify_error clk (obj [(''message'', JStr m)])) = KIND_AUTH"

definition RATE_TEXT_RE :: rx where
  "RATE_TEXT_RE = rx_alt [rx_lit ''unknown sse issue'', rx_lit ''response code=429'']"

record human_error =
  he_code :: jstr
  he_type :: string
  he_message :: jstr

definition humanize_upstream_error :: "jsval \<Rightarrow> jsval \<Rightarrow> human_error" where
  "humanize_upstream_error code msg =
     (let c = to_string (js_or code (JStr [])); m = to_string (js_or msg (JStr [])) in
      if rx_test True LIMIT_TEXT_RE m then
        \<lparr>he_code = js ''prompt_too_large'', he_type = ''invalid_request_error'',
         he_message = js ''Upstream model input token limit hit. Reduce system prompt / history / tools. Detail: '' @ m\<rparr>
      else if c = js ''insufficient_quota'' \<or> rx_test True QUOTA_TEXT_RE m then
        \<lparr>he_code = js ''insufficient_quota'', he_type = ''insufficient_quota'',
         he_message = js ''Upstream model quota exhausted. Detail: '' @ m\<rparr>
      else
        \<lparr>he_code = (if c = [] then js ''upstream_error'' else c), he_type = ''api_error'',
         he_message = (if rx_test True RATE_TEXT_RE m
                       then js ''Upstream rate-limited/quota error (429). Original: '' @ m else m)\<rparr>)"

subsection \<open>The completion object\<close>

record chat_result =
  ch_model :: jsval
  ch_requested :: jsval
  ch_content :: jstr
  ch_reasoning :: jstr
  ch_calls :: "jsval list"
  ch_finish :: jsval
  ch_usage :: usage

definition chat_message :: "chat_result \<Rightarrow> jsval" where
  "chat_message r = obj ([(''role'', jlit ''assistant''),
       (''content'', if ch_content r \<noteq> [] then JStr (ch_content r) else if ch_calls r \<noteq> [] then Null else JStr [])]
     @ (if ch_reasoning r \<noteq> [] then [(''reasoning_content'', JStr (ch_reasoning r))] else [])
     @ (if ch_calls r \<noteq> [] then [(''tool_calls'', JArr (ch_calls r))] else []))"

definition nonzero :: "rat \<Rightarrow> rat \<Rightarrow> jsval" where
  "nonzero a b = JNum (Fin (if a \<noteq> 0 then a else b))"

definition usage_object :: "usage \<Rightarrow> jsval" where
  "usage_object u = obj ([(''prompt_tokens'', JNum (Fin (u_prompt u))), (''completion_tokens'', JNum (Fin (u_completion u))),
       (''total_tokens'', nonzero (u_total u) (u_prompt u + u_completion u)),
       (''source'', if u_source u = [] then jlit ''estimate'' else JStr (u_source u))]
     @ opt_field ''cache_read_tokens'' (u_cache_read u) @ opt_field ''cache_write_tokens'' (u_cache_write u)
     @ (case u_cache_read u of None \<Rightarrow> []
        | Some q \<Rightarrow> [(''prompt_tokens_details'', obj [(''cached_tokens'', JNum (Fin q))])])
     @ opt_field ''credits'' (u_credits u))"

definition completion_object :: "int \<Rightarrow> chat_result \<Rightarrow> jsval" where
  "completion_object now r = obj
     [(''id'', JStr (js ''chatcmpl-'' @ dec_digits now)), (''object'', jlit ''chat.completion''),
      (''created'', jint (now div 1000)), (''model'', js_or (ch_requested r) (ch_model r)),
      (''choices'', JArr [obj [(''index'', jint 0), (''message'', chat_message r),
         (''finish_reason'', js_or (ch_finish r) (if ch_calls r \<noteq> [] then jlit ''tool_calls'' else jlit ''stop''))]]),
      (''usage'', usage_object (ch_usage r))]"

section \<open>Quota\<close>

fun num_neg :: "jsnum \<Rightarrow> jsnum" where
  "num_neg (Fin q) = Fin (- q)"
| "num_neg Inf = NegInf"
| "num_neg NegInf = Inf"
| "num_neg NaN = NaN"

text \<open>\<open>a / b * 100\<close> for a positive \<open>b\<close>.\<close>

fun percent_of :: "jsnum \<Rightarrow> jsnum \<Rightarrow> jsnum" where
  "percent_of (Fin a) (Fin b) = Fin (a / b * 100)"
| "percent_of (Fin a) Inf = Fin 0"
| "percent_of Inf (Fin b) = Inf"
| "percent_of NegInf (Fin b) = NegInf"
| "percent_of _ _ = NaN"

definition number_or_zero :: "jsval \<Rightarrow> jsnum" where
  "number_or_zero v = (let n = to_number v in if num_truthy n then n else Fin 0)"

definition max_zero :: "jsnum \<Rightarrow> jsnum" where
  "max_zero n = (if n = NaN \<or> num_le (Fin 0) n then n else Fin 0)"

definition normalize_quota_block :: "jsval \<Rightarrow> jsval" where
  "normalize_quota_block raw =
     (if \<not> is_object raw then Null
      else (let total = number_or_zero (js_nvl (pget raw ''total'') (pget raw ''cap''));
                used = number_or_zero (pget raw ''used'');
                remaining = (if nullish (pget raw ''remaining'') then max_zero (num_add total (num_neg used))
                             else to_number (pget raw ''remaining''));
                percentage = (if \<not> nullish (pget raw ''percentage'') then to_number (pget raw ''percentage'')
                              else if \<not> num_le total (Fin 0) then percent_of used total else Fin 0)
            in obj ([(''total'', JNum total), (''used'', JNum used), (''remaining'', JNum remaining),
                 (''percentage'', jint (math_round (fin_val percentage))),
                 (''unit'', JStr (to_string (js_or (pget raw ''unit'') (jlit ''credits''))))]
               @ (if truthy (pget raw ''detailUrl'') then [(''detailUrl'', JStr (to_string (pget raw ''detailUrl'')))] else [])
               @ (if \<not> nullish (pget raw ''available'') then [(''available'', JBool (truthy (pget raw ''available'')))] else []))))"

text \<open>\<open>now\<close> is the time in ISO form.\<close>

definition quota_snapshot :: "jstr \<Rightarrow> jsval \<Rightarrow> jsval" where
  "quota_snapshot now raw = obj
     [(''userId'', js_or (pget raw ''userId'') Null), (''userType'', js_or (pget raw ''userType'') Null),
      (''totalUsagePercentage'', JNum (number_or_zero (pget raw ''totalUsagePercentage''))),
      (''isQuotaExceeded'', JBool (truthy (pget raw ''isQuotaExceeded''))),
      (''userQuota'', normalize_quota_block (pget raw ''userQuota'')),
      (''addOnQuota'', normalize_quota_block (pget raw ''addOnQuota'')),
      (''orgResourcePackage'', normalize_quota_block (pget raw ''orgResourcePackage'')),
      (''fetchedAt'', JStr now)]"

section \<open>Properties\<close>

subsection \<open>The key\<close>

lemma starts_with_split: "starts_with p h \<Longrightarrow> h = p @ drop (length p) h"
  by (metis append_take_drop_id starts_with_def)

lemma bearer_key: "starts_with (js ''Bearer '') h \<Longrightarrow> drop 7 h = k \<Longrightarrow> h = js ''Bearer '' @ k"
proof -
  assume "starts_with (js ''Bearer '') h" "drop 7 h = k"
  moreover have "length (js ''Bearer '') = 7" by simp
  ultimately show ?thesis by (metis starts_with_split)
qed

lemma handler_authorized: "route_of_request c r \<notin> {Health, Unauthorized} \<Longrightarrow> auth_ok c r"
  by (auto simp: route_of_request_def Let_def split: if_splits)

text \<open>
  C19: The key guards everything but the health check. With a configuration that passes the start-up
  check, a request that reaches a handler of the daemon other than the health check (and the answer 401 to a
  wrong key), to manage the account or to chat, carries the configured key: as its bearer token or, when
  its authorization is no bearer token, as its x-api-key. The one exception is a configuration without a key,
  which passes that check only with the insecure override; a key that was given is required under the
  override too.
\<close>

theorem handlers_need_key:
  assumes "api_key_ok c" "route_of_request c r \<notin> {Health, Unauthorized}"
  shows "c_api_key c = [] \<and> c_allow_insecure c
    \<or> rq_authorization r = Some (js ''Bearer '' @ c_api_key c)
    \<or> rq_x_api_key r = Some (c_api_key c)
      \<and> \<not> starts_with (js ''Bearer '') (case rq_authorization r of None \<Rightarrow> [] | Some h \<Rightarrow> h)"
proof (cases "c_api_key c = []")
  case True
  with assms(1) show ?thesis by (simp add: api_key_ok_def)
next
  case False
  with handler_authorized [OF assms(2)] show ?thesis
    by (auto simp: auth_ok_def Let_def bearer_key split: if_splits option.splits)
qed

theorem handlers_need_key_witness:
  "let c = \<lparr>c_api_key = js ''k'', c_account = [], c_allow_insecure = False, c_default_endpoint = [],
             c_catalog_ttl = Fin 10000, c_max_in_flight = Fin 4\<rparr>;
       r = \<lparr>rq_method = ''POST'', rq_path = js ''/v1/chat/completions'', rq_refresh = False,
             rq_authorization = Some (js ''Bearer k''), rq_x_api_key = None\<rparr>
   in route_of_request c r = ChatCompletion \<and> rq_authorization r = Some (js ''Bearer '' @ c_api_key c)"
proof -
  let ?c = "\<lparr>c_api_key = js ''k'', c_account = [], c_allow_insecure = False, c_default_endpoint = [],
             c_catalog_ttl = Fin 10000, c_max_in_flight = Fin 4\<rparr>"
  let ?r = "\<lparr>rq_method = ''POST'', rq_path = js ''/v1/chat/completions'', rq_refresh = False,
             rq_authorization = Some (js ''Bearer k''), rq_x_api_key = None\<rparr>"
  have "route_of_request ?c ?r = ChatCompletion" "api_key_ok ?c" by code_simp+
  with handlers_need_key [of ?c ?r] show ?thesis by simp
qed

subsection \<open>Errors of the caller\<close>

lemma rx_free_lit [simp]: "rx_free (rx_lit p)"
proof -
  have "rx_free (rx_str s)" for s by (induction s) auto
  then show ?thesis by (simp add: rx_lit_def)
qed

lemma rx_free_str [simp]: "rx_free (rx_str s)"
  by (induction s) auto

lemma rx_test_opt: "rx_test i b s \<Longrightarrow> rx_test i (RSeq (ROpt a) b) s"
  by (rule rx_test_mono) auto

lemma limit_text_is_limit: "rx_test True LIMIT_TEXT_RE s \<Longrightarrow> rx_test True PROMPT_LIMIT_RE s"
  unfolding LIMIT_TEXT_RE_def PROMPT_LIMIT_RE_def by (auto simp: rx_test_alt_list rx_test_opt simp del: rx_alt.simps)

lemma quota_text_is_quota: "rx_test True QUOTA_TEXT_RE s \<Longrightarrow> rx_test True QUOTA_RE s"
  unfolding QUOTA_TEXT_RE_def QUOTA_RE_def by (auto simp: rx_test_alt_list simp del: rx_alt.simps)

lemma rx_test_prefix: "rx_free r \<Longrightarrow> rx_test i r m \<Longrightarrow> rx_test i r (a @ m @ b)"
  by (rule rx_test_extend)

lemma free_texts [simp]: "rx_free LIMIT_TEXT_RE" "rx_free QUOTA_TEXT_RE"
  by (simp_all add: LIMIT_TEXT_RE_def QUOTA_TEXT_RE_def)

lemma starts_with_Cons: "starts_with (d # p) (c # s) \<Longrightarrow> c = d"
  by (simp add: starts_with_def)

lemma no_json:
  assumes "c = 105 \<or> c = 112"
  shows "json_parse (c # s) = None"
proof -
  have "skip_ws (c # s) = c # s" "parse_number (c # s) = None"
    using assms by (auto simp: skip_ws_def json_ws_def parse_number_def minus_prefix_def int_part_def is_digit_def)
  moreover have "\<not> starts_with (js ''true'') (c # s)" "\<not> starts_with (js ''false'') (c # s)" "\<not> starts_with (js ''null'') (c # s)"
    using assms by (auto dest: starts_with_Cons simp: js_def)
  ultimately have "parse_value (Suc n) (c # s) = None" for n
    unfolding parse_value.simps using assms by auto
  then show ?thesis by (simp add: json_parse_def)
qed

lemma classify_plain:
  assumes "m \<noteq> []" "json_parse m = None"
  obtains rest where "x_searchable (error_facts (obj [(''message'', JStr m), (''kind'', Undef), (''status'', Undef),
      (''retryAfter'', Undef), (''body'', Undef)])) = m @ rest"
    and "x_payload (error_facts (obj [(''message'', JStr m), (''kind'', Undef), (''status'', Undef),
      (''retryAfter'', Undef), (''body'', Undef)])) = obj []"
    and "x_kind_hint (error_facts (obj [(''message'', JStr m), (''kind'', Undef), (''status'', Undef),
      (''retryAfter'', Undef), (''body'', Undef)])) = []"
proof -
  let ?input = "obj [(''message'', JStr m), (''kind'', Undef), (''status'', Undef), (''retryAfter'', Undef), (''body'', Undef)]"
  have payload: "error_payload ?input = obj []"
    using assms by (simp add: error_payload_def pget_obj parse_json_or_null_def js_or_def Let_def)
  have "x_message (error_facts ?input) = m"
    using assms(1) by (simp add: error_facts_def Let_def payload pget_obj js_or_def)
  then obtain rest where "x_searchable (error_facts ?input) = m @ rest"
    by (auto simp: error_facts_def Let_def)
  moreover have "x_payload (error_facts ?input) = obj []" "x_kind_hint (error_facts ?input) = []"
    by (simp_all add: error_facts_def Let_def payload pget_obj js_or_def)
  ultimately show ?thesis using that by blast
qed

text \<open>
  What the daemon calls the caller's fault is not retried elsewhere. When the error of the
  answer is worded as a prompt that is too large or as an exhausted quota, the error the chat call
  throws (its code, a colon and its message) is classified so that no other account is tried. The
  wording and the classifier use different patterns, in different files; the theorem says that they
  agree on these two classes.
\<close>

theorem caller_errors_stay:
  assumes "he_type (humanize_upstream_error code msg) \<noteq> ''api_error''"
  shows "v_failover (classify_thrown clk (plain_error
       (he_code (humanize_upstream_error code msg) @ js '': '' @ he_message (humanize_upstream_error code msg)))) = JBool False"
proof -
  let ?h = "humanize_upstream_error code msg" and ?m = "to_string (js_or msg (JStr []))"
  let ?t = "he_code ?h @ js '': '' @ he_message ?h"
  let ?input = "obj [(''message'', JStr ?t), (''kind'', Undef), (''status'', Undef), (''retryAfter'', Undef), (''body'', Undef)]"
  obtain c s where t: "?t = c # s" "c = 105 \<or> c = 112"
    using assms by (auto simp: humanize_upstream_error_def Let_def js_def split: if_splits)
  then obtain rest where x: "x_searchable (error_facts ?input) = ?t @ rest"
    and p: "x_payload (error_facts ?input) = obj []" and k: "x_kind_hint (error_facts ?input) = []"
    using classify_plain [of ?t] no_json [of c s] by force
  have thrown: "classify_thrown clk (plain_error ?t) = classify_error clk ?input"
    using t by (simp add: classify_thrown_def plain_error_def)
  have caller: "kind_of_facts (error_facts ?input) \<in> {KIND_INVALID_REQUEST, KIND_QUOTA}"
  proof (cases "rx_test True PROMPT_LIMIT_RE (x_searchable (error_facts ?input))")
    case True
    then show ?thesis by (simp add: prompt_limit_kind)
  next
    case False
    have "\<not> rx_test True LIMIT_TEXT_RE ?m"
    proof
      assume l: "rx_test True LIMIT_TEXT_RE ?m"
      then obtain a where "?t = a @ ?m" by (force simp: humanize_upstream_error_def Let_def)
      with l have "rx_test True LIMIT_TEXT_RE (?t @ rest)" using rx_test_extend [of LIMIT_TEXT_RE True ?m a rest] by simp
      with False x show False using limit_text_is_limit by metis
    qed
    with assms have h: "he_code ?h = js ''insufficient_quota''"
      by (auto simp: humanize_upstream_error_def Let_def split: if_splits)
    then have "contains (js ''insufficient_quota'') (?t @ rest)"
      unfolding contains_iff by (metis append_assoc append_Nil)
    then have "rx_test True QUOTA_RE (x_searchable (error_facts ?input))"
      unfolding QUOTA_RE_def x by (rule rx_test_alt_lit) simp
    with False k show ?thesis by (simp add: kind_of_facts_def base_kind_def final_kind_def)
  qed
  then show ?thesis by (auto simp: thrown classify_fields p conf_invalid conf_quota pget_obj)
qed

theorem caller_errors_stay_witness:
  "v_failover (classify_thrown \<lparr>now_ms = 0, date_parse = Map.empty\<rparr> (plain_error
     (js ''insufficient_quota: Upstream model quota exhausted. Detail: no credits''))) = JBool False"
proof -
  have "humanize_upstream_error (jlit ''insufficient_quota'') (jlit ''no credits'') =
      \<lparr>he_code = js ''insufficient_quota'', he_type = ''insufficient_quota'',
       he_message = js ''Upstream model quota exhausted. Detail: no credits''\<rparr>"
    by code_simp
  with caller_errors_stay [of "jlit ''insufficient_quota''" "jlit ''no credits''" "\<lparr>now_ms = 0, date_parse = Map.empty\<rparr>"]
  show ?thesis by (simp add: js_def)
qed

end
