(* ===== verification/Async_Control.thy ===== *)
theory Async_Control
  imports Js_Prelude
begin

text \<open>
  Two patterns by which the program keeps its asynchronous operations apart, each as an interface
  with the laws the program's variables have to provide, and with what follows from the laws alone.

  \<^item> \<open>serial_lock\<close>: a chain of promises. A job is put at the end of the chain, the first job of the
    chain may start, and the chain goes on when it has settled, however it has.
  \<^item> \<open>single_flight\<close>: a promise kept in a variable. A request that finds one joins it; otherwise it
    starts the operation; the variable is cleared when the operation has settled.

  The interfaces are interpreted on the daemon's state and on that of the check-in.
\<close>

section \<open>Chains of promises\<close>

datatype 'j lock_op = Submit 'j | Start | Finish

text \<open>The jobs submitted by a history of operations.\<close>

fun submitted :: "'j lock_op list \<Rightarrow> 'j list" where
  "submitted [] = []"
| "submitted (Submit j # ops) = j # submitted ops"
| "submitted (Start # ops) = submitted ops"
| "submitted (Finish # ops) = submitted ops"

fun lock_step :: "('j \<Rightarrow> 's \<Rightarrow> 's) \<Rightarrow> ('s \<Rightarrow> 's) \<Rightarrow> ('s \<Rightarrow> 's) \<Rightarrow> 'j lock_op \<Rightarrow> 's \<Rightarrow> 's" where
  "lock_step submit start finish (Submit j) = submit j"
| "lock_step submit start finish Start = start"
| "lock_step submit start finish Finish = finish"

text \<open>As many turns as there are jobs.\<close>

fun turns :: "nat \<Rightarrow> 'j lock_op list" where
  "turns 0 = []"
| "turns (Suc n) = Start # Finish # turns n"

lemma submitted_turns: "submitted (turns n) = []"
  by (induction n) auto

locale serial_lock =
  fixes submit :: "'j \<Rightarrow> 's \<Rightarrow> 's"
    and start :: "'s \<Rightarrow> 's"
    and finish :: "'s \<Rightarrow> 's"
    and jobs :: "'s \<Rightarrow> 'j list"
    and running :: "'s \<Rightarrow> 'j list"
    and good :: "'s \<Rightarrow> bool"
  assumes good_submit: "good s \<Longrightarrow> good (submit j s)"
    and good_start: "good s \<Longrightarrow> good (start s)"
    and good_finish: "good s \<Longrightarrow> good (finish s)"
    and jobs_submit: "jobs (submit j s) = jobs s @ [j]"
    and running_submit: "running (submit j s) = running s"
    and jobs_start: "jobs (start s) = jobs s"
    and running_start: "good s \<Longrightarrow> running (start s) = take 1 (jobs s)"
    and jobs_finish: "good s \<Longrightarrow> jobs (finish s) = (if running s = [] then jobs s else tl (jobs s))"
    and running_finish: "good s \<Longrightarrow> running (finish s) = []"
begin

abbreviation exec :: "'j lock_op list \<Rightarrow> 's \<Rightarrow> 's" where
  "exec ops \<equiv> fold (lock_step submit start finish) ops"

text \<open>The jobs that have finished, in the order in which they did.\<close>

fun finished :: "'j lock_op list \<Rightarrow> 's \<Rightarrow> 'j list" where
  "finished [] s = []"
| "finished (Submit j # ops) s = finished ops (submit j s)"
| "finished (Start # ops) s = finished ops (start s)"
| "finished (Finish # ops) s = (if running s = [] then [] else take 1 (jobs s)) @ finished ops (finish s)"

text \<open>No job is lost, repeated or overtaken: what has finished and what is left is, in order, what
  was there and what was submitted.\<close>

lemma fifo: "good s \<Longrightarrow> finished ops s @ jobs (exec ops s) = jobs s @ submitted ops"
proof (induction ops arbitrary: s rule: submitted.induct)
  case (4 ops)
  show ?case
  proof (cases "running s = [] \<or> jobs s = []")
    case False
    then obtain j js where "jobs s = j # js" by (cases "jobs s") auto
    with 4 False show ?thesis by (simp add: jobs_finish good_finish)
  next
    case True
    with 4 show ?thesis by (auto simp: jobs_finish good_finish)
  qed
qed (auto simp: jobs_submit jobs_start good_submit good_start)

text \<open>At most one job runs at any time, and it is the oldest that has not finished.\<close>

lemma running_oldest:
  "good s \<Longrightarrow> running s = [] \<or> running s = take 1 (jobs s) \<Longrightarrow>
   running (exec ops s) = [] \<or> running (exec ops s) = take 1 (jobs (exec ops s))"
proof (induction ops arbitrary: s rule: submitted.induct)
  case (2 j ops)
  then have "running (submit j s) = [] \<or> running (submit j s) = take 1 (jobs (submit j s))"
    by (cases "jobs s") (auto simp: running_submit jobs_submit)
  with 2 show ?case by (simp add: good_submit)
qed (auto simp: running_start jobs_start good_start running_finish good_finish)

text \<open>The chain never stalls: starting and finishing as often as there are jobs empties it.\<close>

lemma drains: "good s \<Longrightarrow> length (jobs s) = n \<Longrightarrow> jobs (exec (turns n) s) = []"
proof (induction n arbitrary: s)
  case (Suc n)
  then have "jobs s \<noteq> []" by auto
  then have "jobs (finish (start s)) = tl (jobs s)" using Suc.prems by (simp add: jobs_finish jobs_start running_start good_start)
  then have "length (jobs (finish (start s))) = n" using Suc.prems by simp
  with Suc.IH Suc.prems show ?case by (simp add: good_start good_finish)
qed simp

lemma drained_in_order: "good s \<Longrightarrow> finished (turns (length (jobs s))) s = jobs s"
  using fifo [of s "turns (length (jobs s))"] by (simp add: drains submitted_turns)

end

section \<open>Promises kept in a variable\<close>

datatype flight_op = Request | Settle

definition settles :: "flight_op list \<Rightarrow> nat" where
  "settles ops = length (filter ((=) Settle) ops)"

lemma settles_simps [simp]:
  "settles [] = 0" "settles (Request # ops) = settles ops" "settles (Settle # ops) = Suc (settles ops)"
  by (simp_all add: settles_def)

fun flight_step :: "('s \<Rightarrow> 's) \<Rightarrow> ('s \<Rightarrow> 's) \<Rightarrow> flight_op \<Rightarrow> 's \<Rightarrow> 's" where
  "flight_step request settle Request = request"
| "flight_step request settle Settle = settle"

locale single_flight =
  fixes pending :: "'s \<Rightarrow> bool"
    and request :: "'s \<Rightarrow> 's"
    and settle :: "'s \<Rightarrow> 's"
  assumes request_starts: "\<not> pending s \<Longrightarrow> pending (request s)"
    and request_joins: "pending s \<Longrightarrow> request s = s"
    and settle_clears: "\<not> pending (settle s)"
begin

abbreviation flight :: "flight_op list \<Rightarrow> 's \<Rightarrow> 's" where
  "flight ops \<equiv> fold (flight_step request settle) ops"

text \<open>How often the operation is started.\<close>

fun starts :: "flight_op list \<Rightarrow> 's \<Rightarrow> nat" where
  "starts [] s = 0"
| "starts (Request # ops) s = (if pending s then 0 else 1) + starts ops (request s)"
| "starts (Settle # ops) s = starts ops (settle s)"

text \<open>The operation is never in flight twice: between two starts there is a settlement.\<close>

lemma starts_le: "starts ops s \<le> settles ops + (if pending s then 0 else 1)"
proof (induction ops s rule: starts.induct)
  case (2 ops s)
  show ?case using "2.IH" request_starts [of s] request_joins [of s] by (cases "pending s") (auto split: if_splits)
next
  case (3 ops s)
  show ?case using "3.IH" settle_clears [of s] by (simp split: if_splits)
qed simp

text \<open>Any number of requests while it is in flight change nothing.\<close>

lemma requests_join: "pending s \<Longrightarrow> flight (replicate n Request) s = s"
  by (induction n) (auto simp: request_joins)

text \<open>It can always be started again once it has settled.\<close>

lemma starts_again: "starts (ops @ [Settle, Request]) s = Suc (starts ops s)"
  by (induction ops s rule: starts.induct) (auto simp: settle_clears)

end

end
