(* ===== verification/Worker_Daemon.thy ===== *)
theory Worker_Daemon
  imports Worker_Requests Worker_Catalog Worker_Checkin Worker_Compat Async_Control
begin

text \<open>
  The state of \<open>worker/src/daemon.mjs\<close> and its operations. The variables of the module are the
  fields of \<open>daemon\<close>; an asynchronous function is one operation for each stretch of code between two
  awaits, because nothing else runs during such a stretch. What an await brings is an argument of the
  operation after it. \<open>Worker_Daemon_Runs\<close> interleaves the operations.

  Two fields stand for promises the code keeps in variables: \<open>d_lock\<close> for \<open>encodeChain\<close> (the jobs of
  the chain that have not settled, the first one with the mark that it has started) and \<open>d_rewarm\<close>
  for \<open>rewarmPromise\<close>. \<open>d_rewarms\<close> and \<open>d_refreshes\<close> record how the promises of earlier rewarms and
  catalog refreshes settled, for the operations that wait for one of them.
\<close>

section \<open>State\<close>

text \<open>A context of the CLI's runtime, a handle with or without \<open>prepareInferRequest\<close>, and an
  authentication manager with the methods it has.\<close>

record cli_context =
  cx_id :: nat
  cx_prepares :: bool

record manager =
  mg_id :: nat
  mg_force_refresh :: bool
  mg_refresh_if_needed :: bool
  mg_create_context :: bool
  mg_device_login :: bool
  mg_pat_login :: bool
  mg_init_auth :: bool
  mg_get_user :: bool
  mg_is_authenticated :: bool

record login =
  lg_status :: string
  lg_auth_url :: jsval
  lg_message :: jsval
  lg_started :: jsval
  lg_finished :: jsval

datatype job = Encode nat | Rewarm_job jstr

text \<open>A rewarm waits for its turn, for the token, for the new context.\<close>

datatype rewarm = Rw_waiting | Rw_refreshing manager | Rw_creating

text \<open>\<open>catalogRefreshPromise\<close>: a refresh in progress, or a promise that has settled with a snapshot
  (or with the null of no catalog).\<close>

datatype refresh = Refreshing | Refreshed "snapshot option"

record daemon =
  d_boot_mode :: string
  d_context :: "cli_context option"
  d_endpoint :: jsval
  d_model_key :: jsval
  d_model_source :: jsval
  d_started :: bool
  d_warm :: bool
  d_manager :: "manager option"
  d_global_manager :: "manager option"
  d_rewarm_count :: int
  d_last_rewarm :: jsval
  d_last_error :: jsval
  d_rewarm :: "rewarm option"
  d_rewarms :: "jstr option list"
  d_login :: login
  d_login_wait :: bool
  d_catalog :: "snapshot option"
  d_refreshed_at :: int
  d_refresh :: "refresh option"
  d_refreshes :: nat
  d_catalog_error :: jsval
  d_quota :: jsval
  d_quota_error :: jsval
  d_lock :: "(job \<times> bool) list"
  d_in_flight :: int

definition idle_login :: login where
  "idle_login = \<lparr>lg_status = ''idle'', lg_auth_url = Null, lg_message = Null, lg_started = Null, lg_finished = Null\<rparr>"

definition daemon_start :: daemon where
  "daemon_start = \<lparr>d_boot_mode = ''pending'', d_context = None, d_endpoint = Null, d_model_key = jlit ''auto'',
     d_model_source = jlit ''system'', d_started = False, d_warm = False, d_manager = None, d_global_manager = None,
     d_rewarm_count = 0, d_last_rewarm = Null, d_last_error = Null, d_rewarm = None, d_rewarms = [],
     d_login = idle_login, d_login_wait = False, d_catalog = None, d_refreshed_at = 0, d_refresh = None,
     d_refreshes = 0, d_catalog_error = Null, d_quota = Null, d_quota_error = Null, d_lock = [], d_in_flight = 0\<rparr>"

text \<open>\<open>getAuthManager\<close>.\<close>

definition get_manager :: "daemon \<Rightarrow> manager option" where
  "get_manager s = (case d_manager s of Some m \<Rightarrow> Some m | None \<Rightarrow> d_global_manager s)"

section \<open>The server and the context\<close>

text \<open>\<open>maybeStartServer\<close>: a message when it throws.\<close>

definition start_server :: "config \<Rightarrow> daemon \<Rightarrow> (jstr + unit) \<times> daemon" where
  "start_server c s =
     (if d_started s then (Inr (), s)
      else if \<not> api_key_ok c then (Inl (js api_key_error), s)
      else (Inr (), s\<lparr>d_started := True\<rparr>))"

definition adopted :: "config \<Rightarrow> cli_context \<Rightarrow> jsval \<Rightarrow> jsval \<Rightarrow> jsval \<Rightarrow> manager option \<Rightarrow> daemon \<Rightarrow> daemon" where
  "adopted c x ep key source mgr s = s\<lparr>
     d_context := Some x,
     d_endpoint := js_or ep (js_or (d_endpoint s) (JStr (c_default_endpoint c))),
     d_model_key := js_or key (d_model_key s),
     d_model_source := js_or source (d_model_source s),
     d_manager := (case mgr of None \<Rightarrow> d_manager s | Some m \<Rightarrow> Some m),
     d_warm := True\<rparr>"

text \<open>\<open>adoptContext\<close>: whether it adopted, or what it throws; the assignments stay when it throws.\<close>

definition adopt_context ::
    "config \<Rightarrow> cli_context option \<Rightarrow> jsval \<Rightarrow> jsval \<Rightarrow> jsval \<Rightarrow> manager option \<Rightarrow> daemon \<Rightarrow> (jstr + bool) \<times> daemon" where
  "adopt_context c ctx ep key source mgr s =
     (case ctx of
        None \<Rightarrow> (Inr False, s)
      | Some x \<Rightarrow>
          if \<not> cx_prepares x then (Inr False, s)
          else case start_server c (adopted c x ep key source mgr s) of
                 (Inl e, s') \<Rightarrow> (Inl e, s')
               | (Inr _, s') \<Rightarrow> (Inr True, s'))"

text \<open>The two hooks the patched CLI calls: with a context it has made, and before it encodes.\<close>

definition hook_adopt :: "config \<Rightarrow> cli_context option \<Rightarrow> manager option \<Rightarrow> daemon \<Rightarrow> (jstr + bool) \<times> daemon" where
  "hook_adopt c ctx mgr s =
     (let m = (case mgr of Some m \<Rightarrow> Some m | None \<Rightarrow> get_manager s); s1 = s\<lparr>d_manager := m\<rparr>
      in adopt_context c ctx (d_endpoint s1) (d_model_key s1) (d_model_source s1) m s1)"

definition hook_prepare ::
    "config \<Rightarrow> cli_context option \<Rightarrow> jsval \<Rightarrow> jsval \<Rightarrow> jsval \<Rightarrow> daemon \<Rightarrow> (jstr + bool) \<times> daemon" where
  "hook_prepare c ctx ep key source s =
     (let s1 = s\<lparr>d_manager := (case d_global_manager s of Some m \<Rightarrow> Some m | None \<Rightarrow> d_manager s)\<rparr> in
      case d_context s1 of
        None \<Rightarrow> adopt_context c ctx ep (js_or key (jlit ''auto'')) (js_or source (jlit ''system'')) (d_manager s1) s1
      | Some _ \<Rightarrow>
          (Inr False,
           if truthy ep then s1\<lparr>d_endpoint := ep, d_model_key := js_or key (d_model_key s1),
             d_model_source := js_or source (d_model_source s1)\<rparr>
           else s1))"

text \<open>\<open>process.exit\<close> is replaced: whether the process really ends.\<close>

definition exits :: "daemon \<Rightarrow> bool" where
  "exits s \<longleftrightarrow> \<not> (d_started s \<or> d_context s \<noteq> None)"

section \<open>The encode lock and the limit on chats\<close>

text \<open>\<open>withEncodeLock\<close> as its callers see it: a job is chained behind the last one; the first job of the
  chain starts when its turn comes, and leaves the chain when it has settled, well or badly. \<open>Worker_Lock\<close>
  has the promises themselves, with the handlers of the code and the outcomes of the jobs, and proves that
  the list \<open>d_lock\<close> is what they amount to.\<close>

definition with_encode_lock :: "job \<Rightarrow> daemon \<Rightarrow> daemon" where
  "with_encode_lock j s = s\<lparr>d_lock := d_lock s @ [(j, False)]\<rparr>"

definition start_job :: "daemon \<Rightarrow> daemon" where
  "start_job s = (case d_lock s of [] \<Rightarrow> s | (j, _) # q \<Rightarrow> s\<lparr>d_lock := (j, True) # q\<rparr>)"

definition settle_job :: "daemon \<Rightarrow> daemon" where
  "settle_job s = (case d_lock s of (j, True) # q \<Rightarrow> s\<lparr>d_lock := q\<rparr> | _ \<Rightarrow> s)"

definition lock_jobs :: "daemon \<Rightarrow> job list" where
  "lock_jobs s = map fst (d_lock s)"

definition lock_running :: "daemon \<Rightarrow> job list" where
  "lock_running s = map fst (filter snd (d_lock s))"

text \<open>Only the first job of the chain can have started.\<close>

definition lock_good :: "daemon \<Rightarrow> bool" where
  "lock_good s \<longleftrightarrow> list_all (\<lambda>e. \<not> snd e) (tl (d_lock s))"

definition acquire_in_flight :: "config \<Rightarrow> daemon \<Rightarrow> (thrown + unit) \<times> daemon" where
  "acquire_in_flight c s =
     (if num_le (c_max_in_flight c) (Fin (of_int (d_in_flight s))) then (Inl (busy_error (d_in_flight s) (c_max_in_flight c)), s)
      else (Inr (), s\<lparr>d_in_flight := d_in_flight s + 1\<rparr>))"

definition release_in_flight :: "daemon \<Rightarrow> daemon" where
  "release_in_flight s = s\<lparr>d_in_flight := max 0 (d_in_flight s - 1)\<rparr>"

section \<open>Rewarming\<close>

definition rewarm_request :: "jstr \<Rightarrow> daemon \<Rightarrow> daemon" where
  "rewarm_request reason s =
     (if d_rewarm s \<noteq> None then s
      else (with_encode_lock (Rewarm_job reason) s)\<lparr>d_rewarm := Some Rw_waiting\<rparr>)"

text \<open>The promise settles: \<open>None\<close> for success, else the message; the \<open>finally\<close> clears the variable
  before the next job of the chain starts.\<close>

definition rewarm_settle :: "jstr option \<Rightarrow> daemon \<Rightarrow> daemon" where
  "rewarm_settle r s = (settle_job s)\<lparr>d_rewarm := None, d_rewarms := d_rewarms s @ [r]\<rparr>"

text \<open>The turn of the rewarm: it fails without a manager; a manager without either refresh method
  goes on at once.\<close>

definition rewarm_create :: "manager \<Rightarrow> daemon \<Rightarrow> daemon" where
  "rewarm_create m s =
     (if \<not> mg_create_context m then rewarm_settle (Some (js ''auth manager missing createWasmContext'')) s
      else s\<lparr>d_rewarm := Some Rw_creating\<rparr>)"

definition rewarm_start :: "jstr \<Rightarrow> daemon \<Rightarrow> daemon" where
  "rewarm_start reason s =
     (let s1 = (start_job s)\<lparr>d_last_error := JStr reason\<rparr> in
      case get_manager s1 of
        None \<Rightarrow> rewarm_settle (Some (js ''auth manager not captured; cannot rewarm in-process'')) s1
      | Some m \<Rightarrow>
          if mg_force_refresh m \<or> mg_refresh_if_needed m then s1\<lparr>d_rewarm := Some (Rw_refreshing m)\<rparr>
          else rewarm_create m s1)"

text \<open>The token has been refreshed (\<open>None\<close>) or could not be.\<close>

definition rewarm_refreshed :: "jstr option \<Rightarrow> manager \<Rightarrow> daemon \<Rightarrow> daemon" where
  "rewarm_refreshed r m s = (case r of Some e \<Rightarrow> rewarm_settle (Some e) s | None \<Rightarrow> rewarm_create m s)"

definition rewarm_created :: "jstr \<Rightarrow> jstr option \<Rightarrow> daemon \<Rightarrow> daemon" where
  "rewarm_created now r s =
     (case r of
        Some e \<Rightarrow> rewarm_settle (Some e) s
      | None \<Rightarrow>
          if d_context s = None then rewarm_settle (Some (js ''rewarm finished but hot context missing'')) s
          else rewarm_settle None (s\<lparr>d_rewarm_count := d_rewarm_count s + 1, d_last_rewarm := JStr now,
                 d_last_error := Null\<rparr>))"

section \<open>The model catalog\<close>

definition invalidate_catalog :: "daemon \<Rightarrow> daemon" where
  "invalidate_catalog s = s\<lparr>d_catalog := None, d_refreshed_at := 0, d_catalog_error := Null\<rparr>"

text \<open>What the CLI's catalog offers: no hook, an object without the two methods, an \<open>init\<close> that
  throws before it returns a promise, or one that returns it.\<close>

datatype catalog_hook = No_hook | Bad_api | Init_throws jstr | Init_pending

text \<open>The failures that come before the first await of a refresh.\<close>

definition refresh_fault :: "catalog_hook \<Rightarrow> daemon \<Rightarrow> jstr option" where
  "refresh_fault h s =
     (if get_manager s = None then Some (js ''auth manager not captured'')
      else case h of
             No_hook \<Rightarrow> Some (js ''QoderModelCatalog hook unavailable'')
           | Bad_api \<Rightarrow> Some (js ''QoderModelCatalog API unavailable'')
           | Init_throws e \<Rightarrow> Some e
           | Init_pending \<Rightarrow> None)"

definition fresh_catalog :: "config \<Rightarrow> int \<Rightarrow> daemon \<Rightarrow> bool" where
  "fresh_catalog c now s \<longleftrightarrow> d_catalog s \<noteq> None
     \<and> num_le (Fin (of_int (now - d_refreshed_at s))) (c_catalog_ttl c) \<and> c_catalog_ttl c \<noteq> Fin (of_int (now - d_refreshed_at s))"

text \<open>
  \<open>refreshModelCatalog\<close> up to its first await: what the caller waits for, and the state. The body is
  an immediately called async function, which runs up to its first await before its promise is
  assigned to \<open>catalogRefreshPromise\<close>. When it fails before that, its \<open>finally\<close> clears the variable
  first and the assignment comes last: the variable keeps the settled promise.
\<close>

definition refresh_request :: "config \<Rightarrow> int \<Rightarrow> bool \<Rightarrow> catalog_hook \<Rightarrow> daemon \<Rightarrow> refresh \<times> daemon" where
  "refresh_request c now force h s =
     (if \<not> force \<and> fresh_catalog c now s then (Refreshed (d_catalog s), s)
      else case d_refresh s of
             Some r \<Rightarrow> (r, s)
           | None \<Rightarrow>
               (case refresh_fault h s of
                  None \<Rightarrow> (Refreshing, s\<lparr>d_refresh := Some Refreshing\<rparr>)
                | Some e \<Rightarrow>
                    let cleared = s\<lparr>d_catalog_error := JStr e, d_refresh := None\<rparr>;
                        p = Refreshed (d_catalog cleared)
                    in (p, cleared\<lparr>d_refresh := Some p\<rparr>)))"

text \<open>The rest: \<open>init\<close> rejected with a message, or the entries the catalog then gives.\<close>

definition refresh_settle :: "int \<Rightarrow> jstr + jsval \<Rightarrow> daemon \<Rightarrow> snapshot option \<times> daemon" where
  "refresh_settle now r s =
     (let failed = (\<lambda>e. s\<lparr>d_catalog_error := JStr e\<rparr>);
          s1 = (case r of
                  Inl e \<Rightarrow> failed e
                | Inr entries \<Rightarrow>
                    let snap = create_snapshot entries in
                    if models snap = [] then failed (js ''Qoder dynamic model catalog is empty'')
                    else s\<lparr>d_catalog := Some snap, d_refreshed_at := now, d_catalog_error := Null\<rparr>)
      in (d_catalog s1, s1\<lparr>d_refresh := None, d_refreshes := d_refreshes s + 1\<rparr>))"

definition resolve_upstream_model :: "snapshot option \<Rightarrow> jsval \<Rightarrow> jstr + route" where
  "resolve_upstream_model snap requested =
     (case snap of
        None \<Rightarrow> Inl (js ''model_catalog_unavailable: Qoder dynamic model catalog is unavailable'')
      | Some _ \<Rightarrow>
          (case resolve_catalog_model snap requested of
             None \<Rightarrow> Inl (js ''model_not_available: '' @ to_string requested @ js '' is not available for this Qoder account'')
           | Some r \<Rightarrow> Inr r))"

text \<open>The objects behind the records of the catalog.\<close>

definition opt_js :: "('a \<Rightarrow> jsval) \<Rightarrow> 'a option \<Rightarrow> jsval" where
  "opt_js f v = (case v of None \<Rightarrow> Undef | Some x \<Rightarrow> f x)"

definition rat_js :: "rat \<Rightarrow> jsval" where
  "rat_js q = JNum (Fin q)"

definition route_js :: "route \<Rightarrow> jsval" where
  "route_js r = obj
     [(''key'', JStr (r_key r)), (''display_name'', JStr (r_display_name r)), (''source'', JStr (r_source r)),
      (''max_input_tokens'', opt_js JNum (r_max_input_tokens r)), (''is_reasoning'', opt_js JBool (r_is_reasoning r)),
      (''is_vl'', opt_js JBool (r_is_vl r)), (''price_factor'', opt_js rat_js (r_price_factor r)),
      (''is_free'', opt_js JBool (r_is_free r)), (''tags'', opt_js (\<lambda>ts. JArr (map JStr ts)) (r_tags r)),
      (''default_context_window'', opt_js rat_js (r_default_context_window r)),
      (''available_context_windows'', opt_js (\<lambda>ws. JArr (map rat_js ws)) (r_available_context_windows r)),
      (''max_output_tokens'', opt_js rat_js (r_max_output_tokens r))]"

definition model_fields :: "model \<Rightarrow> (string \<times> jsval) list" where
  "model_fields m =
     [(''id'', JStr (m_id m)), (''display_name'', JStr (m_display_name m)), (''mapped_key'', JStr (m_mapped_key m)),
      (''route_display_name'', JStr (m_route_display_name m)), (''object'', jlit ''model''), (''owned_by'', jlit ''qoder''),
      (''context_length'', opt_js JNum (m_context_length m)), (''is_reasoning'', opt_js JBool (m_is_reasoning m)),
      (''price_factor'', opt_js rat_js (m_price_factor m)), (''is_free'', opt_js JBool (m_is_free m)),
      (''tags'', opt_js (\<lambda>ts. JArr (map JStr ts)) (m_tags m)),
      (''default_context_window'', opt_js rat_js (m_default_context_window m)),
      (''available_context_windows'', opt_js (\<lambda>ws. JArr (map rat_js ws)) (m_available_context_windows m)),
      (''max_output_tokens'', opt_js rat_js (m_max_output_tokens m))]"

definition list_models :: "snapshot option \<Rightarrow> daemon \<Rightarrow> jsval" where
  "list_models snap s = (case snap of
     None \<Rightarrow> JArr []
   | Some sn \<Rightarrow> JArr (map (\<lambda>m. obj (model_fields m @ [(''stale'', JBool (truthy (d_catalog_error s)))]
       @ (if truthy (d_catalog_error s) then [(''error'', d_catalog_error s)] else []))) (models sn)))"

section \<open>Quota\<close>

text \<open>\<open>fetchQuota\<close> up to its await: \<open>authenticated\<close> is what the manager's \<open>isAuthenticated\<close> says.\<close>

definition quota_fault :: "bool \<Rightarrow> bool \<Rightarrow> bool \<Rightarrow> daemon \<Rightarrow> jstr option" where
  "quota_fault hooked authenticated api s =
     (if \<not> hooked then Some (js ''quota_api_unavailable: Qoder quota API hook unavailable'')
      else if (case get_manager s of None \<Rightarrow> True | Some m \<Rightarrow> \<not> mg_is_authenticated m) \<or> \<not> authenticated
        then Some (js ''not_authenticated: account is not logged in'')
      else if \<not> api then Some (js ''quota_api_unavailable: getQuotaUsage missing on qoder API'')
      else None)"

text \<open>The rest: the call rejected with a message, or what it answered.\<close>

definition quota_settle :: "jstr \<Rightarrow> jstr + jsval \<Rightarrow> daemon \<Rightarrow> (jstr + jsval) \<times> daemon" where
  "quota_settle now r s =
     (case r of
        Inl e \<Rightarrow> (Inl e, s)
      | Inr raw \<Rightarrow>
          if \<not> is_object raw then (Inl (js ''quota response invalid''), s)
          else let q = quota_snapshot now raw in (Inr q, s\<lparr>d_quota := q, d_quota_error := Null\<rparr>))"

definition handle_quota :: "config \<Rightarrow> jstr + jsval \<Rightarrow> daemon \<Rightarrow> http_response \<times> daemon" where
  "handle_quota c r s =
     (case r of
        Inr q \<Rightarrow> (send_json c 200 (obj [(''ok'', JBool True), (''quota'', q)]), s)
      | Inl e \<Rightarrow>
          (send_json c 502 (obj ([(''ok'', JBool False),
               (''error'', obj [(''code'', jlit ''quota_unavailable''), (''message'', JStr e)])]
             @ (if truthy (d_quota s) then [(''quota'', spread_own (d_quota s) [(''stale'', JBool True)])] else []))),
           s\<lparr>d_quota_error := JStr e\<rparr>))"

section \<open>Login\<close>

definition device_refused :: thrown where
  "device_refused = kind_error ''not_ready'' (js ''AuthManager.loginWithDeviceFlow unavailable. Worker may not be warm yet.'')"

definition device_answer :: "jsval \<Rightarrow> jsval \<Rightarrow> daemon \<Rightarrow> jsval" where
  "device_answer url message s =
     obj [(''ok'', JBool True), (''status'', jlit (lg_status (d_login s))), (''authUrl'', url), (''message'', message)]"

text \<open>\<open>startDeviceLogin\<close> up to its await: it throws, it answers at once, or it asks the manager.\<close>

datatype device_start = Refused thrown | Joined jsval | Asked

definition device_request :: "jstr \<Rightarrow> daemon \<Rightarrow> device_start \<times> daemon" where
  "device_request now s =
     (if (case get_manager s of None \<Rightarrow> True | Some m \<Rightarrow> \<not> mg_device_login m) then (Refused device_refused, s)
      else if d_login_wait s then (Joined (device_answer (lg_auth_url (d_login s)) (jlit ''login already in progress'') s), s)
      else (Asked, s\<lparr>d_login := \<lparr>lg_status = ''pending'', lg_auth_url = Null, lg_message = jlit ''starting device flow'',
                          lg_started = JStr now, lg_finished = Null\<rparr>\<rparr>))"

text \<open>The manager's answer: no URL is an error, which leaves the state as it is.\<close>

definition device_answered :: "jsval \<Rightarrow> daemon \<Rightarrow> (jstr + jsval) \<times> daemon" where
  "device_answered result s =
     (let url = js_or (pget result ''authUrl'') (js_or (pget result ''url'') Null) in
      if \<not> truthy url then (Inl (js ''device flow did not return authUrl''), s)
      else let message = jlit ''Open the auth URL in a browser to finish login'';
               s' = s\<lparr>d_login := (d_login s)\<lparr>lg_auth_url := url, lg_message := message\<rparr>, d_login_wait := True\<rparr>
           in (Inr (device_answer url message s'), s'))"

text \<open>The user has logged in: the context is made anew.\<close>

definition device_completed :: "jstr \<Rightarrow> jsval \<Rightarrow> daemon \<Rightarrow> daemon" where
  "device_completed now url s = rewarm_request (js ''login_complete'')
     (s\<lparr>d_login := \<lparr>lg_status = ''ok'', lg_auth_url = url, lg_message = jlit ''login completed'',
          lg_started = lg_started (d_login s), lg_finished = JStr now\<rparr>\<rparr>)"

definition device_rewarmed :: "jstr option \<Rightarrow> daemon \<Rightarrow> daemon" where
  "device_rewarmed r s =
     (let s1 = (case r of None \<Rightarrow> s
                | Some e \<Rightarrow> s\<lparr>d_login := (d_login s)\<lparr>lg_message := JStr (js ''login completed, rewarm failed: '' @ e)\<rparr>\<rparr>)
      in (invalidate_catalog s1)\<lparr>d_login_wait := False\<rparr>)"

definition device_failed :: "jstr \<Rightarrow> jsval \<Rightarrow> jstr \<Rightarrow> daemon \<Rightarrow> daemon" where
  "device_failed now url e s = s\<lparr>d_login := \<lparr>lg_status = ''error'', lg_auth_url = url, lg_message = JStr e,
       lg_started = lg_started (d_login s), lg_finished = JStr now\<rparr>, d_login_wait := False\<rparr>"

text \<open>\<open>loginWithPat\<close>: the token it hands to the manager, then what follows the login, and the end.\<close>

definition pat_request :: "jsval \<Rightarrow> daemon \<Rightarrow> thrown + jstr" where
  "pat_request pat s =
     (if (case get_manager s of None \<Rightarrow> True | Some m \<Rightarrow> \<not> mg_pat_login m)
        then Inl (kind_error ''not_ready'' (js ''AuthManager.loginWithPAT unavailable. Worker may not be warm yet.''))
      else let token = trim (to_string (js_or pat (JStr []))) in
        if token = [] then Inl (plain_error (js ''pat required'')) else Inr token)"

definition pat_logged_in :: "daemon \<Rightarrow> daemon" where
  "pat_logged_in s = rewarm_request (js ''pat_login'') (invalidate_catalog s)"

definition pat_completed :: "jstr \<Rightarrow> daemon \<Rightarrow> jsval \<times> daemon" where
  "pat_completed now s =
     (obj [(''ok'', JBool True), (''status'', jlit ''ok'')],
      s\<lparr>d_login := \<lparr>lg_status = ''ok'', lg_auth_url = Null, lg_message = jlit ''PAT login completed'',
          lg_started = JStr now, lg_finished = JStr now\<rparr>\<rparr>)"

section \<open>Start\<close>

text \<open>\<open>bootFromAuthManager\<close>, which the patched CLI calls: up to the runtime's initialization, with
  the manager it then gives, what \<open>initAuth\<close> may have failed with, and after the first refresh of
  the catalog.\<close>

definition boot_begin :: "daemon \<Rightarrow> daemon" where
  "boot_begin s = s\<lparr>d_boot_mode := ''pure-wasm''\<rparr>"

definition boot_manager :: "manager option \<Rightarrow> daemon \<Rightarrow> daemon" where
  "boot_manager m s = (case m of None \<Rightarrow> s | Some _ \<Rightarrow> s\<lparr>d_manager := m, d_global_manager := m\<rparr>)"

definition boot_auth :: "jstr option \<Rightarrow> daemon \<Rightarrow> daemon" where
  "boot_auth failed s = (case failed of None \<Rightarrow> s | Some e \<Rightarrow> s\<lparr>d_last_error := JStr e\<rparr>)"

definition boot_end :: "config \<Rightarrow> daemon \<Rightarrow> (jstr + unit) \<times> daemon" where
  "boot_end c s = (case start_server c s of
     (Inl e, s') \<Rightarrow> (Inl e, s') | (Inr _, s') \<Rightarrow> (Inr (), s'\<lparr>d_warm := True\<rparr>))"

text \<open>The module itself: the check of the CLI's bundle (\<open>source\<close> is its text, \<open>None\<close> without a file;
  \<open>version\<close> what \<open>readQodercliVersion\<close> found), how it boots, and the arguments of a warm-up run.\<close>

definition assert_compatible :: "jstr \<Rightarrow> jstr option \<Rightarrow> jstr option \<Rightarrow> jstr + unit" where
  "assert_compatible path source version =
     (case source of
        None \<Rightarrow> Inl (js ''qodercli bundle not found at '' @ path @ js ''. Install @qoder-ai/qodercli@'' @ js pinned_version
          @ js '' or @qodercn-ai/qoderclicn@'' @ js pinned_version @ js '' and set QODERCLI_JS.'')
      | Some t \<Rightarrow>
          (let r = inspect_source (case version of None \<Rightarrow> [] | Some v \<Rightarrow> v) t in
           if \<not> rp_ok r then Inl (rp_message r) else Inr ()))"

definition skips_main :: "jsval \<Rightarrow> jstr \<Rightarrow> bool" where
  "skips_main setting source \<longleftrightarrow> setting \<noteq> jlit ''0'' \<and> has needle_main source"

definition boot_mode :: "bool \<Rightarrow> string" where
  "boot_mode skip = (if skip then ''pure-wasm'' else ''warmup-import'')"

definition warmup_argv :: "jstr \<Rightarrow> jstr \<Rightarrow> jsval \<Rightarrow> jstr list" where
  "warmup_argv exec_path cli_path cwd =
     [exec_path, cli_path, js ''--print'', js ''--output-format'', js ''json'', js ''--model'', js ''auto'',
      js ''--dangerously-skip-permissions'', js ''--cwd'', to_string (js_or cwd (jlit ''/tmp'')), js ''--'',
      [0x53EA, 0x56DE, 0x590D, 79, 75]]"

section \<open>Responses\<close>

definition login_js :: "login \<Rightarrow> jsval" where
  "login_js l = obj [(''status'', jlit (lg_status l)), (''authUrl'', lg_auth_url l), (''message'', lg_message l),
     (''startedAt'', lg_started l), (''finishedAt'', lg_finished l)]"

text \<open>\<open>user\<close> is what \<open>getUserInfo\<close> gives, \<open>print_time\<close> prints a time.\<close>

definition health_json :: "config \<Rightarrow> jsval \<Rightarrow> (int \<Rightarrow> jstr) \<Rightarrow> daemon \<Rightarrow> jsval" where
  "health_json c user print_time s = (let hot = JBool (d_context s \<noteq> None); mgr = get_manager s in obj
     [(''ok'', JBool True), (''hot'', hot), (''ready'', hot), (''endpoint'', d_endpoint s), (''modelKey'', d_model_key s),
      (''hasAuthManager'', JBool (mgr \<noteq> None)), (''accountId'', JStr (c_account c)), (''bootMode'', jlit (d_boot_mode s)),
      (''uid'', js_or (if (case mgr of None \<Rightarrow> False | Some m \<Rightarrow> mg_get_user m) then pget user ''uid'' else Undef) Null),
      (''inFlight'', jint (d_in_flight s)), (''maxInFlight'', JNum (c_max_in_flight c)),
      (''rewarmCount'', jint (d_rewarm_count s)), (''lastRewarmAt'', d_last_rewarm s), (''lastError'', d_last_error s),
      (''catalog'', obj [(''ready'', JBool (d_catalog s \<noteq> None)),
         (''refreshedAt'', if d_refreshed_at s \<noteq> 0 then JStr (print_time (d_refreshed_at s)) else Null),
         (''error'', d_catalog_error s)]),
      (''quota'', obj [(''ready'', JBool (truthy (d_quota s))), (''fetchedAt'', js_or (pget (d_quota s) ''fetchedAt'') Null),
         (''error'', d_quota_error s)]),
      (''login'', obj [(''status'', jlit (lg_status (d_login s))), (''authUrl'', lg_auth_url (d_login s)),
         (''message'', lg_message (d_login s))])])"

definition unauthorized :: "config \<Rightarrow> http_response" where
  "unauthorized c = send_json c 401 (obj [(''error'', obj [(''code'', jlit ''invalid_api_key''), (''message'', jlit ''unauthorized'')])])"

definition not_found :: "config \<Rightarrow> http_response" where
  "not_found c = send_json c 404 (obj [(''error'', obj [(''code'', jlit ''not_found''), (''message'', jlit ''not found'')])])"

definition models_response :: "config \<Rightarrow> jsval \<Rightarrow> http_response" where
  "models_response c data = send_json c 200 (obj [(''object'', jlit ''list''), (''data'', data)])"

definition checkin_fields :: "checkin_result \<Rightarrow> (string \<times> jsval) list" where
  "checkin_fields r = [(''status'', jlit (co_status r)), (''message'', JStr (co_message r))]
     @ opt_field ''reward_credits'' (co_reward r)"

definition checkin_response :: "config \<Rightarrow> jstr + checkin_result \<Rightarrow> http_response" where
  "checkin_response c r =
     (if c_api_key c = [] then send_json c 503 (obj [(''error'', obj [(''code'', jlit ''checkin_unavailable''),
          (''message'', jlit ''worker admin key required'')])])
      else case r of
             Inr v \<Rightarrow> send_json c 200 (obj ((''ok'', JBool True) # checkin_fields v))
           | Inl e \<Rightarrow> send_json c 502 (obj [(''error'', obj [(''code'', jlit ''checkin_failed''), (''message'', JStr e)])]))"

definition login_response :: "config \<Rightarrow> daemon \<Rightarrow> http_response" where
  "login_response c s = send_json c 200 (obj [(''ok'', JBool True), (''hot'', JBool (d_context s \<noteq> None)),
     (''hasAuthManager'', JBool (get_manager s \<noteq> None)), (''login'', login_js (d_login s))])"

definition rewarm_response :: "config \<Rightarrow> daemon \<Rightarrow> http_response" where
  "rewarm_response c s = send_json c 200 (obj [(''ok'', JBool True), (''rewarmCount'', jint (d_rewarm_count s)),
     (''lastRewarmAt'', d_last_rewarm s), (''hot'', JBool (d_context s \<noteq> None))])"

section \<open>Lemmas\<close>

text \<open>Fields an operation leaves alone.\<close>

lemma start_server_cases:
  "start_server c s = (Inr (), s) \<and> d_started s
   \<or> start_server c s = (Inl (js api_key_error), s) \<and> \<not> d_started s
   \<or> start_server c s = (Inr (), s\<lparr>d_started := True\<rparr>) \<and> api_key_ok c"
  by (simp add: start_server_def)

lemma settle_job_fields [simp]:
  "d_context (settle_job s) = d_context s" "d_rewarm (settle_job s) = d_rewarm s" "d_in_flight (settle_job s) = d_in_flight s"
  "d_rewarms (settle_job s) = d_rewarms s" "d_started (settle_job s) = d_started s" "d_endpoint (settle_job s) = d_endpoint s"
  "d_refresh (settle_job s) = d_refresh s" "d_catalog (settle_job s) = d_catalog s" "d_login (settle_job s) = d_login s"
  "d_login_wait (settle_job s) = d_login_wait s"
  by (simp_all add: settle_job_def split: list.split prod.split bool.split)

lemma start_job_fields [simp]:
  "d_context (start_job s) = d_context s" "d_rewarm (start_job s) = d_rewarm s" "d_in_flight (start_job s) = d_in_flight s"
  "d_rewarms (start_job s) = d_rewarms s" "d_started (start_job s) = d_started s" "d_endpoint (start_job s) = d_endpoint s"
  "d_refresh (start_job s) = d_refresh s" "d_catalog (start_job s) = d_catalog s" "d_login (start_job s) = d_login s"
  "d_login_wait (start_job s) = d_login_wait s"
  by (simp_all add: start_job_def split: list.split)

lemma lock_jobs_simps [simp]:
  "lock_jobs (with_encode_lock j s) = lock_jobs s @ [j]" "lock_jobs (start_job s) = lock_jobs s"
  by (simp_all add: lock_jobs_def with_encode_lock_def start_job_def split: list.split)

lemma lock_good_submit: "lock_good s \<Longrightarrow> lock_good (with_encode_lock j s)"
  and lock_good_start: "lock_good s \<Longrightarrow> lock_good (start_job s)"
  and lock_good_settle: "lock_good s \<Longrightarrow> lock_good (settle_job s)"
    apply (cases "d_lock s"; simp add: lock_good_def with_encode_lock_def)
   apply (cases "d_lock s"; auto simp: lock_good_def start_job_def)
  apply (cases "d_lock s"; cases "tl (d_lock s)"; auto simp: lock_good_def settle_job_def split: bool.split)
  done

lemma lock_rest_waits: "lock_good s \<Longrightarrow> d_lock s = e # q \<Longrightarrow> filter snd q = []"
  by (auto simp: lock_good_def list_all_iff filter_empty_conv)

lemma lock_running_submit: "lock_running (with_encode_lock j s) = lock_running s"
  by (simp add: lock_running_def with_encode_lock_def)

interpretation encode_lock: serial_lock with_encode_lock start_job settle_job lock_jobs lock_running lock_good
proof unfold_locales
  fix s :: daemon
  assume good: "lock_good s"
  show "lock_running (start_job s) = take 1 (lock_jobs s)"
    using lock_rest_waits [OF good]
    by (cases "d_lock s") (auto simp: lock_running_def lock_jobs_def start_job_def)
  show "lock_jobs (settle_job s) = (if lock_running s = [] then lock_jobs s else tl (lock_jobs s))"
    using lock_rest_waits [OF good]
    by (cases "d_lock s") (auto simp: lock_running_def lock_jobs_def settle_job_def split: bool.split)
  show "lock_running (settle_job s) = []"
    using lock_rest_waits [OF good]
    by (cases "d_lock s") (auto simp: lock_running_def settle_job_def split: bool.split)
qed (auto simp: lock_good_submit lock_good_start lock_good_settle lock_running_submit)

section \<open>Rewarms and refreshes in flight\<close>

definition rewarm_pending :: "daemon \<Rightarrow> bool" where
  "rewarm_pending s \<longleftrightarrow> d_rewarm s \<noteq> None"

interpretation rewarm_flight: single_flight rewarm_pending "rewarm_request r" "rewarm_settle x"
  by unfold_locales (auto simp: rewarm_pending_def rewarm_request_def rewarm_settle_def)

text \<open>The check-in, \<open>pending\<close> of \<open>createQoderCheckin\<close>, with a count of its executions.\<close>

record checkin_runs =
  ck_pending :: bool
  ck_runs :: nat

definition checkin_call :: "checkin_runs \<Rightarrow> checkin_runs" where
  "checkin_call s = (if ck_pending s then s else s\<lparr>ck_pending := True, ck_runs := Suc (ck_runs s)\<rparr>)"

definition checkin_settled :: "checkin_runs \<Rightarrow> checkin_runs" where
  "checkin_settled s = s\<lparr>ck_pending := False\<rparr>"

interpretation checkin_flight: single_flight ck_pending checkin_call checkin_settled
  by unfold_locales (auto simp: checkin_call_def checkin_settled_def)

end
