(* ===== verification/Worker_Daemon_Runs.thy ===== *)
theory Worker_Daemon_Runs
  imports Worker_Daemon
begin

text \<open>
  The daemon as a machine: the operations of \<open>Worker_Daemon\<close> interleaved. \<open>world\<close> is the state of the
  module with the handlers that are between two awaits: the chats being served, the device logins, the
  PAT logins, and the boot. A step is one stretch of one handler, or a call of the CLI into a hook.

  A handler that waits for a rewarm holds the number of rewarms that had settled when it asked: its
  promise is the one that settles next, whether it started it or joined it.
\<close>

section \<open>The machine\<close>

datatype flow = Flow_asked | Flow_waiting jsval | Flow_rewarming jsval nat

datatype pat = Pat_logging | Pat_rewarming nat | Pat_refreshing nat

datatype boot = Boot_idle | Boot_runtime | Boot_auth | Boot_refreshing nat | Boot_done

record world =
  w_daemon :: daemon
  w_chats :: "nat list"
  w_flows :: "flow list"
  w_pats :: "pat list"
  w_boot :: boot

definition world_start :: world where
  "world_start = \<lparr>w_daemon = daemon_start, w_chats = [], w_flows = [], w_pats = [], w_boot = Boot_idle\<rparr>"

definition drop_at :: "nat \<Rightarrow> 'a list \<Rightarrow> 'a list" where
  "drop_at i xs = take i xs @ drop (Suc i) xs"

text \<open>How many refreshes must have settled before a refresh asked for now has.\<close>

definition refresh_ticket :: "refresh \<Rightarrow> daemon \<Rightarrow> nat" where
  "refresh_ticket r s = (if r = Refreshing then d_refreshes s + 1 else d_refreshes s)"

text \<open>\<open>lastError\<close> as the error handlers set it.\<close>

definition note_failure :: "jstr \<Rightarrow> daemon \<Rightarrow> daemon" where
  "note_failure e s = s\<lparr>d_last_error := JStr e\<rparr>"

abbreviation on :: "world \<Rightarrow> daemon \<Rightarrow> world" where
  "on w s \<equiv> w\<lparr>w_daemon := s\<rparr>"

inductive world_step :: "config \<Rightarrow> world \<Rightarrow> world \<Rightarrow> bool" for c where
  cli_context: "world_step c w (on w (snd (hook_adopt c ctx mgr (w_daemon w))))"
| cli_prepare: "world_step c w (on w (snd (hook_prepare c ctx ep key source (w_daemon w))))"
| cli_manager: "world_step c w (on w ((w_daemon w)\<lparr>d_global_manager := Some m\<rparr>))"
| warm_start: "d_warm (w_daemon w) \<Longrightarrow> world_step c w (on w (snd (start_server c (w_daemon w))))"
| failed: "world_step c w (on w (note_failure e (w_daemon w)))"
| chat_enter: "d_started (w_daemon w) \<Longrightarrow> acquire_in_flight c (w_daemon w) = (Inr (), s) \<Longrightarrow> h \<notin> set (w_chats w) \<Longrightarrow>
    world_step c w (w\<lparr>w_daemon := s, w_chats := w_chats w @ [h]\<rparr>)"
| chat_encode: "h \<in> set (w_chats w) \<Longrightarrow> Encode h \<notin> set (lock_jobs (w_daemon w)) \<Longrightarrow>
    world_step c w (on w (with_encode_lock (Encode h) (w_daemon w)))"
| chat_rewarm: "h \<in> set (w_chats w) \<Longrightarrow> Encode h \<notin> set (lock_jobs (w_daemon w)) \<Longrightarrow>
    world_step c w (on w (rewarm_request e (w_daemon w)))"
| chat_leave: "h \<in> set (w_chats w) \<Longrightarrow> Encode h \<notin> set (lock_jobs (w_daemon w)) \<Longrightarrow>
    world_step c w (w\<lparr>w_daemon := release_in_flight (w_daemon w), w_chats := remove1 h (w_chats w)\<rparr>)"
| encode_start: "d_lock (w_daemon w) = (Encode h, False) # q \<Longrightarrow> world_step c w (on w (start_job (w_daemon w)))"
| encode_settle: "d_lock (w_daemon w) = (Encode h, True) # q \<Longrightarrow> world_step c w (on w (settle_job (w_daemon w)))"
| admin_rewarm: "d_started (w_daemon w) \<Longrightarrow> world_step c w (on w (rewarm_request (js ''admin_rewarm'') (w_daemon w)))"
| rewarm_turn: "d_lock (w_daemon w) = (Rewarm_job e, False) # q \<Longrightarrow> world_step c w (on w (rewarm_start e (w_daemon w)))"
| rewarm_token: "d_rewarm (w_daemon w) = Some (Rw_refreshing m) \<Longrightarrow>
    world_step c w (on w (rewarm_refreshed r m (w_daemon w)))"
| rewarm_context: "d_rewarm (w_daemon w) = Some Rw_creating \<Longrightarrow>
    world_step c w (on w (rewarm_created now r (w_daemon w)))"
| catalog_ask: "d_started (w_daemon w) \<Longrightarrow> world_step c w (on w (snd (refresh_request c t force h (w_daemon w))))"
| catalog_done: "d_refresh (w_daemon w) = Some Refreshing \<Longrightarrow>
    world_step c w (on w (snd (refresh_settle t v (w_daemon w))))"
| quota_done: "d_started (w_daemon w) \<Longrightarrow> world_step c w (on w (snd (quota_settle now v (w_daemon w))))"
| quota_failed: "d_started (w_daemon w) \<Longrightarrow> world_step c w (on w (snd (handle_quota c (Inl e) (w_daemon w))))"
| device_ask: "d_started (w_daemon w) \<Longrightarrow> device_request now (w_daemon w) = (Asked, s) \<Longrightarrow>
    world_step c w (w\<lparr>w_daemon := s, w_flows := w_flows w @ [Flow_asked]\<rparr>)"
| device_url: "i < length (w_flows w) \<Longrightarrow> w_flows w ! i = Flow_asked \<Longrightarrow>
    device_answered v (w_daemon w) = (Inr a, s) \<Longrightarrow>
    world_step c w (w\<lparr>w_daemon := s, w_flows := (w_flows w)[i := Flow_waiting (pget a ''authUrl'')]\<rparr>)"
| device_refused: "i < length (w_flows w) \<Longrightarrow> w_flows w ! i = Flow_asked \<Longrightarrow>
    world_step c w (w\<lparr>w_daemon := note_failure e (w_daemon w), w_flows := drop_at i (w_flows w)\<rparr>)"
| device_done: "i < length (w_flows w) \<Longrightarrow> w_flows w ! i = Flow_waiting url \<Longrightarrow>
    world_step c w (w\<lparr>w_daemon := device_completed now url (w_daemon w),
      w_flows := (w_flows w)[i := Flow_rewarming url (length (d_rewarms (w_daemon w)))]\<rparr>)"
| device_fails: "i < length (w_flows w) \<Longrightarrow> w_flows w ! i = Flow_waiting url \<Longrightarrow>
    world_step c w (w\<lparr>w_daemon := device_failed now url e (w_daemon w), w_flows := drop_at i (w_flows w)\<rparr>)"
| device_end: "i < length (w_flows w) \<Longrightarrow> w_flows w ! i = Flow_rewarming url g \<Longrightarrow> g < length (d_rewarms (w_daemon w)) \<Longrightarrow>
    world_step c w (w\<lparr>w_daemon := device_rewarmed (d_rewarms (w_daemon w) ! g) (w_daemon w), w_flows := drop_at i (w_flows w)\<rparr>)"
| pat_ask: "d_started (w_daemon w) \<Longrightarrow> pat_request token (w_daemon w) = Inr t' \<Longrightarrow> world_step c w (w\<lparr>w_pats := w_pats w @ [Pat_logging]\<rparr>)"
| pat_login: "i < length (w_pats w) \<Longrightarrow> w_pats w ! i = Pat_logging \<Longrightarrow>
    world_step c w (w\<lparr>w_daemon := pat_logged_in (w_daemon w), w_pats := (w_pats w)[i := Pat_rewarming (length (d_rewarms (w_daemon w)))]\<rparr>)"
| pat_refused: "i < length (w_pats w) \<Longrightarrow> w_pats w ! i = Pat_logging \<Longrightarrow>
    world_step c w (w\<lparr>w_daemon := note_failure e (w_daemon w), w_pats := drop_at i (w_pats w)\<rparr>)"
| pat_rewarmed: "i < length (w_pats w) \<Longrightarrow> w_pats w ! i = Pat_rewarming g \<Longrightarrow> g < length (d_rewarms (w_daemon w)) \<Longrightarrow>
    d_rewarms (w_daemon w) ! g = None \<Longrightarrow> refresh_request c t True h (w_daemon w) = (r, s) \<Longrightarrow>
    world_step c w (w\<lparr>w_daemon := s, w_pats := (w_pats w)[i := Pat_refreshing (refresh_ticket r s)]\<rparr>)"
| pat_not_rewarmed: "i < length (w_pats w) \<Longrightarrow> w_pats w ! i = Pat_rewarming g \<Longrightarrow> g < length (d_rewarms (w_daemon w)) \<Longrightarrow>
    d_rewarms (w_daemon w) ! g = Some e \<Longrightarrow>
    world_step c w (w\<lparr>w_daemon := note_failure e (w_daemon w), w_pats := drop_at i (w_pats w)\<rparr>)"
| pat_end: "i < length (w_pats w) \<Longrightarrow> w_pats w ! i = Pat_refreshing n \<Longrightarrow> n \<le> d_refreshes (w_daemon w) \<Longrightarrow>
    world_step c w (w\<lparr>w_daemon := snd (pat_completed now (w_daemon w)), w_pats := drop_at i (w_pats w)\<rparr>)"
| booting: "w_boot w = Boot_idle \<Longrightarrow> world_step c w (w\<lparr>w_daemon := boot_begin (w_daemon w), w_boot := Boot_runtime\<rparr>)"
| boot_runtime: "w_boot w = Boot_runtime \<Longrightarrow>
    world_step c w (w\<lparr>w_daemon := boot_manager mgr (w_daemon w), w_boot := Boot_auth\<rparr>)"
| boot_authenticated: "w_boot w = Boot_auth \<Longrightarrow> refresh_request c t True h (boot_auth f (w_daemon w)) = (r, s) \<Longrightarrow>
    world_step c w (w\<lparr>w_daemon := s, w_boot := Boot_refreshing (refresh_ticket r s)\<rparr>)"
| boot_refreshed: "w_boot w = Boot_refreshing n \<Longrightarrow> n \<le> d_refreshes (w_daemon w) \<Longrightarrow>
    world_step c w (w\<lparr>w_daemon := snd (boot_end c (w_daemon w)), w_boot := Boot_done\<rparr>)"

text \<open>The states the daemon can be in.\<close>

inductive reachable :: "config \<Rightarrow> world \<Rightarrow> bool" for c where
  reach_start: "reachable c world_start"
| reach_step: "reachable c w \<Longrightarrow> world_step c w w' \<Longrightarrow> reachable c w'"

text \<open>Further steps from a state.\<close>

inductive leads :: "config \<Rightarrow> world \<Rightarrow> world \<Rightarrow> bool" for c where
  leads_refl: "leads c w w"
| leads_step: "leads c w v \<Longrightarrow> world_step c v u \<Longrightarrow> leads c w u"

lemma leads_trans: "leads c w v \<Longrightarrow> leads c v u \<Longrightarrow> leads c w u"
  by (rotate_tac 1, induction rule: leads.induct) (auto intro: leads.intros)

lemma leads_invariant: "leads c w v \<Longrightarrow> P w \<Longrightarrow> (\<And>x y. world_step c x y \<Longrightarrow> P x \<Longrightarrow> P y) \<Longrightarrow> P v"
  by (induction rule: leads.induct) auto

lemma reachable_invariant: "reachable c w \<Longrightarrow> P world_start \<Longrightarrow> (\<And>x y. world_step c x y \<Longrightarrow> P x \<Longrightarrow> P y) \<Longrightarrow> P w"
  by (induction rule: reachable.induct) auto

section \<open>What the operations leave alone\<close>

lemma start_server_frame [simp]:
  "d_lock (snd (start_server c s)) = d_lock s" "d_rewarm (snd (start_server c s)) = d_rewarm s"
  "d_in_flight (snd (start_server c s)) = d_in_flight s" "d_context (snd (start_server c s)) = d_context s"
  "d_endpoint (snd (start_server c s)) = d_endpoint s" "d_refresh (snd (start_server c s)) = d_refresh s"
  "d_catalog (snd (start_server c s)) = d_catalog s"
  by (simp_all add: start_server_def)

lemma adopt_context_snd:
  "snd (adopt_context c ctx ep key source mgr s) = (case ctx of None \<Rightarrow> s
     | Some x \<Rightarrow> if cx_prepares x then snd (start_server c (adopted c x ep key source mgr s)) else s)"
  by (auto simp: adopt_context_def split: option.split prod.split sum.split)

lemma adopted_frame [simp]:
  "d_lock (adopted c x ep key source mgr s) = d_lock s" "d_rewarm (adopted c x ep key source mgr s) = d_rewarm s"
  "d_in_flight (adopted c x ep key source mgr s) = d_in_flight s" "d_started (adopted c x ep key source mgr s) = d_started s"
  "d_refresh (adopted c x ep key source mgr s) = d_refresh s" "d_catalog (adopted c x ep key source mgr s) = d_catalog s"
  by (simp_all add: adopted_def)

lemma hook_frame [simp]:
  "d_lock (snd (hook_adopt c ctx mgr s)) = d_lock s" "d_rewarm (snd (hook_adopt c ctx mgr s)) = d_rewarm s"
  "d_in_flight (snd (hook_adopt c ctx mgr s)) = d_in_flight s" "d_refresh (snd (hook_adopt c ctx mgr s)) = d_refresh s"
  "d_catalog (snd (hook_adopt c ctx mgr s)) = d_catalog s"
  "d_lock (snd (hook_prepare c ctx ep key source s)) = d_lock s" "d_rewarm (snd (hook_prepare c ctx ep key source s)) = d_rewarm s"
  "d_in_flight (snd (hook_prepare c ctx ep key source s)) = d_in_flight s"
  "d_refresh (snd (hook_prepare c ctx ep key source s)) = d_refresh s"
  "d_catalog (snd (hook_prepare c ctx ep key source s)) = d_catalog s"
  by (simp_all add: hook_adopt_def hook_prepare_def Let_def adopt_context_snd split: option.split)

lemma refresh_frame [simp]:
  "d_lock (snd (refresh_request c t force h s)) = d_lock s" "d_rewarm (snd (refresh_request c t force h s)) = d_rewarm s"
  "d_in_flight (snd (refresh_request c t force h s)) = d_in_flight s" "d_started (snd (refresh_request c t force h s)) = d_started s"
  "d_context (snd (refresh_request c t force h s)) = d_context s" "d_endpoint (snd (refresh_request c t force h s)) = d_endpoint s"
  "d_lock (snd (refresh_settle t v s)) = d_lock s" "d_rewarm (snd (refresh_settle t v s)) = d_rewarm s"
  "d_in_flight (snd (refresh_settle t v s)) = d_in_flight s" "d_started (snd (refresh_settle t v s)) = d_started s"
  "d_context (snd (refresh_settle t v s)) = d_context s" "d_endpoint (snd (refresh_settle t v s)) = d_endpoint s"
  by (simp_all add: refresh_request_def refresh_settle_def Let_def split: option.split sum.split)

lemma quota_frame [simp]:
  "d_lock (snd (quota_settle t v s)) = d_lock s" "d_rewarm (snd (quota_settle t v s)) = d_rewarm s"
  "d_in_flight (snd (quota_settle t v s)) = d_in_flight s" "d_started (snd (quota_settle t v s)) = d_started s"
  "d_context (snd (quota_settle t v s)) = d_context s" "d_endpoint (snd (quota_settle t v s)) = d_endpoint s"
  "d_refresh (snd (quota_settle t v s)) = d_refresh s" "d_catalog (snd (quota_settle t v s)) = d_catalog s"
  "d_lock (snd (handle_quota c v s)) = d_lock s" "d_rewarm (snd (handle_quota c v s)) = d_rewarm s"
  "d_in_flight (snd (handle_quota c v s)) = d_in_flight s" "d_started (snd (handle_quota c v s)) = d_started s"
  "d_context (snd (handle_quota c v s)) = d_context s" "d_endpoint (snd (handle_quota c v s)) = d_endpoint s"
  "d_refresh (snd (handle_quota c v s)) = d_refresh s" "d_catalog (snd (handle_quota c v s)) = d_catalog s"
  by (simp_all add: quota_settle_def handle_quota_def Let_def split: sum.split)

lemma device_request_frame: "device_request now s = (Asked, s') \<Longrightarrow> \<exists>l. s' = s\<lparr>d_login := l\<rparr>"
  by (auto simp: device_request_def split: if_splits option.splits)

lemma device_answered_frame: "device_answered v s = (r, s') \<Longrightarrow> \<exists>l b. s' = s\<lparr>d_login := l, d_login_wait := b\<rparr>"
  by (cases s) (auto simp: device_answered_def Let_def split: if_splits)

lemma boot_frame [simp]:
  "d_lock (boot_begin s) = d_lock s" "d_rewarm (boot_begin s) = d_rewarm s" "d_in_flight (boot_begin s) = d_in_flight s"
  "d_started (boot_begin s) = d_started s" "d_context (boot_begin s) = d_context s" "d_endpoint (boot_begin s) = d_endpoint s"
  "d_refresh (boot_begin s) = d_refresh s" "d_catalog (boot_begin s) = d_catalog s"
  "d_lock (boot_manager m s) = d_lock s" "d_rewarm (boot_manager m s) = d_rewarm s" "d_in_flight (boot_manager m s) = d_in_flight s"
  "d_started (boot_manager m s) = d_started s" "d_context (boot_manager m s) = d_context s" "d_endpoint (boot_manager m s) = d_endpoint s"
  "d_refresh (boot_manager m s) = d_refresh s" "d_catalog (boot_manager m s) = d_catalog s"
  "d_lock (boot_auth f s) = d_lock s" "d_rewarm (boot_auth f s) = d_rewarm s" "d_in_flight (boot_auth f s) = d_in_flight s"
  "d_started (boot_auth f s) = d_started s" "d_context (boot_auth f s) = d_context s" "d_endpoint (boot_auth f s) = d_endpoint s"
  "d_refresh (boot_auth f s) = d_refresh s" "d_catalog (boot_auth f s) = d_catalog s"
  by (simp_all add: boot_begin_def boot_manager_def boot_auth_def split: option.split)

lemma boot_end_snd: "snd (boot_end c s) = (if fst (start_server c s) = Inr () then (snd (start_server c s))\<lparr>d_warm := True\<rparr>
     else snd (start_server c s))"
  by (auto simp: boot_end_def split: prod.split sum.split)

lemma boot_end_frame [simp]:
  "d_lock (snd (boot_end c s)) = d_lock s" "d_rewarm (snd (boot_end c s)) = d_rewarm s"
  "d_in_flight (snd (boot_end c s)) = d_in_flight s" "d_context (snd (boot_end c s)) = d_context s"
  "d_endpoint (snd (boot_end c s)) = d_endpoint s" "d_refresh (snd (boot_end c s)) = d_refresh s"
  "d_catalog (snd (boot_end c s)) = d_catalog s"
  by (simp_all add: boot_end_snd)

lemma small_frame [simp]:
  "d_lock (note_failure e s) = d_lock s" "d_rewarm (note_failure e s) = d_rewarm s" "d_in_flight (note_failure e s) = d_in_flight s"
  "d_started (note_failure e s) = d_started s" "d_context (note_failure e s) = d_context s" "d_endpoint (note_failure e s) = d_endpoint s"
  "d_refresh (note_failure e s) = d_refresh s" "d_catalog (note_failure e s) = d_catalog s"
  "d_lock (release_in_flight s) = d_lock s" "d_rewarm (release_in_flight s) = d_rewarm s"
  "d_started (release_in_flight s) = d_started s" "d_context (release_in_flight s) = d_context s"
  "d_endpoint (release_in_flight s) = d_endpoint s" "d_refresh (release_in_flight s) = d_refresh s"
  "d_catalog (release_in_flight s) = d_catalog s"
  "d_lock (device_failed now url e s) = d_lock s" "d_rewarm (device_failed now url e s) = d_rewarm s"
  "d_in_flight (device_failed now url e s) = d_in_flight s" "d_started (device_failed now url e s) = d_started s"
  "d_context (device_failed now url e s) = d_context s" "d_endpoint (device_failed now url e s) = d_endpoint s"
  "d_refresh (device_failed now url e s) = d_refresh s" "d_catalog (device_failed now url e s) = d_catalog s"
  "d_lock (device_rewarmed r s) = d_lock s" "d_rewarm (device_rewarmed r s) = d_rewarm s"
  "d_in_flight (device_rewarmed r s) = d_in_flight s" "d_started (device_rewarmed r s) = d_started s"
  "d_context (device_rewarmed r s) = d_context s" "d_endpoint (device_rewarmed r s) = d_endpoint s"
  "d_refresh (device_rewarmed r s) = d_refresh s"
  "d_lock (snd (pat_completed now s)) = d_lock s" "d_rewarm (snd (pat_completed now s)) = d_rewarm s"
  "d_in_flight (snd (pat_completed now s)) = d_in_flight s" "d_started (snd (pat_completed now s)) = d_started s"
  "d_context (snd (pat_completed now s)) = d_context s" "d_endpoint (snd (pat_completed now s)) = d_endpoint s"
  "d_refresh (snd (pat_completed now s)) = d_refresh s" "d_catalog (snd (pat_completed now s)) = d_catalog s"
  by (simp_all add: note_failure_def release_in_flight_def device_failed_def device_rewarmed_def pat_completed_def
      invalidate_catalog_def Let_def split: option.split)

lemma rewarm_frame [simp]:
  "d_in_flight (rewarm_request e s) = d_in_flight s" "d_started (rewarm_request e s) = d_started s"
  "d_context (rewarm_request e s) = d_context s" "d_endpoint (rewarm_request e s) = d_endpoint s"
  "d_refresh (rewarm_request e s) = d_refresh s" "d_catalog (rewarm_request e s) = d_catalog s"
  "d_in_flight (rewarm_settle r s) = d_in_flight s" "d_started (rewarm_settle r s) = d_started s"
  "d_context (rewarm_settle r s) = d_context s" "d_endpoint (rewarm_settle r s) = d_endpoint s"
  "d_refresh (rewarm_settle r s) = d_refresh s" "d_catalog (rewarm_settle r s) = d_catalog s"
  "d_in_flight (rewarm_create m s) = d_in_flight s" "d_started (rewarm_create m s) = d_started s"
  "d_context (rewarm_create m s) = d_context s" "d_endpoint (rewarm_create m s) = d_endpoint s"
  "d_refresh (rewarm_create m s) = d_refresh s" "d_catalog (rewarm_create m s) = d_catalog s"
  by (simp_all add: rewarm_request_def rewarm_settle_def rewarm_create_def with_encode_lock_def)

lemma rewarm_frame2 [simp]:
  "d_in_flight (rewarm_start e s) = d_in_flight s" "d_started (rewarm_start e s) = d_started s"
  "d_context (rewarm_start e s) = d_context s" "d_endpoint (rewarm_start e s) = d_endpoint s"
  "d_refresh (rewarm_start e s) = d_refresh s" "d_catalog (rewarm_start e s) = d_catalog s"
  "d_in_flight (rewarm_refreshed r m s) = d_in_flight s" "d_started (rewarm_refreshed r m s) = d_started s"
  "d_context (rewarm_refreshed r m s) = d_context s" "d_endpoint (rewarm_refreshed r m s) = d_endpoint s"
  "d_refresh (rewarm_refreshed r m s) = d_refresh s" "d_catalog (rewarm_refreshed r m s) = d_catalog s"
  "d_in_flight (rewarm_created now r s) = d_in_flight s" "d_started (rewarm_created now r s) = d_started s"
  "d_context (rewarm_created now r s) = d_context s" "d_endpoint (rewarm_created now r s) = d_endpoint s"
  "d_refresh (rewarm_created now r s) = d_refresh s" "d_catalog (rewarm_created now r s) = d_catalog s"
  by (simp_all add: rewarm_start_def rewarm_refreshed_def rewarm_created_def Let_def split: option.split)

lemma login_frame [simp]:
  "d_in_flight (device_completed now url s) = d_in_flight s" "d_started (device_completed now url s) = d_started s"
  "d_context (device_completed now url s) = d_context s" "d_endpoint (device_completed now url s) = d_endpoint s"
  "d_refresh (device_completed now url s) = d_refresh s" "d_catalog (device_completed now url s) = d_catalog s"
  "d_in_flight (pat_logged_in s) = d_in_flight s" "d_started (pat_logged_in s) = d_started s"
  "d_context (pat_logged_in s) = d_context s" "d_endpoint (pat_logged_in s) = d_endpoint s"
  "d_refresh (pat_logged_in s) = d_refresh s"
  by (simp_all add: device_completed_def pat_logged_in_def invalidate_catalog_def)

lemma lock_frame [simp]:
  "d_in_flight (with_encode_lock j s) = d_in_flight s" "d_started (with_encode_lock j s) = d_started s"
  "d_context (with_encode_lock j s) = d_context s" "d_endpoint (with_encode_lock j s) = d_endpoint s"
  "d_refresh (with_encode_lock j s) = d_refresh s" "d_catalog (with_encode_lock j s) = d_catalog s"
  "d_rewarm (with_encode_lock j s) = d_rewarm s" "d_lock (with_encode_lock j s) = d_lock s @ [(j, False)]"
  by (simp_all add: with_encode_lock_def)

lemma acquire_frame: "acquire_in_flight c s = (r, s') \<Longrightarrow> \<exists>n. s' = s\<lparr>d_in_flight := n\<rparr>"
  by (cases s) (auto simp: acquire_in_flight_def split: if_splits)

section \<open>The server, the key and the context\<close>

definition keyed :: "config \<Rightarrow> daemon \<Rightarrow> bool" where
  "keyed c s \<longleftrightarrow> (d_started s \<longrightarrow> api_key_ok c)"


lemma keyed_cong: "d_started s' = d_started s \<Longrightarrow> keyed c s' = keyed c s"
  by (simp add: keyed_def)




text \<open>The context, once there is one: usable, with an endpoint.\<close>

definition ctx_ok :: "daemon \<Rightarrow> bool" where
  "ctx_ok s \<longleftrightarrow> (case d_context s of None \<Rightarrow> True | Some x \<Rightarrow> cx_prepares x \<and> truthy (d_endpoint s))"

definition hot :: "daemon \<Rightarrow> bool" where
  "hot s \<longleftrightarrow> d_context s \<noteq> None"

lemma ctx_cong: "d_context s' = d_context s \<Longrightarrow> d_endpoint s' = d_endpoint s \<Longrightarrow> ctx_ok s' = ctx_ok s \<and> hot s' = hot s"
  by (simp add: ctx_ok_def hot_def split: option.split)

lemma adopted_ctx: "c_default_endpoint c \<noteq> [] \<Longrightarrow> cx_prepares x \<Longrightarrow> ctx_ok (adopted c x ep key source mgr s) \<and> hot (adopted c x ep key source mgr s)"
  by (simp add: ctx_ok_def hot_def adopted_def js_or_def)

lemma hooks_ctx:
  assumes "c_default_endpoint c \<noteq> []" "ctx_ok s"
  shows "ctx_ok (snd (hook_adopt c ctx mgr s)) \<and> (hot s \<longrightarrow> hot (snd (hook_adopt c ctx mgr s)))"
    and "ctx_ok (snd (hook_prepare c ctx ep key source s)) \<and> (hot s \<longrightarrow> hot (snd (hook_prepare c ctx ep key source s)))"
proof -
  have server: "ctx_ok (snd (start_server c s')) = ctx_ok s' \<and> hot (snd (start_server c s')) = hot s'" for s'
    by (rule ctx_cong) simp_all
  have manager: "ctx_ok (s\<lparr>d_manager := m\<rparr>) = ctx_ok s \<and> hot (s\<lparr>d_manager := m\<rparr>) = hot s" for m
    by (rule ctx_cong) simp_all
  show "ctx_ok (snd (hook_adopt c ctx mgr s)) \<and> (hot s \<longrightarrow> hot (snd (hook_adopt c ctx mgr s)))"
    using assms by (auto simp: hook_adopt_def Let_def adopt_context_snd server manager adopted_ctx split: option.split)
  show "ctx_ok (snd (hook_prepare c ctx ep key source s)) \<and> (hot s \<longrightarrow> hot (snd (hook_prepare c ctx ep key source s)))"
    using assms by (auto simp: hook_prepare_def Let_def adopt_context_snd server manager adopted_ctx split: option.split)
      (auto simp: ctx_ok_def hot_def)
qed

lemma step_ctx:
  assumes "world_step c w v" "c_default_endpoint c \<noteq> []" "ctx_ok (w_daemon w)"
  shows "ctx_ok (w_daemon v) \<and> (hot (w_daemon w) \<longrightarrow> hot (w_daemon v))"
  using assms
proof (induction rule: world_step.induct)
  case (cli_context w ctx mgr)
  then show ?case by (simp add: hooks_ctx)
next
  case (cli_prepare w ctx ep key source)
  then show ?case by (simp add: hooks_ctx)
next
  case (device_ask w now s)
  then show ?case by (auto dest!: device_request_frame simp: ctx_ok_def hot_def split: option.splits)
next
  case (device_url i w v a s)
  then show ?case by (auto dest!: device_answered_frame simp: ctx_ok_def hot_def split: option.splits)
next
  case (chat_enter w s h)
  then show ?case by (auto dest!: acquire_frame simp: ctx_ok_def hot_def split: option.splits)
next
  case (pat_rewarmed i w g t h r s)
  then show ?case using refresh_frame(5,6) [of c t True h "w_daemon w"] by (simp add: ctx_ok_def hot_def split: option.splits)
next
  case (boot_authenticated w t h f r s)
  then show ?case using refresh_frame(5,6) [of c t True h "boot_auth f (w_daemon w)"] by (simp add: ctx_ok_def hot_def split: option.splits)
qed (simp_all add: ctx_ok_def hot_def split: option.splits)

section \<open>The chats being served\<close>




section \<open>The encode lock and the rewarm\<close>

fun is_rewarm :: "job \<times> bool \<Rightarrow> bool" where
  "is_rewarm (Rewarm_job e, b) \<longleftrightarrow> True"
| "is_rewarm (Encode h, b) \<longleftrightarrow> False"

text \<open>Where the chain has its rewarm, by the state of the rewarm: nowhere, waiting, or started.\<close>

fun rewarm_place :: "(job \<times> bool) list \<Rightarrow> rewarm option \<Rightarrow> bool" where
  "rewarm_place rs None \<longleftrightarrow> rs = []"
| "rewarm_place rs (Some Rw_waiting) \<longleftrightarrow> (case rs of [(j, False)] \<Rightarrow> True | _ \<Rightarrow> False)"
| "rewarm_place rs (Some r) \<longleftrightarrow> (case rs of [(j, True)] \<Rightarrow> True | _ \<Rightarrow> False)"

definition lock_ok :: "daemon \<Rightarrow> bool" where
  "lock_ok s \<longleftrightarrow> lock_good s \<and> rewarm_place (filter is_rewarm (d_lock s)) (d_rewarm s)"

lemmas lock_fields = lock_ok_def lock_good_def

lemma rewarm_place_Nil [simp]: "rewarm_place [] r \<longleftrightarrow> r = None"
  by (cases r; (cases "the r")?) auto

lemma lock_ok_encode: "lock_ok s \<Longrightarrow> lock_ok (with_encode_lock (Encode h) s)"
  by (simp add: lock_ok_def lock_good_submit)

lemma lock_ok_request: "lock_ok s \<Longrightarrow> lock_ok (rewarm_request e s)"
  using lock_good_submit [of s "Rewarm_job e"] by (auto simp: lock_ok_def rewarm_request_def lock_good_def)

lemma lock_ok_start: "lock_ok s \<Longrightarrow> d_lock s = (Encode h, b) # q \<Longrightarrow> lock_ok (start_job s)"
  using lock_good_start [of s] by (auto simp: lock_ok_def start_job_def)

lemma lock_ok_settle: "lock_ok s \<Longrightarrow> d_lock s = (Encode h, True) # q \<Longrightarrow> lock_ok (settle_job s)"
  using lock_good_settle [of s] by (auto simp: lock_ok_def settle_job_def)

text \<open>The states with a started rewarm in front.\<close>

definition rewarming :: "daemon \<Rightarrow> bool" where
  "rewarming s \<longleftrightarrow> (case d_lock s of (Rewarm_job e, True) # q \<Rightarrow> list_all (\<lambda>x. \<not> snd x) q \<and> filter is_rewarm q = [] | _ \<Rightarrow> False)"

lemma rewarming_iff: "rewarming s \<longleftrightarrow> (\<exists>e q. d_lock s = (Rewarm_job e, True) # q \<and> list_all (\<lambda>x. \<not> snd x) q \<and> filter is_rewarm q = [])"
  by (auto simp: rewarming_def split: list.split prod.split job.split bool.split)

lemma started_rewarm_in_front:
  assumes "lock_ok s" "d_rewarm s = Some r" "r \<noteq> Rw_waiting"
  shows "rewarming s"
proof -
  obtain j where f: "filter is_rewarm (d_lock s) = [(j, True)]"
    using assms by (cases r) (auto simp: lock_ok_def split: list.splits bool.splits)
  then have "(j, True) \<in> set (filter is_rewarm (d_lock s))" by simp
  then have j: "is_rewarm (j, True)" "(j, True) \<in> set (d_lock s)" unfolding set_filter by blast+
  then obtain e where e: "j = Rewarm_job e" by (cases j) auto
  obtain x q where l: "d_lock s = x # q" using j by (cases "d_lock s") auto
  have q: "list_all (\<lambda>x. \<not> snd x) q" using assms(1) l by (simp add: lock_ok_def lock_good_def)
  then have "(j, True) \<notin> set q" by (auto simp: list_all_iff)
  with j l have "x = (Rewarm_job e, True)" by (simp add: e)
  with f l q show ?thesis by (auto simp: rewarming_iff e)
qed

lemma lock_ok_rewarm_settle:
  assumes "rewarming s"
  shows "lock_ok (rewarm_settle r s)"
proof -
  obtain e q where "d_lock s = (Rewarm_job e, True) # q" "list_all (\<lambda>x. \<not> snd x) q" "filter is_rewarm q = []"
    using assms by (auto simp: rewarming_iff)
  then show ?thesis by (cases q) (simp_all add: lock_fields rewarm_settle_def settle_job_def)
qed

lemma lock_ok_started: "rewarming s \<Longrightarrow> d_rewarm s' = Some (Rw_refreshing m) \<or> d_rewarm s' = Some Rw_creating \<Longrightarrow>
    d_lock s' = d_lock s \<Longrightarrow> lock_ok s'"
  by (auto simp: rewarming_iff lock_ok_def lock_good_def)

lemma lock_ok_create: "rewarming s \<Longrightarrow> lock_ok (rewarm_create m s)"
  by (auto simp: rewarm_create_def lock_ok_rewarm_settle intro: lock_ok_started [where s = s])

lemma waiting_rewarm_turns:
  assumes "lock_ok s" "d_lock s = (Rewarm_job e, False) # q"
  shows "rewarming (start_job s)"
proof -
  have "d_rewarm s = Some Rw_waiting"
  proof (cases "d_rewarm s")
    case None
    with assms show ?thesis by (simp add: lock_ok_def)
  next
    case (Some r)
    with assms show ?thesis by (cases r) (simp_all add: lock_ok_def split: list.splits)
  qed
  then have "filter is_rewarm q = []" using assms by (auto simp: lock_ok_def split: list.splits)
  with assms show ?thesis by (auto simp: rewarming_iff start_job_def lock_ok_def lock_good_def)
qed

lemma rewarming_fields: "rewarming (s\<lparr>d_last_error := x\<rparr>) = rewarming s"
  "rewarming (s\<lparr>d_rewarm_count := n, d_last_rewarm := y, d_last_error := x\<rparr>) = rewarming s"
  by (simp_all add: rewarming_def)

lemma lock_ok_turn:
  assumes "lock_ok s" "d_lock s = (Rewarm_job e, False) # q"
  shows "lock_ok (rewarm_start r s)"
proof -
  let ?s = "(start_job s)\<lparr>d_last_error := JStr r\<rparr>"
  have r: "rewarming ?s" using waiting_rewarm_turns [OF assms] by (simp add: rewarming_fields)
  show ?thesis
  proof (cases "get_manager ?s")
    case None
    with r show ?thesis by (simp add: rewarm_start_def Let_def lock_ok_rewarm_settle)
  next
    case (Some m)
    have "lock_ok (?s\<lparr>d_rewarm := Some (Rw_refreshing m)\<rparr>)" by (rule lock_ok_started [OF r]) simp_all
    with r Some show ?thesis by (simp add: rewarm_start_def Let_def lock_ok_create)
  qed
qed

lemma lock_ok_token: "lock_ok s \<Longrightarrow> d_rewarm s = Some (Rw_refreshing m) \<Longrightarrow> lock_ok (rewarm_refreshed r m s)"
  by (auto simp: rewarm_refreshed_def lock_ok_create lock_ok_rewarm_settle started_rewarm_in_front split: option.split)

lemma lock_ok_context:
  assumes "lock_ok s" "d_rewarm s = Some Rw_creating"
  shows "lock_ok (rewarm_created now r s)"
proof -
  have r: "rewarming s" by (rule started_rewarm_in_front [OF assms]) simp
  then have "lock_ok (rewarm_settle None (s\<lparr>d_rewarm_count := n, d_last_rewarm := y, d_last_error := x\<rparr>))" for n x y
    by (intro lock_ok_rewarm_settle) (simp add: rewarming_def)
  with r show ?thesis by (auto simp: rewarm_created_def lock_ok_rewarm_settle split: option.split)
qed

lemma step_lock: "world_step c w v \<Longrightarrow> lock_ok (w_daemon w) \<Longrightarrow> lock_ok (w_daemon v)"
proof (induction rule: world_step.induct)
  case (chat_enter w s h)
  then show ?case by (auto dest!: acquire_frame simp: lock_fields)
next
  case (device_ask w now s)
  then show ?case by (auto dest!: device_request_frame simp: lock_fields)
next
  case (device_url i w v a s)
  then show ?case by (auto dest!: device_answered_frame simp: lock_fields)
next
  case (pat_rewarmed i w g t h r s)
  then show ?case using refresh_frame(1,2) [of c t True h "w_daemon w"] by (simp add: lock_fields)
next
  case (boot_authenticated w t h f r s)
  then show ?case using refresh_frame(1,2) [of c t True h "boot_auth f (w_daemon w)"] by (simp add: lock_fields)
next
  case (device_done i w url now)
  then show ?case unfolding device_completed_def by (auto intro!: lock_ok_request) (simp add: lock_fields)
next
  case (pat_login i w)
  then show ?case unfolding pat_logged_in_def invalidate_catalog_def by (auto intro!: lock_ok_request) (simp add: lock_fields)
next
  case (encode_start w h q)
  then show ?case using lock_ok_start by simp
next
  case (rewarm_turn w e q)
  then show ?case using lock_ok_turn by simp
qed (simp_all add: lock_ok_encode lock_ok_request lock_ok_start lock_ok_settle lock_ok_token lock_ok_context,
     simp_all add: lock_fields)

section \<open>The chain of jobs empties\<close>

lemma leads_one: "world_step c w v \<Longrightarrow> leads c w v"
  by (rule leads_step [OF leads_refl])

lemma leads_first: "world_step c w v \<Longrightarrow> leads c v u \<Longrightarrow> leads c w u"
  by (rule leads_trans [OF leads_one])

lemma settle_front: "d_lock s = (j, True) # q \<Longrightarrow> d_lock (settle_job s) = q"
  "d_lock s = (j, True) # q \<Longrightarrow> d_lock (rewarm_settle r s) = q"
  by (simp_all add: settle_job_def rewarm_settle_def)

lemma started_rewarm_settles:
  assumes "lock_ok (w_daemon w)" "d_lock (w_daemon w) = (Rewarm_job e, True) # q"
  shows "\<exists>v. leads c w v \<and> d_lock (w_daemon v) = q"
proof -
  have "d_rewarm (w_daemon w) = Some Rw_creating \<or> (\<exists>m. d_rewarm (w_daemon w) = Some (Rw_refreshing m))"
  proof (cases "d_rewarm (w_daemon w)")
    case None
    with assms show ?thesis by (simp add: lock_ok_def)
  next
    case (Some r)
    with assms show ?thesis by (cases r) (simp_all add: lock_ok_def split: list.splits)
  qed
  then show ?thesis
  proof
    assume "d_rewarm (w_daemon w) = Some Rw_creating"
    from rewarm_context [OF this, of c "[]" "Some []"] show ?thesis
      using assms(2) by (intro exI [of _ "on w (rewarm_created [] (Some []) (w_daemon w))"])
        (auto intro: leads.intros simp: rewarm_created_def settle_front)
  next
    assume "\<exists>m. d_rewarm (w_daemon w) = Some (Rw_refreshing m)"
    then obtain m where "d_rewarm (w_daemon w) = Some (Rw_refreshing m)" ..
    from rewarm_token [OF this, of c "Some []"] show ?thesis
      using assms(2) by (intro exI [of _ "on w (rewarm_refreshed (Some []) m (w_daemon w))"])
        (auto intro: leads.intros simp: rewarm_refreshed_def settle_front)
  qed
qed

lemma rewarm_create_lock: "d_lock s = (j, True) # q \<Longrightarrow> d_lock (rewarm_create m s) = q \<or> d_lock (rewarm_create m s) = (j, True) # q"
  by (simp add: rewarm_create_def settle_front)

lemma rewarm_start_lock:
  assumes "d_lock s = (j, False) # q"
  shows "d_lock (rewarm_start e s) = q \<or> d_lock (rewarm_start e s) = (j, True) # q"
proof -
  have l0: "d_lock (start_job s) = (j, True) # q" using assms by (simp add: start_job_def)
  have l: "d_lock ((start_job s)\<lparr>d_last_error := x\<rparr>) = (j, True) # q" for x using assms by (simp add: start_job_def)
  show ?thesis
    using rewarm_create_lock [OF l] settle_front(2) [OF l]
    by (simp add: rewarm_start_def Let_def l0 split: option.split)
qed

lemma first_job_settles:
  assumes "lock_ok (w_daemon w)" "d_lock (w_daemon w) = (j, b) # q"
  shows "\<exists>v. leads c w v \<and> d_lock (w_daemon v) = q"
proof (cases j)
  case (Encode h)
  have settles: "\<exists>v. leads c u v \<and> d_lock (w_daemon v) = q" if "d_lock (w_daemon u) = (Encode h, True) # q" for u
    using encode_settle [OF that, of c] settle_front [OF that]
    by (intro exI [of _ "on u (settle_job (w_daemon u))"]) (auto intro: leads.intros)
  show ?thesis
  proof (cases b)
    case True
    with assms Encode settles show ?thesis by simp
  next
    case False
    with assms Encode have l: "d_lock (w_daemon w) = (Encode h, False) # q" by simp
    let ?u = "on w (start_job (w_daemon w))"
    from l have "d_lock (w_daemon ?u) = (Encode h, True) # q" by (simp add: start_job_def)
    with settles obtain v where "leads c ?u v" "d_lock (w_daemon v) = q" by blast
    with leads_first [OF encode_start [OF l]] show ?thesis by blast
  qed
next
  case (Rewarm_job e)
  show ?thesis
  proof (cases b)
    case True
    with assms Rewarm_job started_rewarm_settles show ?thesis by simp
  next
    case False
    with assms Rewarm_job have l: "d_lock (w_daemon w) = (Rewarm_job e, False) # q" by simp
    let ?u = "on w (rewarm_start e (w_daemon w))"
    have step: "leads c w ?u" by (rule leads_one [OF rewarm_turn [OF l]])
    have ok: "lock_ok (w_daemon ?u)" using lock_ok_turn [OF assms(1) l] by simp
    from rewarm_start_lock [OF l, of e] show ?thesis
    proof
      assume "d_lock (rewarm_start e (w_daemon w)) = q"
      with step show ?thesis by (intro exI [of _ ?u]) simp
    next
      assume "d_lock (rewarm_start e (w_daemon w)) = (Rewarm_job e, True) # q"
      with started_rewarm_settles [OF ok] obtain v where "leads c ?u v" "d_lock (w_daemon v) = q" by auto
      with step show ?thesis by (blast intro: leads_trans)
    qed
  qed
qed

lemma leads_lock: "leads c w v \<Longrightarrow> lock_ok (w_daemon w) \<Longrightarrow> lock_ok (w_daemon v)"
  by (erule leads_invariant) (auto intro: step_lock)

lemma chain_empties: "lock_ok (w_daemon w) \<Longrightarrow> \<exists>v. leads c w v \<and> d_lock (w_daemon v) = []"
proof (induction "d_lock (w_daemon w)" arbitrary: w)
  case Nil
  then show ?case by (metis leads_refl)
next
  case (Cons x q)
  then obtain v where v: "leads c w v" "d_lock (w_daemon v) = q"
    using first_job_settles [of w "fst x" "snd x" q c] by auto
  with Cons leads_lock obtain u where "leads c v u" "d_lock (w_daemon u) = []" by metis
  with v show ?case by (blast intro: leads_trans)
qed

section \<open>The refresh that sticks\<close>

lemma refresh_request_stuck: "d_refresh s = Some (Refreshed r) \<Longrightarrow> snd (refresh_request c t force h s) = s"
  by (simp add: refresh_request_def)

lemma device_rewarmed_catalog: "d_catalog (device_rewarmed r s) = None"
  by (simp add: device_rewarmed_def invalidate_catalog_def Let_def)

text \<open>A settled promise stands in \<open>catalogRefreshPromise\<close>; the catalog is the one it settled with, or was discarded.\<close>

definition stuck :: "snapshot option \<Rightarrow> daemon \<Rightarrow> bool" where
  "stuck r s \<longleftrightarrow> d_refresh s = Some (Refreshed r) \<and> (d_catalog s = None \<or> d_catalog s = r)"

lemma stuck_request: "stuck r s \<Longrightarrow> snd (refresh_request c t force h s) = s"
  by (simp add: stuck_def refresh_request_stuck)

lemma stuck_answer: "stuck r s \<Longrightarrow> refresh_request c t force h s = (Refreshed r, s)"
  by (auto simp: stuck_def refresh_request_def fresh_catalog_def)

lemma stuck_frame: "d_refresh s' = d_refresh s \<Longrightarrow> d_catalog s' = d_catalog s \<or> d_catalog s' = None \<Longrightarrow> stuck r s \<Longrightarrow> stuck r s'"
  by (auto simp: stuck_def)

lemma step_stuck: "world_step c w v \<Longrightarrow> stuck r (w_daemon w) \<Longrightarrow> stuck r (w_daemon v)"
proof (induction rule: world_step.induct)
  case (chat_enter w s h)
  then show ?case by (auto dest!: acquire_frame simp: stuck_def)
next
  case (device_ask w now s)
  then show ?case by (auto dest!: device_request_frame simp: stuck_def)
next
  case (device_url i w v a s)
  then show ?case by (auto dest!: device_answered_frame simp: stuck_def)
next
  case (pat_rewarmed i w g t h r' s)
  then show ?case using stuck_request [of r "w_daemon w" c t True h] by simp
next
  case (boot_authenticated w t h f r' s)
  have "stuck r (boot_auth f (w_daemon w))" by (rule stuck_frame [OF _ _ boot_authenticated.prems]) simp_all
  with boot_authenticated.hyps(2) show ?case using stuck_request [of r "boot_auth f (w_daemon w)" c t True h] by simp
next
  case (catalog_done w t v)
  then show ?case by (simp add: stuck_def)
next
  case (catalog_ask w t force h)
  then show ?case by (simp add: stuck_request)
next
  case (device_end i w url g)
  show ?case by (rule stuck_frame [OF _ _ device_end.prems]) (simp_all add: device_rewarmed_catalog)
next
  case (pat_login i w)
  show ?case by (rule stuck_frame [OF _ _ pat_login.prems]) (simp_all add: pat_logged_in_def invalidate_catalog_def)
qed (simp_all add: stuck_def)

lemma leads_stuck: "leads c w v \<Longrightarrow> stuck r (w_daemon w) \<Longrightarrow> stuck r (w_daemon v)"
  by (rule leads_invariant [where P = "\<lambda>x. stuck r (w_daemon x)"]) (auto intro: step_stuck)

lemma faulty_request_sticks:
  "d_refresh s = None \<Longrightarrow> \<not> (\<not> force \<and> fresh_catalog c t s) \<Longrightarrow> refresh_fault h s \<noteq> None \<Longrightarrow>
   stuck (d_catalog s) (snd (refresh_request c t force h s))"
  by (auto simp: refresh_request_def stuck_def Let_def)

section \<open>Reachable states\<close>



lemma reachable_lock: "reachable c w \<Longrightarrow> lock_ok (w_daemon w)"
proof (erule reachable_invariant)
  show "lock_ok (w_daemon world_start)" by (simp add: lock_fields world_start_def daemon_start_def)
qed (rule step_lock)

lemma reachable_ctx: "c_default_endpoint c \<noteq> [] \<Longrightarrow> reachable c w \<Longrightarrow> ctx_ok (w_daemon w)"
  by (erule reachable_invariant [where P = "\<lambda>w. ctx_ok (w_daemon w)"])
    (auto dest: step_ctx simp: ctx_ok_def world_start_def daemon_start_def)

lemma leads_hot: "c_default_endpoint c \<noteq> [] \<Longrightarrow> leads c w v \<Longrightarrow> ctx_ok (w_daemon w) \<Longrightarrow> hot (w_daemon w) \<Longrightarrow>
    ctx_ok (w_daemon v) \<and> hot (w_daemon v)"
  by (rule leads_invariant [where P = "\<lambda>w. ctx_ok (w_daemon w) \<and> hot (w_daemon w)"]) (auto dest: step_ctx)

text \<open>A run up to a served chat, used to show that the properties apply.\<close>

definition sample_manager :: manager where
  "sample_manager = \<lparr>mg_id = 1, mg_force_refresh = True, mg_refresh_if_needed = False, mg_create_context = True,
     mg_device_login = True, mg_pat_login = True, mg_init_auth = True, mg_get_user = True, mg_is_authenticated = True\<rparr>"

definition sample_config :: config where
  "sample_config = \<lparr>c_api_key = js ''secret'', c_account = js ''a'', c_allow_insecure = False,
     c_default_endpoint = js ''https://api1.qoder.sh'', c_catalog_ttl = Fin 300000, c_max_in_flight = Fin 4\<rparr>"

definition serving :: "config \<Rightarrow> world" where
  "serving c = on world_start (snd (hook_adopt c (Some \<lparr>cx_id = 0, cx_prepares = True\<rparr>) (Some sample_manager) daemon_start))"

definition chatting :: world where
  "chatting = (serving sample_config)\<lparr>w_daemon := snd (acquire_in_flight sample_config (w_daemon (serving sample_config))),
     w_chats := [7]\<rparr>"

lemma serving_fields:
  assumes "api_key_ok c"
  shows "d_started (w_daemon (serving c))" "hot (w_daemon (serving c))" "d_lock (w_daemon (serving c)) = []"
    "d_manager (w_daemon (serving c)) = Some sample_manager" "d_rewarm (w_daemon (serving c)) = None"
    "d_login_wait (w_daemon (serving c)) = False" "w_flows (serving c) = []" "w_chats (serving c) = []"
    "d_in_flight (w_daemon (serving c)) = 0"
  using assms by (simp_all add: serving_def world_start_def hook_adopt_def adopt_context_snd start_server_def adopted_def
      hot_def daemon_start_def Let_def)

lemma serving_reachable: "reachable c (serving c)"
  using reach_step [OF reach_start cli_context [of c world_start]] by (simp add: serving_def world_start_def)

lemma sample_key: "api_key_ok sample_config"
  by (simp add: api_key_ok_def sample_config_def js_def)

lemma chatting_reachable: "reachable sample_config chatting"
proof -
  have "acquire_in_flight sample_config (w_daemon (serving sample_config)) =
      (Inr (), snd (acquire_in_flight sample_config (w_daemon (serving sample_config))))"
    by (simp add: acquire_in_flight_def serving_fields [OF sample_key]) (simp add: sample_config_def)
  from chat_enter [OF serving_fields(1) [OF sample_key] this, of 7] serving_reachable show ?thesis
    by (auto simp: chatting_def serving_fields [OF sample_key] intro: reach_step)
qed

section \<open>Properties\<close>



text \<open>
  C13: No request is encoded with a context that is being replaced. From its turn in the chain to its
  settlement a rewarm is the only job that runs: no chat is between the start and the end of its
  encoding.
\<close>

theorem rewarm_runs_alone:
  assumes "reachable c w" "d_rewarm (w_daemon w) = Some r" "r \<noteq> Rw_waiting"
  shows "\<exists>e. lock_running (w_daemon w) = [Rewarm_job e]"
proof -
  from started_rewarm_in_front [OF reachable_lock [OF assms(1)] assms(2,3)]
  obtain e q where l: "d_lock (w_daemon w) = (Rewarm_job e, True) # q" "list_all (\<lambda>x. \<not> snd x) q"
    by (auto simp: rewarming_iff)
  then have "filter snd q = []" by (auto simp: list_all_iff filter_empty_conv)
  with l show ?thesis by (simp add: lock_running_def)
qed

theorem rewarm_runs_alone_witness:
  "\<exists>w e. reachable sample_config w \<and> d_rewarm (w_daemon w) = Some (Rw_refreshing sample_manager)
     \<and> lock_running (w_daemon w) = [Rewarm_job e]"
proof -
  let ?d = "w_daemon (serving sample_config)"
  let ?w = "on (serving sample_config) (rewarm_request (js ''admin_rewarm'') ?d)"
  let ?v = "on ?w (rewarm_start (js ''admin_rewarm'') (w_daemon ?w))"
  note f = serving_fields [OF sample_key]
  have "world_step sample_config (serving sample_config) ?w" by (rule admin_rewarm) (rule f)
  moreover have "d_lock (w_daemon ?w) = [(Rewarm_job (js ''admin_rewarm''), False)]"
    by (simp add: rewarm_request_def f)
  then have "world_step sample_config ?w ?v" by (rule rewarm_turn)
  ultimately have r: "reachable sample_config ?v" using serving_reachable by (blast intro: reach_step)
  have s: "d_rewarm (w_daemon ?v) = Some (Rw_refreshing sample_manager)"
    by (simp add: rewarm_start_def rewarm_request_def Let_def start_job_def get_manager_def with_encode_lock_def f)
      (simp add: sample_manager_def)
  from rewarm_runs_alone [OF r s] r s show ?thesis by blast
qed

text \<open>
  C14: A warm daemon stays warm. Once a context has been adopted, every later state has a usable
  context and an endpoint to send to, whatever logins, rewarms and failures happen, and the
  CLI's calls of \<open>process.exit\<close> are ignored.
\<close>

theorem context_never_lost:
  assumes "c_default_endpoint c \<noteq> []" "reachable c w" "d_context (w_daemon w) \<noteq> None" "leads c w v"
  shows "(case d_context (w_daemon v) of None \<Rightarrow> False | Some x \<Rightarrow> cx_prepares x)
    \<and> truthy (d_endpoint (w_daemon v)) \<and> \<not> exits (w_daemon v)"
  using leads_hot [OF assms(1,4) reachable_ctx [OF assms(1,2)]] assms(3)
  by (auto simp: hot_def ctx_ok_def exits_def)

theorem context_never_lost_witness: "truthy (d_endpoint (w_daemon chatting)) \<and> \<not> exits (w_daemon chatting)"
proof -
  have "d_context (w_daemon chatting) \<noteq> None"
    using serving_fields(2) [OF sample_key] by (simp add: chatting_def acquire_in_flight_def hot_def)
  moreover have "c_default_endpoint sample_config \<noteq> []" by (simp add: sample_config_def)
  ultimately show ?thesis using context_never_lost [OF _ chatting_reachable _ leads_refl] by blast
qed

text \<open>
  C15: The chain of jobs never deadlocks. From every reachable state the daemon can go on to one
  in which every job of the chain has settled, a waiting or started rewarm included: no job
  waits for one behind it.
\<close>

theorem jobs_settle:
  assumes "reachable c w"
  shows "\<exists>v. leads c w v \<and> lock_jobs (w_daemon v) = [] \<and> d_rewarm (w_daemon v) = None"
proof -
  have ok: "lock_ok (w_daemon w)" using assms by (rule reachable_lock)
  from chain_empties [OF this] obtain v where v: "leads c w v" "d_lock (w_daemon v) = []" by blast
  with leads_lock [OF v(1) ok] have "d_rewarm (w_daemon v) = None" by (simp add: lock_ok_def)
  with v show ?thesis by (auto simp: lock_jobs_def)
qed

theorem jobs_settle_witness:
  "\<exists>v. leads sample_config chatting v \<and> lock_jobs (w_daemon v) = [] \<and> d_rewarm (w_daemon v) = None"
  using jobs_settle [OF chatting_reachable] .

text \<open>
  On the list of unsettled jobs, as on the promises behind it: whatever the interleaving of submissions, starts
  and settlements, the jobs that have finished followed by those still in the list are the submitted ones in
  the order of their submission.
\<close>

lemma lock_list_in_order:
  "encode_lock.finished ops daemon_start @ lock_jobs (fold (lock_step with_encode_lock start_job settle_job) ops daemon_start)
     = submitted ops"
  using encode_lock.fifo [of daemon_start ops] by (simp add: lock_good_def lock_jobs_def daemon_start_def)

text \<open>
  C17: A refresh of the model catalog that fails before its first await is never repeated. When no refresh is
  in progress and a request, which the age of the catalog does not answer, finds no manager, no usable hook or an
  \<open>init\<close> that throws, then in every later state no request starts a refresh: each of them, forced or not, whatever
  manager and hook there are by then, changes nothing and is answered with the catalog of that moment. When
  there was none, every chat from then on fails as \<open>model_catalog_unavailable\<close>.
\<close>

theorem failed_refresh_sticks:
  assumes "d_refresh s = None" and "force \<or> \<not> fresh_catalog c t s" and "refresh_fault h s \<noteq> None"
    and "w_daemon w = snd (refresh_request c t force h s)" and "leads c w v"
  shows "refresh_request c t' force' h' (w_daemon v) = (Refreshed (d_catalog s), w_daemon v)
    \<and> (d_catalog s = None \<longrightarrow> d_catalog (w_daemon v) = None)"
proof -
  have "stuck (d_catalog s) (w_daemon w)"
    unfolding assms(4) by (rule faulty_request_sticks) (use assms(1-3) in auto)
  from leads_stuck [OF assms(5) this] have "stuck (d_catalog s) (w_daemon v)" .
  with stuck_answer [OF this] show ?thesis by (auto simp: stuck_def)
qed

text \<open>The boot itself is such a case, when the CLI gives it no manager: even after the manager has been
  captured, a forced refresh with a working hook does nothing.\<close>

theorem failed_refresh_sticks_witness:
  "\<exists>w. reachable sample_config w \<and> get_manager (w_daemon w) \<noteq> None
     \<and> refresh_request sample_config 0 True Init_pending (w_daemon w) = (Refreshed None, w_daemon w)"
proof -
  let ?c = sample_config
  let ?w1 = "world_start\<lparr>w_daemon := boot_begin (w_daemon world_start), w_boot := Boot_runtime\<rparr>"
  let ?w2 = "?w1\<lparr>w_daemon := boot_manager None (w_daemon ?w1), w_boot := Boot_auth\<rparr>"
  let ?r = "refresh_request ?c 0 True No_hook (boot_auth None (w_daemon ?w2))"
  let ?w3 = "?w2\<lparr>w_daemon := snd ?r, w_boot := Boot_refreshing (refresh_ticket (fst ?r) (snd ?r))\<rparr>"
  let ?w4 = "on ?w3 ((w_daemon ?w3)\<lparr>d_global_manager := Some sample_manager\<rparr>)"
  have "reachable ?c ?w2"
    by (rule reach_step [OF reach_step [OF reach_start booting] boot_runtime]) (simp_all add: world_start_def)
  moreover have "world_step ?c ?w2 ?w3" by (rule boot_authenticated [where f = None and h = No_hook]) simp_all
  ultimately have r: "reachable ?c ?w3" by (rule reach_step)
  let ?s = "boot_auth None (w_daemon ?w2)"
  have s: "d_refresh ?s = None" "d_catalog ?s = None" "refresh_fault No_hook ?s \<noteq> None"
    by (simp_all add: refresh_fault_def get_manager_def boot_begin_def boot_manager_def boot_auth_def world_start_def daemon_start_def)
  have step: "world_step ?c ?w3 ?w4" by (rule cli_manager)
  have "get_manager (w_daemon ?w4) \<noteq> None" by (simp add: get_manager_def split: option.split)
  moreover have "w_daemon ?w3 = snd ?r" by simp
  then have "refresh_request ?c 0 True Init_pending (w_daemon ?w4) = (Refreshed None, w_daemon ?w4)"
    using failed_refresh_sticks [OF s(1) _ s(3) _ leads_one [OF step], where force = True] s(2) by simp
  ultimately show ?thesis using reach_step [OF r step] by blast
qed

text \<open>
  A device login that fails at the start never ends. The state says "pending" from the request on,
  but nothing changes it when the manager's call is rejected or gives no URL: the daemon reaches a
  state that reports a pending login although no login is in progress and nothing will end it.
\<close>

theorem device_login_left_pending:
  assumes "api_key_ok c"
  shows "\<exists>w. reachable c w \<and> lg_status (d_login (w_daemon w)) = ''pending'' \<and> w_flows w = [] \<and> \<not> d_login_wait (w_daemon w)"
proof -
  note f = serving_fields [OF assms]
  define l where "l = \<lparr>lg_status = ''pending'', lg_auth_url = Null, lg_message = jlit ''starting device flow'',
    lg_started = JStr [], lg_finished = Null\<rparr>"
  define s where "s = (w_daemon (serving c))\<lparr>d_login := l\<rparr>"
  let ?v = "(serving c)\<lparr>w_daemon := s, w_flows := [Flow_asked]\<rparr>"
  let ?u = "?v\<lparr>w_daemon := note_failure [] (w_daemon ?v), w_flows := drop_at 0 (w_flows ?v)\<rparr>"
  have "device_request [] (w_daemon (serving c)) = (Asked, s)"
    by (simp add: device_request_def get_manager_def f s_def l_def) (simp add: sample_manager_def)
  from device_ask [OF f(1) this] have "world_step c (serving c) ?v" by (simp add: f)
  moreover have "world_step c ?v ?u" by (rule device_refused) simp_all
  ultimately have "reachable c ?u" using serving_reachable by (blast intro: reach_step)
  then show ?thesis
    by (intro exI [of _ ?u]) (simp add: drop_at_def note_failure_def s_def l_def f)
qed

theorem device_login_left_pending_witness:
  "\<exists>w. reachable sample_config w \<and> lg_status (d_login (w_daemon w)) = ''pending'' \<and> w_flows w = []"
  using device_login_left_pending [OF sample_key] by blast

end
