(* ===== verification/Worker_Lock.thy ===== *)
theory Worker_Lock
  imports Worker_Daemon
begin

text \<open>
  The promises of the encode lock (\<open>withEncodeLock\<close> and \<open>encodeChain\<close> in \<open>worker/src/daemon.mjs\<close>): a store of promises
  in which \<open>p.then(f, g)\<close> is a promise with its source and its two handlers, and the steps of the event loop that
  run a handler or settle the promise of a job, well or badly. The order of the jobs is a consequence of which
  promise waits for which. \<open>Worker_Daemon\<close> works with the list of unsettled jobs, which is shown to be what these
  promises amount to.
\<close>

section \<open>Promises\<close>

datatype promise_state = Pending | Fulfilled | Rejected

text \<open>
  A handler that calls a job (its promise settles when the job does), one that returns \<open>undefined\<close>, and none, for
  which the promise takes over the state of its source.
\<close>

datatype 'j handler = Calls 'j | Gives_undefined | No_handler

record 'j promise =
  pm_source :: nat
  pm_ok :: "'j handler"
  pm_bad :: "'j handler"
  pm_called :: bool
  pm_state :: promise_state

record 'j encode_chain =
  ec_promises :: "'j promise list"
  ec_chain :: nat

definition resolved :: "'j promise" where
  "resolved = \<lparr>pm_source = 0, pm_ok = No_handler, pm_bad = No_handler, pm_called = True, pm_state = Fulfilled\<rparr>"

definition chain_start :: "'j encode_chain" where
  "chain_start = \<lparr>ec_promises = [resolved], ec_chain = 0\<rparr>"

definition then_promise :: "nat \<Rightarrow> 'j handler \<Rightarrow> 'j handler \<Rightarrow> 'j promise" where
  "then_promise p f g = \<lparr>pm_source = p, pm_ok = f, pm_bad = g, pm_called = False, pm_state = Pending\<rparr>"

definition then_on :: "nat \<Rightarrow> 'j handler \<Rightarrow> 'j handler \<Rightarrow> 'j encode_chain \<Rightarrow> nat \<times> 'j encode_chain" where
  "then_on p f g l = (length (ec_promises l), l\<lparr>ec_promises := ec_promises l @ [then_promise p f g]\<rparr>)"

text \<open>The promise that the caller gets, and the chain.\<close>

definition withEncodeLock :: "'j \<Rightarrow> 'j encode_chain \<Rightarrow> nat \<times> 'j encode_chain" where
  "withEncodeLock fn l =
     (let (run, l1) = then_on (ec_chain l) (Calls fn) (Calls fn) l;
          (chain, l2) = then_on run Gives_undefined Gives_undefined l1
      in (run, l2\<lparr>ec_chain := chain\<rparr>))"

text \<open>
  The event loop runs the handler of a promise whose source has settled, once: the job it calls, if it calls
  one, and the store.
\<close>

definition react :: "nat \<Rightarrow> 'j encode_chain \<Rightarrow> ('j option \<times> 'j encode_chain) option" where
  "react i l =
     (if i < length (ec_promises l) \<and> \<not> pm_called (ec_promises l ! i)
         \<and> pm_state (ec_promises l ! pm_source (ec_promises l ! i)) \<noteq> Pending
      then (let p = ec_promises l ! i; src = pm_state (ec_promises l ! pm_source p);
                put = (\<lambda>p'. l\<lparr>ec_promises := (ec_promises l)[i := p']\<rparr>)
            in case (if src = Fulfilled then pm_ok p else pm_bad p) of
                 Calls j \<Rightarrow> Some (Some j, put (p\<lparr>pm_called := True\<rparr>))
               | Gives_undefined \<Rightarrow> Some (None, put (p\<lparr>pm_called := True, pm_state := Fulfilled\<rparr>))
               | No_handler \<Rightarrow> Some (None, put (p\<lparr>pm_called := True, pm_state := src\<rparr>)))
      else None)"

text \<open>A job that was called returns or throws.\<close>

definition settle_promise :: "nat \<Rightarrow> bool \<Rightarrow> 'j encode_chain \<Rightarrow> 'j encode_chain option" where
  "settle_promise i ok l =
     (if i < length (ec_promises l) \<and> pm_called (ec_promises l ! i) \<and> pm_state (ec_promises l ! i) = Pending
      then Some (l\<lparr>ec_promises := (ec_promises l)[i := (ec_promises l ! i)\<lparr>pm_state := (if ok then Fulfilled else Rejected)\<rparr>]\<rparr>)
      else None)"

section \<open>Runs\<close>

text \<open>The events of a run; a job is named by the promise its caller got.\<close>

datatype 'j chain_event = Submitted nat 'j | Started nat | Settled nat bool

inductive chain_run :: "'j chain_event list \<Rightarrow> 'j encode_chain \<Rightarrow> bool" where
  chain_begin: "chain_run [] chain_start"
| chain_submit: "chain_run es l \<Longrightarrow> withEncodeLock j l = (i, l') \<Longrightarrow> chain_run (es @ [Submitted i j]) l'"
| chain_call: "chain_run es l \<Longrightarrow> react i l = Some (Some j, l') \<Longrightarrow> chain_run (es @ [Started i]) l'"
| chain_pass: "chain_run es l \<Longrightarrow> react i l = Some (None, l') \<Longrightarrow> chain_run es l'"
| chain_settle: "chain_run es l \<Longrightarrow> settle_promise i ok l = Some l' \<Longrightarrow> chain_run (es @ [Settled i ok]) l'"

definition subs :: "'j chain_event list \<Rightarrow> (nat \<times> 'j) list" where
  "subs es = concat (map (\<lambda>e. case e of Submitted i j \<Rightarrow> [(i, j)] | _ \<Rightarrow> []) es)"

definition begun :: "'j chain_event list \<Rightarrow> nat list" where
  "begun es = concat (map (\<lambda>e. case e of Started i \<Rightarrow> [i] | _ \<Rightarrow> []) es)"

definition ended :: "'j chain_event list \<Rightarrow> (nat \<times> bool) list" where
  "ended es = concat (map (\<lambda>e. case e of Settled i ok \<Rightarrow> [(i, ok)] | _ \<Rightarrow> []) es)"

lemma events_snoc [simp]:
  "subs (es @ [Submitted i j]) = subs es @ [(i, j)]" "subs (es @ [Started i]) = subs es" "subs (es @ [Settled i ok]) = subs es"
  "begun (es @ [Submitted i j]) = begun es" "begun (es @ [Started i]) = begun es @ [i]" "begun (es @ [Settled i ok]) = begun es"
  "ended (es @ [Submitted i j]) = ended es" "ended (es @ [Started i]) = ended es" "ended (es @ [Settled i ok]) = ended es @ [(i, ok)]"
  by (simp_all add: subs_def begun_def ended_def)

lemma events_Nil [simp]: "subs [] = []" "begun [] = []" "ended [] = []"
  by (simp_all add: subs_def begun_def ended_def)

section \<open>The shape of the store\<close>

text \<open>
  With \<open>n\<close> jobs submitted, job \<open>k\<close> has the promises \<open>2 k + 1\<close> (its own) and \<open>2 k + 2\<close> (of the chain). \<open>a\<close> jobs have
  been called, \<open>bs\<close> are the outcomes of those that settled, and \<open>p\<close> promises of the chain have gone on.
\<close>

definition job_promise :: "(nat \<times> 'j) list \<Rightarrow> nat \<Rightarrow> bool list \<Rightarrow> nat \<Rightarrow> 'j promise" where
  "job_promise jbs a bs k = \<lparr>pm_source = 2 * k, pm_ok = Calls (snd (jbs ! k)), pm_bad = Calls (snd (jbs ! k)),
     pm_called = (k < a),
     pm_state = (if k < length bs then if bs ! k then Fulfilled else Rejected else Pending)\<rparr>"

definition chain_promise :: "nat \<Rightarrow> nat \<Rightarrow> 'j promise" where
  "chain_promise p k = \<lparr>pm_source = 2 * k + 1, pm_ok = Gives_undefined, pm_bad = Gives_undefined,
     pm_called = (k < p), pm_state = (if k < p then Fulfilled else Pending)\<rparr>"

definition shape :: "(nat \<times> 'j) list \<Rightarrow> nat \<Rightarrow> bool list \<Rightarrow> nat \<Rightarrow> 'j encode_chain \<Rightarrow> bool" where
  "shape jbs a bs p l \<longleftrightarrow>
     p \<le> length bs \<and> length bs \<le> a \<and> a \<le> Suc p \<and> a \<le> length jbs
   \<and> ec_chain l = 2 * length jbs \<and> length (ec_promises l) = 2 * length jbs + 1
   \<and> map fst jbs = map (\<lambda>k. 2 * k + 1) [0..<length jbs]
   \<and> ec_promises l ! 0 = resolved
   \<and> (\<forall>k < length jbs. ec_promises l ! (2 * k + 1) = job_promise jbs a bs k \<and> ec_promises l ! (2 * k + 2) = chain_promise p k)"

definition chain_inv :: "'j chain_event list \<Rightarrow> 'j encode_chain \<Rightarrow> bool" where
  "chain_inv es l \<longleftrightarrow> (\<exists>a bs p. shape (subs es) a bs p l
     \<and> begun es = map fst (take a (subs es)) \<and> ended es = zip (map fst (take (length bs) (subs es))) bs)"

lemma shape_start: "shape [] 0 [] 0 chain_start"
  by (simp add: shape_def chain_start_def)

lemma shape_submit:
  assumes "shape jbs a bs p l" and "withEncodeLock j l = (i, l')"
  shows "shape (jbs @ [(i, j)]) a bs p l'" and "i = 2 * length jbs + 1"
proof -
  let ?n = "length jbs"
  from assms have l': "l' = \<lparr>ec_promises = ec_promises l @ [then_promise (2 * ?n) (Calls j) (Calls j),
      then_promise (2 * ?n + 1) Gives_undefined Gives_undefined], ec_chain = 2 * ?n + 2\<rparr>" and i: "i = 2 * ?n + 1"
    by (auto simp: withEncodeLock_def then_on_def shape_def Let_def)
  show "i = 2 * ?n + 1" by (rule i)
  have old: "ec_promises l' ! m = ec_promises l ! m" if "m < 2 * ?n + 1" for m
    using that assms(1) by (simp add: l' shape_def nth_append)
  have "ec_promises l' ! (2 * k + 1) = job_promise (jbs @ [(i, j)]) a bs k \<and> ec_promises l' ! (2 * k + 2) = chain_promise p k"
    if "k < Suc ?n" for k
  proof (cases "k = ?n")
    case True
    with assms(1) show ?thesis
      by (auto simp: l' shape_def nth_append then_promise_def job_promise_def chain_promise_def)
  next
    case False
    with that have k: "k < ?n" by simp
    with assms(1) have "ec_promises l ! (2 * k + 1) = job_promise jbs a bs k" "ec_promises l ! (2 * k + 2) = chain_promise p k"
      by (simp_all add: shape_def)
    with k old [of "2 * k + 1"] old [of "2 * k + 2"] show ?thesis by (simp add: job_promise_def nth_append)
  qed
  moreover have "ec_promises l' ! 0 = resolved" using old [of 0] assms(1) by (simp add: shape_def)
  ultimately show "shape (jbs @ [(i, j)]) a bs p l'"
    using assms(1) i by (auto simp: shape_def l')
qed

text \<open>Which promise can be the next to run its handler, and which can settle.\<close>

lemma index_cases:
  assumes "(i :: nat) < 2 * n + 1"
  obtains "i = 0" | k where "k < n" "i = 2 * k + 1" | k where "k < n" "i = 2 * k + 2"
proof (cases "i = 0")
  case False
  then show ?thesis
  proof (cases "even i")
    case True
    then obtain m where "i = 2 * m" by (elim evenE)
    with False assms that(3) [of "m - 1"] show ?thesis by auto
  next
    case odd: False
    then obtain m where "i = 2 * m + 1" by (elim oddE)
    with assms that(2) [of m] show ?thesis by simp
  qed
qed (use that in simp)

lemma source_settled:
  assumes "shape jbs a bs p l" and "k < length jbs"
  shows "pm_state (ec_promises l ! (2 * k)) = (if k \<le> p then Fulfilled else Pending)"
proof (cases k)
  case 0
  with assms show ?thesis by (simp add: shape_def resolved_def)
next
  case (Suc m)
  with assms have "ec_promises l ! (2 * m + 2) = chain_promise p m" by (simp add: shape_def)
  with Suc show ?thesis by (simp add: chain_promise_def)
qed

lemma react_cases:
  assumes "shape jbs a bs p l" and "react i l = Some (c, l')"
  obtains (job) "p = a" "a < length jbs" "i = 2 * a + 1" "c = Some (snd (jbs ! a))"
      "l' = l\<lparr>ec_promises := (ec_promises l)[i := job_promise jbs (Suc a) bs a]\<rparr>"
    | (chain) "p < length bs" "i = 2 * p + 2" "c = None"
      "l' = l\<lparr>ec_promises := (ec_promises l)[i := chain_promise (Suc p) p]\<rparr>"
proof -
  have len: "i < 2 * length jbs + 1" using assms by (auto simp: shape_def react_def split: if_splits)
  from len show ?thesis
  proof (cases rule: index_cases)
    case 1
    with assms show ?thesis by (auto simp: shape_def react_def resolved_def)
  next
    case (2 k)
    with assms(1) have e: "ec_promises l ! i = job_promise jbs a bs k" by (simp add: shape_def)
    with assms(2) source_settled [OF assms(1) 2(1)] 2 have k: "k = p" "a = p"
      using assms(1) by (auto simp: react_def job_promise_def shape_def split: if_splits)
    have bs: "length bs = p" using assms(1) k by (simp add: shape_def)
    have "pm_state (ec_promises l ! (2 * k)) = Fulfilled" using source_settled [OF assms(1) 2(1)] k by simp
    with assms(2) e 2 k bs show ?thesis
      by (intro job) (auto simp: react_def job_promise_def Let_def split: if_splits)
  next
    case (3 k)
    with assms(1) have e: "ec_promises l ! i = chain_promise p k" "ec_promises l ! (2 * k + 1) = job_promise jbs a bs k"
      by (simp_all add: shape_def)
    with assms(2) have k: "k < length bs" "p \<le> k"
      by (auto simp: react_def job_promise_def chain_promise_def split: if_splits)
    with assms(1) have "k = p" by (simp add: shape_def)
    with assms(2) e 3 k show ?thesis
      by (intro chain) (auto simp: react_def job_promise_def chain_promise_def Let_def split: if_splits)
  qed
qed

lemma settle_cases:
  assumes "shape jbs a bs p l" and "settle_promise i ok l = Some l'"
  shows "length bs < a \<and> i = 2 * length bs + 1
    \<and> l' = l\<lparr>ec_promises := (ec_promises l)[i := job_promise jbs a (bs @ [ok]) (length bs)]\<rparr>"
proof -
  have len: "i < 2 * length jbs + 1" using assms by (auto simp: shape_def settle_promise_def split: if_splits)
  from len show ?thesis
  proof (cases rule: index_cases)
    case 1
    with assms show ?thesis by (auto simp: shape_def settle_promise_def resolved_def)
  next
    case (2 k)
    with assms(1) have e: "ec_promises l ! i = job_promise jbs a bs k" by (simp add: shape_def)
    with assms(2) have k: "k < a" "length bs \<le> k" by (auto simp: settle_promise_def job_promise_def split: if_splits)
    with assms(1) have "k = length bs" by (simp add: shape_def)
    with assms(2) e 2 k show ?thesis
      by (auto simp: settle_promise_def job_promise_def split: if_splits)
  next
    case (3 k)
    with assms show ?thesis by (auto simp: shape_def settle_promise_def chain_promise_def split: if_splits)
  qed
qed

text \<open>Each step keeps the shape, because a changed number changes the promise at one index only.\<close>

lemma parity [simp]: "2 * k \<noteq> Suc (2 * m)" "Suc (2 * m) \<noteq> 2 * k" for k m :: nat
  by presburger+

lemma shape_call:
  assumes "shape jbs a bs a l" and "a < length jbs"
  shows "shape jbs (Suc a) bs a (l\<lparr>ec_promises := (ec_promises l)[2 * a + 1 := job_promise jbs (Suc a) bs a]\<rparr>)"
proof -
  have "job_promise jbs (Suc a) bs k = job_promise jbs a bs k" if "a \<noteq> k" for k
    using that by (auto simp: job_promise_def)
  with assms show ?thesis by (auto simp: shape_def nth_list_update)
qed

lemma shape_pass:
  assumes "shape jbs a bs p l" and "p < length bs"
  shows "shape jbs a bs (Suc p) (l\<lparr>ec_promises := (ec_promises l)[2 * p + 2 := chain_promise (Suc p) p]\<rparr>)"
proof -
  have other: "p \<noteq> k \<Longrightarrow> chain_promise (Suc p) k = chain_promise p k" for k
    by (auto simp: chain_promise_def)
  show ?thesis using assms by (auto simp: shape_def nth_list_update other)
qed

lemma shape_settle:
  assumes "shape jbs a bs p l" and "length bs < a"
  shows "shape jbs a (bs @ [ok]) p (l\<lparr>ec_promises := (ec_promises l)[2 * length bs + 1 := job_promise jbs a (bs @ [ok]) (length bs)]\<rparr>)"
proof -
  have "job_promise jbs a (bs @ [ok]) k = job_promise jbs a bs k" if "length bs \<noteq> k" for k
    using that by (auto simp: job_promise_def nth_append)
  with assms show ?thesis by (auto simp: shape_def nth_list_update)
qed

lemma shape_ids: "shape jbs a bs p l \<Longrightarrow> k < length jbs \<Longrightarrow> fst (jbs ! k) = 2 * k + 1"
  by (metis (no_types, lifting) add_0 diff_zero length_map length_upt nth_map nth_upt shape_def)

lemma chain_run_inv: "chain_run es l \<Longrightarrow> chain_inv es l"
proof (induction rule: chain_run.induct)
  case chain_begin
  have "shape [] 0 [] 0 chain_start" by (rule shape_start)
  then show ?case unfolding chain_inv_def by (intro exI [of _ 0] exI [of _ "[]"]) simp
next
  case (chain_submit es l j i l')
  then obtain a bs p where s: "shape (subs es) a bs p l" and
    h: "begun es = map fst (take a (subs es))" "ended es = zip (map fst (take (length bs) (subs es))) bs"
    by (auto simp: chain_inv_def)
  have "a \<le> length (subs es)" "length bs \<le> length (subs es)" using s by (auto simp: shape_def)
  with shape_submit(1) [OF s chain_submit.hyps(2)] h show ?case unfolding chain_inv_def
    by (intro exI [of _ a] exI [of _ bs] exI [of _ p]) simp
next
  case (chain_call es l i j l')
  then obtain a bs p where s: "shape (subs es) a bs p l" and
    h: "begun es = map fst (take a (subs es))" "ended es = zip (map fst (take (length bs) (subs es))) bs"
    by (auto simp: chain_inv_def)
  from s chain_call.hyps(2) show ?case
  proof (cases rule: react_cases)
    case job
    then have "begun (es @ [Started i]) = map fst (take (Suc a) (subs es))"
      using h shape_ids [OF s, of a] by (simp add: take_Suc_conv_app_nth)
    moreover have "shape (subs es) (Suc a) bs a l'" using s job shape_call by simp
    ultimately show ?thesis using h unfolding chain_inv_def
      by (intro exI [of _ "Suc a"] exI [of _ bs] exI [of _ a]) simp
  qed simp
next
  case (chain_pass es l i l')
  then obtain a bs p where s: "shape (subs es) a bs p l" and
    h: "begun es = map fst (take a (subs es))" "ended es = zip (map fst (take (length bs) (subs es))) bs"
    by (auto simp: chain_inv_def)
  from s chain_pass.hyps(2) show ?case
  proof (cases rule: react_cases)
    case chain
    then have "shape (subs es) a bs (Suc p) l'" using s shape_pass by simp
    with h show ?thesis unfolding chain_inv_def by blast
  qed simp
next
  case (chain_settle es l i ok l')
  then obtain a bs p where s: "shape (subs es) a bs p l" and
    h: "begun es = map fst (take a (subs es))" "ended es = zip (map fst (take (length bs) (subs es))) bs"
    by (auto simp: chain_inv_def)
  from settle_cases [OF s chain_settle.hyps(2)] have
    c: "length bs < a" "i = 2 * length bs + 1" and s': "shape (subs es) a (bs @ [ok]) p l'"
    using shape_settle [OF s] by auto
  have len: "length bs < length (subs es)" using c s by (simp add: shape_def)
  then have "ended (es @ [Settled i ok]) = zip (map fst (take (length (bs @ [ok])) (subs es))) (bs @ [ok])"
    using h c shape_ids [OF s, of "length bs"] by (simp add: take_Suc_conv_app_nth)
  with h s' show ?case unfolding chain_inv_def
    by (intro exI [of _ a] exI [of _ "bs @ [ok]"] exI [of _ p]) simp
qed

section \<open>The order of the jobs\<close>

text \<open>The steps of the event loop that only run handlers of the chain, up to the next job that is called.\<close>

lemma next_called:
  assumes "chain_run es l" and "length (begun es) = length (ended es)" and "length (begun es) < length (subs es)"
  shows "\<exists>l'. chain_run (es @ [Started (fst (subs es ! length (begun es)))]) l'"
proof -
  obtain a bs p where s: "shape (subs es) a bs p l" and
    h: "begun es = map fst (take a (subs es))" "ended es = zip (map fst (take (length bs) (subs es))) bs"
    using chain_run_inv [OF assms(1)] by (auto simp: chain_inv_def)
  have n: "a \<le> length (subs es)" "length bs \<le> a" "p \<le> length bs" "a \<le> Suc p" using s by (simp_all add: shape_def)
  with assms(2,3) h have a: "length bs = a" "a < length (subs es)" by simp_all
  have call: "\<exists>l''. chain_run (es @ [Started (2 * a + 1)]) l''"
    if run: "chain_run es m" and sh: "shape (subs es) a bs a m" for m
  proof -
    have "ec_promises m ! (2 * a + 1) = job_promise (subs es) a bs a" "2 * a + 1 < length (ec_promises m)"
      using sh a by (simp_all add: shape_def)
    then obtain l'' where "react (2 * a + 1) m = Some (Some (snd (subs es ! a)), l'')"
      using source_settled [OF sh a(2)] by (simp add: react_def job_promise_def Let_def)
    with run show ?thesis by (blast intro: chain_call)
  qed
  have "\<exists>m. chain_run es m \<and> shape (subs es) a bs a m"
  proof (cases "p = a")
    case False
    with n a have p: "p < length bs" "a = Suc p" by simp_all
    have "ec_promises l ! (2 * p + 2) = chain_promise p p" "ec_promises l ! (2 * p + 1) = job_promise (subs es) a bs p"
      "2 * p + 2 < length (ec_promises l)" using s p a by (simp_all add: shape_def)
    then obtain m where m: "react (2 * p + 2) l = Some (None, m)"
      using p by (simp add: react_def chain_promise_def job_promise_def Let_def)
    from s m have "shape (subs es) a bs (Suc p) m"
    proof (cases rule: react_cases)
      case chain
      with s shape_pass show ?thesis by simp
    qed simp
    with assms(1) m p(2) show ?thesis by (blast intro: chain_pass)
  qed (use assms(1) s in blast)
  with call have "\<exists>l''. chain_run (es @ [Started (2 * a + 1)]) l''" by blast
  with shape_ids [OF s a(2)] h(1) n show ?thesis by simp
qed

text \<open>
  C16: Encodings and rewarms take their turns in order, failures included. In every run of the promises of
  \<open>withEncodeLock\<close>, with any outcomes of the jobs: the jobs that were called are the first ones that were submitted,
  in that order and each once; a job is called only when all before it have settled, so that one runs at most;
  the promise a caller got is pending until its own job settles, and then has the outcome of that
  job; and when no job runs and one waits, the event loop can call the next one, whatever the
  outcome of the job before.
\<close>

theorem jobs_in_order:
  assumes "chain_run es l"
  shows "distinct (map fst (subs es))
    \<and> begun es = map fst (take (length (begun es)) (subs es))
    \<and> map fst (ended es) = take (length (ended es)) (begun es)
    \<and> length (ended es) \<le> length (begun es) \<and> length (begun es) \<le> length (ended es) + 1
    \<and> (\<forall>(i, j) \<in> set (subs es). pm_state (ec_promises l ! i) =
         (case map_of (ended es) i of None \<Rightarrow> Pending | Some ok \<Rightarrow> if ok then Fulfilled else Rejected))
    \<and> (length (begun es) = length (ended es) \<and> length (begun es) < length (subs es) \<longrightarrow>
         (\<exists>l'. chain_run (es @ [Started (fst (subs es ! length (begun es)))]) l'))"
proof -
  obtain a bs p where s: "shape (subs es) a bs p l" and
    h: "begun es = map fst (take a (subs es))" "ended es = zip (map fst (take (length bs) (subs es))) bs"
    using chain_run_inv [OF assms] by (auto simp: chain_inv_def)
  have n: "a \<le> length (subs es)" "length bs \<le> a" "p \<le> length bs" "a \<le> Suc p" using s by (simp_all add: shape_def)
  have ids: "map fst (subs es) = map (\<lambda>k. 2 * k + 1) [0..<length (subs es)]" using s by (simp add: shape_def)
  have dist: "distinct (map fst (subs es))" unfolding ids by (simp add: distinct_map inj_on_def)
  have outcome: "pm_state (ec_promises l ! i) =
      (case map_of (ended es) i of None \<Rightarrow> Pending | Some ok \<Rightarrow> if ok then Fulfilled else Rejected)"
    if "(i, j) \<in> set (subs es)" for i j
  proof -
    from that obtain k where k: "k < length (subs es)" "subs es ! k = (i, j)" by (auto simp: in_set_conv_nth)
    with shape_ids [OF s k(1)] have i: "i = 2 * k + 1" by simp
    have state: "pm_state (ec_promises l ! i) = (if k < length bs then if bs ! k then Fulfilled else Rejected else Pending)"
      using s k(1) i by (simp add: shape_def job_promise_def)
    have d: "distinct (map fst (take (length bs) (subs es)))" using dist by (simp add: take_map [symmetric])
    show ?thesis
    proof (cases "k < length bs")
      case True
      with k n have "ended es ! k = (i, bs ! k)" "k < length (ended es)" by (simp_all add: h)
      then have "(i, bs ! k) \<in> set (ended es)" by (metis nth_mem)
      moreover have "distinct (map fst (ended es))" using d n by (simp add: h)
      ultimately have "map_of (ended es) i = Some (bs ! k)" by (simp add: map_of_eq_Some_iff)
      with True state show ?thesis by simp
    next
      case False
      have "i \<notin> fst ` set (ended es)"
      proof
        assume "i \<in> fst ` set (ended es)"
        then obtain m where m: "m < length bs" "m < length (subs es)" "fst (subs es ! m) = i"
          by (auto simp: h in_set_conv_nth)
        with shape_ids [OF s m(2)] i have "m = k" by simp
        with m False show False by simp
      qed
      then have "map_of (ended es) i = None" by (simp add: map_of_eq_None_iff)
      with False state show ?thesis by simp
    qed
  qed
  have lens: "length (begun es) = a" "length (ended es) = length bs" using n by (simp_all add: h)
  have "map fst (ended es) = take (length (ended es)) (begun es)" using n by (simp add: h take_map min_def)
  moreover have "\<forall>(i, j) \<in> set (subs es). pm_state (ec_promises l ! i) =
         (case map_of (ended es) i of None \<Rightarrow> Pending | Some ok \<Rightarrow> if ok then Fulfilled else Rejected)"
    using outcome by blast
  moreover have "length (ended es) \<le> length (begun es) \<and> length (begun es) \<le> length (ended es) + 1"
    unfolding lens using n by simp
  moreover have "begun es = map fst (take (length (begun es)) (subs es))" unfolding lens by (rule h(1))
  ultimately show ?thesis using dist next_called [OF assms] by blast
qed

text \<open>A run in which the first of two jobs fails: the second is called all the same.\<close>

definition failing_run :: "job chain_event list" where
  "failing_run = [Submitted 1 (Encode 7), Submitted 3 (Rewarm_job (js ''admin_rewarm'')), Started 1, Settled 1 False]"

lemma failing_run_ok: "\<exists>l. chain_run failing_run l"
proof -
  define l0 :: "job encode_chain" where "l0 = chain_start"
  define l1 where "l1 = snd (withEncodeLock (Encode 7) l0)"
  define l2 where "l2 = snd (withEncodeLock (Rewarm_job (js ''admin_rewarm'')) l1)"
  define l3 where "l3 = snd (the (react 1 l2))"
  define l4 where "l4 = the (settle_promise 1 False l3)"
  note d = l0_def l1_def l2_def l3_def l4_def chain_start_def withEncodeLock_def then_on_def react_def settle_promise_def
    then_promise_def resolved_def Let_def
  have "chain_run [] l0" unfolding l0_def by (rule chain_begin)
  moreover have "withEncodeLock (Encode 7) l0 = (1, l1)" by (simp add: d)
  ultimately have "chain_run ([] @ [Submitted 1 (Encode 7)]) l1" by (rule chain_submit)
  moreover have "withEncodeLock (Rewarm_job (js ''admin_rewarm'')) l1 = (3, l2)" by (simp add: d)
  ultimately have "chain_run (([] @ [Submitted 1 (Encode 7)]) @ [Submitted 3 (Rewarm_job (js ''admin_rewarm''))]) l2"
    by (rule chain_submit)
  moreover have "react 1 l2 = Some (Some (Encode 7), l3)" by (simp add: d)
  ultimately have "chain_run ((([] @ [Submitted 1 (Encode 7)]) @ [Submitted 3 (Rewarm_job (js ''admin_rewarm''))]) @ [Started 1]) l3"
    by (rule chain_call)
  moreover have "settle_promise 1 False l3 = Some l4" by (simp add: d)
  ultimately have "chain_run (((([] @ [Submitted 1 (Encode 7)]) @ [Submitted 3 (Rewarm_job (js ''admin_rewarm''))]) @ [Started 1])
      @ [Settled 1 False]) l4" by (rule chain_settle)
  then show ?thesis unfolding failing_run_def by auto
qed

theorem jobs_in_order_witness: "\<exists>l. chain_run (failing_run @ [Started 3]) l"
proof -
  obtain l where "chain_run failing_run l" using failing_run_ok by blast
  from jobs_in_order [OF this] show ?thesis
    by (simp add: failing_run_def subs_def begun_def ended_def)
qed

section \<open>The list of unsettled jobs\<close>

text \<open>
  \<open>Worker_Daemon\<close> keeps of these promises the jobs that have not settled, with the mark of those that were called.
  Its operations do to that list what the events do to the promises; how a job settled makes no difference to it.
\<close>

fun daemon_op :: "job chain_event \<Rightarrow> daemon \<Rightarrow> daemon" where
  "daemon_op (Submitted i j) = with_encode_lock j"
| "daemon_op (Started i) = start_job"
| "daemon_op (Settled i ok) = settle_job"

definition lock_view :: "job chain_event list \<Rightarrow> (job \<times> bool) list" where
  "lock_view es = map (\<lambda>k. (snd (subs es ! k), k < length (begun es))) [length (ended es)..<length (subs es)]"

lemma view_counts:
  assumes "shape (subs es) a bs p l" "begun es = map fst (take a (subs es))"
    "ended es = zip (map fst (take (length bs) (subs es))) bs"
  shows "length (begun es) = a" "length (ended es) = length bs" "length bs \<le> a" "a \<le> length (subs es)"
  using assms by (simp_all add: shape_def)

theorem chain_refines_lock: "chain_run es l \<Longrightarrow> d_lock (fold daemon_op es daemon_start) = lock_view es"
proof (induction rule: chain_run.induct)
  case chain_begin
  show ?case by (simp add: lock_view_def daemon_start_def)
next
  case (chain_submit es l j i l')
  from chain_run_inv [OF chain_submit.hyps(1)] obtain a bs p where
    s: "shape (subs es) a bs p l" "begun es = map fst (take a (subs es))" "ended es = zip (map fst (take (length bs) (subs es))) bs"
    by (auto simp: chain_inv_def)
  note n = view_counts [OF s]
  have "lock_view (es @ [Submitted i j]) = lock_view es @ [(j, False)]"
    using n by (simp add: lock_view_def nth_append)
  with chain_submit.IH show ?case by (simp add: with_encode_lock_def)
next
  case (chain_call es l i j l')
  from chain_run_inv [OF chain_call.hyps(1)] obtain a bs p where
    s: "shape (subs es) a bs p l" "begun es = map fst (take a (subs es))" "ended es = zip (map fst (take (length bs) (subs es))) bs"
    by (auto simp: chain_inv_def)
  note n = view_counts [OF s]
  from s(1) chain_call.hyps(2) have c: "length bs = a \<and> a < length (subs es)"
  proof (cases rule: react_cases)
    case job
    with s(1) show ?thesis by (simp add: shape_def)
  qed simp_all
  have "lock_view es = (snd (subs es ! a), False) # map (\<lambda>k. (snd (subs es ! k), False)) [Suc a..<length (subs es)]"
    using n c by (simp add: lock_view_def upt_conv_Cons)
  moreover have "lock_view (es @ [Started i]) = (snd (subs es ! a), True) # map (\<lambda>k. (snd (subs es ! k), False)) [Suc a..<length (subs es)]"
    using n c by (simp add: lock_view_def upt_conv_Cons)
  ultimately show ?case using chain_call.IH by (simp add: start_job_def)
next
  case (chain_settle es l i ok l')
  from chain_run_inv [OF chain_settle.hyps(1)] obtain a bs p where
    s: "shape (subs es) a bs p l" "begun es = map fst (take a (subs es))" "ended es = zip (map fst (take (length bs) (subs es))) bs"
    by (auto simp: chain_inv_def)
  note n = view_counts [OF s]
  from settle_cases [OF s(1) chain_settle.hyps(2)] s(1) have c: "a = Suc (length bs)" by (simp add: shape_def)
  with n have "lock_view es = (snd (subs es ! length bs), True) # lock_view (es @ [Settled i ok])"
    by (simp add: lock_view_def upt_conv_Cons)
  with chain_settle.IH show ?case by (simp add: settle_job_def)
qed simp

end
