(* ===== verification/Worker_Chat.thy ===== *)
theory Worker_Chat
  imports Worker_Daemon Worker_Body Worker_Diagnostics Js_Async
begin

text \<open>
  The chat calls of \<open>worker/src/daemon.mjs\<close>: \<open>prepareUpstream\<close>, \<open>encodeAndFetch\<close>, \<open>chatOnce\<close> and
  \<open>chatStream\<close>, as actions that log what they do to the rest of the daemon and to the upstream.

  Other handlers run while a chat waits, so the variables of the daemon it reads (the context, the
  default model, the catalog) are answers of its surroundings, which may depend on everything that
  happened before. The body of the request, the clock and the identifiers are given. Parsing,
  estimates, errors and the rewriting of the stream are those of the other theories.
\<close>

section \<open>Events and surroundings\<close>

text \<open>What the encoder returns: where to send which headers and body.\<close>

record encoded =
  en_url :: jsval
  en_headers :: "(jstr \<times> jsval) list"
  en_body :: jsval

text \<open>The response of the upstream, as the two readers see it: the decoded chunks of its body and how
  the body ends.\<close>

record upstream =
  up_chunks :: "jstr list"
  up_end :: body_end

datatype chat_event =
    Refresh_catalog
  | Take_lock
  | Prepare_infer jsval jstr jsval jsval
  | Fetch_upstream encoded
  | Start_rewarm jstr
  | Last_error jstr
  | Stream_headers
  | Piped "out list"
  | End_response

record chat_env =
  ce_hot :: "chat_event list \<Rightarrow> bool"
  ce_endpoint :: "chat_event list \<Rightarrow> jsval"
  ce_model_key :: "chat_event list \<Rightarrow> jsval"
  ce_model_source :: "chat_event list \<Rightarrow> jsval"
  ce_catalog :: "chat_event list \<Rightarrow> snapshot option"
  ce_encode :: "chat_event list \<Rightarrow> jstr + encoded"
  ce_fetch :: "chat_event list \<Rightarrow> jstr + upstream"
  ce_rewarm :: "chat_event list \<Rightarrow> jstr option"
  ce_template :: jsval
  ce_fresh :: "chat_event list \<Rightarrow> fresh"
  ce_clock :: clock
  ce_writable :: bool

section \<open>Preparing and sending\<close>

definition js_bool_or_undef :: "jsval \<Rightarrow> jsval" where
  "js_bool_or_undef v = (if is_boolean v then v else Undef)"

definition chat_args_of :: "chat_env \<Rightarrow> jsval \<Rightarrow> jsval \<Rightarrow> route \<Rightarrow> chat_args" where
  "chat_args_of e body requested r =
     \<lparr>ca_messages = js_or (pget body ''messages'') (JArr []),
      ca_model = requested,
      ca_route = route_js r,
      ca_system = pget body ''system'',
      ca_max_tokens = js_or (pget body ''max_tokens'') (jint 32000),
      ca_template = ce_template e,
      ca_enable_reasoning = wants_reasoning body,
      ca_enable_thinking = js_bool_or_undef (pget body ''enable_thinking''),
      ca_reasoning_effort = pget body ''reasoning_effort'',
      ca_reasoning_budget_tokens = pget body ''reasoning_budget_tokens'',
      ca_context_length = pget body ''context_length'',
      ca_max_input_tokens = pget body ''max_input_tokens'',
      ca_tools = js_or (pget body ''tools'') (JArr []),
      ca_tool_choice = pget body ''tool_choice'',
      ca_temperature = pget body ''temperature'',
      ca_top_p = pget body ''top_p'',
      ca_stop = pget body ''stop'',
      ca_parallel_tool_calls = pget body ''parallel_tool_calls'',
      ca_response_format = pget body ''response_format''\<rparr>"

definition not_ready :: jstr where
  "not_ready = js ''hot context not ready''"

text \<open>The job in the encode lock: the context may have gone while the chat waited for its turn.\<close>

definition encode_job :: "chat_env \<Rightarrow> jsval \<Rightarrow> (chat_event, encoded) action" where
  "encode_job e plain =
     bind (call (ce_hot e) Take_lock) (\<lambda>hot.
       if \<not> hot then throw not_ready
       else bind (look (ce_endpoint e)) (\<lambda>ep.
            bind (look (ce_model_key e)) (\<lambda>key.
            bind (look (ce_model_source e)) (\<lambda>source.
            bind (call (ce_encode e) (Prepare_infer ep (json_text plain)
                    (js_or (pget (pget plain ''model_config'') ''key'') key)
                    (js_or (pget (pget plain ''model_config'') ''source'') source)))
              lift_sum))))"

definition send_upstream :: "chat_env \<Rightarrow> encoded \<Rightarrow> (chat_event, upstream) action" where
  "send_upstream e en = bind (call (ce_fetch e) (Fetch_upstream en)) lift_sum"

text \<open>
  What the log line of a chat takes from the messages throws when they are not a list: \<open>estimatePromptTokens\<close>
  iterates over them, and the next line calls their \<open>filter\<close>, which a text has not.
\<close>

definition log_line_messages :: "jsval \<Rightarrow> jstr + unit" where
  "log_line_messages body = (case js_or (pget body ''messages'') (JArr []) of
     JArr ms \<Rightarrow> Inr ()
   | JStr s \<Rightarrow> Inl (js ''(reqBody.messages || []).filter is not a function'')
   | v \<Rightarrow> Inl (js ''messages is not iterable''))"

definition prepare_upstream :: "chat_env \<Rightarrow> jsval \<Rightarrow> (chat_event, jsval \<times> upstream) action" where
  "prepare_upstream e body =
     bind (look (ce_hot e)) (\<lambda>hot.
       if \<not> hot then throw not_ready
       else bind (look (ce_model_key e)) (\<lambda>key.
         let requested = js_or (pget body ''model'') key in
         bind (call (ce_catalog e) Refresh_catalog) (\<lambda>snap.
         bind (lift_sum (resolve_upstream_model snap requested)) (\<lambda>r.
         bind (look (ce_fresh e)) (\<lambda>f.
           let plain = build_plain_chat_body f (chat_args_of e body requested r) in
           bind (lift_sum (log_line_messages body)) (\<lambda>_.
           bind (encode_job e plain) (\<lambda>en.
           bind (send_upstream e en) (\<lambda>up. ret (plain, up)))))))))"

section \<open>A complete answer\<close>

definition BAD_RESPONSE_RE :: rx where
  "BAD_RESPONSE_RE = rx_alt [rx_lit ''Duplicate request'', rx_lit ''FORBIDDEN'', rx_lit ''401'', rx_lit ''403'',
     rx_lit ''null pointer'']"

definition upstream_failure :: "jsval \<Rightarrow> jstr" where
  "upstream_failure err =
     (let code = js_or (pget err ''code'') (js_or (pget err ''type'') (jlit ''upstream_error''));
          msg = js_or (pget err ''message'') (js_or (pget err ''localizedMessage'') (JStr (take 300 (json_text err))));
          h = humanize_upstream_error code msg
      in he_code h @ js '': '' @ he_message h)"

definition batch_limit :: nat where
  "batch_limit = 2000000"

definition model_key_of :: "jsval \<Rightarrow> jsval" where
  "model_key_of plain = pget (pget plain ''model_config'') ''key''"

definition prompt_estimate :: "jsval \<Rightarrow> int" where
  "prompt_estimate body = estimate_prompt_tokens (items (js_or (pget body ''messages'') (JArr [])))"

definition answer_of :: "jsval \<Rightarrow> jsval \<Rightarrow> batch_result \<Rightarrow> chat_result" where
  "answer_of body plain b =
     \<lparr>ch_model = model_key_of plain, ch_requested = js_or (pget body ''model'') (model_key_of plain),
      ch_content = br_content b, ch_reasoning = br_reasoning b, ch_calls = br_calls b,
      ch_finish = js_or (br_finish b) (if br_calls b \<noteq> [] then jlit ''tool_calls'' else jlit ''stop''),
      ch_usage = resolve_usage (opt_usage_js (br_usage b))
        (estimates (of_int (prompt_estimate body)) (of_int (estimate_tokens (JStr (br_content b @ br_reasoning b)))))\<rparr>"

text \<open>What is made of the response; a failed read of the body throws its message.\<close>

definition answer_or_error :: "jsval \<Rightarrow> jsval \<Rightarrow> upstream \<Rightarrow> jstr + chat_result" where
  "answer_or_error body plain up =
     (let text = read_sse_text batch_limit (up_chunks up) [];
          b = parse_nested_openai_chunks (JStr text);
          silent = (br_content b = [] \<and> br_reasoning b = [])
      in case (if length text < batch_limit then up_end up else Closed) of
           Failed _ detail \<Rightarrow> Inl detail
         | Closed \<Rightarrow>
             if truthy (br_error b) \<and> silent then Inl (upstream_failure (br_error b))
             else if silent \<and> rx_test True BAD_RESPONSE_RE text then Inl (js ''upstream bad response: '' @ take 300 text)
             else if silent \<and> br_calls b = [] then Inl (js empty_message)
             else Inr (answer_of body plain b))"

definition encode_and_fetch :: "chat_env \<Rightarrow> jsval \<Rightarrow> (chat_event, chat_result) action" where
  "encode_and_fetch e body =
     bind (prepare_upstream e body) (\<lambda>(plain, up). lift_sum (answer_or_error body plain up))"

definition error_text :: "jstr \<Rightarrow> jstr" where
  "error_text m = (if m = [] then js ''Error'' else m)"

definition await_rewarm :: "chat_env \<Rightarrow> jstr \<Rightarrow> (chat_event, unit) action" where
  "await_rewarm e reason = bind (call (ce_rewarm e) (Start_rewarm reason))
     (\<lambda>r. case r of None \<Rightarrow> ret () | Some m \<Rightarrow> throw m)"

definition note_error :: "jstr \<Rightarrow> (chat_event, unit) action" where
  "note_error m = call (\<lambda>_. ()) (Last_error m)"

definition chat_once :: "chat_env \<Rightarrow> jsval \<Rightarrow> (chat_event, chat_result) action" where
  "chat_once e body =
     handle (encode_and_fetch e body) (\<lambda>err. let m = error_text err in
       bind (note_error m) (\<lambda>_.
         if \<not> is_auth_error (ce_clock e) m then throw err
         else bind (await_rewarm e m) (\<lambda>_. encode_and_fetch e body)))"

section \<open>A streamed answer\<close>

text \<open>The response head is sent with the first write to the body.\<close>

definition wrote :: "chat_event \<Rightarrow> bool" where
  "wrote v = (case v of Piped ws \<Rightarrow> ws \<noteq> [] | _ \<Rightarrow> False)"

definition headers_sent :: "chat_event list \<Rightarrow> bool" where
  "headers_sent l \<longleftrightarrow> list_ex wrote l"

definition stream_chat :: "chat_env \<Rightarrow> chat_event list \<Rightarrow> jsval \<Rightarrow> jsval \<Rightarrow> chat" where
  "stream_chat e l body plain =
     (let now = fr_now (ce_fresh e l) in
      \<lparr>g_id = js ''chatcmpl-'' @ dec_digits now, g_created = now div 1000,
       g_model = js_or (pget body ''model'') (model_key_of plain), g_prompt_tokens = of_int (prompt_estimate body),
       g_estimated = 0, g_clock = ce_clock e, g_open = ce_writable e\<rparr>)"

definition pipe_out :: "chat \<Rightarrow> upstream \<Rightarrow> (chat_event, result) action" where
  "pipe_out g up =
     (case pipe g (up_chunks up) (up_end up) of
        (Returned q, s) \<Rightarrow> bind (call (\<lambda>_. ()) (Piped (s_out s))) (\<lambda>_. ret q)
      | (Threw m, s) \<Rightarrow> bind (call (\<lambda>_. ()) (Piped (s_out s))) (\<lambda>_. throw m))"

definition stream_run :: "chat_env \<Rightarrow> jsval \<Rightarrow> (chat_event, result) action" where
  "stream_run e body =
     bind (prepare_upstream e body) (\<lambda>(plain, up).
     bind (look headers_sent) (\<lambda>sent.
     bind (if sent then ret () else call (\<lambda>_. ()) Stream_headers) (\<lambda>_.
     bind (look (\<lambda>l. stream_chat e l body plain)) (\<lambda>g. pipe_out g up))))"

text \<open>\<open>chatStream\<close>; \<open>None\<close> is its null after a failure that the client has already seen.\<close>

definition chat_stream :: "chat_env \<Rightarrow> jsval \<Rightarrow> (chat_event, result option) action" where
  "chat_stream e body =
     handle (bind (stream_run e body) (\<lambda>q. ret (Some q))) (\<lambda>err. let m = error_text err in
       bind (note_error m) (\<lambda>_.
       bind (look headers_sent) (\<lambda>sent.
         if is_auth_error (ce_clock e) m \<and> \<not> sent
         then bind (await_rewarm e m) (\<lambda>_. bind (stream_run e body) (\<lambda>q. ret (Some q)))
         else if sent then bind (call (\<lambda>_. ()) End_response) (\<lambda>_. ret None)
         else throw err)))"

section \<open>Lemmas\<close>

text \<open>What a chat has asked of others so far: fetches (\<open>False\<close>) and rewarms (\<open>True\<close>).\<close>

definition asked :: "chat_event \<Rightarrow> bool list" where
  "asked v = (case v of Fetch_upstream _ \<Rightarrow> [False] | Start_rewarm _ \<Rightarrow> [True] | _ \<Rightarrow> [])"

definition asks :: "chat_event list \<Rightarrow> bool list" where
  "asks l = concat (map asked l)"

text \<open>What has been written to the client.\<close>

definition written :: "chat_event list \<Rightarrow> out list" where
  "written l = concat (map (\<lambda>v. case v of Piped ws \<Rightarrow> ws | _ \<Rightarrow> []) l)"

lemma asks_simps [simp]: "asks [] = []" "asks (l @ [v]) = asks l @ asked v"
  by (simp_all add: asks_def)

lemma written_simps [simp]: "written [] = []" "written (l @ [v]) = written l @ (case v of Piped ws \<Rightarrow> ws | _ \<Rightarrow> [])"
  by (simp_all add: written_def)

lemma headers_sent_written: "headers_sent l \<longleftrightarrow> written l \<noteq> []"
  by (induction l rule: rev_induct) (auto simp: headers_sent_def wrote_def split: chat_event.splits)

lemma asked_simps [simp]:
  "asked Refresh_catalog = []" "asked Take_lock = []" "asked (Prepare_infer a b c' d) = []" "asked (Fetch_upstream en) = [False]"
  "asked (Start_rewarm r) = [True]" "asked (Last_error m) = []" "asked Stream_headers = []" "asked (Piped ws) = []"
  "asked End_response = []"
  by (simp_all add: asked_def)

lemma encode_job_keeps:
  assumes "\<And>l v. I l \<Longrightarrow> asked v = [] \<Longrightarrow> (case v of Piped ws \<Rightarrow> ws | _ \<Rightarrow> []) = [] \<Longrightarrow> I (l @ [v])"
  shows "keeps I (encode_job e plain)"
  unfolding encode_job_def by (intro keeping keeps_call) (auto intro: assms)

lemma send_asks: "valid (\<lambda>l. asks l = t \<and> written l = w) (send_upstream e en) (\<lambda>_ l. asks l = t @ [False] \<and> written l = w)"
  by (auto simp: valid_def send_upstream_def bind_def call_def lift_sum_def)

lemma valid_keeps: "keeps I m \<Longrightarrow> (\<And>l. P l \<Longrightarrow> I l) \<Longrightarrow> (\<And>r l. I l \<Longrightarrow> Q r l) \<Longrightarrow> valid P m Q"
  unfolding keeps_def by (erule valid_conseq)

lemma prepare_asks:
  "valid (\<lambda>l. asks l = t \<and> written l = w) (prepare_upstream e body)
     (\<lambda>_ l. (asks l = t \<or> asks l = t @ [False]) \<and> written l = w)"
proof -
  let ?I = "\<lambda>l. asks l = t \<and> written l = w"
  let ?Q = "\<lambda>_ l. (asks l = t \<or> asks l = t @ [False]) \<and> written l = w"
  have job: "valid ?I (encode_job e plain) (\<lambda>r l. case r of Inl x \<Rightarrow> ?Q (Inl x) l | Inr x \<Rightarrow> ?I l)" for plain
    by (rule valid_keeps [OF encode_job_keeps [where I = ?I]]) (auto split: sum.split)
  have send: "valid ?I (bind (send_upstream e en) (\<lambda>up. ret (plain, up))) ?Q" for plain :: jsval and en
    by (rule valid_bind [where R = "\<lambda>_ l. asks l = t @ [False] \<and> written l = w"],
        rule valid_conseq [OF send_asks [of t w]], assumption, simp split: sum.split, rule valid_ret, simp)
  have route: "valid ?I (lift_sum x) (\<lambda>r l. case r of Inl x \<Rightarrow> ?Q (Inl x) l | Inr x \<Rightarrow> ?I l)" for x :: "jstr + route"
    by (rule valid_lift) (auto split: sum.split)
  have line: "valid ?I (lift_sum x) (\<lambda>r l. case r of Inl x \<Rightarrow> ?Q (Inl x) l | Inr x \<Rightarrow> ?I l)" for x :: "jstr + unit"
    by (rule valid_lift) (auto split: sum.split)
  have start: "valid ?I (look f) (\<lambda>r l. case r of Inl x \<Rightarrow> ?Q (Inl x) l | Inr x \<Rightarrow> ?I l)" for f
    by (rule valid_look) auto
  have catalog: "valid ?I (call f Refresh_catalog) (\<lambda>r l. case r of Inl x \<Rightarrow> ?Q (Inl x) l | Inr x \<Rightarrow> ?I l)" for f
    by (rule valid_call) auto
  show ?thesis
    unfolding prepare_upstream_def Let_def
    apply (rule valid_bind [where R = "\<lambda>_. ?I", OF start])
    subgoal for hot
      apply (cases hot)
       apply (simp add: if_True)
       apply (rule valid_bind [where R = "\<lambda>_. ?I", OF start])
       apply (rule valid_bind [where R = "\<lambda>_. ?I", OF catalog])
       apply (rule valid_bind [where R = "\<lambda>_. ?I", OF route])
       apply (rule valid_bind [where R = "\<lambda>_. ?I", OF start])
       apply (rule valid_bind [where R = "\<lambda>_. ?I", OF line])
       apply (rule valid_bind [where R = "\<lambda>_. ?I", OF job])
       apply (rule send)
      apply (simp, rule valid_throw, simp)
      done
    done
qed

text \<open>A complete call: at most one fetch, nothing written, and an answer that is not empty.\<close>

definition nonempty_answer :: "chat_result \<Rightarrow> bool" where
  "nonempty_answer r \<longleftrightarrow> ch_content r \<noteq> [] \<or> ch_reasoning r \<noteq> [] \<or> ch_calls r \<noteq> []"

definition answered :: "bool list \<Rightarrow> out list \<Rightarrow> jstr + chat_result \<Rightarrow> chat_event list \<Rightarrow> bool" where
  "answered t w r l \<longleftrightarrow> (asks l = t \<or> asks l = t @ [False]) \<and> written l = w
     \<and> (case r of Inl _ \<Rightarrow> True | Inr a \<Rightarrow> nonempty_answer a)"

lemma answer_nonempty: "answer_or_error body plain up = Inr r \<Longrightarrow> nonempty_answer r"
  by (auto simp: answer_or_error_def nonempty_answer_def answer_of_def Let_def split: body_end.splits if_splits)

lemma encode_and_fetch_answers:
  "valid (\<lambda>l. asks l = t \<and> written l = w) (encode_and_fetch e body) (answered t w)"
proof -
  have finish: "valid (\<lambda>l. (asks l = t \<or> asks l = t @ [False]) \<and> written l = w) (lift_sum (answer_or_error body plain up)) (answered t w)"
    for plain up
    by (rule valid_lift) (auto simp: answered_def answer_nonempty split: sum.split)
  show ?thesis
    unfolding encode_and_fetch_def
    by (rule valid_bind [where R = "\<lambda>_ l. (asks l = t \<or> asks l = t @ [False]) \<and> written l = w"],
        rule valid_conseq [OF prepare_asks [of t w]], assumption, simp add: answered_def split: sum.split)
      (simp add: finish split: prod.split)
qed

text \<open>\<open>chatOnce\<close>: at most two fetches, the second only after a rewarm.\<close>

definition fetch_patterns :: "bool list list" where
  "fetch_patterns = [[], [False], [True], [True, False], [False, True], [False, True, False]]"

lemma note_error_asks: "valid (\<lambda>l. P (asks l) (written l)) (note_error m) (\<lambda>_ l. P (asks l) (written l))"
  unfolding note_error_def by (rule valid_call) simp

lemma rewarm_asks:
  "valid (\<lambda>l. (asks l = [] \<or> asks l = [False]) \<and> written l = w) (await_rewarm e m)
     (\<lambda>_ l. (asks l = [True] \<or> asks l = [False, True]) \<and> written l = w)"
  by (auto simp: valid_def await_rewarm_def bind_def call_def ret_def throw_def split: option.split)

lemma second_fetch:
  assumes "\<And>t. valid (\<lambda>l. asks l = t \<and> written l = w) m (\<lambda>r l. (asks l = t \<or> asks l = t @ [False]) \<and> S r l)"
  shows "valid (\<lambda>l. (asks l = [True] \<or> asks l = [False, True]) \<and> written l = w) m (\<lambda>r l. asks l \<in> set fetch_patterns \<and> S r l)"
proof -
  have "asks (snd (m l)) \<in> set fetch_patterns \<and> S (fst (m l)) (snd (m l))"
    if "asks l = [True] \<or> asks l = [False, True]" "written l = w" for l
    using assms [of "[True]"] assms [of "[False, True]"] that by (auto simp: valid_def fetch_patterns_def)
  then show ?thesis by (auto simp: valid_def)
qed

lemma chat_once_answers:
  "valid (\<lambda>l. l = []) (chat_once e body) (\<lambda>r l. asks l \<in> set fetch_patterns \<and> written l = []
     \<and> (case r of Inl _ \<Rightarrow> True | Inr a \<Rightarrow> nonempty_answer a))"
proof -
  let ?Q = "\<lambda>r l. asks l \<in> set fetch_patterns \<and> written l = [] \<and> (case r of Inl _ \<Rightarrow> True | Inr a \<Rightarrow> nonempty_answer a)"
  let ?R = "\<lambda>l. (asks l = [] \<or> asks l = [False]) \<and> written l = []"
  let ?T = "\<lambda>l. (asks l = [True] \<or> asks l = [False, True]) \<and> written l = []"
  have again: "valid ?T (encode_and_fetch e body) ?Q"
    by (rule second_fetch, rule valid_conseq [OF encode_and_fetch_answers]) (auto simp: answered_def)
  have retry: "valid ?R (bind (await_rewarm e m) (\<lambda>_. encode_and_fetch e body)) ?Q" for m
    by (rule valid_bind [where R = "\<lambda>_. ?T"], rule valid_conseq [OF rewarm_asks [of "[]"]], assumption,
        (auto simp: fetch_patterns_def split: sum.split)[1], rule again)
  have give_up: "valid ?R (throw err) ?Q" for err
    by (rule valid_throw) (auto simp: fetch_patterns_def)
  have logged: "valid ?R (note_error m) (\<lambda>r l. case r of Inl x \<Rightarrow> ?Q (Inl x) l | Inr x \<Rightarrow> ?R l)" for m
    by (rule valid_conseq [OF note_error_asks [of "\<lambda>a w. (a = [] \<or> a = [False]) \<and> w = []"]])
      (auto simp: fetch_patterns_def split: sum.split)
  show ?thesis
    unfolding chat_once_def Let_def
    apply (rule valid_handle [where R = "\<lambda>_. ?R"])
     apply (rule valid_conseq [OF encode_and_fetch_answers [of "[]" "[]"]])
      apply simp
     apply (auto simp: answered_def fetch_patterns_def split: sum.split)[1]
    apply (rule valid_bind [where R = "\<lambda>_. ?R", OF logged])
    apply (simp add: retry give_up)
    done
qed

text \<open>\<open>chatStream\<close>: what one run writes is what one call of \<open>pipe\<close> writes.\<close>

definition ran :: "out list \<Rightarrow> bool list \<Rightarrow> jstr + result \<Rightarrow> chat_event list \<Rightarrow> bool" where
  "ran w t r l \<longleftrightarrow> (asks l = t \<or> asks l = t @ [False]) \<and>
     ((written l = w \<and> (\<exists>m. r = Inl m)) \<or>
      (\<exists>(g :: chat) (up :: upstream). written l = w @ s_out (snd (pipe g (up_chunks up) (up_end up)))
         \<and> (case r of Inr q \<Rightarrow> fst (pipe g (up_chunks up) (up_end up)) = Returned q
                    | Inl m \<Rightarrow> \<exists>m'. fst (pipe g (up_chunks up) (up_end up)) = Threw m')))"

lemma pipe_out_ran:
  "valid (\<lambda>l. (asks l = t \<or> asks l = t @ [False]) \<and> written l = w) (pipe_out g up) (ran w t)"
proof -
  have "ran w t (fst (pipe_out g up l)) (snd (pipe_out g up l))" if l: "asks l = t \<or> asks l = t @ [False]" "written l = w" for l
  proof (cases "pipe g (up_chunks up) (up_end up)")
    case (Pair res s)
    then have "pipe_out g up l = ((case res of Returned q \<Rightarrow> Inr q | Threw m \<Rightarrow> Inl m), l @ [Piped (s_out s)])"
      by (simp add: pipe_out_def bind_def call_def ret_def throw_def split: outcome.split)
    then have asks: "asks (snd (pipe_out g up l)) = asks l"
      and wrote: "written (snd (pipe_out g up l)) = w @ s_out (snd (pipe g (up_chunks up) (up_end up)))"
      and res: "case fst (pipe_out g up l) of Inr q \<Rightarrow> fst (pipe g (up_chunks up) (up_end up)) = Returned q
                    | Inl m \<Rightarrow> \<exists>m'. fst (pipe g (up_chunks up) (up_end up)) = Threw m'"
      using l Pair by (auto split: outcome.split)
    show ?thesis unfolding ran_def
      by (rule conjI, use l(1) asks in simp, rule disjI2, rule exI [of _ g], rule exI [of _ up], rule conjI, rule wrote, rule res)
  qed
  then show ?thesis by (simp add: valid_def)
qed

lemma stream_run_ran: "valid (\<lambda>l. asks l = t \<and> written l = w) (stream_run e body) (ran w t)"
proof -
  let ?J = "\<lambda>l. (asks l = t \<or> asks l = t @ [False]) \<and> written l = w"
  have sent: "valid ?J (look f) (\<lambda>r l. case r of Inl x \<Rightarrow> ran w t (Inl x) l | Inr x \<Rightarrow> ?J l)" for f
    by (rule valid_look) simp
  have headers: "valid ?J (if b then ret () else call (\<lambda>_. ()) Stream_headers) (\<lambda>r l. case r of Inl x \<Rightarrow> ran w t (Inl x) l | Inr x \<Rightarrow> ?J l)" for b
    by (cases b) (auto intro!: valid_ret valid_call)
  have piped: "valid ?J (bind (look headers_sent) (\<lambda>sent. bind (if sent then ret () else call (\<lambda>_. ()) Stream_headers)
      (\<lambda>_. bind (look (\<lambda>l. stream_chat e l body plain)) (\<lambda>g. pipe_out g up)))) (ran w t)" for plain up
    apply (rule valid_bind [where R = "\<lambda>_. ?J", OF sent])
    apply (rule valid_bind [where R = "\<lambda>_. ?J", OF headers])
    apply (rule valid_bind [where R = "\<lambda>_. ?J", OF sent])
    apply (rule pipe_out_ran)
    done
  show ?thesis
    unfolding stream_run_def
    by (rule valid_bind [where R = "\<lambda>_. ?J"], rule valid_conseq [OF prepare_asks [of t w]], assumption,
        simp add: ran_def split: sum.split) (simp add: piped split: prod.split)
qed

definition streamed :: "jstr + result option \<Rightarrow> out list \<Rightarrow> bool" where
  "streamed r ws \<longleftrightarrow> (ws = [] \<and> (\<forall>q. r \<noteq> Inr (Some q))) \<or>
     (\<exists>(g :: chat) (up :: upstream). ws = s_out (snd (pipe g (up_chunks up) (up_end up)))
        \<and> (case r of Inr (Some q) \<Rightarrow> fst (pipe g (up_chunks up) (up_end up)) = Returned q
             | _ \<Rightarrow> \<exists>m. fst (pipe g (up_chunks up) (up_end up)) = Threw m))"

lemma ran_asks: "ran w t r l \<Longrightarrow> asks l = t \<or> asks l = t @ [False]"
  unfolding ran_def by (rule conjunct1)

lemma streamed_returned: "ran [] t (Inr q) l \<Longrightarrow> streamed (Inr (Some q)) (written l)"
  unfolding ran_def streamed_def by auto

lemma streamed_failed: "ran [] t (Inl m) l \<Longrightarrow> streamed (Inl err) (written l)"
  unfolding ran_def streamed_def by auto

lemma streamed_no_answer: "streamed (Inl a) w \<Longrightarrow> streamed (Inl b) w \<and> streamed (Inr None) w"
  unfolding streamed_def by simp

lemma chat_stream_streams:
  "valid (\<lambda>l. l = []) (chat_stream e body) (\<lambda>r l. asks l \<in> set fetch_patterns \<and> streamed r (written l))"
proof -
  let ?Q = "\<lambda>r l. asks l \<in> set fetch_patterns \<and> streamed r (written l)"
  let ?F = "\<lambda>a w. (a = [] \<or> a = [False]) \<and> streamed (Inl []) w \<and> streamed (Inr None) w"
  let ?R = "\<lambda>l. ?F (asks l) (written l)"
  let ?T = "\<lambda>l. (asks l = [True] \<or> asks l = [False, True]) \<and> written l = []"
  note no_q = streamed_no_answer
  have answer: "valid (\<lambda>l. asks l = t \<and> written l = []) (bind (stream_run e body) (\<lambda>q. ret (Some q)))
      (\<lambda>r l. (asks l = t \<or> asks l = t @ [False]) \<and> streamed r (written l))" for t
    apply (rule valid_bind [where R = "\<lambda>q l. ran [] t (Inr q) l"])
     apply (rule valid_conseq [OF stream_run_ran [of t "[]"]], assumption)
     apply (auto dest: streamed_failed ran_asks split: sum.split)[1]
    apply (rule valid_ret)
    apply (auto dest: streamed_returned ran_asks)
    done
  have again: "valid ?T (bind (stream_run e body) (\<lambda>q. ret (Some q))) ?Q"
    by (rule second_fetch) (rule answer)
  have retry: "valid (\<lambda>l. ?R l \<and> written l = []) (bind (await_rewarm e m) (\<lambda>_. bind (stream_run e body) (\<lambda>q. ret (Some q)))) ?Q" for m
    by (rule valid_bind [where R = "\<lambda>_. ?T"], rule valid_conseq [OF rewarm_asks [of "[]"]], simp,
        (auto simp: fetch_patterns_def streamed_def split: sum.split)[1], rule again)
  have logged: "valid ?R (note_error m) (\<lambda>r l. case r of Inl x \<Rightarrow> ?Q (Inl x) l | Inr x \<Rightarrow> ?R l)" for m
    by (rule valid_conseq [OF note_error_asks [of ?F]]) (auto simp: fetch_patterns_def dest: no_q split: sum.split)
  have sent: "valid ?R (look headers_sent) (\<lambda>r l. case r of Inl x \<Rightarrow> ?Q (Inl x) l | Inr b \<Rightarrow> ?R l \<and> (b \<longleftrightarrow> written l \<noteq> []))"
    by (rule valid_look) (simp add: headers_sent_written)
  have give_up: "valid ?R (throw m) ?Q" "valid ?R (bind (call (\<lambda>_. ()) End_response) (\<lambda>_. ret None)) ?Q" for m
    by (auto simp: valid_def throw_def bind_def call_def ret_def fetch_patterns_def dest: no_q)
  show ?thesis
    unfolding chat_stream_def Let_def
    apply (rule valid_handle [where R = "\<lambda>_. ?R"])
     apply (rule valid_conseq [OF answer [of "[]"]])
      apply simp
     apply (auto simp: fetch_patterns_def dest: no_q split: sum.split)[1]
    apply (rule valid_bind [where R = "\<lambda>_. ?R", OF logged])
    apply (rule valid_bind [where R = "\<lambda>b l. ?R l \<and> (b \<longleftrightarrow> written l \<noteq> [])", OF sent])
    subgoal for err _ b
      by (cases b) (auto intro: valid_conseq [OF give_up(1)] valid_conseq [OF give_up(2)] valid_conseq [OF retry])
    done
qed

section \<open>Properties\<close>

text \<open>
  A chat asks the upstream at most twice. Whatever its surroundings answer, a chat, complete or
  streamed, makes at most two upstream requests and asks for at most one rewarm, and a second
  request comes after the rewarm only.
\<close>

theorem chat_requests_bounded:
  "asks (snd (chat_once e body [])) \<in> {[], [False], [True], [True, False], [False, True], [False, True, False]}
   \<and> asks (snd (chat_stream e body [])) \<in> {[], [False], [True], [True, False], [False, True], [False, True, False]}"
  using validD [OF chat_once_answers, of "[]" e body] validD [OF chat_stream_streams, of "[]" e body]
  by (cases "chat_once e body []"; cases "chat_stream e body []") (simp add: fetch_patterns_def)

text \<open>
  A complete answer is never empty. When \<open>chatOnce\<close> returns, its answer has content, reasoning or
  tool calls, whether it comes from the first request or from the one after a rewarm; nothing has
  been written to the client before.
\<close>

theorem chat_answer_nonempty:
  "written (snd (chat_once e body [])) = [] \<and> (case fst (chat_once e body []) of
     Inl m \<Rightarrow> True
   | Inr r \<Rightarrow> \<not> (ch_content r = [] \<and> ch_reasoning r = [] \<and> ch_calls r = []))"
  using validD [OF chat_once_answers, of "[]" e body]
  by (cases "chat_once e body []") (auto simp: nonempty_answer_def split: sum.splits)

lemma streamed_grammar:
  assumes "streamed r ws"
  shows "\<exists>ds p. list_all text_delta ds \<and>
    (case r of Inr (Some q) \<Rightarrow> ws = delta_chunks ds @ [OChunk (obj []) (q_finish q), OUsage (q_usage q), ODone]
     | _ \<Rightarrow> ws = delta_chunks ds \<or> ws = delta_chunks ds @ [OError p])"
proof (cases "ws = [] \<and> (\<forall>q. r \<noteq> Inr (Some q))")
  case True
  then show ?thesis by (intro exI [of _ "[]"]) (auto simp: delta_chunks_def split: sum.split option.split)
next
  case False
  with assms obtain g :: chat and up :: upstream where ws: "ws = s_out (snd (pipe g (up_chunks up) (up_end up)))"
    and r: "case r of Inr (Some q) \<Rightarrow> fst (pipe g (up_chunks up) (up_end up)) = Returned q
             | _ \<Rightarrow> \<exists>m. fst (pipe g (up_chunks up) (up_end up)) = Threw m"
    unfolding streamed_def by auto
  obtain ds p where "list_all text_delta ds" and out: "ws = delta_chunks ds @
       (case fst (pipe g (up_chunks up) (up_end up)) of
          Returned q \<Rightarrow> [OChunk (obj []) (q_finish q), OUsage (q_usage q), ODone]
        | Threw m \<Rightarrow> if g_open g then [OError p] else [])"
    using pipe_grammar [of g "up_chunks up" "up_end up"] ws by auto
  with r show ?thesis
    by (intro exI [of _ ds] exI [of _ p]) (auto split: sum.splits option.splits if_splits)
qed

text \<open>
  C18: A client sees one stream. Whatever fails, retries included, all that \<open>chatStream\<close> writes in one
  chat is one well-formed stream: deltas after one role chunk, then the finish chunk, the usage chunk
  and the end mark of the answer it returns; or, when it fails, deltas and at most one error event.
  In particular a stream that has begun is never begun again.
\<close>

theorem stream_response_well_formed:
  "\<exists>ds p. list_all text_delta ds \<and>
    (case fst (chat_stream e body []) of
       Inr (Some q) \<Rightarrow> written (snd (chat_stream e body [])) =
          delta_chunks ds @ [OChunk (obj []) (q_finish q), OUsage (q_usage q), ODone]
     | _ \<Rightarrow> written (snd (chat_stream e body [])) = delta_chunks ds
          \<or> written (snd (chat_stream e body [])) = delta_chunks ds @ [OError p])"
proof (rule streamed_grammar)
  show "streamed (fst (chat_stream e body [])) (written (snd (chat_stream e body [])))"
    using chat_stream_streams [of e body] by (simp add: valid_def)
qed

end
