(* ===== verification/Js_Decimal.thy ===== *)
theory Js_Decimal
  imports Js_Value
begin

text \<open>
  Decimal numerals: \<open>Number.prototype.toFixed\<close>, and what printed numbers are worth when they are
  read again. Numerals are injective, which makes generated identifiers fresh, and a fixed-point
  text reads back as the number rounded to its decimals.
\<close>

section \<open>Decimal numerals\<close>

lemma uint_digit:
  assumes "0 \<le> d" "d < 10"
  shows "uint (digit_unit d) = 48 + d"
proof -
  from assms have "uint (word_of_int (48 + d) :: u16) = 48 + d"
    by (simp only: uint_word_of_int) (simp add: mod_pos_pos_trivial)
  then show ?thesis by (simp add: digit_unit_def)
qed

lemma dec_val_snoc: "dec_val (ds @ [c]) = 10 * dec_val ds + (uint c - 48)"
  by (simp add: dec_val_def)

lemma dec_val_dec_digits: "0 \<le> n \<Longrightarrow> dec_val (dec_digits n) = n"
proof (induction n rule: dec_digits.induct)
  case (1 n)
  show ?case
  proof (cases "n < 10")
    case True
    with 1 show ?thesis by (simp add: dec_digits.simps [of n] dec_val_def uint_digit)
  next
    case False
    with 1 have IH: "dec_val (dec_digits (n div 10)) = n div 10" by simp
    from False have "dec_digits n = dec_digits (n div 10) @ [digit_unit (n mod 10)]"
      by (simp add: dec_digits.simps [of n])
    with IH show ?thesis by (simp add: dec_val_snoc uint_digit)
  qed
qed

lemma dec_digits_inj: "0 \<le> m \<Longrightarrow> 0 \<le> n \<Longrightarrow> dec_digits m = dec_digits n \<longleftrightarrow> m = n"
  by (metis dec_val_dec_digits)

lemma dec_digits_not_Nil [simp]: "dec_digits n \<noteq> []"
  by (simp add: dec_digits.simps [of n])

section \<open>Fixed-point text\<close>

text \<open>
  \<open>toFixed(d)\<close> on numbers below \<open>10\<^sup>2\<^sup>1\<close>: the nearest multiple of \<open>10\<^sup>-\<^sup>d\<close>, halves away from zero, with
  exactly \<open>d\<close> decimals.
\<close>

definition fixed_units :: "nat \<Rightarrow> rat \<Rightarrow> int" where
  "fixed_units d x = \<lfloor>\<bar>x\<bar> * 10 ^ d + 1 / 2\<rfloor>"

definition pad_left :: "nat \<Rightarrow> jstr \<Rightarrow> jstr" where
  "pad_left n s = replicate (n - length s) 48 @ s"

definition decimal_text :: "nat \<Rightarrow> int \<Rightarrow> jstr" where
  "decimal_text d n =
     (if d = 0 then dec_digits n
      else dec_digits (n div 10 ^ d) @ js ''.'' @ pad_left d (dec_digits (n mod 10 ^ d)))"

definition to_fixed :: "nat \<Rightarrow> rat \<Rightarrow> jstr" where
  "to_fixed d x = (if x < 0 then js ''-'' else []) @ decimal_text d (fixed_units d x)"

text \<open>\<open>Number(x.toFixed(d))\<close>.\<close>

definition fixed_value :: "nat \<Rightarrow> rat \<Rightarrow> jsnum" where
  "fixed_value d x = str_to_num (to_fixed d x)"

section \<open>Reading numerals\<close>

definition all_digits :: "jstr \<Rightarrow> bool" where
  "all_digits s \<longleftrightarrow> list_all is_digit s"

lemma all_digits_simps [simp]:
  "all_digits []" "all_digits (c # s) \<longleftrightarrow> is_digit c \<and> all_digits s"
  "all_digits (s @ t) \<longleftrightarrow> all_digits s \<and> all_digits t"
  by (simp_all add: all_digits_def)

lemma digit_unit_is_digit: "0 \<le> d \<Longrightarrow> d < 10 \<Longrightarrow> is_digit (digit_unit d)"
  by (simp add: is_digit_code uint_digit)

lemma dec_digits_all: "0 \<le> n \<Longrightarrow> all_digits (dec_digits n)"
proof (induction n rule: dec_digits.induct)
  case (1 n)
  then show ?case
    by (simp add: dec_digits.simps [of n] digit_unit_is_digit)
qed

lemma dec_digits_size: "n < 10 ^ Suc k \<Longrightarrow> length (dec_digits n) \<le> Suc k"
proof (induction k arbitrary: n)
  case 0
  then show ?case by (simp add: dec_digits.simps [of n])
next
  case (Suc k)
  show ?case
  proof (cases "n < 10")
    case False
    have "n div 10 < 10 ^ Suc k" using Suc.prems by (simp add: div_less_iff_less_mult)
    from Suc.IH [OF this] False show ?thesis by (simp add: dec_digits.simps [of n])
  qed (simp add: dec_digits.simps [of n])
qed

lemma zeros_digits: "all_digits (replicate k 48)"
  by (simp add: all_digits_def list_all_length is_digit_def)

lemma dec_val_append: "dec_val (a @ b) = dec_val a * 10 ^ length b + dec_val b"
proof (induction b rule: rev_induct)
  case Nil
  show ?case by (simp add: dec_val_def)
next
  case (snoc c b)
  have "dec_val (a @ b @ [c]) = 10 * dec_val (a @ b) + (uint c - 48)"
    using dec_val_snoc [of "a @ b" c] by simp
  with snoc show ?case by (simp add: dec_val_snoc algebra_simps)
qed

lemma dec_val_zeros: "dec_val (replicate k 48) = 0"
proof (induction k)
  case (Suc k)
  have "dec_val (48 # replicate k 48) = dec_val ([48] @ replicate k 48)" by simp
  also have "\<dots> = 0" unfolding dec_val_append using Suc by (simp add: dec_val_def)
  finally show ?case by simp
qed (simp add: dec_val_def)

lemma takeWhile_digits: "all_digits ds \<Longrightarrow> (case r of [] \<Rightarrow> True | c # _ \<Rightarrow> \<not> is_digit c) \<Longrightarrow>
  takeWhile is_digit (ds @ r) = ds \<and> dropWhile is_digit (ds @ r) = r"
  by (induction ds) (auto split: list.splits)

lemma digit_facts:
  assumes "is_digit c"
  shows "\<not> is_ws c" "c \<noteq> 45" "c \<noteq> 43" "c \<noteq> 73" "lower_unit c = c" "c \<noteq> 120" "c \<noteq> 111" "c \<noteq> 98"
  using assms unfolding is_digit_code is_ws_code lower_unit_code Let_def by (auto simp: word_uint_eq_iff)

lemma point_facts: "\<not> is_digit 46" "\<not> is_ws 46" "lower_unit 46 = 46" "lower_unit 45 = 45"
  by (simp_all add: is_digit_code is_ws_code lower_unit_code)

text \<open>An unsigned numeral with a digit before the point.\<close>

definition plain_numeral :: "jstr \<Rightarrow> jstr \<Rightarrow> bool" where
  "plain_numeral ds fs \<longleftrightarrow> ds \<noteq> [] \<and> all_digits ds \<and> all_digits fs"

definition numeral_text :: "jstr \<Rightarrow> jstr \<Rightarrow> jstr" where
  "numeral_text ds fs = ds @ (if fs = [] then [] else 46 # fs)"

lemma numeral_units: "plain_numeral ds fs \<Longrightarrow> c \<in> set (numeral_text ds fs) \<Longrightarrow> is_digit c \<or> c = 46"
  by (auto simp: plain_numeral_def numeral_text_def all_digits_def list_all_iff split: if_splits)

lemma digits_all_taken: "all_digits ds \<Longrightarrow> takeWhile is_digit ds = ds" "all_digits ds \<Longrightarrow> dropWhile is_digit ds = []"
  using takeWhile_digits [of ds "[]"] by (simp_all add: all_digits_def list_all_iff)

lemma udec_numeral: "plain_numeral ds fs \<Longrightarrow>
  udec_prefix (numeral_text ds fs) = Some (dec_val (ds @ fs), - int (length fs), [])"
proof (cases "fs = []")
  case True
  moreover assume "plain_numeral ds fs"
  ultimately show ?thesis
    by (simp add: udec_prefix_def numeral_text_def plain_numeral_def digits_all_taken Let_def)
next
  case False
  moreover assume n: "plain_numeral ds fs"
  moreover have "takeWhile is_digit (ds @ 46 # fs) = ds" "dropWhile is_digit (ds @ 46 # fs) = 46 # fs"
    using takeWhile_digits [of ds "46 # fs"] n by (simp_all add: plain_numeral_def point_facts)
  ultimately show ?thesis
    by (simp add: udec_prefix_def numeral_text_def plain_numeral_def digits_all_taken Let_def del: takeWhile_append dropWhile_append)
qed

definition signed :: "bool \<Rightarrow> jstr \<Rightarrow> jstr" where
  "signed neg s = (if neg then 45 # s else s)"

lemma not_ws_numeral: "plain_numeral ds fs \<Longrightarrow> c \<in> set (signed neg (numeral_text ds fs)) \<Longrightarrow> \<not> is_ws c"
  using numeral_units [of ds fs c] digit_facts(1) [of c] point_facts(2)
  by (auto simp: signed_def is_ws_code split: if_splits)

lemma numeral_head:
  assumes "plain_numeral ds fs"
  obtains c r where "numeral_text ds fs = c # r" and "is_digit c" and "\<forall>d \<in> set r. is_digit d \<or> d = 46"
proof -
  from assms obtain c r where "numeral_text ds fs = c # r" "is_digit c"
    by (cases ds) (auto simp: plain_numeral_def numeral_text_def)
  with that numeral_units [OF assms] show thesis by simp
qed

lemma take_two: "take 2 (a # s) = a # take 1 s" "take 1 (a # s) = [a]"
  by (simp_all add: take_Cons')

lemma no_radix:
  assumes "is_digit c" and "\<forall>d \<in> set r. is_digit d \<or> d = 46"
  shows "to_lower (take 2 (signed neg (c # r))) \<notin> {js ''0x'', js ''0o'', js ''0b''}"
proof -
  have lits: "js ''0x'' = [48, 120]" "js ''0o'' = [48, 111]" "js ''0b'' = [48, 98]"
    by (simp_all add: js_def)
  show ?thesis
  proof (cases neg)
    case True
    then show ?thesis by (auto simp: signed_def to_lower_def lits take_two point_facts)
  next
    case False
    show ?thesis
    proof (cases r)
      case Nil
      with False show ?thesis by (auto simp: signed_def to_lower_def lits take_two)
    next
      case (Cons d t)
      with assms(2) have "is_digit d \<or> d = 46" by simp
      then have "lower_unit d = d" "d \<noteq> 120" "d \<noteq> 111" "d \<noteq> 98"
        using digit_facts [of d] point_facts(3) by auto
      with Cons False show ?thesis by (auto simp: signed_def to_lower_def lits take_two)
    qed
  qed
qed

lemma str_to_num_numeral:
  assumes n: "plain_numeral ds fs"
  shows "str_to_num (signed neg (numeral_text ds fs)) =
    num_of_dec (if neg then - dec_val (ds @ fs) else dec_val (ds @ fs)) (- int (length fs))"
proof -
  from n obtain c r where cr: "numeral_text ds fs = c # r" and c: "is_digit c" and r: "\<forall>d \<in> set r. is_digit d \<or> d = 46"
    by (rule numeral_head)
  have trim: "trim (signed neg (c # r)) = signed neg (c # r)"
    using not_ws_numeral [OF n, of _ neg] unfolding cr by (intro trim_no_ws) blast
  have sign: "sign_prefix (signed neg (c # r)) = (neg, c # r)"
    using digit_facts [OF c] by (simp add: sign_prefix_def signed_def)
  have inf: "c # r \<noteq> js ''Infinity''"
    using digit_facts(4) [OF c] by (auto simp: js_def)
  show ?thesis
    unfolding cr str_to_num_def trim sign Let_def
    using no_radix [OF c r, of neg] inf udec_numeral [OF n, unfolded cr]
    by (simp add: signed_def exp_prefix_def)
qed

section \<open>Fixed-point text reads back\<close>

lemma decimal_text_numeral:
  assumes "0 \<le> n"
  shows "\<exists>ds fs. plain_numeral ds fs \<and> decimal_text d n = numeral_text ds fs \<and> dec_val (ds @ fs) = n \<and> length fs = d"
proof (cases "d = 0")
  case True
  with assms show ?thesis
    by (intro exI [of _ "dec_digits n"] exI [of _ "[]"])
      (simp add: plain_numeral_def decimal_text_def numeral_text_def dec_digits_all dec_val_dec_digits)
next
  case False
  then obtain k where d: "d = Suc k" by (cases d) auto
  let ?m = "n mod 10 ^ d"
  let ?ds = "dec_digits (n div 10 ^ d)" and ?fs = "pad_left d (dec_digits ?m)"
  have m: "0 \<le> ?m" "?m < 10 ^ Suc k" by (simp_all add: d)
  have len: "length (dec_digits ?m) \<le> d" using dec_digits_size [OF m(2)] by (simp add: d)
  then have fl: "length ?fs = d" by (simp add: pad_left_def)
  have "dec_val ?fs = ?m"
    using m(1) by (simp add: pad_left_def dec_val_append dec_val_zeros dec_val_dec_digits)
  moreover have q: "0 \<le> n div 10 ^ d" using assms by (simp add: pos_imp_zdiv_nonneg_iff)
  ultimately have "dec_val (?ds @ ?fs) = n"
    by (simp only: dec_val_append fl dec_val_dec_digits [OF q] div_mult_mod_eq)
  moreover have "plain_numeral ?ds ?fs"
    using q m(1) by (simp add: plain_numeral_def dec_digits_all pad_left_def zeros_digits)
  moreover have "?fs \<noteq> []" using fl False by auto
  then have "decimal_text d n = numeral_text ?ds ?fs"
    using False by (simp add: decimal_text_def numeral_text_def js_def)
  ultimately show ?thesis using fl by blast
qed

lemma num_of_dec_small:
  assumes "\<bar>m\<bar> < 10 ^ 300"
  shows "num_of_dec m (- int d) = Fin (of_int m / 10 ^ d)"
proof -
  have "length (dec_digits \<bar>m\<bar>) \<le> Suc 299" by (rule dec_digits_size) (use assms in simp)
  then have "int (length (dec_digits \<bar>m\<bar>)) - 1 - int d \<le> 308" by simp
  then show ?thesis by (simp add: num_of_dec_def scale10_def)
qed

text \<open>
  A number printed by \<open>toFixed\<close> and read by \<open>Number\<close> is the nearest multiple of \<open>10\<^sup>-\<^sup>d\<close>: it differs
  from the original by half a unit of the last decimal at most.
\<close>

lemma fixed_value_eq:
  assumes "\<bar>x\<bar> * 10 ^ d < 10 ^ 299"
  shows "fixed_value d x = Fin ((if x < 0 then - 1 else 1) * of_int (fixed_units d x) / 10 ^ d)"
proof -
  let ?n = "fixed_units d x"
  have n: "0 \<le> ?n" by (simp add: fixed_units_def)
  have "of_int ?n \<le> \<bar>x\<bar> * 10 ^ d + 1 / 2" by (simp add: fixed_units_def)
  also have "\<dots> < 10 ^ 299 + 1" using assms by simp
  also have "\<dots> \<le> of_int (10 ^ 300)" by simp
  finally have small: "?n < 10 ^ 300" by (simp only: of_int_less_iff)
  obtain ds fs where num: "plain_numeral ds fs" "decimal_text d ?n = numeral_text ds fs" "dec_val (ds @ fs) = ?n" "length fs = d"
    using decimal_text_numeral [OF n] by blast
  have "to_fixed d x = signed (x < 0) (numeral_text ds fs)"
    by (simp add: to_fixed_def signed_def num(2) js_def)
  then have "fixed_value d x = num_of_dec (if x < 0 then - ?n else ?n) (- int d)"
    using str_to_num_numeral [OF num(1), of "x < 0"] num(3,4) by (simp add: fixed_value_def)
  with num_of_dec_small [of "if x < 0 then - ?n else ?n" d] small n show ?thesis by simp
qed

lemma fixed_units_near: "\<bar>of_int (fixed_units d x) - \<bar>x\<bar> * 10 ^ d\<bar> \<le> 1 / 2"
  unfolding fixed_units_def by linarith

lemma fixed_value_near:
  assumes "\<bar>x\<bar> * 10 ^ d < 10 ^ 299"
  shows "\<exists>y. fixed_value d x = Fin y \<and> \<bar>y - x\<bar> \<le> 1 / 2 / 10 ^ d"
proof -
  let ?s = "if x < 0 then - 1 else 1 :: rat"
  have "?s * of_int (fixed_units d x) / 10 ^ d - x = ?s * (of_int (fixed_units d x) - \<bar>x\<bar> * 10 ^ d) / 10 ^ d"
    by (simp add: field_simps)
  then have "\<bar>?s * of_int (fixed_units d x) / 10 ^ d - x\<bar> = \<bar>of_int (fixed_units d x) - \<bar>x\<bar> * 10 ^ d\<bar> / 10 ^ d"
    by (simp add: abs_mult)
  also have "\<dots> \<le> 1 / 2 / 10 ^ d"
    using fixed_units_near [of d x] by (intro divide_right_mono) simp_all
  finally show ?thesis using fixed_value_eq [OF assms] by blast
qed

end
