(* ===== verification/Front_Prelude.thy ===== *)
theory Front_Prelude
  imports Js_Decimal Js_Regex
begin

text \<open>
  Shared basis of the theories of the web interface (\<open>src/frontend\<close>): optional fields, the
  operators on finite numbers the interface uses, and updates of the first or last element with a
  key.
\<close>

section \<open>Optional fields\<close>

text \<open>\<open>x ?? d\<close> on an optional field.\<close>

definition opt_or :: "'a option \<Rightarrow> 'a \<Rightarrow> 'a" where
  "opt_or x d = (case x of None \<Rightarrow> d | Some v \<Rightarrow> v)"

lemma opt_or_simps [simp]: "opt_or None d = d" "opt_or (Some v) d = v"
  by (simp_all add: opt_or_def)

text \<open>\<open>s || undefined\<close> on a string.\<close>

definition str_opt :: "jstr \<Rightarrow> jstr option" where
  "str_opt s = (if s = [] then None else Some s)"

text \<open>\<open>x?.s\<close> as a string, empty when it is missing: \<open>(x || '')\<close>.\<close>

definition str_or_empty :: "jstr option \<Rightarrow> jstr" where
  "str_or_empty x = opt_or x []"

lemma str_or_empty_simps [simp]: "str_or_empty None = []" "str_or_empty (Some s) = s"
  by (simp_all add: str_or_empty_def)

text \<open>The interface's texts, by key, with the values to fill in.\<close>

type_synonym translate = "string \<Rightarrow> (string \<times> jstr) list \<Rightarrow> jstr"

section \<open>Numbers\<close>

text \<open>The remainder \<open>%\<close>, with the sign of the dividend.\<close>

definition rat_trunc :: "rat \<Rightarrow> int" where
  "rat_trunc q = (if 0 \<le> q then \<lfloor>q\<rfloor> else - \<lfloor>- q\<rfloor>)"

definition rat_rem :: "rat \<Rightarrow> rat \<Rightarrow> rat" where
  "rat_rem a b = a - b * of_int (rat_trunc (a / b))"

text \<open>\<open>Math.max(init, ...xs)\<close>.\<close>

definition max_over :: "rat \<Rightarrow> rat list \<Rightarrow> rat" where
  "max_over m xs = fold max xs m"

text \<open>\<open>charCodeAt\<close> within the string.\<close>

definition char_code :: "jstr \<Rightarrow> nat \<Rightarrow> int" where
  "char_code s i = uint (s ! i)"

section \<open>Updates by key\<close>

text \<open>
  \<open>upd_first\<close> changes the element that \<open>find\<close> returns, \<open>upd_last\<close> the one a \<open>Map\<close> filled in order
  holds under the key (later entries overwrite earlier ones); \<open>last_with\<close> reads that one.
\<close>

fun upd_first :: "('a \<Rightarrow> bool) \<Rightarrow> ('a \<Rightarrow> 'a) \<Rightarrow> 'a list \<Rightarrow> 'a list" where
  "upd_first p f [] = []"
| "upd_first p f (x # xs) = (if p x then f x # xs else x # upd_first p f xs)"

fun upd_last :: "('a \<Rightarrow> bool) \<Rightarrow> ('a \<Rightarrow> 'a) \<Rightarrow> 'a list \<Rightarrow> 'a list" where
  "upd_last p f [] = []"
| "upd_last p f (x # xs) = (if p x \<and> \<not> list_ex p xs then f x # xs else x # upd_last p f xs)"

definition last_with :: "('a \<Rightarrow> bool) \<Rightarrow> 'a list \<Rightarrow> 'a option" where
  "last_with p xs = find p (rev xs)"

lemma upd_last_none: "\<not> list_ex p xs \<Longrightarrow> upd_last p f xs = xs"
  by (induction xs) (auto simp: list_ex_iff)

lemma map_upd_last: "(\<And>x. g (f x) = g x) \<Longrightarrow> map g (upd_last p f xs) = map g xs"
  by (induction xs) auto

lemma map_upd_first: "(\<And>x. p x \<Longrightarrow> g (f x) = g x) \<Longrightarrow> map g (upd_first p f xs) = map g xs"
  by (induction xs) auto

lemma length_upd_last [simp]: "length (upd_last p f xs) = length xs"
  and length_upd_first [simp]: "length (upd_first p f xs) = length xs"
  by (induction xs) auto

text \<open>With distinct keys there is one element to update.\<close>

lemma upd_last_key:
  assumes "distinct (map g xs)"
  shows "upd_last (\<lambda>x. g x = k) f xs = map (\<lambda>x. if g x = k then f x else x) xs"
  using assms
proof (induction xs)
  case (Cons x xs)
  show ?case
  proof (cases "g x = k")
    case True
    with Cons.prems have "\<forall>y \<in> set xs. g y \<noteq> k" by (auto simp: image_iff)
    then have "map (\<lambda>x. if g x = k then f x else x) xs = xs" and "\<not> list_ex (\<lambda>x. g x = k) xs"
      by (auto simp: list_ex_iff intro: map_idI)
    with True show ?thesis by simp
  next
    case False
    with Cons show ?thesis by simp
  qed
qed simp

lemma upd_first_key:
  assumes "distinct (map g xs)"
  shows "upd_first (\<lambda>x. g x = k) f xs = map (\<lambda>x. if g x = k then f x else x) xs"
  using assms
proof (induction xs)
  case (Cons x xs)
  show ?case
  proof (cases "g x = k")
    case True
    with Cons.prems have "\<forall>y \<in> set xs. g y \<noteq> k" by (auto simp: image_iff)
    then have "map (\<lambda>x. if g x = k then f x else x) xs = xs" by (auto intro: map_idI)
    with True show ?thesis by simp
  next
    case False
    with Cons show ?thesis by simp
  qed
qed simp

lemma find_key: "distinct (map g xs) \<Longrightarrow> x \<in> set xs \<Longrightarrow> find (\<lambda>y. g y = g x) xs = Some x"
  by (induction xs) (auto simp: image_iff)

lemma last_with_key: "distinct (map g xs) \<Longrightarrow> x \<in> set xs \<Longrightarrow> last_with (\<lambda>y. g y = g x) xs = Some x"
  unfolding last_with_def by (rule find_key) (simp_all flip: rev_map)

lemma last_with_Some: "last_with p xs = Some x \<Longrightarrow> x \<in> set xs \<and> p x"
  unfolding last_with_def by (auto dest: find_Some_in)

lemma last_with_None: "last_with p xs = None \<longleftrightarrow> (\<forall>x \<in> set xs. \<not> p x)"
  unfolding last_with_def by (auto simp: find_None_iff)

end
