(* ===== verification/Front_Inflight.thy ===== *)
theory Front_Inflight
  imports Front_Prelude
begin

text \<open>
  The board of requests in progress on the overview page (\<open>frontend/src/lib/mockInflight.ts\<close>): its
  data, the demo seed, \<open>tickMockInflight\<close>, which advances the demo one frame, and
  \<open>summarizeMockInflight\<close>. The projection of live data is in the theory that follows.

  Lists that the code leaves undefined when they are empty (\<open>cells\<close>, \<open>completions\<close>) are empty lists:
  every reader treats the two alike. The clock is a parameter: its reading may differ for each
  request that is placed. Identifiers have at least two units, as all of the demo's have; the
  lemmas show that they keep it, so that \<open>charCodeAt\<close> is never out of range.
\<close>

section \<open>Data\<close>

datatype job_kind = Chat | Embed | Tools | Other
datatype job_status = Queued | Running | Done | Failed
datatype job_priority = High | Normal | Low

record job =
  j_id :: jstr
  j_name :: jstr
  j_kind :: job_kind
  j_status :: job_status
  j_account :: "jstr option"
  j_progress :: rat
  j_elapsed :: rat
  j_started :: "rat option"
  j_sticky :: bool
  j_priority :: "job_priority option"
  j_attempt :: "int option"

record cell =
  c_id :: jstr
  c_name :: jstr
  c_started :: rat
  c_elapsed :: rat
  c_pending :: bool

record slot =
  w_id :: jstr
  w_name :: jstr
  w_provider :: jstr
  w_busy :: bool
  w_progress :: rat
  w_job :: "jstr option"
  w_limited :: bool
  w_concurrency :: "jsnum option"
  w_in_flight :: "rat option"
  w_cells :: "cell list"

record rate_window =
  r_id :: jstr
  r_label :: jstr
  r_remaining :: rat
  r_from :: rat
  r_until :: rat

record completion =
  f_id :: jstr
  f_name :: jstr
  f_kind :: job_kind
  f_ok :: bool

record board =
  b_jobs :: "job list"
  b_workers :: "slot list"
  b_limits :: "rate_window list"
  b_depth :: "rat list"
  b_backpressure :: rat
  b_done :: int
  b_failed :: int
  b_throughput :: rat
  b_wait_p95 :: rat
  b_generated :: rat
  b_completions :: "completion list"

section \<open>The demo seed\<close>

definition seed_cell :: "string \<Rightarrow> string \<Rightarrow> rat \<Rightarrow> cell" where
  "seed_cell i n ms = \<lparr>c_id = js i, c_name = js n, c_started = 0, c_elapsed = ms, c_pending = False\<rparr>"

definition seed_slot :: "string \<Rightarrow> string \<Rightarrow> string \<Rightarrow> rat \<Rightarrow> bool \<Rightarrow> int \<Rightarrow> cell list \<Rightarrow> slot" where
  "seed_slot i n p pr rl k cs =
     \<lparr>w_id = js i, w_name = js n, w_provider = js p, w_busy = (cs \<noteq> []), w_progress = pr,
      w_job = (case cs of [] \<Rightarrow> None | c # _ \<Rightarrow> Some (c_id c)), w_limited = rl,
      w_concurrency = Some (Fin (of_int k)), w_in_flight = Some (of_nat (length cs)), w_cells = cs\<rparr>"

definition seed_running :: "string \<Rightarrow> string \<Rightarrow> job_kind \<Rightarrow> string \<Rightarrow> rat \<Rightarrow> rat \<Rightarrow> bool \<Rightarrow> job" where
  "seed_running i n k w pr ms st =
     \<lparr>j_id = js i, j_name = js n, j_kind = k, j_status = Running, j_account = Some (js w), j_progress = pr,
      j_elapsed = ms, j_started = None, j_sticky = st, j_priority = None, j_attempt = None\<rparr>"

definition seed_queued :: "string \<Rightarrow> string \<Rightarrow> job_kind \<Rightarrow> rat \<Rightarrow> bool \<Rightarrow> job_priority option \<Rightarrow> job" where
  "seed_queued i n k ms st p =
     \<lparr>j_id = js i, j_name = js n, j_kind = k, j_status = Queued, j_account = None, j_progress = 0,
      j_elapsed = ms, j_started = None, j_sticky = st, j_priority = p, j_attempt = None\<rparr>"

definition MOCK_WORKERS :: "slot list" where
  "MOCK_WORKERS =
     [seed_slot ''acc-wb-a1'' ''WorkBuddy'' ''workbuddy'' (72 / 100) False 4
        [seed_cell ''j1'' ''glm-5.2'' 11200, seed_cell ''j1b'' ''kimi-k2.7-code'' 8400,
         seed_cell ''j1c'' ''qwen3-embedding'' 4100],
      seed_slot ''acc-wb-a2'' ''Zhipu'' ''zhipu'' (41 / 100) True 2 [seed_cell ''j2'' ''deepseek-v4-pro'' 9400],
      seed_slot ''acc-qd-b1'' ''Qoder'' ''qoder'' (88 / 100) False 1 [seed_cell ''j3'' ''glm-5.3'' 6200],
      seed_slot ''acc-qd-b2'' ''Kimi'' ''kimi'' 0 False 4 [],
      seed_slot ''acc-trae-c1'' ''Trae'' ''trae'' (23 / 100) False 3
        [seed_cell ''j4'' ''qwen3-coder'' 3100, seed_cell ''j4b'' ''glm-5.3-flash'' 1800],
      seed_slot ''acc-codex-d1'' ''Codex'' ''codex'' 0 True 2 []]"

definition MOCK_JOBS :: "job list" where
  "MOCK_JOBS =
     [seed_running ''j1'' ''glm-5.2'' Chat ''acc-wb-a1'' (72 / 100) 11200 True,
      seed_running ''j1b'' ''kimi-k2.7-code'' Chat ''acc-wb-a1'' (55 / 100) 8400 False,
      seed_running ''j1c'' ''qwen3-embedding'' Embed ''acc-wb-a1'' (3 / 10) 4100 False,
      seed_running ''j2'' ''deepseek-v4-pro'' Embed ''acc-wb-a2'' (41 / 100) 9400 False,
      seed_running ''j3'' ''glm-5.3'' Chat ''acc-qd-b1'' (88 / 100) 6200 False,
      seed_running ''j4'' ''qwen3-coder'' Tools ''acc-trae-c1'' (23 / 100) 3100 False,
      seed_running ''j4b'' ''glm-5.3-flash'' Chat ''acc-trae-c1'' (15 / 100) 1800 False,
      seed_queued ''j5'' ''deepseek-v4.1-flash'' Chat 7200 False None,
      seed_queued ''j6'' ''glm-5.2'' Chat 5100 False None,
      seed_queued ''j7'' ''kimi-k2.7-code'' Chat 2800 True (Some High),
      seed_queued ''j8'' ''qwen3-embedding'' Embed 1400 False None,
      seed_queued ''j9'' ''qwen3-coder'' Tools 900 False None,
      seed_queued ''j10'' ''glm-5.3-flash'' Chat 600 False None,
      seed_queued ''j11'' ''deepseek-v4-pro'' Embed 400 False None,
      seed_queued ''j12'' ''glm-5.3'' Chat 200 False (Some High)]"

definition MOCK_INFLIGHT :: board where
  "MOCK_INFLIGHT =
     \<lparr>b_jobs = MOCK_JOBS, b_workers = MOCK_WORKERS,
      b_limits = [\<lparr>r_id = js ''rl1'', r_label = js ''Zhipu '' @ [0x9650, 0x6D41], r_remaining = 97000,
                   r_from = 55 / 100, r_until = 72 / 100\<rparr>,
                  \<lparr>r_id = js ''rl2'', r_label = js ''Codex '' @ [0x51B7, 0x5374], r_remaining = 41000,
                   r_from = 82 / 100, r_until = 1\<rparr>],
      b_depth = [1, 1, 2, 2, 3, 4, 5, 6, 7, 6, 5, 4, 3, 4, 5, 6, 5, 4, 3, 3, 2, 3, 4, 3],
      b_backpressure = 6, b_done = 186, b_failed = 4, b_throughput = 42, b_wait_p95 = 2800,
      b_generated = 0, b_completions = []\<rparr>"

definition SEED_NAMES :: "(string \<times> job_kind \<times> bool) list" where
  "SEED_NAMES =
     [(''glm-5.3'', Chat, False), (''qwen3-embedding'', Embed, False), (''qwen3-coder'', Tools, False),
      (''glm-5.3-flash'', Chat, True), (''deepseek-v4.1-flash'', Chat, False),
      (''deepseek-v4-pro'', Embed, False), (''kimi-k2.7-code'', Chat, False)]"

definition initial_seq :: int where
  "initial_seq = 100"

text \<open>Values are not shared between boards here, so cloning only drops the completions.\<close>

definition cloneMockInflight :: "board \<Rightarrow> board" where
  "cloneMockInflight b = b\<lparr>b_completions := []\<rparr>"

definition getMockInflightSnapshot :: board where
  "getMockInflightSnapshot = cloneMockInflight MOCK_INFLIGHT"

definition getIdleInflightSnapshot :: "rat \<Rightarrow> board" where
  "getIdleInflightSnapshot now =
     \<lparr>b_jobs = [], b_workers = [], b_limits = [],
      b_depth = replicate (max 1 (length (b_depth MOCK_INFLIGHT))) 0,
      b_backpressure = b_backpressure MOCK_INFLIGHT, b_done = 0, b_failed = 0, b_throughput = 0,
      b_wait_p95 = 0, b_generated = now, b_completions = []\<rparr>"

definition isIdleInflightSnapshot :: "board \<Rightarrow> bool" where
  "isIdleInflightSnapshot b \<longleftrightarrow>
     b_jobs b = [] \<and> b_workers b = [] \<and> b_throughput b = 0 \<and> b_done b = 0 \<and> b_failed b = 0"

section \<open>One frame of the demo\<close>

text \<open>\<open>jobById.get(id)\<close>, and a write to the job it returns.\<close>

definition job_by_id :: "jstr \<Rightarrow> job list \<Rightarrow> job option" where
  "job_by_id k = last_with (\<lambda>j. j_id j = k)"

definition set_job :: "jstr \<Rightarrow> (job \<Rightarrow> job) \<Rightarrow> job list \<Rightarrow> job list" where
  "set_job k = upd_last (\<lambda>j. j_id j = k)"

definition clamp_dt :: "rat \<Rightarrow> rat" where
  "clamp_dt ms = max 16 (min 500 ms)"

subsection \<open>Rate limits\<close>

definition count_down :: "rat \<Rightarrow> rate_window list \<Rightarrow> rate_window list" where
  "count_down dt rs =
     filter (\<lambda>r. 0 < r_remaining r) (map (\<lambda>r. r\<lparr>r_remaining := max 0 (r_remaining r - dt)\<rparr>) rs)"

definition sync_limited :: "rate_window list \<Rightarrow> slot \<Rightarrow> slot" where
  "sync_limited rs w =
     (if w_id w = js ''acc-wb-a2'' then w\<lparr>w_limited := list_ex (\<lambda>r. contains (js ''Zhipu'') (r_label r)) rs\<rparr>
      else if w_id w = js ''acc-codex-d1'' then w\<lparr>w_limited := list_ex (\<lambda>r. contains (js ''Codex'') (r_label r)) rs\<rparr>
      else w)"

subsection \<open>Progress\<close>

definition cell_speed :: "jstr \<Rightarrow> rat" where
  "cell_speed k = 45 / 1000 + of_int (char_code k (length k - 1) mod 5) * (8 / 1000)"

definition advance_cell :: "rat \<Rightarrow> cell \<Rightarrow> job list \<times> rat \<Rightarrow> job list \<times> rat" where
  "advance_cell dt c s = (case s of (js', m) \<Rightarrow>
     (case job_by_id (c_id c) js' of
        None \<Rightarrow> (js', m)
      | Some j \<Rightarrow>
          if j_status j \<noteq> Running then (js', m)
          else (let p = min 1 (j_progress j + cell_speed (c_id c) * (dt / 1000)) in
            (set_job (c_id c) (\<lambda>j. j\<lparr>j_elapsed := c_elapsed c, j_progress := p\<rparr>) js', max m p))))"

definition advance_worker :: "rat \<Rightarrow> slot \<Rightarrow> job list \<Rightarrow> slot \<times> job list" where
  "advance_worker dt w js' =
     (let w1 = w\<lparr>w_cells := map (\<lambda>c. c\<lparr>c_elapsed := c_elapsed c + dt\<rparr>) (w_cells w)\<rparr> in
      if w_limited w then (w1, js')
      else (let (js2, m) = fold (advance_cell dt) (w_cells w1) (js', 0) in
        ((case w_cells w1 of
            [] \<Rightarrow> w1
          | c # cs \<Rightarrow> w1\<lparr>w_progress := m, w_busy := True, w_job := Some (c_id c),
                       w_in_flight := Some (of_nat (length (c # cs)))\<rparr>), js2)))"

text \<open>\<open>for (const w of next.workers)\<close> with the jobs as the state the body changes.\<close>

fun each_worker :: "(slot \<Rightarrow> job list \<Rightarrow> slot \<times> job list) \<Rightarrow> slot list \<Rightarrow> job list \<Rightarrow> slot list \<times> job list" where
  "each_worker f [] js' = ([], js')"
| "each_worker f (w # ws) js' =
     (let (w', js1) = f w js'; (ws', js2) = each_worker f ws js1 in (w' # ws', js2))"

subsection \<open>Finishing\<close>

definition cell_ready :: "job list \<Rightarrow> cell \<Rightarrow> bool" where
  "cell_ready js' c \<longleftrightarrow> (case job_by_id (c_id c) js' of
     None \<Rightarrow> False | Some j \<Rightarrow> j_status j = Running \<and> 995 / 1000 \<le> j_progress j)"

definition finish_ok :: "rat \<Rightarrow> jstr \<Rightarrow> bool" where
  "finish_ok gen k \<longleftrightarrow> (char_code k 1 + \<lfloor>gen / 1000\<rfloor>) mod 9 \<noteq> 0"

text \<open>At most one cell of a worker finishes in a frame: job, worker, success.\<close>

definition finished_of :: "rat \<Rightarrow> job list \<Rightarrow> slot \<Rightarrow> (jstr \<times> jstr \<times> bool) list" where
  "finished_of gen js' w =
     (if w_limited w \<or> w_cells w = [] then []
      else case find (cell_ready js') (w_cells w) of
             None \<Rightarrow> []
           | Some c \<Rightarrow> [(c_id c, w_id w, finish_ok gen (c_id c))])"

definition release_cell :: "job list \<Rightarrow> jstr \<Rightarrow> slot \<Rightarrow> slot" where
  "release_cell js' k w =
     (let cs = filter (\<lambda>c. c_id c \<noteq> k) (w_cells w) in
      w\<lparr>w_cells := cs, w_in_flight := Some (of_nat (length cs)),
        w_job := (case cs of [] \<Rightarrow> None | c # _ \<Rightarrow> Some (c_id c)),
        w_busy := (cs \<noteq> []),
        w_progress := (if cs \<noteq> [] then max_over (4 / 100) (map (\<lambda>c.
           case job_by_id (c_id c) js' of None \<Rightarrow> 4 / 100 | Some j \<Rightarrow> j_progress j) cs) else 0)\<rparr>)"

definition can_retry :: "rat \<Rightarrow> jstr \<Rightarrow> int \<Rightarrow> bool" where
  "can_retry gen k attempt \<longleftrightarrow> attempt \<le> 3 \<and> (char_code k 0 + \<lfloor>gen / 900\<rfloor>) mod 2 = 0"

definition conclude :: "rat \<Rightarrow> jstr \<Rightarrow> bool \<Rightarrow> job \<Rightarrow> job" where
  "conclude gen k ok j =
     (let j1 = j\<lparr>j_account := None\<rparr>; attempt = opt_or (j_attempt j) 1 + 1 in
      if ok then j1\<lparr>j_status := Done, j_progress := 1\<rparr>
      else if can_retry gen k attempt
      then j1\<lparr>j_status := Queued, j_progress := 0, j_elapsed := 80, j_attempt := Some attempt,
              j_priority := Some High\<rparr>
      else j1\<lparr>j_status := Failed, j_progress := 1\<rparr>)"

definition finish_one :: "rat \<Rightarrow> jstr \<times> jstr \<times> bool \<Rightarrow> board \<Rightarrow> board" where
  "finish_one gen f b = (case f of (k, wk, ok) \<Rightarrow>
     (case (job_by_id k (b_jobs b), find (\<lambda>w. w_id w = wk) (b_workers b)) of
        (Some j, Some w) \<Rightarrow>
          (let j' = conclude gen k ok j in
           b\<lparr>b_workers := upd_first (\<lambda>w. w_id w = wk) (release_cell (b_jobs b) k) (b_workers b),
             b_jobs := set_job k (\<lambda>_. j') (b_jobs b),
             b_done := b_done b + (if j_status j' = Done then 1 else 0),
             b_failed := b_failed b + (if j_status j' = Failed then 1 else 0)\<rparr>)
      | _ \<Rightarrow> b))"

definition completion_of :: "job list \<Rightarrow> jstr \<Rightarrow> completion list" where
  "completion_of js' k = (case job_by_id k js' of
     None \<Rightarrow> []
   | Some j \<Rightarrow> if j_status j = Done \<or> j_status j = Failed
       then [\<lparr>f_id = j_id j, f_name = j_name j, f_kind = j_kind j, f_ok = (j_status j = Done)\<rparr>] else [])"

definition active :: "job \<Rightarrow> bool" where
  "active j \<longleftrightarrow> j_status j = Queued \<or> j_status j = Running"

definition wait_longer :: "rat \<Rightarrow> job \<Rightarrow> job" where
  "wait_longer dt j = (if j_status j = Queued then j\<lparr>j_elapsed := j_elapsed j + dt\<rparr> else j)"

subsection \<open>Placing waiting requests\<close>

definition clampSlotConcurrency :: "jsnum option \<Rightarrow> nat" where
  "clampSlotConcurrency n = (case n of
     Some (Fin q) \<Rightarrow> nat (max 1 (min 16 \<lfloor>q\<rfloor>))
   | _ \<Rightarrow> 1)"

definition slot_cap :: "slot \<Rightarrow> nat" where
  "slot_cap w = clampSlotConcurrency (Some (opt_or (w_concurrency w) (Fin 1)))"

definition waits :: "job \<Rightarrow> bool" where
  "waits j \<longleftrightarrow> j_status j = Queued"

definition start_job :: "jstr \<Rightarrow> job \<Rightarrow> job" where
  "start_job wk j = j\<lparr>j_status := Running, j_account := Some wk, j_progress := 4 / 100, j_elapsed := 0\<rparr>"

definition bind_cell :: "rat \<Rightarrow> nat \<Rightarrow> job \<Rightarrow> slot \<Rightarrow> slot" where
  "bind_cell now cap j w =
     (let c = \<lparr>c_id = j_id j, c_name = j_name j, c_started = now, c_elapsed = 0, c_pending = False\<rparr>;
          cs = take cap (filter (\<lambda>c. c_id c \<noteq> j_id j) (w_cells w) @ [c]) in
      w\<lparr>w_cells := cs, w_busy := True, w_progress := max (w_progress w) (4 / 100),
        w_job := (case cs of [] \<Rightarrow> None | c # _ \<Rightarrow> Some (c_id c)), w_in_flight := Some (of_nat (length cs))\<rparr>)"

text \<open>
  The head of the list \<open>queue\<close> is the first job of the board that still waits: the ones before it
  have been started.
\<close>

lemma waiting_upd_first: "find waits js' \<noteq> None \<Longrightarrow>
  length (filter waits (upd_first waits (start_job wk) js')) < length (filter waits js')"
proof (induction js')
  case (Cons j js')
  then show ?case by (auto simp: waits_def start_job_def split: if_splits)
qed simp

function fill_worker :: "(jstr \<Rightarrow> rat) \<Rightarrow> nat \<Rightarrow> slot \<Rightarrow> job list \<Rightarrow> slot \<times> job list" where
  "fill_worker now cap w js' =
     (if length (w_cells w) < cap then
        (case find waits js' of
           None \<Rightarrow> (w, js')
         | Some j \<Rightarrow> fill_worker now cap (bind_cell (now (j_id j)) cap j w) (upd_first waits (start_job (w_id w)) js'))
      else (w, js'))"
  by pat_completeness auto
termination
  by (relation "measure (\<lambda>(now, cap, w, js'). length (filter waits js'))") (simp_all add: waiting_upd_first)

declare fill_worker.simps [simp del]

definition pull_queue :: "(jstr \<Rightarrow> rat) \<Rightarrow> slot \<Rightarrow> job list \<Rightarrow> slot \<times> job list" where
  "pull_queue now w js' = (if w_limited w then (w, js') else fill_worker now (slot_cap w) w js')"

subsection \<open>New requests and the queue order\<close>

definition new_job :: "int \<Rightarrow> job" where
  "new_job seq =
     (case SEED_NAMES ! nat (seq mod 7) of (n, k, st) \<Rightarrow> (let s = seq + 1 in
      \<lparr>j_id = js ''j'' @ dec_digits s, j_name = js n, j_kind = k, j_status = Queued, j_account = None,
       j_progress = 0, j_elapsed = 200 + of_int (s mod 7) * 400, j_started = None, j_sticky = st,
       j_priority = Some (if s mod 4 = 0 then High else Normal), j_attempt = None\<rparr>))"

definition enqueue :: "rat \<Rightarrow> rat \<Rightarrow> job list \<times> int \<Rightarrow> job list \<times> int" where
  "enqueue gen dt s = (case s of (js', seq) \<Rightarrow>
     if length (filter waits js') < 10 \<and> rat_rem gen 1600 < dt then (js' @ [new_job seq], seq + 1)
     else (js', seq))"

definition promoted :: "job \<Rightarrow> bool" where
  "promoted j \<longleftrightarrow> j_priority j = Some High \<and> 400 \<le> j_elapsed j"

definition reorder :: "job list \<Rightarrow> job list" where
  "reorder js' =
     (let queued = filter waits js' in
      filter (\<lambda>j. j_status j = Running) js' @ filter promoted queued @ filter (\<lambda>j. \<not> promoted j) queued)"

subsection \<open>The frame\<close>

definition finish_phase :: "rat \<Rightarrow> board \<Rightarrow> board" where
  "finish_phase dt prev =
     (let gen = b_generated prev + dt;
          limits = count_down dt (b_limits prev);
          (ws, js') = each_worker (advance_worker dt) (map (sync_limited limits) (b_workers prev)) (b_jobs prev);
          fin = concat (map (finished_of gen js') ws);
          b = fold (finish_one gen) fin
                ((cloneMockInflight prev)\<lparr>b_generated := gen, b_limits := limits, b_workers := ws, b_jobs := js'\<rparr>)
      in b\<lparr>b_completions := concat (map (\<lambda>f. completion_of (b_jobs b) (fst f)) fin)\<rparr>)"

definition scroll_depth :: "board \<Rightarrow> board" where
  "scroll_depth b =
     (let busy = length (filter w_busy (b_workers b)); wait_now = length (filter waits (b_jobs b)) in
      b\<lparr>b_depth := drop 1 (b_depth b) @ [max 1 (of_nat wait_now + max 0 (of_nat busy - 2))],
        b_wait_p95 := max 900 (min 5200 (b_wait_p95 b + (if 4 < wait_now then 40 else - 20)))\<rparr>)"

definition tickMockInflight :: "(jstr \<Rightarrow> rat) \<Rightarrow> rat \<Rightarrow> board \<times> int \<Rightarrow> board \<times> int" where
  "tickMockInflight now dt_ms s = (case s of (prev, seq) \<Rightarrow>
     (let dt = clamp_dt dt_ms;
          b = finish_phase dt prev;
          waiting = map (wait_longer dt) (filter active (b_jobs b));
          (ws, placed) = each_worker (pull_queue now) (b_workers b) waiting;
          (js', seq') = enqueue (b_generated b) dt (placed, seq);
          b' = scroll_depth (b\<lparr>b_workers := ws, b_jobs := reorder js'\<rparr>)
      in (b'\<lparr>b_throughput := max 28 (min 58 (b_throughput b + (of_int (seq' mod 3) - 1)))\<rparr>, seq')))"

section \<open>Summary\<close>

record summary =
  s_running :: nat
  s_waiting :: nat
  s_busy :: nat
  s_occupied :: int
  s_slots :: int
  s_limits :: nat
  s_depth :: rat

definition slot_occupied :: "slot \<Rightarrow> int" where
  "slot_occupied w = (case w_in_flight w of
     Some q \<Rightarrow> max 0 (min (int (slot_cap w)) \<lfloor>q\<rfloor>)
   | None \<Rightarrow> if w_busy w then 1 else 0)"

definition summarizeMockInflight :: "board \<Rightarrow> summary" where
  "summarizeMockInflight b =
     \<lparr>s_running = length (filter (\<lambda>j. j_status j = Running) (b_jobs b)),
      s_waiting = length (filter waits (b_jobs b)),
      s_busy = length (filter w_busy (b_workers b)),
      s_occupied = sum_list (map slot_occupied (b_workers b)),
      s_slots = sum_list (map (\<lambda>w. int (slot_cap w)) (b_workers b)),
      s_limits = length (b_limits b),
      s_depth = (if b_depth b = [] then of_nat (length (filter waits (b_jobs b))) else last (b_depth b))\<rparr>"


section \<open>Every slot within its capacity\<close>

text \<open>What every board keeps, the demo's and the ones projected from live data.\<close>

definition slot_fits :: "slot \<Rightarrow> bool" where
  "slot_fits w \<longleftrightarrow> length (w_cells w) \<le> slot_cap w \<and> w_in_flight w = Some (of_nat (length (w_cells w)))"

lemma clampSlotConcurrency_bounds [js_bounds]: "1 \<le> clampSlotConcurrency n" "clampSlotConcurrency n \<le> 16"
  by (auto simp: clampSlotConcurrency_def split: option.split jsnum.split)

lemma slot_cap_bounds: "1 \<le> slot_cap w" "slot_cap w \<le> 16"
  unfolding slot_cap_def by (rule clampSlotConcurrency_bounds)+

lemma slot_cap_cong: "w_concurrency w' = w_concurrency w \<Longrightarrow> slot_cap w' = slot_cap w"
  by (simp add: slot_cap_def)

text \<open>A frame changes neither the identity nor the capacity of a slot.\<close>

definition same_slot :: "slot \<Rightarrow> slot \<Rightarrow> bool" where
  "same_slot w w' \<longleftrightarrow> w_id w' = w_id w \<and> w_concurrency w' = w_concurrency w"

lemma same_slot_refl [simp]: "same_slot w w"
  and same_slot_trans: "same_slot u v \<Longrightarrow> same_slot v w \<Longrightarrow> same_slot u w"
  by (simp_all add: same_slot_def)

lemma slot_fits_cong:
  assumes "w_concurrency w' = w_concurrency w" and "length (w_cells w') = length (w_cells w)"
    and "w_in_flight w' = w_in_flight w"
  shows "slot_fits w' \<longleftrightarrow> slot_fits w"
  using assms by (simp add: slot_fits_def slot_cap_cong [OF assms(1)])

lemma sync_limited_frame [simp]:
  "w_id (sync_limited rs w) = w_id w" "w_concurrency (sync_limited rs w) = w_concurrency w"
  "w_cells (sync_limited rs w) = w_cells w" "w_in_flight (sync_limited rs w) = w_in_flight w"
  "w_busy (sync_limited rs w) = w_busy w"
  by (simp_all add: sync_limited_def)

lemma slot_fits_sync: "slot_fits (sync_limited rs w) \<longleftrightarrow> slot_fits w"
  by (rule slot_fits_cong) simp_all

text \<open>The worker after its cells have advanced, up to the amounts.\<close>

lemma advance_worker_frame:
  "w_id (fst (advance_worker dt w js')) = w_id w"
  "w_concurrency (fst (advance_worker dt w js')) = w_concurrency w"
  "w_limited (fst (advance_worker dt w js')) = w_limited w"
  "map c_id (w_cells (fst (advance_worker dt w js'))) = map c_id (w_cells w)"
  "length (w_cells (fst (advance_worker dt w js'))) = length (w_cells w)"
  by (auto simp: advance_worker_def Let_def o_def split: prod.split list.split)

lemma advance_worker_in_flight:
  "w_in_flight (fst (advance_worker dt w js')) =
     (if w_limited w \<or> w_cells w = [] then w_in_flight w else Some (of_nat (length (w_cells w))))"
  by (cases "w_cells w") (auto simp: advance_worker_def Let_def split: prod.split)

lemma advance_worker_busy:
  "w_busy (fst (advance_worker dt w js')) = (w_busy w \<or> \<not> w_limited w \<and> w_cells w \<noteq> [])"
  by (cases "w_cells w") (auto simp: advance_worker_def Let_def split: prod.split)

lemma advance_worker_fits:
  assumes "slot_fits w"
  shows "slot_fits (fst (advance_worker dt w js'))"
proof -
  have "slot_cap (fst (advance_worker dt w js')) = slot_cap w"
    by (rule slot_cap_cong) (rule advance_worker_frame)
  with assms show ?thesis
    unfolding slot_fits_def advance_worker_in_flight advance_worker_frame by simp
qed

lemma release_cell_frame [simp]:
  "w_id (release_cell js' k w) = w_id w" "w_concurrency (release_cell js' k w) = w_concurrency w"
  "w_cells (release_cell js' k w) = filter (\<lambda>c. c_id c \<noteq> k) (w_cells w)"
  "w_busy (release_cell js' k w) = (w_cells (release_cell js' k w) \<noteq> [])"
  "w_in_flight (release_cell js' k w) = Some (of_nat (length (w_cells (release_cell js' k w))))"
  by (simp_all add: release_cell_def Let_def)

lemma release_cell_fits: "slot_fits w \<Longrightarrow> slot_fits (release_cell js' k w)"
  using slot_cap_cong [of "release_cell js' k w" w]
  by (auto simp: slot_fits_def intro: le_trans [OF length_filter_le])

lemma bind_cell_frame [simp]:
  "w_id (bind_cell now cap j w) = w_id w" "w_concurrency (bind_cell now cap j w) = w_concurrency w"
  "w_limited (bind_cell now cap j w) = w_limited w" "w_busy (bind_cell now cap j w)"
  "w_in_flight (bind_cell now cap j w) = Some (of_nat (length (w_cells (bind_cell now cap j w))))"
  by (simp_all add: bind_cell_def Let_def)

lemma length_bind_cell: "length (w_cells (bind_cell now cap j w)) \<le> cap"
  by (simp add: bind_cell_def Let_def)

lemma bind_cell_fits: "cap = slot_cap w \<Longrightarrow> slot_fits (bind_cell now cap j w)"
  using slot_cap_cong [of "bind_cell now cap j w" w] length_bind_cell [of now cap j w]
  by (simp add: slot_fits_def)

lemma fill_worker_fits:
  "slot_fits w \<Longrightarrow> cap = slot_cap w \<Longrightarrow>
     slot_fits (fst (fill_worker now cap w js')) \<and> same_slot w (fst (fill_worker now cap w js'))"
proof (induction now cap w js' rule: fill_worker.induct)
  case (1 now cap w js')
  show ?case
  proof (cases "length (w_cells w) < cap \<and> find waits js' \<noteq> None")
    case True
    then obtain j where lt: "length (w_cells w) < cap" and j: "find waits js' = Some j" by auto
    let ?w = "bind_cell (now (j_id j)) cap j w"
    have cap: "cap = slot_cap ?w" using 1(3) slot_cap_cong [of ?w w] by simp
    have "slot_fits ?w" using 1(3) by (rule bind_cell_fits)
    from 1(1) [OF lt j this cap] have
      "slot_fits (fst (fill_worker now cap ?w (upd_first waits (start_job (w_id w)) js')))
       \<and> same_slot ?w (fst (fill_worker now cap ?w (upd_first waits (start_job (w_id w)) js')))" .
    moreover have "same_slot w ?w" by (simp add: same_slot_def)
    ultimately show ?thesis
      using lt j same_slot_trans by (simp add: fill_worker.simps [of now cap w])
  next
    case False
    with 1(2) show ?thesis by (auto simp: fill_worker.simps [of now cap w] split: option.split)
  qed
qed

lemma pull_queue_fits:
  "slot_fits w \<Longrightarrow> slot_fits (fst (pull_queue now w js')) \<and> same_slot w (fst (pull_queue now w js'))"
  by (simp add: pull_queue_def fill_worker_fits)

lemma each_worker_slots:
  assumes "\<And>w js'. P w \<Longrightarrow> Q w (fst (f w js'))" and "list_all P ws"
  shows "list_all2 Q ws (fst (each_worker f ws js'))"
  using assms(2)
proof (induction ws arbitrary: js')
  case (Cons w ws)
  then show ?case using assms(1) [of w js'] by (simp add: case_prod_beta)
qed simp

lemma each_worker_fits:
  assumes "\<And>w js'. slot_fits w \<Longrightarrow> slot_fits (fst (f w js'))" and "list_all slot_fits ws"
  shows "list_all slot_fits (fst (each_worker f ws js'))"
proof -
  have "list_all2 (\<lambda>_. slot_fits) ws (fst (each_worker f ws js'))"
    using assms by (rule each_worker_slots)
  then show ?thesis by (simp add: list_all2_conv_all_nth list_all_length)
qed

lemma finish_one_fits:
  "list_all slot_fits (b_workers b) \<Longrightarrow> list_all slot_fits (b_workers (finish_one gen f b))"
proof -
  assume a: "list_all slot_fits (b_workers b)"
  have "list_all slot_fits ws \<Longrightarrow> list_all slot_fits (upd_first p (release_cell js' k) ws)" for p js' k ws
    by (induction ws) (auto simp: release_cell_fits)
  with a show ?thesis by (auto simp: finish_one_def Let_def split: prod.split option.split)
qed

lemma fold_finish_fits:
  "list_all slot_fits (b_workers b) \<Longrightarrow> list_all slot_fits (b_workers (fold (finish_one gen) fs b))"
  by (induction fs arbitrary: b) (simp_all add: finish_one_fits)

lemma finish_phase_fits:
  assumes "list_all slot_fits (b_workers b)"
  shows "list_all slot_fits (b_workers (finish_phase dt b))"
proof -
  have "list_all slot_fits (map (sync_limited rs) (b_workers b))" for rs
    using assms by (simp add: list_all_iff slot_fits_sync)
  then have "list_all slot_fits (fst (each_worker (advance_worker dt) (map (sync_limited rs) (b_workers b)) js'))"
    for rs js'
    by (intro each_worker_fits advance_worker_fits)
  then show ?thesis
    by (simp add: finish_phase_def Let_def case_prod_beta fold_finish_fits)
qed

lemma scroll_depth_frame [simp]: "b_workers (scroll_depth b) = b_workers b" "b_jobs (scroll_depth b) = b_jobs b"
  by (simp_all add: scroll_depth_def Let_def)

text \<open>The parts of a frame: the slots after the queue was pulled, the jobs that are left, the counter.\<close>

lemma tick_parts:
  assumes "finish_phase (clamp_dt ms) b = b1" and "map (wait_longer (clamp_dt ms)) (filter active (b_jobs b1)) = wait"
    and "each_worker (pull_queue now) (b_workers b1) wait = p" and "enqueue (b_generated b1) (clamp_dt ms) (snd p, q) = en"
  shows "b_workers (fst (tickMockInflight now ms (b, q))) = fst p" "b_jobs (fst (tickMockInflight now ms (b, q))) = reorder (fst en)"
    "snd (tickMockInflight now ms (b, q)) = snd en"
  unfolding tickMockInflight_def Let_def case_prod_conv assms
  by (cases p; cases en; use assms(4) in simp)+

lemma tick_fits:
  assumes "list_all slot_fits (b_workers b)"
  shows "list_all slot_fits (b_workers (fst (tickMockInflight now ms (b, q))))"
proof -
  let ?b = "finish_phase (clamp_dt ms) b"
  have "list_all slot_fits (fst (each_worker (pull_queue now) (b_workers ?b) js'))" for js'
    using assms by (intro each_worker_fits finish_phase_fits) (simp_all add: pull_queue_fits)
  then show ?thesis by (simp only: tick_parts(1) [OF refl refl refl refl])
qed

section \<open>The demo: slots and running requests agree\<close>

text \<open>
  \<open>placed ps js\<close>: the pairs of a request and the account it occupies are the running jobs with their
  accounts, and no request occupies two cells.
\<close>

definition key :: "job \<Rightarrow> jstr \<times> job_status \<times> jstr option" where
  "key j = (j_id j, j_status j, j_account j)"

definition run_pairs :: "job list \<Rightarrow> (jstr \<times> jstr option) list" where
  "run_pairs js' = map (\<lambda>j. (j_id j, j_account j)) (filter (\<lambda>j. j_status j = Running) js')"

definition slot_pairs :: "slot \<Rightarrow> (jstr \<times> jstr option) list" where
  "slot_pairs w = map (\<lambda>c. (c_id c, Some (w_id w))) (w_cells w)"

definition cell_pairs :: "slot list \<Rightarrow> (jstr \<times> jstr option) list" where
  "cell_pairs ws = concat (map slot_pairs ws)"

definition placed :: "(jstr \<times> jstr option) list \<Rightarrow> job list \<Rightarrow> bool" where
  "placed ps js' \<longleftrightarrow> distinct (map fst ps) \<and> set ps = set (run_pairs js') \<and> distinct (map j_id js')"

lemma run_pairs_key: "run_pairs js' = map (\<lambda>(i, s, a). (i, a)) (filter (\<lambda>(i, s, a). s = Running) (map key js'))"
  by (simp add: run_pairs_def filter_map key_def o_def)

lemma run_pairs_simps:
  "run_pairs [] = []"
  "run_pairs (j # js') = (if j_status j = Running then (j_id j, j_account j) # run_pairs js' else run_pairs js')"
  by (simp_all add: run_pairs_def)

lemma ids_key: "map j_id js' = map fst (map key js')"
  by (simp add: key_def)

lemma placed_key: "map key js1 = map key js2 \<Longrightarrow> placed ps js1 \<longleftrightarrow> placed ps js2"
  unfolding placed_def run_pairs_key ids_key by simp

lemma placed_swap: "placed (a @ b @ c) js' \<longleftrightarrow> placed (b @ a @ c) js'"
  by (auto simp: placed_def)

lemma cell_pairs_simps [simp]: "cell_pairs [] = []" "cell_pairs (w # ws) = slot_pairs w @ cell_pairs ws"
  by (simp_all add: cell_pairs_def)

subsection \<open>Progress keeps the placement\<close>

lemma advance_cell_key: "map key (fst (advance_cell dt c s)) = map key (fst s)"
proof (cases s)
  case (Pair js' m)
  have "map key (set_job k (\<lambda>j. j\<lparr>j_elapsed := e, j_progress := p\<rparr>) js') = map key js'" for k e p
    unfolding set_job_def by (rule map_upd_last) (simp add: key_def)
  with Pair show ?thesis by (simp add: advance_cell_def Let_def split: option.split)
qed

lemma fold_advance_key: "map key (fst (fold (advance_cell dt) cs s)) = map key (fst s)"
  by (induction cs arbitrary: s) (simp_all add: advance_cell_key)

lemma advance_worker_key: "map key (snd (advance_worker dt w js')) = map key js'"
  using fold_advance_key [of dt _ "(js', 0)"] by (simp add: advance_worker_def Let_def case_prod_beta)

lemma slot_pairs_ids: "slot_pairs w = map (\<lambda>k. (k, Some (w_id w))) (map c_id (w_cells w))"
  by (simp add: slot_pairs_def)

lemma advance_worker_pairs: "slot_pairs (fst (advance_worker dt w js')) = slot_pairs w"
  unfolding slot_pairs_ids advance_worker_frame ..

lemma advance_all:
  "cell_pairs (fst (each_worker (advance_worker dt) ws js')) = cell_pairs ws
   \<and> map key (snd (each_worker (advance_worker dt) ws js')) = map key js'"
  by (induction ws arbitrary: js') (simp_all add: case_prod_beta advance_worker_pairs advance_worker_key)

lemma each_worker_ids:
  assumes "\<And>w js'. w_id (fst (f w js')) = w_id w"
  shows "map w_id (fst (each_worker f ws js')) = map w_id ws"
  by (induction ws arbitrary: js') (simp_all add: case_prod_beta assms)

lemma cell_pairs_sync: "cell_pairs (map (sync_limited rs) ws) = cell_pairs ws"
  by (induction ws) (simp_all add: slot_pairs_def)

subsection \<open>A finished request leaves its cell\<close>

lemma in_cell_pairs: "p \<in> set (cell_pairs ws) \<longleftrightarrow> (\<exists>w \<in> set ws. \<exists>c \<in> set (w_cells w). p = (c_id c, Some (w_id w)))"
  by (auto simp: cell_pairs_def slot_pairs_def)

lemma distinct_fst_inj: "distinct (map fst ps) \<Longrightarrow> (k, a) \<in> set ps \<Longrightarrow> (k, b) \<in> set ps \<Longrightarrow> a = b"
  by (metis eq_key_imp_eq_value)

lemma cell_pairs_release:
  assumes ids: "distinct (map w_id ws)" and ps: "distinct (map fst (cell_pairs ws))"
    and w: "w \<in> set ws" and c: "c \<in> set (w_cells w)"
  shows "cell_pairs (upd_first (\<lambda>v. w_id v = w_id w) (release_cell js' (c_id c)) ws) =
    filter (\<lambda>p. fst p \<noteq> c_id c) (cell_pairs ws)"
proof -
  let ?g = "\<lambda>v. if w_id v = w_id w then release_cell js' (c_id c) v else v"
  have "slot_pairs (?g v) = filter (\<lambda>p. fst p \<noteq> c_id c) (slot_pairs v)" if v: "v \<in> set ws" for v
  proof (cases "w_id v = w_id w")
    case True
    then show ?thesis by (simp add: slot_pairs_def filter_map o_def)
  next
    case False
    have "c_id d \<noteq> c_id c" if d: "d \<in> set (w_cells v)" for d
    proof
      assume eq: "c_id d = c_id c"
      have "(c_id c, Some (w_id w)) \<in> set (cell_pairs ws)" and "(c_id c, Some (w_id v)) \<in> set (cell_pairs ws)"
        using w c v d eq unfolding in_cell_pairs by metis+
      from distinct_fst_inj [OF ps this] False show False by simp
    qed
    with False show ?thesis by (auto simp: slot_pairs_def filter_map o_def intro!: filter_True [symmetric])
  qed
  then have "concat (map slot_pairs (map ?g ws)) = concat (map (filter (\<lambda>p. fst p \<noteq> c_id c)) (map slot_pairs ws))"
    by (simp add: o_def cong: map_cong)
  then show ?thesis
    unfolding upd_first_key [OF ids] cell_pairs_def by (simp add: filter_concat)
qed

lemma run_pairs_set_job:
  assumes "distinct (map j_id js')" and "j_id j' = k" and "j_status j' \<noteq> Running"
  shows "run_pairs (set_job k (\<lambda>_. j') js') = filter (\<lambda>p. fst p \<noteq> k) (run_pairs js')"
  unfolding set_job_def upd_last_key [OF assms(1)]
  using assms(2,3) by (induction js') (auto simp: run_pairs_def)

lemma conclude_frame: "j_id (conclude gen k ok j) = j_id j" "j_status (conclude gen k ok j) \<noteq> Running"
  by (simp_all add: conclude_def Let_def)

definition finish_inv :: "(jstr \<times> jstr \<times> bool) list \<Rightarrow> board \<Rightarrow> bool" where
  "finish_inv fin b \<longleftrightarrow> placed (cell_pairs (b_workers b)) (b_jobs b) \<and> distinct (map w_id (b_workers b))
     \<and> distinct (map (fst \<circ> snd) fin)
     \<and> (\<forall>f \<in> set fin. \<exists>w \<in> set (b_workers b). w_id w = fst (snd f) \<and> fst f \<in> c_id ` set (w_cells w))"

lemma finish_one_placed:
  assumes inv: "finish_inv ((k, wk, ok) # fin) b"
  shows "finish_inv fin (finish_one gen (k, wk, ok) b)
    \<and> map j_id (b_jobs (finish_one gen (k, wk, ok) b)) = map j_id (b_jobs b)"
proof -
  from inv obtain w c where w: "w \<in> set (b_workers b)" and wk: "w_id w = wk"
    and c: "c \<in> set (w_cells w)" and k: "k = c_id c"
    unfolding finish_inv_def by (auto simp: image_iff)
  from inv have ids: "distinct (map w_id (b_workers b))" and pl: "placed (cell_pairs (b_workers b)) (b_jobs b)"
    by (simp_all add: finish_inv_def)
  have "(k, Some wk) \<in> set (run_pairs (b_jobs b))"
    using pl w c wk k unfolding placed_def by (metis in_cell_pairs)
  then obtain j where j: "j \<in> set (b_jobs b)" and jk: "j_id j = k" by (auto simp: run_pairs_def)
  have jobs: "distinct (map j_id (b_jobs b))" using pl by (simp add: placed_def)
  have found: "job_by_id k (b_jobs b) = Some j"
    using last_with_key [OF jobs j] by (simp add: job_by_id_def jk)
  have wfound: "find (\<lambda>v. w_id v = wk) (b_workers b) = Some w"
    using find_key [OF ids w] by (simp add: wk)
  let ?j = "conclude gen k ok j"
  let ?ws = "upd_first (\<lambda>v. w_id v = wk) (release_cell (b_jobs b) k) (b_workers b)"
  have step: "b_workers (finish_one gen (k, wk, ok) b) = ?ws"
    "b_jobs (finish_one gen (k, wk, ok) b) = set_job k (\<lambda>_. ?j) (b_jobs b)"
    by (simp_all add: finish_one_def found wfound Let_def)
  have cells: "cell_pairs ?ws = filter (\<lambda>p. fst p \<noteq> k) (cell_pairs (b_workers b))"
    using cell_pairs_release [OF ids _ w c, of "b_jobs b"] pl unfolding placed_def wk k by simp
  have run: "run_pairs (set_job k (\<lambda>_. ?j) (b_jobs b)) = filter (\<lambda>p. fst p \<noteq> k) (run_pairs (b_jobs b))"
    by (rule run_pairs_set_job [OF jobs]) (simp_all add: conclude_frame jk)
  have jids: "map j_id (set_job k (\<lambda>_. ?j) (b_jobs b)) = map j_id (b_jobs b)"
    unfolding set_job_def upd_last_key [OF jobs] by (simp add: conclude_frame jk)
  have pl': "placed (cell_pairs ?ws) (set_job k (\<lambda>_. ?j) (b_jobs b))"
    unfolding placed_def cells run jids
    using pl distinct_map_filter [of fst "cell_pairs (b_workers b)"] by (simp add: placed_def)
  have wids: "map w_id ?ws = map w_id (b_workers b)" by (rule map_upd_first) simp
  have rest: "\<exists>v \<in> set ?ws. w_id v = fst (snd f) \<and> fst f \<in> c_id ` set (w_cells v)" if f: "f \<in> set fin" for f
  proof -
    from inv f obtain v where v: "v \<in> set (b_workers b)" "w_id v = fst (snd f)" "fst f \<in> c_id ` set (w_cells v)"
      unfolding finish_inv_def by (metis list.set_intros(2))
    moreover have "fst (snd f) \<noteq> wk" using inv f by (auto simp: finish_inv_def image_iff)
    ultimately have "v \<in> set ?ws" unfolding upd_first_key [OF ids] by force
    with v show ?thesis by blast
  qed
  show ?thesis
    unfolding finish_inv_def step using pl' rest inv by (simp add: wids jids finish_inv_def)
qed

lemma fold_finish_placed:
  "finish_inv fin b \<Longrightarrow> finish_inv [] (fold (finish_one gen) fin b)
     \<and> map j_id (b_jobs (fold (finish_one gen) fin b)) = map j_id (b_jobs b)"
proof (induction fin arbitrary: b)
  case (Cons f fin)
  obtain k wk ok where f: "f = (k, wk, ok)" by (cases f)
  from finish_one_placed [OF Cons.prems [unfolded f], of gen] Cons.IH [of "finish_one gen f b"]
  show ?case by (simp add: f)
qed simp

lemma finished_of_worker:
  "finished_of gen js' w = [] \<or> (\<exists>c ok. c \<in> set (w_cells w) \<and> finished_of gen js' w = [(c_id c, w_id w, ok)])"
  by (auto simp: finished_of_def split: option.split dest: find_Some_in)

lemma finished_distinct:
  "distinct (map w_id ws) \<Longrightarrow> distinct (map (fst \<circ> snd) (concat (map (finished_of gen js') ws)))"
proof (induction ws)
  case (Cons w ws)
  have "fst (snd f) \<in> w_id ` set ws" if "f \<in> set (concat (map (finished_of gen js') ws))" for f
  proof -
    from that obtain v where "v \<in> set ws" and "f \<in> set (finished_of gen js' v)" by auto
    with finished_of_worker [of gen js' v] show ?thesis by auto
  qed
  then have "(fst \<circ> snd) ` set (concat (map (finished_of gen js') ws)) \<subseteq> w_id ` set ws" by force
  with Cons.prems have "w_id w \<notin> (fst \<circ> snd) ` set (concat (map (finished_of gen js') ws))" by auto
  with Cons finished_of_worker [of gen js' w] show ?case by (elim disjE exE conjE) simp_all
qed simp

lemma finished_inv:
  assumes "placed (cell_pairs (b_workers b)) (b_jobs b)" and "distinct (map w_id (b_workers b))"
  shows "finish_inv (concat (map (finished_of gen js') (b_workers b))) b"
proof -
  have "\<exists>w \<in> set (b_workers b). w_id w = fst (snd f) \<and> fst f \<in> c_id ` set (w_cells w)"
    if f: "f \<in> set (concat (map (finished_of gen js') (b_workers b)))" for f
  proof -
    from f obtain w where "w \<in> set (b_workers b)" and "f \<in> set (finished_of gen js' w)" by auto
    with finished_of_worker [of gen js' w] show ?thesis by (intro bexI [of _ w]) auto
  qed
  with assms finished_distinct [OF assms(2)] show ?thesis by (simp add: finish_inv_def)
qed

text \<open>The demo's placement before and after the finishing phase.\<close>

lemma finish_phase_placed:
  assumes "placed (cell_pairs (b_workers b)) (b_jobs b)" and "distinct (map w_id (b_workers b))"
  shows "finish_inv [] (finish_phase dt b) \<and> map j_id (b_jobs (finish_phase dt b)) = map j_id (b_jobs b)"
proof -
  define limits where "limits = count_down dt (b_limits b)"
  define adv where "adv = each_worker (advance_worker dt) (map (sync_limited limits) (b_workers b)) (b_jobs b)"
  define b1 where "b1 = (cloneMockInflight b)\<lparr>b_generated := b_generated b + dt, b_limits := limits,
    b_workers := fst adv, b_jobs := snd adv\<rparr>"
  have "cell_pairs (fst adv) = cell_pairs (b_workers b)" and keys: "map key (snd adv) = map key (b_jobs b)"
    using advance_all [of dt "map (sync_limited limits) (b_workers b)" "b_jobs b"]
    by (simp_all add: adv_def cell_pairs_sync)
  then have pl: "placed (cell_pairs (b_workers b1)) (b_jobs b1)" using assms(1)
    by (simp add: b1_def placed_key [OF keys])
  have "map w_id (fst adv) = map w_id (b_workers b)"
    using each_worker_ids [of "advance_worker dt"] by (simp add: adv_def advance_worker_frame o_def)
  then have "distinct (map w_id (b_workers b1))" using assms(2) by (simp add: b1_def)
  from fold_finish_placed [OF finished_inv [OF pl this], of "b_generated b + dt" "b_generated b + dt" "snd adv"]
  moreover have "map j_id (snd adv) = map j_id (b_jobs b)" by (simp only: ids_key keys)
  ultimately show ?thesis
    by (simp add: finish_phase_def Let_def case_prod_beta b1_def adv_def limits_def finish_inv_def)
qed

subsection \<open>A waiting request takes a free cell\<close>

lemma find_waits: "find waits js' = Some j \<Longrightarrow> j \<in> set js' \<and> j_status j = Queued"
  by (auto simp: waits_def dest: find_Some_in)

lemma start_pairs:
  "find waits js' = Some j \<Longrightarrow>
     set (run_pairs (upd_first waits (start_job wk) js')) = insert (j_id j, Some wk) (set (run_pairs js'))"
  by (induction js') (auto simp: run_pairs_simps waits_def start_job_def split: if_splits)

lemma start_ids: "map j_id (upd_first waits (start_job wk) js') = map j_id js'"
  by (rule map_upd_first) (simp add: start_job_def)

lemma waiting_not_running:
  assumes "find waits js' = Some j" and "distinct (map j_id js')"
  shows "j_id j \<notin> fst ` set (run_pairs js')"
proof
  assume "j_id j \<in> fst ` set (run_pairs js')"
  then obtain i where i: "i \<in> set js'" "j_status i = Running" "j_id i = j_id j" by (auto simp: run_pairs_def)
  with find_waits [OF assms(1)] assms(2) have "i = j" by (auto simp: distinct_map dest: inj_onD)
  with i find_waits [OF assms(1)] show False by simp
qed

lemma bind_cell_placed:
  assumes pl: "placed (slot_pairs w @ qs) js'" and j: "find waits js' = Some j"
    and room: "length (w_cells w) < cap"
  shows "placed (slot_pairs (bind_cell now cap j w) @ qs) (upd_first waits (start_job (w_id w)) js')"
proof -
  have new: "j_id j \<notin> fst ` set (slot_pairs w @ qs)"
    using waiting_not_running [OF j] pl by (simp add: placed_def)
  have free: "filter (\<lambda>c. c_id c \<noteq> j_id j) (w_cells w) = w_cells w"
    using new by (intro filter_True) (force simp: slot_pairs_def)
  have "w_cells (bind_cell now cap j w) =
     w_cells w @ [\<lparr>c_id = j_id j, c_name = j_name j, c_started = now, c_elapsed = 0, c_pending = False\<rparr>]"
    using room by (simp add: bind_cell_def Let_def free)
  then have pairs: "slot_pairs (bind_cell now cap j w) = slot_pairs w @ [(j_id j, Some (w_id w))]"
    by (simp add: slot_pairs_def)
  show ?thesis
    using pl new unfolding placed_def pairs start_pairs [OF j] start_ids by (auto simp: image_iff)
qed

lemma fill_worker_placed:
  "placed (slot_pairs w @ qs) js' \<Longrightarrow>
     placed (slot_pairs (fst (fill_worker now cap w js')) @ qs) (snd (fill_worker now cap w js'))
     \<and> map j_id (snd (fill_worker now cap w js')) = map j_id js'"
proof (induction now cap w js' rule: fill_worker.induct)
  case (1 now cap w js')
  show ?case
  proof (cases "length (w_cells w) < cap \<and> find waits js' \<noteq> None")
    case True
    then obtain j where lt: "length (w_cells w) < cap" and j: "find waits js' = Some j" by auto
    from 1(1) [OF lt j bind_cell_placed [OF 1(2) j lt]] start_ids [of "w_id w" js']
    show ?thesis using lt j by (simp add: fill_worker.simps [of now cap w])
  next
    case False
    with 1(2) show ?thesis by (auto simp: fill_worker.simps [of now cap w] split: option.split)
  qed
qed

lemma pull_all_placed:
  "placed (cell_pairs ws @ qs) js' \<Longrightarrow>
     placed (cell_pairs (fst (each_worker (pull_queue now) ws js')) @ qs) (snd (each_worker (pull_queue now) ws js'))
     \<and> map j_id (snd (each_worker (pull_queue now) ws js')) = map j_id js'"
proof (induction ws arbitrary: js' qs)
  case (Cons w ws)
  let ?p = "pull_queue now w js'"
  have "placed (slot_pairs (fst ?p) @ (cell_pairs ws @ qs)) (snd ?p) \<and> map j_id (snd ?p) = map j_id js'"
    using fill_worker_placed [of w "cell_pairs ws @ qs" js' now "slot_cap w"] Cons.prems
    by (simp add: pull_queue_def)
  moreover from this Cons.IH [of "slot_pairs (fst ?p) @ qs" "snd ?p"]
  have "placed (cell_pairs (fst (each_worker (pull_queue now) ws (snd ?p))) @ (slot_pairs (fst ?p) @ qs))
      (snd (each_worker (pull_queue now) ws (snd ?p)))
    \<and> map j_id (snd (each_worker (pull_queue now) ws (snd ?p))) = map j_id (snd ?p)"
    using placed_swap by metis
  ultimately show ?case
    using placed_swap [of "slot_pairs (fst ?p)" "cell_pairs (fst (each_worker (pull_queue now) ws (snd ?p)))" qs]
    by (simp add: case_prod_beta)
qed simp

subsection \<open>Queue order and new requests\<close>

lemma reorder_props:
  assumes "list_all active js'"
  shows "set (reorder js') = set js'" and "set (run_pairs (reorder js')) = set (run_pairs js')"
    and "distinct (map j_id js') \<Longrightarrow> distinct (map j_id (reorder js'))"
proof -
  show elems: "set (reorder js') = set js'"
    using assms by (auto simp: reorder_def Let_def list_all_iff active_def waits_def)
  then show "set (run_pairs (reorder js')) = set (run_pairs js')"
    unfolding run_pairs_def set_map set_filter by simp
  assume d: "distinct (map j_id js')"
  then have "distinct (reorder js')"
    by (auto simp: reorder_def Let_def waits_def distinct_map)
  with d elems show "distinct (map j_id (reorder js'))" by (simp add: distinct_map)
qed

lemma filter_active: "run_pairs (filter active js') = run_pairs js'"
  by (induction js') (auto simp: run_pairs_def active_def)

lemma wait_longer_key: "map key (map (wait_longer dt) js') = map key js'"
  by (induction js') (auto simp: wait_longer_def key_def)

text \<open>\<open>unused q k\<close>: the identifier is none of those generated after the counter's value \<open>q\<close>.\<close>

definition unused :: "int \<Rightarrow> jstr \<Rightarrow> bool" where
  "unused q k \<longleftrightarrow> (\<forall>n > q. k \<noteq> js ''j'' @ dec_digits n)"

lemma unused_next: "unused q k \<Longrightarrow> unused (q + 1) k"
  by (simp add: unused_def)

lemma new_job_frame:
  "j_id (new_job q) = js ''j'' @ dec_digits (q + 1)" "j_status (new_job q) = Queued"
  by (auto simp: new_job_def Let_def split: prod.split)

lemma new_job_unused: "0 \<le> q \<Longrightarrow> unused (q + 1) (j_id (new_job q))"
  by (simp add: unused_def new_job_frame dec_digits_inj)

lemma unused_new: "\<not> unused q (j_id (new_job q))"
  unfolding unused_def new_job_frame by (metis zless_add1_eq)

text \<open>The invariant of the demo: board and counter.\<close>

definition jobs_ok :: "job list \<Rightarrow> int \<Rightarrow> bool" where
  "jobs_ok js' q \<longleftrightarrow> 0 \<le> q \<and> distinct (map j_id js') \<and> (\<forall>j \<in> set js'. unused q (j_id j) \<and> 2 \<le> length (j_id j))"

definition board_ok :: "board \<Rightarrow> int \<Rightarrow> bool" where
  "board_ok b q \<longleftrightarrow> list_all slot_fits (b_workers b) \<and> distinct (map w_id (b_workers b))
     \<and> list_all active (b_jobs b) \<and> placed (cell_pairs (b_workers b)) (b_jobs b) \<and> jobs_ok (b_jobs b) q"

lemma jobs_ok_ids:
  assumes "map j_id js1 = map j_id js2"
  shows "jobs_ok js1 q \<longleftrightarrow> jobs_ok js2 q"
proof -
  have "(\<forall>j \<in> set js'. unused q (j_id j) \<and> 2 \<le> length (j_id j)) \<longleftrightarrow>
      (\<forall>k \<in> set (map j_id js'). unused q k \<and> 2 \<le> length k)" for js' by simp
  with assms show ?thesis unfolding jobs_ok_def by metis
qed

lemma jobs_ok_filter: "jobs_ok js' q \<Longrightarrow> jobs_ok (filter P js') q"
  by (simp add: jobs_ok_def distinct_map_filter)

lemma enqueue_ok:
  assumes "jobs_ok js' q" and "placed ps js'" and "list_all active js'"
  shows "jobs_ok (fst (enqueue gen dt (js', q))) (snd (enqueue gen dt (js', q)))
    \<and> placed ps (fst (enqueue gen dt (js', q))) \<and> list_all active (fst (enqueue gen dt (js', q)))"
proof -
  have fresh: "j_id (new_job q) \<notin> j_id ` set js'"
    using assms(1) unused_new [of q] by (auto simp: jobs_ok_def)
  have "2 \<le> length (j_id (new_job q))"
    using dec_digits_not_Nil [of "q + 1"] by (simp add: new_job_frame Suc_le_eq)
  with fresh assms(1) have "jobs_ok (js' @ [new_job q]) (q + 1)"
    by (auto simp: jobs_ok_def new_job_unused unused_next)
  moreover from fresh assms(2) have "placed ps (js' @ [new_job q])"
    by (simp add: placed_def run_pairs_def new_job_frame)
  ultimately show ?thesis
    using assms by (simp add: enqueue_def active_def new_job_frame)
qed

lemma enqueue_seq: "snd (enqueue gen dt (js', q)) = q \<or> snd (enqueue gen dt (js', q)) = q + 1"
  by (simp add: enqueue_def)

lemma start_active: "list_all active js' \<Longrightarrow> list_all active (upd_first waits (start_job wk) js')"
  by (induction js') (auto simp: active_def start_job_def)

lemma fill_active: "list_all active js' \<Longrightarrow> list_all active (snd (fill_worker now cap w js'))"
proof (induction now cap w js' rule: fill_worker.induct)
  case (1 now cap w js')
  then show ?case
    by (simp add: fill_worker.simps [of now cap w] start_active split: option.split)
qed

lemma pull_all_active: "list_all active js' \<Longrightarrow> list_all active (snd (each_worker (pull_queue now) ws js'))"
  by (induction ws arbitrary: js') (simp_all add: case_prod_beta pull_queue_def fill_active)

lemma pull_worker_id: "w_id (fst (pull_queue now w js')) = w_id w"
proof -
  have "w_id (fst (fill_worker now cap w js')) = w_id w" for cap
    by (induction now cap w js' rule: fill_worker.induct)
      (simp add: fill_worker.simps split: option.split)
  then show ?thesis by (simp add: pull_queue_def)
qed

lemma tick_ok:
  assumes ok: "board_ok b q"
  shows "board_ok (fst (tickMockInflight now ms (b, q))) (snd (tickMockInflight now ms (b, q)))"
proof -
  define b1 where "b1 = finish_phase (clamp_dt ms) b"
  define wait where "wait = map (wait_longer (clamp_dt ms)) (filter active (b_jobs b1))"
  define p where "p = each_worker (pull_queue now) (b_workers b1) wait"
  define en where "en = enqueue (b_generated b1) (clamp_dt ms) (snd p, q)"
  have tick: "b_workers (fst (tickMockInflight now ms (b, q))) = fst p"
    "b_jobs (fst (tickMockInflight now ms (b, q))) = reorder (fst en)"
    "snd (tickMockInflight now ms (b, q)) = snd en"
    using tick_parts [OF b1_def [symmetric] wait_def [symmetric] p_def [symmetric] en_def [symmetric]] by blast+
  from ok have "finish_inv [] b1" and ids: "map j_id (b_jobs b1) = map j_id (b_jobs b)"
    using finish_phase_placed [of b "clamp_dt ms"] by (simp_all add: board_ok_def b1_def)
  then have pl: "placed (cell_pairs (b_workers b1)) (b_jobs b1)" and wids: "distinct (map w_id (b_workers b1))"
    by (simp_all add: finish_inv_def)
  have "jobs_ok (b_jobs b1) q" using ok jobs_ok_ids [OF ids] by (simp add: board_ok_def)
  then have jobs: "jobs_ok wait q"
    using jobs_ok_filter jobs_ok_ids [of wait "filter active (b_jobs b1)" q]
    by (simp add: wait_def ids_key wait_longer_key del: map_map)
  have act: "list_all active wait"
    by (auto simp: wait_def list_all_iff active_def wait_longer_def)
  have "placed (cell_pairs (b_workers b1)) (filter active (b_jobs b1))"
    using pl by (simp add: placed_def filter_active distinct_map_filter)
  then have "placed (cell_pairs (b_workers b1) @ []) wait"
    using placed_key [OF wait_longer_key] by (simp add: wait_def)
  from pull_all_placed [OF this, of now] have "placed (cell_pairs (fst p)) (snd p)"
    and pids: "map j_id (snd p) = map j_id wait"
    by (simp_all add: p_def)
  with jobs act have en: "jobs_ok (fst en) (snd en)" "placed (cell_pairs (fst p)) (fst en)" "list_all active (fst en)"
    using enqueue_ok [of "snd p" q "cell_pairs (fst p)" "b_generated b1" "clamp_dt ms"] jobs_ok_ids [OF pids]
      pull_all_active [OF act, of now "b_workers b1"] by (simp_all add: en_def p_def)
  have "list_all active (reorder (fst en))" "jobs_ok (reorder (fst en)) (snd en)"
    "placed (cell_pairs (fst p)) (reorder (fst en))"
    using en reorder_props [OF en(3)] by (simp_all add: list_all_iff jobs_ok_def placed_def)
  moreover have "distinct (map w_id (fst p))"
    using wids each_worker_ids [of "pull_queue now", OF pull_worker_id] by (simp add: p_def)
  moreover have "list_all slot_fits (fst p)"
    using tick_fits [of b now ms q] ok by (simp add: tick board_ok_def)
  ultimately show ?thesis by (simp add: board_ok_def tick)
qed

section \<open>Every board of the demo\<close>

text \<open>The boards and counters the demo goes through: the seed, put back at any time, and frames.\<close>

inductive demo_reachable :: "board \<Rightarrow> int \<Rightarrow> bool" where
  seed: "demo_reachable getMockInflightSnapshot initial_seq"
| again: "demo_reachable b q \<Longrightarrow> demo_reachable getMockInflightSnapshot q"
| frame: "demo_reachable b q \<Longrightarrow> tickMockInflight now ms (b, q) = (b', q') \<Longrightarrow> demo_reachable b' q'"

lemma unused_seed:
  assumes "k \<in> set [''1'', ''1b'', ''1c'', ''2'', ''3'', ''4'', ''4b'', ''5'', ''6'', ''7'', ''8'', ''9'', ''10'', ''11'', ''12'']"
    and "100 \<le> q"
  shows "unused q (js ''j'' @ js k)"
proof -
  have "list_all (\<lambda>k. dec_val (js k) < 100)
     [''1'', ''1b'', ''1c'', ''2'', ''3'', ''4'', ''4b'', ''5'', ''6'', ''7'', ''8'', ''9'', ''10'', ''11'', ''12'']"
    by code_simp
  then have "dec_val (js k) < 100" using assms(1) unfolding list_all_iff by (rule bspec)
  moreover have "dec_val (dec_digits n) = n" if "q < n" for n using that assms(2) by (simp add: dec_val_dec_digits)
  ultimately show ?thesis using assms(2) by (auto simp: unused_def)
qed

lemma seed_ok: "100 \<le> q \<Longrightarrow> board_ok getMockInflightSnapshot q"
proof -
  assume q: "100 \<le> q"
  have fits: "list_all slot_fits MOCK_WORKERS"
    by (simp add: MOCK_WORKERS_def seed_slot_def slot_fits_def slot_cap_def clampSlotConcurrency_def)
  have wids: "distinct (map w_id MOCK_WORKERS)"
    by (simp add: MOCK_WORKERS_def seed_slot_def)
  have act: "list_all active MOCK_JOBS"
    by (simp add: MOCK_JOBS_def seed_running_def seed_queued_def active_def)
  have jids: "distinct (map j_id MOCK_JOBS)"
    by (simp add: MOCK_JOBS_def seed_running_def seed_queued_def)
  have run: "run_pairs MOCK_JOBS = cell_pairs MOCK_WORKERS"
    by (simp add: MOCK_JOBS_def MOCK_WORKERS_def seed_running_def seed_queued_def seed_slot_def seed_cell_def
        run_pairs_def slot_pairs_def)
  have "distinct (map fst (run_pairs MOCK_JOBS))"
    using jids by (simp add: run_pairs_def o_def distinct_map_filter)
  then have pl: "placed (cell_pairs MOCK_WORKERS) MOCK_JOBS"
    using run jids by (simp add: placed_def)
  have "map j_id MOCK_JOBS = map (\<lambda>k. js ''j'' @ js k) [''1'', ''1b'', ''1c'', ''2'', ''3'', ''4'', ''4b'', ''5'', ''6'',
      ''7'', ''8'', ''9'', ''10'', ''11'', ''12'']"
    by (simp add: MOCK_JOBS_def seed_running_def seed_queued_def flip: js_append)
  then have names: "j_id ` set MOCK_JOBS = (\<lambda>k. js ''j'' @ js k) ` set [''1'', ''1b'', ''1c'', ''2'', ''3'', ''4'', ''4b'', ''5'',
      ''6'', ''7'', ''8'', ''9'', ''10'', ''11'', ''12'']"
    unfolding set_map [symmetric] by (rule arg_cong)
  have "unused q (j_id j) \<and> 2 \<le> length (j_id j)" if j: "j \<in> set MOCK_JOBS" for j
  proof -
    from j names obtain k where k: "k \<in> set [''1'', ''1b'', ''1c'', ''2'', ''3'', ''4'', ''4b'', ''5'', ''6'', ''7'',
        ''8'', ''9'', ''10'', ''11'', ''12'']" and "j_id j = js ''j'' @ js k" by blast
    moreover from k have "k \<noteq> []" by auto
    ultimately show ?thesis using unused_seed [OF k q] by (simp add: Suc_le_eq)
  qed
  with fits wids act jids pl q show ?thesis
    by (simp add: board_ok_def jobs_ok_def getMockInflightSnapshot_def cloneMockInflight_def MOCK_INFLIGHT_def)
qed

lemma demo_ok: "demo_reachable b q \<Longrightarrow> board_ok b q \<and> 100 \<le> q"
proof (induction rule: demo_reachable.induct)
  case seed
  show ?case using seed_ok [of initial_seq] by (simp add: initial_seq_def)
next
  case (again b q)
  then show ?case using seed_ok by simp
next
  case (frame b q now ms b' q')
  have "q' = q \<or> q' = q + 1"
    using frame(2) enqueue_seq by (auto simp: tickMockInflight_def Let_def case_prod_beta)
  with frame tick_ok [of b q now ms] show ?case by auto
qed

lemma occupied_pairs: "list_all slot_fits ws \<Longrightarrow> sum_list (map slot_occupied ws) = int (length (cell_pairs ws))"
  by (induction ws) (simp_all add: slot_occupied_def slot_fits_def slot_pairs_def)

lemma placed_sets:
  assumes "placed (cell_pairs ws) js'"
  shows "{(j_id j, j_account j) | j. j \<in> set js' \<and> j_status j = Running}
    = {(c_id c, Some (w_id w)) | w c. w \<in> set ws \<and> c \<in> set (w_cells w)}"
proof -
  have "set (run_pairs js') = {(j_id j, j_account j) | j. j \<in> set js' \<and> j_status j = Running}"
    by (auto simp: run_pairs_def)
  moreover have "set (cell_pairs ws) = {(c_id c, Some (w_id w)) | w c. w \<in> set ws \<and> c \<in> set (w_cells w)}"
    by (auto simp: cell_pairs_def slot_pairs_def)
  ultimately show ?thesis using assms by (simp add: placed_def)
qed

lemma placed_count:
  assumes "placed (cell_pairs ws) js'"
  shows "length (filter (\<lambda>j. j_status j = Running) js') = length (concat (map w_cells ws))"
proof -
  from assms have "distinct (map fst (run_pairs js'))"
    by (simp add: placed_def run_pairs_def o_def distinct_map_filter)
  then have "length (run_pairs js') = length (cell_pairs ws)"
    using assms unfolding placed_def by (metis distinct_card distinct_map)
  moreover have "length (cell_pairs ws) = length (concat (map w_cells ws))"
    by (induction ws) (simp_all add: slot_pairs_def)
  ultimately show ?thesis by (simp add: run_pairs_def)
qed

lemma cell_ids: "map fst (cell_pairs ws) = concat (map (\<lambda>w. map c_id (w_cells w)) ws)"
  by (induction ws) (simp_all add: slot_pairs_def)

text \<open>
  C23: The demo never disagrees with itself: however many frames of whatever length have passed, and however often
  it was restarted, the running requests, each with its account, are exactly the requests that occupy the cells
  of the accounts; no account holds more cells than its capacity; no request stands twice on the board or in
  the cells; and the two counts of the summary, of running requests and of occupied slots, are the number of
  those cells.
\<close>

theorem demo_slots_agree:
  assumes "demo_reachable b q"
  shows "{(j_id j, j_account j) | j. j \<in> set (b_jobs b) \<and> j_status j = Running}
      = {(c_id c, Some (w_id w)) | w c. w \<in> set (b_workers b) \<and> c \<in> set (w_cells w)}
    \<and> (\<forall>w \<in> set (b_workers b). length (w_cells w) \<le> slot_cap w)
    \<and> distinct (map j_id (b_jobs b))
    \<and> distinct (concat (map (\<lambda>w. map c_id (w_cells w)) (b_workers b)))
    \<and> s_running (summarizeMockInflight b) = length (concat (map w_cells (b_workers b)))
    \<and> s_occupied (summarizeMockInflight b) = int (length (concat (map w_cells (b_workers b))))"
proof -
  from demo_ok [OF assms] have fits: "list_all slot_fits (b_workers b)"
    and pl: "placed (cell_pairs (b_workers b)) (b_jobs b)" by (auto simp: board_ok_def)
  have "length (cell_pairs (b_workers b)) = length (concat (map w_cells (b_workers b)))"
    by (simp add: cell_pairs_def slot_pairs_def length_concat o_def)
  then have "s_occupied (summarizeMockInflight b) = int (length (concat (map w_cells (b_workers b))))"
    by (simp add: summarizeMockInflight_def occupied_pairs [OF fits])
  moreover have "s_running (summarizeMockInflight b) = length (concat (map w_cells (b_workers b)))"
    by (simp only: summarizeMockInflight_def summary.simps placed_count [OF pl])
  moreover have "distinct (concat (map (\<lambda>w. map c_id (w_cells w)) (b_workers b)))" "distinct (map j_id (b_jobs b))"
    using pl by (simp_all add: placed_def flip: cell_ids)
  moreover have "\<forall>w \<in> set (b_workers b). length (w_cells w) \<le> slot_cap w"
    using fits by (simp add: list_all_iff slot_fits_def)
  ultimately show ?thesis using placed_sets [OF pl] by (simp only: simp_thms)
qed

theorem demo_slots_agree_witness:
  "s_occupied (summarizeMockInflight (fst (tickMockInflight (\<lambda>_. 0) 300 (getMockInflightSnapshot, initial_seq))))
     = int (length (concat (map w_cells
         (b_workers (fst (tickMockInflight (\<lambda>_. 0) 300 (getMockInflightSnapshot, initial_seq)))))))"
  using demo_slots_agree [OF demo_reachable.frame [OF demo_reachable.seed prod.collapse [symmetric]]] by simp

end
