(* ===== verification/Front_Live.thy ===== *)
theory Front_Live
  imports Front_Inflight
begin

text \<open>
  The board from live data: \<open>applyLiveProjection\<close> and \<open>liveHasSignal\<close> of
  \<open>frontend/src/lib/mockInflight.ts\<close>. The clock reading and \<open>Date.parse\<close> are parameters. Lists that
  the answer of the server may lack are empty lists, as the code reads them (\<open>?? []\<close>).
\<close>

section \<open>Live data\<close>

record live_worker =
  lw_id :: jstr
  lw_name :: jstr
  lw_provider :: jstr
  lw_busy :: bool
  lw_progress :: rat
  lw_limited :: bool
  lw_max :: "jsnum option"
  lw_in_flight :: "jsnum option"
  lw_started :: "jstr option"
  lw_error :: "jstr option"

record live_completion =
  lc_request :: "jstr option"
  lc_account :: jstr
  lc_status :: jstr

record live_limit =
  ll_id :: jstr
  ll_label :: jstr
  ll_remaining :: rat

record live_sticky =
  ls_bindings :: rat
  ls_hits :: rat
  ls_misses :: rat
  ls_capacity :: rat
  ls_ttl :: rat
  ls_escapes :: "rat option"

record live_job =
  lj_id :: jstr
  lj_name :: jstr
  lj_status :: jstr
  lj_started :: "jstr option"
  lj_account :: "jstr option"

record live_input =
  li_in_flight :: rat
  li_rpm :: rat
  li_workers :: "live_worker list"
  li_limits :: "live_limit list"
  li_sticky :: live_sticky
  li_recent :: "live_completion list"
  li_queue :: "live_job list"
  li_occupancy :: "live_job list"

section \<open>The projection\<close>

definition live_limits :: "live_limit list \<Rightarrow> rate_window list" where
  "live_limits ls = map (\<lambda>(i, r).
     let from = min (86 / 100) (rat_rem (of_nat i * (22 / 100)) (86 / 100)) in
     \<lparr>r_id = ll_id r, r_label = ll_label r, r_remaining = max 0 (ll_remaining r), r_from = from,
      r_until = min 1 (from + 14 / 100)\<rparr>) (enumerate 0 ls)"

text \<open>\<open>parseStarted\<close>, which the queue writes out again: the given time, else the previous one, else a default.\<close>

definition parse_started :: "(jstr \<Rightarrow> rat option) \<Rightarrow> jstr option \<Rightarrow> rat option \<Rightarrow> rat \<Rightarrow> rat" where
  "parse_started parse raw prev fallback =
     (let t = trim (str_or_empty raw) in
      case (if t = [] then None else parse t) of
        Some ms \<Rightarrow> ms
      | None \<Rightarrow> opt_or prev fallback)"

definition name_or_id :: "live_job \<Rightarrow> jstr" where
  "name_or_id q = (if trim (lj_name q) = [] then trim (lj_id q) else trim (lj_name q))"

definition started_of :: "job option \<Rightarrow> rat option" where
  "started_of p = (case p of None \<Rightarrow> None | Some j \<Rightarrow> j_started j)"

definition queued_job :: "(jstr \<Rightarrow> rat option) \<Rightarrow> rat \<Rightarrow> job list \<Rightarrow> live_job \<Rightarrow> job" where
  "queued_job parse now prevs q =
     (let k = trim (lj_id q);
          started = parse_started parse (lj_started q) (started_of (job_by_id k prevs)) now in
      \<lparr>j_id = k, j_name = name_or_id q, j_kind = Chat, j_status = Queued,
       j_account = str_opt (trim (str_or_empty (lj_account q))), j_progress = 0,
       j_elapsed = max 0 (now - started), j_started = Some started, j_sticky = False,
       j_priority = None, j_attempt = None\<rparr>)"

text \<open>\<open>dwellNameByAccount.get(acc)\<close>: the first waiting request bound to the account.\<close>

definition dwell_name :: "job list \<Rightarrow> jstr \<Rightarrow> jstr option" where
  "dwell_name queued acc =
     (case find (\<lambda>q. acc \<noteq> [] \<and> trim (str_or_empty (j_account q)) = acc \<and> j_name q \<noteq> []) queued of
        None \<Rightarrow> None | Some q \<Rightarrow> Some (j_name q))"

definition occupancy_of :: "live_job list \<Rightarrow> jstr \<Rightarrow> live_job list" where
  "occupancy_of occ acc =
     filter (\<lambda>o'. acc \<noteq> [] \<and> trim (str_or_empty (lj_account o')) = acc \<and> trim (lj_id o') \<noteq> []) occ"

definition prev_cells :: "slot list \<Rightarrow> jstr \<Rightarrow> cell list" where
  "prev_cells ws acc =
     (case last_with (\<lambda>w. w_id w = acc \<and> w_cells w \<noteq> []) ws of None \<Rightarrow> [] | Some w \<Rightarrow> w_cells w)"

definition cell_by_id :: "jstr \<Rightarrow> cell list \<Rightarrow> cell option" where
  "cell_by_id k = last_with (\<lambda>c. c_id c = k)"

definition bound_cell ::
  "(jstr \<Rightarrow> rat option) \<Rightarrow> rat \<Rightarrow> job list \<Rightarrow> cell list \<Rightarrow> jstr list \<Rightarrow> live_job \<Rightarrow> cell" where
  "bound_cell parse now prevs cells waiting o' =
     (let k = trim (lj_id o');
          prev = (case cell_by_id k cells of Some c \<Rightarrow> Some (c_started c) | None \<Rightarrow> started_of (job_by_id k prevs));
          started = parse_started parse (lj_started o') prev now in
      \<lparr>c_id = k, c_name = name_or_id o', c_started = started, c_elapsed = max 0 (now - started),
       c_pending = (k \<in> set waiting)\<rparr>)"

definition synth_id :: "jstr \<Rightarrow> nat \<Rightarrow> jstr" where
  "synth_id acc i = (if i = 0 then js ''live-'' @ acc else js ''live-'' @ acc @ js ''-'' @ dec_digits (int i))"

definition synth_cell :: "rat \<Rightarrow> rat \<Rightarrow> cell list \<Rightarrow> jstr \<Rightarrow> live_worker \<Rightarrow> nat \<Rightarrow> cell" where
  "synth_cell now account_started cells name w i =
     (let prev = or_else (cell_by_id (synth_id (lw_id w) i) cells) (if i < length cells then Some (cells ! i) else None);
          started = (case prev of None \<Rightarrow> account_started | Some c \<Rightarrow> c_started c) in
      \<lparr>c_id = synth_id (lw_id w) i, c_name = name, c_started = started, c_elapsed = max 0 (now - started),
       c_pending = False\<rparr>)"

definition live_cap :: "live_worker \<Rightarrow> nat" where
  "live_cap w = clampSlotConcurrency (Some (opt_or (lw_max w) (Fin 4)))"

definition live_count :: "live_worker \<Rightarrow> nat" where
  "live_count w = min (live_cap w)
     (case lw_in_flight w of
        Some (Fin q) \<Rightarrow> nat (max 0 \<lfloor>q\<rfloor>)
      | _ \<Rightarrow> if lw_busy w then 1 else 0)"

definition live_cells :: "(jstr \<Rightarrow> rat option) \<Rightarrow> rat \<Rightarrow> board \<Rightarrow> live_input \<Rightarrow> job list \<Rightarrow> live_worker \<Rightarrow> cell list" where
  "live_cells parse now base live queued w =
     (let prevs = prev_cells (b_workers base) (lw_id w);
          bound = take (live_count w)
            (map (bound_cell parse now (b_jobs base) prevs (map j_id queued)) (occupancy_of (li_occupancy live) (lw_id w)));
          first = find (\<lambda>v. lw_id v = lw_id w) (li_workers live);
          account_started = parse_started parse (case first of None \<Rightarrow> None | Some v \<Rightarrow> lw_started v) None now
      in bound @ map (synth_cell now account_started prevs (opt_or (dwell_name queued (lw_id w)) (lw_name w)) w)
           [length bound..<live_count w])"

definition live_slot :: "(jstr \<Rightarrow> rat option) \<Rightarrow> rat \<Rightarrow> board \<Rightarrow> live_input \<Rightarrow> job list \<Rightarrow> live_worker \<Rightarrow> slot" where
  "live_slot parse now base live queued w =
     (let cells = live_cells parse now base live queued w; busy = (lw_busy w \<or> 0 < live_count w) in
      \<lparr>w_id = lw_id w, w_name = lw_name w, w_provider = lw_provider w, w_busy = busy,
       w_progress = (if busy then max (4 / 100) (min 1 (lw_progress w)) else 0),
       w_job = (case cells of [] \<Rightarrow> None | c # _ \<Rightarrow> Some (c_id c)),
       w_limited = lw_limited w, w_concurrency = Some (Fin (of_nat (live_cap w))),
       w_in_flight = Some (of_nat (live_count w)), w_cells = cells\<rparr>)"

definition running_job :: "job list \<Rightarrow> slot \<Rightarrow> cell \<Rightarrow> job" where
  "running_job prevs w c =
     \<lparr>j_id = c_id c, j_name = c_name c,
      j_kind = (case job_by_id (c_id c) prevs of None \<Rightarrow> Chat | Some j \<Rightarrow> j_kind j),
      j_status = Running, j_account = Some (w_id w), j_progress = w_progress w,
      j_elapsed = c_elapsed c, j_started = Some (c_started c), j_sticky = False, j_priority = None,
      j_attempt = None\<rparr>"

definition running_jobs :: "job list \<Rightarrow> jstr list \<Rightarrow> slot list \<Rightarrow> job list" where
  "running_jobs prevs waiting ws =
     concat (map (\<lambda>w. map (running_job prevs w) (filter (\<lambda>c. c_id c \<notin> set waiting) (w_cells w))) ws)"

subsection \<open>The depth series\<close>

definition depth_samples :: nat where
  "depth_samples = max 1 (length (b_depth MOCK_INFLIGHT))"

definition prior_is_live :: "board \<Rightarrow> bool" where
  "prior_is_live base \<longleftrightarrow> b_wait_p95 base = 0"

definition pad_front :: "nat \<Rightarrow> rat list \<Rightarrow> rat list" where
  "pad_front n xs = replicate (n - length xs) 0 @ xs"

definition last_n :: "nat \<Rightarrow> 'a list \<Rightarrow> 'a list" where
  "last_n n xs = drop (length xs - n) xs"

definition live_depth :: "board \<Rightarrow> rat \<Rightarrow> rat list" where
  "live_depth base in_flight =
     last_n depth_samples (pad_front depth_samples
       ((if prior_is_live base then drop 1 (b_depth base) else replicate (depth_samples - 1) 0) @ [max 0 in_flight]))"

subsection \<open>Finished requests\<close>

definition completion_ok :: "live_completion \<Rightarrow> bool" where
  "completion_ok c \<longleftrightarrow> trim (lc_status c) = js ''ok''"

text \<open>The two tables of the finishes: by request, and in order by account.\<close>

type_synonym pending = "(jstr \<times> bool) list \<times> (jstr \<times> bool list) list"

definition note_finish :: "live_completion \<Rightarrow> pending \<Rightarrow> pending" where
  "note_finish c s = (case s of (pr, pa) \<Rightarrow>
     let ok = completion_ok c; rid = trim (str_or_empty (lc_request c)); acc = trim (lc_account c) in
     ((if rid = [] then pr else aput rid ok pr),
      (if acc = [] then pa else aput acc (opt_or (map_of pa acc) [] @ [ok]) pa)))"

definition pending_of :: "live_completion list \<Rightarrow> pending" where
  "pending_of cs = fold note_finish cs ([], [])"

definition strip_live :: "jstr \<Rightarrow> jstr" where
  "strip_live k = (if starts_with (js ''live-'') k then drop 5 k else k)"

definition account_of :: "job \<Rightarrow> jstr" where
  "account_of j = trim (if str_or_empty (j_account j) = [] then strip_live (j_id j) else str_or_empty (j_account j))"

definition account_failed :: "live_input \<Rightarrow> jstr \<Rightarrow> bool" where
  "account_failed live acc = (case find (\<lambda>w. lw_id w = acc) (li_workers live) of
     None \<Rightarrow> False | Some w \<Rightarrow> trim (str_or_empty (lw_error w)) \<noteq> [])"

definition outcome_of :: "live_input \<Rightarrow> job \<Rightarrow> pending \<Rightarrow> bool \<times> pending" where
  "outcome_of live j s = (case s of (pr, pa) \<Rightarrow>
     (case map_of pr (j_id j) of
        Some ok \<Rightarrow> (ok, (filter (\<lambda>p. fst p \<noteq> j_id j) pr, pa))
      | None \<Rightarrow>
          (case map_of pa (account_of j) of
             Some (ok # oks) \<Rightarrow> (ok, (pr, aput (account_of j) oks pa))
           | _ \<Rightarrow> (\<not> account_failed live (account_of j), (pr, pa)))))"

fun completions_of :: "live_input \<Rightarrow> job list \<Rightarrow> pending \<Rightarrow> completion list" where
  "completions_of live [] s = []"
| "completions_of live (j # js') s =
     (let (ok, s') = outcome_of live j s in
      \<lparr>f_id = j_id j, f_name = j_name j, f_kind = j_kind j, f_ok = ok\<rparr> # completions_of live js' s')"

definition gone :: "jstr list \<Rightarrow> job \<Rightarrow> bool" where
  "gone still j \<longleftrightarrow> j_status j = Running \<and> j_id j \<notin> set still"

subsection \<open>Session totals\<close>

definition count_by :: "bool list \<Rightarrow> int \<times> int \<Rightarrow> int \<times> int" where
  "count_by oks t = (fst t + int (length (filter id oks)), snd t + int (length (filter Not oks)))"

definition live_totals :: "board \<Rightarrow> live_input \<Rightarrow> completion list \<Rightarrow> int \<times> int" where
  "live_totals base live cs =
     (if prior_is_live base then
        count_by (if li_recent live \<noteq> [] then map completion_ok (li_recent live) else map f_ok cs)
          (b_done base, b_failed base)
      else (0, 0))"

definition applyLiveProjection :: "(jstr \<Rightarrow> rat option) \<Rightarrow> rat \<Rightarrow> board \<Rightarrow> live_input \<Rightarrow> board" where
  "applyLiveProjection parse now base live =
     (let queued = map (queued_job parse now (b_jobs base)) (li_queue live);
          ws = map (live_slot parse now base live queued) (li_workers live);
          jobs = running_jobs (b_jobs base) (map j_id queued) ws @ queued;
          cs = completions_of live (filter (gone (map j_id jobs)) (b_jobs base)) (pending_of (li_recent live));
          totals = live_totals base live cs in
      \<lparr>b_jobs = jobs, b_workers = ws, b_limits = live_limits (li_limits live),
       b_depth = live_depth base (li_in_flight live), b_backpressure = b_backpressure base,
       b_done = fst totals, b_failed = snd totals, b_throughput = max 0 (li_rpm live), b_wait_p95 = 0,
       b_generated = now, b_completions = cs\<rparr>)"

definition liveHasSignal :: "live_input \<Rightarrow> bool" where
  "liveHasSignal live \<longleftrightarrow> li_workers live \<noteq> [] \<or> li_limits live \<noteq> [] \<or> 0 < li_in_flight live
     \<or> li_queue live \<noteq> [] \<or> li_occupancy live \<noteq> [] \<or> 0 < ls_bindings (li_sticky live)"

section \<open>Lemmas\<close>

lemma clamp_clamp: "clampSlotConcurrency (Some (Fin (of_nat (clampSlotConcurrency n)))) = clampSlotConcurrency n"
  using clampSlotConcurrency_bounds [of n] by (simp add: clampSlotConcurrency_def [of "Some (Fin (of_nat (clampSlotConcurrency n)))"])

lemma length_live_cells: "length (live_cells parse now base live queued w) = live_count w"
  by (simp add: live_cells_def Let_def)

lemma live_slot_fits: "slot_fits (live_slot parse now base live queued w)"
  by (simp add: slot_fits_def live_slot_def Let_def length_live_cells slot_cap_def live_cap_def clamp_clamp)
    (simp add: live_count_def live_cap_def)

lemma live_fits: "list_all slot_fits (b_workers (applyLiveProjection parse now base live))"
  by (simp add: applyLiveProjection_def Let_def list_all_iff live_slot_fits)

lemma length_last_pad: "length (last_n n (pad_front n xs)) = n"
  by (simp add: last_n_def pad_front_def)

lemma length_live_depth: "length (live_depth base q) = depth_samples"
  by (simp add: live_depth_def length_last_pad)

lemma completions_ids: "map f_id (completions_of live js' s) = map j_id js'"
  by (induction js' arbitrary: s) (simp_all add: case_prod_beta)

lemma count_by_mono: "fst t \<le> fst (count_by oks t)" "snd t \<le> snd (count_by oks t)"
  by (simp_all add: count_by_def)

lemma count_by_total: "fst (count_by oks t) + snd (count_by oks t) = fst t + snd t + int (length oks)"
proof -
  have "length (filter id oks) + length (filter Not oks) = length oks"
    using sum_length_filter_compl [of id oks] by (simp add: comp_def id_def)
  then show ?thesis by (simp add: count_by_def)
qed

text \<open>Running jobs and cells.\<close>

lemma in_running_jobs:
  "j \<in> set (running_jobs prevs waiting ws) \<longleftrightarrow>
     (\<exists>w \<in> set ws. \<exists>c \<in> set (w_cells w). c_id c \<notin> set waiting \<and> j = running_job prevs w c)"
  by (auto simp: running_jobs_def)

lemma running_job_frame [simp]:
  "j_id (running_job prevs w c) = c_id c" "j_status (running_job prevs w c) = Running"
  "j_account (running_job prevs w c) = Some (w_id w)"
  by (simp_all add: running_job_def)

lemma queued_job_frame [simp]: "j_status (queued_job parse now prevs q) = Queued"
  by (simp add: queued_job_def Let_def)

lemma live_parts:
  "b_jobs (applyLiveProjection parse now base live) =
     running_jobs (b_jobs base) (map j_id (map (queued_job parse now (b_jobs base)) (li_queue live)))
       (b_workers (applyLiveProjection parse now base live))
     @ map (queued_job parse now (b_jobs base)) (li_queue live)"
  "b_depth (applyLiveProjection parse now base live) = live_depth base (li_in_flight live)"
  "b_wait_p95 (applyLiveProjection parse now base live) = 0"
  "b_completions (applyLiveProjection parse now base live) =
     completions_of live (filter (gone (map j_id (b_jobs (applyLiveProjection parse now base live)))) (b_jobs base))
       (pending_of (li_recent live))"
  "(b_done (applyLiveProjection parse now base live), b_failed (applyLiveProjection parse now base live)) =
     live_totals base live (b_completions (applyLiveProjection parse now base live))"
  by (simp_all add: applyLiveProjection_def Let_def)

lemma running_set:
  "{(j_id j, j_account j) | j. j \<in> set (running_jobs prevs waiting ws @ map (queued_job parse now prevs) qs)
      \<and> j_status j = Running} =
   {(c_id c, Some (w_id w)) | w c. w \<in> set ws \<and> c \<in> set (w_cells w) \<and> c_id c \<notin> set waiting}"
  (is "?L = ?R")
proof (rule equalityI; rule subsetI)
  fix p assume "p \<in> ?L"
  then show "p \<in> ?R" by (auto simp: in_running_jobs) blast
next
  fix p assume "p \<in> ?R"
  then obtain w c where w: "w \<in> set ws" "c \<in> set (w_cells w)" "c_id c \<notin> set waiting"
    and p: "p = (c_id c, Some (w_id w))" by auto
  then have "running_job prevs w c \<in> set (running_jobs prevs waiting ws)" unfolding in_running_jobs by blast
  with p show "p \<in> ?L" by (intro CollectI exI [of _ "running_job prevs w c"]) simp
qed

lemma queued_set:
  "{j_id j | j. j \<in> set (running_jobs prevs waiting ws @ map (queued_job parse now prevs) qs) \<and> j_status j = Queued} =
   (\<lambda>q. j_id (queued_job parse now prevs q)) ` set qs"
  by (auto simp: in_running_jobs)

section \<open>What the projected board shows\<close>

text \<open>
  C24: The projected board is consistent for every answer of the server and every earlier board: each
  slot has exactly as many cells as requests in flight, at most its capacity; every running
  request is the one of a cell of its account and none of those still shown as waiting; every
  cell's request is on the board; and the depth series has its full length.
\<close>

theorem live_board_consistent:
  "list_all slot_fits (b_workers (applyLiveProjection parse now base live))
   \<and> length (b_depth (applyLiveProjection parse now base live)) = 24
   \<and> {(j_id j, j_account j) | j. j \<in> set (b_jobs (applyLiveProjection parse now base live)) \<and> j_status j = Running} =
       {(c_id c, Some (w_id w)) | w c. w \<in> set (b_workers (applyLiveProjection parse now base live))
          \<and> c \<in> set (w_cells w) \<and> c_id c \<notin> (\<lambda>q. trim (lj_id q)) ` set (li_queue live)}
   \<and> {j_id j | j. j \<in> set (b_jobs (applyLiveProjection parse now base live)) \<and> j_status j = Queued} =
       (\<lambda>q. trim (lj_id q)) ` set (li_queue live)"
proof -
  let ?b = "applyLiveProjection parse now base live"
  let ?q = "map (queued_job parse now (b_jobs base)) (li_queue live)"
  have qids: "set (map j_id ?q) = (\<lambda>q. trim (lj_id q)) ` set (li_queue live)"
    by (simp add: queued_job_def Let_def image_image)
  have "length (b_depth ?b) = 24"
    by (simp add: live_parts length_live_depth depth_samples_def MOCK_INFLIGHT_def)
  moreover have "{(j_id j, j_account j) | j. j \<in> set (b_jobs ?b) \<and> j_status j = Running} =
       {(c_id c, Some (w_id w)) | w c. w \<in> set (b_workers ?b) \<and> c \<in> set (w_cells w) \<and> c_id c \<notin> set (map j_id ?q)}"
    unfolding live_parts(1) by (rule running_set)
  moreover have "{j_id j | j. j \<in> set (b_jobs ?b) \<and> j_status j = Queued} = set (map j_id ?q)"
    unfolding live_parts(1) queued_set by (simp add: image_image)
  ultimately show ?thesis using live_fits [of parse now base live] unfolding qids by simp
qed

text \<open>
  Finished requests are reported exactly once: the completions are the requests that ran on the
  earlier live board and are on the new one no more, in order, and the totals of the session grow
  by the finishes the server listed, or by these completions when it listed none.
\<close>

theorem live_completions_exact:
  assumes "prior_is_live base"
  shows "map f_id (b_completions (applyLiveProjection parse now base live)) =
      map j_id (filter (\<lambda>j. j_status j = Running
        \<and> j_id j \<notin> j_id ` set (b_jobs (applyLiveProjection parse now base live))) (b_jobs base))
    \<and> b_done base \<le> b_done (applyLiveProjection parse now base live)
    \<and> b_failed base \<le> b_failed (applyLiveProjection parse now base live)
    \<and> b_done (applyLiveProjection parse now base live) + b_failed (applyLiveProjection parse now base live) =
      b_done base + b_failed base + int (length (if li_recent live \<noteq> [] then map completion_ok (li_recent live)
        else map f_ok (b_completions (applyLiveProjection parse now base live))))"
proof -
  let ?b = "applyLiveProjection parse now base live"
  let ?oks = "if li_recent live \<noteq> [] then map completion_ok (li_recent live) else map f_ok (b_completions ?b)"
  have totals: "(b_done ?b, b_failed ?b) = count_by ?oks (b_done base, b_failed base)"
    unfolding live_parts(5) live_totals_def using assms by simp
  have "map f_id (b_completions ?b) = map j_id (filter (gone (map j_id (b_jobs ?b))) (b_jobs base))"
    unfolding live_parts(4) completions_ids ..
  moreover have "gone (map j_id (b_jobs ?b)) = (\<lambda>j. j_status j = Running \<and> j_id j \<notin> j_id ` set (b_jobs ?b))"
    by (simp add: gone_def fun_eq_iff)
  moreover have "b_done ?b = fst (count_by ?oks (b_done base, b_failed base))"
    "b_failed ?b = snd (count_by ?oks (b_done base, b_failed base))"
    using totals by (simp_all add: prod_eq_iff)
  ultimately show ?thesis
    using count_by_mono [of "(b_done base, b_failed base)" ?oks] count_by_total [of ?oks "(b_done base, b_failed base)"]
    by simp
qed

text \<open>A request the server names in its finishes gets the outcome the server gave it.\<close>

lemma outcome_named: "map_of (fst s) (j_id j) = Some ok \<Longrightarrow> fst (outcome_of live j s) = ok"
  by (cases s) (simp add: outcome_of_def)

lemma outcome_others: "k \<noteq> j_id j \<Longrightarrow> map_of (fst (snd (outcome_of live j s))) k = map_of (fst s) k"
proof -
  assume k: "k \<noteq> j_id j"
  have "map_of (filter (\<lambda>p. fst p \<noteq> j_id j) pr) k = map_of pr k" for pr :: "(jstr \<times> bool) list"
    using k by (induction pr) auto
  then show ?thesis by (cases s) (simp add: outcome_of_def split: option.split list.split)
qed

lemma completions_named:
  "distinct (map j_id js') \<Longrightarrow> c \<in> set (completions_of live js' s) \<Longrightarrow> map_of (fst s) (f_id c) = Some ok \<Longrightarrow> f_ok c = ok"
proof (induction js' arbitrary: s)
  case (Cons j js')
  let ?s = "snd (outcome_of live j s)"
  show ?case
  proof (cases "c \<in> set (completions_of live js' ?s)")
    case True
    then have "f_id c \<in> set (map j_id js')" by (metis completions_ids image_eqI set_map)
    with Cons.prems(1) have "f_id c \<noteq> j_id j" by auto
    from Cons.IH [OF _ True] Cons.prems outcome_others [OF this] show ?thesis by simp
  next
    case False
    with Cons.prems(2) have "f_id c = j_id j" "f_ok c = fst (outcome_of live j s)"
      by (auto simp: case_prod_beta)
    with Cons.prems(3) outcome_named show ?thesis by simp
  qed
qed simp

lemma note_finish_request:
  "k \<noteq> [] \<Longrightarrow> map_of (fst (note_finish c s)) k =
     (if trim (str_or_empty (lc_request c)) = k then Some (completion_ok c) else map_of (fst s) k)"
  by (cases s) (auto simp: note_finish_def Let_def)

lemma pending_requests:
  "k \<noteq> [] \<Longrightarrow> map_of (fst (fold note_finish cs s)) k =
     (case find (\<lambda>c. trim (str_or_empty (lc_request c)) = k) (rev cs) of
        Some c \<Rightarrow> Some (completion_ok c)
      | None \<Rightarrow> map_of (fst s) k)"
  by (induction cs rule: rev_induct) (simp_all add: note_finish_request)

text \<open>
  The outcome shown for a request that finished is the last one the server listed for it, when it
  listed one and the identifiers of the earlier board were distinct.
\<close>

theorem live_outcome_of_request:
  assumes "distinct (map j_id (b_jobs base))"
    and "c \<in> set (b_completions (applyLiveProjection parse now base live))"
    and "find (\<lambda>r. trim (str_or_empty (lc_request r)) = f_id c) (rev (li_recent live)) = Some r"
    and "f_id c \<noteq> []"
  shows "f_ok c = (trim (lc_status r) = js ''ok'')"
proof -
  have "distinct (map j_id (filter (gone (map j_id (b_jobs (applyLiveProjection parse now base live)))) (b_jobs base)))"
    using assms(1) by (rule distinct_map_filter)
  moreover have "map_of (fst (pending_of (li_recent live))) (f_id c) = Some (completion_ok r)"
    using assms(3,4) by (simp add: pending_of_def pending_requests)
  ultimately have "f_ok c = completion_ok r"
    using completions_named assms(2) unfolding live_parts(4) by blast
  then show ?thesis by (simp add: completion_ok_def)
qed

text \<open>An answer with two finishes of an account, on a board with two requests of that account.\<close>

definition example_job :: "string \<Rightarrow> job" where
  "example_job k = \<lparr>j_id = js k, j_name = js ''m'', j_kind = Chat, j_status = Running, j_account = Some (js ''a''),
     j_progress = 1, j_elapsed = 0, j_started = Some 0, j_sticky = False, j_priority = None, j_attempt = None\<rparr>"

definition example_base :: board where
  "example_base = (getIdleInflightSnapshot 0)\<lparr>b_jobs := [example_job ''r1'', example_job ''live-a'']\<rparr>"

definition example_live :: live_input where
  "example_live =
     \<lparr>li_in_flight = 0, li_rpm = 0, li_workers = [], li_limits = [],
      li_sticky = \<lparr>ls_bindings = 0, ls_hits = 0, ls_misses = 0, ls_capacity = 0, ls_ttl = 0, ls_escapes = None\<rparr>,
      li_recent = [\<lparr>lc_request = Some (js ''r1''), lc_account = js ''a'', lc_status = js ''ok''\<rparr>,
                   \<lparr>lc_request = None, lc_account = js ''a'', lc_status = js ''error''\<rparr>],
      li_queue = [], li_occupancy = []\<rparr>"

lemma trim_ascii: "trim (js ''ok'') = js ''ok''" "trim (js ''error'') = js ''error''" "trim (js ''a'') = js ''a''"
  "trim (js ''r1'') = js ''r1''"
  by code_simp+

lemma example_completions:
  "b_completions (applyLiveProjection Map.empty 0 example_base example_live) =
     [\<lparr>f_id = js ''r1'', f_name = js ''m'', f_kind = Chat, f_ok = True\<rparr>,
      \<lparr>f_id = js ''live-a'', f_name = js ''m'', f_kind = Chat, f_ok = True\<rparr>]"
  by (simp add: live_parts applyLiveProjection_def example_base_def example_live_def getIdleInflightSnapshot_def
      running_jobs_def gone_def example_job_def pending_of_def note_finish_def completion_ok_def outcome_of_def
      account_of_def trim_ascii Let_def)

theorem live_completions_exact_witness:
  "b_done (applyLiveProjection Map.empty 0 example_base example_live)
     + b_failed (applyLiveProjection Map.empty 0 example_base example_live) = 2"
proof -
  have "prior_is_live example_base"
    by (simp add: prior_is_live_def example_base_def getIdleInflightSnapshot_def)
  from live_completions_exact [OF this, of Map.empty 0 example_live] show ?thesis
    by (simp add: example_base_def example_live_def getIdleInflightSnapshot_def)
qed

theorem live_outcome_of_request_witness:
  "f_ok \<lparr>f_id = js ''r1'', f_name = js ''m'', f_kind = Chat, f_ok = True\<rparr> = (trim (js ''ok'') = js ''ok'')"
proof -
  have "distinct (map j_id (b_jobs example_base))"
    by (simp add: example_base_def example_job_def)
  moreover have "\<lparr>f_id = js ''r1'', f_name = js ''m'', f_kind = Chat, f_ok = True\<rparr>
      \<in> set (b_completions (applyLiveProjection Map.empty 0 example_base example_live))"
    by (simp add: example_completions)
  ultimately have "f_ok \<lparr>f_id = js ''r1'', f_name = js ''m'', f_kind = Chat, f_ok = True\<rparr> =
      (trim (lc_status \<lparr>lc_request = Some (js ''r1''), lc_account = js ''a'', lc_status = js ''ok''\<rparr>) = js ''ok'')"
    by (rule live_outcome_of_request) (simp_all add: example_live_def trim_ascii)
  then show ?thesis by simp
qed

text \<open>
  A finish that was matched by its request stays in the queue of its account: the next request of
  the account takes it again, and its own failure is shown as a success.
\<close>

theorem matched_finish_used_twice:
  "map f_ok (b_completions (applyLiveProjection Map.empty 0 example_base example_live)) = [True, True]
   \<and> map completion_ok (li_recent example_live) = [True, False]"
proof
  show "map f_ok (b_completions (applyLiveProjection Map.empty 0 example_base example_live)) = [True, True]"
    unfolding example_completions by simp
  show "map completion_ok (li_recent example_live) = [True, False]"
    by (simp add: example_live_def completion_ok_def trim_ascii)
qed

end
