(* ===== verification/Front_Format.thy ===== *)
theory Front_Format
  imports Front_Prelude
begin

text \<open>
  The number formats of the interface (\<open>frontend/src/lib/format.ts\<close>). A \<open>number | null | undefined\<close> is
  an optional number; the dash stands for a missing one. \<open>toLocaleString('zh-CN')\<close> groups by commas
  and rounds halves away from zero.
\<close>

section \<open>Formats\<close>

definition dash :: jstr where
  "dash = [0x2014]"

definition yen :: jstr where
  "yen = [0xA5]"

definition finite_value :: "jsnum option \<Rightarrow> rat option" where
  "finite_value v = (case v of Some (Fin q) \<Rightarrow> Some q | _ \<Rightarrow> None)"

definition trimFixed :: "rat \<Rightarrow> jstr" where
  "trimFixed v = num_to_str (fixed_value (if 10 \<le> \<bar>v\<bar> then 0 else 1) v)"

definition round_text :: "rat \<Rightarrow> jstr" where
  "round_text v = rat_to_str (of_int (math_round v))"

definition formatCompact :: "jsnum \<Rightarrow> jstr" where
  "formatCompact value = (case value of
     Fin v \<Rightarrow> (if 1000000 \<le> \<bar>v\<bar> then trimFixed (v / 1000000) @ js ''M''
              else if 1000 \<le> \<bar>v\<bar> then trimFixed (v / 1000) @ js ''k''
              else round_text v)
   | _ \<Rightarrow> dash)"

definition formatLatency :: "jsnum option \<Rightarrow> jstr" where
  "formatLatency ms = (case finite_value ms of
     None \<Rightarrow> dash
   | Some v \<Rightarrow> if 1000 \<le> v then trimFixed (v / 1000) @ js ''s'' else round_text v @ js ''ms'')"

definition byte_units :: "string list" where
  "byte_units = [''B'', ''KB'', ''MB'', ''GB'', ''TB'']"

text \<open>The loop; \<open>units.length - 1\<close> bounds the unit.\<close>

function scale_bytes :: "rat \<Rightarrow> nat \<Rightarrow> rat \<times> nat" where
  "scale_bytes v u = (if 1024 \<le> v \<and> u < length byte_units - 1 then scale_bytes (v / 1024) (Suc u) else (v, u))"
  by pat_completeness auto
termination by (relation "measure (\<lambda>(v, u). length byte_units - u)") auto

declare scale_bytes.simps [simp del]

definition formatBytes :: "jsnum option \<Rightarrow> jstr" where
  "formatBytes bytes = (case finite_value bytes of
     None \<Rightarrow> dash
   | Some v \<Rightarrow> if v < 0 then dash
       else (case scale_bytes v 0 of (w, u) \<Rightarrow> trimFixed w @ js '' '' @ js (byte_units ! u)))"

definition formatPercent :: "jsnum option \<Rightarrow> jstr" where
  "formatPercent rate = (case finite_value rate of
     None \<Rightarrow> dash
   | Some r \<Rightarrow> (let pct = r * 100 in (if 10 \<le> pct then to_fixed 0 pct else to_fixed 1 pct) @ js ''%''))"

datatype count_kind = Int_count | Compact | Percent | Ms

definition formatCountKind :: "jsnum \<Rightarrow> count_kind \<Rightarrow> jstr" where
  "formatCountKind value kind = (case kind of
     Compact \<Rightarrow> formatCompact value
   | Percent \<Rightarrow> formatPercent (Some value)
   | Ms \<Rightarrow> formatLatency (Some value)
   | Int_count \<Rightarrow> (case value of Fin v \<Rightarrow> round_text v | n \<Rightarrow> num_to_str n))"

definition modelCreditsText :: "jstr option \<Rightarrow> jstr" where
  "modelCreditsText credits = trim (str_or_empty credits)"

text \<open>The first match of \<open>/\d+(?:\.\d+)?/\<close>.\<close>

definition first_decimal :: "jstr \<Rightarrow> jstr option" where
  "first_decimal s =
     (let r = dropWhile (\<lambda>c. \<not> is_digit c) s; ds = takeWhile is_digit r; t = dropWhile is_digit r in
      if ds = [] then None
      else Some (ds @ (case t of
        [] \<Rightarrow> []
      | c # t' \<Rightarrow> if c = 46 \<and> takeWhile is_digit t' \<noteq> [] then c # takeWhile is_digit t' else [])))"

definition modelIsFree :: "bool \<Rightarrow> jstr option \<Rightarrow> bool" where
  "modelIsFree free credits =
     (if free then True
      else (let text = to_lower (modelCreditsText credits) in
        if text = [] then False
        else (case first_decimal text of None \<Rightarrow> False | Some d \<Rightarrow> str_to_num d = Fin 0)))"

text \<open>Digits in groups of three, from the right.\<close>

fun group3 :: "jstr \<Rightarrow> jstr" where
  "group3 (a # b # c # d # s) = a # b # c # 44 # group3 (d # s)"
| "group3 s = s"

definition strip_zeros :: "nat \<Rightarrow> jstr \<Rightarrow> jstr" where
  "strip_zeros least fs = take least fs @ rev (dropWhile (\<lambda>c. c = 48) (rev (drop least fs)))"

definition to_locale :: "nat \<Rightarrow> nat \<Rightarrow> rat \<Rightarrow> jstr" where
  "to_locale least most v =
     (let n = fixed_units most v;
          fs = strip_zeros least (pad_left most (dec_digits (n mod 10 ^ most))) in
      (if v < 0 then js ''-'' else []) @ rev (group3 (rev (dec_digits (n div 10 ^ most))))
      @ (if fs = [] then [] else js ''.'' @ fs))"

definition formatCNY :: "jsnum option \<Rightarrow> jstr" where
  "formatCNY value = (case finite_value value of None \<Rightarrow> dash | Some v \<Rightarrow> yen @ to_locale 2 2 v)"

definition formatUnitPrice :: "jsnum option \<Rightarrow> jstr" where
  "formatUnitPrice value = (case finite_value value of None \<Rightarrow> dash | Some v \<Rightarrow> yen @ num_to_str (fixed_value 4 v))"

definition formatCredits :: "jsnum option \<Rightarrow> jstr" where
  "formatCredits value = (case finite_value value of
     None \<Rightarrow> dash
   | Some v \<Rightarrow> if 10000 \<le> v then formatCompact (Fin v) else to_locale (if v < 100 then 2 else 0) 2 v)"

subsection \<open>Output rate\<close>

record rate_input =
  ri_completion :: "jsnum option"
  ri_latency :: "jsnum option"
  ri_ttfb :: "jsnum option"
  ri_stream :: bool

definition positive :: "jsnum option \<Rightarrow> rat option" where
  "positive v = (case finite_value v of Some q \<Rightarrow> if 0 < q then Some q else None | None \<Rightarrow> None)"

text \<open>The seconds that count: after the first token of a stream, when it came in time.\<close>

definition rate_seconds :: "rate_input \<Rightarrow> rat \<Rightarrow> rat" where
  "rate_seconds o' latency =
     (case finite_value (ri_ttfb o') of
        Some t \<Rightarrow> if ri_stream o' \<and> 0 \<le> t \<and> 0 < latency - t then (latency - t) / 1000 else latency / 1000
      | None \<Rightarrow> latency / 1000)"

definition computeOutputTokensPerSecond :: "rate_input \<Rightarrow> rat option" where
  "computeOutputTokensPerSecond o' =
     (case positive (ri_completion o') of
        None \<Rightarrow> None
      | Some completion \<Rightarrow>
          (case positive (ri_latency o') of
             None \<Rightarrow> None
           | Some latency \<Rightarrow>
               (let seconds = rate_seconds o' latency in
                if \<not> 0 < seconds then None
                else (let rate = completion / seconds in if 0 < rate then Some rate else None))))"

definition formatTokensPerSecond :: "jsnum option \<Rightarrow> jstr" where
  "formatTokensPerSecond rate = (case positive rate of
     None \<Rightarrow> dash
   | Some r \<Rightarrow> (if 100 \<le> r then round_text r else num_to_str (fixed_value 1 r)) @ js '' tok/s'')"

section \<open>What the formats show\<close>

lemma scale_bytes_value:
  "scale_bytes v u = (w, n) \<Longrightarrow> u \<le> 4 \<Longrightarrow> 0 \<le> v \<Longrightarrow>
     u \<le> n \<and> n \<le> 4 \<and> v = w * 1024 ^ (n - u) \<and> 0 \<le> w \<and> (w < 1024 \<or> n = 4) \<and> (n = u \<or> 1 \<le> w)"
proof (induction v u rule: scale_bytes.induct)
  case (1 v u)
  show ?case
  proof (cases "1024 \<le> v \<and> u < length byte_units - 1")
    case True
    then have rec: "scale_bytes (v / 1024) (Suc u) = (w, n)"
      using 1(2) by (simp add: scale_bytes.simps [of v u])
    from True have u: "Suc u \<le> 4" by (simp add: byte_units_def)
    have IH: "Suc u \<le> n \<and> n \<le> 4 \<and> v / 1024 = w * 1024 ^ (n - Suc u) \<and> 0 \<le> w \<and> (w < 1024 \<or> n = 4) \<and> (n = Suc u \<or> 1 \<le> w)"
      using 1(1) [OF True rec u] 1(4) by simp
    then have "n - u = Suc (n - Suc u)" by linarith
    with IH have "v = w * 1024 ^ (n - u)" by (simp add: field_simps)
    moreover have "1 \<le> w" using IH True by auto
    ultimately show ?thesis using IH by simp
  next
    case False
    then have "w = v" "n = u" using 1(2) by (auto simp: scale_bytes.simps [of v u])
    with False 1(3,4) show ?thesis by (auto simp: byte_units_def)
  qed
qed

lemma trimFixed_near:
  assumes "\<bar>v\<bar> < 10 ^ 200"
  shows "\<exists>y. trimFixed v = num_to_str (Fin y) \<and> \<bar>y - v\<bar> \<le> (if 10 \<le> \<bar>v\<bar> then 1 / 2 else 1 / 20)"
proof -
  let ?d = "if 10 \<le> \<bar>v\<bar> then 0 else 1 :: nat"
  have "\<bar>v\<bar> * 10 ^ ?d \<le> \<bar>v\<bar> * 10" by (simp add: mult_left_mono)
  also have "\<dots> < 10 ^ 200 * 10" using assms by simp
  also have "\<dots> \<le> 10 ^ 299" by simp
  finally obtain y where "fixed_value ?d v = Fin y" "\<bar>y - v\<bar> \<le> 1 / 2 / 10 ^ ?d"
    using fixed_value_near by blast
  then show ?thesis by (auto simp: trimFixed_def)
qed

text \<open>
  A size in bytes is shown with the largest unit that leaves at least one of it (terabytes at
  most), and the number before the unit differs from the exact quotient by half a unit of its last
  digit at most.
\<close>

theorem formatBytes_accurate:
  assumes "0 \<le> v" and "v < 10 ^ 200"
  shows "\<exists>y n. formatBytes (Some (Fin v)) = num_to_str (Fin y) @ js '' '' @ js (byte_units ! n) \<and> n \<le> 4
    \<and> (n = 0 \<or> 1024 ^ n \<le> v) \<and> (v < 1024 ^ Suc n \<or> n = 4)
    \<and> \<bar>y - v / 1024 ^ n\<bar> \<le> (if 10 \<le> v / 1024 ^ n then 1 / 2 else 1 / 20)"
proof -
  obtain w n where sc: "scale_bytes v 0 = (w, n)" by (cases "scale_bytes v 0")
  from scale_bytes_value [OF sc] assms(1) have n: "n \<le> 4" and v: "v = w * 1024 ^ n" and w: "0 \<le> w"
    and hi: "w < 1024 \<or> n = 4" and lo: "n = 0 \<or> 1 \<le> w" by auto
  have "w \<le> v" using w by (simp add: v mult_le_cancel_left1)
  with assms(2) w have "\<bar>w\<bar> < 10 ^ 200" by simp
  then obtain y where y: "trimFixed w = num_to_str (Fin y)" "\<bar>y - w\<bar> \<le> (if 10 \<le> \<bar>w\<bar> then 1 / 2 else 1 / 20)"
    using trimFixed_near by blast
  have "formatBytes (Some (Fin v)) = num_to_str (Fin y) @ js '' '' @ js (byte_units ! n)"
    using assms(1) by (simp add: formatBytes_def finite_value_def sc y(1))
  moreover have "v / 1024 ^ n = w" by (simp add: v)
  moreover have "n = 0 \<or> 1024 ^ n \<le> v" using lo by (auto simp: v)
  moreover have "v < 1024 ^ Suc n \<or> n = 4" using hi by (auto simp: v)
  ultimately show ?thesis using y(2) w n by (intro exI [of _ y] exI [of _ n]) simp
qed

theorem formatBytes_accurate_witness:
  "\<exists>y n. formatBytes (Some (Fin 1536)) = num_to_str (Fin y) @ js '' '' @ js (byte_units ! n) \<and> n \<le> 4"
  using formatBytes_accurate [of 1536] by auto

text \<open>
  The rate of output is the completion's tokens over the time that counts, the whole latency or what
  follows the first token; it is shown only when it is positive.
\<close>

theorem output_rate:
  "computeOutputTokensPerSecond o' = Some r \<longleftrightarrow>
     (\<exists>c l. ri_completion o' = Some (Fin c) \<and> ri_latency o' = Some (Fin l) \<and> 0 < c \<and> 0 < l \<and> 0 < r
        \<and> r * rate_seconds o' l = c \<and> 0 < rate_seconds o' l \<and> rate_seconds o' l \<le> l / 1000)"
proof -
  have pos: "0 < rate_seconds o' l" and le: "rate_seconds o' l \<le> l / 1000" if "0 < l" for l
    using that by (auto simp: rate_seconds_def split: option.split)
  have val: "positive v = Some q \<longleftrightarrow> v = Some (Fin q) \<and> 0 < q" for v q
    by (auto simp: positive_def finite_value_def split: option.split jsnum.split)
  have "computeOutputTokensPerSecond o' = Some r \<longleftrightarrow>
      (\<exists>c l. positive (ri_completion o') = Some c \<and> positive (ri_latency o') = Some l \<and> r = c / rate_seconds o' l)"
  proof (cases "positive (ri_completion o')")
    case (Some c)
    show ?thesis
    proof (cases "positive (ri_latency o')")
      case l: (Some l)
      with val pos have "0 < rate_seconds o' l" by blast
      moreover have "0 < c" using Some val by blast
      ultimately show ?thesis by (auto simp: computeOutputTokensPerSecond_def Some l)
    qed (simp add: computeOutputTokensPerSecond_def split: option.split)
  qed (simp add: computeOutputTokensPerSecond_def)
  also have "\<dots> \<longleftrightarrow> (\<exists>c l. ri_completion o' = Some (Fin c) \<and> ri_latency o' = Some (Fin l) \<and> 0 < c \<and> 0 < l \<and> 0 < r
        \<and> r * rate_seconds o' l = c \<and> 0 < rate_seconds o' l \<and> rate_seconds o' l \<le> l / 1000)"
  proof -
    have "r = c / s \<longleftrightarrow> 0 < r \<and> r * s = c" if "0 < c" "0 < s" for c s :: rat
      using that by (auto simp: nonzero_eq_divide_eq zero_less_mult_iff)
    then have "(l = a \<and> c = b \<and> 0 < b \<and> 0 < a \<and> r = c / rate_seconds o' l) \<longleftrightarrow>
        (l = a \<and> c = b \<and> 0 < b \<and> 0 < a \<and> 0 < r \<and> r * rate_seconds o' l = c \<and> 0 < rate_seconds o' l \<and> rate_seconds o' l \<le> l / 1000)"
      for a b c l using pos [of l] le [of l] by blast
    then show ?thesis unfolding val by blast
  qed
  finally show ?thesis .
qed

text \<open>Rounding happens after the choice of the unit: numbers just below a unit show a thousand of the last one.\<close>

lemma compact_edge: "formatCompact (Fin 999999) = js ''1000k''" "formatLatency (Some (Fin (9996 / 10))) = js ''1000ms''"
  by code_simp+

end
