(* ===== verification/Front_Account.thy ===== *)
theory Front_Account
  imports Front_Prelude Js_Decimal
begin

text \<open>
  Accounts and providers as the interface shows them (\<open>frontend/src/lib/account.ts\<close>,
  \<open>frontend/src/lib/provider.ts\<close>, and the account data of \<open>frontend/src/api/types.ts\<close>). Times come from
  a clock, its reading and \<open>Date.parse\<close>; texts of the interface come from a translation function.
\<close>

section \<open>Accounts\<close>

record quota_window =
  qw_id :: jstr
  qw_label :: "jstr option"
  qw_percentage :: "jsnum option"

record quota =
  q_percentage :: "jsnum option"
  q_exceeded :: bool
  q_unit :: "jstr option"
  q_windows :: "quota_window list"
  q_expires_at :: "jsnum option"
  q_expiring :: "jsnum option"

record account =
  a_enabled :: bool
  a_status :: "jstr option"
  a_runtime :: "jstr option"
  a_hot :: bool
  a_ready :: bool
  a_down_until :: "jstr option"
  a_cooldown_until :: "jstr option"
  a_model_cooldowns :: "(jstr \<times> jstr) list"
  a_quota :: "quota option"

record front_clock =
  fc_now :: rat
  fc_parse :: "jstr \<Rightarrow> rat option"

datatype account_state = Disabled | Quota_exhausted | Cooling | Hot | Ready | Login | Loading | Starting
  | Unavailable | Dead | Auth_failed

datatype tone = Ok_tone | Warn | Danger | Muted

definition remaining_ms :: "front_clock \<Rightarrow> jstr \<Rightarrow> rat option" where
  "remaining_ms clk until = (case fc_parse clk until of
     None \<Rightarrow> None | Some t \<Rightarrow> if t - fc_now clk \<le> 0 then None else Some (t - fc_now clk))"

definition cooldownLabel :: "front_clock \<Rightarrow> jstr option \<Rightarrow> jstr" where
  "cooldownLabel clk until =
     (if str_or_empty until = [] then []
      else case remaining_ms clk (str_or_empty until) of
        None \<Rightarrow> []
      | Some ms \<Rightarrow> (let seconds = \<lceil>ms / 1000\<rceil> in
          if seconds < 60 then dec_digits seconds @ js ''s''
          else dec_digits \<lceil>(of_int seconds :: rat) / 60\<rceil> @ js ''m''))"

text \<open>A stable sort; the order \<open>localeCompare\<close> is a parameter.\<close>

fun insert_by :: "('a \<Rightarrow> 'a \<Rightarrow> bool) \<Rightarrow> 'a \<Rightarrow> 'a list \<Rightarrow> 'a list" where
  "insert_by le x [] = [x]"
| "insert_by le x (y # ys) = (if le x y then x # y # ys else y # insert_by le x ys)"

definition sort_by :: "('a \<Rightarrow> 'a \<Rightarrow> bool) \<Rightarrow> 'a list \<Rightarrow> 'a list" where
  "sort_by le xs = foldr (insert_by le) xs []"

definition modelCooldownEntries :: "front_clock \<Rightarrow> (jstr \<Rightarrow> jstr \<Rightarrow> bool) \<Rightarrow> account \<Rightarrow> (jstr \<times> jstr) list" where
  "modelCooldownEntries clk le a =
     sort_by (\<lambda>x y. le (fst x) (fst y))
       (filter (\<lambda>(m, until). cooldownLabel clk (Some until) \<noteq> []) (a_model_cooldowns a))"

definition status_is :: "account \<Rightarrow> string \<Rightarrow> bool" where
  "status_is a s \<longleftrightarrow> a_status a = Some (js s)"

definition runtime_is :: "account \<Rightarrow> string \<Rightarrow> bool" where
  "runtime_is a s \<longleftrightarrow> a_runtime a = Some (js s)"

definition quota_exceeded :: "account \<Rightarrow> bool" where
  "quota_exceeded a \<longleftrightarrow> (case a_quota a of None \<Rightarrow> False | Some q \<Rightarrow> q_exceeded q)"

definition cooldown_end :: "account \<Rightarrow> jstr option" where
  "cooldown_end a = (if str_or_empty (a_down_until a) \<noteq> [] then a_down_until a else a_cooldown_until a)"

definition accountState :: "front_clock \<Rightarrow> account \<Rightarrow> account_state" where
  "accountState clk a =
     (if \<not> a_enabled a then Disabled
      else if status_is a ''quota_exhausted'' \<or> quota_exceeded a then Quota_exhausted
      else if status_is a ''cooling'' \<or> cooldownLabel clk (cooldown_end a) \<noteq> [] then Cooling
      else if status_is a ''dead'' \<or> runtime_is a ''dead'' then Dead
      else if status_is a ''auth_failed'' \<or> runtime_is a ''auth_failed'' then Auth_failed
      else if status_is a ''login_required'' then Login
      else if (status_is a ''starting'' \<or> runtime_is a ''starting'') \<and> \<not> a_hot a \<and> \<not> a_ready a
      then (if a_quota a \<noteq> None then Starting else Loading)
      else if status_is a ''ready'' then (if a_hot a then Hot else Ready)
      else if a_hot a then Hot
      else if a_ready a then Ready
      else Unavailable)"

definition isAvailable :: "front_clock \<Rightarrow> account \<Rightarrow> bool" where
  "isAvailable clk a \<longleftrightarrow> accountState clk a = Hot \<or> accountState clk a = Ready"

definition runtimeSegments :: "account_state \<Rightarrow> nat" where
  "runtimeSegments s =
     (if s = Hot then 12 else if s = Ready then 9 else if s = Cooling then 5 else if s = Login then 3
      else if s = Loading then 6 else if s = Starting then 6 else if s = Unavailable then 2
      else if s = Auth_failed then 3 else if s = Dead then 2 else 1)"

definition runtimeTone :: "account_state \<Rightarrow> tone" where
  "runtimeTone s =
     (if s = Hot \<or> s = Ready then Ok_tone
      else if s = Cooling \<or> s = Quota_exhausted then Warn
      else if s = Loading \<or> s = Starting then Warn
      else if s = Auth_failed \<or> s = Unavailable \<or> s = Dead then Danger
      else if s = Login then Danger else Muted)"

section \<open>Quotas\<close>

definition formatQuotaAmount :: "jsnum option \<Rightarrow> jstr" where
  "formatQuotaAmount value = (case value of
     Some (Fin v) \<Rightarrow>
       if 1000 \<le> \<bar>v\<bar> then to_fixed (if rat_rem v 1000 = 0 then 0 else 1) (v / 1000) @ js ''k''
       else rat_to_str (of_int (math_round (v * 100)) / 100)
   | _ \<Rightarrow> [0x2014])"

definition quotaUsedRatio :: "quota \<Rightarrow> rat" where
  "quotaUsedRatio q = (case opt_or (q_percentage q) (Fin 0) of
     Fin p \<Rightarrow> min 1 (max 0 (p / 100)) | _ \<Rightarrow> 0)"

definition quotaTone :: "jsnum option \<Rightarrow> bool \<Rightarrow> tone" where
  "quotaTone percentage exceeded =
     (if exceeded then Danger
      else if num_le (Fin 80) (opt_or percentage (Fin 0)) then Warn else Ok_tone)"

definition quotaWindows :: "quota \<Rightarrow> quota_window list" where
  "quotaWindows q = filter (\<lambda>w. qw_id w \<noteq> []) (q_windows q)"

definition codexPlanLabels :: "(string \<times> string) list" where
  "codexPlanLabels =
     [(''free'', ''Free''), (''go'', ''Go''), (''plus'', ''Plus''), (''pro'', ''Pro''), (''prolite'', ''Pro Lite''),
      (''promax'', ''Pro Max''), (''team'', ''Team''), (''business'', ''Business''),
      (''enterprise'', ''Enterprise''), (''edu'', ''Edu''), (''edu_plus'', ''Edu Plus''),
      (''edu_pro'', ''Edu Pro''), (''education'', ''Education'')]"

text \<open>\<open>replace(/\b\w/g, c => c.toUpperCase())\<close>: word characters after a character that is none.\<close>

definition upper_word :: "u16 \<Rightarrow> u16" where
  "upper_word c = (if 97 \<le> c \<and> c \<le> 122 then c - 32 else c)"

fun capitalize :: "bool \<Rightarrow> jstr \<Rightarrow> jstr" where
  "capitalize w [] = []"
| "capitalize w (c # s) = (if is_word c \<and> \<not> w then upper_word c else c) # capitalize (is_word c) s"

definition codexPlanLabel :: "jstr option \<Rightarrow> jstr" where
  "codexPlanLabel plan =
     (let raw = to_lower (trim (str_or_empty plan)) in
      if raw = [] \<or> raw = js ''unknown'' \<or> raw = js ''guest'' then []
      else case find (\<lambda>p. js (fst p) = raw) codexPlanLabels of
        Some p \<Rightarrow> js (snd p)
      | None \<Rightarrow> capitalize False (squash (\<lambda>c. c = 95 \<or> c = 45) (js '' '') raw))"

definition quotaWindowLabel :: "translate \<Rightarrow> quota_window \<Rightarrow> jstr" where
  "quotaWindowLabel t w =
     (if qw_id w = js ''daily'' then t ''quotaDaily'' []
      else if qw_id w = js ''weekly'' then t ''quotaWeekly'' []
      else if qw_id w = js ''monthly'' then t ''quotaMonthly'' []
      else if qw_id w = js ''fiveHour'' then t ''quotaFiveHour'' []
      else if qw_id w = js ''weeklyLimit'' then t ''quotaWeeklyLimit'' []
      else if qw_id w = js ''monthlyLimit'' then t ''quotaMonthlyLimit'' []
      else if str_or_empty (qw_label w) \<noteq> [] then str_or_empty (qw_label w) else t ''quota'' [])"

definition reset_minutes :: "rat \<Rightarrow> int" where
  "reset_minutes ms = max 1 \<lceil>ms / 60000\<rceil>"

definition quotaResetLabel :: "front_clock \<Rightarrow> translate \<Rightarrow> jstr option \<Rightarrow> jstr" where
  "quotaResetLabel clk t reset_at =
     (if str_or_empty reset_at = [] then []
      else case remaining_ms clk (str_or_empty reset_at) of
        None \<Rightarrow> t ''quotaResetsSoon'' []
      | Some ms \<Rightarrow> (let minutes = reset_minutes ms in
          if minutes < 60 then t ''quotaResetsInMinutes'' [(''n'', dec_digits minutes)]
          else t ''quotaResetsInHours'' [(''n'', dec_digits (math_round (of_int minutes / 60)))]))"

text \<open>The calendar day of a time in the browser's zone is a parameter; \<open>None\<close> is an invalid date.\<close>

definition quotaExpiryLabel :: "(rat \<Rightarrow> jstr option) \<Rightarrow> translate \<Rightarrow> quota \<Rightarrow> jstr" where
  "quotaExpiryLabel day t q =
     (case q_expires_at q of
        Some (Fin sec) \<Rightarrow>
          if sec \<le> 0 then []
          else (case day (sec * 1000) of
             None \<Rightarrow> []
           | Some d \<Rightarrow>
               (let amount = (case q_expiring q of
                    Some r \<Rightarrow> if num_le r (Fin 0) \<or> r = NaN then [] else formatQuotaAmount (Some r) @ js '' ''
                  | None \<Rightarrow> []) in
                t ''quotaExpiresOn'' [(''amount'', amount),
                  (''unit'', if str_or_empty (q_unit q) = [] then js ''credits'' else str_or_empty (q_unit q)),
                  (''date'', d)]))
      | _ \<Rightarrow> [])"

section \<open>Providers\<close>

definition provider_value :: "jstr option \<Rightarrow> jstr" where
  "provider_value p = to_lower (str_or_empty p)"

definition isQoderProvider :: "jstr option \<Rightarrow> bool" where
  "isQoderProvider p \<longleftrightarrow> (let v = provider_value p in
     v = [] \<or> v = js ''qoder'' \<or> v = js ''qoder-global'' \<or> v = js ''qoder-cn'')"

definition isWorkBuddyProvider :: "jstr option \<Rightarrow> bool" where
  "isWorkBuddyProvider p \<longleftrightarrow> provider_value p = js ''workbuddy''"

definition isTraeProvider :: "jstr option \<Rightarrow> bool" where
  "isTraeProvider p \<longleftrightarrow> provider_value p = js ''trae''"

definition isDevinProvider :: "jstr option \<Rightarrow> bool" where
  "isDevinProvider p \<longleftrightarrow> provider_value p = js ''devin''"

definition isCommandProvider :: "jstr option \<Rightarrow> bool" where
  "isCommandProvider p \<longleftrightarrow> provider_value p = js ''command''"

definition isZhipuProvider :: "jstr option \<Rightarrow> bool" where
  "isZhipuProvider p \<longleftrightarrow> provider_value p = js ''zhipu''"

definition isQwenworkProvider :: "jstr option \<Rightarrow> bool" where
  "isQwenworkProvider p \<longleftrightarrow> provider_value p = js ''qwenwork''"

definition isKimiProvider :: "jstr option \<Rightarrow> bool" where
  "isKimiProvider p \<longleftrightarrow> provider_value p = js ''kimi''"

definition isCodeArtsProvider :: "jstr option \<Rightarrow> bool" where
  "isCodeArtsProvider p \<longleftrightarrow> provider_value p = js ''codearts''"

definition isMetaProvider :: "jstr option \<Rightarrow> bool" where
  "isMetaProvider p \<longleftrightarrow> provider_value p = js ''meta'' \<or> provider_value p = js ''muse''"

definition provider_or_account :: "translate \<Rightarrow> jstr option \<Rightarrow> jstr" where
  "provider_or_account t p = (if str_or_empty p = [] then t ''account'' [] else str_or_empty p)"

definition accountProviderFamilyLabel :: "translate \<Rightarrow> jstr option \<Rightarrow> jstr" where
  "accountProviderFamilyLabel t provider =
     (let p = Some (provider_value provider) in
      if isWorkBuddyProvider p then js ''WorkBuddy''
      else if isTraeProvider p then js ''Trae''
      else if isDevinProvider p then js ''Devin''
      else if isCommandProvider p then js ''Command Code''
      else if isZhipuProvider p then js ''Zhipu GLM''
      else if isQwenworkProvider p then js ''QwenWork''
      else if isKimiProvider p then js ''Kimi Code''
      else if isCodeArtsProvider p then js ''CodeArts''
      else if isMetaProvider p then js ''Muse (Meta)''
      else if isQoderProvider p then js ''Qoder''
      else provider_or_account t provider)"

definition accountProviderLabel :: "translate \<Rightarrow> jstr option \<Rightarrow> jstr option \<Rightarrow> jstr" where
  "accountProviderLabel t provider region =
     (let p = Some (provider_value provider); r = provider_value region in
      if isWorkBuddyProvider p
      then (if r = js ''global'' then t ''accountTypeWorkBuddyGlobal'' [] else t ''accountTypeWorkBuddyCN'' [])
      else if isTraeProvider p then t ''accountTypeTraeCN'' []
      else if isDevinProvider p then t ''accountTypeDevinGlobal'' []
      else if isCommandProvider p then t ''accountTypeCommandGlobal'' []
      else if isZhipuProvider p then t ''accountTypeZhipuCN'' []
      else if isQwenworkProvider p
      then (if r = js ''cn'' then t ''accountTypeQwenworkCN'' [] else t ''accountTypeQwenworkGlobal'' [])
      else if isKimiProvider p then t ''accountTypeKimiCN'' []
      else if isCodeArtsProvider p then t ''accountTypeCodeArtsCN'' []
      else if isMetaProvider p then t ''accountTypeMetaGlobal'' []
      else if isQoderProvider p
      then (if r = js ''cn'' then t ''accountTypeQoderCN'' [] else t ''accountTypeQoderGlobal'' [])
      else provider_or_account t provider)"

record trae_model =
  tm_catalog :: "jsnum option"
  tm_default :: "jsnum option"
  tm_context :: "jsnum option"
  tm_catalog_max :: "jsnum option"
  tm_max_mode :: bool
  tm_prompt :: "jsnum option"
  tm_prompt_max :: "jsnum option"
  tm_output :: "jsnum option"
  tm_output_max :: "jsnum option"

record trae_caps =
  tc_context :: "jsnum option"
  tc_prompt :: "jsnum option"
  tc_output :: "jsnum option"

definition num_or :: "jsnum option \<Rightarrow> jsnum option \<Rightarrow> jsnum option" where
  "num_or a b = (case a of Some n \<Rightarrow> if num_truthy n then a else b | None \<Rightarrow> b)"

definition tieredTraeCaps :: "trae_model \<Rightarrow> bool option \<Rightarrow> trae_caps" where
  "tieredTraeCaps m maxMode =
     (let on = opt_or maxMode (tm_max_mode m);
          dev = num_or (tm_catalog m) (num_or (tm_default m) (num_or (tm_context m) (Some (Fin 0))));
          mx = opt_or (num_or (tm_catalog_max m) (Some (Fin 0))) (Fin 0) in
      if on \<and> \<not> num_le mx (Fin 0) \<and> mx \<noteq> NaN
      then \<lparr>tc_context = Some mx, tc_prompt = num_or (tm_prompt_max m) (tm_prompt m),
            tc_output = num_or (tm_output_max m) (tm_output m)\<rparr>
      else \<lparr>tc_context = dev, tc_prompt = tm_prompt m, tc_output = tm_output m\<rparr>)"

section \<open>What the interface may rely on\<close>

lemma remaining_pos: "remaining_ms clk u = Some ms \<Longrightarrow> 0 < ms"
  by (auto simp: remaining_ms_def split: option.splits if_splits)

lemma cooldownLabel_empty:
  "cooldownLabel clk u = [] \<longleftrightarrow> str_or_empty u = [] \<or> remaining_ms clk (str_or_empty u) = None"
  by (auto simp: cooldownLabel_def Let_def split: option.split)

text \<open>
  When an account is offered as available. Every obstacle comes first: disabling, an exhausted
  quota, a cooldown that still runs, a dead or refused runtime, a missing login; then the account
  must be hot or ready, or have the status ready while its runtime is not starting.
\<close>

theorem available_iff:
  "isAvailable clk a \<longleftrightarrow> a_enabled a \<and> \<not> quota_exceeded a \<and> cooldownLabel clk (cooldown_end a) = []
     \<and> a_status a \<notin> Some ` {js ''quota_exhausted'', js ''cooling'', js ''dead'', js ''auth_failed'', js ''login_required''}
     \<and> a_runtime a \<notin> Some ` {js ''dead'', js ''auth_failed''}
     \<and> (a_hot a \<or> a_ready a \<or> a_status a = Some (js ''ready'') \<and> a_runtime a \<noteq> Some (js ''starting''))"
  unfolding isAvailable_def accountState_def status_is_def runtime_is_def by auto

text \<open>
  The meter agrees with the state: the tone is that of a working account exactly for the available
  states, and these fill more segments than every other state; no state leaves the meter empty or
  overfills its twelve segments.
\<close>

theorem meter_agrees:
  "(runtimeTone s = Ok_tone) = (s = Hot \<or> s = Ready)
   \<and> (9 \<le> runtimeSegments s) = (runtimeTone s = Ok_tone)
   \<and> 1 \<le> runtimeSegments s \<and> runtimeSegments s \<le> 12"
  by (cases s) (simp_all add: runtimeTone_def runtimeSegments_def)

text \<open>
  A cooldown label never promises too early an end: the seconds or minutes it shows cover the time
  that remains, and exceed it by less than one of the shown unit (a minute and a second when
  minutes are shown).
\<close>

lemma ceil_minutes: "\<lceil>(of_int s :: rat) / 60\<rceil> * 60 < s + 60" "s \<le> \<lceil>(of_int s :: rat) / 60\<rceil> * 60"
proof -
  define c where "c = \<lceil>(of_int s :: rat) / 60\<rceil>"
  have "(of_int c :: rat) < of_int s / 60 + 1" "(of_int s :: rat) / 60 \<le> of_int c"
    unfolding c_def by linarith+
  then have "of_int (c * 60) < (of_int (s + 60) :: rat)" "(of_int s :: rat) \<le> of_int (c * 60)" by simp_all
  then have "c * 60 < s + 60" "s \<le> c * 60" unfolding of_int_less_iff of_int_le_iff by simp_all
  then show "\<lceil>(of_int s :: rat) / 60\<rceil> * 60 < s + 60" "s \<le> \<lceil>(of_int s :: rat) / 60\<rceil> * 60"
    by (simp_all add: c_def)
qed

theorem cooldown_label_covers:
  assumes "until \<noteq> []" and "fc_parse clk until = Some t" and "fc_now clk < t"
  shows "\<exists>n. 0 < n \<and>
    (cooldownLabel clk (Some until) = dec_digits n @ js ''s'' \<and> n < 60
       \<and> t - fc_now clk \<le> of_int n * 1000 \<and> of_int n * 1000 < t - fc_now clk + 1000
     \<or> cooldownLabel clk (Some until) = dec_digits n @ js ''m''
       \<and> t - fc_now clk \<le> of_int n * 60000 \<and> of_int n * 60000 < t - fc_now clk + 61000)"
proof -
  define ms where "ms = t - fc_now clk"
  define s where "s = \<lceil>ms / 1000\<rceil>"
  have pos: "0 < ms" using assms(3) by (simp add: ms_def)
  have s: "ms \<le> of_int s * 1000" "of_int s * 1000 < ms + 1000" "0 < s"
    using pos unfolding s_def by linarith+
  have label: "cooldownLabel clk (Some until) =
      (if s < 60 then dec_digits s @ js ''s'' else dec_digits \<lceil>(of_int s :: rat) / 60\<rceil> @ js ''m'')"
    using assms pos by (simp add: cooldownLabel_def remaining_ms_def s_def ms_def Let_def)
  show ?thesis
  proof (cases "s < 60")
    case True
    with s label show ?thesis by (intro exI [of _ s]) (simp add: ms_def)
  next
    case False
    let ?m = "\<lceil>(of_int s :: rat) / 60\<rceil>"
    have "(of_int (?m * 60) :: rat) < of_int (s + 60)" "(of_int s :: rat) \<le> of_int (?m * 60)"
      unfolding of_int_less_iff of_int_le_iff by (rule ceil_minutes)+
    then have "ms \<le> of_int ?m * 60000" "of_int ?m * 60000 < ms + 61000" using s by simp_all
    moreover have "0 < ?m" using False by simp
    ultimately show ?thesis using False label by (intro exI [of _ ?m]) (simp add: ms_def)
  qed
qed

theorem cooldown_label_covers_witness:
  "\<exists>n. 0 < n \<and> (cooldownLabel \<lparr>fc_now = 0, fc_parse = (\<lambda>_. Some 90500)\<rparr> (Some (js ''x'')) = dec_digits n @ js ''s'' \<and> n < 60
     \<or> cooldownLabel \<lparr>fc_now = 0, fc_parse = (\<lambda>_. Some 90500)\<rparr> (Some (js ''x'')) = dec_digits n @ js ''m'')"
  using cooldown_label_covers [of "js ''x''" "\<lparr>fc_now = 0, fc_parse = (\<lambda>_. Some 90500)\<rparr>" 90500] by auto

text \<open>
  The toggle of the larger context never leaves traces: switched off it gives the default limits
  whatever the model's own mode says, and switched on it gives the larger ones exactly when the
  catalog declares a positive larger context.
\<close>

theorem tiered_caps:
  "tieredTraeCaps m (Some False) =
     \<lparr>tc_context = num_or (tm_catalog m) (num_or (tm_default m) (num_or (tm_context m) (Some (Fin 0)))),
      tc_prompt = tm_prompt m, tc_output = tm_output m\<rparr>
   \<and> tieredTraeCaps m None = tieredTraeCaps m (Some (tm_max_mode m))
   \<and> tieredTraeCaps m (Some True) =
     (case tm_catalog_max m of
        Some (Fin q) \<Rightarrow> if 0 < q then \<lparr>tc_context = Some (Fin q), tc_prompt = num_or (tm_prompt_max m) (tm_prompt m),
            tc_output = num_or (tm_output_max m) (tm_output m)\<rparr> else tieredTraeCaps m (Some False)
      | Some Inf \<Rightarrow> \<lparr>tc_context = Some Inf, tc_prompt = num_or (tm_prompt_max m) (tm_prompt m),
            tc_output = num_or (tm_output_max m) (tm_output m)\<rparr>
      | _ \<Rightarrow> tieredTraeCaps m (Some False))"
  by (auto simp: tieredTraeCaps_def Let_def num_or_def split: option.split jsnum.split)

text \<open>No provider belongs to two families, so the order of the tests does not matter.\<close>

lemma provider_families_disjoint:
  "length (filter (\<lambda>f. f p) [isQoderProvider, isWorkBuddyProvider, isTraeProvider, isDevinProvider, isCommandProvider,
     isZhipuProvider, isQwenworkProvider, isKimiProvider, isCodeArtsProvider, isMetaProvider]) \<le> 1"
  by (auto simp: isQoderProvider_def isWorkBuddyProvider_def isTraeProvider_def isDevinProvider_def
      isCommandProvider_def isZhipuProvider_def isQwenworkProvider_def isKimiProvider_def isCodeArtsProvider_def
      isMetaProvider_def Let_def)

lemma quota_ratio_bounds: "0 \<le> quotaUsedRatio q" "quotaUsedRatio q \<le> 1"
  by (auto simp: quotaUsedRatio_def split: jsnum.split)

end
