(* ===== verification/Front_Toast.thy ===== *)
theory Front_Toast
  imports Front_Prelude
begin

text \<open>
  The store of short notices (\<open>frontend/src/lib/toast.ts\<close>): the notices on screen, the generated
  identifiers, the closing timers and the pending timeouts of the window. Listeners are counted by
  the calls of \<open>emit\<close>; what they draw is not part of the store.
\<close>

section \<open>The store\<close>

datatype toast_type = Loading | Success | Error | Info

record toast_input =
  ti_id :: "jstr option"
  ti_type :: "toast_type option"
  ti_title :: jstr
  ti_description :: "jstr option"
  ti_duration :: "jsnum option"

record toast_item =
  tt_id :: jstr
  tt_type :: toast_type
  tt_title :: jstr
  tt_description :: "jstr option"
  tt_version :: int
  tt_leaving :: bool

text \<open>\<open>st_timers\<close> is the map \<open>timers\<close>; \<open>st_pending\<close> the window's timeouts with the notice each one closes.\<close>

record store =
  st_items :: "toast_item list"
  st_seq :: int
  st_timers :: "(jstr \<times> int) list"
  st_pending :: "(int \<times> jstr) list"
  st_next :: int
  st_emits :: nat

definition DEFAULT_DURATION :: "toast_type \<Rightarrow> jsnum" where
  "DEFAULT_DURATION t = (case t of Loading \<Rightarrow> Inf | Success \<Rightarrow> Fin 3200 | Error \<Rightarrow> Fin 6000 | Info \<Rightarrow> Fin 4000)"

definition MAX_TOASTS :: nat where
  "MAX_TOASTS = 4"

definition initial_store :: store where
  "initial_store = \<lparr>st_items = [], st_seq = 0, st_timers = [], st_pending = [], st_next = 1, st_emits = 0\<rparr>"

definition emit :: "store \<Rightarrow> store" where
  "emit s = s\<lparr>st_emits := Suc (st_emits s)\<rparr>"

text \<open>\<open>window.clearTimeout\<close> and the entry of \<open>timers\<close>, as three places of the code drop them.\<close>

definition drop_timer :: "jstr \<Rightarrow> store \<Rightarrow> store" where
  "drop_timer k s =
     s\<lparr>st_pending := (case map_of (st_timers s) k of
          None \<Rightarrow> st_pending s
        | Some h \<Rightarrow> filter (\<lambda>p. fst p \<noteq> h) (st_pending s)),
       st_timers := filter (\<lambda>p. fst p \<noteq> k) (st_timers s)\<rparr>"

definition mark_leaving :: "jstr \<Rightarrow> toast_item list \<Rightarrow> toast_item list" where
  "mark_leaving k = map (\<lambda>i. if tt_id i = k then i\<lparr>tt_leaving := True\<rparr> else i)"

definition dismissToast :: "jstr \<Rightarrow> store \<Rightarrow> store" where
  "dismissToast k s =
     (let s1 = drop_timer k s in
      if \<not> list_ex (\<lambda>i. tt_id i = k \<and> \<not> tt_leaving i) (st_items s1) then s1
      else emit (s1\<lparr>st_items := mark_leaving k (st_items s1)\<rparr>))"

definition removeToast :: "jstr \<Rightarrow> store \<Rightarrow> store" where
  "removeToast k s = emit (s\<lparr>st_items := filter (\<lambda>i. tt_id i \<noteq> k) (st_items s)\<rparr>)"

definition visible :: "store \<Rightarrow> toast_item list" where
  "visible s = filter (\<lambda>i. \<not> tt_leaving i) (st_items s)"

definition toast_key :: "toast_input \<Rightarrow> int \<Rightarrow> jstr \<times> int" where
  "toast_key input q = (case ti_id input of
     Some k \<Rightarrow> (k, q) | None \<Rightarrow> (js ''toast-'' @ dec_digits (q + 1), q + 1))"

definition next_item :: "toast_input \<Rightarrow> jstr \<Rightarrow> toast_item option \<Rightarrow> toast_item" where
  "next_item input k existing =
     \<lparr>tt_id = k, tt_type = opt_or (ti_type input) Info, tt_title = ti_title input,
      tt_description = ti_description input,
      tt_version = (case existing of None \<Rightarrow> 0 | Some i \<Rightarrow> tt_version i) + 1, tt_leaving = False\<rparr>"

definition place_item :: "toast_item \<Rightarrow> store \<Rightarrow> store" where
  "place_item n s =
     s\<lparr>st_items := (if list_ex (\<lambda>i. tt_id i = tt_id n) (st_items s)
         then map (\<lambda>i. if tt_id i = tt_id n then n else i) (st_items s) else st_items s @ [n])\<rparr>"

definition limit_visible :: "store \<Rightarrow> store" where
  "limit_visible s = (case visible s of
     [] \<Rightarrow> s
   | i # _ \<Rightarrow> if MAX_TOASTS < length (visible s) then dismissToast (tt_id i) s else s)"

definition start_timer :: "jstr \<Rightarrow> jsnum \<Rightarrow> store \<Rightarrow> store" where
  "start_timer k ms s =
     (if num_finite ms
      then s\<lparr>st_timers := aput k (st_next s) (st_timers s),
             st_pending := st_pending s @ [(st_next s, k)], st_next := st_next s + 1\<rparr>
      else s)"

definition toast :: "toast_input \<Rightarrow> store \<Rightarrow> jstr \<times> store" where
  "toast input s =
     (let (k, q) = toast_key input (st_seq s);
          n = next_item input k (find (\<lambda>i. tt_id i = k) (st_items s));
          s1 = limit_visible (place_item n (s\<lparr>st_seq := q\<rparr>));
          ms = opt_or (ti_duration input) (DEFAULT_DURATION (tt_type n))
      in (k, emit (start_timer k ms (drop_timer k s1))))"

text \<open>The window runs a pending timeout once.\<close>

definition fire :: "int \<Rightarrow> store \<Rightarrow> store" where
  "fire h s = (case map_of (st_pending s) h of
     None \<Rightarrow> s
   | Some k \<Rightarrow> dismissToast k (s\<lparr>st_pending := filter (\<lambda>p. fst p \<noteq> h) (st_pending s)\<rparr>))"

section \<open>Invariant\<close>

text \<open>
  Identifiers are distinct, at most \<open>MAX_TOASTS\<close> notices are visible, and the map of timers lists
  exactly the pending timeouts: none is forgotten, none is kept for another notice.
\<close>

definition timers_ok :: "store \<Rightarrow> bool" where
  "timers_ok s \<longleftrightarrow> distinct (map fst (st_timers s)) \<and> distinct (map fst (st_pending s))
     \<and> (\<forall>k h. (k, h) \<in> set (st_timers s) \<longleftrightarrow> (h, k) \<in> set (st_pending s))
     \<and> (\<forall>(h, k) \<in> set (st_pending s). h < st_next s)"

definition items_ok :: "store \<Rightarrow> bool" where
  "items_ok s \<longleftrightarrow> distinct (map tt_id (st_items s)) \<and> length (visible s) \<le> MAX_TOASTS"

definition store_ok :: "store \<Rightarrow> bool" where
  "store_ok s \<longleftrightarrow> items_ok s \<and> timers_ok s"

inductive reachable :: "store \<Rightarrow> bool" where
  start: "reachable initial_store"
| show_toast: "reachable s \<Longrightarrow> toast input s = (k, s') \<Longrightarrow> reachable s'"
| dismiss: "reachable s \<Longrightarrow> reachable (dismissToast k s)"
| remove: "reachable s \<Longrightarrow> reachable (removeToast k s)"
| timeout: "reachable s \<Longrightarrow> reachable (fire h s)"

subsection \<open>Timers\<close>

lemma timers_cong:
  "st_timers s' = st_timers s \<Longrightarrow> st_pending s' = st_pending s \<Longrightarrow> st_next s' = st_next s \<Longrightarrow> timers_ok s' = timers_ok s"
  by (simp add: timers_ok_def)

lemma timers_emit [simp]: "timers_ok (emit s) = timers_ok s"
  by (rule timers_cong) (simp_all add: emit_def)

lemma timers_items [simp]: "timers_ok (s\<lparr>st_items := is\<rparr>) = timers_ok s"
  and timers_seq [simp]: "timers_ok (s\<lparr>st_seq := q\<rparr>) = timers_ok s"
  by (rule timers_cong; simp)+

lemma distinct_key_value: "distinct (map fst ps) \<Longrightarrow> (k, a) \<in> set ps \<Longrightarrow> (k, b) \<in> set ps \<Longrightarrow> a = b"
  by (metis eq_key_imp_eq_value)

lemma drop_timer_ok:
  assumes ok: "timers_ok s"
  shows "timers_ok (drop_timer k s)" and "k \<notin> fst ` set (st_timers (drop_timer k s))"
proof -
  show "k \<notin> fst ` set (st_timers (drop_timer k s))" by (auto simp: drop_timer_def)
  show "timers_ok (drop_timer k s)"
  proof (cases "map_of (st_timers s) k")
    case None
    then have "filter (\<lambda>p. fst p \<noteq> k) (st_timers s) = st_timers s"
      by (intro filter_True) (auto simp: map_of_eq_None_iff image_iff)
    with None show ?thesis using ok timers_cong [of "drop_timer k s" s] by (simp add: drop_timer_def)
  next
    case (Some h)
    then have h: "(k, h) \<in> set (st_timers s)" by (rule map_of_SomeD)
    have same: "k' = k \<longleftrightarrow> h' = h" if "(k', h') \<in> set (st_timers s)" for k' h'
      using that h ok distinct_key_value [of "st_timers s"] distinct_key_value [of "st_pending s"]
      unfolding timers_ok_def by metis
    have "(k', h') \<in> set (st_timers s) \<and> k' \<noteq> k \<longleftrightarrow> (h', k') \<in> set (st_pending s) \<and> h' \<noteq> h" for k' h'
      using same ok unfolding timers_ok_def by metis
    with Some ok show ?thesis
      by (auto simp: timers_ok_def drop_timer_def distinct_map_filter)
  qed
qed

lemma start_timer_ok:
  assumes "timers_ok s" and "k \<notin> fst ` set (st_timers s)"
  shows "timers_ok (start_timer k ms s)"
proof (cases "num_finite ms")
  case True
  have next_new: "st_next s \<notin> fst ` set (st_pending s)"
    using assms(1) by (force simp: timers_ok_def)
  have "\<forall>k' h'. (k', h') \<in> set (st_timers s @ [(k, st_next s)]) \<longleftrightarrow> (h', k') \<in> set (st_pending s @ [(st_next s, k)])"
    using assms(1) by (auto simp: timers_ok_def)
  moreover have "\<forall>(h, k) \<in> set (st_pending s @ [(st_next s, k)]). h < st_next s + 1"
    using assms(1) by (force simp: timers_ok_def)
  ultimately show ?thesis
    using True assms next_new unfolding timers_ok_def start_timer_def
    by (simp add: aput_fresh)
qed (use assms in \<open>simp add: start_timer_def\<close>)

lemma timers_dismiss: "timers_ok s \<Longrightarrow> timers_ok (dismissToast k s)"
  by (simp add: dismissToast_def Let_def drop_timer_ok)

lemma timers_limit: "timers_ok s \<Longrightarrow> timers_ok (limit_visible s)"
  by (simp add: limit_visible_def timers_dismiss split: list.split)

lemma timers_toast: "timers_ok s \<Longrightarrow> timers_ok (snd (toast input s))"
  by (simp add: toast_def Let_def case_prod_beta start_timer_ok drop_timer_ok timers_limit place_item_def)

text \<open>A timeout that runs has an entry in the map, which \<open>dismissToast\<close> drops.\<close>

lemma timers_fire:
  assumes ok: "timers_ok s"
  shows "timers_ok (fire h s)"
proof (cases "map_of (st_pending s) h")
  case (Some k)
  then have "(h, k) \<in> set (st_pending s)" by (rule map_of_SomeD)
  then have "map_of (st_timers s) k = Some h"
    using ok by (simp add: timers_ok_def)
  then have "timers_ok (drop_timer k (s\<lparr>st_pending := filter (\<lambda>p. fst p \<noteq> h) (st_pending s)\<rparr>)) = timers_ok (drop_timer k s)"
    by (intro timers_cong) (simp_all add: drop_timer_def)
  then have "timers_ok (dismissToast k (s\<lparr>st_pending := filter (\<lambda>p. fst p \<noteq> h) (st_pending s)\<rparr>))"
    using drop_timer_ok(1) [OF ok] by (simp add: dismissToast_def Let_def)
  with Some show ?thesis by (simp add: fire_def)
qed (simp add: fire_def ok)

subsection \<open>Notices\<close>

lemma drop_timer_items [simp]: "st_items (drop_timer k s) = st_items s"
  and emit_items [simp]: "st_items (emit s) = st_items s"
  and start_timer_items [simp]: "st_items (start_timer k ms s) = st_items s"
  by (simp_all add: drop_timer_def emit_def start_timer_def)

lemma dismiss_items: "st_items (dismissToast k s) = mark_leaving k (st_items s)"
proof -
  have "mark_leaving k is = is" if "\<not> list_ex (\<lambda>i. tt_id i = k \<and> \<not> tt_leaving i) is" for "is"
    using that by (induction "is") (auto simp: mark_leaving_def)
  then show ?thesis by (simp add: dismissToast_def Let_def)
qed

lemma ids_leaving: "map tt_id (mark_leaving k is) = map tt_id is"
  by (simp add: mark_leaving_def)

lemma visible_leaving: "filter (\<lambda>i. \<not> tt_leaving i) (mark_leaving k is) = filter (\<lambda>i. \<not> tt_leaving i \<and> tt_id i \<noteq> k) is"
  by (induction "is") (auto simp: mark_leaving_def)

lemma items_ok_cong: "st_items s' = st_items s \<Longrightarrow> items_ok s' = items_ok s"
  by (simp add: items_ok_def visible_def)

lemma length_filter_conj: "length (filter (\<lambda>x. P x \<and> Q x) xs) \<le> length (filter P xs)"
  by (induction xs) auto

lemma items_dismiss: "items_ok s \<Longrightarrow> items_ok (dismissToast k s)"
proof -
  assume ok: "items_ok s"
  have "length (filter (\<lambda>i. \<not> tt_leaving i \<and> tt_id i \<noteq> k) (st_items s)) \<le> length (visible s)"
    unfolding visible_def by (rule length_filter_conj)
  with ok show ?thesis by (simp add: items_ok_def visible_def dismiss_items ids_leaving visible_leaving)
qed

lemma place_item_ids: "distinct (map tt_id (st_items s)) \<Longrightarrow> distinct (map tt_id (st_items (place_item n s)))"
proof -
  assume d: "distinct (map tt_id (st_items s))"
  have "map tt_id (map (\<lambda>i. if tt_id i = tt_id n then n else i) is) = map tt_id is" for "is" by simp
  then have "map tt_id (st_items (place_item n s)) = (if list_ex (\<lambda>i. tt_id i = tt_id n) (st_items s)
      then map tt_id (st_items s) else map tt_id (st_items s) @ [tt_id n])"
    by (simp add: place_item_def del: map_map)
  with d show ?thesis by (auto simp: list_ex_iff)
qed

lemma place_item_visible:
  "distinct (map tt_id is) \<Longrightarrow> \<not> tt_leaving n \<Longrightarrow>
     length (filter (\<lambda>i. \<not> tt_leaving i) (map (\<lambda>i. if tt_id i = tt_id n then n else i) is)) \<le>
     Suc (length (filter (\<lambda>i. \<not> tt_leaving i) is))"
proof (induction "is")
  case (Cons i "is")
  show ?case
  proof (cases "tt_id i = tt_id n")
    case True
    with Cons.prems(1) have "map (\<lambda>i. if tt_id i = tt_id n then n else i) is = is"
      by (intro map_idI) (auto simp: image_iff)
    with True Cons.prems show ?thesis by simp
  next
    case False
    with Cons show ?thesis by auto
  qed
qed simp

lemma limit_visible_ok:
  assumes d: "distinct (map tt_id (st_items s))" and le: "length (visible s) \<le> Suc MAX_TOASTS"
  shows "items_ok (limit_visible s)"
proof (cases "visible s")
  case Nil
  with d show ?thesis by (simp add: limit_visible_def items_ok_def)
next
  case (Cons i vs)
  show ?thesis
  proof (cases "MAX_TOASTS < length (visible s)")
    case False
    with Cons d show ?thesis by (simp add: limit_visible_def items_ok_def)
  next
    case True
    have "distinct (map tt_id (visible s))" unfolding visible_def using d by (rule distinct_map_filter)
    then have "filter (\<lambda>j. tt_id j \<noteq> tt_id i) (visible s) = vs"
      unfolding Cons by (auto simp: image_iff intro!: filter_True)
    then have "filter (\<lambda>j. \<not> tt_leaving j \<and> tt_id j \<noteq> tt_id i) (st_items s) = vs"
      by (simp add: visible_def conj_commute flip: filter_filter)
    with True Cons d le show ?thesis
      by (simp add: limit_visible_def items_ok_def visible_def [of "dismissToast (tt_id i) s"] dismiss_items
          ids_leaving visible_leaving)
  qed
qed

lemma next_item_shown [simp]: "\<not> tt_leaving (next_item input k e)" "tt_id (next_item input k e) = k"
  by (simp_all add: next_item_def)

lemma items_toast:
  assumes ok: "items_ok s"
  shows "items_ok (snd (toast input s))"
proof -
  obtain k q where kq: "toast_key input (st_seq s) = (k, q)" by (cases "toast_key input (st_seq s)")
  let ?n = "next_item input k (find (\<lambda>i. tt_id i = k) (st_items s))"
  let ?p = "place_item ?n (s\<lparr>st_seq := q\<rparr>)"
  have d: "distinct (map tt_id (st_items s))" using ok by (simp add: items_ok_def)
  have "length (visible ?p) \<le> Suc (length (visible s))"
    using place_item_visible [OF d, of ?n] by (simp add: visible_def place_item_def)
  then have "length (visible ?p) \<le> Suc MAX_TOASTS" using ok by (simp add: items_ok_def)
  moreover have "distinct (map tt_id (st_items ?p))" using d by (intro place_item_ids) simp
  ultimately have "items_ok (limit_visible ?p)" by (rule limit_visible_ok [rotated])
  moreover have "st_items (snd (toast input s)) = st_items (limit_visible ?p)"
    by (simp add: toast_def kq Let_def)
  ultimately show ?thesis using items_ok_cong by blast
qed

lemma items_remove: "items_ok s \<Longrightarrow> items_ok (removeToast k s)"
proof -
  assume ok: "items_ok s"
  have "visible (removeToast k s) = filter (\<lambda>i. \<not> tt_leaving i \<and> tt_id i \<noteq> k) (st_items s)"
    by (simp add: visible_def removeToast_def conj_commute)
  then have "length (visible (removeToast k s)) \<le> length (visible s)"
    unfolding visible_def by (simp only: length_filter_conj)
  with ok show ?thesis by (simp add: items_ok_def) (simp add: removeToast_def distinct_map_filter)
qed

lemma reachable_ok: "reachable s \<Longrightarrow> store_ok s"
proof (induction rule: reachable.induct)
  case start
  show ?case by (simp add: store_ok_def items_ok_def timers_ok_def initial_store_def visible_def)
next
  case (show_toast s input k s')
  then show ?case using items_toast [of s input] timers_toast [of s input] by (simp add: store_ok_def)
next
  case (dismiss s k)
  then show ?case by (simp add: store_ok_def items_dismiss timers_dismiss)
next
  case (remove s k)
  have "timers_ok (removeToast k s) = timers_ok s" by (rule timers_cong) (simp_all add: removeToast_def emit_def)
  with remove show ?case by (simp add: store_ok_def items_remove)
next
  case (timeout s h)
  have "items_ok (s\<lparr>st_pending := ps\<rparr>)" for ps
    using timeout items_ok_cong [of "s\<lparr>st_pending := ps\<rparr>" s] by (simp add: store_ok_def)
  then have "items_ok (fire h s)"
    using timeout by (cases "map_of (st_pending s) h") (simp_all add: fire_def store_ok_def items_dismiss)
  with timeout show ?case by (simp add: store_ok_def timers_fire)
qed

text \<open>
  However notices are shown, updated, dismissed, removed and timed out: identifiers stay distinct, at
  most four notices are visible, and every pending timeout of the window belongs to the timer of one
  notice, which it closes.
\<close>

theorem toast_store_invariant:
  assumes "reachable s"
  shows "distinct (map tt_id (st_items s)) \<and> length (visible s) \<le> 4
    \<and> distinct (map fst (st_pending s)) \<and> distinct (map snd (st_pending s))
    \<and> (\<forall>h k. map_of (st_pending s) h = Some k \<longleftrightarrow> map_of (st_timers s) k = Some h)"
proof -
  from reachable_ok [OF assms] have items: "items_ok s" and timers: "timers_ok s" by (simp_all add: store_ok_def)
  have inv: "map_of (st_pending s) h = Some k \<longleftrightarrow> map_of (st_timers s) k = Some h" for h k
    using timers by (simp add: timers_ok_def)
  have "inj_on snd (set (st_pending s))"
  proof (rule inj_onI)
    fix p p' assume p: "p \<in> set (st_pending s)" "p' \<in> set (st_pending s)" "snd p = snd p'"
    then have "(snd p, fst p) \<in> set (st_timers s)" "(snd p, fst p') \<in> set (st_timers s)"
      using timers unfolding timers_ok_def by (metis prod.collapse)+
    with timers have "fst p = fst p'" unfolding timers_ok_def by (metis distinct_key_value)
    with p(3) show "p = p'" by (simp add: prod_eq_iff)
  qed
  moreover have "distinct (st_pending s)" using timers by (simp add: timers_ok_def distinct_map)
  ultimately have "distinct (map snd (st_pending s))" by (simp add: distinct_map)
  with items timers inv show ?thesis by (simp add: items_ok_def timers_ok_def MAX_TOASTS_def)
qed

definition plain_toast :: "string \<Rightarrow> toast_input" where
  "plain_toast k = \<lparr>ti_id = Some (js k), ti_type = None, ti_title = [], ti_description = None, ti_duration = None\<rparr>"

theorem toast_store_invariant_witness:
  "length (visible (snd (toast (plain_toast ''a'') initial_store))) \<le> 4"
  using toast_store_invariant [OF reachable.show_toast [OF reachable.start prod.collapse [symmetric]]] by blast

text \<open>
  A timeout that is due closes its notice: after it has run, the notice is not visible and has no
  timer any more; the other notices stay as they were.
\<close>

theorem timeout_closes:
  assumes "reachable s" and "map_of (st_timers s) k = Some h"
  shows "st_items (fire h s) = mark_leaving k (st_items s)
    \<and> k \<notin> tt_id ` set (visible (fire h s)) \<and> map_of (st_timers (fire h s)) k = None"
proof -
  from reachable_ok [OF assms(1)] have timers: "timers_ok s" by (simp add: store_ok_def)
  then have p: "map_of (st_pending s) h = Some k"
    using assms(2) by (simp add: timers_ok_def)
  have items: "st_items (fire h s) = mark_leaving k (st_items s)"
    by (simp add: fire_def p dismiss_items)
  have "map_of (filter (\<lambda>q. fst q \<noteq> k) ps) k = None" for ps :: "(jstr \<times> int) list"
    by (induction ps) auto
  then have "map_of (st_timers (fire h s)) k = None"
    by (simp add: fire_def p dismissToast_def drop_timer_def emit_def Let_def)
  with items show ?thesis by (auto simp: visible_def visible_leaving)
qed

theorem timeout_closes_witness:
  "map_of (st_timers (fire 1 (snd (toast (plain_toast ''a'') initial_store)))) (js ''a'') = None"
proof -
  have r: "reachable (snd (toast (plain_toast ''a'') initial_store))"
    by (rule reachable.show_toast [OF reachable.start prod.collapse [symmetric]])
  have "map_of (st_timers (snd (toast (plain_toast ''a'') initial_store))) (js ''a'') = Some 1"
    by code_simp
  from timeout_closes [OF r this] show ?thesis by blast
qed

text \<open>
  Updating a notice that is leaving, with four others visible behind it, dismisses the updated notice
  itself: it counts as the oldest visible one.
\<close>

definition shown :: "string \<Rightarrow> bool \<Rightarrow> toast_item" where
  "shown k leaving = \<lparr>tt_id = js k, tt_type = Info, tt_title = [], tt_description = None, tt_version = 1, tt_leaving = leaving\<rparr>"

lemma updated_notice_dismissed:
  "map tt_leaving (st_items (snd (toast (plain_toast ''a'') (initial_store\<lparr>st_items :=
     [shown ''a'' True, shown ''b'' False, shown ''c'' False, shown ''d'' False, shown ''e'' False]\<rparr>)))) =
   [True, False, False, False, False]"
  by code_simp

end
