(* ===== verification/Front_Update.thy ===== *)
theory Front_Update
  imports Front_Prelude
begin

text \<open>
  The system update as the interface drives it (\<open>frontend/src/hooks/useSystemUpdate.ts\<close>, with the data of
  \<open>frontend/src/api/system.ts\<close>): the state of the hook, what it derives from it on every render, and its
  operations. The answers of the server are parameters of the operations; a failed call gives its
  message, or none when what was thrown is no \<open>Error\<close>.
\<close>

section \<open>State\<close>

record agent_status =
  ag_available :: bool
  ag_state :: jstr
  ag_target :: "jstr option"
  ag_error :: "jstr option"
  ag_started :: "jstr option"

record preparation =
  pr_job :: jstr
  pr_state :: jstr
  pr_target :: "jstr option"
  pr_backup :: "jstr option"
  pr_error :: "jstr option"
  pr_started :: "jstr option"

record update_info =
  ui_current :: jstr
  ui_next :: "jstr option"
  ui_rollbacks :: nat
  ui_has_update :: bool
  ui_managed :: bool
  ui_agent :: agent_status
  ui_update :: "preparation option"

record hook_state =
  hk_info :: "update_info option"
  hk_loading :: bool
  hk_checking :: bool
  hk_submitting :: bool
  hk_error :: jstr
  hk_started :: "jstr option"
  hk_reload :: "int option"
  hk_initial :: jstr

text \<open>\<open>hk_started\<close> is the \<open>job_id\<close> of \<open>started\<close>.\<close>

definition initial_hook :: hook_state where
  "initial_hook = \<lparr>hk_info = None, hk_loading = True, hk_checking = False, hk_submitting = False, hk_error = [],
     hk_started = None, hk_reload = None, hk_initial = []\<rparr>"

section \<open>What is derived on a render\<close>

definition in_states :: "jstr \<Rightarrow> string list \<Rightarrow> bool" where
  "in_states s ss \<longleftrightarrow> list_ex (\<lambda>x. js x = s) ss"

definition busyStates :: "string list" where
  "busyStates = [''preparing'', ''preparing_image'', ''checking'', ''backing_up'', ''submitting'', ''running'', ''queued'',
     ''pulling'', ''host_binary'', ''image_ready'', ''recreating'', ''rolling_back'']"

definition applyJobStates :: "string list" where
  "applyJobStates = [''backing_up'', ''running'']"

definition applyAgentStates :: "string list" where
  "applyAgentStates = [''recreating'', ''rolling_back'']"

definition progressAgentStates :: "string list" where
  "progressAgentStates = [''queued'', ''pulling'', ''host_binary'', ''image_ready'', ''preparing'', ''recreating'',
     ''checking'', ''rolling_back'']"

definition agentState :: "hook_state \<Rightarrow> jstr" where
  "agentState h = (case hk_info h of
     None \<Rightarrow> js ''unavailable''
   | Some i \<Rightarrow> if ag_state (ui_agent i) = [] then js ''unavailable'' else ag_state (ui_agent i))"

definition the_update :: "hook_state \<Rightarrow> preparation option" where
  "the_update h = (case hk_info h of None \<Rightarrow> None | Some i \<Rightarrow> ui_update i)"

definition preparationState :: "hook_state \<Rightarrow> jstr" where
  "preparationState h = (case the_update h of None \<Rightarrow> [] | Some u \<Rightarrow> pr_state u)"

definition backup_made :: "hook_state \<Rightarrow> bool" where
  "backup_made h \<longleftrightarrow> (case the_update h of None \<Rightarrow> False | Some u \<Rightarrow> str_or_empty (pr_backup u) \<noteq> [])"

definition applying :: "hook_state \<Rightarrow> bool" where
  "applying h \<longleftrightarrow> in_states (preparationState h) applyJobStates \<or> in_states (agentState h) applyAgentStates
     \<or> (backup_made h \<and> in_states (preparationState h) busyStates)"

definition readyToApply :: "hook_state \<Rightarrow> bool" where
  "readyToApply h \<longleftrightarrow> \<not> applying h
     \<and> (preparationState h = js ''ready_to_apply'' \<or> agentState h = js ''ready_to_apply'')"

definition waitingForJob :: "hook_state \<Rightarrow> bool" where
  "waitingForJob h \<longleftrightarrow> str_or_empty (hk_started h) \<noteq> []
     \<and> (case the_update h of None \<Rightarrow> None | Some u \<Rightarrow> Some (pr_job u)) \<noteq> hk_started h
     \<and> \<not> readyToApply h \<and> \<not> applying h"

definition preparing :: "hook_state \<Rightarrow> bool" where
  "preparing h \<longleftrightarrow> \<not> applying h \<and> \<not> readyToApply h
     \<and> (in_states (preparationState h) busyStates \<or> in_states (agentState h) busyStates \<or> waitingForJob h)"

definition busy :: "hook_state \<Rightarrow> bool" where
  "busy h \<longleftrightarrow> preparing h \<or> applying h"

definition succeeded :: "hook_state \<Rightarrow> bool" where
  "succeeded h \<longleftrightarrow> preparationState h = js ''succeeded'' \<or> agentState h = js ''succeeded''"

definition justUpdated :: "hook_state \<Rightarrow> bool" where
  "justUpdated h \<longleftrightarrow> succeeded h \<and> hk_initial h \<noteq> []
     \<and> (case hk_info h of None \<Rightarrow> False | Some i \<Rightarrow> ui_current i \<noteq> [] \<and> ui_current i \<noteq> hk_initial h)"

definition targetVersion :: "hook_state \<Rightarrow> jstr" where
  "targetVersion h =
     (let u = (case the_update h of None \<Rightarrow> [] | Some u \<Rightarrow> str_or_empty (pr_target u)) in
      if u \<noteq> [] then u
      else case hk_info h of None \<Rightarrow> [] | Some i \<Rightarrow> str_or_empty (ag_target (ui_agent i)))"

definition next_version :: "hook_state \<Rightarrow> jstr" where
  "next_version h = (case hk_info h of None \<Rightarrow> [] | Some i \<Rightarrow> str_or_empty (ui_next i))"

definition newerThanPrepared :: "hook_state \<Rightarrow> bool" where
  "newerThanPrepared h \<longleftrightarrow> readyToApply h \<and> next_version h \<noteq> [] \<and> targetVersion h \<noteq> [] \<and> next_version h \<noteq> targetVersion h"

definition started_at :: "hook_state \<Rightarrow> jstr" where
  "started_at h =
     (let u = (case the_update h of None \<Rightarrow> [] | Some u \<Rightarrow> str_or_empty (pr_started u)) in
      if u \<noteq> [] then u
      else case hk_info h of None \<Rightarrow> [] | Some i \<Rightarrow> str_or_empty (ag_started (ui_agent i)))"

text \<open>Seconds since the start; \<open>NaN\<close> when the time does not parse.\<close>

definition elapsed :: "rat \<Rightarrow> (jstr \<Rightarrow> rat option) \<Rightarrow> hook_state \<Rightarrow> jsnum" where
  "elapsed now parse h =
     (if started_at h \<noteq> [] \<and> busy h
      then case parse (started_at h) of
             None \<Rightarrow> NaN
           | Some t \<Rightarrow> Fin (of_int (max 0 (math_round ((now - t) / 1000))))
      else Fin 0)"

definition visibleState :: "hook_state \<Rightarrow> jstr" where
  "visibleState h =
     (if justUpdated h then js ''succeeded''
      else if readyToApply h then js ''ready_to_apply''
      else if busy h \<and> in_states (agentState h) progressAgentStates then agentState h
      else if preparationState h \<noteq> [] then preparationState h else agentState h)"

definition agent_available :: "hook_state \<Rightarrow> bool" where
  "agent_available h \<longleftrightarrow> (case hk_info h of None \<Rightarrow> False | Some i \<Rightarrow> ag_available (ui_agent i))"

definition idle_page :: "hook_state \<Rightarrow> bool" where
  "idle_page h \<longleftrightarrow> \<not> hk_submitting h \<and> hk_reload h = None"

definition canPrepare :: "hook_state \<Rightarrow> bool" where
  "canPrepare h \<longleftrightarrow> (case hk_info h of None \<Rightarrow> False | Some i \<Rightarrow> ui_managed i \<and> ui_has_update i \<and> str_or_empty (ui_next i) \<noteq> [])
     \<and> agent_available h \<and> \<not> readyToApply h \<and> \<not> busy h \<and> idle_page h"

definition canApply :: "hook_state \<Rightarrow> bool" where
  "canApply h \<longleftrightarrow> readyToApply h \<and> agent_available h \<and> \<not> applying h \<and> idle_page h"

definition canCancel :: "hook_state \<Rightarrow> bool" where
  "canCancel h \<longleftrightarrow> agent_available h \<and> (preparing h \<or> readyToApply h) \<and> \<not> applying h \<and> idle_page h"

definition canRollback :: "hook_state \<Rightarrow> bool" where
  "canRollback h \<longleftrightarrow> (case hk_info h of None \<Rightarrow> False | Some i \<Rightarrow> ui_managed i \<and> 0 < ui_rollbacks i)
     \<and> agent_available h \<and> \<not> readyToApply h \<and> \<not> busy h \<and> idle_page h"

definition primaryLabel :: "translate \<Rightarrow> hook_state \<Rightarrow> jstr" where
  "primaryLabel t h = (case hk_reload h of
     Some n \<Rightarrow> t ''updateReloadingIn'' [(''seconds'', dec_digits n)]
   | None \<Rightarrow> if canApply h then t ''applyUpdateNow'' []
       else if applying h then t ''updateInProgress'' []
       else if preparing h \<or> hk_submitting h then t ''updatePreparingImage'' [] else t ''updateNow'' [])"

definition statusHint :: "translate \<Rightarrow> hook_state \<Rightarrow> jstr" where
  "statusHint t h =
     (if hk_reload h \<noteq> None then t ''updateReloadingHint'' []
      else if readyToApply h
      then t ''updateReadyTargetHint'' [(''version'', if targetVersion h \<noteq> [] then targetVersion h else next_version h)]
      else if applying h then t ''updateApplyingHint'' [] else t ''updatePreparingImageHint'' [])"

section \<open>Operations\<close>

definition failed_state :: "jstr \<Rightarrow> bool" where
  "failed_state s \<longleftrightarrow> s = js ''failed'' \<or> s = js ''rolled_back''"

definition update_failed :: "update_info \<Rightarrow> bool" where
  "update_failed i \<longleftrightarrow> (case ui_update i of None \<Rightarrow> False | Some u \<Rightarrow> failed_state (pr_state u)) \<or> failed_state (ag_state (ui_agent i))"

definition failure_text :: "translate \<Rightarrow> update_info \<Rightarrow> jstr" where
  "failure_text t i =
     (let u = (case ui_update i of None \<Rightarrow> [] | Some u \<Rightarrow> str_or_empty (pr_error u)); a = str_or_empty (ag_error (ui_agent i)) in
      if u \<noteq> [] then u else if a \<noteq> [] then a else t ''updateFailedHint'' [])"

text \<open>\<open>load(force, quiet)\<close> up to its request, and from its answer.\<close>

definition load_start :: "bool \<Rightarrow> bool \<Rightarrow> hook_state \<Rightarrow> hook_state" where
  "load_start force quiet h = (if force \<and> \<not> quiet then h\<lparr>hk_checking := True\<rparr> else h)"

definition load_answer :: "translate \<Rightarrow> bool \<Rightarrow> bool \<Rightarrow> jstr option + update_info \<Rightarrow> hook_state \<Rightarrow> hook_state" where
  "load_answer t force quiet r h =
     (let h1 = (case r of
          Inr i \<Rightarrow> h\<lparr>hk_info := Some i,
            hk_initial := (if hk_initial h \<noteq> [] then hk_initial h else ui_current i),
            hk_error := (if update_failed i then failure_text t i else if \<not> quiet then [] else hk_error h)\<rparr>
        | Inl e \<Rightarrow> if quiet then h else h\<lparr>hk_error := opt_or e (t ''updateCheckFailedHint'' [])\<rparr>) in
      h1\<lparr>hk_loading := False, hk_checking := (if force \<and> \<not> quiet then False else hk_checking h1)\<rparr>)"

definition submit :: "bool \<Rightarrow> hook_state \<Rightarrow> hook_state" where
  "submit forget h = h\<lparr>hk_submitting := True, hk_started := (if forget then None else hk_started h), hk_error := []\<rparr>"

text \<open>The answer of a starting call: the job, or a failure.\<close>

definition call_answer :: "translate \<Rightarrow> jstr option + jstr \<Rightarrow> hook_state \<Rightarrow> hook_state" where
  "call_answer t r h = (case r of
     Inr job \<Rightarrow> h\<lparr>hk_started := Some job\<rparr>
   | Inl e \<Rightarrow> h\<lparr>hk_error := opt_or e (t ''updateFailedHint'' [])\<rparr>)"

definition finish_submit :: "hook_state \<Rightarrow> hook_state" where
  "finish_submit h = h\<lparr>hk_submitting := False\<rparr>"

definition run_call :: "translate \<Rightarrow> bool \<Rightarrow> jstr option + jstr \<Rightarrow> jstr option + update_info \<Rightarrow> hook_state \<Rightarrow> hook_state" where
  "run_call t forget r loaded h =
     finish_submit (load_answer t False True loaded (load_start False True (call_answer t r (submit forget h))))"

definition prepareUpdate :: "translate \<Rightarrow> jstr option + jstr \<Rightarrow> jstr option + update_info \<Rightarrow> hook_state \<Rightarrow> hook_state" where
  "prepareUpdate t r loaded h = run_call t True r loaded h"

definition confirmUpdate :: "translate \<Rightarrow> jstr option + jstr \<Rightarrow> jstr option + update_info \<Rightarrow> hook_state \<Rightarrow> hook_state" where
  "confirmUpdate t r loaded h = run_call t False r loaded h"

definition rollbackTo :: "translate \<Rightarrow> jstr option + jstr \<Rightarrow> jstr option + update_info \<Rightarrow> hook_state \<Rightarrow> hook_state" where
  "rollbackTo t r loaded h = run_call t True r loaded h"

definition cancelPreparedUpdate :: "translate \<Rightarrow> jstr option + unit \<Rightarrow> jstr option + update_info \<Rightarrow> hook_state \<Rightarrow> hook_state" where
  "cancelPreparedUpdate t r loaded h =
     (case r of
        Inr _ \<Rightarrow> finish_submit (load_answer t True True loaded (load_start True True ((submit False h)\<lparr>hk_started := None\<rparr>)))
      | Inl e \<Rightarrow> finish_submit (load_answer t False True loaded (load_start False True
          ((submit False h)\<lparr>hk_error := opt_or e (t ''updateFailedHint'' [])\<rparr>))))"

text \<open>A render starts the countdown; a tick of it counts down, and reloads the page at zero.\<close>

definition render :: "hook_state \<Rightarrow> hook_state" where
  "render h = (if justUpdated h \<and> hk_reload h = None then h\<lparr>hk_reload := Some 3\<rparr> else h)"

definition reload_due :: "hook_state \<Rightarrow> bool" where
  "reload_due h \<longleftrightarrow> (case hk_reload h of None \<Rightarrow> False | Some n \<Rightarrow> n \<le> 0)"

definition countdown :: "hook_state \<Rightarrow> hook_state" where
  "countdown h = (case hk_reload h of
     None \<Rightarrow> h | Some n \<Rightarrow> if n \<le> 0 then h else h\<lparr>hk_reload := Some (n - 1)\<rparr>)"

text \<open>The 2-second poll runs while there is something to wait for.\<close>

definition polls :: "hook_state \<Rightarrow> bool" where
  "polls h \<longleftrightarrow> hk_reload h = None \<and> (busy h \<or> justUpdated h)"

inductive step :: "hook_state \<Rightarrow> hook_state \<Rightarrow> bool" where
  load_begin: "step h (load_start force quiet h)"
| load_done: "step h (load_answer t force quiet r h)"
| prepare: "canPrepare h \<Longrightarrow> step h (prepareUpdate t r l h)"
| confirm: "canApply h \<Longrightarrow> step h (confirmUpdate t r l h)"
| rollback: "canRollback h \<Longrightarrow> step h (rollbackTo t r l h)"
| cancel: "canCancel h \<Longrightarrow> step h (cancelPreparedUpdate t c l h)"
| rendered: "step h (render h)"
| tick: "step h (countdown h)"

section \<open>Phases and buttons\<close>

text \<open>
  The phases of an update exclude each other, and so do the actions: applying and cancelling are
  offered only for what is prepared, preparing and rolling back only when nothing is under way, and
  none of them while a call is in progress or the page is about to reload.
\<close>

theorem update_actions_exclusive:
  "length (filter id [applying h, readyToApply h, preparing h]) \<le> 1
   \<and> length (filter id [canPrepare h \<or> canRollback h, canApply h \<or> canCancel h]) \<le> 1
   \<and> (canApply h = (canCancel h \<and> readyToApply h))
   \<and> \<not> ((hk_submitting h \<or> hk_reload h \<noteq> None) \<and> (canPrepare h \<or> canApply h \<or> canCancel h \<or> canRollback h))"
  by (auto simp: canPrepare_def canApply_def canCancel_def canRollback_def preparing_def readyToApply_def busy_def
      idle_page_def)

text \<open>
  The countdown of the page: nothing but its own ticks changes it once it runs, not another answer
  of the server, not another action, and every tick lowers it, so the page reloads after three ticks
  at most.
\<close>

lemma load_reload [simp]: "hk_reload (load_answer t f q r h) = hk_reload h" "hk_reload (load_start f q h) = hk_reload h"
  "hk_reload (submit b h) = hk_reload h" "hk_reload (call_answer t r' h) = hk_reload h"
  "hk_reload (finish_submit h) = hk_reload h"
  by (simp_all add: load_answer_def load_start_def submit_def call_answer_def finish_submit_def Let_def split: sum.split)

lemma calls_reload [simp]: "hk_reload (run_call t f r l h) = hk_reload h"
  "hk_reload (cancelPreparedUpdate t c l h) = hk_reload h"
  by (simp_all add: run_call_def cancelPreparedUpdate_def split: sum.split)

lemma step_reload: "step h h' \<Longrightarrow> hk_reload h' = hk_reload h \<or> h' = render h \<or> h' = countdown h"
  by (induction rule: step.induct) (simp_all add: prepareUpdate_def confirmUpdate_def rollbackTo_def)

inductive steps :: "hook_state \<Rightarrow> nat \<Rightarrow> hook_state \<Rightarrow> bool" where
  none: "steps h 0 h"
| other: "steps h n h' \<Longrightarrow> step h' h'' \<Longrightarrow> h'' \<noteq> countdown h' \<Longrightarrow> steps h n h''"
| counted: "steps h n h' \<Longrightarrow> steps h (Suc n) (countdown h')"

lemma steps_countdown:
  "steps h n h' \<Longrightarrow> hk_reload h = Some 3 \<Longrightarrow> hk_reload h' = Some (max 0 (3 - int n))"
proof (induction rule: steps.induct)
  case (other h n h' h'')
  with step_reload [OF other(2)] show ?case by (auto simp: render_def)
qed (auto simp: countdown_def)

text \<open>C30: \<open>steps h n h'\<close>: a run of the hook with \<open>n\<close> ticks of the countdown among its steps.\<close>

theorem reload_after_update:
  assumes "justUpdated h" and "hk_reload h = None" and "steps (render h) n h'"
  shows "hk_reload h' = Some (max 0 (3 - int n)) \<and> (3 \<le> n) = reload_due h'
    \<and> \<not> canPrepare h' \<and> \<not> canApply h' \<and> \<not> canCancel h' \<and> \<not> canRollback h' \<and> \<not> polls h'"
proof -
  have "hk_reload (render h) = Some 3" using assms(1,2) by (simp add: render_def)
  with steps_countdown [OF assms(3)] have "hk_reload h' = Some (max 0 (3 - int n))" by simp
  then show ?thesis
    by (simp add: reload_due_def canPrepare_def canApply_def canCancel_def canRollback_def idle_page_def polls_def)
qed

definition updated_hook :: hook_state where
  "updated_hook = initial_hook\<lparr>hk_initial := js ''v1'', hk_info := Some
     \<lparr>ui_current = js ''v2'', ui_next = None, ui_rollbacks = 0, ui_has_update = False, ui_managed = True,
      ui_agent = \<lparr>ag_available = True, ag_state = js ''succeeded'', ag_target = None, ag_error = None, ag_started = None\<rparr>,
      ui_update = None\<rparr>\<rparr>"

theorem reload_after_update_witness:
  "reload_due (countdown (countdown (countdown (render updated_hook))))"
proof -
  have u: "justUpdated updated_hook" "hk_reload updated_hook = None"
    by (simp_all add: justUpdated_def updated_hook_def initial_hook_def succeeded_def agentState_def)
  have "steps (render updated_hook) (Suc (Suc (Suc 0))) (countdown (countdown (countdown (render updated_hook))))"
    by (rule steps.counted steps.none)+
  from reload_after_update [OF u this] show ?thesis by simp
qed

text \<open>
  A failed update is never hidden: whatever load brings the failure shows a message (when the
  interface has one for it), and quiet polls that bring no failure leave the shown error alone.
\<close>

lemma failure_shown:
  assumes "update_failed i" and "t ''updateFailedHint'' [] \<noteq> []"
  shows "hk_error (load_answer t force quiet (Inr i) h) \<noteq> []"
  using assms by (auto simp: load_answer_def failure_text_def Let_def)

lemma quiet_keeps_error: "\<not> update_failed i \<Longrightarrow> hk_error (load_answer t force True (Inr i) h) = hk_error h"
  by (simp add: load_answer_def Let_def)

end
