(* ===== verification/Front_Import.thy ===== *)
theory Front_Import
  imports Front_Prelude Js_Json
begin

text \<open>
  The import of account bundles: what a parsed bundle is (\<open>frontend/src/lib/accountImportDetect.ts\<close>), the
  bundle that is sent for it and the summary of the result (\<open>frontend/src/lib/workbuddyImport.ts\<close>).
\<close>

section \<open>Reading a bundle\<close>

datatype import_region = Cn | Global
datatype confidence = High | Medium | Low

record detection =
  de_format :: "jstr option"
  de_provider :: "jstr option"
  de_region :: "import_region option"
  de_ambiguous :: bool
  de_confidence :: confidence
  de_warnings :: "jstr list"
  de_supported :: bool

definition FORMAT_TO_PROVIDER :: "(string \<times> string) list" where
  "FORMAT_TO_PROVIDER =
     [(''workbuddy-accounts'', ''workbuddy''), (''workbuddy-oauth-v1'', ''workbuddy''),
      (''qoder-native-v1'', ''qoder''), (''trae-oauth-v1'', ''trae''), (''devin-session-v1'', ''devin''),
      (''command-key-v1'', ''command''), (''codex-oauth-v1'', ''codex''), (''zhipu-key-v1'', ''zhipu''),
      (''qwenwork-oauth-v1'', ''qwenwork''), (''meta-oauth-v1'', ''meta''), (''meta-key-v1'', ''meta'')]"

text \<open>Own properties of the table; names inherited by every object are not formats.\<close>

definition format_provider :: "jstr \<Rightarrow> jstr option" where
  "format_provider f = (case find (\<lambda>p. js (fst p) = f) FORMAT_TO_PROVIDER of None \<Rightarrow> None | Some p \<Rightarrow> Some (js (snd p)))"

definition CN_DOMAIN_MARKERS :: "string list" where
  "CN_DOMAIN_MARKERS = [''codebuddy.cn'', ''workbuddy.cn'']"

definition GLOBAL_DOMAIN_MARKERS :: "string list" where
  "GLOBAL_DOMAIN_MARKERS = [''workbuddy.ai'', ''workbuddy.com'']"

definition isPlainObject :: "jsval \<Rightarrow> bool" where
  "isPlainObject v \<longleftrightarrow> is_object v \<and> \<not> is_array v"

definition str_of :: "jsval \<Rightarrow> jstr" where
  "str_of v = (case v of JStr s \<Rightarrow> s | _ \<Rightarrow> [])"

text \<open>The alias of the code maps its name to itself once it is in lower case.\<close>

definition normalizeFormatAlias :: "jstr \<Rightarrow> jstr" where
  "normalizeFormatAlias raw =
     (let t = trim raw; l = to_lower t in
      if t = [] then [] else if l = js ''workbuddy-accounts'' then js ''workbuddy-accounts'' else l)"

definition readFormatHint :: "jsval \<Rightarrow> jstr" where
  "readFormatHint b =
     (if is_string (pget b ''format'') \<and> trim (str_of (pget b ''format'')) \<noteq> []
      then normalizeFormatAlias (str_of (pget b ''format''))
      else if is_string (pget b ''exportType'') \<and> trim (str_of (pget b ''exportType'')) \<noteq> []
      then normalizeFormatAlias (str_of (pget b ''exportType''))
      else [])"

definition domain_of :: "jsval \<Rightarrow> jstr list" where
  "domain_of v = (case v of JStr s \<Rightarrow> if trim s = [] then [] else [to_lower (trim s)] | _ \<Rightarrow> [])"

definition object_domain :: "jsval \<Rightarrow> jstr list" where
  "object_domain v = (if isPlainObject v then domain_of (pget v ''domain'') else [])"

definition entry_domains :: "jsval \<Rightarrow> jstr list" where
  "entry_domains e = domain_of (pget e ''domain'') @ object_domain (pget e ''account'') @ object_domain (pget e ''auth'')"

definition collectDomains :: "jsval \<Rightarrow> jstr list" where
  "collectDomains b =
     entry_domains b @ concat (map (\<lambda>e. if isPlainObject e then entry_domains e else []) (items (pget b ''accounts'')))"

definition domainLooksCN :: "jstr \<Rightarrow> bool" where
  "domainLooksCN d \<longleftrightarrow> list_ex (\<lambda>m. contains (js m) d) CN_DOMAIN_MARKERS"

definition domainLooksGlobal :: "jstr \<Rightarrow> bool" where
  "domainLooksGlobal d \<longleftrightarrow> list_ex (\<lambda>m. contains (js m) d) GLOBAL_DOMAIN_MARKERS"

definition hasTokenField :: "jsval \<Rightarrow> bool" where
  "hasTokenField e \<longleftrightarrow> is_string (pget e ''accessToken'') \<or> is_string (pget e ''access_token'')
     \<or> is_string (pget e ''refreshToken'') \<or> is_string (pget e ''refresh_token'')"

definition looksLikeWorkbuddyAccountsEntry :: "jsval \<Rightarrow> bool" where
  "looksLikeWorkbuddyAccountsEntry e \<longleftrightarrow> isPlainObject e \<and>
     (hasTokenField e \<or> is_string (pget e ''domain'') \<or> is_string (pget e ''uid'')
      \<or> (let account = pget e ''account''; auth = pget e ''auth'' in
           isPlainObject auth \<and> (hasTokenField auth \<or> is_string (pget auth ''domain''))
           \<or> isPlainObject account \<and> (is_string (pget account ''uid'') \<or> is_string (pget account ''domain''))))"

definition detectWorkbuddyRegion :: "jsval \<Rightarrow> import_region option \<times> bool \<times> jstr list" where
  "detectWorkbuddyRegion b =
     (let ds = collectDomains b; cn = list_ex domainLooksCN ds; gl = list_ex domainLooksGlobal ds in
      if ds = [] then (Some Cn, True, [js ''region_unknown''])
      else if cn \<and> gl then (None, True, [js ''region_mixed''])
      else if cn then (Some Cn, False, [])
      else if gl then (Some Global, False, [])
      else (Some Cn, True, [js ''region_unknown'']))"

definition dca_token :: "jsval \<Rightarrow> bool" where
  "dca_token v \<longleftrightarrow> is_string v \<and> starts_with (js ''dca:'') (str_of v)"

definition meta_url :: "jsval \<Rightarrow> bool" where
  "meta_url v \<longleftrightarrow> is_string v \<and> contains (js ''meta.ai'') (str_of v)"

definition detectByShape :: "jsval \<Rightarrow> (string \<times> string) option \<times> confidence" where
  "detectByShape b =
     (if list_ex looksLikeWorkbuddyAccountsEntry (items (pget b ''accounts''))
      then (Some (''workbuddy-accounts'', ''workbuddy''), Medium)
      else if (is_string (pget b ''user_blob'') \<or> is_string (pget b ''userBlob''))
           \<and> (is_string (pget b ''machine_id'') \<or> is_string (pget b ''machineId''))
      then (Some (''qoder-native-v1'', ''qoder''), Medium)
      else if is_string (pget b ''session_token'') \<or> is_string (pget b ''sessionToken'')
      then (Some (''devin-session-v1'', ''devin''), Low)
      else if hasTokenField b \<or> (isPlainObject (pget b ''account'') \<and> hasTokenField (pget b ''account''))
           \<or> isPlainObject (pget b ''auth'')
      then (Some (''workbuddy-oauth-v1'', ''workbuddy''), Low)
      else if is_string (pget b ''dca_token'') \<or> is_string (pget b ''dcaToken'')
           \<or> dca_token (pget b ''access_token'') \<or> dca_token (pget b ''accessToken'')
      then (Some (''meta-oauth-v1'', ''meta''), Medium)
      else if is_string (pget b ''api_key'') \<or> is_string (pget b ''apiKey'')
      then (if is_string (pget b ''organization'') \<or> is_string (pget b ''project'')
            then (Some (''zhipu-key-v1'', ''zhipu''), Low)
            else if meta_url (pget b ''base_url'') \<or> meta_url (pget b ''baseUrl'') \<or> is_string (pget b ''email'')
            then (Some (''meta-key-v1'', ''meta''), Low)
            else (Some (''command-key-v1'', ''command''), Low))
      else (None, Low))"

definition raw_hint :: "jsval \<Rightarrow> jstr" where
  "raw_hint b = (if trim (str_of (pget b ''format'')) \<noteq> [] then trim (str_of (pget b ''format''))
     else trim (str_of (pget b ''exportType'')))"

text \<open>The format, the provider, the confidence and the warnings: from the hint when it is known, else from the shape.\<close>

definition classify :: "jsval \<Rightarrow> jstr option \<times> jstr option \<times> confidence \<times> jstr list" where
  "classify raw =
     (let hint = readFormatHint raw in
      case (if hint = [] then None else format_provider hint) of
        Some p \<Rightarrow> (Some hint, Some p, High, [])
      | None \<Rightarrow>
          (let (shaped, c) = detectByShape raw in
           (if hint \<noteq> [] then Some hint else (case shaped of None \<Rightarrow> None | Some fp \<Rightarrow> Some (js (fst fp))),
            (case shaped of None \<Rightarrow> None | Some fp \<Rightarrow> Some (js (snd fp))),
            (if hint \<noteq> [] then Low else c),
            (if raw_hint raw \<noteq> [] then [js ''unknown_format''] else []))))"

definition detectImportBundle :: "jsval \<Rightarrow> detection" where
  "detectImportBundle raw =
     (if \<not> isPlainObject raw
      then \<lparr>de_format = None, de_provider = None, de_region = None, de_ambiguous = True, de_confidence = Low,
            de_warnings = [js ''not_object''], de_supported = False\<rparr>
      else
        (let (format, provider, confidence, warnings) = classify raw;
             wb = (provider = Some (js ''workbuddy''));
             (region, ambiguous, region_warnings) = (if wb then detectWorkbuddyRegion raw else (None, False, [])) in
         \<lparr>de_format = (if wb \<and> is_array (pget raw ''accounts'') then Some (js ''workbuddy-accounts'') else format),
          de_provider = provider, de_region = region, de_ambiguous = ambiguous, de_confidence = confidence,
          de_warnings = warnings @ region_warnings, de_supported = wb\<rparr>))"

text \<open>\<open>parseImportBundleText\<close>; \<open>None\<close> is its error \<open>bad_json\<close>.\<close>

definition parseImportBundleText :: "jstr \<Rightarrow> jsval option" where
  "parseImportBundleText text = (case json_parse text of
     None \<Rightarrow> None | Some v \<Rightarrow> if isPlainObject v then Some v else None)"

section \<open>The bundle that is sent\<close>

record import_options =
  io_region :: import_region
  io_name :: "jstr option"
  io_enabled :: "bool option"
  io_max_inflight :: "jsnum option"
  io_priority :: "jsnum option"
  io_drop_system :: "bool option"
  io_proxy :: "jstr option"

definition region_text :: "import_region \<Rightarrow> jsval" where
  "region_text r = (case r of Cn \<Rightarrow> jlit ''cn'' | Global \<Rightarrow> jlit ''global'')"

definition fill_format :: "jsval \<Rightarrow> jsval" where
  "fill_format b =
     (let accounts = (pget b ''format'' = jlit ''workbuddy-accounts'' \<or> is_array (pget b ''accounts'')) in
      if \<not> truthy (pget b ''format'')
      then spread b [(''format'', if accounts then jlit ''workbuddy-accounts'' else jlit ''workbuddy-oauth-v1'')]
      else if accounts then spread b [(''format'', jlit ''workbuddy-accounts'')]
      else spread b [])"

definition normalizeWorkbuddyImportBundle :: "jsval \<Rightarrow> import_options \<Rightarrow> jsval" where
  "normalizeWorkbuddyImportBundle bundle o' =
     (let next = fill_format bundle in
      spread next
        ([(''name'', js_or (JStr (trim (str_or_empty (io_name o')))) (pget next ''name'')),
          (''enabled'', JBool (opt_or (io_enabled o') True)),
          (''provider'', jlit ''workbuddy''),
          (''region'', region_text (io_region o')),
          (''max_inflight'', JNum (opt_or (io_max_inflight o') (Fin 4))),
          (''priority'', JNum (opt_or (io_priority o') (Fin 50))),
          (''drop_system_prompt'', JBool (opt_or (io_drop_system o') True))]
         @ (if str_or_empty (io_proxy o') = [] then [] else [(''proxy_url'', JStr (str_or_empty (io_proxy o')))])))"

section \<open>The summary of the result\<close>

fun replace_first :: "jstr \<Rightarrow> jstr \<Rightarrow> jstr \<Rightarrow> jstr" where
  "replace_first p d [] = []"
| "replace_first p d (c # s) = (if starts_with p (c # s) then d @ drop (length p) (c # s) else c # replace_first p d s)"

definition count_of :: "jsval \<Rightarrow> jsnum \<Rightarrow> jsnum" where
  "count_of v d = (case v of JNum n \<Rightarrow> n | _ \<Rightarrow> d)"

definition failure_summary :: "jsval \<Rightarrow> jstr" where
  "failure_summary result =
     join (js ''; '') (filter (\<lambda>m. m \<noteq> []) (map (\<lambda>i. to_string (js_or (pget i ''message'')
       (JStr (js ''index '' @ to_string (pget i ''index''))))) (take 3 (items (pget result ''errors'')))))"

definition summarizeWorkbuddyImportResult :: "jsval \<Rightarrow> (string \<Rightarrow> jstr) \<Rightarrow> jsnum \<times> jsnum \<times> jstr" where
  "summarizeWorkbuddyImportResult result t =
     (let succeeded = count_of (pget result ''succeeded'') (if truthy result then Fin 1 else Fin 0);
          failed = count_of (pget result ''failed'') (Fin 0);
          failures = failure_summary result in
      (succeeded, failed,
       (if \<not> num_le failed (Fin 0) \<and> failed \<noteq> NaN
        then replace_first (js ''{fail}'') (num_to_str failed)
               (replace_first (js ''{ok}'') (num_to_str succeeded) (t ''accountImportPartial''))
             @ (if failures = [] then [] else js '' '' @ [0x2014] @ js '' '' @ failures)
        else if \<not> num_le succeeded (Fin 1) \<and> succeeded \<noteq> NaN
        then replace_first (js ''{n}'') (num_to_str succeeded) (t ''accountImportBatch'')
        else t ''accountImported'')))"

section \<open>What detection and normalisation agree on\<close>

text \<open>The fields that the normalisation writes are none of those the detection reads, but for the format.\<close>

definition read_fields :: "string list" where
  "read_fields = [''exportType'', ''domain'', ''account'', ''auth'', ''accounts'', ''accessToken'', ''access_token'',
     ''refreshToken'', ''refresh_token'', ''user_blob'', ''userBlob'', ''machine_id'', ''machineId'', ''session_token'',
     ''sessionToken'', ''dca_token'', ''dcaToken'', ''api_key'', ''apiKey'', ''organization'', ''project'', ''base_url'',
     ''baseUrl'', ''email'']"

definition agree :: "jsval \<Rightarrow> jsval \<Rightarrow> bool" where
  "agree a b \<longleftrightarrow> (\<forall>k \<in> set read_fields. pget a k = pget b k)"

lemma agree_pget: "agree a b \<Longrightarrow> k \<in> set read_fields \<Longrightarrow> pget a k = pget b k"
  by (simp add: agree_def)

lemma agree_shape:
  assumes "agree a b"
  shows "detectByShape a = detectByShape b" and "detectWorkbuddyRegion a = detectWorkbuddyRegion b"
proof -
  have "pget a k = pget b k" if "k \<in> set read_fields" for k using assms that by (rule agree_pget)
  then have eq: "list_all (\<lambda>k. pget a k = pget b k) read_fields" by (simp add: list_all_iff)
  note eq = eq [unfolded read_fields_def list.pred_inject]
  show "detectByShape a = detectByShape b"
    unfolding detectByShape_def hasTokenField_def by (simp only: eq)
  show "detectWorkbuddyRegion a = detectWorkbuddyRegion b"
    unfolding detectWorkbuddyRegion_def collectDomains_def entry_domains_def by (simp only: eq)
qed

lemma fill_format_frame: "k \<noteq> ''format'' \<Longrightarrow> pget (fill_format b) k = pget b k"
  by (simp add: fill_format_def pget_spread Let_def)

lemma fill_format_value:
  "pget (fill_format b) ''format'' =
     (if is_array (pget b ''accounts'') then jlit ''workbuddy-accounts''
      else if truthy (pget b ''format'') then pget b ''format'' else jlit ''workbuddy-oauth-v1'')"
  by (auto simp: fill_format_def pget_spread Let_def)

lemma normalize_agrees: "agree (normalizeWorkbuddyImportBundle b o') b"
  by (simp add: agree_def read_fields_def normalizeWorkbuddyImportBundle_def pget_spread fill_format_frame Let_def)

lemma normalize_format: "pget (normalizeWorkbuddyImportBundle b o') ''format'' = pget (fill_format b) ''format''"
  by (simp add: normalizeWorkbuddyImportBundle_def pget_spread Let_def)

lemma normalize_object: "isPlainObject (normalizeWorkbuddyImportBundle b o')"
  by (simp add: isPlainObject_def normalizeWorkbuddyImportBundle_def Let_def spread_def)

lemma known_formats:
  "readFormatHint b = js ''workbuddy-accounts'' \<or> readFormatHint b = js ''workbuddy-oauth-v1'' \<Longrightarrow>
     fst (snd (classify b)) = Some (js ''workbuddy'')"
  by (auto simp: classify_def format_provider_def FORMAT_TO_PROVIDER_def Let_def)

lemma hint_of_literal:
  "pget b ''format'' = jlit ''workbuddy-accounts'' \<Longrightarrow> readFormatHint b = js ''workbuddy-accounts''"
  "pget b ''format'' = jlit ''workbuddy-oauth-v1'' \<Longrightarrow> readFormatHint b = js ''workbuddy-oauth-v1''"
proof -
  have "trim (js ''workbuddy-accounts'') = js ''workbuddy-accounts''" "to_lower (js ''workbuddy-accounts'') = js ''workbuddy-accounts''"
    "trim (js ''workbuddy-oauth-v1'') = js ''workbuddy-oauth-v1''" "to_lower (js ''workbuddy-oauth-v1'') = js ''workbuddy-oauth-v1''"
    by code_simp+
  then show "pget b ''format'' = jlit ''workbuddy-accounts'' \<Longrightarrow> readFormatHint b = js ''workbuddy-accounts''"
    "pget b ''format'' = jlit ''workbuddy-oauth-v1'' \<Longrightarrow> readFormatHint b = js ''workbuddy-oauth-v1''"
    by (simp_all add: readFormatHint_def str_of_def normalizeFormatAlias_def Let_def)
qed

text \<open>What the provider and the region depend on.\<close>

lemma classify_provider:
  "fst (snd (classify b)) =
     (case (if readFormatHint b = [] then None else format_provider (readFormatHint b)) of
        Some p \<Rightarrow> Some p
      | None \<Rightarrow> (case fst (detectByShape b) of None \<Rightarrow> None | Some fp \<Rightarrow> Some (js (snd fp))))"
  by (simp add: classify_def Let_def case_prod_beta split: option.split)

lemma detect_provider: "isPlainObject b \<Longrightarrow> de_provider (detectImportBundle b) = fst (snd (classify b))"
  by (simp add: detectImportBundle_def Let_def case_prod_beta)

lemma detect_region:
  "isPlainObject b \<Longrightarrow> fst (snd (classify b)) = Some (js ''workbuddy'') \<Longrightarrow>
     de_region (detectImportBundle b) = fst (detectWorkbuddyRegion b)
     \<and> de_ambiguous (detectImportBundle b) = fst (snd (detectWorkbuddyRegion b))
     \<and> de_supported (detectImportBundle b)"
  by (simp add: detectImportBundle_def Let_def case_prod_beta)

lemma same_hint:
  assumes "pget b ''format'' = pget c ''format''" and "pget b ''exportType'' = pget c ''exportType''"
  shows "readFormatHint b = readFormatHint c"
  using assms by (simp add: readFormatHint_def)

text \<open>
  What the import sends is what it detected: a bundle recognised as WorkBuddy stays one after it has
  been filled in for the request, whatever options the user chose, with the same region found in its
  domains and the same need to ask for it.
\<close>

theorem normalized_bundle_detected:
  assumes "de_provider (detectImportBundle b) = Some (js ''workbuddy'')"
  shows "de_provider (detectImportBundle (normalizeWorkbuddyImportBundle b o')) = Some (js ''workbuddy'')
    \<and> de_supported (detectImportBundle (normalizeWorkbuddyImportBundle b o'))
    \<and> de_region (detectImportBundle (normalizeWorkbuddyImportBundle b o')) = de_region (detectImportBundle b)
    \<and> de_ambiguous (detectImportBundle (normalizeWorkbuddyImportBundle b o')) = de_ambiguous (detectImportBundle b)"
proof -
  let ?n = "normalizeWorkbuddyImportBundle b o'"
  have obj: "isPlainObject b" using assms by (auto simp: detectImportBundle_def split: if_splits)
  have shape: "detectByShape ?n = detectByShape b" "detectWorkbuddyRegion ?n = detectWorkbuddyRegion b"
    by (rule agree_shape [OF normalize_agrees])+
  have ext: "pget ?n ''exportType'' = pget b ''exportType''"
    by (rule agree_pget [OF normalize_agrees]) (simp add: read_fields_def)
  have wb: "fst (snd (classify b)) = Some (js ''workbuddy'')"
    using assms by (simp add: detect_provider [OF obj])
  have provider: "fst (snd (classify ?n)) = Some (js ''workbuddy'')"
  proof (cases "pget ?n ''format'' = pget b ''format''")
    case True
    then have hint: "readFormatHint ?n = readFormatHint b" using ext by (rule same_hint)
    show ?thesis using wb unfolding classify_provider hint shape .
  next
    case False
    then have "pget ?n ''format'' = jlit ''workbuddy-accounts'' \<or> pget ?n ''format'' = jlit ''workbuddy-oauth-v1''"
      unfolding normalize_format fill_format_value by (auto split: if_splits)
    then show ?thesis using known_formats [of ?n] hint_of_literal [of ?n] by blast
  qed
  with detect_region [OF normalize_object provider] detect_region [OF obj wb] show ?thesis
    by (simp add: shape detect_provider [OF normalize_object])
qed

definition example_bundle :: jsval where
  "example_bundle = JObj [(js ''accounts'', JArr [JObj [(js ''domain'', jlit ''workbuddy.ai'')]])]"

lemma example_detected: "de_provider (detectImportBundle example_bundle) = Some (js ''workbuddy'')"
  by code_simp

theorem normalized_bundle_detected_witness:
  "de_region (detectImportBundle (normalizeWorkbuddyImportBundle example_bundle
     \<lparr>io_region = Cn, io_name = None, io_enabled = None, io_max_inflight = None, io_priority = None,
      io_drop_system = None, io_proxy = None\<rparr>)) = de_region (detectImportBundle example_bundle)"
  using normalized_bundle_detected [OF example_detected] by blast

text \<open>
  The region is settled without the user only by a domain: it is unambiguous exactly when some domain
  of the bundle carries a marker of one region and none carries one of the other, and then it is
  that region.
\<close>

theorem region_settled_by_domains:
  "detectWorkbuddyRegion b =
     (if list_ex domainLooksCN (collectDomains b) \<and> \<not> list_ex domainLooksGlobal (collectDomains b) then (Some Cn, False, [])
      else if list_ex domainLooksGlobal (collectDomains b) \<and> \<not> list_ex domainLooksCN (collectDomains b)
      then (Some Global, False, [])
      else (if list_ex domainLooksCN (collectDomains b) then None else Some Cn, True,
            [js (if list_ex domainLooksCN (collectDomains b) then ''region_mixed'' else ''region_unknown'')]))"
  by (cases "collectDomains b") (simp_all add: detectWorkbuddyRegion_def Let_def)

text \<open>
  The test for Meta's \<open>dca:\<close> tokens under \<open>access_token\<close> is never reached: every bundle with such a
  field is taken for one of WorkBuddy before it, unless it is taken for Qoder or Devin.
\<close>

theorem dca_access_token_unreached:
  assumes "dca_token (pget b ''access_token'') \<or> dca_token (pget b ''accessToken'')"
  shows "fst (detectByShape b) \<noteq> Some (''meta-oauth-v1'', ''meta'')"
  using assms by (auto simp: detectByShape_def hasTokenField_def dca_token_def)

theorem dca_access_token_unreached_witness:
  "fst (detectByShape (JObj [(js ''access_token'', jlit ''dca:1'')])) \<noteq> Some (''meta-oauth-v1'', ''meta'')"
proof (rule dca_access_token_unreached)
  have "starts_with (js ''dca:'') (js ''dca:1'')" by code_simp
  then show "dca_token (pget (JObj [(js ''access_token'', jlit ''dca:1'')]) ''access_token'')
     \<or> dca_token (pget (JObj [(js ''access_token'', jlit ''dca:1'')]) ''accessToken'')"
    by (simp add: dca_token_def str_of_def)
qed

end
