(* ===== verification/Front_Releases.thy ===== *)
theory Front_Releases
  imports Front_Prelude
begin

text \<open>
  Release notes and the list of versions (\<open>frontend/src/lib/releaseNotes.ts\<close>, \<open>versionHistory.ts\<close>): the
  section of a language, inline and block markup, and the releases without duplicates. The regular
  expressions are written out as scanners: their classes leave the matcher no choice.
\<close>

section \<open>Lines\<close>

text \<open>\<open>split(/\r?\n/)\<close>: a carriage return before the line feed belongs to the separator.\<close>

definition drop_cr :: "jstr \<Rightarrow> jstr" where
  "drop_cr l = (if l \<noteq> [] \<and> last l = 13 then butlast l else l)"

definition split_lines :: "jstr \<Rightarrow> jstr list" where
  "split_lines s = (let ls = split_on 10 s in map drop_cr (butlast ls) @ [last ls])"

text \<open>\<open>replace(/\r\n/g, '\n').split('\n')\<close> has the same lines.\<close>

fun crlf :: "jstr \<Rightarrow> jstr" where
  "crlf (c # d # s) = (if c = 13 \<and> d = 10 then 10 # crlf s else c # crlf (d # s))"
| "crlf s = s"

definition line_end :: "u16 \<Rightarrow> bool" where
  "line_end c \<longleftrightarrow> c = 10 \<or> c = 13 \<or> c = 0x2028 \<or> c = 0x2029"

section \<open>Language sections\<close>

datatype lang = Zh | En

definition ZH_TITLES :: "jstr list" where
  "ZH_TITLES = [[0x4E2D, 0x6587], js ''chinese'', js ''zh'', js ''zh-cn'', js ''zh-hans'']"

definition EN_TITLES :: "jstr list" where
  "EN_TITLES = [js ''english'', js ''en'']"

definition isWantedLang :: "jstr \<Rightarrow> lang \<Rightarrow> bool" where
  "isWantedLang title l = (let k = to_lower (trim title) in k \<in> set (case l of Zh \<Rightarrow> ZH_TITLES | En \<Rightarrow> EN_TITLES))"

text \<open>Marks, white space, rest: the shape of every heading.\<close>

definition hash_line :: "nat \<Rightarrow> jstr \<Rightarrow> (nat \<times> jstr) option" where
  "hash_line most l =
     (let n = length (takeWhile (\<lambda>c. c = 35) l); r = dropWhile (\<lambda>c. c = 35) l in
      if 1 \<le> n \<and> n \<le> most \<and> r \<noteq> [] \<and> is_ws (hd r) then Some (n, r) else None)"

text \<open>\<open>LANG_HEADING_RE\<close> on a trimmed line, which has no white space at its end.\<close>

definition lang_heading :: "jstr \<Rightarrow> jstr option" where
  "lang_heading l = (case hash_line 3 l of
     None \<Rightarrow> None
   | Some (n, r) \<Rightarrow> (let t = dropWhile is_ws r in
       if map (fold_unit True) t \<in> set (EN_TITLES @ ZH_TITLES) then Some t else None))"

definition lang_headings :: "jstr list \<Rightarrow> (nat \<times> jstr) list" where
  "lang_headings ls = concat (map (\<lambda>(i, l). case lang_heading (trim l) of None \<Rightarrow> [] | Some t \<Rightarrow> [(i, t)]) (enumerate 0 ls))"

fun sections_from :: "jstr list \<Rightarrow> (nat \<times> jstr) list \<Rightarrow> (jstr \<times> jstr) list" where
  "sections_from ls [] = []"
| "sections_from ls ((i, t) # hs) =
     (let stop = (case hs of [] \<Rightarrow> length ls | h # _ \<Rightarrow> fst h) in
      (t, join [10] (drop (i + 1) (take stop ls))) # sections_from ls hs)"

definition splitLanguageSections :: "jstr \<Rightarrow> (jstr \<times> jstr) list option" where
  "splitLanguageSections text =
     (let ls = split_lines text; hs = lang_headings ls in
      if hs = [] then None else Some (sections_from ls hs))"

definition extractReleaseNotes :: "jstr option \<Rightarrow> lang \<Rightarrow> jstr" where
  "extractReleaseNotes body l =
     (let t = trim (str_or_empty body) in
      if t = [] then []
      else case splitLanguageSections t of
        None \<Rightarrow> t
      | Some ss \<Rightarrow>
          (case find (\<lambda>s. isWantedLang (fst s) l) ss of
             Some s \<Rightarrow> trim (snd s)
           | None \<Rightarrow> (let first = (case ss of [] \<Rightarrow> [] | s # _ \<Rightarrow> trim (snd s)) in if first = [] then t else first)))"

section \<open>Inline markup\<close>

datatype inline = Text jstr | Code jstr | Strong jstr | Link jstr jstr

text \<open>
  The alternatives of \<open>INLINE_RE\<close> at a position: the node, and the text after the match. A link keeps
  its text and its address.
\<close>

definition code_at :: "jstr \<Rightarrow> (inline \<times> jstr) option" where
  "code_at s = (case s of
     c # r \<Rightarrow> (if c = 96 then
         (let v = takeWhile (\<lambda>c. c \<noteq> 96) r; t = dropWhile (\<lambda>c. c \<noteq> 96) r in
          if v \<noteq> [] \<and> t \<noteq> [] then Some (Code v, tl t) else None) else None)
   | [] \<Rightarrow> None)"

definition strong_at :: "jstr \<Rightarrow> (inline \<times> jstr) option" where
  "strong_at s =
     (if starts_with [42, 42] s then
        (let r = drop 2 s; v = takeWhile (\<lambda>c. c \<noteq> 42) r; t = dropWhile (\<lambda>c. c \<noteq> 42) r in
         if v \<noteq> [] \<and> starts_with [42, 42] t then Some (Strong v, drop 2 t) else None)
      else None)"

definition url_at :: "jstr \<Rightarrow> (jstr \<times> jstr) option" where
  "url_at s =
     (let scheme = (if starts_with (js ''https://'') s then js ''https://''
                    else if starts_with (js ''http://'') s then js ''http://'' else []);
          r = drop (length scheme) s;
          v = takeWhile (\<lambda>c. c \<noteq> 41 \<and> \<not> is_ws c) r; t = dropWhile (\<lambda>c. c \<noteq> 41 \<and> \<not> is_ws c) r in
      if scheme \<noteq> [] \<and> v \<noteq> [] \<and> t \<noteq> [] \<and> hd t = 41 then Some (scheme @ v, tl t) else None)"

definition link_at :: "jstr \<Rightarrow> (inline \<times> jstr) option" where
  "link_at s = (case s of
     c # r \<Rightarrow> (if c = 91 then
         (let v = takeWhile (\<lambda>c. c \<noteq> 93) r; t = dropWhile (\<lambda>c. c \<noteq> 93) r in
          if v \<noteq> [] \<and> starts_with [93, 40] t then
            (case url_at (drop 2 t) of None \<Rightarrow> None | Some (u, t') \<Rightarrow> Some (Link v u, t'))
          else None) else None)
   | [] \<Rightarrow> None)"

definition inline_at :: "jstr \<Rightarrow> (inline \<times> jstr) option" where
  "inline_at s = or_else (code_at s) (or_else (strong_at s) (link_at s))"

text \<open>What a node was written as.\<close>

fun source_of :: "inline \<Rightarrow> jstr" where
  "source_of (Text v) = v"
| "source_of (Code v) = [96] @ v @ [96]"
| "source_of (Strong v) = [42, 42] @ v @ [42, 42]"
| "source_of (Link v u) = [91] @ v @ [93, 40] @ u @ [41]"

lemma cut_at: "dropWhile P r \<noteq> [] \<Longrightarrow> hd (dropWhile P r) = d \<Longrightarrow> takeWhile P r @ d # tl (dropWhile P r) = r"
  using takeWhile_dropWhile_id [of P r] by (metis list.collapse)

lemma starts_two: "starts_with [a, b] s \<Longrightarrow> a # b # drop 2 s = s"
  unfolding starts_with_append by auto

lemma starts_rest: "starts_with p s \<Longrightarrow> p @ drop (length p) s = s"
  unfolding starts_with_append by auto

lemma cut_two: "starts_with [a, b] (dropWhile P r) \<Longrightarrow> takeWhile P r @ a # b # drop 2 (dropWhile P r) = r"
  using takeWhile_dropWhile_id [of P r] starts_two by metis

lemma code_at_source: "code_at s = Some (n, t) \<Longrightarrow> s = source_of n @ t"
proof (cases s)
  case (Cons c r)
  assume "code_at s = Some (n, t)"
  with Cons have c: "c = 96" and n: "n = Code (takeWhile (\<lambda>c. c \<noteq> 96) r)" and d: "dropWhile (\<lambda>c. c \<noteq> 96) r \<noteq> []"
    and t: "t = tl (dropWhile (\<lambda>c. c \<noteq> 96) r)"
    by (auto simp: code_at_def Let_def split: if_splits)
  have "hd (dropWhile (\<lambda>c. c \<noteq> 96) r) = 96" using hd_dropWhile [OF d] by simp
  from cut_at [OF d this] show ?thesis by (simp add: Cons c n t)
qed (simp add: code_at_def)

lemma strong_at_source: "strong_at s = Some (n, t) \<Longrightarrow> s = source_of n @ t"
proof -
  assume a: "strong_at s = Some (n, t)"
  let ?r = "drop 2 s"
  from a have s: "starts_with [42, 42] s" and n: "n = Strong (takeWhile (\<lambda>c. c \<noteq> 42) ?r)"
    and d: "starts_with [42, 42] (dropWhile (\<lambda>c. c \<noteq> 42) ?r)" and t: "t = drop 2 (dropWhile (\<lambda>c. c \<noteq> 42) ?r)"
    by (auto simp: strong_at_def Let_def split: if_splits)
  have "s = 42 # 42 # ?r" using starts_two [OF s] by simp
  also have "?r = takeWhile (\<lambda>c. c \<noteq> 42) ?r @ 42 # 42 # t" unfolding t using cut_two [OF d] by (rule sym)
  finally show ?thesis by (simp add: n)
qed

lemma url_at_source: "url_at s = Some (u, t) \<Longrightarrow> s = u @ [41] @ t"
proof -
  assume a: "url_at s = Some (u, t)"
  define sc where "sc = (if starts_with (js ''https://'') s then js ''https://''
                    else if starts_with (js ''http://'') s then js ''http://'' else [])"
  define r where "r = drop (length sc) s"
  let ?P = "\<lambda>c. c \<noteq> 41 \<and> \<not> is_ws c"
  from a have ne: "dropWhile ?P r \<noteq> []" and hd: "hd (dropWhile ?P r) = 41" and u: "u = sc @ takeWhile ?P r"
    and t: "t = tl (dropWhile ?P r)" unfolding url_at_def Let_def sc_def [symmetric] r_def [symmetric]
    by (auto split: if_splits)
  have "starts_with sc s" by (simp add: sc_def) (simp add: starts_with_def)
  then have "s = sc @ r" unfolding r_def using starts_rest by metis
  also have "r = takeWhile ?P r @ 41 # t" unfolding t using cut_at [OF ne hd] by (rule sym)
  finally show ?thesis by (simp add: u)
qed

lemma link_at_source: "link_at s = Some (n, t) \<Longrightarrow> s = source_of n @ t"
proof (cases s)
  case (Cons c r)
  assume a: "link_at s = Some (n, t)"
  let ?v = "takeWhile (\<lambda>c. c \<noteq> 93) r" and ?t = "dropWhile (\<lambda>c. c \<noteq> 93) r"
  from a Cons obtain u where c: "c = 91" and d: "starts_with [93, 40] ?t" and u: "url_at (drop 2 ?t) = Some (u, t)"
    and n: "n = Link ?v u"
    by (auto simp: link_at_def Let_def split: if_splits option.splits)
  have "r = ?v @ 93 # 40 # drop 2 ?t" using cut_two [OF d] by (rule sym)
  also have "drop 2 ?t = u @ [41] @ t" using url_at_source [OF u] .
  finally show ?thesis by (simp add: Cons c n)
qed (simp add: link_at_def)

lemma inline_at_source: "inline_at s = Some (n, t) \<Longrightarrow> s = source_of n @ t"
  using code_at_source strong_at_source link_at_source
  by (cases "code_at s"; cases "strong_at s") (auto simp: inline_at_def)

lemma source_length: "inline_at s = Some (n, t) \<Longrightarrow> length t < length s"
  using inline_at_source [of s n t] by (cases n) (auto simp: inline_at_def code_at_def strong_at_def link_at_def Let_def
      split: option.splits list.splits if_splits elim: or_else.elims)

text \<open>The matches from the left; \<open>acc\<close> is the text since the last one, in reverse.\<close>

function inline_from :: "jstr \<Rightarrow> jstr \<Rightarrow> inline list" where
  "inline_from acc s =
     (case inline_at s of
        Some (n, t) \<Rightarrow> (if acc = [] then [] else [Text (rev acc)]) @ n # inline_from [] t
      | None \<Rightarrow> (case s of
          [] \<Rightarrow> (if acc = [] then [] else [Text (rev acc)])
        | c # r \<Rightarrow> inline_from (c # acc) r))"
  by pat_completeness auto
termination by (relation "measure (\<lambda>(acc, s). length s)") (auto simp: source_length)

declare inline_from.simps [simp del]

definition parseInline :: "jstr \<Rightarrow> inline list" where
  "parseInline text = (let ns = inline_from [] text in if ns = [] then [Text text] else ns)"

lemma inline_from_source: "concat (map source_of (inline_from acc s)) = rev acc @ s"
proof (induction acc s rule: inline_from.induct)
  case (1 acc s)
  show ?case
  proof (cases "inline_at s")
    case None
    then show ?thesis using 1(1) [OF None] None by (cases s) (simp_all add: inline_from.simps [of acc "[]"] inline_from.simps [of acc "_ # _"])
  next
    case (Some p)
    then obtain n t where p: "inline_at s = Some (n, t)" by (cases p) auto
    have "concat (map source_of (inline_from acc s)) = rev acc @ source_of n @ concat (map source_of (inline_from [] t))"
      by (simp add: inline_from.simps [of acc s] p)
    with 1(2) [OF p refl] inline_at_source [OF p] show ?thesis by simp
  qed
qed

text \<open>
  C28: Parsing inline markup loses nothing: the sources of the nodes, in order, are the text again.
\<close>

theorem parse_inline_roundtrip: "concat (map source_of (parseInline text)) = text \<and> parseInline text \<noteq> []"
  using inline_from_source [of "[]" "text"] by (simp add: parseInline_def Let_def)

section \<open>Blocks\<close>

datatype block = Heading nat jstr | List "jstr list" | Paragraph jstr

definition headingLevel :: "nat \<Rightarrow> nat" where
  "headingLevel marks = (if marks \<le> 2 then 2 else if marks = 3 then 3 else 4)"

text \<open>\<open>/^(#{1,4})\s+(.+)$/\<close>: the last white space is given back when nothing follows it.\<close>

definition heading_at :: "jstr \<Rightarrow> (nat \<times> jstr) option" where
  "heading_at l = (case hash_line 4 l of
     None \<Rightarrow> None
   | Some (n, r) \<Rightarrow>
       (let t = dropWhile is_ws r in
        if t \<noteq> [] then (if list_ex line_end t then None else Some (n, t))
        else if 2 \<le> length r \<and> \<not> line_end (last r) then Some (n, [last r]) else None))"

text \<open>\<open>/^\s*[-*]\s+\S/\<close>, and what \<open>replace(/^\s*[-*]\s+/, '')\<close> leaves of such a line.\<close>

definition list_item :: "jstr \<Rightarrow> jstr option" where
  "list_item l = (case dropWhile is_ws l of
     c # r \<Rightarrow> (if (c = 45 \<or> c = 42) \<and> r \<noteq> [] \<and> is_ws (hd r) \<and> dropWhile is_ws r \<noteq> []
              then Some (dropWhile is_ws r) else None)
   | [] \<Rightarrow> None)"

definition continues_item :: "jstr \<Rightarrow> bool" where
  "continues_item l \<longleftrightarrow> 2 \<le> length (takeWhile is_ws l) \<and> dropWhile is_ws l \<noteq> [] \<and> list_item l = None"

definition continues_paragraph :: "jstr \<Rightarrow> bool" where
  "continues_paragraph l \<longleftrightarrow> trim l \<noteq> [] \<and> hash_line 4 l = None \<and> list_item l = None"

function item_lines :: "jstr list \<Rightarrow> jstr list \<times> jstr list" where
  "item_lines ls = (case ls of
     [] \<Rightarrow> ([], [])
   | l # r \<Rightarrow>
       (case list_item l of
          None \<Rightarrow> ([], ls)
        | Some first \<Rightarrow>
            (let more = takeWhile continues_item r; (xs, rest) = item_lines (dropWhile continues_item r) in
             (concat (first # map (\<lambda>m. 32 # trim m) more) # xs, rest))))"
  by pat_completeness auto
termination
  by (relation "measure length") (auto simp: le_imp_less_Suc length_dropWhile_le)

declare item_lines.simps [simp del]

lemma item_lines_rest: "length (snd (item_lines ls)) \<le> length ls"
proof (induction ls rule: item_lines.induct)
  case (1 ls)
  show ?case
  proof (cases ls)
    case (Cons l r)
    show ?thesis
    proof (cases "list_item l")
      case (Some first)
      have "length (snd (item_lines (dropWhile continues_item r))) \<le> length (dropWhile continues_item r)"
        by (rule 1) (use Cons Some in auto)
      also have "\<dots> \<le> length r" by (rule length_dropWhile_le)
      finally show ?thesis
        using Some unfolding Cons by (simp add: item_lines.simps [of "l # r"] Let_def case_prod_beta)
    qed (simp add: item_lines.simps [of "l # r"] Cons)
  qed (simp add: item_lines.simps [of "[]"])
qed

lemma item_lines_step: "list_item l = Some x \<Longrightarrow> length (snd (item_lines (l # r))) < length (l # r)"
proof -
  assume "list_item l = Some x"
  then have "snd (item_lines (l # r)) = snd (item_lines (dropWhile continues_item r))"
    by (simp add: item_lines.simps [of "l # r"] Let_def case_prod_beta)
  with item_lines_rest [of "dropWhile continues_item r"] show ?thesis
    by (simp add: le_imp_less_Suc le_trans [OF _ length_dropWhile_le])
qed

definition paragraph_text :: "jstr list \<Rightarrow> jstr" where
  "paragraph_text ls = trim (squash is_ws [32] (join [32] ls))"

function blocks_of :: "jstr list \<Rightarrow> block list" where
  "blocks_of [] = []"
| "blocks_of (l # r) =
     (if trim l = [] then blocks_of r
      else case heading_at l of
        Some (n, t) \<Rightarrow> Heading (headingLevel n) (trim t) # blocks_of r
      | None \<Rightarrow>
          (case list_item l of
             Some _ \<Rightarrow> List (fst (item_lines (l # r))) # blocks_of (snd (item_lines (l # r)))
           | None \<Rightarrow> Paragraph (paragraph_text (l # takeWhile continues_paragraph r))
               # blocks_of (dropWhile continues_paragraph r)))"
  by pat_completeness auto
termination
proof (relation "measure length", goal_cases)
  case (4 l r x)
  then show ?case using item_lines_step by simp
qed (simp_all add: le_imp_less_Suc length_dropWhile_le)

definition parseMarkdown :: "jstr \<Rightarrow> block list" where
  "parseMarkdown source = blocks_of (split_on 10 (crlf source))"

subsection \<open>No empty blocks\<close>

definition block_ok :: "block \<Rightarrow> bool" where
  "block_ok b \<longleftrightarrow> (case b of
     Heading n t \<Rightarrow> 2 \<le> n \<and> n \<le> 4
   | List xs \<Rightarrow> xs \<noteq> [] \<and> list_all (\<lambda>x. x \<noteq> []) xs
   | Paragraph t \<Rightarrow> t \<noteq> [])"

lemma list_item_nonempty: "list_item l = Some x \<Longrightarrow> x \<noteq> []"
  by (auto simp: list_item_def split: list.splits if_splits)

lemma item_lines_ok: "list_all (\<lambda>x. x \<noteq> []) (fst (item_lines ls))"
proof (induction ls rule: item_lines.induct)
  case (1 ls)
  show ?case
  proof (cases ls)
    case (Cons l r)
    show ?thesis
    proof (cases "list_item l")
      case (Some first)
      have "list_all (\<lambda>x. x \<noteq> []) (fst (item_lines (dropWhile continues_item r)))"
        by (rule 1) (use Cons Some in auto)
      with Some list_item_nonempty [OF Some] show ?thesis
        unfolding Cons by (simp add: item_lines.simps [of "l # r"] Let_def case_prod_beta)
    qed (simp add: item_lines.simps [of "l # r"] Cons)
  qed (simp add: item_lines.simps [of "[]"])
qed

lemma item_lines_some: "list_item l = Some x \<Longrightarrow> fst (item_lines (l # r)) \<noteq> []"
  by (simp add: item_lines.simps [of "l # r"] Let_def case_prod_beta)

lemma dropWhile_rev_Nil: "dropWhile P (rev xs) = [] \<longleftrightarrow> (\<forall>x \<in> set xs. P x)"
  by (simp add: dropWhile_eq_Nil_conv)

lemma trim_eq_Nil: "trim s = [] \<longleftrightarrow> (\<forall>c \<in> set s. is_ws c)"
proof -
  have "(\<forall>c \<in> set (dropWhile is_ws s). is_ws c) \<longleftrightarrow> (\<forall>c \<in> set s. is_ws c)"
    by (induction s) auto
  then show ?thesis by (simp add: trim_def dropWhile_eq_Nil_conv)
qed

lemma squash_keeps: "c \<in> set s \<Longrightarrow> \<not> p c \<Longrightarrow> c \<in> set (squash p d s)"
proof (induction p d s rule: squash.induct)
  case (2 p d x s)
  show ?case
  proof (cases "p x")
    case True
    with 2 have "c \<in> set s" by auto
    then have "c \<in> set (dropWhile p s)" using 2(4)
      by (metis (no_types, lifting) Un_iff set_append set_takeWhileD takeWhile_dropWhile_id)
    with 2 True show ?thesis by simp
  next
    case False
    with 2 show ?thesis by auto
  qed
qed simp

lemma set_join: "set l \<subseteq> set (join sep (l # ls))"
  by (cases ls) auto

lemma paragraph_nonempty: "trim l \<noteq> [] \<Longrightarrow> paragraph_text (l # ls) \<noteq> []"
proof -
  assume "trim l \<noteq> []"
  then obtain c where c: "c \<in> set l" "\<not> is_ws c" by (auto simp: trim_eq_Nil)
  then have "c \<in> set (squash is_ws [32] (join [32] (l # ls)))"
    using set_join [of l "[32]" ls] by (intro squash_keeps) auto
  with c(2) show ?thesis by (auto simp: paragraph_text_def trim_eq_Nil)
qed

lemma blocks_ok: "list_all block_ok (blocks_of ls)"
proof (induction ls rule: blocks_of.induct)
  case (2 l r)
  show ?case
  proof (cases "trim l = []")
    case True
    then show ?thesis using 2(1) by simp
  next
    case False
    note blank = this
    show ?thesis
    proof (cases "heading_at l")
      case (Some p)
      then obtain n t where p: "heading_at l = Some (n, t)" by (cases p) auto
      from 2(4) [OF blank p refl] show ?thesis
        by (simp add: blank p block_ok_def headingLevel_def)
    next
      case None
      show ?thesis
      proof (cases "list_item l")
        case (Some x)
        from 2(3) [OF blank None Some] show ?thesis
          by (simp add: blank None Some block_ok_def item_lines_ok item_lines_some)
      next
        case no_item: None
        from 2(2) [OF blank None no_item] show ?thesis
          by (simp add: blank None no_item block_ok_def paragraph_nonempty)
      qed
    qed
  qed
qed simp

text \<open>
  The blocks of release notes are never empty: lists have items and every item has text, paragraphs
  have text, headings have a level from two to four; and notes with anything but white space have a
  block.
\<close>

theorem markdown_blocks_filled:
  "list_all block_ok (parseMarkdown source)
   \<and> (parseMarkdown source = []) = (\<forall>c \<in> set (crlf source). is_ws c)"
proof
  show "list_all block_ok (parseMarkdown source)" unfolding parseMarkdown_def by (rule blocks_ok)
  have blank: "blocks_of ls = [] \<longleftrightarrow> (\<forall>l \<in> set ls. trim l = [])" for ls
    by (induction ls rule: blocks_of.induct) (auto split: option.split)
  have ten: "is_ws 10" by (simp add: is_ws_code)
  have lines: "(\<forall>l \<in> set (split_on 10 s). \<forall>c \<in> set l. is_ws c) \<longleftrightarrow> (\<forall>c \<in> set s. is_ws c)" for s
    by (induction s) (auto simp: ten split: list.splits)
  show "(parseMarkdown source = []) = (\<forall>c \<in> set (crlf source). is_ws c)"
    unfolding parseMarkdown_def blank trim_eq_Nil by (rule lines)
qed

section \<open>The list of versions\<close>

record release =
  rl_tag :: "jstr option"
  rl_name :: "jstr option"
  rl_body :: "jstr option"
  rl_published :: "jstr option"
  rl_url :: "jstr option"

fun dedupe_from :: "jstr list \<Rightarrow> release list \<Rightarrow> release list" where
  "dedupe_from seen [] = []"
| "dedupe_from seen (r # rs) =
     (let tag = trim (str_or_empty (rl_tag r)) in
      if tag = [] \<or> tag \<in> set seen then dedupe_from seen rs
      else r\<lparr>rl_tag := Some tag\<rparr> # dedupe_from (sadd tag seen) rs)"

definition dedupeReleases :: "release list \<Rightarrow> release list" where
  "dedupeReleases rs = dedupe_from [] rs"

definition only_tag :: "jstr \<Rightarrow> release" where
  "only_tag t = \<lparr>rl_tag = Some t, rl_name = None, rl_body = None, rl_published = None, rl_url = None\<rparr>"

definition buildVersionHistory ::
  "jstr \<Rightarrow> jstr option \<Rightarrow> release option \<Rightarrow> release list \<Rightarrow> release list \<Rightarrow> release list" where
  "buildVersionHistory current next latest recent rollback =
     (if recent \<noteq> [] then dedupeReleases recent
      else dedupeReleases
        ((case latest of Some r \<Rightarrow> [r] | None \<Rightarrow> if str_or_empty next = [] then [] else [only_tag (str_or_empty next)])
         @ (if current = [] then [] else [only_tag current]) @ rollback))"

definition tag_of :: "release \<Rightarrow> jstr" where
  "tag_of r = str_or_empty (rl_tag r)"

lemma dedupe_tags:
  "distinct (map tag_of (dedupe_from seen rs)) \<and> set (map tag_of (dedupe_from seen rs)) =
     {trim (tag_of r) | r. r \<in> set rs \<and> trim (tag_of r) \<noteq> []} - set seen"
proof (induction seen rs rule: dedupe_from.induct)
  case (2 seen r rs)
  let ?t = "trim (tag_of r)"
  have t: "trim (str_or_empty (rl_tag r)) = ?t" by (simp add: tag_of_def)
  show ?case
  proof (cases "?t = [] \<or> ?t \<in> set seen")
    case True
    with 2(1) [OF refl] show ?thesis unfolding dedupe_from.simps Let_def t by auto
  next
    case False
    then have step: "map tag_of (dedupe_from seen (r # rs)) = ?t # map tag_of (dedupe_from (sadd ?t seen) rs)"
      unfolding dedupe_from.simps Let_def t by (simp add: tag_of_def)
    from 2(2) [OF refl] False have IH: "distinct (map tag_of (dedupe_from (sadd ?t seen) rs))"
      "set (map tag_of (dedupe_from (sadd ?t seen) rs)) =
         {trim (tag_of r) | r. r \<in> set rs \<and> trim (tag_of r) \<noteq> []} - insert ?t (set seen)"
      unfolding t by auto
    show ?thesis unfolding step using IH False by (auto simp del: set_map)
  qed
qed simp

text \<open>
  The list of versions has every tag once, trimmed and never blank, and has no others: it shows the
  recent releases when there are any, else the latest (or the next version), the current one and
  those to roll back to.
\<close>

theorem version_history_tags:
  "distinct (map tag_of (buildVersionHistory current next latest recent rollback))
   \<and> set (map tag_of (buildVersionHistory current next latest recent rollback)) =
     {t. t \<noteq> [] \<and> t \<in> (\<lambda>r. trim (tag_of r)) ` (if recent \<noteq> [] then set recent else
        (case latest of Some r \<Rightarrow> {r} | None \<Rightarrow> {only_tag (str_or_empty next)}) \<union> {only_tag current} \<union> set rollback)}"
proof -
  have tags: "distinct (map tag_of (dedupeReleases rs)) \<and> set (map tag_of (dedupeReleases rs)) =
      {t. t \<noteq> [] \<and> t \<in> (\<lambda>r. trim (tag_of r)) ` set rs}" for rs
    using dedupe_tags [of "[]" rs] unfolding dedupeReleases_def by auto
  have blank: "trim (tag_of (only_tag [])) = []" by (simp add: tag_of_def only_tag_def)
  show ?thesis
    unfolding buildVersionHistory_def using tags blank
    by (auto split: option.split)
qed

end
