(* ===== verification/Front_Api.thy ===== *)
theory Front_Api
  imports Front_Prelude Js_Json Js_Utf8
begin

text \<open>
  The calls of the interface to its server: the request that \<open>api\<close> sends and what it makes of the
  response (\<open>frontend/src/api/client.ts\<close>), and the endpoints (\<open>overview.ts\<close>, \<open>keys.ts\<close>, \<open>logs.ts\<close>,
  \<open>usage.ts\<close>, \<open>system.ts\<close>, \<open>live.ts\<close>). An endpoint gives the request or the error it throws before sending.
  Header names are in lower case, as \<open>Headers\<close> keeps them.
\<close>

section \<open>Requests\<close>

record request =
  rq_method :: jstr
  rq_path :: jstr
  rq_headers :: "(jstr \<times> jstr) list"
  rq_body :: "jstr option"

definition get_request :: "jstr \<Rightarrow> request" where
  "get_request path = \<lparr>rq_method = js ''GET'', rq_path = path, rq_headers = [], rq_body = None\<rparr>"

definition delete_request :: "jstr \<Rightarrow> request" where
  "delete_request path = (get_request path)\<lparr>rq_method := js ''DELETE''\<rparr>"

definition send_request :: "string \<Rightarrow> jstr \<Rightarrow> jsval \<Rightarrow> request" where
  "send_request meth path body = (get_request path)\<lparr>rq_method := js meth, rq_body := Some (json_text body)\<rparr>"

text \<open>The headers that \<open>api\<close> adds: the type of a body and the key, unless the caller set them.\<close>

definition has_header :: "string \<Rightarrow> (jstr \<times> jstr) list \<Rightarrow> bool" where
  "has_header k hs \<longleftrightarrow> list_ex (\<lambda>h. fst h = js k) hs"

definition with_headers :: "jstr \<Rightarrow> request \<Rightarrow> request" where
  "with_headers stored_key r =
     (let hs1 = (if str_or_empty (rq_body r) \<noteq> [] \<and> \<not> has_header ''content-type'' (rq_headers r)
                 then rq_headers r @ [(js ''content-type'', js ''application/json'')] else rq_headers r);
          key = trim stored_key in
      r\<lparr>rq_headers := (if key \<noteq> [] \<and> \<not> has_header ''authorization'' hs1
          then hs1 @ [(js ''authorization'', js ''Bearer '' @ key)] else hs1)\<rparr>)"

section \<open>Responses\<close>

record response =
  rs_ok :: bool
  rs_status :: int
  rs_status_text :: jstr
  rs_text :: jstr

datatype thrown = Api_error jstr int jsval | Other_error jstr

definition HTML_RE :: rx where
  "HTML_RE = RAlt (rx_lit ''<!doctype html'') (RSeq (rx_lit ''<html'') (RSet False [CSpace, CRange 62 62]))"

definition response_data :: "jstr \<Rightarrow> jsval" where
  "response_data t = (if t = [] then Null else case json_parse t of None \<Rightarrow> JStr t | Some v \<Rightarrow> v)"

definition error_message :: "response \<Rightarrow> jsval" where
  "error_message r =
     (let data = response_data (rs_text r);
          raw = (case data of JStr s \<Rightarrow> s | _ \<Rightarrow> rs_text r) in
      js_or (pget (pget data ''error'') ''message'') (js_or (pget data ''message'')
        (if rx_test True HTML_RE raw then JStr (dec_digits (rs_status r) @ js '' '' @ rs_status_text r)
         else JStr (if raw = [] then rs_status_text r else raw))))"

definition api_result :: "response \<Rightarrow> thrown + jsval" where
  "api_result r =
     (let data = response_data (rs_text r) in
      if rs_ok r then Inr data
      else Inl (Api_error (to_string (error_message r)) (rs_status r) (pget (pget data ''error'') ''code'')))"

definition UNAUTHORIZED_RE :: rx where
  "UNAUTHORIZED_RE = rx_alt [rx_lit ''invalid_api_key'', rx_lit ''unauthorized'', rx_lit ''Missing/invalid API key'']"

definition isUnauthorized :: "thrown \<Rightarrow> bool" where
  "isUnauthorized e = (case e of
     Api_error m st code \<Rightarrow> st = 401 \<or> code = jlit ''invalid_api_key''
   | Other_error m \<Rightarrow> rx_test True UNAUTHORIZED_RE m)"

section \<open>Query strings\<close>

text \<open>\<open>URLSearchParams\<close>: \<open>set\<close> on a list without duplicates, and the form encoding of \<open>toString\<close>.\<close>

definition form_byte :: "byte \<Rightarrow> jstr" where
  "form_byte b =
     (if b = 32 then [43]
      else if (48 \<le> b \<and> b \<le> 57) \<or> (65 \<le> b \<and> b \<le> 90) \<or> (97 \<le> b \<and> b \<le> 122) \<or> b = 42 \<or> b = 45 \<or> b = 46 \<or> b = 95
      then [word_of_int (uint b)] else percent b)"

definition form_encode :: "jstr \<Rightarrow> jstr" where
  "form_encode s = concat (map form_byte (utf8_encode s))"

type_synonym params = "(jstr \<times> jstr) list"

definition params_text :: "params \<Rightarrow> jstr" where
  "params_text ps = join (js ''&'') (map (\<lambda>(k, v). form_encode k @ js ''='' @ form_encode v) ps)"

definition suffix_of :: "params \<Rightarrow> jstr" where
  "suffix_of ps = (if params_text ps = [] then [] else js ''?'' @ params_text ps)"

text \<open>\<open>if (x) params.set(k, x)\<close> and \<open>if (x != null) params.set(k, String(x))\<close>.\<close>

definition set_text :: "string \<Rightarrow> jstr option \<Rightarrow> params \<Rightarrow> params" where
  "set_text k x ps = (if str_or_empty x = [] then ps else aput (js k) (str_or_empty x) ps)"

definition set_number :: "string \<Rightarrow> jsnum option \<Rightarrow> params \<Rightarrow> params" where
  "set_number k x ps = (case x of None \<Rightarrow> ps | Some n \<Rightarrow> aput (js k) (num_to_str n) ps)"

section \<open>Endpoints\<close>

type_synonym outcome = "thrown + request"

definition send :: "request \<Rightarrow> outcome" where
  "send r = Inr r"

text \<open>\<open>`prefix${encodeURIComponent(x)}rest`\<close>.\<close>

definition encoded_path :: "string \<Rightarrow> jstr \<Rightarrow> jstr \<Rightarrow> thrown + jstr" where
  "encoded_path pre x rest = (case encode_uri_component x of
     None \<Rightarrow> Inl (Other_error (js ''URI malformed'')) | Some e \<Rightarrow> Inr (js pre @ e @ rest))"

definition on_path :: "thrown + jstr \<Rightarrow> (jstr \<Rightarrow> request) \<Rightarrow> outcome" where
  "on_path p f = (case p of Inl e \<Rightarrow> Inl e | Inr path \<Rightarrow> Inr (f path))"

definition account_path :: "jstr option \<Rightarrow> jstr \<Rightarrow> thrown + jstr" where
  "account_path account rest =
     (if str_or_empty account = [] then Inl (Other_error (js ''account id required''))
      else encoded_path ''/api/accounts/'' (str_or_empty account) rest)"

definition fetchOverviewSummary :: outcome where
  "fetchOverviewSummary = send (get_request (js ''/api/overview/summary''))"

definition fetchAccounts :: "bool \<Rightarrow> outcome" where
  "fetchAccounts refresh = send (get_request (js ''/api/accounts?refresh='' @ js (if refresh then ''1'' else ''0'')))"

definition opt_field :: "string \<Rightarrow> jstr option \<Rightarrow> (string \<times> jsval) list" where
  "opt_field k x = (if str_or_empty x = [] then [] else [(k, JStr (str_or_empty x))])"

definition startDeviceLogin :: "jstr option \<Rightarrow> jstr option \<Rightarrow> outcome" where
  "startDeviceLogin account login_method =
     on_path (account_path account (js ''/login/device'')) (\<lambda>p. send_request ''POST'' p (obj (opt_field ''login_method'' login_method)))"

definition fetchLoginStatus :: "jstr option \<Rightarrow> outcome" where
  "fetchLoginStatus account = on_path (account_path account (js ''/login/status'')) get_request"

definition completeLoginCallback :: "jstr option \<Rightarrow> jstr \<Rightarrow> outcome" where
  "completeLoginCallback account url =
     on_path (account_path account (js ''/login/callback'')) (\<lambda>p. send_request ''POST'' p (obj [(''callback_url'', JStr url)]))"

definition loginWithPat :: "jstr \<Rightarrow> jstr option \<Rightarrow> outcome" where
  "loginWithPat pat account =
     on_path (account_path account (js ''/login/pat'')) (\<lambda>p. send_request ''POST'' p (obj [(''pat'', JStr pat)]))"

definition fetchModels :: "jstr option \<Rightarrow> bool \<Rightarrow> bool \<Rightarrow> outcome" where
  "fetchModels account refresh regional =
     send (get_request (js ''/api/models'' @ suffix_of
       (set_text ''view'' (if regional then Some (js ''regional'') else None)
         (set_text ''account'' account (set_text ''refresh'' (if refresh then Some (js ''1'') else None) [])))))"

definition updateModelContext :: "jstr \<Rightarrow> jsnum \<Rightarrow> outcome" where
  "updateModelContext key n =
     on_path (encoded_path ''/api/models/'' key []) (\<lambda>p. send_request ''PATCH'' p (obj [(''context_length'', JNum n)]))"

definition updateProviderMaxMode :: "jstr \<Rightarrow> jstr \<Rightarrow> bool \<Rightarrow> jsnum option \<Rightarrow> outcome" where
  "updateProviderMaxMode provider key max_mode window =
     (case encode_uri_component key of
        None \<Rightarrow> Inl (Other_error (js ''URI malformed''))
      | Some k \<Rightarrow> on_path (encoded_path ''/api/models/'' provider (js ''/'' @ k)) (\<lambda>p. send_request ''PATCH'' p
          (obj ((''max_mode'', JBool max_mode) #
            (if provider = js ''qoder'' \<and> max_mode \<and> (case window of None \<Rightarrow> False | Some n \<Rightarrow> num_truthy n)
             then [(''context_length'', JNum (opt_or window NaN))] else [])))))"

definition updateTraeMaxMode :: "jstr \<Rightarrow> bool \<Rightarrow> outcome" where
  "updateTraeMaxMode key max_mode = updateProviderMaxMode (js ''trae'') key max_mode None"

definition updateProviderReasoning :: "string \<Rightarrow> jstr \<Rightarrow> jstr \<Rightarrow> outcome" where
  "updateProviderReasoning provider key effort =
     on_path (encoded_path (''/api/models/'' @ provider @ ''/'') key [])
       (\<lambda>p. send_request ''PATCH'' p (obj [(''reasoning_effort'', JStr effort)]))"

definition refreshAccount :: "jstr option \<Rightarrow> bool \<Rightarrow> outcome" where
  "refreshAccount account quota =
     on_path (account_path account (js ''/refresh'' @ (if quota then js ''?quota=1'' else []))) (\<lambda>p. send_request ''POST'' p (JObj []))"

definition with_account :: "jstr option \<Rightarrow> request \<Rightarrow> request" where
  "with_account account r =
     (if str_or_empty account = [] then r else r\<lparr>rq_headers := [(js ''x-qoder-account'', str_or_empty account)]\<rparr>)"

definition user_message :: "jstr \<Rightarrow> jsval" where
  "user_message content = obj [(''role'', jlit ''user''), (''content'', JStr content)]"

definition testChat :: "jstr \<Rightarrow> jstr \<Rightarrow> jstr option \<Rightarrow> outcome" where
  "testChat model content account =
     send (with_account account (send_request ''POST'' (js ''/api/chat'')
       (obj [(''model'', JStr model), (''stream'', JBool False), (''messages'', JArr [user_message content])])))"

datatype raw_format = Chat_format | Messages_format | Responses_format

definition buildRawPayload :: "raw_format \<Rightarrow> jstr \<Rightarrow> jstr \<Rightarrow> jsval" where
  "buildRawPayload format model content =
     (let t = (if content = [] then [0x53EA, 0x56DE, 0x590D] @ js ''OK'' else content) in
      case format of
        Responses_format \<Rightarrow> obj [(''model'', JStr model), (''input'', JStr t), (''stream'', JBool False)]
      | Messages_format \<Rightarrow> obj [(''model'', JStr model), (''max_tokens'', jint 1024), (''stream'', JBool False),
          (''messages'', JArr [user_message t])]
      | Chat_format \<Rightarrow> obj [(''model'', JStr model), (''stream'', JBool False), (''messages'', JArr [user_message t])])"

definition testRawApi :: "jstr \<Rightarrow> jsval \<Rightarrow> jstr option \<Rightarrow> outcome" where
  "testRawApi path body account = send (with_account account (send_request ''POST'' path body))"

definition fetchProviders :: outcome where
  "fetchProviders = send (get_request (js ''/api/providers''))"

record account_options =
  ao_max_inflight :: "jsnum option"
  ao_priority :: "jsnum option"
  ao_drop_system :: jsval
  ao_workbuddy_checkin :: jsval
  ao_workbuddy_time :: jsval
  ao_auto_checkin :: jsval
  ao_checkin_time :: jsval
  ao_proxy :: jsval

text \<open>Options that are not given are undefined, which \<open>JSON.stringify\<close> leaves out.\<close>

definition createAccount :: "jstr \<Rightarrow> jstr \<Rightarrow> jstr \<Rightarrow> account_options \<Rightarrow> outcome" where
  "createAccount name provider region o' =
     send (send_request ''POST'' (js ''/api/accounts'') (obj
       [(''name'', JStr name), (''provider'', JStr provider), (''region'', JStr region), (''enabled'', JBool True),
        (''max_inflight'', JNum (opt_or (ao_max_inflight o') (Fin 4))), (''priority'', JNum (opt_or (ao_priority o') (Fin 50))),
        (''drop_system_prompt'', ao_drop_system o'), (''workbuddy_auto_checkin'', ao_workbuddy_checkin o'),
        (''workbuddy_checkin_time'', ao_workbuddy_time o'), (''auto_checkin'', ao_auto_checkin o'),
        (''checkin_time'', ao_checkin_time o'), (''proxy_url'', ao_proxy o')]))"

definition checkinAccount :: "jstr \<Rightarrow> outcome" where
  "checkinAccount account = on_path (encoded_path ''/api/accounts/'' account (js ''/checkin'')) (\<lambda>p. send_request ''POST'' p (JObj []))"

definition fetchCheckinRecords :: "jstr \<Rightarrow> outcome" where
  "fetchCheckinRecords account = on_path (encoded_path ''/api/accounts/'' account (js ''/checkins'')) get_request"

definition updateAccount :: "jstr \<Rightarrow> jsval \<Rightarrow> outcome" where
  "updateAccount account input = on_path (encoded_path ''/api/accounts/'' account []) (\<lambda>p. send_request ''PATCH'' p input)"

definition deleteAccount :: "jstr \<Rightarrow> outcome" where
  "deleteAccount account = on_path (encoded_path ''/api/accounts/'' account []) delete_request"

definition importAccount :: "jsval \<Rightarrow> outcome" where
  "importAccount bundle = send (send_request ''POST'' (js ''/api/accounts/import'') bundle)"

definition exportAccount :: "jstr \<Rightarrow> outcome" where
  "exportAccount account = on_path (encoded_path ''/api/accounts/'' account (js ''/export'')) get_request"

subsection \<open>Keys\<close>

definition fetchAPIKeys :: outcome where
  "fetchAPIKeys = send (get_request (js ''/api/keys''))"

definition createAPIKey :: "jsval \<Rightarrow> outcome" where
  "createAPIKey input = send (send_request ''POST'' (js ''/api/keys'') input)"

definition updateAPIKey :: "jstr \<Rightarrow> jsval \<Rightarrow> outcome" where
  "updateAPIKey i input = on_path (encoded_path ''/api/keys/'' i []) (\<lambda>p. send_request ''PATCH'' p input)"

definition deleteAPIKey :: "jstr \<Rightarrow> outcome" where
  "deleteAPIKey i = on_path (encoded_path ''/api/keys/'' i []) delete_request"

definition fetchConsoleKey :: outcome where
  "fetchConsoleKey = send (get_request (js ''/api/system/console-key''))"

definition rotateConsoleKey :: outcome where
  "rotateConsoleKey = send (send_request ''POST'' (js ''/api/system/console-key'') (obj [(''rotate'', JBool True)]))"

subsection \<open>Logs, usage, live data\<close>

record stats_query =
  sq_hours :: "jsnum option"
  sq_from :: "jstr option"
  sq_to :: "jstr option"
  sq_dim :: "jstr list"
  sq_limit :: "jsnum option"
  sq_api_key :: "jstr option"

definition fetchRequestStats :: "stats_query \<Rightarrow> outcome" where
  "fetchRequestStats q =
     send (get_request (js ''/api/logs/stats'' @ suffix_of
       (set_text ''api_key'' (sq_api_key q) (set_text ''to'' (sq_to q) (set_text ''from'' (sq_from q)
         (set_number ''hours'' (sq_hours q) (set_number ''limit'' (sq_limit q)
           (if sq_dim q = [] then [] else [(js ''dim'', join (js '','') (sq_dim q))]))))))))"

record log_query =
  lq_account :: "jstr option"
  lq_api_key :: "jstr option"
  lq_status :: "jstr option"
  lq_stream :: "bool option"
  lq_error_kind :: "jstr option"
  lq_model :: "jstr option"
  lq_provider :: "jstr option"
  lq_id :: "jstr option"
  lq_q :: "jstr option"
  lq_from :: "jstr option"
  lq_to :: "jstr option"
  lq_limit :: "jsnum option"
  lq_offset :: "jsnum option"

definition log_params :: "log_query \<Rightarrow> params" where
  "log_params q =
     set_number ''offset'' (lq_offset q) (set_number ''limit'' (lq_limit q)
     (set_text ''to'' (lq_to q) (set_text ''from'' (lq_from q) (set_text ''q'' (lq_q q) (set_text ''id'' (lq_id q)
     (set_text ''provider'' (lq_provider q) (set_text ''model'' (lq_model q) (set_text ''error_kind'' (lq_error_kind q)
     (set_text ''stream'' (case lq_stream q of None \<Rightarrow> None | Some b \<Rightarrow> Some (js (if b then ''1'' else ''0'')))
     (set_text ''status'' (lq_status q) (set_text ''api_key'' (lq_api_key q) (set_text ''account'' (lq_account q) []))))))))))))"

definition fetchRequestLogs :: "log_query \<Rightarrow> outcome" where
  "fetchRequestLogs q = send (get_request (js ''/api/logs/requests'' @ suffix_of (log_params q)))"

definition fetchRequestLog :: "jstr \<Rightarrow> outcome" where
  "fetchRequestLog i = on_path (encoded_path ''/api/logs/requests/'' i []) get_request"

definition clearRequestLogs :: outcome where
  "clearRequestLogs = send (delete_request (js ''/api/logs/requests''))"

record runtime_query =
  rt_after :: "jsnum option"
  rt_limit :: "jsnum option"
  rt_offset :: "jsnum option"
  rt_level :: "jstr option"
  rt_q :: "jstr option"
  rt_account :: "jstr option"

definition fetchRuntimeLogs :: "runtime_query \<Rightarrow> outcome" where
  "fetchRuntimeLogs q =
     send (get_request (js ''/api/logs/runtime'' @ suffix_of
       (set_text ''account'' (rt_account q) (set_text ''q'' (rt_q q) (set_text ''level'' (rt_level q)
         (set_number ''offset'' (rt_offset q) (set_number ''limit'' (rt_limit q) (set_number ''after'' (rt_after q) []))))))))"

definition fetchUsagePricing :: outcome where
  "fetchUsagePricing = send (get_request (js ''/api/usage/pricing''))"

definition fetchUsageCost :: "jstr option \<Rightarrow> jstr option \<Rightarrow> jstr option \<Rightarrow> outcome" where
  "fetchUsageCost from to api_key =
     send (get_request (js ''/api/usage/cost'' @ suffix_of
       (set_text ''api_key'' api_key (set_text ''to'' to (set_text ''from'' from [])))))"

definition fetchLive :: outcome where
  "fetchLive = send (get_request (js ''/api/live''))"

subsection \<open>System\<close>

definition fetchSystemUpdate :: "bool \<Rightarrow> outcome" where
  "fetchSystemUpdate force = send (get_request (js ''/api/system/update'' @ (if force then js ''?force=1'' else [])))"

definition fetchSystemSettings :: outcome where
  "fetchSystemSettings = send (get_request (js ''/api/system/settings''))"

definition updateSystemSettings :: "jsval \<Rightarrow> outcome" where
  "updateSystemSettings input = send (send_request ''PATCH'' (js ''/api/system/settings'') input)"

definition startSystemUpdate :: outcome where
  "startSystemUpdate = send (send_request ''POST'' (js ''/api/system/update/prepare'') (JObj []))"

definition applyPreparedSystemUpdate :: outcome where
  "applyPreparedSystemUpdate = send (send_request ''POST'' (js ''/api/system/update/apply'') (JObj []))"

definition cancelSystemUpdate :: outcome where
  "cancelSystemUpdate = send (send_request ''POST'' (js ''/api/system/update/cancel'') (JObj []))"

definition rollbackSystemUpdate :: "jstr \<Rightarrow> outcome" where
  "rollbackSystemUpdate version = send (send_request ''POST'' (js ''/api/system/update/rollback'') (obj [(''version'', JStr version)]))"

definition fetchSystemResources :: outcome where
  "fetchSystemResources = send (get_request (js ''/api/system/resources''))"

section \<open>What the server reads\<close>

text \<open>
  The decoding of the URL standard: plus signs are spaces, percent signs start an encoded byte; pairs
  are separated by ampersands, names from values by the first equals sign.
\<close>

fun form_bytes :: "jstr \<Rightarrow> byte list" where
  "form_bytes [] = []"
| "form_bytes (c # s) =
     (if c = 43 then 32 # form_bytes s
      else if c = 37 then (case s of a # b # t \<Rightarrow> word_of_int (radix_digit a * 16 + radix_digit b) # form_bytes t | _ \<Rightarrow> [])
      else word_of_int (uint c) # form_bytes s)"

definition query_pairs :: "jstr \<Rightarrow> (byte list \<times> byte list) list" where
  "query_pairs s =
     (if s = [] then []
      else map (\<lambda>p. (form_bytes (takeWhile (\<lambda>c. c \<noteq> 61) p), form_bytes (drop 1 (dropWhile (\<lambda>c. c \<noteq> 61) p)))) (split_on 38 s))"

lemma uint_hex_unit: "0 \<le> n \<Longrightarrow> n < 16 \<Longrightarrow> uint (hex_unit n) = (if n < 10 then 48 + n else 55 + n)"
proof -
  assume n: "0 \<le> n" "n < 16"
  have "uint (word_of_int k :: u16) = k" if "0 \<le> k" "k < 65536" for k
    using that by (simp only: uint_word_of_int) (simp add: mod_pos_pos_trivial)
  from this [of "if n < 10 then 48 + n else 55 + n"] n show ?thesis by (simp add: hex_unit_def)
qed

lemma radix_hex_unit: "0 \<le> n \<Longrightarrow> n < 16 \<Longrightarrow> radix_digit (hex_unit n) = n"
  by (simp add: radix_digit_def is_digit_code word_le_def uint_hex_unit)

lemma byte_bounds: "0 \<le> uint (b :: byte)" "uint (b :: byte) < 256"
  using uint_lt2p [of b] by simp_all

lemma byte_halves: "0 \<le> uint (b :: byte) div 16" "uint (b :: byte) div 16 < 16" "0 \<le> uint b mod 16" "uint b mod 16 < 16"
  using byte_bounds [of b] by (simp_all add: pos_imp_zdiv_nonneg_iff)

lemma form_bytes_percent: "form_bytes (percent b @ s) = b # form_bytes s"
proof -
  have "radix_digit (hex_unit (uint b div 16)) * 16 + radix_digit (hex_unit (uint b mod 16)) = uint b"
    by (simp add: radix_hex_unit byte_halves)
  then have "(word_of_int (radix_digit (hex_unit (uint b div 16)) * 16 + radix_digit (hex_unit (uint b mod 16))) :: byte) = b"
    by (simp only:) simp
  then show ?thesis by (simp add: percent_def del: of_int_add of_int_mult)
qed

lemma wide_uint: "uint (word_of_int (uint (b :: byte)) :: u16) = uint b"
  using byte_bounds [of b] by (simp only: uint_word_of_int) (simp add: mod_pos_pos_trivial)

lemma wide_ucast: "uint (ucast (b :: byte) :: u16) = uint b"
  using wide_uint [of b] by simp

lemma form_bytes_unit:
  assumes "uint b \<noteq> 43" and "uint b \<noteq> 37"
  shows "form_bytes ((word_of_int (uint (b :: byte)) :: u16) # s) = b # form_bytes s"
proof -
  have "(word_of_int (uint b) :: u16) \<noteq> 43" "(word_of_int (uint b) :: u16) \<noteq> 37"
    using assms by (simp_all add: word_uint_eq_iff wide_ucast)
  then show ?thesis by (simp add: wide_ucast)
qed

lemma form_bytes_byte: "form_bytes (form_byte b @ s) = b # form_bytes s"
proof -
  have "form_bytes ([word_of_int (uint b)] @ s) = b # form_bytes s"
    if "(48 \<le> b \<and> b \<le> 57) \<or> (65 \<le> b \<and> b \<le> 90) \<or> (97 \<le> b \<and> b \<le> 122) \<or> b = 42 \<or> b = 45 \<or> b = 46 \<or> b = 95"
    using that form_bytes_unit [of b s] by (auto simp: word_le_def word_uint_eq_iff)
  then show ?thesis by (auto simp: form_byte_def form_bytes_percent simp del: word_of_int_uint)
qed

lemma form_bytes_encode: "form_bytes (concat (map form_byte bs) @ s) = bs @ form_bytes s"
  by (induction bs) (simp_all add: form_bytes_byte)

lemma form_decode: "form_bytes (form_encode s) = utf8_encode s"
  using form_bytes_encode [of "utf8_encode s" "[]"] by (simp add: form_encode_def)

subsection \<open>No separator is produced\<close>

definition safe_unit :: "u16 \<Rightarrow> bool" where
  "safe_unit c \<longleftrightarrow> c \<noteq> 38 \<and> c \<noteq> 61 \<and> c \<noteq> 47 \<and> c \<noteq> 63 \<and> c \<noteq> 35"

lemma safe_code: "safe_unit c \<longleftrightarrow> uint c \<notin> {38, 61, 47, 63, 35}"
  by (auto simp: safe_unit_def word_uint_eq_iff)

lemma percent_safe: "list_all safe_unit (percent b)"
proof -
  have "safe_unit (hex_unit n)" if "0 \<le> n" "n < 16" for n
    using that by (auto simp: safe_code uint_hex_unit)
  then show ?thesis by (simp add: percent_def byte_halves) (simp add: safe_unit_def)
qed

lemma form_byte_safe: "list_all safe_unit (form_byte b)"
  by (auto simp: form_byte_def percent_safe safe_code wide_ucast word_le_def word_uint_eq_iff)

lemma form_encode_safe: "list_all safe_unit (form_encode s)"
  unfolding form_encode_def by (induction "utf8_encode s") (use form_byte_safe in \<open>auto simp: list_all_iff\<close>)

lemma split_join:
  "xs \<noteq> [] \<Longrightarrow> list_all (\<lambda>x. d \<notin> set x) xs \<Longrightarrow> split_on d (join [d] xs) = xs"
proof (induction "[d]" xs rule: join.induct)
  case (2 x)
  then have "d \<notin> set x" by simp
  then show ?case by (induction x) auto
next
  case (3 x y zs)
  then have "split_on d (join [d] (y # zs)) = y # zs" "d \<notin> set x" by simp_all
  then show ?case by (induction x) auto
qed simp

lemma params_roundtrip:
  "query_pairs (params_text ps) = map (\<lambda>(k, v). (utf8_encode k, utf8_encode v)) ps"
proof (cases ps)
  case (Cons p qs)
  let ?f = "\<lambda>(k, v). form_encode k @ js ''='' @ form_encode v"
  have eq: "js ''='' = [61]" "js ''&'' = [38]" by (simp_all add: js_def)
  have no_amp: "list_all (\<lambda>x. 38 \<notin> set x) (map ?f ps)"
    using form_encode_safe by (auto simp: list_all_iff eq safe_unit_def)
  have "params_text ps = join [38] (map ?f ps)" by (simp add: params_text_def eq)
  moreover from this have "split_on 38 (params_text ps) = map ?f ps"
    using split_join [OF _ no_amp] Cons by simp
  moreover have "params_text ps \<noteq> []" unfolding params_text_def Cons by (cases p; cases qs) (auto simp: eq)
  ultimately have "query_pairs (params_text ps) =
      map (\<lambda>p. (form_bytes (takeWhile (\<lambda>c. c \<noteq> 61) p), form_bytes (drop 1 (dropWhile (\<lambda>c. c \<noteq> 61) p)))) (map ?f ps)"
    by (simp add: query_pairs_def)
  moreover have "takeWhile (\<lambda>c. c \<noteq> 61) (form_encode k @ 61 # t) = form_encode k"
    "dropWhile (\<lambda>c. c \<noteq> 61) (form_encode k @ 61 # t) = 61 # t" for k t
    using form_encode_safe [of k] by (auto simp: list_all_iff safe_unit_def takeWhile_append2 dropWhile_append2)
  ultimately show ?thesis by (auto simp: eq form_decode)
qed (simp add: query_pairs_def params_text_def)

lemma set_distinct:
  "distinct (map fst ps) \<Longrightarrow> distinct (map fst (set_text k x ps))"
  "distinct (map fst ps) \<Longrightarrow> distinct (map fst (set_number k n ps))"
  by (auto simp: set_text_def set_number_def split: option.split)

lemma map_of_set:
  "map_of (set_text k x ps) k' = (if k' = js k \<and> str_or_empty x \<noteq> [] then Some (str_or_empty x) else map_of ps k')"
  "map_of (set_number k n ps) k' = (if k' = js k then (case n of None \<Rightarrow> map_of ps k' | Some v \<Rightarrow> Some (num_to_str v)) else map_of ps k')"
  by (auto simp: set_text_def set_number_def map_of_aput split: option.split)

text \<open>The parameters in the order of their names, one for each value that is there.\<close>

definition present :: "(string \<times> jstr option) list \<Rightarrow> params" where
  "present fs = concat (map (\<lambda>(k, v). case v of None \<Rightarrow> [] | Some x \<Rightarrow> [(js k, x)]) fs)"

lemma present_Nil: "present [] = []"
  by (simp add: present_def)

lemma present_fresh: "k \<notin> fst ` set fs \<Longrightarrow> js k \<notin> fst ` set (present fs)"
  by (auto simp: present_def split: option.splits) force

lemma set_present:
  "k \<notin> fst ` set fs \<Longrightarrow> set_text k x (present fs) = present (fs @ [(k, str_opt (str_or_empty x))])"
  "k \<notin> fst ` set fs \<Longrightarrow> set_number k n (present fs) = present (fs @ [(k, map_option num_to_str n)])"
  using present_fresh [of k fs]
  by (auto simp: set_text_def set_number_def str_opt_def aput_fresh present_def [of "_ @ _"] present_def [of fs, symmetric]
      split: option.split)

lemma present_map: "map f (present fs) = concat (map (\<lambda>(k, v). case v of None \<Rightarrow> [] | Some x \<Rightarrow> [f (js k, x)]) fs)"
  by (induction fs) (auto simp: present_def split: option.split)

text \<open>
  C29: The query of the request log loses nothing and adds nothing: a server that decodes it by the URL standard
  reads, as UTF-8, exactly the filters that are set, each once and in this order, whatever texts they hold.
  A text is set when it is not empty, a number and the choice of streams when they are there.
\<close>

theorem query_roundtrip:
  "\<exists>r rest. fetchRequestLogs q = Inr r \<and> rq_path r = js ''/api/logs/requests'' @ rest
     \<and> query_pairs (drop 1 rest) = concat (map (\<lambda>(k, v). case v of None \<Rightarrow> [] | Some x \<Rightarrow> [(utf8_encode (js k), utf8_encode x)])
         [(''account'', str_opt (str_or_empty (lq_account q))),
          (''api_key'', str_opt (str_or_empty (lq_api_key q))),
          (''status'', str_opt (str_or_empty (lq_status q))),
          (''stream'', map_option (\<lambda>b. js (if b then ''1'' else ''0'')) (lq_stream q)),
          (''error_kind'', str_opt (str_or_empty (lq_error_kind q))),
          (''model'', str_opt (str_or_empty (lq_model q))),
          (''provider'', str_opt (str_or_empty (lq_provider q))),
          (''id'', str_opt (str_or_empty (lq_id q))),
          (''q'', str_opt (str_or_empty (lq_q q))),
          (''from'', str_opt (str_or_empty (lq_from q))),
          (''to'', str_opt (str_or_empty (lq_to q))),
          (''limit'', map_option num_to_str (lq_limit q)),
          (''offset'', map_option num_to_str (lq_offset q))])"
proof -
  have stream: "str_opt (str_or_empty (case lq_stream q of None \<Rightarrow> None | Some b \<Rightarrow> Some (js (if b then ''1'' else ''0''))))
      = map_option (\<lambda>b. js (if b then ''1'' else ''0'')) (lq_stream q)"
    by (simp add: str_opt_def str_or_empty_def js_def split: option.split)
  have "query_pairs (drop 1 (suffix_of (log_params q))) = map (\<lambda>(k, v). (utf8_encode k, utf8_encode v)) (log_params q)"
    using params_roundtrip [of "log_params q"] by (auto simp: suffix_of_def js_def query_pairs_def)
  moreover have "log_params q = present
      [(''account'', str_opt (str_or_empty (lq_account q))), (''api_key'', str_opt (str_or_empty (lq_api_key q))),
       (''status'', str_opt (str_or_empty (lq_status q))), (''stream'', map_option (\<lambda>b. js (if b then ''1'' else ''0'')) (lq_stream q)),
       (''error_kind'', str_opt (str_or_empty (lq_error_kind q))), (''model'', str_opt (str_or_empty (lq_model q))),
       (''provider'', str_opt (str_or_empty (lq_provider q))), (''id'', str_opt (str_or_empty (lq_id q))),
       (''q'', str_opt (str_or_empty (lq_q q))), (''from'', str_opt (str_or_empty (lq_from q))),
       (''to'', str_opt (str_or_empty (lq_to q))), (''limit'', map_option num_to_str (lq_limit q)),
       (''offset'', map_option num_to_str (lq_offset q))]"
    unfolding log_params_def present_Nil [symmetric] by (simp add: set_present stream)
  ultimately show ?thesis by (simp only: fetchRequestLogs_def send_def get_request_def present_map) simp
qed

subsection \<open>Path segments\<close>

lemma code_points_nonneg: "Some n \<in> set (code_points s) \<Longrightarrow> 0 \<le> n"
  by (induction s rule: code_points.induct) (auto simp: high_surrogate_def low_surrogate_def word_le_def split: if_splits)

lemma form_bytes_percents: "form_bytes (concat (map percent bs) @ s) = bs @ form_bytes s"
  by (induction bs) (simp_all add: form_bytes_percent)

lemma narrow_uint: "0 \<le> p \<Longrightarrow> p < 128 \<Longrightarrow> uint (word_of_int p :: u16) = p"
  by (simp only: uint_word_of_int) (simp add: mod_pos_pos_trivial)

lemma unescaped_units: "uri_unescaped c \<Longrightarrow> safe_unit c \<and> uint c \<noteq> 43 \<and> uint c \<noteq> 37"
  by (auto simp: uri_unescaped_def is_digit_code safe_code word_le_def js_def)

lemma encode_point_bytes: "0 \<le> p \<Longrightarrow> form_bytes (encode_point p @ s) = point_bytes p @ form_bytes s"
proof (cases "p < 128 \<and> uri_unescaped (word_of_int p)")
  case True
  moreover assume "0 \<le> p"
  ultimately have u: "uint (word_of_int p :: u16) = p" by (simp add: narrow_uint)
  with True unescaped_units [of "word_of_int p"] have "p \<noteq> 43" "p \<noteq> 37" by simp_all
  then have "(word_of_int p :: u16) \<noteq> 43" "(word_of_int p :: u16) \<noteq> 37" using u by (auto simp: word_uint_eq_iff)
  with True u show ?thesis by (simp add: encode_point_def point_bytes_def)
qed (auto simp: encode_point_def form_bytes_percents)

lemma encode_point_safe: "list_all safe_unit (encode_point p)"
proof (cases "p < 128 \<and> uri_unescaped (word_of_int p)")
  case True
  then show ?thesis using unescaped_units by (simp add: encode_point_def)
next
  case False
  have "list_all safe_unit (concat (map percent bs))" for bs
    by (induction bs) (simp_all add: percent_safe)
  with False show ?thesis by (simp only: encode_point_def if_False)
qed

lemma encode_points_bytes:
  "(\<And>n. Some n \<in> set ps \<Longrightarrow> 0 \<le> n) \<Longrightarrow>
     form_bytes (concat (map (encode_point \<circ> or_replacement) ps)) = concat (map (point_bytes \<circ> or_replacement) ps)"
proof (induction ps)
  case (Cons p ps)
  have "0 \<le> or_replacement p" using Cons.prems [of "or_replacement p"] by (cases p) (auto simp: or_replacement_def)
  with Cons show ?case by (simp add: encode_point_bytes)
qed simp

text \<open>
  An identifier cannot leave its place in a path: the encoded segment has none of the separators of
  paths, queries and fragments, and decodes to the identifier's UTF-8 text.
\<close>

theorem path_segment_safe:
  assumes "encoded_path pre x rest = Inr p"
  shows "\<exists>e. p = js pre @ e @ rest \<and> (\<forall>c \<in> set e. c \<noteq> 47 \<and> c \<noteq> 63 \<and> c \<noteq> 35 \<and> c \<noteq> 38 \<and> c \<noteq> 61)
    \<and> form_bytes e = utf8_encode x"
proof -
  let ?e = "concat (map (encode_point \<circ> or_replacement) (code_points x))"
  from assms have p: "p = js pre @ ?e @ rest"
    by (auto simp: encoded_path_def encode_uri_component_def split: if_splits)
  have "list_all safe_unit ?e"
    by (induction "code_points x") (use encode_point_safe in \<open>auto simp: list_all_iff\<close>)
  moreover have "form_bytes ?e = utf8_encode x"
    unfolding utf8_encode_def by (rule encode_points_bytes) (rule code_points_nonneg)
  ultimately show ?thesis using p by (intro exI [of _ ?e]) (auto simp: list_all_iff safe_unit_def)
qed

theorem path_segment_safe_witness:
  "form_bytes (concat (map (encode_point \<circ> or_replacement) (code_points (js ''a/b'')))) = utf8_encode (js ''a/b'')"
proof -
  have "encoded_path ''/api/accounts/'' (js ''a/b'') [] = Inr (js ''/api/accounts/a%2Fb'')"
    by code_simp
  from path_segment_safe [OF this] obtain e where "js ''/api/accounts/a%2Fb'' = js ''/api/accounts/'' @ e @ []"
    and e: "form_bytes e = utf8_encode (js ''a/b'')" by blast
  then have "e = js ''a%2Fb''" by (simp add: js_def)
  moreover have "concat (map (encode_point \<circ> or_replacement) (code_points (js ''a/b''))) = js ''a%2Fb''"
    by code_simp
  ultimately show ?thesis using e by simp
qed

subsection \<open>Failed calls\<close>

text \<open>
  Every response is either data or an error: a response that is not ok gives an error with its
  status, whatever its body is, and a rejected key is recognised from the status alone.
\<close>

lemma failed_response: "\<not> rs_ok r \<Longrightarrow> \<exists>m code. api_result r = Inl (Api_error m (rs_status r) code)"
  by (simp add: api_result_def Let_def)

lemma rejected_key: "\<not> rs_ok r \<Longrightarrow> rs_status r = 401 \<Longrightarrow> \<exists>e. api_result r = Inl e \<and> isUnauthorized e"
  by (simp add: api_result_def isUnauthorized_def Let_def)

end
