(* ===== verification/Front_Stream.thy ===== *)
theory Front_Stream
  imports Front_Api Line_Reader
begin

text \<open>
  The streamed chat of the interface (\<open>streamChat\<close> in \<open>frontend/src/api/overview.ts\<close>): its request, the
  reading of the event stream, and the merging of tool call deltas. The decoded pieces of the body
  are given; the callbacks of the caller are a list of events. The loop that extends the list of tool
  calls to a given index is a loop here too, whose not returning is a value (\<open>None\<close>).
\<close>

section \<open>Messages and the request\<close>

datatype stream_content = Plain jstr | Messages "jsval list"

definition normalizeStreamMessages :: "stream_content \<Rightarrow> jsval list" where
  "normalizeStreamMessages c = (case c of Plain s \<Rightarrow> [user_message s] | Messages ms \<Rightarrow> ms)"

definition stream_request :: "jstr \<Rightarrow> jstr \<Rightarrow> stream_content \<Rightarrow> jstr option \<Rightarrow> request" where
  "stream_request stored_key model content account =
     (let key = trim stored_key in
      \<lparr>rq_method = js ''POST'', rq_path = js ''/api/chat'',
       rq_headers = [(js ''content-type'', js ''application/json'')]
         @ (if str_or_empty account = [] then [] else [(js ''x-qoder-account'', str_or_empty account)])
         @ (if key = [] then [] else [(js ''authorization'', js ''Bearer '' @ key)]),
       rq_body = Some (json_text (obj [(''model'', JStr model), (''stream'', JBool True),
         (''messages'', JArr (normalizeStreamMessages content))]))\<rparr>)"

text \<open>A response that is not ok throws what \<open>api\<close> throws for it.\<close>

definition stream_error :: "response \<Rightarrow> thrown" where
  "stream_error r =
     Api_error (to_string (error_message r)) (rs_status r) (pget (pget (response_data (rs_text r)) ''error'') ''code'')"

section \<open>Tool calls\<close>

record call_function =
  cf_name :: jstr
  cf_arguments :: jstr

record tool_call =
  tc_index :: nat
  tc_id :: "jstr option"
  tc_type :: "jstr option"
  tc_function :: call_function

definition blank_call :: "nat \<Rightarrow> tool_call" where
  "blank_call i = \<lparr>tc_index = i, tc_id = None, tc_type = None, tc_function = \<lparr>cf_name = [], cf_arguments = []\<rparr>\<rparr>"

text \<open>
  \<open>push\<close> on an array: one of 2^32 - 1 elements, the most an array can have, makes it throw. The loop
  \<open>while (next.length <= index) next.push(...)\<close> is \<open>None\<close> when it does not come to an end, \<open>Some None\<close> when
  a push throws. The index is any number.
\<close>

definition max_length :: nat where
  "max_length = 2 ^ 32 - 1"

definition push_call :: "tool_call list \<Rightarrow> tool_call list option" where
  "push_call cs = (if length cs < max_length then Some (cs @ [blank_call (length cs)]) else None)"

partial_function (option) extend_loop :: "jsnum \<Rightarrow> tool_call list \<Rightarrow> tool_call list option option" where
  "extend_loop n cs =
     (if num_le (Fin (of_nat (length cs))) n
      then (case push_call cs of None \<Rightarrow> Some None | Some cs' \<Rightarrow> extend_loop n cs')
      else Some (Some cs))"

text \<open>\<open>next[index]\<close>, which has an element for a whole index within the list.\<close>

definition call_at :: "jsnum \<Rightarrow> tool_call list \<Rightarrow> nat option" where
  "call_at n cs = (case n of
     Fin q \<Rightarrow> if 0 \<le> q \<and> is_int_rat q \<and> nat \<lfloor>q\<rfloor> < length cs then Some (nat \<lfloor>q\<rfloor>) else None
   | _ \<Rightarrow> None)"

definition text_field :: "jsval \<Rightarrow> string \<Rightarrow> jstr" where
  "text_field v k = (case pget v k of JStr s \<Rightarrow> s | _ \<Rightarrow> [])"

text \<open>A field that is a non-empty string overwrites; arguments are appended.\<close>

definition patch_function :: "jsval \<Rightarrow> call_function \<Rightarrow> call_function" where
  "patch_function fn f =
     (if is_object fn
      then \<lparr>cf_name = (if text_field fn ''name'' = [] then cf_name f else text_field fn ''name''),
            cf_arguments = cf_arguments f @ text_field fn ''arguments''\<rparr>
      else f)"

definition patch_call :: "nat \<Rightarrow> jsval \<Rightarrow> tool_call \<Rightarrow> tool_call" where
  "patch_call i raw c =
     \<lparr>tc_index = i,
      tc_id = (if text_field raw ''id'' = [] then tc_id c else Some (text_field raw ''id'')),
      tc_type = (if text_field raw ''type'' = [] then tc_type c else Some (text_field raw ''type'')),
      tc_function = patch_function (pget raw ''function'') (tc_function c)\<rparr>"

datatype 'a merged = Merged 'a | Throws | Hangs

definition patch_index :: "tool_call list \<Rightarrow> jsval \<Rightarrow> jsnum" where
  "patch_index cs raw = (case pget raw ''index'' of JNum n \<Rightarrow> n | _ \<Rightarrow> Fin (of_nat (length cs)))"

text \<open>Where there is no call at the index, the assignment to its field throws.\<close>

definition merge_patch :: "jsval \<Rightarrow> tool_call list \<Rightarrow> tool_call list merged" where
  "merge_patch raw cs =
     (if \<not> is_object raw then Merged cs
      else case extend_loop (patch_index cs raw) cs of
        None \<Rightarrow> Hangs
      | Some None \<Rightarrow> Throws
      | Some (Some cs') \<Rightarrow> (case call_at (patch_index cs raw) cs' of
          None \<Rightarrow> Throws
        | Some i \<Rightarrow> Merged (cs'[i := patch_call i raw (cs' ! i)])))"

fun merge_patches :: "jsval list \<Rightarrow> tool_call list \<Rightarrow> tool_call list merged" where
  "merge_patches [] cs = Merged cs"
| "merge_patches (p # ps) cs = (case merge_patch p cs of
     Merged cs' \<Rightarrow> merge_patches ps cs' | Throws \<Rightarrow> Throws | Hangs \<Rightarrow> Hangs)"

definition mergeToolCallDeltas :: "tool_call list \<Rightarrow> jsval \<Rightarrow> tool_call list merged" where
  "mergeToolCallDeltas existing patches = merge_patches (items patches) existing"

section \<open>Reading the stream\<close>

record stream_usage =
  su_prompt :: jsval
  su_completion :: jsval
  su_total :: jsval
  su_credits :: jsval
  su_source :: jsval

datatype event =
    On_content jstr jstr
  | On_reasoning jstr jstr
  | On_tool_calls "tool_call list"
  | On_usage stream_usage

record stream_state =
  ss_buffer :: jstr
  ss_full :: jstr
  ss_reasoning :: jstr
  ss_calls :: "tool_call list"
  ss_events :: "event list"
  ss_done :: bool
  ss_hangs :: bool

definition initial_stream :: stream_state where
  "initial_stream = \<lparr>ss_buffer = [], ss_full = [], ss_reasoning = [], ss_calls = [], ss_events = [], ss_done = False, ss_hangs = False\<rparr>"

definition number_or_undef :: "jsval \<Rightarrow> jsval" where
  "number_or_undef v = (case v of JNum n \<Rightarrow> v | _ \<Rightarrow> Undef)"

definition finite_number :: "jsval \<Rightarrow> bool" where
  "finite_number v = (case v of JNum n \<Rightarrow> num_finite n | _ \<Rightarrow> False)"

definition readUsageCredits :: "jsval \<Rightarrow> jsval" where
  "readUsageCredits raw =
     (case find (\<lambda>k. finite_number (pget raw k)) [''credits'', ''credit'', ''consumed_credits'', ''ConsumedCredits''] of
        None \<Rightarrow> Undef | Some k \<Rightarrow> pget raw k)"

definition usage_of :: "jsval \<Rightarrow> stream_usage" where
  "usage_of raw =
     \<lparr>su_prompt = number_or_undef (pget raw ''prompt_tokens''), su_completion = number_or_undef (pget raw ''completion_tokens''),
      su_total = number_or_undef (pget raw ''total_tokens''), su_credits = readUsageCredits raw,
      su_source = (case pget raw ''source'' of JStr s \<Rightarrow> JStr s | _ \<Rightarrow> Undef)\<rparr>"

text \<open>\<open>v?.[0]\<close> on parsed data.\<close>

definition element0 :: "jsval \<Rightarrow> jsval" where
  "element0 v = (case v of
     JArr (x # _) \<Rightarrow> x
   | JObj ps \<Rightarrow> lookup (js ''0'') ps
   | JStr (c # _) \<Rightarrow> JStr [c]
   | _ \<Rightarrow> Undef)"

definition emit_event :: "event \<Rightarrow> stream_state \<Rightarrow> stream_state" where
  "emit_event e s = s\<lparr>ss_events := ss_events s @ [e]\<rparr>"

definition take_usage :: "jsval \<Rightarrow> stream_state \<Rightarrow> stream_state" where
  "take_usage u s = (if is_object u then emit_event (On_usage (usage_of u)) s else s)"

definition take_content :: "jstr \<Rightarrow> stream_state \<Rightarrow> stream_state" where
  "take_content d s =
     (if d = [] then s else emit_event (On_content d (ss_full s @ d)) (s\<lparr>ss_full := ss_full s @ d\<rparr>))"

definition take_reasoning :: "jstr \<Rightarrow> stream_state \<Rightarrow> stream_state" where
  "take_reasoning d s =
     (if d = [] then s else emit_event (On_reasoning d (ss_reasoning s @ d)) (s\<lparr>ss_reasoning := ss_reasoning s @ d\<rparr>))"

definition take_calls :: "jsval \<Rightarrow> stream_state \<Rightarrow> stream_state" where
  "take_calls v s =
     (if \<not> truthy v then s
      else case mergeToolCallDeltas (ss_calls s) v of
        Merged cs \<Rightarrow> emit_event (On_tool_calls cs) (s\<lparr>ss_calls := cs\<rparr>)
      | Throws \<Rightarrow> s
      | Hangs \<Rightarrow> s\<lparr>ss_hangs := True\<rparr>)"

definition take_delta :: "jsval \<Rightarrow> stream_state \<Rightarrow> stream_state" where
  "take_delta d s =
     (if \<not> is_object d then s
      else take_calls (pget d ''tool_calls'')
        (take_reasoning (text_field d ''reasoning_content'') (take_content (text_field d ''content'') s)))"

definition consumeLine :: "jstr \<Rightarrow> stream_state \<Rightarrow> stream_state" where
  "consumeLine line s =
     (let trimmed = trim line; payload = trim (drop 5 trimmed) in
      if ss_done s \<or> ss_hangs s then s
      else if \<not> starts_with (js ''data:'') trimmed then s
      else if payload = [] then s
      else if payload = js ''[DONE]'' then s\<lparr>ss_done := True\<rparr>
      else case json_parse payload of
        None \<Rightarrow> s
      | Some json \<Rightarrow> take_delta (pget (element0 (pget json ''choices'')) ''delta'') (take_usage (pget json ''usage'') s))"

text \<open>A piece of the body; once \<open>[DONE]\<close> was read, lines are skipped, as the function has returned.\<close>

definition read_piece :: "jstr \<Rightarrow> stream_state \<Rightarrow> stream_state" where
  "read_piece t s =
     (let ls = split_on 10 (ss_buffer s @ t) in
      fold consumeLine (butlast ls) (s\<lparr>ss_buffer := last ls\<rparr>))"

definition end_of_body :: "stream_state \<Rightarrow> stream_state" where
  "end_of_body s = (if ss_done s \<or> trim (ss_buffer s) = [] then s else consumeLine (ss_buffer s) s)"

definition streamChat :: "jstr list \<Rightarrow> stream_state" where
  "streamChat pieces = end_of_body (fold read_piece pieces initial_stream)"

section \<open>The pieces do not matter\<close>

lemma events_buffer: "emit_event e (s\<lparr>ss_buffer := b\<rparr>) = (emit_event e s)\<lparr>ss_buffer := b\<rparr>"
  by (simp add: emit_event_def)

lemma takes_buffer:
  "take_usage u (s\<lparr>ss_buffer := b\<rparr>) = (take_usage u s)\<lparr>ss_buffer := b\<rparr>"
  "take_content d (s\<lparr>ss_buffer := b\<rparr>) = (take_content d s)\<lparr>ss_buffer := b\<rparr>"
  "take_reasoning d (s\<lparr>ss_buffer := b\<rparr>) = (take_reasoning d s)\<lparr>ss_buffer := b\<rparr>"
  by (simp_all add: take_usage_def take_content_def take_reasoning_def emit_event_def)

lemma calls_buffer: "take_calls v (s\<lparr>ss_buffer := b\<rparr>) = (take_calls v s)\<lparr>ss_buffer := b\<rparr>"
  by (cases "mergeToolCallDeltas (ss_calls s) v") (simp_all add: take_calls_def emit_event_def)

lemma delta_buffer: "take_delta d (s\<lparr>ss_buffer := b\<rparr>) = (take_delta d s)\<lparr>ss_buffer := b\<rparr>"
  by (simp add: take_delta_def takes_buffer calls_buffer)

lemma consume_buffer: "consumeLine l (s\<lparr>ss_buffer := b\<rparr>) = (consumeLine l s)\<lparr>ss_buffer := b\<rparr>"
  by (simp add: consumeLine_def Let_def takes_buffer delta_buffer split: option.split)

interpretation pieces: line_reader consumeLine ss_buffer "\<lambda>b s. s\<lparr>ss_buffer := b\<rparr>" read_piece
  by unfold_locales (simp_all add: consume_buffer read_piece_def Let_def)

lemma whole_body: "streamChat pieces = streamChat [concat pieces]"
proof -
  have "10 \<notin> set (ss_buffer initial_stream)" by (simp add: initial_stream_def)
  from pieces.feed_pieces [OF this, of pieces] show ?thesis by (simp add: streamChat_def)
qed

text \<open>
  C25: The interface shows the same answer however the network cuts the stream into pieces: the text, the
  reasoning, the tool calls and every callback are those of the whole body read at once.
\<close>

theorem stream_pieces_irrelevant: "concat pieces = concat pieces' \<Longrightarrow> streamChat pieces = streamChat pieces'"
  using whole_body [of pieces] whole_body [of pieces'] by simp

theorem stream_pieces_irrelevant_witness:
  "streamChat [js ''data: [DO'', js ''NE]''] = streamChat [js ''data: [DONE]'']"
  using stream_pieces_irrelevant [of "[js ''data: [DO'', js ''NE]'']" "[js ''data: [DONE]'']"] by (simp add: js_def)

section \<open>What the callbacks are told\<close>

text \<open>
  Every content callback has the text of all the callbacks so far, every reasoning callback the
  reasoning so far, and the tool calls stand at their indices.
\<close>

fun told :: "event list \<Rightarrow> jstr \<Rightarrow> jstr \<Rightarrow> (jstr \<times> jstr) option" where
  "told [] f r = Some (f, r)"
| "told (On_content d f' # es) f r = (if f' = f @ d \<and> d \<noteq> [] then told es f' r else None)"
| "told (On_reasoning d r' # es) f r = (if r' = r @ d \<and> d \<noteq> [] then told es f r' else None)"
| "told (e # es) f r = told es f r"

lemma told_append: "told (es @ es') f r = (case told es f r of None \<Rightarrow> None | Some (f', r') \<Rightarrow> told es' f' r')"
  by (induction es f r rule: told.induct) auto

definition calls_ok :: "tool_call list \<Rightarrow> bool" where
  "calls_ok cs \<longleftrightarrow> (\<forall>i < length cs. tc_index (cs ! i) = i)"

lemma push_calls_ok: "calls_ok cs \<Longrightarrow> push_call cs = Some cs' \<Longrightarrow> calls_ok cs'"
  by (auto simp: calls_ok_def push_call_def nth_append blank_call_def less_Suc_eq split: if_splits)

lemma extend_loop_step:
  "extend_loop n cs =
     (if num_le (Fin (of_nat (length cs))) n
      then (case push_call cs of None \<Rightarrow> Some None | Some cs' \<Rightarrow> extend_loop n cs') else Some (Some cs))"
  by (rule extend_loop.simps)

lemma push_call_nearer: "push_call cs = Some cs' \<Longrightarrow> max_length - length cs' < max_length - length cs"
  by (auto simp: push_call_def split: if_splits)

lemma extend_loop_ok: "extend_loop n cs = Some (Some cs') \<Longrightarrow> calls_ok cs \<Longrightarrow> calls_ok cs'"
proof (induction "max_length - length cs" arbitrary: cs rule: less_induct)
  case less
  show ?case
  proof (cases "num_le (Fin (of_nat (length cs))) n")
    case False
    with less.prems show ?thesis using extend_loop_step [of n cs] by simp
  next
    case True
    with less.prems obtain ds where ds: "push_call cs = Some ds" "extend_loop n ds = Some (Some cs')"
      using extend_loop_step [of n cs] by (auto split: option.splits)
    from less.hyps [OF push_call_nearer [OF ds(1)] ds(2)] push_calls_ok [OF less.prems(2) ds(1)] show ?thesis by simp
  qed
qed

lemma update_calls_ok: "calls_ok cs \<Longrightarrow> calls_ok (cs[k := patch_call k p c])"
proof -
  have "tc_index (patch_call k p c) = k" by (simp add: patch_call_def)
  then have "tc_index (cs[k := patch_call k p c] ! i) = i" if "calls_ok cs" "i < length cs" for i
    using that by (cases "i = k") (simp_all add: calls_ok_def)
  then show "calls_ok cs \<Longrightarrow> calls_ok (cs[k := patch_call k p c])" by (simp add: calls_ok_def)
qed

lemma merge_patch_ok: "calls_ok cs \<Longrightarrow> merge_patch raw cs = Merged cs' \<Longrightarrow> calls_ok cs'"
  by (auto simp: merge_patch_def update_calls_ok split: if_splits option.splits dest: extend_loop_ok)

lemma merge_patches_ok: "calls_ok cs \<Longrightarrow> merge_patches ps cs = Merged cs' \<Longrightarrow> calls_ok cs'"
proof (induction ps arbitrary: cs)
  case (Cons p ps)
  then show ?case using merge_patch_ok [of cs p] by (auto split: merged.splits)
qed simp

definition stream_ok :: "stream_state \<Rightarrow> bool" where
  "stream_ok s \<longleftrightarrow> told (ss_events s) [] [] = Some (ss_full s, ss_reasoning s) \<and> calls_ok (ss_calls s)
     \<and> (\<forall>cs. On_tool_calls cs \<in> set (ss_events s) \<longrightarrow> calls_ok cs)"

lemma stream_ok_frame [simp]:
  "stream_ok (s\<lparr>ss_buffer := b\<rparr>) = stream_ok s" "stream_ok (s\<lparr>ss_done := d\<rparr>) = stream_ok s"
  "stream_ok (s\<lparr>ss_hangs := d\<rparr>) = stream_ok s"
  by (simp_all add: stream_ok_def)

lemma take_usage_ok: "stream_ok s \<Longrightarrow> stream_ok (take_usage u s)"
  by (simp add: take_usage_def stream_ok_def emit_event_def told_append)

lemma take_content_ok: "stream_ok s \<Longrightarrow> stream_ok (take_content d s)"
  by (simp add: take_content_def stream_ok_def emit_event_def told_append)

lemma take_reasoning_ok: "stream_ok s \<Longrightarrow> stream_ok (take_reasoning d s)"
  by (simp add: take_reasoning_def stream_ok_def emit_event_def told_append)

lemma take_calls_ok: "stream_ok s \<Longrightarrow> stream_ok (take_calls v s)"
proof -
  assume ok: "stream_ok s"
  show ?thesis
  proof (cases "mergeToolCallDeltas (ss_calls s) v")
    case (Merged cs)
    then have "calls_ok cs" using ok merge_patches_ok by (auto simp: mergeToolCallDeltas_def stream_ok_def)
    with Merged ok show ?thesis by (auto simp: take_calls_def stream_ok_def emit_event_def told_append)
  qed (use ok in \<open>simp_all add: take_calls_def\<close>)
qed

lemma consume_ok: "stream_ok s \<Longrightarrow> stream_ok (consumeLine l s)"
  by (simp add: consumeLine_def take_delta_def take_usage_ok take_content_ok take_reasoning_ok take_calls_ok Let_def
      split: option.split)

lemma fold_consume_ok: "stream_ok s \<Longrightarrow> stream_ok (fold consumeLine ls s)"
  by (induction ls arbitrary: s) (simp_all add: consume_ok)

lemma read_ok: "stream_ok s \<Longrightarrow> stream_ok (fold read_piece ts s)"
  by (induction ts arbitrary: s) (simp_all add: read_piece_def Let_def fold_consume_ok)

theorem stream_callbacks_consistent:
  "told (ss_events (streamChat pieces)) [] [] = Some (ss_full (streamChat pieces), ss_reasoning (streamChat pieces))
   \<and> calls_ok (ss_calls (streamChat pieces))"
proof -
  have "stream_ok initial_stream" by (simp add: stream_ok_def initial_stream_def calls_ok_def)
  then have "stream_ok (streamChat pieces)" by (simp add: streamChat_def end_of_body_def consume_ok read_ok)
  then show ?thesis by (simp add: stream_ok_def)
qed

section \<open>Reading ends\<close>

text \<open>Each push leaves the loop one element nearer to the largest array, whatever the index is.\<close>

lemma extend_loop_ends: "extend_loop n cs \<noteq> None"
proof (induction "max_length - length cs" arbitrary: cs rule: less_induct)
  case less
  show ?case
  proof (cases "push_call cs")
    case None
    then show ?thesis by (subst extend_loop.simps) simp
  next
    case (Some cs')
    from less [OF push_call_nearer [OF Some]] Some show ?thesis by (subst extend_loop.simps) simp
  qed
qed

text \<open>An infinite index (the JSON number \<open>1e999\<close>) is met by no push but the one that throws.\<close>

lemma infinite_index_fills_array: "extend_loop Inf cs = Some None"
proof (induction "max_length - length cs" arbitrary: cs rule: less_induct)
  case less
  show ?case
  proof (cases "push_call cs")
    case None
    then show ?thesis by (subst extend_loop.simps) simp
  next
    case (Some cs')
    from less [OF push_call_nearer [OF Some]] Some show ?thesis by (subst extend_loop.simps) simp
  qed
qed

lemma merge_patch_ends: "merge_patch p cs \<noteq> Hangs"
  using extend_loop_ends [of "patch_index cs p" cs] by (auto simp: merge_patch_def split: option.splits)

lemma merge_patches_end: "merge_patches ps cs \<noteq> Hangs"
  by (induction ps arbitrary: cs) (auto simp: merge_patch_ends split: merged.splits)

lemma take_calls_end: "ss_hangs (take_calls v s) = ss_hangs s"
  by (auto simp: take_calls_def mergeToolCallDeltas_def merge_patches_end emit_event_def split: merged.splits)

lemma hangs_frame [simp]:
  "ss_hangs (take_usage u s) = ss_hangs s" "ss_hangs (take_content d s) = ss_hangs s"
  "ss_hangs (take_reasoning d s) = ss_hangs s"
  by (simp_all add: take_usage_def take_content_def take_reasoning_def emit_event_def)

lemma consume_ends: "ss_hangs (consumeLine l s) = ss_hangs s"
  by (simp add: consumeLine_def take_delta_def take_calls_end Let_def split: option.split)

lemma fold_consume_ends: "ss_hangs (fold consumeLine ls s) = ss_hangs s"
  by (induction ls arbitrary: s) (simp_all add: consume_ends)

lemma read_pieces_end: "ss_hangs (fold read_piece ts s) = ss_hangs s"
  by (induction ts arbitrary: s) (simp_all add: read_piece_def fold_consume_ends Let_def)

text \<open>
  C26: Reading a streamed chat always returns: no line of any body, however it is cut, keeps the loop over the
  tool call indices running for ever.
\<close>

theorem stream_chat_ends: "\<not> ss_hangs (streamChat pieces)"
  by (simp add: streamChat_def end_of_body_def consume_ends read_pieces_end) (simp add: initial_stream_def)

section \<open>The fragments of a tool call\<close>

text \<open>A whole index below the limit of arrays is reached, and the calls up to it are blank.\<close>

definition extend_calls :: "nat \<Rightarrow> tool_call list \<Rightarrow> tool_call list" where
  "extend_calls i cs = cs @ map blank_call [length cs..<Suc i]"

lemma length_extend: "i < length (extend_calls i cs)"
  by (simp add: extend_calls_def)

lemma extend_loop_index: "i < max_length \<Longrightarrow> extend_loop (Fin (of_nat i)) cs = Some (Some (extend_calls i cs))"
proof (induction "Suc i - length cs" arbitrary: cs)
  case 0
  then have "i < length cs" by simp
  then show ?case by (subst extend_loop.simps) (simp add: extend_calls_def)
next
  case (Suc k)
  then have len: "length cs \<le> i" by simp
  with Suc have "push_call cs = Some (cs @ [blank_call (length cs)])" by (simp add: push_call_def)
  moreover have "extend_calls i (cs @ [blank_call (length cs)]) = extend_calls i cs"
    using len by (cases "length cs = i") (simp_all add: extend_calls_def upt_conv_Cons)
  moreover have "extend_loop (Fin (of_nat i)) (cs @ [blank_call (length cs)]) = Some (Some (extend_calls i (cs @ [blank_call (length cs)])))"
    by (rule Suc(1)) (use Suc in simp_all)
  ultimately show ?case using len by (subst extend_loop.simps) simp
qed

definition fragment_for :: "nat \<Rightarrow> jsval \<Rightarrow> jstr" where
  "fragment_for i p = (if pget p ''index'' = jint (int i) \<and> is_object (pget p ''function'')
     then text_field (pget p ''function'') ''arguments'' else [])"

definition indexed_patch :: "jsval \<Rightarrow> bool" where
  "indexed_patch p \<longleftrightarrow> is_object p \<and> (\<exists>i < max_length. pget p ''index'' = jint (int i))"

definition arguments_at :: "nat \<Rightarrow> tool_call list \<Rightarrow> jstr" where
  "arguments_at i cs = (if i < length cs then cf_arguments (tc_function (cs ! i)) else [])"

lemma arguments_extend: "arguments_at i (extend_calls k cs) = arguments_at i cs"
  by (auto simp: arguments_at_def extend_calls_def nth_append blank_call_def)

lemma merge_indexed:
  assumes "is_object p" and "pget p ''index'' = jint (int k)" and "k < max_length"
  shows "merge_patch p cs = Merged ((extend_calls k cs)[k := patch_call k p (extend_calls k cs ! k)])"
  using assms length_extend [of k cs] by (simp add: merge_patch_def patch_index_def extend_loop_index call_at_def is_int_rat_def)

lemma merge_patch_arguments:
  assumes "indexed_patch p"
  shows "\<exists>cs'. merge_patch p cs = Merged cs' \<and> arguments_at i cs' = arguments_at i cs @ fragment_for i p"
proof -
  from assms obtain k where k: "is_object p" "pget p ''index'' = jint (int k)" "k < max_length"
    by (auto simp: indexed_patch_def)
  let ?cs = "extend_calls k cs"
  have "arguments_at i (?cs[k := patch_call k p (?cs ! k)]) = arguments_at i ?cs @ fragment_for i p"
    using length_extend [of k cs] k
    by (auto simp: arguments_at_def fragment_for_def patch_call_def patch_function_def nth_list_update)
  with merge_indexed [OF k] show ?thesis by (simp add: arguments_extend)
qed

lemma merge_patch_other:
  assumes "indexed_patch p" and "merge_patch p cs = Merged cs'" and "i < length cs" and "pget p ''index'' \<noteq> jint (int i)"
  shows "i < length cs' \<and> cs' ! i = cs ! i"
proof -
  from assms(1) obtain k where k: "is_object p" "pget p ''index'' = jint (int k)" "k < max_length"
    by (auto simp: indexed_patch_def)
  with assms(4) have "k \<noteq> i" by auto
  with merge_indexed [OF k, of cs] assms(2,3) show ?thesis by (auto simp: extend_calls_def nth_append)
qed

text \<open>
  C27: When every delta is an object with a whole index within the limit of arrays, the arguments of a call are
  the fragments sent for its index, in order, and a call for whose index nothing is sent stays as it is.
\<close>

theorem tool_arguments_concatenated:
  assumes "list_all indexed_patch ps"
  shows "\<exists>cs'. mergeToolCallDeltas cs (JArr ps) = Merged cs'
    \<and> (\<forall>i. arguments_at i cs' = arguments_at i cs @ concat (map (fragment_for i) ps))
    \<and> (\<forall>i < length cs. (\<forall>p \<in> set ps. pget p ''index'' \<noteq> jint (int i)) \<longrightarrow> i < length cs' \<and> cs' ! i = cs ! i)"
proof -
  have "\<exists>cs'. merge_patches ps cs = Merged cs' \<and> (\<forall>i. arguments_at i cs' = arguments_at i cs @ concat (map (fragment_for i) ps))
    \<and> (\<forall>i < length cs. (\<forall>p \<in> set ps. pget p ''index'' \<noteq> jint (int i)) \<longrightarrow> i < length cs' \<and> cs' ! i = cs ! i)"
    using assms
  proof (induction ps arbitrary: cs)
    case (Cons p ps)
    then have p: "indexed_patch p" by simp
    from merge_patch_arguments [OF p] obtain cs1 where m: "merge_patch p cs = Merged cs1" by blast
    have a: "arguments_at i cs1 = arguments_at i cs @ fragment_for i p" for i
      using merge_patch_arguments [OF p, of cs i] m by simp
    note o1 = merge_patch_other [OF p m]
    from Cons.IH [of cs1] Cons.prems obtain cs2 where m2: "merge_patches ps cs1 = Merged cs2"
      and a2: "\<forall>i. arguments_at i cs2 = arguments_at i cs1 @ concat (map (fragment_for i) ps)"
      and o2: "\<forall>i < length cs1. (\<forall>p \<in> set ps. pget p ''index'' \<noteq> jint (int i)) \<longrightarrow> i < length cs2 \<and> cs2 ! i = cs1 ! i"
      by auto
    have "i < length cs2 \<and> cs2 ! i = cs ! i"
      if "i < length cs" "\<forall>q \<in> set (p # ps). pget q ''index'' \<noteq> jint (int i)" for i
      using o1 [of i] o2 that by auto
    with m m2 a a2 show ?case by simp
  qed simp
  then show ?thesis by (simp add: mergeToolCallDeltas_def)
qed

definition example_patch :: "nat \<Rightarrow> string \<Rightarrow> jsval" where
  "example_patch i a = JObj [(js ''index'', jint (int i)), (js ''function'', JObj [(js ''arguments'', jlit a)])]"

theorem tool_arguments_concatenated_witness:
  "\<exists>cs'. mergeToolCallDeltas [blank_call 0, blank_call 1, blank_call 2]
       (JArr [example_patch 0 ''{a'', example_patch 1 ''[]'', example_patch 0 ''b}'']) = Merged cs'
     \<and> arguments_at 0 cs' = js ''{ab}'' \<and> cs' ! 2 = blank_call 2"
proof -
  let ?ps = "[example_patch 0 ''{a'', example_patch 1 ''[]'', example_patch 0 ''b}'']"
  have "list_all indexed_patch ?ps"
    by (auto simp: indexed_patch_def example_patch_def max_length_def intro: exI [of _ 0] exI [of _ 1])
  from tool_arguments_concatenated [OF this, of "[blank_call 0, blank_call 1, blank_call 2]"] obtain cs' where
    m: "mergeToolCallDeltas [blank_call 0, blank_call 1, blank_call 2] (JArr ?ps) = Merged cs'" and
    a: "arguments_at 0 cs' = arguments_at 0 [blank_call 0, blank_call 1, blank_call 2] @ concat (map (fragment_for 0) ?ps)" and
    r: "\<forall>i < length [blank_call 0, blank_call 1, blank_call 2]. (\<forall>p \<in> set ?ps. pget p ''index'' \<noteq> jint (int i))
      \<longrightarrow> i < length cs' \<and> cs' ! i = [blank_call 0, blank_call 1, blank_call 2] ! i"
    by blast
  have "concat (map (fragment_for 0) ?ps) = js ''{ab}''"
    by (simp add: fragment_for_def example_patch_def text_field_def js_def)
  moreover have "\<forall>p \<in> set ?ps. pget p ''index'' \<noteq> jint (int 2)" by (simp add: example_patch_def)
  then have "cs' ! 2 = blank_call 2" using r by auto
  ultimately show ?thesis using m a by (auto simp: arguments_at_def blank_call_def)
qed

text \<open>
  A delta with another index throws, and the deltas of its frame are lost with it.
\<close>

lemma fractional_index_throws: "mergeToolCallDeltas [] (JArr [JObj [(js ''index'', JNum (Fin (1 / 2)))]]) = Throws"
proof -
  have "extend_loop (Fin (1 / 2)) [] = Some (Some [blank_call 0])"
    by (subst extend_loop.simps, simp add: push_call_def max_length_def) (subst extend_loop.simps, simp)
  moreover have "\<not> is_int_rat (1 / 2)" by code_simp
  ultimately show ?thesis by (simp add: mergeToolCallDeltas_def merge_patch_def patch_index_def call_at_def)
qed

end
