(* ===== verification/Front_Models.thy ===== *)
theory Front_Models
  imports Front_Prelude
begin

text \<open>
  The memory of model lists (\<open>fetchModelsCached\<close>, \<open>refreshModels\<close> in \<open>frontend/src/api/overview.ts\<close>): the
  cache, the requests in flight, and their interleaving with the callers. A promise is the number of
  its request; the response of a request arrives at any later time, or it fails. The answers received
  are logged, so that what the cache serves can be traced to one of them.
\<close>

section \<open>State\<close>

record entry =
  en_data :: jsval
  en_at :: rat
  en_pending :: "nat option"

datatype flight_kind = Cached | Refreshing

text \<open>\<open>mm_flights\<close>: the requests in flight, with the key each loads; \<open>mm_log\<close>: key, data and time of the
  answers so far.\<close>

record memory =
  mm_cache :: "(jstr \<times> entry) list"
  mm_flights :: "(nat \<times> jstr \<times> flight_kind) list"
  mm_next :: nat
  mm_log :: "(jstr \<times> jsval \<times> rat) list"

definition initial_memory :: memory where
  "initial_memory = \<lparr>mm_cache = [], mm_flights = [], mm_next = 0, mm_log = []\<rparr>"

definition modelsMemoryTTL :: rat where
  "modelsMemoryTTL = 30000"

definition modelsMemoryKey :: "jstr option \<Rightarrow> bool \<Rightarrow> jstr" where
  "modelsMemoryKey account regional =
     (if str_or_empty account = [] then js ''*'' else str_or_empty account) @ js ''@''
     @ (if regional then js ''regional'' else js ''merged'')"

text \<open>What a caller gets: data at once, or the promise of a request.\<close>

datatype served = Now jsval | Promise nat

definition start_flight :: "jstr \<Rightarrow> flight_kind \<Rightarrow> memory \<Rightarrow> nat \<times> memory" where
  "start_flight k kind m =
     (mm_next m, m\<lparr>mm_flights := mm_flights m @ [(mm_next m, k, kind)], mm_next := Suc (mm_next m)\<rparr>)"

definition load_entry :: "entry option \<Rightarrow> nat \<Rightarrow> entry" where
  "load_entry cached p =
     \<lparr>en_data = (case cached of None \<Rightarrow> JObj [] | Some e \<Rightarrow> if truthy (en_data e) then en_data e else JObj []),
      en_at = (case cached of None \<Rightarrow> 0 | Some e \<Rightarrow> en_at e), en_pending = Some p\<rparr>"

definition fetchModelsCached :: "jstr \<Rightarrow> rat \<Rightarrow> memory \<Rightarrow> served \<times> memory" where
  "fetchModelsCached k now m =
     (let cached = map_of (mm_cache m) k;
          load = (let (p, m1) = start_flight k Cached m in
                  (Promise p, m1\<lparr>mm_cache := aput k (load_entry cached p) (mm_cache m1)\<rparr>)) in
      case cached of
        None \<Rightarrow> load
      | Some e \<Rightarrow>
          if now - en_at e < modelsMemoryTTL then (Now (en_data e), m)
          else (case en_pending e of Some p \<Rightarrow> (Promise p, m) | None \<Rightarrow> load))"

definition refreshModels :: "jstr \<Rightarrow> memory \<Rightarrow> served \<times> memory" where
  "refreshModels k m =
     (let (p, m1) = start_flight k Refreshing m in
      (Promise p, m1\<lparr>mm_cache := filter (\<lambda>e. fst e \<noteq> k) (mm_cache m1)\<rparr>))"

text \<open>
  The handlers of a request: its data are stored with the time of the answer; then, for a cached load,
  \<open>finally\<close> takes the promise back out of an entry that still has it.
\<close>

definition store_answer :: "jstr \<Rightarrow> jsval \<Rightarrow> rat \<Rightarrow> memory \<Rightarrow> memory" where
  "store_answer k d now m =
     m\<lparr>mm_log := mm_log m @ [(k, d, now)],
       mm_cache := aput k \<lparr>en_data = d, en_at = now, en_pending = None\<rparr> (mm_cache m)\<rparr>"

definition release_pending :: "jstr \<Rightarrow> nat \<Rightarrow> memory \<Rightarrow> memory" where
  "release_pending k p m =
     (case map_of (mm_cache m) k of
        Some e \<Rightarrow> if en_pending e = Some p then m\<lparr>mm_cache := aput k (e\<lparr>en_pending := None\<rparr>) (mm_cache m)\<rparr> else m
      | None \<Rightarrow> m)"

definition land :: "nat \<Rightarrow> memory \<Rightarrow> memory" where
  "land p m = m\<lparr>mm_flights := filter (\<lambda>f. fst f \<noteq> p) (mm_flights m)\<rparr>"

definition answered :: "nat \<Rightarrow> jsval \<Rightarrow> rat \<Rightarrow> memory \<Rightarrow> memory" where
  "answered p d now m =
     (case map_of (mm_flights m) p of
        None \<Rightarrow> m
      | Some (k, kind) \<Rightarrow>
          (let m1 = store_answer k d now (land p m) in if kind = Cached then release_pending k p m1 else m1))"

definition failed :: "nat \<Rightarrow> memory \<Rightarrow> memory" where
  "failed p m =
     (case map_of (mm_flights m) p of
        None \<Rightarrow> m
      | Some (k, kind) \<Rightarrow> if kind = Cached then release_pending k p (land p m) else land p m)"

inductive memory_step :: "memory \<Rightarrow> memory \<Rightarrow> bool" where
  get_cached: "fetchModelsCached k now m = (r, m') \<Longrightarrow> memory_step m m'"
| get_fresh: "refreshModels k m = (r, m') \<Longrightarrow> memory_step m m'"
| answer: "memory_step m (answered p d now m)"
| failure: "memory_step m (failed p m)"

inductive memory_reachable :: "memory \<Rightarrow> bool" where
  start: "memory_reachable initial_memory"
| step: "memory_reachable m \<Longrightarrow> memory_step m m' \<Longrightarrow> memory_reachable m'"

section \<open>Invariant\<close>

text \<open>
  Every entry holds an answer that was received for its key, with its time, unless nothing was
  received when it was made (its time is zero); and a promise in an entry is that of a request for its
  key which is in flight.
\<close>

definition from_answer :: "memory \<Rightarrow> jstr \<Rightarrow> jsval \<Rightarrow> rat \<Rightarrow> bool" where
  "from_answer m k d at' \<longleftrightarrow> at' = 0 \<or> (\<exists>a. (k, a, at') \<in> set (mm_log m) \<and> (d = a \<or> \<not> truthy a \<and> d = JObj []))"

definition pending_ok :: "memory \<Rightarrow> jstr \<Rightarrow> entry \<Rightarrow> bool" where
  "pending_ok m k e \<longleftrightarrow> (case en_pending e of None \<Rightarrow> True | Some p \<Rightarrow> (p, k, Cached) \<in> set (mm_flights m))"

definition memory_ok :: "memory \<Rightarrow> bool" where
  "memory_ok m \<longleftrightarrow> distinct (map fst (mm_cache m)) \<and> distinct (map fst (mm_flights m))
     \<and> (\<forall>f \<in> set (mm_flights m). fst f < mm_next m)
     \<and> (\<forall>(k, e) \<in> set (mm_cache m). from_answer m k (en_data e) (en_at e) \<and> pending_ok m k e)"

lemma entry_of: "memory_ok m \<Longrightarrow> map_of (mm_cache m) k = Some e \<Longrightarrow> from_answer m k (en_data e) (en_at e) \<and> pending_ok m k e"
  by (auto simp: memory_ok_def dest!: map_of_SomeD)

lemma from_answer_mono: "from_answer m k d t \<Longrightarrow> set (mm_log m) \<subseteq> set (mm_log m') \<Longrightarrow> from_answer m' k d t"
  by (auto simp: from_answer_def)

lemma pending_mono: "pending_ok m k e \<Longrightarrow> set (mm_flights m) \<subseteq> set (mm_flights m') \<Longrightarrow> pending_ok m' k e"
  by (auto simp: pending_ok_def split: option.splits)

lemma start_flight_ok:
  assumes "memory_ok m"
  shows "memory_ok (snd (start_flight k kind m))"
proof -
  have "mm_next m \<notin> fst ` set (mm_flights m)" using assms by (fastforce simp: memory_ok_def)
  moreover have "from_answer (snd (start_flight k kind m)) k' d t = from_answer m k' d t" for k' d t
    by (simp add: from_answer_def start_flight_def)
  moreover have "pending_ok (snd (start_flight k kind m)) k' e" if "pending_ok m k' e" for k' e
    using that by (rule pending_mono) (auto simp: start_flight_def)
  ultimately show ?thesis using assms unfolding memory_ok_def by (auto simp: start_flight_def less_Suc_eq)
qed

text \<open>An entry that is written, with the other entries as they were.\<close>

lemma write_entry_ok:
  assumes ok: "memory_ok m" and e: "from_answer m k (en_data e) (en_at e)" "pending_ok m k e"
  shows "memory_ok (m\<lparr>mm_cache := aput k e (mm_cache m)\<rparr>)"
proof -
  let ?m = "m\<lparr>mm_cache := aput k e (mm_cache m)\<rparr>"
  have same: "from_answer ?m = from_answer m" "pending_ok ?m = pending_ok m"
    by (simp_all add: fun_eq_iff from_answer_def pending_ok_def split: option.split)
  show ?thesis unfolding memory_ok_def same
    using ok e distinct_aput [of "mm_cache m" k e] by (auto simp: memory_ok_def dest!: subsetD [OF set_aput])
qed

lemma load_entry_ok:
  assumes ok: "memory_ok m"
  shows "memory_ok ((snd (start_flight k Cached m))\<lparr>mm_cache := aput k (load_entry (map_of (mm_cache m) k) (mm_next m))
    (mm_cache (snd (start_flight k Cached m)))\<rparr>)"
proof (rule write_entry_ok [OF start_flight_ok [OF ok]])
  let ?m = "snd (start_flight k Cached m)"
  show "pending_ok ?m k (load_entry (map_of (mm_cache m) k) (mm_next m))"
    by (simp add: pending_ok_def load_entry_def start_flight_def)
  show "from_answer ?m k (en_data (load_entry (map_of (mm_cache m) k) (mm_next m)))
      (en_at (load_entry (map_of (mm_cache m) k) (mm_next m)))"
  proof (cases "map_of (mm_cache m) k")
    case (Some e)
    with entry_of [OF ok Some] show ?thesis
      by (auto simp: load_entry_def from_answer_def start_flight_def)
  qed (simp add: load_entry_def from_answer_def)
qed

lemma cached_ok: "memory_ok m \<Longrightarrow> memory_ok (snd (fetchModelsCached k now m))"
  using load_entry_ok [of m k]
  by (cases "map_of (mm_cache m) k")
    (simp_all add: fetchModelsCached_def Let_def case_prod_beta start_flight_def split: option.split)

lemma refresh_ok: "memory_ok m \<Longrightarrow> memory_ok (snd (refreshModels k m))"
proof -
  assume ok: "memory_ok m"
  let ?m = "snd (start_flight k Refreshing m)"
  let ?n = "?m\<lparr>mm_cache := filter (\<lambda>e. fst e \<noteq> k) (mm_cache ?m)\<rparr>"
  have same: "from_answer ?n = from_answer ?m" "pending_ok ?n = pending_ok ?m"
    by (simp_all add: fun_eq_iff from_answer_def pending_ok_def split: option.split)
  have "memory_ok ?n" unfolding memory_ok_def same
    using start_flight_ok [OF ok, of k Refreshing] by (auto simp: memory_ok_def distinct_map_filter)
  then show ?thesis by (simp add: refreshModels_def case_prod_beta)
qed

text \<open>When a request lands, only the entry of its key can still point to it.\<close>

lemma pending_owner:
  assumes "memory_ok m" and "map_of (mm_flights m) p = Some (k, kind)" and "(k', e) \<in> set (mm_cache m)"
    and "en_pending e = Some p"
  shows "k' = k \<and> kind = Cached"
proof -
  have "(p, k', Cached) \<in> set (mm_flights m)" using assms(1,3,4) by (auto simp: memory_ok_def pending_ok_def)
  with assms(1,2) show ?thesis by (auto simp: memory_ok_def)
qed

lemma pending_land:
  "pending_ok m k e \<Longrightarrow> en_pending e \<noteq> Some p \<Longrightarrow> pending_ok (land p m) k e"
  by (auto simp: pending_ok_def land_def split: option.splits)

lemma land_ok:
  assumes ok: "memory_ok m" and free: "\<forall>(k, e) \<in> set (mm_cache m). en_pending e \<noteq> Some p"
  shows "memory_ok (land p m)"
proof -
  have "from_answer (land p m) = from_answer m" by (simp add: fun_eq_iff from_answer_def land_def)
  moreover have "pending_ok (land p m) k e" if "(k, e) \<in> set (mm_cache m)" for k e
    using that ok free by (auto simp: memory_ok_def intro!: pending_land)
  moreover have "mm_cache (land p m) = mm_cache m" "mm_next (land p m) = mm_next m"
    "mm_flights (land p m) = filter (\<lambda>f. fst f \<noteq> p) (mm_flights m)"
    by (simp_all add: land_def)
  ultimately show ?thesis using ok by (auto simp: memory_ok_def distinct_map_filter)
qed

text \<open>The order of landing and releasing does not matter to the memory.\<close>

lemma release_land: "release_pending k p (land p m) = land p (release_pending k p m)"
  by (simp add: release_pending_def land_def split: option.split)

lemma release_ok: "memory_ok m \<Longrightarrow> memory_ok (release_pending k p m)"
proof -
  assume ok: "memory_ok m"
  show ?thesis
  proof (cases "map_of (mm_cache m) k")
    case (Some e)
    have "memory_ok (m\<lparr>mm_cache := aput k (e\<lparr>en_pending := None\<rparr>) (mm_cache m)\<rparr>)"
      by (rule write_entry_ok [OF ok]) (use entry_of [OF ok Some] in \<open>simp_all add: pending_ok_def\<close>)
    with Some ok show ?thesis by (simp add: release_pending_def)
  qed (simp add: release_pending_def ok)
qed

lemma release_frees:
  assumes ok: "memory_ok m" and p: "map_of (mm_flights m) p = Some (k, Cached)"
  shows "\<forall>(k', e) \<in> set (mm_cache (release_pending k p m)). en_pending e \<noteq> Some p"
proof (clarify)
  fix k' e assume e: "(k', e) \<in> set (mm_cache (release_pending k p m))" "en_pending e = Some p"
  have "mm_flights (release_pending k p m) = mm_flights m" by (simp add: release_pending_def split: option.split)
  with pending_owner [OF release_ok [OF ok] _ e, of k Cached] p have "k' = k" by simp
  moreover have "distinct (map fst (mm_cache (release_pending k p m)))"
    using release_ok [OF ok] by (simp add: memory_ok_def)
  ultimately have "map_of (mm_cache (release_pending k p m)) k = Some e" using e(1) by simp
  with e(2) show False by (auto simp: release_pending_def split: option.splits if_splits)
qed

lemma failed_ok:
  assumes ok: "memory_ok m"
  shows "memory_ok (failed p m)"
proof (cases "map_of (mm_flights m) p")
  case (Some f)
  then obtain k kind where f: "map_of (mm_flights m) p = Some (k, kind)" by (cases f) auto
  show ?thesis
  proof (cases kind)
    case Cached
    with f release_frees [OF ok, of p k] release_ok [OF ok] show ?thesis
      by (simp add: failed_def release_land land_ok)
  next
    case Refreshing
    with pending_owner [OF ok f] have "\<forall>(k, e) \<in> set (mm_cache m). en_pending e \<noteq> Some p" by auto
    with f Refreshing ok show ?thesis by (simp add: failed_def land_ok)
  qed
qed (simp add: failed_def ok)

lemma store_ok:
  assumes ok: "memory_ok m"
  shows "memory_ok (store_answer k d now m)"
proof -
  let ?e = "\<lparr>en_data = d, en_at = now, en_pending = None\<rparr>"
  let ?m = "m\<lparr>mm_log := mm_log m @ [(k, d, now)]\<rparr>"
  have "from_answer ?m k' d' t" if "from_answer m k' d' t" for k' d' t
    using that by (rule from_answer_mono) auto
  moreover have "pending_ok ?m = pending_ok m" by (simp add: fun_eq_iff pending_ok_def split: option.split)
  ultimately have "memory_ok ?m" using ok by (auto simp: memory_ok_def)
  then have "memory_ok (?m\<lparr>mm_cache := aput k ?e (mm_cache ?m)\<rparr>)"
    by (rule write_entry_ok) (auto simp: from_answer_def pending_ok_def)
  then show ?thesis by (simp add: store_answer_def)
qed

lemma store_frees:
  assumes ok: "memory_ok m" and p: "map_of (mm_flights m) p = Some (k, kind)"
  shows "\<forall>(k', e) \<in> set (mm_cache (store_answer k d now m)). en_pending e \<noteq> Some p"
proof (clarify)
  fix k' e assume e: "(k', e) \<in> set (mm_cache (store_answer k d now m))" "en_pending e = Some p"
  have "mm_flights (store_answer k d now m) = mm_flights m" by (simp add: store_answer_def)
  with pending_owner [OF store_ok [OF ok] _ e, of k kind] p have "k' = k" by simp
  moreover have "distinct (map fst (mm_cache (store_answer k d now m)))"
    using store_ok [OF ok, of k d now] by (simp add: memory_ok_def)
  ultimately have "map_of (mm_cache (store_answer k d now m)) k = Some e" using e(1) by simp
  with e(2) show False by (auto simp: store_answer_def)
qed

lemma store_land: "store_answer k d now (land p m) = land p (store_answer k d now m)"
  by (simp add: store_answer_def land_def)

lemma answered_ok:
  assumes ok: "memory_ok m"
  shows "memory_ok (answered p d now m)"
proof (cases "map_of (mm_flights m) p")
  case (Some f)
  then obtain k kind where f: "map_of (mm_flights m) p = Some (k, kind)" by (cases f) auto
  have "memory_ok (land p (store_answer k d now m))"
    by (rule land_ok [OF store_ok [OF ok] store_frees [OF ok f]])
  with f show ?thesis by (simp add: answered_def Let_def store_land release_ok)
qed (simp add: answered_def ok)

lemma memory_reachable_ok: "memory_reachable m \<Longrightarrow> memory_ok m"
proof (induction rule: memory_reachable.induct)
  case start
  show ?case by (simp add: memory_ok_def initial_memory_def)
next
  case (step m m')
  from step(2,3) show ?case
  proof (induction rule: memory_step.induct)
    case (get_cached k now m r m')
    then show ?case using cached_ok [of m k now] by simp
  next
    case (get_fresh k m r m')
    then show ?case using refresh_ok [of m k] by simp
  qed (simp_all add: answered_ok failed_ok)
qed

text \<open>
  C31: What the memory serves at once was received for the same key less than thirty seconds before (an
  empty answer counts as an empty object), however requests, answers and failures were interleaved;
  the clock is past its first thirty seconds.
\<close>

theorem served_models_recent:
  assumes "memory_reachable m" and "fetchModelsCached k now m = (Now d, m')" and "30000 \<le> now"
  shows "\<exists>a t. (k, a, t) \<in> set (mm_log m) \<and> now - t < 30000 \<and> (d = a \<or> \<not> truthy a \<and> d = JObj [])"
proof -
  from assms(2) obtain e where e: "map_of (mm_cache m) k = Some e" "now - en_at e < 30000" "d = en_data e"
    by (auto simp: fetchModelsCached_def modelsMemoryTTL_def Let_def start_flight_def split: option.splits if_splits)
  from entry_of [OF memory_reachable_ok [OF assms(1)] e(1)] e(2,3) assms(3) show ?thesis
    by (auto simp: from_answer_def)
qed

lemma example_memory:
  "fetchModelsCached (js ''k'') 40001 (answered 0 (JBool True) 40000 (snd (fetchModelsCached (js ''k'') 40000 initial_memory))) =
     (Now (JBool True), answered 0 (JBool True) 40000 (snd (fetchModelsCached (js ''k'') 40000 initial_memory)))"
  by (simp add: fetchModelsCached_def initial_memory_def start_flight_def load_entry_def answered_def land_def store_answer_def
      release_pending_def modelsMemoryTTL_def Let_def)

theorem served_models_recent_witness:
  "\<exists>a t. (js ''k'', a, t) \<in> set (mm_log (answered 0 (JBool True) 40000 (snd (fetchModelsCached (js ''k'') 40000 initial_memory))))
     \<and> 40001 - t < 30000"
proof -
  have "memory_reachable (snd (fetchModelsCached (js ''k'') 40000 initial_memory))"
    by (rule memory_reachable.step [OF memory_reachable.start memory_step.get_cached [OF prod.collapse [symmetric]]])
  then have "memory_reachable (answered 0 (JBool True) 40000 (snd (fetchModelsCached (js ''k'') 40000 initial_memory)))"
    by (rule memory_reachable.step [OF _ memory_step.answer])
  from served_models_recent [OF this example_memory] show ?thesis by auto
qed

text \<open>
  A caller never waits for a request that has ended: the promise it gets is that of a request in flight
  for its key.
\<close>

theorem promised_models_in_flight:
  assumes "memory_reachable m" and "fetchModelsCached k now m = (Promise p, m')"
  shows "(p, k, Cached) \<in> set (mm_flights m')"
proof (cases "map_of (mm_cache m) k")
  case None
  with assms(2) show ?thesis by (auto simp: fetchModelsCached_def Let_def start_flight_def)
next
  case (Some e)
  from entry_of [OF memory_reachable_ok [OF assms(1)] Some] have "pending_ok m k e" by simp
  with Some assms(2) show ?thesis
    by (auto simp: fetchModelsCached_def Let_def start_flight_def pending_ok_def split: option.splits if_splits)
qed

theorem promised_models_in_flight_witness:
  "(0, js ''k'', Cached) \<in> set (mm_flights (snd (fetchModelsCached (js ''k'') 40000 initial_memory)))"
proof -
  have "fetchModelsCached (js ''k'') 40000 initial_memory = (Promise 0, snd (fetchModelsCached (js ''k'') 40000 initial_memory))"
    by (simp add: fetchModelsCached_def initial_memory_def start_flight_def Let_def)
  from promised_models_in_flight [OF memory_reachable.start this] show ?thesis .
qed

text \<open>
  A refresh does not win over an older load: when the answer of the load comes last, the memory holds
  it, with the later time, and serves it instead of the refreshed list.
\<close>

lemma stale_answer_wins:
  "let m1 = snd (fetchModelsCached (js ''k'') 40000 initial_memory);
       m2 = snd (refreshModels (js ''k'') m1);
       m3 = answered 0 (jlit ''old'') 40200 (answered 1 (jlit ''new'') 40100 m2)
   in fst (fetchModelsCached (js ''k'') 40300 m3) = Now (jlit ''old'')"
  by (simp add: fetchModelsCached_def refreshModels_def initial_memory_def start_flight_def load_entry_def answered_def land_def
      store_answer_def release_pending_def modelsMemoryTTL_def Let_def)

end
