(* ===== verification/Front_Paging.thy ===== *)
theory Front_Paging
  imports Front_Prelude
begin

text \<open>
  Paged lists (\<open>frontend/src/components/ui/ListPager.tsx\<close> and the page arithmetic the log and account
  pages repeat): the row of page numbers, the number of pages, the page that is shown. The locale
  \<open>pager\<close> states what a page with filters and a pager has in common; the pages interpret it.
\<close>

section \<open>Padding\<close>

text \<open>\<open>String(n).padStart(2, '0')\<close>.\<close>

definition pad2 :: "jstr \<Rightarrow> jstr" where
  "pad2 s = (if length s < 2 then replicate (2 - length s) 48 @ s else s)"

section \<open>The row of page numbers\<close>

datatype page_token = Page int | Gap

definition PAGE_SIZES :: "int list" where
  "PAGE_SIZES = [20, 50, 100]"

definition pageTokens :: "int \<Rightarrow> int \<Rightarrow> page_token list" where
  "pageTokens page pageCount =
     (if pageCount \<le> 7 then map Page [1..pageCount]
      else [Page 1] @ (if 3 < page then [Gap] else [])
        @ map Page [max 2 (page - 1)..min (pageCount - 1) (page + 1)]
        @ (if page < pageCount - 2 then [Gap] else []) @ [Page pageCount])"

text \<open>Neighbours in the row are consecutive pages, or have a gap that hides at least one page.\<close>

fun linked :: "page_token list \<Rightarrow> bool" where
  "linked [Page a] = True"
| "linked (Page a # Page b # r) = (b = a + 1 \<and> linked (Page b # r))"
| "linked (Page a # Gap # Page b # r) = (a + 1 < b \<and> linked (Page b # r))"
| "linked _ = False"

lemma linked_upto: "a \<le> b \<Longrightarrow> linked (map Page [a..b])"
proof (induction "nat (b - a)" arbitrary: a)
  case 0
  then show ?case by (simp add: upto.simps)
next
  case (Suc n)
  then have "linked (map Page [a + 1..b])" by simp
  moreover have "[a..b] = a # (a + 1) # [a + 1 + 1..b]" "[a + 1..b] = (a + 1) # [a + 1 + 1..b]"
    using Suc by (simp_all add: upto.simps [of a b] upto.simps [of "a + 1" b])
  ultimately show ?case by simp
qed

lemma upto_two: "[a..a + 1] = [a, a + 1]" for a :: int
  by (simp add: upto.simps)

lemma upto_three: "[a - 1..a + 1] = [a - 1, a, a + 1]" for a :: int
  by (simp add: upto.simps)

lemma pageTokens_cases:
  assumes "7 < n" and "1 \<le> p" and "p \<le> n"
  shows "pageTokens p n =
    (if p = 1 then [Page 1, Page 2, Gap, Page n]
     else if p = 2 then [Page 1, Page 2, Page 3, Gap, Page n]
     else if p = 3 then [Page 1, Page 2, Page 3, Page 4, Gap, Page n]
     else if p = n then [Page 1, Gap, Page (n - 1), Page n]
     else if p = n - 1 then [Page 1, Gap, Page (n - 2), Page (n - 1), Page n]
     else if p = n - 2 then [Page 1, Gap, Page (n - 3), Page (n - 2), Page (n - 1), Page n]
     else [Page 1, Gap, Page (p - 1), Page p, Page (p + 1), Gap, Page n])"
proof -
  have "[2..3] = [2, 3 :: int]" "[2..4] = [2, 3, 4 :: int]" "[2..2] = [2 :: int]" by (simp_all add: upto.simps)
  moreover have "[n - 3..n - 1] = [n - 3, n - 2, n - 1]" using upto_three [of "n - 2"] by simp
  moreover have "[n - 2..n - 1] = [n - 2, n - 1]" using upto_two [of "n - 2"] by simp
  ultimately show ?thesis using assms upto_three [of p] by (auto simp: pageTokens_def max_def min_def)
qed

text \<open>
  The row of the pager shows the first, the last and the current page, in order, and every gap in it
  stands for at least one page that is left out.
\<close>

theorem page_row_linked:
  assumes "1 \<le> page" and "page \<le> pageCount"
  shows "linked (pageTokens page pageCount) \<and> Page page \<in> set (pageTokens page pageCount)
    \<and> hd (pageTokens page pageCount) = Page 1 \<and> last (pageTokens page pageCount) = Page pageCount
    \<and> length (pageTokens page pageCount) \<le> 7"
proof (cases "pageCount \<le> 7")
  case True
  then have "pageTokens page pageCount = map Page [1..pageCount]" by (simp add: pageTokens_def)
  moreover have "[1..pageCount] = 1 # [2..pageCount]" using assms by (simp add: upto.simps)
  then have "hd (map Page [1..pageCount]) = Page 1" by simp
  moreover have "[1..pageCount] = [1..pageCount - 1] @ [pageCount]" using assms by (intro upto_rec2) simp
  then have "last (map Page [1..pageCount]) = Page pageCount" by simp
  ultimately show ?thesis using True assms linked_upto [of 1 pageCount] by auto
next
  case False
  with assms show ?thesis by (simp add: pageTokens_cases)
qed

theorem page_row_linked_witness: "linked (pageTokens 5 12)"
  using page_row_linked [of 5 12] by simp

section \<open>Pages of a list\<close>

definition page_count :: "int \<Rightarrow> int \<Rightarrow> int" where
  "page_count amount per = max 1 \<lceil>of_int amount / (of_int per :: rat)\<rceil>"

definition current_page :: "jstr \<Rightarrow> jstr \<Rightarrow> int \<Rightarrow> int \<Rightarrow> int" where
  "current_page applied key page count = min (if applied \<noteq> key then 1 else max 1 page) count"

definition page_offset :: "int \<Rightarrow> int \<Rightarrow> int" where
  "page_offset page per = (page - 1) * per"

definition shown_from :: "int \<Rightarrow> int \<Rightarrow> int \<Rightarrow> int" where
  "shown_from amount page per = (if amount = 0 then 0 else (page - 1) * per + 1)"

definition shown_to :: "int \<Rightarrow> int \<Rightarrow> int \<Rightarrow> int" where
  "shown_to amount page per = min amount (page * per)"

text \<open>\<open>[a, b, ...].join('\0')\<close>, the key of a set of filters.\<close>

definition filter_key :: "jstr list \<Rightarrow> jstr" where
  "filter_key = join [0]"

definition page_slice :: "int \<Rightarrow> int \<Rightarrow> 'a list \<Rightarrow> 'a list" where
  "page_slice page per xs = take (nat per) (drop (nat (page_offset page per)) xs)"

lemma page_count_pos: "1 \<le> page_count amount per"
  by (simp add: page_count_def)

lemma last_page_reaches:
  assumes "0 < per"
  shows "amount \<le> page_count amount per * per"
proof -
  have "of_int amount / (of_int per :: rat) \<le> of_int (page_count amount per)"
    using le_of_int_ceiling [of "of_int amount / (of_int per :: rat)"]
    by (simp add: page_count_def of_int_max [symmetric] le_max_iff_disj del: le_of_int_ceiling)
  then have "(of_int amount :: rat) \<le> of_int (page_count amount per) * of_int per"
    using assms by (simp add: pos_divide_le_eq)
  then have "(of_int amount :: rat) \<le> of_int (page_count amount per * per)" by (simp only: of_int_mult)
  then show ?thesis by (simp only: of_int_le_iff)
qed

lemma page_starts_inside:
  assumes "0 < per" and "0 < amount" and "page \<le> page_count amount per"
  shows "page_offset page per < amount"
proof (rule ccontr)
  assume "\<not> page_offset page per < amount"
  then have "amount \<le> (page - 1) * per" by (simp add: page_offset_def)
  then have "(of_int amount :: rat) \<le> of_int ((page - 1) * per)" by (simp only: of_int_le_iff)
  then have le: "of_int amount / (of_int per :: rat) \<le> of_int (page - 1)"
    using assms(1) by (simp add: pos_divide_le_eq)
  then have "\<lceil>of_int amount / (of_int per :: rat)\<rceil> \<le> page - 1" by (simp only: ceiling_le_iff)
  moreover have "1 \<le> page - 1"
  proof -
    have "0 < of_int amount / (of_int per :: rat)" using assms by simp
    with le have "0 < (of_int (page - 1) :: rat)" by linarith
    then show ?thesis by simp
  qed
  ultimately show False using assms(3) by (simp add: page_count_def)
qed

section \<open>A page with filters and a pager\<close>

text \<open>
  \<open>settle\<close> is what the rendering makes of the state: when the key of the filters is not the one that
  was applied, it becomes the applied one and the page is the first; the page is brought into range.
\<close>

locale pager =
  fixes page amount per :: "'s \<Rightarrow> int" and key applied :: "'s \<Rightarrow> jstr" and settle :: "'s \<Rightarrow> 's"
  assumes page_settle: "page (settle s) = current_page (applied s) (key s) (page s) (page_count (amount s) (per s))"
    and applied_settle: "applied (settle s) = key s"
    and frame_settle: "amount (settle s) = amount s" "per (settle s) = per s" "key (settle s) = key s"
begin

lemma settled_range: "1 \<le> page (settle s)" "page (settle s) \<le> page_count (amount s) (per s)"
  using page_count_pos [of "amount s" "per s"] by (simp_all add: page_settle current_page_def)

lemma first_page: "applied s \<noteq> key s \<Longrightarrow> page (settle s) = 1"
  using page_count_pos [of "amount s" "per s"] by (simp add: page_settle current_page_def)

lemma settled_stable: "page (settle (settle s)) = page (settle s)" "applied (settle (settle s)) = applied (settle s)"
  using settled_range [of s] by (simp_all add: page_settle applied_settle frame_settle current_page_def)

lemma offset_inside:
  "0 < per s \<Longrightarrow> 0 \<le> page_offset (page (settle s)) (per s)"
  "0 < per s \<Longrightarrow> 0 < amount s \<Longrightarrow> page_offset (page (settle s)) (per s) < amount s"
  using settled_range [of s] by (simp_all add: page_starts_inside) (simp add: page_offset_def)

lemma shown_inside:
  assumes "0 < per s" and "0 < amount s"
  shows "1 \<le> shown_from (amount s) (page (settle s)) (per s)
    \<and> shown_from (amount s) (page (settle s)) (per s) \<le> shown_to (amount s) (page (settle s)) (per s)
    \<and> shown_to (amount s) (page (settle s)) (per s) \<le> amount s
    \<and> shown_to (amount s) (page (settle s)) (per s) - shown_from (amount s) (page (settle s)) (per s) < per s"
  using offset_inside [of s] assms settled_range [of s]
  by (auto simp: shown_from_def shown_to_def page_offset_def min_def algebra_simps)

end

text \<open>The pages of a list, one after the other, are the list.\<close>

lemma take_slices: "concat (map (\<lambda>p. page_slice (int p + 1) (int k) xs) [0..<n]) = take (n * k) xs"
proof (induction n)
  case (Suc n)
  have "page_slice (int n + 1) (int k) xs = take k (drop (n * k) xs)"
    by (simp add: page_slice_def page_offset_def flip: of_nat_mult)
  moreover have "take (Suc n * k) xs = take (n * k) xs @ take k (drop (n * k) xs)"
    using take_add [of "n * k" k xs] by (simp add: add.commute)
  ultimately show ?case using Suc by (simp add: add.commute)
qed simp

lemma slices_cover:
  assumes "0 < per"
  shows "concat (map (\<lambda>p. page_slice p per xs) [1..page_count (int (length xs)) per]) = xs"
proof -
  let ?n = "page_count (int (length xs)) per"
  have pages: "[1..?n] = map (\<lambda>p. int p + 1) [0..<nat ?n]"
    by (rule nth_equalityI) (use page_count_pos [of "int (length xs)" per] in \<open>auto simp: nth_upto\<close>)
  have "concat (map (\<lambda>p. page_slice p per xs) [1..?n]) = take (nat ?n * nat per) xs"
    using take_slices [of "nat per" xs "nat ?n"] assms unfolding pages by (simp add: comp_def)
  moreover have "length xs \<le> nat ?n * nat per"
    using last_page_reaches [OF assms, of "int (length xs)"] assms page_count_pos [of "int (length xs)" per]
    by (simp add: nat_mult_distrib [symmetric] le_nat_iff)
  ultimately show ?thesis by simp
qed

end
