(* ===== verification/Front_Logs.thy ===== *)
theory Front_Logs
  imports Front_Api Front_Account Front_Paging
begin

text \<open>
  The log page (\<open>frontend/src/pages/LogsPage.tsx\<close>) and the links to it: filters and their form in the
  address, time ranges (\<open>components/ui/TimeRangePicker.tsx\<close>, \<open>lib/logsLink.ts\<close>, \<open>lib/statsWindow.ts\<close>),
  the requests the page makes, its pager, and the detail window. Log rows are parsed data. Dates of
  the picker, the time zone and the text form of times belong to the browser and to a library: they
  are the record \<open>zone\<close>, a parameter.
\<close>

section \<open>Times\<close>

text \<open>
  \<open>z_ms\<close>: \<open>value.toDate(getLocalTimeZone())\<close> in milliseconds, if it is a time; \<open>z_of\<close>: the local date of
  a time; \<open>z_text\<close>: \<open>toString\<close> of a date; \<open>z_iso\<close> and \<open>z_parse\<close>: \<open>toISOString\<close> and \<open>Date.parse\<close>; \<open>z_back\<close>: a
  time so many local hours or days earlier; \<open>z_midnight\<close>: the last local midnight.
\<close>

datatype span = Hours int | Days int

record 'd zone =
  z_ms :: "'d \<Rightarrow> rat option"
  z_of :: "rat \<Rightarrow> 'd option"
  z_text :: "'d \<Rightarrow> jstr"
  z_iso :: "rat \<Rightarrow> jstr"
  z_parse :: "jstr \<Rightarrow> rat option"
  z_back :: "span \<Rightarrow> rat \<Rightarrow> rat"
  z_midnight :: "rat \<Rightarrow> rat"

text \<open>\<open>date.setSeconds(59, 999)\<close>; the offsets of time zones are whole minutes.\<close>

definition end_of_minute :: "rat \<Rightarrow> rat" where
  "end_of_minute ms = of_int (\<lfloor>ms / 60000\<rfloor> * 60000 + 59999)"

definition dateValueToISO :: "'d zone \<Rightarrow> 'd option \<Rightarrow> bool \<Rightarrow> jstr option" where
  "dateValueToISO z value endOfMinute =
     (case value of
        None \<Rightarrow> None
      | Some d \<Rightarrow> (case z_ms z d of
          None \<Rightarrow> None
        | Some ms \<Rightarrow> Some (z_iso z (if endOfMinute then end_of_minute ms else ms))))"

definition isoToDateValue :: "'d zone \<Rightarrow> jstr option \<Rightarrow> 'd option" where
  "isoToDateValue z t =
     (if str_or_empty t = [] then None
      else case z_parse z (str_or_empty t) of None \<Rightarrow> None | Some ms \<Rightarrow> z_of z ms)"

section \<open>Filters and the address\<close>

datatype request_filter = R_all | R_ok | R_incomplete | R_error | R_canceled
datatype runtime_filter = L_all | L_info | L_warn | L_error
datatype stream_filter = S_all | S_stream | S_sync
datatype time_range = T_all | T_1h | T_24h | T_7d | T_custom
datatype error_kind = K_all | K_quota | K_rate_limit | K_auth | K_not_ready | K_unavailable | K_invalid | K_model

fun request_text :: "request_filter \<Rightarrow> string" where
  "request_text R_all = ''all''"
| "request_text R_ok = ''ok''"
| "request_text R_incomplete = ''incomplete''"
| "request_text R_error = ''error''"
| "request_text R_canceled = ''canceled''"

fun runtime_text :: "runtime_filter \<Rightarrow> string" where
  "runtime_text L_all = ''all''"
| "runtime_text L_info = ''info''"
| "runtime_text L_warn = ''warn''"
| "runtime_text L_error = ''error''"

fun stream_text :: "stream_filter \<Rightarrow> string" where
  "stream_text S_all = ''all''"
| "stream_text S_stream = ''stream''"
| "stream_text S_sync = ''sync''"

fun range_text :: "time_range \<Rightarrow> string" where
  "range_text T_all = ''all''"
| "range_text T_1h = ''1h''"
| "range_text T_24h = ''24h''"
| "range_text T_7d = ''7d''"
| "range_text T_custom = ''custom''"

fun kind_text :: "error_kind \<Rightarrow> string" where
  "kind_text K_all = ''all''"
| "kind_text K_quota = ''quota''"
| "kind_text K_rate_limit = ''rate_limit''"
| "kind_text K_auth = ''auth''"
| "kind_text K_not_ready = ''not_ready''"
| "kind_text K_unavailable = ''unavailable''"
| "kind_text K_invalid = ''invalid_request''"
| "kind_text K_model = ''model_not_available''"

definition REQUEST_FILTERS :: "request_filter list" where
  "REQUEST_FILTERS = [R_all, R_ok, R_incomplete, R_error, R_canceled]"

definition ERROR_KINDS :: "error_kind list" where
  "ERROR_KINDS = [K_all, K_quota, K_rate_limit, K_auth, K_not_ready, K_unavailable, K_invalid, K_model]"

definition TIME_RANGES :: "time_range list" where
  "TIME_RANGES = [T_all, T_1h, T_24h, T_7d, T_custom]"

record 'd filters =
  lf_status :: request_filter
  lf_id :: jstr
  lf_account :: jstr
  lf_api_key :: jstr
  lf_model :: jstr
  lf_provider :: jstr
  lf_stream :: stream_filter
  lf_kind :: error_kind
  lf_range :: time_range
  lf_custom :: "('d \<times> 'd) option"

definition pick :: "('a \<Rightarrow> string) \<Rightarrow> jstr option \<Rightarrow> 'a list \<Rightarrow> 'a \<Rightarrow> 'a" where
  "pick text v allowed fallback =
     opt_or (find (\<lambda>x. js (text x) = str_or_empty v) allowed) fallback"

definition both_dates :: "'d option \<Rightarrow> 'd option \<Rightarrow> ('d \<times> 'd) option" where
  "both_dates start end' = (case (start, end') of (Some s, Some e) \<Rightarrow> Some (s, e) | _ \<Rightarrow> None)"

definition parseLogsUrl :: "'d zone \<Rightarrow> params \<Rightarrow> 'd filters" where
  "parseLogsUrl z ps =
     (let get = (\<lambda>k. map_of ps (js k));
          custom = both_dates (isoToDateValue z (get ''from'')) (isoToDateValue z (get ''to''));
          stream = get ''stream'' in
      \<lparr>lf_status = pick request_text (get ''status'') REQUEST_FILTERS R_all,
       lf_id = str_or_empty (get ''id''), lf_account = str_or_empty (get ''account''),
       lf_api_key = str_or_empty (get ''api_key''), lf_model = str_or_empty (get ''model''),
       lf_provider = str_or_empty (get ''provider''),
       lf_stream = (if stream = Some (js ''stream'') \<or> stream = Some (js ''true'') then S_stream
         else if stream = Some (js ''sync'') \<or> stream = Some (js ''false'') then S_sync else S_all),
       lf_kind = pick kind_text (get ''error_kind'') ERROR_KINDS K_all,
       lf_range = (if custom \<noteq> None then T_custom else pick range_text (get ''range'') TIME_RANGES T_1h),
       lf_custom = custom\<rparr>)"

definition custom_iso :: "'d zone \<Rightarrow> ('d \<times> 'd) option \<Rightarrow> jstr option \<times> jstr option" where
  "custom_iso z c = (dateValueToISO z (map_option fst c) False, dateValueToISO z (map_option snd c) True)"

definition set_range :: "'d zone \<Rightarrow> 'd filters \<Rightarrow> params \<Rightarrow> params" where
  "set_range z f ps =
     (let (from, to) = (if lf_range f = T_custom then custom_iso z (lf_custom f) else (None, None)) in
      if str_or_empty from \<noteq> [] \<and> str_or_empty to \<noteq> [] then set_text ''to'' to (set_text ''from'' from ps)
      else if lf_range f \<noteq> T_1h then set_text ''range'' (Some (js (range_text (lf_range f)))) ps
      else ps)"

definition unless_all :: "string \<Rightarrow> jstr option" where
  "unless_all s = (if s = ''all'' then None else Some (js s))"

text \<open>The parameters that \<open>buildLogsUrl\<close> sets, in their order, and the text it returns.\<close>

definition url_params :: "'d zone \<Rightarrow> 'd filters \<Rightarrow> params" where
  "url_params z f =
     set_range z f
     (set_text ''error_kind'' (unless_all (kind_text (lf_kind f)))
     (set_text ''stream'' (unless_all (stream_text (lf_stream f)))
     (set_text ''provider'' (Some (lf_provider f)) (set_text ''model'' (Some (lf_model f))
     (set_text ''api_key'' (Some (lf_api_key f)) (set_text ''account'' (Some (lf_account f))
     (set_text ''id'' (Some (lf_id f)) (set_text ''status'' (unless_all (request_text (lf_status f))) []))))))))"

definition buildLogsUrl :: "'d zone \<Rightarrow> 'd filters \<Rightarrow> jstr" where
  "buildLogsUrl z f = params_text (url_params z f)"

text \<open>What the address says of a custom range.\<close>

definition reread :: "'d zone \<Rightarrow> 'd filters \<Rightarrow> ('d \<times> 'd) option" where
  "reread z f =
     (let (from, to) = (if lf_range f = T_custom then custom_iso z (lf_custom f) else (None, None)) in
      if str_or_empty from = [] \<or> str_or_empty to = [] then None
      else both_dates (isoToDateValue z from) (isoToDateValue z to))"

definition readable :: "'d zone \<Rightarrow> 'd filters \<Rightarrow> bool" where
  "readable z f \<longleftrightarrow> lf_range f \<noteq> T_custom \<or> reread z f \<noteq> None
     \<or> str_or_empty (fst (custom_iso z (lf_custom f))) = [] \<or> str_or_empty (snd (custom_iso z (lf_custom f))) = []"

section \<open>Reading the address back\<close>

lemma pick_status: "pick request_text (unless_all (request_text r)) REQUEST_FILTERS R_all = r"
  by (cases r) (simp_all add: pick_def unless_all_def REQUEST_FILTERS_def)

lemma pick_kind: "pick kind_text (unless_all (kind_text k)) ERROR_KINDS K_all = k"
  by (cases k) (simp_all add: pick_def unless_all_def ERROR_KINDS_def)

lemma pick_range: "pick range_text (if t = T_1h then None else Some (js (range_text t))) TIME_RANGES T_1h = t"
  by (cases t) (simp_all add: pick_def TIME_RANGES_def)

lemmas pick_text = pick_status pick_kind pick_range

lemma unless_all_text: "str_or_empty (unless_all s) = (if s = ''all'' then [] else js s)"
  by (simp add: unless_all_def)

lemma stream_back:
  "(if unless_all (stream_text s) = Some (js ''stream'') \<or> unless_all (stream_text s) = Some (js ''true'') then S_stream
    else if unless_all (stream_text s) = Some (js ''sync'') \<or> unless_all (stream_text s) = Some (js ''false'') then S_sync
    else S_all) = s"
  by (cases s) (simp_all add: unless_all_def)

lemma texts_nonempty: "request_text r \<noteq> []" "kind_text k \<noteq> []" "stream_text s \<noteq> []" "range_text t \<noteq> []"
  by (cases r; cases k; cases s; cases t; simp)+

lemma map_of_range:
  "k \<notin> {''from'', ''to'', ''range''} \<Longrightarrow> map_of (set_range z f ps) (js k) = map_of ps (js k)"
  by (auto simp: set_range_def map_of_set split: prod.split)

lemma fields_back:
  "map_of (url_params z f) (js ''status'') = unless_all (request_text (lf_status f))"
  "map_of (url_params z f) (js ''error_kind'') = unless_all (kind_text (lf_kind f))"
  "map_of (url_params z f) (js ''stream'') = unless_all (stream_text (lf_stream f))"
  "map_of (url_params z f) (js ''id'') = str_opt (lf_id f)"
  "map_of (url_params z f) (js ''account'') = str_opt (lf_account f)"
  "map_of (url_params z f) (js ''api_key'') = str_opt (lf_api_key f)"
  "map_of (url_params z f) (js ''model'') = str_opt (lf_model f)"
  "map_of (url_params z f) (js ''provider'') = str_opt (lf_provider f)"
  by (simp_all add: url_params_def map_of_range map_of_set unless_all_def str_opt_def texts_nonempty)

lemma range_back:
  "map_of (url_params z f) (js ''from'') =
     (if lf_range f = T_custom \<and> str_or_empty (fst (custom_iso z (lf_custom f))) \<noteq> []
         \<and> str_or_empty (snd (custom_iso z (lf_custom f))) \<noteq> [] then fst (custom_iso z (lf_custom f)) else None)"
  "map_of (url_params z f) (js ''to'') =
     (if lf_range f = T_custom \<and> str_or_empty (fst (custom_iso z (lf_custom f))) \<noteq> []
         \<and> str_or_empty (snd (custom_iso z (lf_custom f))) \<noteq> [] then snd (custom_iso z (lf_custom f)) else None)"
  "map_of (url_params z f) (js ''range'') =
     (if lf_range f = T_1h \<or> lf_range f = T_custom \<and> str_or_empty (fst (custom_iso z (lf_custom f))) \<noteq> []
         \<and> str_or_empty (snd (custom_iso z (lf_custom f))) \<noteq> [] then None else Some (js (range_text (lf_range f))))"
  by (cases "fst (custom_iso z (lf_custom f))"; cases "snd (custom_iso z (lf_custom f))";
      auto simp: url_params_def set_range_def map_of_set case_prod_beta texts_nonempty)+

text \<open>
  C32: The address of the page determines its filters: whatever is chosen, reading the parameters that are
  written gives the same filters, with the dates of a custom range as the address has them; and the text of
  the address, taken apart and decoded, holds the UTF-8 of exactly these parameters.
\<close>

theorem logs_url_roundtrip:
  assumes "readable z f"
  shows "parseLogsUrl z (url_params z f) = f\<lparr>lf_custom := reread z f\<rparr>
    \<and> query_pairs (buildLogsUrl z f) = map (\<lambda>(k, v). (utf8_encode k, utf8_encode v)) (url_params z f)"
proof -
  have text_back: "str_or_empty (str_opt s) = s" for s by (simp add: str_opt_def)
  have custom: "both_dates (isoToDateValue z (map_of (url_params z f) (js ''from'')))
      (isoToDateValue z (map_of (url_params z f) (js ''to''))) = reread z f"
    by (auto simp: range_back reread_def case_prod_beta isoToDateValue_def both_dates_def)
  have range: "(if reread z f \<noteq> None then T_custom
      else pick range_text (map_of (url_params z f) (js ''range'')) TIME_RANGES T_1h) = lf_range f"
  proof (cases "reread z f")
    case None
    with assms have "map_of (url_params z f) (js ''range'') =
        (if lf_range f = T_1h then None else Some (js (range_text (lf_range f))))"
      by (auto simp: range_back readable_def)
    with None show ?thesis by (simp add: pick_text)
  next
    case (Some c)
    then have "lf_range f = T_custom" by (auto simp: reread_def split: if_splits)
    with Some show ?thesis by simp
  qed
  have "parseLogsUrl z (url_params z f) = f\<lparr>lf_custom := reread z f\<rparr>"
    unfolding parseLogsUrl_def Let_def custom range fields_back pick_text stream_back text_back by simp
  then show ?thesis by (simp add: buildLogsUrl_def params_roundtrip)
qed

definition plain_filters :: "nat filters" where
  "plain_filters = \<lparr>lf_status = R_error, lf_id = [], lf_account = js ''a&b=c'', lf_api_key = [], lf_model = js ''glm'',
     lf_provider = [], lf_stream = S_sync, lf_kind = K_auth, lf_range = T_7d, lf_custom = None\<rparr>"

definition no_zone :: "nat zone" where
  "no_zone = \<lparr>z_ms = (\<lambda>_. None), z_of = (\<lambda>_. None), z_text = (\<lambda>_. []), z_iso = (\<lambda>_. []), z_parse = (\<lambda>_. None),
    z_back = (\<lambda>_ t. t), z_midnight = (\<lambda>t. t)\<rparr>"

theorem logs_url_roundtrip_witness:
  "lf_account (parseLogsUrl no_zone (url_params no_zone plain_filters)) = js ''a&b=c''
   \<and> lf_range (parseLogsUrl no_zone (url_params no_zone plain_filters)) = T_7d"
proof -
  have "readable no_zone plain_filters" by (simp add: readable_def plain_filters_def)
  from logs_url_roundtrip [OF this] show ?thesis by (simp add: plain_filters_def)
qed

section \<open>Links to the page\<close>

text \<open>\<open>new URLSearchParams\<close> filled in order with the filters that are set.\<close>

definition link_filters :: "(jstr \<times> jstr option) list \<Rightarrow> params" where
  "link_filters fs = fold (\<lambda>(k, v) ps. if str_or_empty v = [] then ps else aput k (str_or_empty v) ps) fs []"

definition floor_minute :: "rat \<Rightarrow> rat" where
  "floor_minute ms = of_int (\<lfloor>ms / 60000\<rfloor> * 60000)"

definition last_minute :: "rat \<Rightarrow> rat" where
  "last_minute ms = of_int (\<lceil>ms / 60000\<rceil> * 60000 - 60000)"

definition logs_params :: "'d zone \<Rightarrow> (jstr \<times> jstr option) list \<Rightarrow> jstr \<Rightarrow> jstr \<Rightarrow> params" where
  "logs_params z fs from to =
     (case (z_parse z from, z_parse z to) of
        (Some a, Some b) \<Rightarrow> aput (js ''to'') (z_iso z (last_minute b))
          (aput (js ''from'') (z_iso z (floor_minute a)) (link_filters fs))
      | _ \<Rightarrow> link_filters fs)"

definition logsHref :: "'d zone \<Rightarrow> (jstr \<times> jstr option) list \<Rightarrow> jstr \<Rightarrow> jstr \<Rightarrow> jstr" where
  "logsHref z fs from to = js ''/logs?'' @ params_text (logs_params z fs from to)"

section \<open>Windows of the statistics\<close>

datatype stats_window = W_today | W_1 | W_24 | W_168 | W_720 | W_custom

fun STATS_WINDOW_LABEL :: "stats_window \<Rightarrow> string" where
  "STATS_WINDOW_LABEL W_today = ''statsWindowToday''"
| "STATS_WINDOW_LABEL W_1 = ''statsWindow1h''"
| "STATS_WINDOW_LABEL W_24 = ''statsWindow24h''"
| "STATS_WINDOW_LABEL W_168 = ''statsWindow7d''"
| "STATS_WINDOW_LABEL W_720 = ''statsWindow30d''"
| "STATS_WINDOW_LABEL W_custom = ''statsWindowCustom''"

definition no_stats :: stats_query where
  "no_stats = \<lparr>sq_hours = None, sq_from = None, sq_to = None, sq_dim = [], sq_limit = None, sq_api_key = None\<rparr>"

definition statsQuery :: "'d zone \<Rightarrow> rat \<Rightarrow> stats_window \<Rightarrow> ('d \<times> 'd) option \<Rightarrow> stats_query option" where
  "statsQuery z now w custom =
     (case w of
        W_today \<Rightarrow> Some (no_stats\<lparr>sq_from := Some (z_iso z (z_midnight z now))\<rparr>)
      | W_custom \<Rightarrow>
          (let (from, to) = custom_iso z custom in
           if str_or_empty from \<noteq> [] \<and> str_or_empty to \<noteq> [] then Some (no_stats\<lparr>sq_from := from, sq_to := to\<rparr>) else None)
      | W_720 \<Rightarrow> Some (no_stats\<lparr>sq_from := Some (z_iso z (now - 30 * 24 * 3600 * 1000)), sq_to := Some (z_iso z now)\<rparr>)
      | W_1 \<Rightarrow> Some (no_stats\<lparr>sq_hours := Some (Fin 1)\<rparr>)
      | W_24 \<Rightarrow> Some (no_stats\<lparr>sq_hours := Some (Fin 24)\<rparr>)
      | W_168 \<Rightarrow> Some (no_stats\<lparr>sq_hours := Some (Fin 168)\<rparr>))"

section \<open>Requests of the page\<close>

definition rangeFromPreset :: "'d zone \<Rightarrow> rat \<Rightarrow> time_range \<Rightarrow> jstr option \<times> jstr option" where
  "rangeFromPreset z now preset =
     (case preset of
        T_all \<Rightarrow> (None, None)
      | T_custom \<Rightarrow> (None, None)
      | T_1h \<Rightarrow> (Some (z_iso z (z_back z (Hours 1) now)), Some (z_iso z now))
      | T_24h \<Rightarrow> (Some (z_iso z (z_back z (Hours 24) now)), Some (z_iso z now))
      | T_7d \<Rightarrow> (Some (z_iso z (z_back z (Days 7) now)), Some (z_iso z now)))"

definition loaded_range :: "'d zone \<Rightarrow> rat \<Rightarrow> 'd filters \<Rightarrow> jstr option \<times> jstr option" where
  "loaded_range z now f =
     (if lf_id f \<noteq> [] then (None, None)
      else if lf_range f = T_custom then custom_iso z (lf_custom f)
      else rangeFromPreset z now (lf_range f))"

definition request_query :: "'d zone \<Rightarrow> rat \<Rightarrow> 'd filters \<Rightarrow> int \<Rightarrow> int \<Rightarrow> log_query" where
  "request_query z now f page per =
     (let (from, to) = loaded_range z now f in
      \<lparr>lq_account = str_opt (lf_account f), lq_api_key = str_opt (lf_api_key f),
       lq_status = unless_all (request_text (lf_status f)),
       lq_stream = (if lf_stream f = S_all then None else Some (lf_stream f = S_stream)),
       lq_error_kind = unless_all (kind_text (lf_kind f)), lq_model = str_opt (lf_model f),
       lq_provider = str_opt (lf_provider f), lq_id = str_opt (lf_id f), lq_q = None, lq_from = from, lq_to = to,
       lq_limit = Some (Fin (of_int per)), lq_offset = Some (Fin (of_int (page_offset page per)))\<rparr>)"

text \<open>
  A link to the page keeps the window it was made for: the page asks for the requests from the start
  of the first minute to the last millisecond of the last one, which contain the window and nothing
  that is a minute or more away from it.
\<close>

theorem logs_link_window:
  assumes "z_parse z from = Some a" and "z_parse z to = Some b"
    and "z_iso z (floor_minute a) \<noteq> []" and "z_iso z (last_minute b) \<noteq> []"
    and "isoToDateValue z (Some (z_iso z (floor_minute a))) = Some s" and "z_ms z s = Some (floor_minute a)"
    and "isoToDateValue z (Some (z_iso z (last_minute b))) = Some e" and "z_ms z e = Some (last_minute b)"
    and "fst ` set fs \<inter> {js ''from'', js ''to'', js ''id''} = {}"
  shows "\<exists>c d. lq_from (request_query z now (parseLogsUrl z (logs_params z fs from to)) 1 per) = Some (z_iso z c)
    \<and> lq_to (request_query z now (parseLogsUrl z (logs_params z fs from to)) 1 per) = Some (z_iso z d)
    \<and> c \<le> a \<and> a < c + 60000 \<and> b \<le> d + 1 \<and> d < b + 60000"
proof -
  let ?f = "parseLogsUrl z (logs_params z fs from to)"
  have link: "map_of (fold (\<lambda>(k, v) ps. if str_or_empty v = [] then ps else aput k (str_or_empty v) ps) fs ps) k = map_of ps k"
    if "k \<notin> fst ` set fs" for ps k
    using that by (induction fs arbitrary: ps) auto
  have keys: "js ''from'' \<notin> fst ` set fs" "js ''to'' \<notin> fst ` set fs" "js ''id'' \<notin> fst ` set fs" using assms(9) by auto
  have custom: "lf_custom ?f = Some (s, e)" "lf_range ?f = T_custom" "lf_id ?f = []"
    using assms keys by (simp_all add: parseLogsUrl_def logs_params_def both_dates_def Let_def link_filters_def link)
  have "last_minute b / 60000 = of_int (\<lceil>b / 60000\<rceil> - 1)" by (simp add: last_minute_def field_simps)
  then have "\<lfloor>last_minute b / 60000\<rfloor> = \<lceil>b / 60000\<rceil> - 1" by (simp only: floor_of_int)
  then have end': "end_of_minute (last_minute b) = of_int (\<lceil>b / 60000\<rceil> * 60000) - 1"
    by (simp add: end_of_minute_def algebra_simps)
  have "b / 60000 * 60000 \<le> of_int \<lceil>b / 60000\<rceil> * 60000" by (rule mult_right_mono) simp_all
  moreover have "of_int \<lceil>b / 60000\<rceil> * 60000 < (b / 60000 + 1) * 60000" by (rule mult_strict_right_mono) linarith+
  ultimately have "b \<le> end_of_minute (last_minute b) + 1" "end_of_minute (last_minute b) < b + 60000"
    using end' by (simp_all add: algebra_simps)
  moreover have "floor_minute a \<le> a" "a < floor_minute a + 60000"
  proof -
    have "of_int \<lfloor>a / 60000\<rfloor> \<le> a / 60000" "a / 60000 < of_int \<lfloor>a / 60000\<rfloor> + 1" by linarith+
    then show "floor_minute a \<le> a" "a < floor_minute a + 60000" by (simp_all add: floor_minute_def field_simps)
  qed
  moreover have "loaded_range z now ?f = (Some (z_iso z (floor_minute a)), Some (z_iso z (end_of_minute (last_minute b))))"
    using custom assms(6,8) by (simp add: loaded_range_def custom_iso_def dateValueToISO_def)
  ultimately show ?thesis by (auto simp: request_query_def)
qed

text \<open>A browser whose dates are the times themselves and whose texts are unary minutes.\<close>

definition unary_zone :: "rat zone" where
  "unary_zone = \<lparr>z_ms = Some, z_of = Some, z_text = (\<lambda>_. []), z_iso = (\<lambda>t. replicate (nat \<lfloor>t / 60000\<rfloor>) 49),
     z_parse = (\<lambda>s. Some (of_nat (length s) * 60000)), z_back = (\<lambda>_ t. t), z_midnight = (\<lambda>t. t)\<rparr>"

theorem logs_link_window_witness:
  "\<exists>c d. lq_to (request_query unary_zone 0 (parseLogsUrl unary_zone
      (logs_params unary_zone [(js ''model'', Some (js ''glm''))] [49, 49] [49, 49, 49])) 1 50) = Some (z_iso unary_zone d)
    \<and> c \<le> (120000 :: rat) \<and> d < 240000"
proof -
  have "\<exists>c d. lq_from (request_query unary_zone 0 (parseLogsUrl unary_zone
      (logs_params unary_zone [(js ''model'', Some (js ''glm''))] [49, 49] [49, 49, 49])) 1 50) = Some (z_iso unary_zone c)
    \<and> lq_to (request_query unary_zone 0 (parseLogsUrl unary_zone
      (logs_params unary_zone [(js ''model'', Some (js ''glm''))] [49, 49] [49, 49, 49])) 1 50) = Some (z_iso unary_zone d)
    \<and> c \<le> 120000 \<and> 120000 < c + 60000 \<and> 180000 \<le> d + 1 \<and> d < 180000 + 60000"
    by (rule logs_link_window [where s = 120000 and e = 120000])
      (simp_all add: unary_zone_def floor_minute_def last_minute_def isoToDateValue_def)
  then show ?thesis by auto
qed

section \<open>Labels\<close>

datatype color = Success | Warning | Danger_color | Default

definition statusColor :: "jstr option \<Rightarrow> color" where
  "statusColor s =
     (if s = Some (js ''ok'') then Success
      else if s \<in> Some ` {js ''streaming'', js ''started'', js ''incomplete''} then Warning
      else if s \<in> Some ` {js ''error'', js ''canceled''} then Danger_color else Default)"

definition levelDot :: "jstr option \<Rightarrow> jstr option" where
  "levelDot l = (if l = Some (js ''error'') then Some (js ''danger'') else if l = Some (js ''warn'') then None else Some (js ''ok''))"

definition runtimeLevelColor :: "jstr option \<Rightarrow> color" where
  "runtimeLevelColor l =
     (if l = Some (js ''error'') then Danger_color else if l = Some (js ''warn'') then Warning
      else if l = Some (js ''info'') then Success else Default)"

text \<open>\<open>formatTime\<close>: a time that does not parse is shown as it is; the calendar format is a parameter.\<close>

definition formatTime :: "'d zone \<Rightarrow> (rat \<Rightarrow> jstr) \<Rightarrow> jstr option \<Rightarrow> jstr" where
  "formatTime z fmt value =
     (if str_or_empty value = [] then [0x2014]
      else case z_parse z (str_or_empty value) of None \<Rightarrow> str_or_empty value | Some ms \<Rightarrow> fmt ms)"

definition reasoningLabel :: "jstr option \<Rightarrow> jstr option \<Rightarrow> jstr" where
  "reasoningLabel req res =
     (let requested = trim (str_or_empty req); resolved = trim (str_or_empty res) in
      if requested = [] \<and> resolved = [] then []
      else if requested \<noteq> [] \<and> resolved \<noteq> [] \<and> requested \<noteq> resolved then requested @ js '' '' @ [0x2192] @ js '' '' @ resolved
      else if resolved \<noteq> [] then resolved else requested)"

definition formatCredit :: "jsnum option \<Rightarrow> jstr" where
  "formatCredit value = (case value of
     Some (Fin v) \<Rightarrow> rat_to_str (of_int (math_round (v * 10000)) / 10000) | _ \<Rightarrow> [0x2014])"

definition routingLabel :: "translate \<Rightarrow> jstr option \<Rightarrow> jstr" where
  "routingLabel t r =
     (if r = Some (js ''pin'') then t ''logsRouting_pin'' []
      else if r = Some (js ''sticky'') then t ''logsRouting_sticky'' []
      else if r = Some (js ''sticky_escape'') then t ''logsRouting_sticky_escape'' []
      else t ''logsRouting_pool'' [])"

record log_account =
  la_id :: jstr
  la_name :: "jstr option"
  la_provider :: "jstr option"
  la_region :: "jstr option"

definition name_or :: "jstr option \<Rightarrow> jstr \<Rightarrow> jstr" where
  "name_or n i = (if str_or_empty n = [] then i else str_or_empty n)"

text \<open>\<open>accountProviderById.get\<close>: later accounts overwrite earlier ones.\<close>

definition account_row :: "log_account list \<Rightarrow> jstr option \<Rightarrow> log_account option" where
  "account_row as i = (if str_or_empty i = [] then None else last_with (\<lambda>a. la_id a = str_or_empty i) as)"

definition log_provider_label :: "translate \<Rightarrow> log_account list \<Rightarrow> jstr option \<Rightarrow> jstr option \<Rightarrow> jstr" where
  "log_provider_label t as account provider =
     (let a = account_row as account;
          p = (if str_or_empty provider \<noteq> [] then provider else case a of None \<Rightarrow> None | Some r \<Rightarrow> la_provider r) in
      if str_or_empty p = [] then [0x2014]
      else accountProviderLabel t p (case a of None \<Rightarrow> None | Some r \<Rightarrow> la_region r))"

definition apiKeyLabel :: "(jstr \<times> jstr) list \<Rightarrow> jstr option \<Rightarrow> jstr" where
  "apiKeyLabel names i =
     (let k = trim (str_or_empty i) in
      if k = [] then [0x2014] else name_or (map_of names k) k)"

text \<open>\<open>useApiKeyOptions\<close>: names and options of the keys.\<close>

definition key_names :: "(jstr \<times> jstr) list \<Rightarrow> (jstr \<times> jstr) list" where
  "key_names ks = fold (\<lambda>(i, n). aput i (if n = [] then i else n)) ks []"

definition key_options :: "(jstr \<times> jstr) list \<Rightarrow> (jstr \<times> jstr) list" where
  "key_options ks = map (\<lambda>(i, n). (i, if n = [] then i else n)) ks"

definition account_options_of :: "log_account list \<Rightarrow> (jstr \<times> jstr) list" where
  "account_options_of as = map (\<lambda>a. (la_id a, name_or (la_name a) (la_id a))) as"

definition model_options :: "(jstr \<times> jstr option) list \<Rightarrow> (jstr \<times> jstr) list" where
  "model_options ms =
     fold (\<lambda>(i, n) seen. if i \<in> fst ` set seen then seen else seen @ [(i, name_or n i)]) ms []"

definition provider_options :: "translate \<Rightarrow> (jstr \<Rightarrow> jstr \<Rightarrow> bool) \<Rightarrow> log_account list \<Rightarrow> jstr \<Rightarrow> (jstr \<times> jstr) list" where
  "provider_options t le as chosen =
     (let ids = fold (\<lambda>a s. if str_or_empty (la_provider a) = [] then s else sadd (str_or_empty (la_provider a)) s) as [];
          ids' = (if chosen = [] then ids else sadd chosen ids) in
      ([], t ''logsFilterProviderAll'' []) # map (\<lambda>i. (i, accountProviderFamilyLabel t (Some i))) (sort_by le ids'))"

lemma model_options_distinct: "distinct (map fst (model_options ms))"
proof -
  let ?add = "\<lambda>(i, n) seen. if i \<in> fst ` set seen then seen else seen @ [(i, name_or n i)]"
  have add: "distinct (map fst seen) \<Longrightarrow> distinct (map fst (?add m seen))" for m seen by (cases m) simp
  have "distinct (map fst seen) \<Longrightarrow> distinct (map fst (fold ?add ms seen))" for seen
  proof (induction ms arbitrary: seen)
    case (Cons m ms)
    from Cons.IH [OF add [OF Cons.prems]] show ?case by (simp only: fold.simps comp_apply)
  qed simp
  then show ?thesis by (simp add: model_options_def)
qed

end
