(* ===== verification/Front_Log_Page.thy ===== *)
theory Front_Log_Page
  imports Front_Logs
begin

text \<open>
  The state of the log page (\<open>LogsPage\<close> in \<open>frontend/src/pages/LogsPage.tsx\<close>): lists and pager, the
  loads in flight, the address, and the detail window with its version counter.
\<close>

section \<open>Lists\<close>

datatype page_tab = Requests | Runtime

record 'd log_page =
  lp_tab :: page_tab
  lp_filters :: "'d filters"
  lp_page :: int
  lp_per :: int
  lp_applied :: jstr
  lp_rows :: "jsval list"
  lp_total :: int
  lp_level :: runtime_filter
  lp_query :: jstr
  lp_account :: jstr
  lp_rt_page :: int
  lp_rt_per :: int
  lp_rt_applied :: jstr
  lp_rt_rows :: "jsval list"
  lp_rt_total :: int
  lp_loading :: bool
  lp_booted :: bool
  lp_error :: jstr
  lp_clear_open :: bool
  lp_busy :: bool

definition date_text :: "'d zone \<Rightarrow> 'd option \<Rightarrow> jstr" where
  "date_text z d = (case d of None \<Rightarrow> [] | Some v \<Rightarrow> z_text z v)"

definition requestFilterKey :: "'d zone \<Rightarrow> 'd log_page \<Rightarrow> jstr" where
  "requestFilterKey z p =
     (let f = lp_filters p in
      filter_key [js (request_text (lf_status f)), lf_id f, lf_account f, lf_api_key f, lf_model f, lf_provider f,
        js (stream_text (lf_stream f)), js (kind_text (lf_kind f)), js (range_text (lf_range f)),
        date_text z (map_option fst (lf_custom f)), date_text z (map_option snd (lf_custom f)), dec_digits (lp_per p)])"

definition runtimeFilterKey :: "'d log_page \<Rightarrow> jstr" where
  "runtimeFilterKey p = filter_key [js (runtime_text (lp_level p)), lp_query p, lp_account p, dec_digits (lp_rt_per p)]"

text \<open>What the rendering makes of the keys and the pages, for each of the two lists.\<close>

definition settle_requests :: "'d zone \<Rightarrow> 'd log_page \<Rightarrow> 'd log_page" where
  "settle_requests z p =
     p\<lparr>lp_page := current_page (lp_applied p) (requestFilterKey z p) (lp_page p) (page_count (lp_total p) (lp_per p)),
       lp_applied := requestFilterKey z p\<rparr>"

definition settle_runtime :: "'d log_page \<Rightarrow> 'd log_page" where
  "settle_runtime p =
     p\<lparr>lp_rt_page := current_page (lp_rt_applied p) (runtimeFilterKey p) (lp_rt_page p) (page_count (lp_rt_total p) (lp_rt_per p)),
       lp_rt_applied := runtimeFilterKey p\<rparr>"

definition render_lists :: "'d zone \<Rightarrow> 'd log_page \<Rightarrow> 'd log_page" where
  "render_lists z p = settle_runtime (settle_requests z p)"

interpretation requests_pager: pager lp_page lp_total lp_per "requestFilterKey z" lp_applied "settle_requests z" for z
  by unfold_locales (simp_all add: settle_requests_def requestFilterKey_def)

interpretation runtime_pager: pager lp_rt_page lp_rt_total lp_rt_per runtimeFilterKey lp_rt_applied settle_runtime
  by unfold_locales (simp_all add: settle_runtime_def runtimeFilterKey_def)

definition hasRequestFilters :: "'d filters \<Rightarrow> bool" where
  "hasRequestFilters f \<longleftrightarrow> lf_id f \<noteq> [] \<or> lf_status f \<noteq> R_all \<or> lf_account f \<noteq> [] \<or> lf_api_key f \<noteq> [] \<or> lf_model f \<noteq> []
     \<or> lf_provider f \<noteq> [] \<or> lf_stream f \<noteq> S_all \<or> lf_kind f \<noteq> K_all \<or> lf_range f \<noteq> T_1h"

definition no_filters :: "'d filters" where
  "no_filters = \<lparr>lf_status = R_all, lf_id = [], lf_account = [], lf_api_key = [], lf_model = [], lf_provider = [],
     lf_stream = S_all, lf_kind = K_all, lf_range = T_1h, lf_custom = None\<rparr>"

definition clearRequestFilters :: "'d log_page \<Rightarrow> 'd log_page" where
  "clearRequestFilters p = p\<lparr>lp_filters := no_filters, lp_page := 1\<rparr>"

definition initial_page :: "'d zone \<Rightarrow> params \<Rightarrow> 'd log_page" where
  "initial_page z ps =
     (let p = \<lparr>lp_tab = Requests, lp_filters = parseLogsUrl z ps, lp_page = 1, lp_per = 50, lp_applied = [], lp_rows = [],
        lp_total = 0, lp_level = L_all, lp_query = [], lp_account = [], lp_rt_page = 1, lp_rt_per = 50, lp_rt_applied = [],
        lp_rt_rows = [], lp_rt_total = 0, lp_loading = True, lp_booted = False, lp_error = [], lp_clear_open = False,
        lp_busy = False\<rparr> in
      p\<lparr>lp_applied := requestFilterKey z p, lp_rt_applied := runtimeFilterKey p\<rparr>)"

subsection \<open>Loading\<close>

text \<open>A load up to its request: the request it sends. Then its answer or its failure.\<close>

definition load_begin :: "bool \<Rightarrow> 'd log_page \<Rightarrow> 'd log_page" where
  "load_begin quiet p = (if quiet then p else p\<lparr>lp_loading := True\<rparr>)"

definition requests_sent :: "'d zone \<Rightarrow> rat \<Rightarrow> 'd log_page \<Rightarrow> log_query" where
  "requests_sent z now p = request_query z now (lp_filters p) (lp_page p) (lp_per p)"

definition runtime_sent :: "'d log_page \<Rightarrow> runtime_query" where
  "runtime_sent p =
     \<lparr>rt_after = None, rt_limit = Some (Fin (of_int (lp_rt_per p))),
      rt_offset = Some (Fin (of_int (page_offset (lp_rt_page p) (lp_rt_per p)))),
      rt_level = unless_all (runtime_text (lp_level p)), rt_q = str_opt (trim (lp_query p)), rt_account = str_opt (lp_account p)\<rparr>"

definition load_end :: "bool \<Rightarrow> 'd log_page \<Rightarrow> 'd log_page" where
  "load_end quiet p = (if quiet then p else p\<lparr>lp_loading := False, lp_booted := True\<rparr>)"

definition requests_answer :: "bool \<Rightarrow> jsval list \<Rightarrow> int \<Rightarrow> 'd log_page \<Rightarrow> 'd log_page" where
  "requests_answer quiet rows n p = load_end quiet (p\<lparr>lp_rows := rows, lp_total := n, lp_error := []\<rparr>)"

definition runtime_answer :: "bool \<Rightarrow> jsval list \<Rightarrow> int \<Rightarrow> 'd log_page \<Rightarrow> 'd log_page" where
  "runtime_answer quiet rows n p = load_end quiet (p\<lparr>lp_rt_rows := rows, lp_rt_total := n, lp_error := []\<rparr>)"

definition load_failed :: "bool \<Rightarrow> jstr \<Rightarrow> 'd log_page \<Rightarrow> 'd log_page" where
  "load_failed quiet msg p = load_end quiet (if quiet then p else p\<lparr>lp_error := msg\<rparr>)"

definition load_delay :: "'d log_page \<Rightarrow> int" where
  "load_delay p = (if lp_tab p = Runtime \<and> trim (lp_query p) \<noteq> [] then 280 else 0)"

definition runtime_polls :: "'d log_page \<Rightarrow> bool" where
  "runtime_polls p \<longleftrightarrow> lp_tab p = Runtime \<and> lp_rt_page p = 1"

definition shown_range :: "int \<Rightarrow> int \<Rightarrow> int \<Rightarrow> jsval list \<Rightarrow> jstr" where
  "shown_range n page per rows =
     (if rows = [] then js ''0''
      else dec_digits (shown_from n page per) @ [0x2013] @ dec_digits (shown_to n page per))"

definition shownLabel :: "translate \<Rightarrow> 'd log_page \<Rightarrow> jstr" where
  "shownLabel t p =
     (if lp_tab p \<noteq> Requests
      then t ''logsShownTotal'' [(''shown'', shown_range (lp_rt_total p) (lp_rt_page p) (lp_rt_per p) (lp_rt_rows p)),
             (''total'', dec_digits (lp_rt_total p))]
      else t ''logsShownTotal'' [(''shown'', shown_range (lp_total p) (lp_page p) (lp_per p) (lp_rows p)),
             (''total'', dec_digits (lp_total p))])"

definition list_skeleton :: "'d log_page \<Rightarrow> bool" where
  "list_skeleton p \<longleftrightarrow> lp_loading p \<and> (if lp_tab p = Requests then lp_rows p = [] else lp_rt_rows p = [])"

text \<open>\<open>onClear\<close> up to its request; when it is answered the list is loaded again before the page is free.\<close>

definition clear_begin :: "'d log_page \<Rightarrow> 'd log_page" where
  "clear_begin p = p\<lparr>lp_busy := True\<rparr>"

definition clear_answer :: "'d log_page \<Rightarrow> 'd log_page" where
  "clear_answer p = load_begin False (p\<lparr>lp_clear_open := False\<rparr>)"

definition clear_failed :: "jstr \<Rightarrow> 'd log_page \<Rightarrow> 'd log_page" where
  "clear_failed msg p = p\<lparr>lp_error := msg, lp_busy := False\<rparr>"

definition clear_end :: "'d log_page \<Rightarrow> 'd log_page" where
  "clear_end p = p\<lparr>lp_busy := False\<rparr>"

text \<open>
  Whatever the filters, the page and the answers were, the rendered page asks for a part of the list
  that exists: the page is in range, its first row is inside the list, and a change of the filters
  leads to the first page.
\<close>

theorem logs_page_in_range:
  fixes p :: "'d log_page" and z :: "'d zone"
  defines "q \<equiv> render_lists z p"
  assumes "0 < lp_per p" and "0 < lp_rt_per p"
  shows "1 \<le> lp_page q \<and> lp_page q \<le> page_count (lp_total p) (lp_per p)
    \<and> 1 \<le> lp_rt_page q \<and> lp_rt_page q \<le> page_count (lp_rt_total p) (lp_rt_per p)
    \<and> (lp_total p \<le> 0 \<or> page_offset (lp_page q) (lp_per p) < lp_total p)
    \<and> (lp_rt_total p \<le> 0 \<or> page_offset (lp_rt_page q) (lp_rt_per p) < lp_rt_total p)
    \<and> (lp_applied p = requestFilterKey z p \<or> lp_page q = 1)
    \<and> lp_page (render_lists z q) = lp_page q \<and> lp_rt_page (render_lists z q) = lp_rt_page q"
proof -
  let ?r = "settle_requests z p"
  have frame: "lp_page (settle_runtime s) = lp_page s" "lp_applied (settle_runtime s) = lp_applied s"
    "lp_total (settle_runtime s) = lp_total s" "lp_per (settle_runtime s) = lp_per s"
    "requestFilterKey z (settle_runtime s) = requestFilterKey z s" for s :: "'d log_page"
    by (simp_all add: settle_runtime_def requestFilterKey_def)
  have frame': "lp_rt_page (settle_requests z s) = lp_rt_page s" "lp_rt_applied (settle_requests z s) = lp_rt_applied s"
    "lp_rt_total (settle_requests z s) = lp_rt_total s" "lp_rt_per (settle_requests z s) = lp_rt_per s"
    "runtimeFilterKey (settle_requests z s) = runtimeFilterKey s" for s :: "'d log_page"
    by (simp_all add: settle_requests_def runtimeFilterKey_def)
  have "lp_page (settle_requests z s) = lp_page s'" if "lp_page (settle_requests z s') = lp_page s'" "lp_page s = lp_page s'"
    "lp_applied s = lp_applied s'" "requestFilterKey z s = requestFilterKey z s'" "lp_total s = lp_total s'" "lp_per s = lp_per s'"
    for s s' :: "'d log_page"
    using that by (simp add: requests_pager.page_settle)
  from this [of ?r "settle_runtime ?r"] have "lp_page (render_lists z q) = lp_page q"
    by (simp add: q_def render_lists_def frame requests_pager.settled_stable)
  moreover have "lp_rt_page (render_lists z q) = lp_rt_page q"
    by (simp add: q_def render_lists_def runtime_pager.page_settle frame' runtime_pager.applied_settle
        runtime_pager.frame_settle) (use runtime_pager.settled_range [of ?r] in \<open>simp add: current_page_def frame'
          runtime_pager.page_settle\<close>)
  ultimately show ?thesis
    using requests_pager.settled_range [of z p] runtime_pager.settled_range [of ?r] requests_pager.first_page [of p z]
      requests_pager.offset_inside [of p z] runtime_pager.offset_inside [of ?r] assms(2,3)
    by (auto simp: q_def render_lists_def frame frame' intro: leI)
qed

theorem logs_page_in_range_witness:
  "lp_page (render_lists no_zone ((initial_page no_zone [])\<lparr>lp_page := 9, lp_total := 120\<rparr>)) \<le> page_count 120 50"
  using logs_page_in_range [of "(initial_page no_zone [])\<lparr>lp_page := 9, lp_total := 120\<rparr>" no_zone]
  by (simp add: initial_page_def Let_def)

text \<open>
  The loads of the list are not told apart: an answer is taken whatever the filters are by then. A load
  for all requests that is overtaken by one for the failed ones leaves its rows under the filter for
  failures.
\<close>

lemma late_answer_shown:
  "let p1 = load_begin False (initial_page no_zone []);
       p2 = load_begin False (p1\<lparr>lp_filters := (lp_filters p1)\<lparr>lf_status := R_error\<rparr>\<rparr>);
       p3 = requests_answer False [jlit ''ok''] 1 (requests_answer False [jlit ''error''] 1 p2)
   in lf_status (lp_filters p3) = R_error \<and> lp_rows p3 = [jlit ''ok''] \<and> \<not> lp_loading p3"
  by (simp add: load_begin_def initial_page_def requests_answer_def load_end_def Let_def)

section \<open>The address\<close>

text \<open>
  \<open>ad_search\<close> is the query of the address as the router has it, \<open>ad_last\<close> the text that was read or
  written last, \<open>ad_filters\<close> the controls.
\<close>

record 'd address =
  ad_search :: jstr
  ad_last :: jstr
  ad_filters :: "'d filters"

definition url_text :: "'d zone \<Rightarrow> 'd filters \<Rightarrow> jstr" where
  "url_text z f = buildLogsUrl z f"

text \<open>The first effect, with the parser of addresses as a parameter; then the second.\<close>

definition read_address :: "'d zone \<Rightarrow> (jstr \<Rightarrow> params) \<Rightarrow> 'd address \<Rightarrow> 'd address" where
  "read_address z parse a =
     (if ad_search a = ad_last a then a
      else a\<lparr>ad_last := ad_search a, ad_filters := parseLogsUrl z (parse (ad_search a))\<rparr>)"

definition write_address :: "'d zone \<Rightarrow> 'd filters \<Rightarrow> 'd address \<Rightarrow> 'd address" where
  "write_address z rendered a =
     (if url_text z rendered = ad_last a then a
      else a\<lparr>ad_last := url_text z rendered, ad_search := url_text z rendered\<rparr>)"

text \<open>
  The effects of one rendering: they see the filters it had. The router makes a new \<open>setSearchParams\<close>
  for every new query, so that the second effect runs whenever the first has something to read.
\<close>

definition run_effects :: "'d zone \<Rightarrow> (jstr \<Rightarrow> params) \<Rightarrow> 'd address \<Rightarrow> 'd address" where
  "run_effects z parse a = write_address z (ad_filters a) (read_address z parse a)"

definition in_step :: "'d zone \<Rightarrow> 'd address \<Rightarrow> bool" where
  "in_step z a \<longleftrightarrow> ad_search a = ad_last a \<and> url_text z (ad_filters a) = ad_last a"

text \<open>Changed controls reach the address in one rendering, and nothing is read back.\<close>

lemma controls_reach_address:
  assumes "ad_search a = ad_last a"
  shows "in_step z (run_effects z parse a)" "ad_filters (run_effects z parse a) = ad_filters a"
    "run_effects z parse (run_effects z parse a) = run_effects z parse a"
  using assms by (auto simp: run_effects_def read_address_def write_address_def in_step_def)

text \<open>
  A change of the address from outside, by a link or the history of the browser, is overwritten: the
  rendering that reads it still has the old controls, its second effect writes their text back, and
  the next rendering writes the text of the filters that were read, so that the history entry is
  replaced twice.
\<close>

lemma outside_change:
  assumes "ad_search a \<noteq> ad_last a" and "url_text z (ad_filters a) \<noteq> ad_search a"
  shows "ad_search (run_effects z parse a) = url_text z (ad_filters a)"
    "ad_filters (run_effects z parse a) = parseLogsUrl z (parse (ad_search a))"
    "in_step z (run_effects z parse (run_effects z parse a))"
    "ad_search (run_effects z parse (run_effects z parse a)) = url_text z (parseLogsUrl z (parse (ad_search a)))"
  using assms by (auto simp: run_effects_def read_address_def write_address_def in_step_def)

text \<open>After any change the address and the controls agree again within two renderings.\<close>

theorem address_settles:
  "in_step z (run_effects z parse (run_effects z parse a))
   \<and> run_effects z parse (run_effects z parse (run_effects z parse a)) = run_effects z parse (run_effects z parse a)
   \<and> ad_filters (run_effects z parse (run_effects z parse a)) =
       (if ad_search a = ad_last a then ad_filters a else parseLogsUrl z (parse (ad_search a)))"
proof -
  have same: "ad_search (run_effects z parse a) = ad_last (run_effects z parse a)"
    by (simp add: run_effects_def read_address_def write_address_def)
  have "ad_filters (run_effects z parse a) =
      (if ad_search a = ad_last a then ad_filters a else parseLogsUrl z (parse (ad_search a)))"
    by (simp add: run_effects_def read_address_def write_address_def)
  with controls_reach_address [OF same, of z parse] show ?thesis by simp
qed

section \<open>The detail window\<close>

text \<open>
  \<open>dt_flights\<close>: the detail requests in flight, with the versions they were started with; \<open>dt_opened\<close> and
  \<open>dt_answers\<close> are a log, of the row opened last and of the answers received.
\<close>

record detail =
  dt_selected :: "jsval option"
  dt_error :: jstr
  dt_loading :: bool
  dt_open :: bool
  dt_version :: nat
  dt_flights :: "nat list"
  dt_opened :: "jsval option"
  dt_answers :: "(nat \<times> jsval) list"

definition initial_detail :: detail where
  "initial_detail = \<lparr>dt_selected = None, dt_error = [], dt_loading = False, dt_open = False, dt_version = 0,
     dt_flights = [], dt_opened = None, dt_answers = []\<rparr>"

definition openDetail :: "jsval \<Rightarrow> detail \<Rightarrow> detail" where
  "openDetail r d =
     d\<lparr>dt_version := dt_version d + 1, dt_selected := Some r, dt_error := [], dt_loading := True, dt_open := True,
       dt_flights := dt_flights d @ [dt_version d + 1], dt_opened := Some r\<rparr>"

definition detail_answer :: "nat \<Rightarrow> jsval \<Rightarrow> detail \<Rightarrow> detail" where
  "detail_answer v x d =
     (if v \<notin> set (dt_flights d) then d
      else (let d1 = d\<lparr>dt_flights := filter (\<lambda>u. u \<noteq> v) (dt_flights d), dt_answers := dt_answers d @ [(v, x)]\<rparr> in
        if dt_version d \<noteq> v then d1 else d1\<lparr>dt_selected := Some x, dt_loading := False\<rparr>))"

definition detail_failed :: "nat \<Rightarrow> jstr \<Rightarrow> detail \<Rightarrow> detail" where
  "detail_failed v msg d =
     (if v \<notin> set (dt_flights d) then d
      else (let d1 = d\<lparr>dt_flights := filter (\<lambda>u. u \<noteq> v) (dt_flights d)\<rparr> in
        if dt_version d \<noteq> v then d1 else d1\<lparr>dt_error := msg, dt_loading := False\<rparr>))"

definition close_detail :: "detail \<Rightarrow> detail" where
  "close_detail d = d\<lparr>dt_open := False\<rparr>"

inductive detail_step :: "detail \<Rightarrow> detail \<Rightarrow> bool" where
  opened: "detail_step d (openDetail r d)"
| answered: "detail_step d (detail_answer v x d)"
| refused: "detail_step d (detail_failed v msg d)"
| closed: "detail_step d (close_detail d)"

inductive detail_reachable :: "detail \<Rightarrow> bool" where
  start: "detail_reachable initial_detail"
| step: "detail_reachable d \<Longrightarrow> detail_step d d' \<Longrightarrow> detail_reachable d'"

inductive_cases detail_stepE: "detail_step d d'"

definition detail_ok :: "detail \<Rightarrow> bool" where
  "detail_ok d \<longleftrightarrow> (\<forall>v \<in> set (dt_flights d). v \<le> dt_version d)
     \<and> (dt_loading d = (dt_version d \<in> set (dt_flights d)))
     \<and> (dt_version d \<in> set (dt_flights d) \<longrightarrow> dt_version d \<notin> fst ` set (dt_answers d) \<and> dt_selected d = dt_opened d)
     \<and> (\<forall>v \<in> fst ` set (dt_answers d). v \<le> dt_version d)
     \<and> (dt_selected d = dt_opened d \<or> (\<exists>x. dt_selected d = Some x \<and> (dt_version d, x) \<in> set (dt_answers d)))"

lemma openDetail_ok: "detail_ok d \<Longrightarrow> detail_ok (openDetail r d)"
  by (fastforce simp: detail_ok_def openDetail_def)

lemma detail_answer_ok: "detail_ok d \<Longrightarrow> detail_ok (detail_answer v x d)"
  by (auto simp: detail_ok_def detail_answer_def Let_def)

lemma detail_failed_ok: "detail_ok d \<Longrightarrow> detail_ok (detail_failed v m d)"
  by (auto simp: detail_ok_def detail_failed_def Let_def)

lemma detail_reachable_ok: "detail_reachable d \<Longrightarrow> detail_ok d"
proof (induction rule: detail_reachable.induct)
  case start
  show ?case by (simp add: detail_ok_def initial_detail_def)
next
  case (step d d')
  then show ?case
    by (elim detail_stepE) (simp_all add: openDetail_ok detail_answer_ok detail_failed_ok, simp add: detail_ok_def close_detail_def)
qed

text \<open>
  C33: However the answers overtake each other, the detail window shows the row that was opened last or the
  answer to its request, never that of another row, and it shows the loading state exactly while
  that request is in flight.
\<close>

theorem detail_shows_last_opened:
  assumes "detail_reachable d"
  shows "(dt_selected d = dt_opened d \<or> (\<exists>x. dt_selected d = Some x \<and> (dt_version d, x) \<in> set (dt_answers d)))
    \<and> dt_loading d = (dt_version d \<in> set (dt_flights d))"
  using detail_reachable_ok [OF assms] by (simp add: detail_ok_def)

theorem detail_shows_last_opened_witness:
  "dt_loading (detail_answer 1 (jlit ''x'') (openDetail (jlit ''b'') (openDetail (jlit ''a'') initial_detail)))"
proof -
  have "detail_reachable (detail_answer 1 (jlit ''x'') (openDetail (jlit ''b'') (openDetail (jlit ''a'') initial_detail)))"
    by (rule detail_reachable.step [OF detail_reachable.step [OF detail_reachable.step [OF detail_reachable.start
      detail_step.opened] detail_step.opened] detail_step.answered])
  from detail_shows_last_opened [OF this] show ?thesis
    by (simp add: detail_answer_def openDetail_def initial_detail_def Let_def)
qed

section \<open>The rest of the page\<close>

text \<open>The runtime entry that is shown, and whether its window is open.\<close>

definition openRuntimeDetail :: "jsval \<Rightarrow> jsval option \<times> bool \<Rightarrow> jsval option \<times> bool" where
  "openRuntimeDetail e w = (Some e, True)"

text \<open>The lists of accounts and models that are fetched once: a list that is refused stays as it was.\<close>

definition lists_settled :: "'e + 'a list \<Rightarrow> 'e + 'b list \<Rightarrow> 'a list \<times> 'b list \<Rightarrow> 'a list \<times> 'b list" where
  "lists_settled accs models l =
     (case accs of Inr xs \<Rightarrow> xs | Inl e \<Rightarrow> fst l, case models of Inr ys \<Rightarrow> ys | Inl e \<Rightarrow> snd l)"

text \<open>The search for request identifiers: the query it sends, and the options made of the rows.\<close>

definition request_id_query :: "jstr \<Rightarrow> log_query" where
  "request_id_query q =
     \<lparr>lq_account = None, lq_api_key = None, lq_status = None, lq_stream = None, lq_error_kind = None, lq_model = None,
      lq_provider = None, lq_id = None, lq_q = str_opt q, lq_from = None, lq_to = None, lq_limit = Some (Fin 20),
      lq_offset = Some (Fin 0)\<rparr>"

definition loadRequestIdOptions :: "jstr list \<Rightarrow> (jstr \<times> jstr) list" where
  "loadRequestIdOptions ids = map (\<lambda>i. (i, i)) ids"

end
