(* ===== verification/Front_Access_Text.thy ===== *)
theory Front_Access_Text
  imports Front_Stream Front_Format
begin

text \<open>
  The texts of the page that tries the interface out (\<open>frontend/src/pages/AccessPage.tsx\<close> and
  \<open>components/access\<close>): the shell command for a raw request, read back by a model of the shell's
  quoting; messages and attachments and what is sent for them; titles, tool calls, sizes, addresses.
  The shell is not code of the repository: \<open>shell_words\<close> states the quoting rules of POSIX for
  literal words and the expansion of a variable inside double quotes, and refuses everything else.
\<close>

section \<open>The shell command\<close>

definition shellQuote :: "jstr \<Rightarrow> jstr" where
  "shellQuote v = [39] @ concat (map (\<lambda>c. if c = 39 then [39, 34, 39, 34, 39] else [c]) v) @ [39]"

definition curlCommand :: "jstr \<Rightarrow> jstr \<Rightarrow> jsval \<Rightarrow> jstr" where
  "curlCommand endpoint account payload =
     js ''curl -sS '' @ shellQuote endpoint @ js '' '' @ [92, 10]
     @ js ''  -H '' @ [34] @ js ''Authorization: Bearer $CLI2API_API_KEY'' @ [34] @ js '' '' @ [92, 10]
     @ js ''  -H '' @ shellQuote (js ''Content-Type: application/json'')
     @ (if account = [] then [] else js '' '' @ [92, 10] @ js ''  -H '' @ shellQuote (js ''X-Qoder-Account: '' @ account))
     @ js '' '' @ [92, 10] @ js ''  -d '' @ shellQuote (json_text payload)"

subsection \<open>Reading it as a shell does\<close>

datatype quoting = Bare | Single | Double

definition bare_special :: "u16 \<Rightarrow> bool" where
  "bare_special c \<longleftrightarrow> c \<in> set (js ''$`;&|<>()*?[]#~{}!=%'') \<or> c = 10"

text \<open>
  \<open>inw\<close>: a word is open, with the units \<open>w\<close> so far. The variable read inside double quotes is replaced
  by its value, which is not split. What the rules here do not cover is refused.
\<close>

function shell_words :: "(jstr \<Rightarrow> jstr) \<Rightarrow> quoting \<Rightarrow> bool \<Rightarrow> jstr \<Rightarrow> jstr \<Rightarrow> jstr list option" where
  "shell_words env Bare inw w [] = Some (if inw then [w] else [])"
| "shell_words env Bare inw w (c # s) =
     (if c = 32 \<or> c = 9 then (if inw then map_option ((#) w) (shell_words env Bare False [] s) else shell_words env Bare False [] s)
      else if c = 39 then shell_words env Single True w s
      else if c = 34 then shell_words env Double True w s
      else if c = 92 then (case s of
          [] \<Rightarrow> None
        | d # r \<Rightarrow> if d = 10 then shell_words env Bare inw w r else shell_words env Bare True (w @ [d]) r)
      else if bare_special c then None
      else shell_words env Bare True (w @ [c]) s)"
| "shell_words env Single inw w [] = None"
| "shell_words env Single inw w (c # s) =
     (if c = 39 then shell_words env Bare True w s else shell_words env Single True (w @ [c]) s)"
| "shell_words env Double inw w [] = None"
| "shell_words env Double inw w (c # s) =
     (if c = 34 then shell_words env Bare True w s
      else if c = 92 then (case s of
          [] \<Rightarrow> None
        | d # r \<Rightarrow> if d = 10 then shell_words env Double True w r
            else if d \<in> {36, 96, 34, 92} then shell_words env Double True (w @ [d]) r
            else shell_words env Double True (w @ [92, d]) r)
      else if c = 36 then
        (let name = takeWhile is_word s in
          if name = [] \<or> is_digit (hd name) then None
          else shell_words env Double True (w @ env name) (dropWhile is_word s))
      else if c = 96 then None
      else shell_words env Double True (w @ [c]) s)"
  by pat_completeness auto
termination
  by (relation "measure (\<lambda>(env, q, inw, w, s). length s)") (auto simp: le_imp_less_Suc length_dropWhile_le)

lemma shell_single:
  "shell_words env Single True w (concat (map (\<lambda>c. if c = 39 then [39, 34, 39, 34, 39] else [c]) v) @ 39 # s)
     = shell_words env Bare True (w @ v) s"
  by (induction v arbitrary: w) simp_all

text \<open>A quoted value is a word, or a part of one, that reads as the value itself.\<close>

lemma shell_quoted: "shell_words env Bare inw w (shellQuote v @ s) = shell_words env Bare True (w @ v) s"
  by (simp add: shellQuote_def shell_single)

lemma shell_quoted_end: "shell_words env Bare inw w (shellQuote v) = Some [w @ v]"
  using shell_quoted [of env inw w v "[]"] by simp

text \<open>The literal parts of the command, between the quoted values.\<close>

lemma shell_command_name: "shell_words env Bare False [] (js ''curl -sS '' @ s)
    = map_option (\<lambda>ws. js ''curl'' # js ''-sS'' # ws) (shell_words env Bare False [] s)"
  by (simp add: js_def bare_special_def option.map_comp comp_def)

lemma shell_next_option:
  "shell_words env Bare True w (js '' '' @ [92, 10] @ js ''  -H '' @ s)
     = map_option (\<lambda>ws. w # js ''-H'' # ws) (shell_words env Bare False [] s)"
  "shell_words env Bare True w (js '' '' @ [92, 10] @ js ''  -d '' @ s)
     = map_option (\<lambda>ws. w # js ''-d'' # ws) (shell_words env Bare False [] s)"
  by (simp_all add: js_def bare_special_def option.map_comp comp_def)

lemma shell_key:
  "shell_words env Bare False [] ([34] @ js ''Authorization: Bearer $CLI2API_API_KEY'' @ [34] @ s)
     = shell_words env Bare True (js ''Authorization: Bearer '' @ env (js ''CLI2API_API_KEY'')) s"
  by (simp add: js_def is_word_def is_digit_def)

text \<open>
  C34: The command that the page shows, run by a shell, is a call of curl with exactly the address, the
  key from the environment, the account and the body of the request, whatever the prompt, the model
  and the account contain: nothing of them is read by the shell.
\<close>

theorem curl_command_words:
  "shell_words env Bare False [] (curlCommand endpoint account payload) =
     Some ([js ''curl'', js ''-sS'', endpoint,
        js ''-H'', js ''Authorization: Bearer '' @ env (js ''CLI2API_API_KEY''),
        js ''-H'', js ''Content-Type: application/json'']
      @ (if account = [] then [] else [js ''-H'', js ''X-Qoder-Account: '' @ account])
      @ [js ''-d'', json_text payload])"
  unfolding curlCommand_def
  by (cases "account = []")
    (simp_all add: shell_command_name shell_quoted shell_quoted_end shell_next_option shell_key del: js_append append_Cons)

section \<open>Addresses\<close>

definition HTTP_RE :: rx where
  "HTTP_RE = rx_seq [RBegin, rx_lit ''http'', ROpt (rx_lit ''s''), rx_lit ''://'']"

text \<open>\<open>originBase()\<close> is the parameter \<open>origin\<close>.\<close>

definition absUrl :: "jstr \<Rightarrow> jstr option \<Rightarrow> jstr" where
  "absUrl origin path =
     (let u = str_or_empty path in
      if u = [] then origin
      else if rx_test True HTTP_RE u then u
      else if starts_with (js ''/'') u then origin @ u
      else origin @ js ''/'' @ u)"

section \<open>Attachments\<close>

datatype attachment_kind = Text_file | Image_file

record attachment =
  at_id :: jstr
  at_name :: jstr
  at_mime :: jstr
  at_kind :: attachment_kind
  at_text :: "jstr option"
  at_data :: "jstr option"
  at_size :: rat

definition TEXT_ATTACHMENT_EXTS :: "string list" where
  "TEXT_ATTACHMENT_EXTS =
    [''txt'', ''md'', ''markdown'', ''json'', ''csv'', ''tsv'', ''yml'', ''yaml'', ''toml'', ''xml'', ''html'', ''htm'', ''css'', ''scss'',
     ''js'', ''jsx'', ''ts'', ''tsx'', ''mjs'', ''cjs'', ''py'', ''go'', ''rs'', ''java'', ''kt'', ''swift'', ''c'', ''h'', ''cpp'', ''hpp'',
     ''sh'', ''bash'', ''zsh'', ''sql'', ''graphql'', ''env'', ''ini'', ''conf'', ''log'', ''rst'', ''tex'']"

definition IMAGE_ATTACHMENT_MIMES :: "string list" where
  "IMAGE_ATTACHMENT_MIMES = [''image/png'', ''image/jpeg'', ''image/jpg'', ''image/gif'', ''image/webp'']"

definition among :: "jstr \<Rightarrow> string list \<Rightarrow> bool" where
  "among s ts = list_ex (\<lambda>t. js t = s) ts"

definition attachmentExt :: "jstr \<Rightarrow> jstr" where
  "attachmentExt nm = (if 46 \<in> set nm then to_lower (rev (takeWhile (\<lambda>c. c \<noteq> 46) (rev nm))) else [])"

text \<open>A picked file: what the browser reads of it, or an error, is given with it.\<close>

record picked_file =
  pf_name :: jstr
  pf_type :: jstr
  pf_size :: rat
  pf_id :: jstr
  pf_data :: "thrown + jstr"
  pf_text :: "thrown + jstr"

definition is_image_file :: "picked_file \<Rightarrow> bool" where
  "is_image_file f \<longleftrightarrow>
     among (if pf_type f = [] then js ''application/octet-stream'' else pf_type f) IMAGE_ATTACHMENT_MIMES
     \<or> among (attachmentExt (pf_name f)) [''png'', ''jpg'', ''jpeg'', ''gif'', ''webp'']"

definition readAttachment :: "picked_file \<Rightarrow> thrown + attachment option" where
  "readAttachment f =
     (let ext = attachmentExt (pf_name f);
          mime = (if pf_type f = [] then js ''application/octet-stream'' else pf_type f);
          found = \<lparr>at_id = pf_id f, at_name = pf_name f, at_mime = mime, at_kind = Image_file, at_text = None,
            at_data = None, at_size = pf_size f\<rparr> in
      if is_image_file f
      then (case pf_data f of Inl e \<Rightarrow> Inl e | Inr d \<Rightarrow> Inr (Some (found\<lparr>at_data := Some d\<rparr>)))
      else if among ext TEXT_ATTACHMENT_EXTS \<or> starts_with (js ''text/'') mime \<or> mime = js ''application/json''
      then (case pf_text f of Inl e \<Rightarrow> Inl e | Inr t \<Rightarrow> Inr (Some (found\<lparr>at_kind := Text_file, at_text := Some t\<rparr>)))
      else Inr None)"

text \<open>The files taken and the names of those refused, in the order they were picked.\<close>

fun pick_files :: "picked_file list \<Rightarrow> attachment list \<times> jstr list" where
  "pick_files [] = ([], [])"
| "pick_files (f # fs) =
     (let (taken, refused) = pick_files fs in
      case readAttachment f of
        Inr (Some a) \<Rightarrow> (a # taken, refused)
      | _ \<Rightarrow> (taken, pf_name f # refused))"

definition onPickFiles :: "translate \<Rightarrow> picked_file list \<Rightarrow> attachment list \<Rightarrow> attachment list \<times> jstr option" where
  "onPickFiles t fs atts =
     (let (taken, refused) = pick_files fs in
      (atts @ taken,
       if refused = [] then None else Some (t ''chatAttachUnsupported'' [(''names'', join (js '', '') refused)])))"

definition remove_attachment :: "jstr \<Rightarrow> attachment list \<Rightarrow> attachment list" where
  "remove_attachment i atts = filter (\<lambda>a. at_id a \<noteq> i) atts"

lemma pick_files_count: "pick_files fs = (taken, refused) \<Longrightarrow> length taken + length refused = length fs"
  by (induction fs arbitrary: taken refused) (auto simp: Let_def split: prod.splits sum.splits option.splits)

definition formatSize :: "rat \<Rightarrow> jstr" where
  "formatSize n =
     (if n < 1024 then num_to_str (Fin n) @ js '' B''
      else if n < 1024 * 1024 then to_fixed 1 (n / 1024) @ js '' KB''
      else to_fixed 1 (n / (1024 * 1024)) @ js '' MB'')"

section \<open>Messages\<close>

datatype call_status = Running | Succeeded | Failed

record chat_tool_call =
  ct_index :: nat
  ct_id :: jstr
  ct_name :: jstr
  ct_arguments :: jstr
  ct_status :: call_status

datatype message_role = User | Assistant

datatype message_status = Streaming | Done | Errored

text \<open>\<open>tm_attachments\<close> is empty where the field is missing: every use has \<open>|| []\<close> or asks for the length.\<close>

record thread_message =
  tm_id :: jstr
  tm_role :: message_role
  tm_provider :: "jstr option"
  tm_content :: jstr
  tm_attachments :: "attachment list"
  tm_reasoning :: "jstr option"
  tm_reasoning_open :: "bool option"
  tm_calls :: "chat_tool_call list option"
  tm_usage :: "stream_usage option"
  tm_ttfb :: "int option"
  tm_latency :: "int option"
  tm_status :: message_status
  tm_error :: "jstr option"

definition bare_message :: "jstr \<Rightarrow> message_role \<Rightarrow> jstr \<Rightarrow> message_status \<Rightarrow> thread_message" where
  "bare_message i role content st =
     \<lparr>tm_id = i, tm_role = role, tm_provider = None, tm_content = content, tm_attachments = [], tm_reasoning = None,
      tm_reasoning_open = None, tm_calls = None, tm_usage = None, tm_ttfb = None, tm_latency = None, tm_status = st,
      tm_error = None\<rparr>"

subsection \<open>What is sent\<close>

definition with_file :: "attachment \<Rightarrow> jstr \<Rightarrow> jstr" where
  "with_file f body =
     body @ (if body = [] then [] else [10, 10]) @ js ''--- file: '' @ at_name f @ js '' ---'' @ [10] @ str_or_empty (at_text f)"

definition sent_text :: "jstr \<Rightarrow> attachment list \<Rightarrow> jstr" where
  "sent_text t atts = fold with_file (filter (\<lambda>a. at_kind a = Text_file) atts) (trim t)"

definition sent_images :: "attachment list \<Rightarrow> attachment list" where
  "sent_images atts = filter (\<lambda>a. at_kind a = Image_file \<and> str_or_empty (at_data a) \<noteq> []) atts"

definition image_part :: "attachment \<Rightarrow> jsval" where
  "image_part a = obj [(''type'', jlit ''image_url''), (''image_url'', obj [(''url'', JStr (str_or_empty (at_data a)))])]"

definition text_part :: "jstr \<Rightarrow> jsval" where
  "text_part t = obj [(''type'', jlit ''text''), (''text'', JStr t)]"

definition buildUserContent :: "jstr \<Rightarrow> attachment list \<Rightarrow> jsval" where
  "buildUserContent t atts =
     (let body = sent_text t atts; images = sent_images atts in
      if images = [] then JStr body
      else JArr ((if body = [] then [] else [text_part body]) @ map image_part images))"

definition displayUserText :: "jstr \<Rightarrow> attachment list \<Rightarrow> jstr" where
  "displayUserText t atts =
     (if atts = [] then t else if trim t \<noteq> [] then t else join (js '', '') (map at_name atts))"

definition api_turn :: "string \<Rightarrow> jsval \<Rightarrow> jsval" where
  "api_turn role content = obj [(''role'', jlit role), (''content'', content)]"

definition sent_turn :: "thread_message \<Rightarrow> jsval list" where
  "sent_turn m =
     (if tm_status m = Errored \<and> tm_role m = Assistant \<and> tm_content m = [] then []
      else if tm_role m = User then [api_turn ''user'' (buildUserContent (tm_content m) (tm_attachments m))]
      else if tm_content m \<noteq> [] then [api_turn ''assistant'' (JStr (tm_content m))]
      else [])"

definition toApiMessages :: "thread_message list \<Rightarrow> jsval \<Rightarrow> jsval list" where
  "toApiMessages history next = concat (map sent_turn history) @ [next]"

text \<open>Every question is sent again, and of the answers those with a text; nothing else, in the order of the thread.\<close>

lemma toApiMessages_length:
  "length (toApiMessages h n) = length (filter (\<lambda>m. tm_role m = User \<or> tm_content m \<noteq> []) h) + 1"
proof -
  have "length (sent_turn m) = (if tm_role m = User \<or> tm_content m \<noteq> [] then 1 else 0)" for m
    by (cases "tm_role m") (simp_all add: sent_turn_def)
  then have "length (concat (map sent_turn h)) = length (filter (\<lambda>m. tm_role m = User \<or> tm_content m \<noteq> []) h)"
    by (induction h) simp_all
  then show ?thesis by (simp add: toApiMessages_def)
qed

lemma with_file_prefix: "\<exists>u. fold with_file fs b = b @ u"
proof (induction fs arbitrary: b)
  case (Cons f fs)
  then obtain u where "fold with_file fs (with_file f b) = with_file f b @ u" by blast
  moreover obtain v where "with_file f b = b @ v" by (auto simp: with_file_def)
  ultimately show ?case by auto
qed simp

text \<open>The text sent begins with what was typed, and holds every text file whole.\<close>

lemma sent_text_holds_file: "f \<in> set fs \<Longrightarrow> contains (str_or_empty (at_text f)) (fold with_file fs b)"
proof (induction fs arbitrary: b)
  case (Cons g fs)
  show ?case
  proof (cases "f = g")
    case True
    obtain u where "fold with_file fs (with_file g b) = with_file g b @ u" using with_file_prefix by blast
    moreover obtain v where "with_file g b = v @ str_or_empty (at_text g)" by (fastforce simp: with_file_def)
    ultimately have "fold with_file (g # fs) b = v @ str_or_empty (at_text g) @ u" by simp
    with True show ?thesis unfolding contains_iff by blast
  next
    case False
    with Cons show ?thesis by simp
  qed
qed simp

theorem attachments_sent_whole:
  "starts_with (trim t) (sent_text t atts)
   \<and> (\<forall>a \<in> set atts. at_kind a = Text_file \<longrightarrow> contains (str_or_empty (at_text a)) (sent_text t atts))
   \<and> (\<forall>a \<in> set (sent_images atts). image_part a \<in> set (items (buildUserContent t atts)))"
proof (intro conjI ballI impI)
  show "starts_with (trim t) (sent_text t atts)"
    using with_file_prefix unfolding starts_with_append sent_text_def by auto
  show "contains (str_or_empty (at_text a)) (sent_text t atts)" if "a \<in> set atts" "at_kind a = Text_file" for a
    unfolding sent_text_def by (rule sent_text_holds_file) (use that in simp)
  show "image_part a \<in> set (items (buildUserContent t atts))" if "a \<in> set (sent_images atts)" for a
  proof -
    from that have "sent_images atts \<noteq> []" by auto
    with that show ?thesis by (simp add: buildUserContent_def Let_def)
  qed
qed

theorem attachments_sent_whole_witness:
  "contains (js ''x'') (sent_text [] [\<lparr>at_id = [], at_name = [], at_mime = [], at_kind = Text_file, at_text = Some (js ''x''),
     at_data = None, at_size = 1\<rparr>])"
  using attachments_sent_whole [of "[]" "[\<lparr>at_id = [], at_name = [], at_mime = [], at_kind = Text_file, at_text = Some (js ''x''),
     at_data = None, at_size = 1\<rparr>]"] by simp

subsection \<open>Titles and tool calls\<close>

definition titleFromMessages :: "thread_message list \<Rightarrow> jstr" where
  "titleFromMessages ms =
     (case find (\<lambda>m. tm_role m = User \<and> trim (tm_content m) \<noteq> []) ms of
        None \<Rightarrow> []
      | Some m \<Rightarrow>
          (let t = squash is_ws (js '' '') (trim (tm_content m)) in
           if 36 < length t then take 36 t @ [0x2026] else t))"

lemma title_short: "length (titleFromMessages ms) \<le> 37"
  by (simp add: titleFromMessages_def Let_def split: option.split)

lemma title_assistant:
  "tm_role m = Assistant \<Longrightarrow> tm_role m' = Assistant
    \<Longrightarrow> titleFromMessages (xs @ m # ys) = titleFromMessages (xs @ m' # ys)"
  by (induction xs) (simp_all add: titleFromMessages_def)

definition mapToolCalls :: "tool_call list \<Rightarrow> bool \<Rightarrow> chat_tool_call list" where
  "mapToolCalls cs running =
     map (\<lambda>(i, c). \<lparr>ct_index = tc_index c,
        ct_id = (if str_or_empty (tc_id c) = [] then js ''tool-'' @ dec_digits (int i) else str_or_empty (tc_id c)),
        ct_name = cf_name (tc_function c), ct_arguments = cf_arguments (tc_function c),
        ct_status = (if running then Running else Succeeded)\<rparr>) (enumerate 0 cs)"

definition statusLabel :: "translate \<Rightarrow> call_status \<Rightarrow> jstr" where
  "statusLabel t st = (case st of
     Running \<Rightarrow> t ''toolCallRunning'' [] | Failed \<Rightarrow> t ''toolCallError'' [] | Succeeded \<Rightarrow> t ''toolCallSuccess'' [])"

text \<open>\<open>JSON.stringify(v, null, 2)\<close> at a depth; the depth is in steps of two spaces.\<close>

definition indent :: "nat \<Rightarrow> jstr" where
  "indent d = 10 # replicate (2 * d) 32"

definition bracketed :: "nat \<Rightarrow> u16 \<Rightarrow> u16 \<Rightarrow> jstr list \<Rightarrow> jstr" where
  "bracketed d l r parts =
     (if parts = [] then [l, r]
      else [l] @ indent (d + 1) @ join (44 # indent (d + 1)) parts @ indent d @ [r])"

fun json_pretty :: "nat \<Rightarrow> jsval \<Rightarrow> jstr" where
  "json_pretty d (JArr vs) = bracketed d 91 93 (map (json_pretty (d + 1)) vs)"
| "json_pretty d (JObj ps) = bracketed d 123 125
     (map (\<lambda>p. quote (fst p) @ js '': '' @ json_pretty (d + 1) (snd p)) (filter (\<lambda>p. \<not> is_undef (snd p)) ps))"
| "json_pretty d v = json_text v"

definition prettyArgs :: "jstr \<Rightarrow> jstr" where
  "prettyArgs args =
     (if trim args = [] then []
      else case json_parse args of None \<Rightarrow> args | Some v \<Rightarrow> json_pretty 0 v)"

subsection \<open>Segments of a text\<close>

text \<open>\<open>text.split(/(\n{2,})/)\<close>: the runs of at least two line feeds are separators and are kept.\<close>

function blank_runs :: "jstr \<Rightarrow> jstr \<Rightarrow> jstr list" where
  "blank_runs w [] = [w]"
| "blank_runs w [c] = [w @ [c]]"
| "blank_runs w (c # d # s) =
     (if c = 10 \<and> d = 10 then w # (10 # 10 # takeWhile (\<lambda>e. e = 10) s) # blank_runs [] (dropWhile (\<lambda>e. e = 10) s)
      else blank_runs (w @ [c]) (d # s))"
  by pat_completeness auto
termination
  by (relation "measure (\<lambda>(w, s). length s)") (auto simp: le_imp_less_Suc le_SucI length_dropWhile_le)

definition segments :: "jstr \<Rightarrow> jstr list" where
  "segments s = blank_runs [] s"

text \<open>The segments shown one after the other are the text.\<close>

lemma concat_blank_runs: "concat (blank_runs w s) = w @ s"
  by (induction w s rule: blank_runs.induct) simp_all

lemma segments_whole: "concat (segments s) = s"
  by (simp add: segments_def concat_blank_runs)

definition is_separator :: "jstr \<Rightarrow> bool" where
  "is_separator p \<longleftrightarrow> 2 \<le> length p \<and> list_all (\<lambda>c. c = 10) p"

definition lastTextIdx :: "jstr list \<Rightarrow> int" where
  "lastTextIdx ps =
     (case find (\<lambda>i. ps ! i \<noteq> [] \<and> \<not> is_separator (ps ! i)) (rev [0..<length ps]) of None \<Rightarrow> -1 | Some i \<Rightarrow> int i)"

section \<open>Demonstration threads\<close>

datatype demo_mode = Full_demo | Thinking_demo

definition demoMode :: "params \<Rightarrow> demo_mode option" where
  "demoMode ps = (case map_of ps (js ''demo'') of
     None \<Rightarrow> None
   | Some v \<Rightarrow> if v = js ''1'' \<or> v = js ''full'' then Some Full_demo
       else if v = js ''thinking'' then Some Thinking_demo else None)"

definition DEMO_PNG :: jstr where
  "DEMO_PNG = js (''data:image/png;base64,iVBORw0KGgoAAAANSUhEUgAAAAoAAAAKCAYAAACNMs+9AAAAFUlEQVR42mNkYPhfz0AEYBxVSF+FABJADveWkH6''
     @ ''aAAAAAElFTkSuQmCC'')"

definition demo_image :: attachment where
  "demo_image = \<lparr>at_id = js ''demo-img-1'', at_name = js ''screenshot.png'', at_mime = js ''image/png'', at_kind = Image_file,
     at_text = None, at_data = Some DEMO_PNG, at_size = 2048\<rparr>"

definition demo_note :: attachment where
  "demo_note = \<lparr>at_id = js ''demo-txt-1'', at_name = js ''notes.md'', at_mime = js ''text/markdown'', at_kind = Text_file,
     at_text = Some (js ''# notes'' @ [10] @ js ''placeholder''), at_data = None, at_size = 128\<rparr>"

definition demo_call :: "nat \<Rightarrow> string \<Rightarrow> string \<Rightarrow> (string \<times> jsval) list \<Rightarrow> chat_tool_call" where
  "demo_call i cid nm args = \<lparr>ct_index = i, ct_id = js cid, ct_name = js nm, ct_arguments = json_pretty 0 (obj args), ct_status = Succeeded\<rparr>"

definition buildDemoThread :: "thread_message list" where
  "buildDemoThread =
     [(bare_message (js ''demo-user-1'') User (js ''Summarize the attached screenshot and look up the endpoint.'') Done)
        \<lparr>tm_attachments := [demo_image, demo_note]\<rparr>,
      (bare_message (js ''demo-assistant-1'') Assistant
         (js (''The screenshot shows the Access playground. I looked up the chat completions route and drafted a short ''
            @ ''summary below.'')) Done)
        \<lparr>tm_provider := Some (js ''workbuddy''),
         tm_reasoning := Some (js ''User attached a UI screenshot and a notes file.'' @ [10]
           @ js (''I should call the models/list helper, then summarize the visible chrome without inventing ''
             @ ''product claims.'') @ [10] @ js ''Keep the reply short and ops-console toned.''),
         tm_calls := Some [demo_call 0 ''call_demo_list'' ''list_endpoints'' [(''base'', jlit ''/v1''), (''filter'', jlit ''chat'')],
           demo_call 1 ''call_demo_read'' ''read_attachment'' [(''name'', jlit ''notes.md''), (''max_chars'', jint 400)]],
         tm_reasoning_open := Some False,
         tm_usage := Some \<lparr>su_prompt = jint 1840, su_completion = jint 126, su_total = Undef, su_credits = JNum (Fin (3/4)),
           su_source = jlit ''upstream''\<rparr>,
         tm_ttfb := Some 380, tm_latency := Some 2140\<rparr>]"

definition buildDemoThinking :: "thread_message list" where
  "buildDemoThinking =
     [bare_message (js ''demo-user-thinking'') User (js ''Walk through the Access playground layout.'') Done,
      (bare_message (js ''demo-assistant-thinking'') Assistant [] Streaming)
        \<lparr>tm_provider := Some (js ''workbuddy''),
         tm_reasoning := Some (js (''Scan the stage chrome, then the composer controls, then draft a short reply without ''
           @ ''inventing product claims.''))\<rparr>]"

definition initialDemoMessages :: "params \<Rightarrow> thread_message list" where
  "initialDemoMessages ps = (case demoMode ps of
     Some Thinking_demo \<Rightarrow> buildDemoThinking | Some Full_demo \<Rightarrow> buildDemoThread | None \<Rightarrow> [])"

text \<open>A continued demonstration sends both of its turns, the picture among them.\<close>

lemma demo_thread_sent: "length (toApiMessages buildDemoThread Undef) = 3 \<and> length (toApiMessages buildDemoThinking Undef) = 2"
  unfolding toApiMessages_length by (simp add: buildDemoThread_def buildDemoThinking_def bare_message_def)

section \<open>One message as it is shown\<close>

definition showSkeleton :: "thread_message \<Rightarrow> bool" where
  "showSkeleton m \<longleftrightarrow> tm_status m = Streaming \<and> tm_content m = [] \<and> str_or_empty (tm_reasoning m) = []
     \<and> opt_or (tm_calls m) [] = []"

definition canCopy :: "thread_message \<Rightarrow> bool" where
  "canCopy m \<longleftrightarrow> tm_content m \<noteq> [] \<and> tm_status m = Done"

definition showUsage :: "thread_message \<Rightarrow> bool" where
  "showUsage m = (case tm_usage m of None \<Rightarrow> False | Some u \<Rightarrow> \<not> nullish (su_credits u))"

definition is_num :: "jsval \<Rightarrow> bool" where
  "is_num v = (case v of JNum n \<Rightarrow> True | _ \<Rightarrow> False)"

definition showLatency :: "thread_message \<Rightarrow> bool" where
  "showLatency m \<longleftrightarrow> tm_status m = Done
     \<and> (tm_latency m \<noteq> None \<or> tm_ttfb m \<noteq> None \<or> (case tm_usage m of None \<Rightarrow> False | Some u \<Rightarrow> is_num (su_completion u)))"

definition count_text :: "jsval \<Rightarrow> jstr" where
  "count_text v = (case js_nvl v (jint 0) of JNum n \<Rightarrow> formatCompact n | _ \<Rightarrow> [])"

definition usage_foot :: "translate \<Rightarrow> thread_message \<Rightarrow> jstr option" where
  "usage_foot t m = (case tm_usage m of
     None \<Rightarrow> None
   | Some u \<Rightarrow>
      if nullish (su_credits u) then None
      else (let tokens = (if is_num (su_prompt u) \<or> is_num (su_completion u)
              then t ''chatTryUsageTokens'' [(''prompt'', count_text (su_prompt u)), (''completion'', count_text (su_completion u))]
              else []);
            amount = (case su_credits u of JNum n \<Rightarrow> formatCredits (Some n) | _ \<Rightarrow> []) in
        Some (if tokens \<noteq> [] then t ''chatTryUsageFoot'' [(''tokens'', tokens), (''amount'', amount)]
          else t ''chatTryCreditsUsed'' [(''amount'', amount)])))"

section \<open>Tool calls that open and close\<close>

text \<open>A group of calls: open at first when one failed or runs or there is only one; it opens again when one does.\<close>

definition hasError :: "chat_tool_call list \<Rightarrow> bool" where
  "hasError cs = list_ex (\<lambda>c. ct_status c = Failed) cs"

definition anyRunning :: "chat_tool_call list \<Rightarrow> bool" where
  "anyRunning cs = list_ex (\<lambda>c. ct_status c = Running) cs"

definition group_opened :: "chat_tool_call list \<Rightarrow> bool" where
  "group_opened cs \<longleftrightarrow> hasError cs \<or> anyRunning cs \<or> length cs = 1"

definition group_effect :: "chat_tool_call list \<Rightarrow> bool \<Rightarrow> bool" where
  "group_effect cs now_open \<longleftrightarrow> hasError cs \<or> anyRunning cs \<or> now_open"

lemma running_group_open: "cs \<noteq> [] \<Longrightarrow> group_effect (mapToolCalls cs True) g"
  by (cases cs) (auto simp: group_effect_def anyRunning_def mapToolCalls_def)

end
