(* ===== verification/Front_Access.thy ===== *)
theory Front_Access
  imports Front_Access_Text Front_Account
begin

text \<open>
  The page that tries the interface out (\<open>frontend/src/pages/AccessPage.tsx\<close>): its chat sessions, the
  choice of the account and the model, sending and stopping a chat, the callbacks of the stream, the
  raw request and the options that are shown. The stream is the one of \<open>Front_Stream\<close>: a chat call in
  flight carries the state of its reader, and a piece of the network moves it on and patches the
  message of the answer. New ids are given by the steps, which only take fresh ones (they are made of
  the time and random digits).
\<close>

section \<open>State\<close>

record session =
  se_id :: jstr
  se_title :: jstr
  se_messages :: "thread_message list"
  se_updated :: rat

datatype request_state = Idle | Busy | Success | Failure

record model_info =
  mi_id :: jstr
  mi_display :: "jstr option"
  mi_credits :: "jstr option"
  mi_free :: bool
  mi_provider :: "jstr option"
  mi_owned_by :: "jstr option"

record access_account =
  ca_id :: jstr
  ca_name :: "jstr option"
  ca_provider :: "jstr option"
  ca_region :: "jstr option"
  ca_disabled :: bool
  ca_ready :: bool
  ca_hot :: bool
  ca_status :: "jstr option"

text \<open>
  A chat call in flight: the closure of \<open>onChatSend\<close> (its controller, its session and the ids of its two
  messages) and its reader. \<open>fl_pieces\<close> is a log of what the reader was given.
\<close>

record flight =
  fl_controller :: nat
  fl_session :: jstr
  fl_assistant :: jstr
  fl_provider :: jstr
  fl_started :: rat
  fl_first :: "rat option"
  fl_aborted :: bool
  fl_stream :: stream_state
  fl_pieces :: "jstr list"

record catalog =
  cg_account :: jstr
  cg_models :: "model_info list"
  cg_error :: jstr

record access =
  ac_sessions :: "session list"
  ac_active :: jstr
  ac_pool :: "model_info list"
  ac_accounts :: "access_account list"
  ac_model :: jstr
  ac_account :: jstr
  ac_catalog :: "catalog option"
  ac_lookup :: "nat option"
  ac_lookups :: nat
  ac_chat_prompt :: jstr
  ac_attachments :: "attachment list"
  ac_chat :: request_state
  ac_abort :: "nat option"
  ac_controllers :: nat
  ac_flights :: "flight list"

section \<open>Sessions\<close>

definition createSession :: "jstr \<Rightarrow> rat \<Rightarrow> thread_message list \<Rightarrow> session" where
  "createSession i now ms = \<lparr>se_id = i, se_title = titleFromMessages ms, se_messages = ms, se_updated = now\<rparr>"

definition resolvedSessionId :: "access \<Rightarrow> jstr" where
  "resolvedSessionId a =
     (if ac_active a \<noteq> [] then ac_active a else case ac_sessions a of [] \<Rightarrow> [] | s # _ \<Rightarrow> se_id s)"

definition activeSession :: "access \<Rightarrow> session option" where
  "activeSession a =
     (case find (\<lambda>s. se_id s = resolvedSessionId a) (ac_sessions a) of
        Some s \<Rightarrow> Some s
      | None \<Rightarrow> (case ac_sessions a of [] \<Rightarrow> None | s # _ \<Rightarrow> Some s))"

definition messages :: "access \<Rightarrow> thread_message list" where
  "messages a = (case activeSession a of None \<Rightarrow> [] | Some s \<Rightarrow> se_messages s)"

text \<open>\<open>updateActiveMessages\<close>: the session is the active one of the rendering that made the closure.\<close>

definition update_session :: "rat \<Rightarrow> (thread_message list \<Rightarrow> thread_message list) \<Rightarrow> session \<Rightarrow> session" where
  "update_session now f s =
     (let ms = f (se_messages s); t = titleFromMessages ms in
      s\<lparr>se_messages := ms, se_title := (if t = [] then se_title s else t), se_updated := now\<rparr>)"

definition updateActiveMessages :: "jstr \<Rightarrow> rat \<Rightarrow> (thread_message list \<Rightarrow> thread_message list) \<Rightarrow> access \<Rightarrow> access" where
  "updateActiveMessages sid now f a =
     a\<lparr>ac_sessions := map (\<lambda>s. if se_id s \<noteq> sid then s else update_session now f s) (ac_sessions a)\<rparr>"

definition patchAssistant :: "jstr \<Rightarrow> rat \<Rightarrow> jstr \<Rightarrow> (thread_message \<Rightarrow> thread_message) \<Rightarrow> access \<Rightarrow> access" where
  "patchAssistant sid now aid g a =
     updateActiveMessages sid now (map (\<lambda>m. if tm_id m \<noteq> aid then m else g m)) a"

section \<open>Account and model\<close>

definition catalogReady :: "access \<Rightarrow> bool" where
  "catalogReady a \<longleftrightarrow> ac_account a = [] \<or> (\<exists>c. ac_catalog a = Some c \<and> cg_account c = ac_account a)"

lemma catalogReady_code [code]:
  "catalogReady a \<longleftrightarrow> ac_account a = [] \<or> (case ac_catalog a of None \<Rightarrow> False | Some c \<Rightarrow> cg_account c = ac_account a)"
  by (simp add: catalogReady_def split: option.split)

definition page_models :: "access \<Rightarrow> model_info list" where
  "page_models a =
     (if ac_account a \<noteq> []
      then (if catalogReady a then (case ac_catalog a of None \<Rightarrow> [] | Some c \<Rightarrow> cg_models c) else [])
      else ac_pool a)"

definition modelsLoading :: "access \<Rightarrow> bool" where
  "modelsLoading a \<longleftrightarrow> ac_account a \<noteq> [] \<and> \<not> catalogReady a"

definition modelsError :: "access \<Rightarrow> jstr" where
  "modelsError a = (if catalogReady a then (case ac_catalog a of None \<Rightarrow> [] | Some c \<Rightarrow> cg_error c) else [])"

definition demo_model :: "string \<Rightarrow> string \<Rightarrow> string \<Rightarrow> bool \<Rightarrow> model_info" where
  "demo_model i nm credits free =
     \<lparr>mi_id = js i, mi_display = Some (js nm), mi_credits = Some (js credits), mi_free = free,
      mi_provider = Some (js ''workbuddy''), mi_owned_by = None\<rparr>"

definition DEMO_MODEL_SEED :: "model_info list" where
  "DEMO_MODEL_SEED =
     [demo_model ''hy3'' ''HY3'' ''0.75 credits'' False, demo_model ''glm-4.6'' ''GLM-4.6'' ''0.5 credits'' False,
      demo_model ''free-demo'' ''Free Demo'' ''0 credits'' True]"

definition first_id :: "model_info list \<Rightarrow> jstr" where
  "first_id ms = (case ms of [] \<Rightarrow> [] | m # _ \<Rightarrow> mi_id m)"

definition selectedModel :: "bool \<Rightarrow> access \<Rightarrow> jstr" where
  "selectedModel demo a =
     (let seed = (if demo then DEMO_MODEL_SEED else []) in
      if list_ex (\<lambda>m. mi_id m = ac_model a) (page_models a) then ac_model a
      else if list_ex (\<lambda>m. mi_id m = ac_model a) seed then ac_model a
      else if first_id (page_models a) \<noteq> [] then first_id (page_models a)
      else first_id seed)"

text \<open>The model selected is one of those offered, or the page has none.\<close>

lemma first_id_offered: "first_id ms = [] \<or> first_id ms \<in> mi_id ` set ms"
  by (cases ms) (simp_all add: first_id_def)

lemma selectedModel_offered:
  "selectedModel demo a = [] \<or> selectedModel demo a \<in> mi_id ` set (page_models a @ (if demo then DEMO_MODEL_SEED else []))"
proof -
  let ?seed = "if demo then DEMO_MODEL_SEED else []"
  have "selectedModel demo a \<in> {first_id ?seed, first_id (page_models a)} \<union> mi_id ` set (page_models a @ ?seed)"
    by (auto simp: selectedModel_def Let_def list_ex_iff image_iff eq_commute)
  with first_id_offered [of "page_models a"] first_id_offered [of ?seed] show ?thesis by auto
qed

definition readyAccounts :: "access \<Rightarrow> access_account list" where
  "readyAccounts a =
     filter (\<lambda>c. \<not> ca_disabled c \<and> (ca_ready c \<or> ca_hot c \<or> ca_status c = Some (js ''ready'') \<or> ca_status c = Some (js ''hot'')))
       (ac_accounts a)"

text \<open>
  The effect of the selected account asks for its models; the request of an account that was
  selected before is not heard any more (\<open>cancelled\<close>). \<open>ac_lookup\<close> is the number of the request heard.
\<close>

definition select_account :: "jstr \<Rightarrow> access \<Rightarrow> access" where
  "select_account i a =
     (if i = ac_account a then a
      else if i = [] then a\<lparr>ac_account := [], ac_lookup := None\<rparr>
      else a\<lparr>ac_account := i, ac_lookup := Some (ac_lookups a + 1), ac_lookups := ac_lookups a + 1\<rparr>)"

definition pick_account :: "jstr \<Rightarrow> access \<Rightarrow> access" where
  "pick_account shown a = select_account (if shown = js ''auto'' then [] else shown) a"

definition lookup_answer :: "nat \<Rightarrow> thrown + model_info list \<Rightarrow> access \<Rightarrow> access" where
  "lookup_answer n r a =
     (if ac_lookup a \<noteq> Some n then a
      else a\<lparr>ac_catalog := Some (case r of
          Inr ms \<Rightarrow> \<lparr>cg_account = ac_account a, cg_models = ms, cg_error = []\<rparr>
        | Inl (Api_error msg st code) \<Rightarrow> \<lparr>cg_account = ac_account a, cg_models = [], cg_error = msg\<rparr>
        | Inl (Other_error msg) \<Rightarrow> \<lparr>cg_account = ac_account a, cg_models = [], cg_error = msg\<rparr>)\<rparr>)"

definition lists_answer :: "(thrown + model_info list) \<Rightarrow> (thrown + access_account list) \<Rightarrow> access \<Rightarrow> access" where
  "lists_answer ms accs a =
     (let a1 = (case ms of Inl _ \<Rightarrow> a | Inr x \<Rightarrow> a\<lparr>ac_pool := x\<rparr>) in
      case accs of Inl _ \<Rightarrow> a1 | Inr x \<Rightarrow> a1\<lparr>ac_accounts := x\<rparr>)"

section \<open>Chat\<close>

definition canChatSend :: "bool \<Rightarrow> access \<Rightarrow> bool" where
  "canChatSend demo a \<longleftrightarrow>
     (trim (ac_chat_prompt a) \<noteq> [] \<or> ac_attachments a \<noteq> []) \<and> selectedModel demo a \<noteq> [] \<and> \<not> modelsLoading a
     \<and> (ac_accounts a \<noteq> [] \<or> demo)"

definition send_refused :: "bool \<Rightarrow> access \<Rightarrow> bool" where
  "send_refused demo a \<longleftrightarrow>
     (trim (ac_chat_prompt a) = [] \<and> ac_attachments a = []) \<or> selectedModel demo a = [] \<or> modelsLoading a \<or> ac_chat a = Busy"

definition stopChat :: "access \<Rightarrow> access" where
  "stopChat a =
     a\<lparr>ac_flights := map (\<lambda>f. if ac_abort a = Some (fl_controller f) then f\<lparr>fl_aborted := True\<rparr> else f) (ac_flights a),
       ac_abort := None\<rparr>"

definition answer_provider :: "bool \<Rightarrow> access \<Rightarrow> jstr" where
  "answer_provider demo a =
     (let p = str_or_empty (Option.bind (find (\<lambda>c. ca_id c = ac_account a) (ac_accounts a)) ca_provider) in
      if p \<noteq> [] then p
      else str_or_empty (Option.bind (find (\<lambda>m. mi_id m = selectedModel demo a) (page_models a)) mi_provider))"

definition user_turn :: "jstr \<Rightarrow> access \<Rightarrow> thread_message" where
  "user_turn uid a = (bare_message uid User (trim (ac_chat_prompt a)) Done)\<lparr>tm_attachments := ac_attachments a\<rparr>"

definition empty_answer :: "jstr \<Rightarrow> jstr \<Rightarrow> thread_message" where
  "empty_answer aid p = (bare_message aid Assistant [] Streaming)\<lparr>tm_provider := Some p\<rparr>"

text \<open>What \<open>streamChat\<close> is called with.\<close>

definition sent_request :: "bool \<Rightarrow> jstr \<Rightarrow> access \<Rightarrow> request" where
  "sent_request demo stored_key a =
     stream_request stored_key (selectedModel demo a)
       (Messages (toApiMessages (messages a) (api_turn ''user'' (buildUserContent (trim (ac_chat_prompt a)) (ac_attachments a)))))
       (str_opt (ac_account a))"

definition new_flight :: "bool \<Rightarrow> jstr \<Rightarrow> rat \<Rightarrow> access \<Rightarrow> flight" where
  "new_flight demo aid now a =
     \<lparr>fl_controller = ac_controllers a + 1, fl_session = resolvedSessionId a, fl_assistant = aid,
      fl_provider = answer_provider demo a, fl_started = now, fl_first = None, fl_aborted = False,
      fl_stream = initial_stream, fl_pieces = []\<rparr>"

definition onChatSend :: "bool \<Rightarrow> jstr \<Rightarrow> jstr \<Rightarrow> rat \<Rightarrow> access \<Rightarrow> access" where
  "onChatSend demo uid aid now a =
     (if send_refused demo a then a
      else (let b = stopChat a; f = new_flight demo aid now a;
                c = updateActiveMessages (resolvedSessionId a) now
                  (\<lambda>_. messages a @ [user_turn uid a, empty_answer aid (fl_provider f)]) b in
        c\<lparr>ac_controllers := ac_controllers a + 1, ac_abort := Some (fl_controller f), ac_chat_prompt := [],
          ac_attachments := [], ac_chat := Busy, ac_flights := ac_flights b @ [f]\<rparr>))"

subsection \<open>The callbacks\<close>

fun apply_event :: "event \<Rightarrow> thread_message \<Rightarrow> thread_message" where
  "apply_event (On_content d full) m = m\<lparr>tm_content := full\<rparr>"
| "apply_event (On_reasoning d full) m = m\<lparr>tm_reasoning := Some full\<rparr>"
| "apply_event (On_tool_calls cs) m = m\<lparr>tm_calls := Some (mapToolCalls cs True)\<rparr>"
| "apply_event (On_usage u) m = m\<lparr>tm_usage := Some u\<rparr>"

fun marks_first :: "event \<Rightarrow> bool" where
  "marks_first (On_content d full) \<longleftrightarrow> d \<noteq> []"
| "marks_first (On_reasoning d full) \<longleftrightarrow> d \<noteq> []"
| "marks_first (On_tool_calls cs) \<longleftrightarrow> True"
| "marks_first (On_usage u) \<longleftrightarrow> False"

definition mark_first :: "rat \<Rightarrow> event list \<Rightarrow> flight \<Rightarrow> flight" where
  "mark_first now es f =
     (if fl_first f = None \<and> list_ex marks_first es then f\<lparr>fl_first := Some now\<rparr> else f)"

definition deliver :: "rat \<Rightarrow> flight \<Rightarrow> event list \<Rightarrow> access \<Rightarrow> access" where
  "deliver now f es a = fold (\<lambda>e. patchAssistant (fl_session f) now (fl_assistant f) (apply_event e)) es a"

text \<open>The reader of a call moves to \<open>s\<close>: the callbacks it made on the way are delivered.\<close>

definition move_reader :: "rat \<Rightarrow> flight \<Rightarrow> stream_state \<Rightarrow> access \<Rightarrow> access" where
  "move_reader now f s a = deliver now f (drop (length (ss_events (fl_stream f))) (ss_events s)) a"

definition on_flight :: "nat \<Rightarrow> access \<Rightarrow> flight option" where
  "on_flight k a = find (\<lambda>f. fl_controller f = k) (ac_flights a)"

definition chat_piece :: "nat \<Rightarrow> jstr \<Rightarrow> rat \<Rightarrow> access \<Rightarrow> access" where
  "chat_piece k t now a =
     (case on_flight k a of
        None \<Rightarrow> a
      | Some f \<Rightarrow>
          (let s = read_piece t (fl_stream f);
               f' = (mark_first now (drop (length (ss_events (fl_stream f))) (ss_events s)) f)
                 \<lparr>fl_stream := s, fl_pieces := fl_pieces f @ [t]\<rparr>;
               b = move_reader now f s a in
           b\<lparr>ac_flights := map (\<lambda>g. if fl_controller g = k then f' else g) (ac_flights b)\<rparr>))"

definition timing :: "rat \<Rightarrow> flight \<Rightarrow> thread_message \<Rightarrow> thread_message" where
  "timing now f m =
     m\<lparr>tm_latency := Some (max 0 (math_round (now - fl_started f))),
       tm_ttfb := map_option (\<lambda>t. max 0 (math_round (t - fl_started f))) (fl_first f)\<rparr>"

definition answered_message :: "rat \<Rightarrow> flight \<Rightarrow> thread_message \<Rightarrow> thread_message" where
  "answered_message now f m =
     (timing now f m)\<lparr>tm_status := Done, tm_calls := map_option (map (\<lambda>c. c\<lparr>ct_status := Succeeded\<rparr>)) (tm_calls m)\<rparr>"

definition failed_message :: "jstr \<Rightarrow> rat \<Rightarrow> flight \<Rightarrow> thread_message \<Rightarrow> thread_message" where
  "failed_message msg now f m = (timing now f m)\<lparr>tm_status := Errored, tm_error := Some msg\<rparr>"

text \<open>The call ends: \<open>finally\<close> clears the controller when it is still this one's.\<close>

definition release :: "nat \<Rightarrow> access \<Rightarrow> access" where
  "release k a =
     a\<lparr>ac_flights := filter (\<lambda>f. fl_controller f \<noteq> k) (ac_flights a),
       ac_abort := (if ac_abort a = Some k then None else ac_abort a)\<rparr>"

text \<open>\<open>streamChat\<close> returns: the body has ended, or \<open>[DONE]\<close> was read.\<close>

definition chat_returned :: "nat \<Rightarrow> rat \<Rightarrow> access \<Rightarrow> access" where
  "chat_returned k now a =
     (case on_flight k a of
        None \<Rightarrow> a
      | Some f \<Rightarrow>
          (let s = end_of_body (fl_stream f);
               f' = mark_first now (drop (length (ss_events (fl_stream f))) (ss_events s)) f;
               b = patchAssistant (fl_session f) now (fl_assistant f) (answered_message now f') (move_reader now f s a) in
           release k (b\<lparr>ac_chat := Success\<rparr>)))"

definition chat_failed :: "nat \<Rightarrow> jstr \<Rightarrow> rat \<Rightarrow> access \<Rightarrow> access" where
  "chat_failed k msg now a =
     (case on_flight k a of
        None \<Rightarrow> a
      | Some f \<Rightarrow>
          if fl_aborted f
          then release k ((patchAssistant (fl_session f) now (fl_assistant f) (answered_message now f) a)\<lparr>ac_chat := Success\<rparr>)
          else release k ((patchAssistant (fl_session f) now (fl_assistant f) (failed_message msg now f) a)\<lparr>ac_chat := Failure\<rparr>))"

subsection \<open>Sessions in the rail\<close>

definition clear_composer :: "access \<Rightarrow> access" where
  "clear_composer a = a\<lparr>ac_chat := Idle, ac_chat_prompt := [], ac_attachments := []\<rparr>"

definition onNewChat :: "jstr \<Rightarrow> rat \<Rightarrow> access \<Rightarrow> access" where
  "onNewChat i now a =
     (let b = clear_composer (stopChat a) in
      b\<lparr>ac_sessions := createSession i now [] # ac_sessions b, ac_active := i\<rparr>)"

definition onSelectSession :: "jstr \<Rightarrow> access \<Rightarrow> access" where
  "onSelectSession i a =
     (if i = resolvedSessionId a then a else (clear_composer (stopChat a))\<lparr>ac_active := i\<rparr>)"

definition loadDemo :: "rat \<Rightarrow> thread_message list \<Rightarrow> access \<Rightarrow> access" where
  "loadDemo now demo_thread a =
     (updateActiveMessages (resolvedSessionId a) now (\<lambda>_. demo_thread) a)\<lparr>ac_chat := Idle\<rparr>"

definition initial_access :: "jstr \<Rightarrow> rat \<Rightarrow> thread_message list \<Rightarrow> access" where
  "initial_access i now ms =
     \<lparr>ac_sessions = [createSession i now ms], ac_active = [], ac_pool = [], ac_accounts = [], ac_model = [], ac_account = [],
      ac_catalog = None, ac_lookup = None, ac_lookups = 0, ac_chat_prompt = [], ac_attachments = [], ac_chat = Idle,
      ac_abort = None, ac_controllers = 0, ac_flights = []\<rparr>"

definition historyItems :: "translate \<Rightarrow> access \<Rightarrow> (jstr \<times> jstr \<times> rat) list" where
  "historyItems t a =
     map (\<lambda>s. (se_id s, if se_title s = [] then t ''chatHistoryUntitled'' [] else se_title s, se_updated s))
       (sort_key (\<lambda>s. - se_updated s) (ac_sessions a))"

text \<open>
  The error of an account's model list is kept when the account is left for the automatic choice, where
  the list of the pool is shown.
\<close>

lemma stale_error_shown:
  "let a = (initial_access (js ''s'') 0 [])\<lparr>ac_accounts := []\<rparr>;
       b = lookup_answer 1 (Inl (Other_error (js ''refused''))) (pick_account (js ''acct'') a);
       c = pick_account (js ''auto'') b
   in ac_account c = [] \<and> page_models c = ac_pool c \<and> modelsError c = js ''refused''"
  by (simp add: initial_access_def pick_account_def select_account_def lookup_answer_def page_models_def modelsError_def
      catalogReady_def Let_def)

section \<open>The thread shows the stream\<close>

text \<open>The reader only adds callbacks to those it made before.\<close>

definition grows :: "stream_state \<Rightarrow> stream_state \<Rightarrow> bool" where
  "grows s s' \<longleftrightarrow> prefix (ss_events s) (ss_events s')"

lemma grows_refl [simp]: "grows s s"
  by (simp add: grows_def)

lemma grows_trans: "grows a b \<Longrightarrow> grows b c \<Longrightarrow> grows a c"
  by (auto simp: grows_def intro: prefix_order.trans)

lemma grows_takes:
  "grows s (take_usage u s)" "grows s (take_content d s)" "grows s (take_reasoning d s)"
  by (simp_all add: grows_def take_usage_def take_content_def take_reasoning_def emit_event_def)

lemma grows_calls: "grows s (take_calls v s)"
  by (cases "mergeToolCallDeltas (ss_calls s) v") (simp_all add: grows_def take_calls_def emit_event_def)

lemma grows_delta: "grows s (take_delta d s)"
  using grows_trans [OF grows_trans [OF grows_takes(2) grows_takes(3)] grows_calls] by (simp add: take_delta_def)

lemma grows_consume: "grows s (consumeLine l s)"
proof -
  have "grows s (s\<lparr>ss_done := True\<rparr>)" by (simp add: grows_def)
  moreover have "grows s (take_delta d (take_usage u s))" for d u by (rule grows_trans [OF grows_takes(1) grows_delta])
  ultimately show ?thesis by (simp add: consumeLine_def Let_def split: option.split)
qed

lemma grows_fold: "grows s (fold consumeLine ls s)"
proof (induction ls arbitrary: s)
  case (Cons l ls)
  from grows_trans [OF grows_consume Cons] show ?case by simp
qed simp

lemma grows_piece: "grows s (read_piece t s)"
proof -
  have "grows s (s\<lparr>ss_buffer := b\<rparr>)" for b by (simp add: grows_def)
  then show ?thesis unfolding read_piece_def Let_def by (blast intro: grows_trans grows_fold)
qed

lemma grows_end: "grows s (end_of_body s)"
  by (simp add: end_of_body_def grows_consume)

lemma grows_events: "grows s s' \<Longrightarrow> ss_events s' = ss_events s @ drop (length (ss_events s)) (ss_events s')"
  by (auto simp: grows_def prefix_def)

text \<open>The message that the callbacks make has the text and the reasoning of the reader.\<close>

definition shown_answer :: "flight \<Rightarrow> stream_state \<Rightarrow> thread_message" where
  "shown_answer f s = fold apply_event (ss_events s) (empty_answer (fl_assistant f) (fl_provider f))"

lemma fold_apply_event:
  assumes "told es f r = Some (f', r')" and "tm_content m = f" and "tm_reasoning m = str_opt r"
  shows "tm_content (fold apply_event es m) = f' \<and> tm_reasoning (fold apply_event es m) = str_opt r'"
  using assms
proof (induction es f r arbitrary: m rule: told.induct)
  case (3 d r' es f r)
  then show ?case by (auto simp: str_opt_def split: if_splits)
qed (auto split: if_splits)

lemma shown_answer_text:
  assumes "stream_ok s"
  shows "tm_content (shown_answer f s) = ss_full s \<and> tm_reasoning (shown_answer f s) = str_opt (ss_reasoning s)"
  using fold_apply_event [of "ss_events s" "[]" "[]" "ss_full s" "ss_reasoning s"] assms
  by (simp add: shown_answer_def stream_ok_def empty_answer_def bare_message_def str_opt_def)

lemma apply_event_frame [simp]: "tm_id (apply_event e m) = tm_id m" "tm_status (apply_event e m) = tm_status m"
  by (cases e; simp)+

lemma fold_apply_frame [simp]:
  "tm_id (fold apply_event es m) = tm_id m" "tm_status (fold apply_event es m) = tm_status m"
  by (induction es arbitrary: m) simp_all

lemma shown_answer_id [simp]: "tm_id (shown_answer f s) = fl_assistant f"
  by (simp add: shown_answer_def empty_answer_def bare_message_def)

subsection \<open>Messages of a session\<close>

definition has_session :: "jstr \<Rightarrow> access \<Rightarrow> bool" where
  "has_session sid a \<longleftrightarrow> sid \<in> se_id ` set (ac_sessions a)"

definition session_messages :: "jstr \<Rightarrow> access \<Rightarrow> thread_message list" where
  "session_messages sid a =
     (case find (\<lambda>s. se_id s = sid) (ac_sessions a) of None \<Rightarrow> [] | Some s \<Rightarrow> se_messages s)"

definition with_id :: "jstr \<Rightarrow> thread_message list \<Rightarrow> thread_message list" where
  "with_id i ms = filter (\<lambda>m. tm_id m = i) ms"

lemma find_map_key: "(\<And>x. g (h x) = g x) \<Longrightarrow> find (\<lambda>x. g x = k) (map h xs) = map_option h (find (\<lambda>x. g x = k) xs)"
  by (induction xs) auto

lemma session_update:
  "session_messages sid (updateActiveMessages sid' now f a) =
     (if sid = sid' \<and> has_session sid a then f (session_messages sid a) else session_messages sid a)"
proof -
  let ?h = "\<lambda>s. if se_id s \<noteq> sid' then s else update_session now f s"
  have id: "se_id (?h s) = se_id s" for s by (simp add: update_session_def Let_def)
  have hit: "se_id s = sid" if "find (\<lambda>s. se_id s = sid) (ac_sessions a) = Some s" for s
    using find_Some_in [OF that] by simp
  have none: "find (\<lambda>s. se_id s = sid) (ac_sessions a) = None \<longleftrightarrow> \<not> has_session sid a"
    by (auto simp: find_None_iff has_session_def)
  show ?thesis
  proof (cases "find (\<lambda>s. se_id s = sid) (ac_sessions a)")
    case None
    with none show ?thesis
      by (simp add: session_messages_def updateActiveMessages_def find_map_key [of se_id ?h, OF id])
  next
    case (Some s)
    with none have "has_session sid a" by simp
    with Some hit [OF Some] show ?thesis
      by (cases "sid = sid'") (simp_all add: session_messages_def updateActiveMessages_def find_map_key [of se_id ?h, OF id] update_session_def Let_def)
  qed
qed

lemma no_session: "\<not> has_session sid a \<Longrightarrow> session_messages sid a = []"
proof -
  assume "\<not> has_session sid a"
  then have "find (\<lambda>s. se_id s = sid) (ac_sessions a) = None" by (auto simp: find_None_iff has_session_def)
  then show ?thesis by (simp add: session_messages_def)
qed

lemma session_patch:
  "session_messages sid (patchAssistant sid' now aid g a) =
     (if sid = sid' then map (\<lambda>m. if tm_id m \<noteq> aid then m else g m) (session_messages sid a) else session_messages sid a)"
  by (simp add: patchAssistant_def session_update no_session)

lemma session_deliver:
  "session_messages sid (deliver now f es a) =
     (if sid = fl_session f
      then map (\<lambda>m. if tm_id m \<noteq> fl_assistant f then m else fold apply_event es m) (session_messages sid a)
      else session_messages sid a)"
proof (induction es arbitrary: a)
  case (Cons e es)
  have "deliver now f (e # es) a = deliver now f es (patchAssistant (fl_session f) now (fl_assistant f) (apply_event e) a)"
    by (simp add: deliver_def)
  with Cons show ?case by (simp add: session_patch)
qed (simp add: deliver_def map_idI)

lemma with_id_patch:
  assumes "\<And>m. tm_id (g m) = tm_id m"
  shows "with_id i (map (\<lambda>m. if tm_id m \<noteq> j then m else g m) ms) = (if i = j then map g (with_id i ms) else with_id i ms)"
  using assms by (induction ms) (auto simp: with_id_def)

text \<open>Patches leave everything but the sessions alone, and the sessions their ids.\<close>

lemma update_frame [simp]:
  "ac_flights (updateActiveMessages sid now f a) = ac_flights a" "ac_abort (updateActiveMessages sid now f a) = ac_abort a"
  "ac_controllers (updateActiveMessages sid now f a) = ac_controllers a" "ac_active (updateActiveMessages sid now f a) = ac_active a"
  "map se_id (ac_sessions (updateActiveMessages sid now f a)) = map se_id (ac_sessions a)"
  by (simp_all add: updateActiveMessages_def update_session_def Let_def)

lemma patch_frame [simp]:
  "ac_flights (patchAssistant sid now i g a) = ac_flights a" "ac_abort (patchAssistant sid now i g a) = ac_abort a"
  "ac_controllers (patchAssistant sid now i g a) = ac_controllers a" "ac_active (patchAssistant sid now i g a) = ac_active a"
  "map se_id (ac_sessions (patchAssistant sid now i g a)) = map se_id (ac_sessions a)"
  by (simp_all add: patchAssistant_def)

lemma deliver_frame [simp]:
  "ac_flights (deliver now f es a) = ac_flights a" "ac_abort (deliver now f es a) = ac_abort a"
  "ac_controllers (deliver now f es a) = ac_controllers a" "ac_active (deliver now f es a) = ac_active a"
  "map se_id (ac_sessions (deliver now f es a)) = map se_id (ac_sessions a)"
proof -
  have "ac_flights (deliver now f es a) = ac_flights a \<and> ac_abort (deliver now f es a) = ac_abort a
    \<and> ac_controllers (deliver now f es a) = ac_controllers a \<and> ac_active (deliver now f es a) = ac_active a
    \<and> map se_id (ac_sessions (deliver now f es a)) = map se_id (ac_sessions a)"
    by (induction es arbitrary: a) (simp_all add: deliver_def)
  then show "ac_flights (deliver now f es a) = ac_flights a" "ac_abort (deliver now f es a) = ac_abort a"
    "ac_controllers (deliver now f es a) = ac_controllers a" "ac_active (deliver now f es a) = ac_active a"
    "map se_id (ac_sessions (deliver now f es a)) = map se_id (ac_sessions a)" by simp_all
qed

section \<open>Steps of the page\<close>

definition fresh_message :: "jstr \<Rightarrow> access \<Rightarrow> bool" where
  "fresh_message i a \<longleftrightarrow> list_all (\<lambda>s. list_all (\<lambda>m. tm_id m \<noteq> i) (se_messages s)) (ac_sessions a)"

text \<open>The demonstration thread is only offered where there is no message.\<close>

inductive access_step :: "bool \<Rightarrow> access \<Rightarrow> access \<Rightarrow> bool" for demo where
  typed: "access_step demo a (a\<lparr>ac_chat_prompt := p, ac_attachments := atts\<rparr>)"
| sent: "fresh_message uid a \<Longrightarrow> fresh_message aid a \<Longrightarrow> uid \<noteq> aid \<Longrightarrow> access_step demo a (onChatSend demo uid aid now a)"
| piece: "access_step demo a (chat_piece k t now a)"
| returned: "access_step demo a (chat_returned k now a)"
| refused: "access_step demo a (chat_failed k msg now a)"
| stopped: "access_step demo a (stopChat a)"
| fresh_chat: "\<not> has_session i a \<Longrightarrow> i \<noteq> [] \<Longrightarrow> access_step demo a (onNewChat i now a)"
| selected: "has_session i a \<Longrightarrow> access_step demo a (onSelectSession i a)"
| demo_loaded: "messages a = [] \<Longrightarrow> access_step demo a (loadDemo now thread a)"
| account: "access_step demo a (pick_account i a)"
| model: "access_step demo a (a\<lparr>ac_model := i\<rparr>)"
| looked_up: "access_step demo a (lookup_answer n r a)"
| lists: "access_step demo a (lists_answer ms accs a)"

inductive access_reachable :: "bool \<Rightarrow> access \<Rightarrow> bool" for demo where
  start: "i \<noteq> [] \<Longrightarrow> access_reachable demo (initial_access i now ms)"
| step: "access_reachable demo a \<Longrightarrow> access_step demo a b \<Longrightarrow> access_reachable demo b"

inductive_cases access_stepE: "access_step demo a b"

definition flight_ok :: "access \<Rightarrow> flight \<Rightarrow> bool" where
  "flight_ok a f \<longleftrightarrow>
     with_id (fl_assistant f) (session_messages (fl_session f) a) = [shown_answer f (fl_stream f)]
     \<and> fl_stream f = fold read_piece (fl_pieces f) initial_stream
     \<and> fl_controller f \<le> ac_controllers a"

definition access_ok :: "access \<Rightarrow> bool" where
  "access_ok a \<longleftrightarrow>
     ac_sessions a \<noteq> [] \<and> (ac_active a = [] \<or> has_session (ac_active a) a)
     \<and> distinct (map fl_controller (ac_flights a)) \<and> distinct (map fl_assistant (ac_flights a))
     \<and> (\<forall>f \<in> set (ac_flights a). flight_ok a f)"

lemma active_exists: "access_ok a \<Longrightarrow> has_session (resolvedSessionId a) a"
  by (auto simp: access_ok_def resolvedSessionId_def has_session_def split: list.split)

lemma messages_active: "access_ok a \<Longrightarrow> messages a = session_messages (resolvedSessionId a) a"
proof -
  assume "access_ok a"
  then have "has_session (resolvedSessionId a) a" by (rule active_exists)
  then have "find (\<lambda>s. se_id s = resolvedSessionId a) (ac_sessions a) \<noteq> None" by (auto simp: find_None_iff has_session_def)
  then show ?thesis by (auto simp: messages_def activeSession_def session_messages_def)
qed

text \<open>Steps that keep the sessions and the calls keep the invariant.\<close>

lemma flight_frame:
  assumes "\<And>sid. session_messages sid b = session_messages sid a" and "ac_controllers a \<le> ac_controllers b"
  shows "flight_ok a f \<Longrightarrow> flight_ok b f"
  using assms by (auto simp: flight_ok_def)

lemma sessions_frame: "ac_sessions b = ac_sessions a \<Longrightarrow> session_messages sid b = session_messages sid a"
  by (simp add: session_messages_def)

lemma ok_frame:
  assumes "ac_sessions b = ac_sessions a" "ac_active b = ac_active a" "ac_flights b = ac_flights a"
    "ac_controllers b = ac_controllers a"
  shows "access_ok b = access_ok a"
  using assms sessions_frame [OF assms(1)] by (simp add: access_ok_def flight_ok_def has_session_def)

text \<open>Marking calls as aborted changes nothing the invariant speaks of.\<close>

definition same_call :: "flight \<Rightarrow> flight \<Rightarrow> bool" where
  "same_call f g \<longleftrightarrow> fl_controller f = fl_controller g \<and> fl_session f = fl_session g \<and> fl_assistant f = fl_assistant g
     \<and> fl_provider f = fl_provider g \<and> fl_stream f = fl_stream g \<and> fl_pieces f = fl_pieces g"

lemma same_call_ok: "same_call f g \<Longrightarrow> flight_ok a f = flight_ok a g"
  by (simp add: flight_ok_def same_call_def shown_answer_def)

definition marked :: "access \<Rightarrow> flight \<Rightarrow> flight" where
  "marked a f = (if ac_abort a = Some (fl_controller f) then f\<lparr>fl_aborted := True\<rparr> else f)"

lemma marked_same [simp]: "same_call (marked a f) f" "fl_controller (marked a f) = fl_controller f"
  "fl_assistant (marked a f) = fl_assistant f"
  by (simp_all add: marked_def same_call_def)

lemma stop_flights: "ac_flights (stopChat a) = map (marked a) (ac_flights a)"
  by (simp add: stopChat_def marked_def)

lemma stop_frame [simp]: "ac_sessions (stopChat a) = ac_sessions a" "ac_active (stopChat a) = ac_active a"
  "ac_controllers (stopChat a) = ac_controllers a" "session_messages sid (stopChat a) = session_messages sid a"
  "has_session sid (stopChat a) = has_session sid a"
  by (simp_all add: stopChat_def session_messages_def has_session_def)

lemma stop_ok: "access_ok a \<Longrightarrow> access_ok (stopChat a)"
proof -
  assume ok: "access_ok a"
  have "flight_ok (stopChat a) (marked a f)" if "f \<in> set (ac_flights a)" for f
  proof -
    from ok that have "flight_ok a f" by (simp add: access_ok_def)
    then have "flight_ok (stopChat a) f" by (rule flight_frame [rotated 2]) simp_all
    then show ?thesis using same_call_ok marked_same(1) by blast
  qed
  with ok show ?thesis by (auto simp: access_ok_def stop_flights comp_def)
qed

text \<open>A patch of the answer of one call is not seen by another.\<close>

lemma patched_answer:
  assumes "\<And>m. tm_id (g m) = tm_id m"
  shows "with_id j (session_messages sid (patchAssistant s now i g a)) =
    (if sid = s \<and> j = i then map g (with_id j (session_messages sid a)) else with_id j (session_messages sid a))"
  by (simp add: session_patch with_id_patch assms)

lemma delivered_answer:
  "with_id j (session_messages sid (deliver now f es a)) =
    (if sid = fl_session f \<and> j = fl_assistant f then map (fold apply_event es) (with_id j (session_messages sid a))
     else with_id j (session_messages sid a))"
  by (simp add: session_deliver with_id_patch)

lemma on_flight_in: "on_flight k a = Some f \<Longrightarrow> f \<in> set (ac_flights a) \<and> fl_controller f = k"
  unfolding on_flight_def by (auto dest: find_Some_in)

lemma on_flight_self:
  assumes "access_ok a" and "f \<in> set (ac_flights a)"
  shows "on_flight (fl_controller f) a = Some f"
  using find_key [of fl_controller "ac_flights a" f] assms by (simp add: on_flight_def access_ok_def)

text \<open>After the reader of a call has moved, its message shows what the reader has now.\<close>

lemma moved_answer:
  assumes "flight_ok a f" and "grows (fl_stream f) s"
  shows "with_id (fl_assistant f) (session_messages (fl_session f) (move_reader now f s a)) = [shown_answer f s]"
proof -
  from assms have "with_id (fl_assistant f) (session_messages (fl_session f) a) = [shown_answer f (fl_stream f)]"
    by (simp add: flight_ok_def)
  then have "with_id (fl_assistant f) (session_messages (fl_session f) (move_reader now f s a)) =
      [fold apply_event (drop (length (ss_events (fl_stream f))) (ss_events s)) (shown_answer f (fl_stream f))]"
    by (simp add: move_reader_def delivered_answer)
  moreover have "shown_answer f s =
      fold apply_event (drop (length (ss_events (fl_stream f))) (ss_events s)) (shown_answer f (fl_stream f))"
    unfolding shown_answer_def by (subst grows_events [OF assms(2)]) simp
  ultimately show ?thesis by simp
qed

lemma other_answer:
  "j \<noteq> fl_assistant f
    \<Longrightarrow> with_id j (session_messages sid (move_reader now f s a)) = with_id j (session_messages sid a)"
  by (simp add: move_reader_def delivered_answer)

lemma move_frame [simp]:
  "ac_flights (move_reader now f s a) = ac_flights a" "ac_controllers (move_reader now f s a) = ac_controllers a"
  "ac_active (move_reader now f s a) = ac_active a" "has_session sid (move_reader now f s a) = has_session sid a"
  "ac_sessions (move_reader now f s a) = [] \<longleftrightarrow> ac_sessions a = []"
proof -
  have ids: "map se_id (ac_sessions (move_reader now f s a)) = map se_id (ac_sessions a)" by (simp add: move_reader_def)
  then show "ac_sessions (move_reader now f s a) = [] \<longleftrightarrow> ac_sessions a = []" by (metis map_is_Nil_conv)
  from ids have "se_id ` set (ac_sessions (move_reader now f s a)) = se_id ` set (ac_sessions a)" by (metis set_map)
  then show "has_session sid (move_reader now f s a) = has_session sid a" by (simp add: has_session_def)
qed (simp_all add: move_reader_def)

lemma patch_sessions [simp]:
  "has_session sid (patchAssistant s now i g a) = has_session sid a"
  "ac_sessions (patchAssistant s now i g a) = [] \<longleftrightarrow> ac_sessions a = []"
proof -
  have ids: "map se_id (ac_sessions (patchAssistant s now i g a)) = map se_id (ac_sessions a)" by simp
  then show "ac_sessions (patchAssistant s now i g a) = [] \<longleftrightarrow> ac_sessions a = []" by (metis map_is_Nil_conv)
  from ids have "se_id ` set (ac_sessions (patchAssistant s now i g a)) = se_id ` set (ac_sessions a)" by (metis set_map)
  then show "has_session sid (patchAssistant s now i g a) = has_session sid a" by (simp add: has_session_def)
qed

lemma distinct_other:
  "distinct (map key fs) \<Longrightarrow> f \<in> set fs \<Longrightarrow> g \<in> set fs \<Longrightarrow> f \<noteq> g \<Longrightarrow> key f \<noteq> key g"
  by (metis distinct_map inj_on_def)

lemma piece_ok:
  assumes ok: "access_ok a"
  shows "access_ok (chat_piece k t now a)"
proof (cases "on_flight k a")
  case None
  with ok show ?thesis by (simp add: chat_piece_def)
next
  case (Some f)
  from on_flight_in [OF Some] have f: "f \<in> set (ac_flights a)" "fl_controller f = k" by auto
  define s where "s = read_piece t (fl_stream f)"
  define f' where "f' = (mark_first now (drop (length (ss_events (fl_stream f))) (ss_events s)) f)
    \<lparr>fl_stream := s, fl_pieces := fl_pieces f @ [t]\<rparr>"
  define b where "b = chat_piece k t now a"
  have b: "b = (move_reader now f s a)\<lparr>ac_flights := map (\<lambda>g. if fl_controller g = k then f' else g) (ac_flights a)\<rparr>"
    by (simp add: b_def chat_piece_def Some s_def f'_def Let_def)
  have f': "fl_controller f' = k" "fl_assistant f' = fl_assistant f" "fl_session f' = fl_session f"
    "fl_stream f' = s" "fl_pieces f' = fl_pieces f @ [t]" "shown_answer f' s = shown_answer f s"
    by (simp_all add: f'_def f(2) mark_first_def shown_answer_def)
  from ok f have okf: "flight_ok a f" by (simp add: access_ok_def)
  have sm: "session_messages sid b = session_messages sid (move_reader now f s a)" for sid
    by (rule sessions_frame) (simp add: b)
  have "with_id (fl_assistant f') (session_messages (fl_session f') b) = [shown_answer f' (fl_stream f')]"
    using moved_answer [OF okf grows_piece, of now t, folded s_def] by (simp add: f' sm)
  moreover have "fl_stream f' = fold read_piece (fl_pieces f') initial_stream" "fl_controller f' \<le> ac_controllers b"
    using okf f(2) by (simp_all add: flight_ok_def f' s_def b)
  ultimately have this_call: "flight_ok b f'" by (simp add: flight_ok_def)
  have others: "flight_ok b g" if g: "g \<in> set (ac_flights a)" "fl_controller g \<noteq> k" for g
  proof -
    from ok g f have "fl_assistant g \<noteq> fl_assistant f"
      using distinct_other [of fl_assistant "ac_flights a" g f] by (auto simp: access_ok_def)
    moreover from ok g(1) have "flight_ok a g" by (simp add: access_ok_def)
    moreover have "ac_controllers b = ac_controllers a" by (simp add: b)
    ultimately show ?thesis by (simp add: flight_ok_def sm other_answer)
  qed
  have "set (ac_flights b) \<subseteq> insert f' {g \<in> set (ac_flights a). fl_controller g \<noteq> k}"
    by (auto simp: b)
  with this_call others have flights: "\<forall>g \<in> set (ac_flights b). flight_ok b g" by blast
  have "g = f" if "g \<in> set (ac_flights a)" "fl_controller g = k" for g
    using ok that f distinct_other [of fl_controller "ac_flights a" g f] by (auto simp: access_ok_def)
  then have keys: "map fl_controller (ac_flights b) = map fl_controller (ac_flights a)"
    "map fl_assistant (ac_flights b) = map fl_assistant (ac_flights a)"
    by (auto simp: b f'(1,2))
  have "has_session (ac_active b) b = has_session (ac_active a) a" "ac_active b = ac_active a"
    "ac_sessions b = [] \<longleftrightarrow> ac_sessions a = []"
    using move_frame(4) [of "ac_active a" now f s a] by (simp_all add: b has_session_def)
  with ok flights keys show ?thesis
    unfolding b_def [symmetric] by (simp add: access_ok_def)
qed

text \<open>What \<open>ac_chat\<close> is does not matter for the sessions.\<close>

lemma chat_state_frame [simp]: "session_messages sid (a\<lparr>ac_chat := x\<rparr>) = session_messages sid a"
  "has_session sid (a\<lparr>ac_chat := x\<rparr>) = has_session sid a"
  by (simp_all add: session_messages_def has_session_def)

lemma chat_release_ok:
  assumes ok: "access_ok a" and f: "f \<in> set (ac_flights a)"
    and frame: "ac_flights b = ac_flights a" "ac_controllers b = ac_controllers a" "ac_active b = ac_active a"
      "\<And>sid. has_session sid b = has_session sid a" "ac_sessions b = [] \<longleftrightarrow> ac_sessions a = []"
    and others: "\<And>j sid. j \<noteq> fl_assistant f
      \<Longrightarrow> with_id j (session_messages sid b) = with_id j (session_messages sid a)"
  shows "access_ok (release (fl_controller f) b)"
proof -
  let ?r = "release (fl_controller f) b"
  have sm: "session_messages sid ?r = session_messages sid b" "has_session sid ?r = has_session sid a" for sid
    by (simp_all add: release_def session_messages_def has_session_def frame(4) [unfolded has_session_def])
  have "flight_ok ?r g" if g: "g \<in> set (ac_flights a)" "fl_controller g \<noteq> fl_controller f" for g
  proof -
    from ok g f have "fl_assistant g \<noteq> fl_assistant f"
      using distinct_other [of fl_assistant "ac_flights a" g f] by (auto simp: access_ok_def)
    moreover from ok g(1) have "flight_ok a g" by (simp add: access_ok_def)
    moreover have "ac_controllers ?r = ac_controllers a" by (simp add: release_def frame)
    ultimately show ?thesis by (simp add: flight_ok_def sm others)
  qed
  then show ?thesis
    using ok sm frame by (auto simp: access_ok_def release_def distinct_map_filter)
qed

lemma returned_ok:
  assumes ok: "access_ok a"
  shows "access_ok (chat_returned k now a)"
proof (cases "on_flight k a")
  case None
  with ok show ?thesis by (simp add: chat_returned_def)
next
  case (Some f)
  from on_flight_in [OF Some] have f: "f \<in> set (ac_flights a)" "k = fl_controller f" by auto
  have id: "tm_id (answered_message now g m) = tm_id m" for g m by (simp add: answered_message_def timing_def)
  show ?thesis
    unfolding f(2) chat_returned_def Some [unfolded f(2)] option.case Let_def
    by (rule chat_release_ok [OF ok f(1)]) (simp_all add: patched_answer [OF id] other_answer)
qed

lemma chat_failed_ok:
  assumes ok: "access_ok a"
  shows "access_ok (chat_failed k msg now a)"
proof (cases "on_flight k a")
  case None
  with ok show ?thesis by (simp add: chat_failed_def)
next
  case (Some f)
  from on_flight_in [OF Some] have f: "f \<in> set (ac_flights a)" "k = fl_controller f" by auto
  have id: "tm_id (answered_message now g m) = tm_id m" "tm_id (failed_message msg now g m) = tm_id m" for g m
    by (simp_all add: answered_message_def failed_message_def timing_def)
  have "access_ok (release (fl_controller f) ((patchAssistant (fl_session f) now (fl_assistant f) h a)\<lparr>ac_chat := x\<rparr>))"
    if "\<And>m. tm_id (h m) = tm_id m" for h x
    by (rule chat_release_ok [OF ok f(1)]) (simp_all add: patched_answer that)
  with id show ?thesis unfolding f(2) chat_failed_def Some [unfolded f(2)] by simp
qed

text \<open>A fresh id is the id of no message and so of no call.\<close>

lemma fresh_with_id: "fresh_message i a \<Longrightarrow> with_id i (session_messages sid a) = []"
proof -
  assume fresh: "fresh_message i a"
  show ?thesis
  proof (cases "find (\<lambda>s. se_id s = sid) (ac_sessions a)")
    case (Some s)
    with fresh find_Some_in [OF Some] show ?thesis
      by (auto simp: session_messages_def fresh_message_def list_all_iff with_id_def)
  qed (simp add: session_messages_def with_id_def)
qed

lemma fresh_call: "fresh_message i a \<Longrightarrow> flight_ok a f \<Longrightarrow> fl_assistant f \<noteq> i"
  using fresh_with_id [of i a] by (auto simp: flight_ok_def)

lemma send_ok:
  assumes ok: "access_ok a" and fresh: "fresh_message uid a" "fresh_message aid a" "uid \<noteq> aid"
  shows "access_ok (onChatSend demo uid aid now a)"
proof (cases "send_refused demo a")
  case True
  with ok show ?thesis by (simp add: onChatSend_def)
next
  case False
  define b where "b = stopChat a"
  define f where "f = new_flight demo aid now a"
  define sid where "sid = resolvedSessionId a"
  define new where "new = [user_turn uid a, empty_answer aid (fl_provider f)]"
  define c where "c = onChatSend demo uid aid now a"
  have c: "c = (updateActiveMessages sid now (\<lambda>_. messages a @ new) b)
      \<lparr>ac_controllers := ac_controllers a + 1, ac_abort := Some (fl_controller f), ac_chat_prompt := [],
          ac_attachments := [], ac_chat := Busy, ac_flights := ac_flights b @ [f]\<rparr>"
    using False by (simp add: c_def onChatSend_def b_def f_def sid_def new_def Let_def)
  have b: "access_ok b" unfolding b_def by (rule stop_ok [OF ok])
  have has: "has_session sid b" using active_exists [OF ok] by (simp add: b_def sid_def)
  have sm: "session_messages s c = (if s = sid then session_messages s b @ new else session_messages s b)" for s
  proof -
    have "session_messages s c = session_messages s (updateActiveMessages sid now (\<lambda>_. messages a @ new) b)"
      by (rule sessions_frame) (simp add: c)
    then show ?thesis using has messages_active [OF ok] by (simp add: session_update sid_def b_def)
  qed
  have f: "fl_assistant f = aid" "fl_session f = sid" "fl_stream f = initial_stream" "fl_pieces f = []"
    "fl_controller f = ac_controllers a + 1"
    by (simp_all add: f_def new_flight_def sid_def)
  have fresh_b: "fresh_message uid b" "fresh_message aid b" using fresh by (simp_all add: fresh_message_def b_def)
  have new: "with_id i new = (if i = uid then [user_turn uid a] else if i = aid then [empty_answer aid (fl_provider f)] else [])" for i
    using fresh(3) by (auto simp: with_id_def new_def user_turn_def empty_answer_def bare_message_def)
  have ctl: "ac_controllers c = ac_controllers a + 1" by (simp add: c)
  have "flight_ok c f"
    using fresh_with_id [OF fresh_b(2), of sid] fresh(3) new [of aid]
    by (simp add: flight_ok_def f sm ctl shown_answer_def with_id_def initial_stream_def)
  moreover have "flight_ok c g" if g: "g \<in> set (ac_flights b)" for g
  proof -
    from b g have okg: "flight_ok b g" by (simp add: access_ok_def)
    with fresh_call [OF fresh_b(1)] fresh_call [OF fresh_b(2)] have "with_id (fl_assistant g) new = []" by (simp add: new)
    then have "with_id (fl_assistant g) (session_messages s c) = with_id (fl_assistant g) (session_messages s b)" for s
      by (simp add: sm with_id_def)
    with okg show ?thesis by (simp add: flight_ok_def ctl b_def)
  qed
  moreover have "aid \<notin> fl_assistant ` set (ac_flights b)"
    using b fresh_call [OF fresh_b(2)] by (auto simp: access_ok_def)
  moreover have "ac_controllers a + 1 \<notin> fl_controller ` set (ac_flights b)"
    using b by (fastforce simp: access_ok_def flight_ok_def b_def)
  moreover have "ac_sessions c \<noteq> []" "ac_active c = [] \<or> has_session (ac_active c) c"
  proof -
    have ids: "map se_id (ac_sessions c) = map se_id (ac_sessions b)" by (simp add: c)
    with b show "ac_sessions c \<noteq> []" by (metis access_ok_def map_is_Nil_conv)
    from ids have "se_id ` set (ac_sessions c) = se_id ` set (ac_sessions b)" by (metis set_map)
    moreover have "ac_active c = ac_active b" by (simp add: c)
    ultimately show "ac_active c = [] \<or> has_session (ac_active c) c" using b by (simp add: access_ok_def has_session_def)
  qed
  moreover have "ac_flights c = ac_flights b @ [f]" by (simp add: c)
  ultimately show ?thesis
    unfolding c_def [symmetric] using b by (simp add: access_ok_def f ball_Un)
qed

lemma same_lists_ok:
  "access_ok (a\<lparr>ac_chat := x, ac_chat_prompt := p, ac_attachments := atts\<rparr>) = access_ok a"
  by (rule ok_frame) simp_all

lemma new_chat_ok:
  assumes ok: "access_ok a" and i: "\<not> has_session i a"
  shows "access_ok (onNewChat i now a)"
proof -
  define b where "b = clear_composer (stopChat a)"
  have b: "access_ok b" unfolding b_def clear_composer_def by (simp add: same_lists_ok stop_ok [OF ok])
  have has: "has_session sid b = has_session sid a" for sid
    by (simp add: b_def clear_composer_def has_session_def stopChat_def)
  define c where "c = onNewChat i now a"
  have c: "c = b\<lparr>ac_sessions := createSession i now [] # ac_sessions b, ac_active := i\<rparr>"
    by (simp add: c_def onNewChat_def b_def Let_def)
  have "flight_ok c f" if "f \<in> set (ac_flights b)" for f
  proof -
    from b that have okf: "flight_ok b f" by (simp add: access_ok_def)
    then have "with_id (fl_assistant f) (session_messages (fl_session f) b) \<noteq> []" by (simp add: flight_ok_def)
    then have "session_messages (fl_session f) b \<noteq> []" by (auto simp: with_id_def)
    then have "has_session (fl_session f) b" using no_session by blast
    with i has have "fl_session f \<noteq> i" by auto
    then have "session_messages (fl_session f) c = session_messages (fl_session f) b"
      by (simp add: c session_messages_def createSession_def)
    with okf show ?thesis by (simp add: flight_ok_def c)
  qed
  moreover have "has_session i c" by (simp add: c has_session_def createSession_def)
  ultimately show ?thesis unfolding c_def [symmetric] using b by (simp add: access_ok_def c)
qed

lemma select_ok:
  assumes ok: "access_ok a" and i: "has_session i a"
  shows "access_ok (onSelectSession i a)"
proof -
  define b where "b = clear_composer (stopChat a)"
  have b: "access_ok b" unfolding b_def clear_composer_def by (simp add: same_lists_ok stop_ok [OF ok])
  have "has_session i b" using i by (simp add: b_def clear_composer_def has_session_def stopChat_def)
  moreover have "flight_ok (b\<lparr>ac_active := i\<rparr>) f = flight_ok b f" for f
    by (simp add: flight_ok_def session_messages_def)
  moreover have "has_session i (b\<lparr>ac_active := i\<rparr>) = has_session i b" by (simp add: has_session_def)
  ultimately have "access_ok (b\<lparr>ac_active := i\<rparr>)" using b by (simp add: access_ok_def)
  with ok show ?thesis by (simp add: onSelectSession_def b_def)
qed

lemma load_demo_ok:
  assumes ok: "access_ok a" and empty: "messages a = []"
  shows "access_ok (loadDemo now thread a)"
proof -
  let ?b = "updateActiveMessages (resolvedSessionId a) now (\<lambda>_. thread) a"
  have none: "session_messages (resolvedSessionId a) a = []" using messages_active [OF ok] empty by simp
  have ids: "map se_id (ac_sessions ?b) = map se_id (ac_sessions a)" by simp
  have "flight_ok ?b f" if "f \<in> set (ac_flights a)" for f
  proof -
    from ok that have okf: "flight_ok a f" by (simp add: access_ok_def)
    with none have "fl_session f \<noteq> resolvedSessionId a" by (auto simp: flight_ok_def with_id_def)
    with okf show ?thesis by (simp add: flight_ok_def session_update)
  qed
  moreover have "ac_sessions ?b \<noteq> []" using ok ids by (metis access_ok_def map_is_Nil_conv)
  moreover have "has_session s ?b = has_session s a" for s using ids by (metis has_session_def set_map)
  ultimately have "access_ok ?b" using ok by (simp add: access_ok_def)
  then show ?thesis unfolding loadDemo_def using ok_frame [of "?b\<lparr>ac_chat := Idle\<rparr>" ?b] by simp
qed

lemma step_ok:
  assumes "access_step demo a b" and ok: "access_ok a"
  shows "access_ok b"
  using assms(1)
proof cases
  case (lists ms accs)
  show ?thesis
    unfolding lists(1) by (subst ok_frame [of _ a]) (simp_all add: lists_answer_def Let_def ok split: sum.split)
next
  case (looked_up n r)
  show ?thesis unfolding looked_up(1) by (subst ok_frame [of _ a]) (simp_all add: lookup_answer_def ok)
next
  case (account i)
  show ?thesis
    unfolding account(1) by (subst ok_frame [of _ a]) (simp_all add: pick_account_def select_account_def ok)
next
  case (typed p atts)
  show ?thesis unfolding typed(1) by (subst ok_frame [of _ a]) (simp_all add: ok)
next
  case (model i)
  show ?thesis unfolding model(1) by (subst ok_frame [of _ a]) (simp_all add: ok)
next
  case (sent uid aid now)
  then show ?thesis using send_ok [OF ok] by simp
next
  case (piece k t now)
  then show ?thesis by (simp only: piece_ok [OF ok])
next
  case (returned k now)
  then show ?thesis by (simp only: returned_ok [OF ok])
next
  case (refused k msg now)
  then show ?thesis by (simp only: chat_failed_ok [OF ok])
next
  case stopped
  then show ?thesis by (simp only: stop_ok [OF ok])
next
  case (fresh_chat i now)
  then show ?thesis using new_chat_ok [OF ok] by simp
next
  case (selected i)
  then show ?thesis using select_ok [OF ok] by simp
next
  case (demo_loaded now thread)
  then show ?thesis using load_demo_ok [OF ok] by simp
qed

lemma access_reachable_ok: "access_reachable demo a \<Longrightarrow> access_ok a"
proof (induction rule: access_reachable.induct)
  case (start i now ms)
  show ?case by (simp add: access_ok_def initial_access_def)
next
  case (step a b)
  then show ?case by (simp add: step_ok)
qed

text \<open>
  C35: While a chat runs, its answer stands exactly once in the session in which it was asked and shows
  the text and the reasoning of what was read so far, whichever sessions were opened, created or
  used for other chats in the meantime.
\<close>

theorem running_chat_shown:
  assumes "access_reachable demo a" and "f \<in> set (ac_flights a)"
  shows "\<exists>m. with_id (fl_assistant f) (session_messages (fl_session f) a) = [m]
    \<and> tm_content m = ss_full (fold read_piece (fl_pieces f) initial_stream)
    \<and> tm_reasoning m = str_opt (ss_reasoning (fold read_piece (fl_pieces f) initial_stream))
    \<and> tm_status m = Streaming"
proof -
  from access_reachable_ok [OF assms(1)] assms(2) have f: "flight_ok a f" by (simp add: access_ok_def)
  have "stream_ok (fold read_piece (fl_pieces f) initial_stream)"
    by (rule read_ok) (simp add: stream_ok_def initial_stream_def calls_ok_def)
  from shown_answer_text [OF this, of f] f show ?thesis
    by (simp add: flight_ok_def) (simp add: shown_answer_def empty_answer_def bare_message_def)
qed

text \<open>
  C36: A chat that has ended shows the whole answer of the stream, in the session in which it was asked, and
  no other session is changed by its end.
\<close>

theorem ended_chat_shown:
  assumes "access_reachable demo a" and "f \<in> set (ac_flights a)"
  shows "\<exists>m. with_id (fl_assistant f) (session_messages (fl_session f) (chat_returned (fl_controller f) now a)) = [m]
    \<and> tm_content m = ss_full (streamChat (fl_pieces f)) \<and> tm_reasoning m = str_opt (ss_reasoning (streamChat (fl_pieces f)))
    \<and> tm_status m = Done
    \<and> (\<forall>sid. sid \<noteq> fl_session f
        \<longrightarrow> session_messages sid (chat_returned (fl_controller f) now a) = session_messages sid a)"
proof -
  define s where "s = end_of_body (fl_stream f)"
  define f' where "f' = mark_first now (drop (length (ss_events (fl_stream f))) (ss_events s)) f"
  define c where "c = patchAssistant (fl_session f) now (fl_assistant f) (answered_message now f') (move_reader now f s a)"
  from access_reachable_ok [OF assms(1)] have ok: "access_ok a" .
  with assms(2) have f: "flight_ok a f" by (simp add: access_ok_def)
  have sm: "session_messages sid (chat_returned (fl_controller f) now a) = session_messages sid c" for sid
    unfolding chat_returned_def on_flight_self [OF ok assms(2)] option.case Let_def
    by (rule sessions_frame) (simp add: release_def c_def f'_def s_def)
  have id: "tm_id (answered_message now f' m) = tm_id m" for m by (simp add: answered_message_def timing_def)
  have "with_id (fl_assistant f) (session_messages (fl_session f) c) = [answered_message now f' (shown_answer f s)]"
    using moved_answer [OF f grows_end, of now] by (simp add: c_def patched_answer [OF id] s_def)
  moreover have "s = streamChat (fl_pieces f)" using f by (simp add: s_def flight_ok_def streamChat_def)
  moreover have "stream_ok s"
  proof -
    have "stream_ok (fl_stream f)" using f read_ok [of initial_stream "fl_pieces f"]
      by (simp add: flight_ok_def stream_ok_def initial_stream_def calls_ok_def)
    then show ?thesis by (simp add: s_def end_of_body_def consume_ok)
  qed
  moreover have "session_messages sid c = session_messages sid a" if "sid \<noteq> fl_session f" for sid
    using that by (simp add: c_def session_patch move_reader_def session_deliver)
  ultimately show ?thesis
    using shown_answer_text [of s f] by (simp add: sm answered_message_def timing_def)
qed

definition sample_page :: access where
  "sample_page =
     onChatSend True (js ''u'') (js ''a'') 5 ((initial_access (js ''s'') 0 [])\<lparr>ac_chat_prompt := js ''hi'', ac_attachments := []\<rparr>)"

lemma sample_reachable: "access_reachable True sample_page"
proof -
  have "access_reachable True ((initial_access (js ''s'') 0 [])\<lparr>ac_chat_prompt := js ''hi'', ac_attachments := []\<rparr>)"
    by (rule access_reachable.step [OF access_reachable.start access_step.typed]) simp
  then show ?thesis
    unfolding sample_page_def
    by (rule access_reachable.step) (rule access_step.sent; simp add: fresh_message_def initial_access_def createSession_def)
qed

lemma sample_flight:
  "map (\<lambda>f. (fl_controller f, fl_session f, fl_assistant f, fl_pieces f)) (ac_flights sample_page) = [(1, js ''s'', js ''a'', [])]"
  by code_simp

lemma sample_call: "\<exists>f. f \<in> set (ac_flights sample_page) \<and> fl_controller f = 1 \<and> fl_session f = js ''s''
    \<and> fl_assistant f = js ''a'' \<and> fl_pieces f = []"
  using sample_flight by (auto simp: map_eq_Cons_conv)

theorem running_chat_shown_witness:
  "\<exists>m. with_id (js ''a'') (session_messages (js ''s'') sample_page) = [m] \<and> tm_content m = []"
proof -
  from sample_call obtain f where f: "f \<in> set (ac_flights sample_page)" "fl_session f = js ''s''" "fl_assistant f = js ''a''"
    "fl_pieces f = []" by blast
  from running_chat_shown [OF sample_reachable f(1)] f show ?thesis by (auto simp: initial_stream_def)
qed

theorem ended_chat_shown_witness:
  "\<exists>m. with_id (js ''a'') (session_messages (js ''s'') (chat_returned 1 9 sample_page)) = [m]
    \<and> tm_content m = ss_full (streamChat []) \<and> tm_status m = Done"
proof -
  from sample_call obtain f where f: "f \<in> set (ac_flights sample_page)" "fl_controller f = 1" "fl_session f = js ''s''"
    "fl_assistant f = js ''a''" "fl_pieces f = []" by blast
  from ended_chat_shown [OF sample_reachable f(1), of 9] f show ?thesis by auto
qed

section \<open>The raw request and the options\<close>

record raw_test =
  rt_state :: request_state
  rt_started :: rat
  rt_elapsed :: "int option"
  rt_output :: jstr

definition test_begin :: "rat \<Rightarrow> raw_test \<Rightarrow> raw_test" where
  "test_begin now r = r\<lparr>rt_started := now, rt_state := Busy, rt_elapsed := None, rt_output := []\<rparr>"

definition test_end :: "rat \<Rightarrow> thrown + jsval \<Rightarrow> raw_test \<Rightarrow> raw_test" where
  "test_end now res r =
     (case res of
        Inr v \<Rightarrow> r\<lparr>rt_output := (if is_undef v then [] else json_pretty 0 v), rt_state := Success\<rparr>
      | Inl (Api_error msg st code) \<Rightarrow> r\<lparr>rt_output := msg, rt_state := Failure\<rparr>
      | Inl (Other_error msg) \<Rightarrow> r\<lparr>rt_output := msg, rt_state := Failure\<rparr>)
     \<lparr>rt_elapsed := Some (math_round (now - rt_started r))\<rparr>"

definition rawPath :: "raw_format \<Rightarrow> jstr option \<Rightarrow> jstr option \<Rightarrow> jstr option \<Rightarrow> jstr" where
  "rawPath format chat msgs responses =
     (let pick = (\<lambda>p d. if str_or_empty p = [] then js d else str_or_empty p) in
      case format of
        Messages_format \<Rightarrow> pick msgs ''/v1/messages''
      | Responses_format \<Rightarrow> pick responses ''/v1/responses''
      | Chat_format \<Rightarrow> pick chat ''/v1/chat/completions'')"

definition responseStatus :: "translate \<Rightarrow> request_state \<Rightarrow> jstr" where
  "responseStatus t s = (case s of
     Success \<Rightarrow> t ''requestComplete'' [] | Failure \<Rightarrow> t ''requestFailed'' [] | Busy \<Rightarrow> t ''requesting'' []
   | Idle \<Rightarrow> t ''requestIdle'' [])"

record composer_option =
  op_id :: jstr
  op_text :: jstr
  op_label :: jstr
  op_hint :: "jstr option"

definition auto_option :: "translate \<Rightarrow> composer_option" where
  "auto_option t = \<lparr>op_id = js ''auto'', op_text = t ''autoAccount'' [], op_label = t ''autoAccount'' [], op_hint = None\<rparr>"

definition account_option :: "translate \<Rightarrow> access_account \<Rightarrow> composer_option" where
  "account_option t c =
     (let nm = (if str_or_empty (ca_name c) = [] then ca_id c else str_or_empty (ca_name c));
          family = accountProviderLabel t (ca_provider c) (ca_region c) in
      \<lparr>op_id = ca_id c, op_text = nm @ js '' '' @ family, op_label = nm, op_hint = Some family\<rparr>)"

definition demo_account_option :: composer_option where
  "demo_account_option =
     \<lparr>op_id = js ''demo-wb'', op_text = js ''wb-demo WorkBuddy'', op_label = js ''wb-demo'', op_hint = Some (js ''WorkBuddy'')\<rparr>"

definition accountOptions :: "translate \<Rightarrow> bool \<Rightarrow> access_account list \<Rightarrow> composer_option list" where
  "accountOptions t demo accs =
     (if accs \<noteq> [] \<or> \<not> demo then auto_option t # map (account_option t) accs
      else [auto_option t, demo_account_option])"

definition model_option :: "translate \<Rightarrow> model_info \<Rightarrow> composer_option" where
  "model_option t m =
     (let credits = modelCreditsText (mi_credits m); free = modelIsFree (mi_free m) (mi_credits m);
          title = (if str_or_empty (mi_display m) = [] then mi_id m else str_or_empty (mi_display m));
          badge = (if free then t ''modelFree'' [] else credits);
          provider = (if str_or_empty (mi_provider m) = [] then str_or_empty (mi_owned_by m) else str_or_empty (mi_provider m)) in
      \<lparr>op_id = mi_id m,
       op_text = title @ js '' '' @ mi_id m @ js '' '' @ provider @ js '' '' @ credits @ js '' '' @ (if free then js ''free'' else []),
       op_label = (if badge = [] then title else title @ js '' '' @ badge),
       op_hint = Some (join ([32, 0xB7, 32]) (filter (\<lambda>x. x \<noteq> []) [mi_id m, provider, badge]))\<rparr>)"

definition modelOptions :: "translate \<Rightarrow> bool \<Rightarrow> access \<Rightarrow> composer_option list" where
  "modelOptions t demo a =
     (if page_models a \<noteq> [] \<or> \<not> demo then map (model_option t) (page_models a)
      else map (model_option t) DEMO_MODEL_SEED)"

text \<open>The model that is sent is one that the menu offers.\<close>

lemma selected_in_menu:
  assumes "page_models a = [] \<or> \<not> demo"
  shows "selectedModel demo a = [] \<or> selectedModel demo a \<in> op_id ` set (modelOptions t demo a)"
proof -
  have "op_id (model_option t m) = mi_id m" for m by (simp add: model_option_def Let_def)
  then have "op_id ` model_option t ` set ms = mi_id ` set ms" for ms by (simp add: image_image)
  with selectedModel_offered [of demo a] assms show ?thesis by (auto simp: modelOptions_def split: if_splits)
qed

end
