(* ===== verification/Front_Accounts_Page.thy ===== *)
theory Front_Accounts_Page
  imports Front_Account Front_Paging Front_Import Front_Toast Front_Api
begin

text \<open>
  The account page (\<open>frontend/src/pages/AccountsPage.tsx\<close>): the rows with the values that are being
  saved laid over them, the counts and the filters, the pager, the operations on an account with the
  notes and the busy mark, the refreshing of quotas in batches and the import of a bundle. The answers
  of the interface are arguments of the steps; the clock and the order of \<open>localeCompare\<close> are parameters.
\<close>

section \<open>Rows, counts and filters\<close>

record row =
  rw_id :: jstr
  rw_name :: "jstr option"
  rw_provider :: "jstr option"
  rw_region :: "jstr option"
  rw_remote_uid :: "jstr option"
  rw_auth_type :: "jstr option"
  rw_max_inflight :: "jsnum option"
  rw_priority :: "jsnum option"
  rw_account :: account

datatype account_filter = All | Available | Attention | Off

type_synonym 'v by_id = "(jstr \<times> 'v) list"

record overlays =
  ov_enabled :: "bool by_id"
  ov_name :: "jstr by_id"
  ov_inflight :: "jsnum by_id"
  ov_priority :: "jsnum by_id"

definition overlay :: "overlays \<Rightarrow> row \<Rightarrow> row" where
  "overlay ov r =
     (let r1 = (case map_of (ov_enabled ov) (rw_id r) of
            None \<Rightarrow> r | Some e \<Rightarrow> r\<lparr>rw_account := (rw_account r)\<lparr>a_enabled := e\<rparr>\<rparr>);
          r2 = (case map_of (ov_name ov) (rw_id r) of None \<Rightarrow> r1 | Some n \<Rightarrow> r1\<lparr>rw_name := Some n\<rparr>);
          r3 = (case map_of (ov_inflight ov) (rw_id r) of None \<Rightarrow> r2 | Some n \<Rightarrow> r2\<lparr>rw_max_inflight := Some n\<rparr>) in
      case map_of (ov_priority ov) (rw_id r) of None \<Rightarrow> r3 | Some n \<Rightarrow> r3\<lparr>rw_priority := Some n\<rparr>)"

definition remove_id :: "jstr \<Rightarrow> 'v by_id \<Rightarrow> 'v by_id" where
  "remove_id i m = filter (\<lambda>p. fst p \<noteq> i) m"

lemma map_of_remove [simp]: "map_of (remove_id i m) j = (if i = j then None else map_of m j)"
  by (induction m) (auto simp: remove_id_def)

definition provider_key :: "row \<Rightarrow> jstr" where
  "provider_key r = to_lower (if str_or_empty (rw_provider r) = [] then js ''qoder'' else str_or_empty (rw_provider r))"

definition matches :: "front_clock \<Rightarrow> account_filter \<Rightarrow> row \<Rightarrow> bool" where
  "matches clk f r = (case f of
     All \<Rightarrow> True
   | Available \<Rightarrow> isAvailable clk (rw_account r)
   | Attention \<Rightarrow> a_enabled (rw_account r) \<and> \<not> isAvailable clk (rw_account r)
   | Off \<Rightarrow> accountState clk (rw_account r) = Disabled)"

record counts =
  cn_all :: nat
  cn_available :: nat
  cn_attention :: nat
  cn_disabled :: nat

definition count_row :: "front_clock \<Rightarrow> row \<Rightarrow> counts \<Rightarrow> counts" where
  "count_row clk r c =
     (let s = accountState clk (rw_account r);
          c1 = (if s = Hot \<or> s = Ready then c\<lparr>cn_available := cn_available c + 1\<rparr>
            else if s = Disabled then c\<lparr>cn_disabled := cn_disabled c + 1\<rparr> else c) in
      if a_enabled (rw_account r) \<and> s \<noteq> Hot \<and> s \<noteq> Ready then c1\<lparr>cn_attention := cn_attention c1 + 1\<rparr> else c1)"

definition statusCounts :: "front_clock \<Rightarrow> row list \<Rightarrow> counts" where
  "statusCounts clk rs =
     fold (count_row clk) rs \<lparr>cn_all = length rs, cn_available = 0, cn_attention = 0, cn_disabled = 0\<rparr>"

definition search_fields :: "row \<Rightarrow> jstr option list" where
  "search_fields r = [rw_name r, Some (rw_id r), rw_remote_uid r, rw_provider r, rw_auth_type r]"

definition row_shown :: "front_clock \<Rightarrow> account_filter \<Rightarrow> jstr \<Rightarrow> jstr \<Rightarrow> row \<Rightarrow> bool" where
  "row_shown clk f provider query r =
     (let normalized = to_lower (trim query) in
      if \<not> matches clk f r then False
      else if provider \<noteq> [] \<and> provider_key r \<noteq> provider then False
      else if normalized = [] then True
      else list_ex (\<lambda>v. contains normalized (to_lower (str_or_empty v))) (search_fields r))"

definition count_provider :: "row \<Rightarrow> nat by_id \<Rightarrow> nat by_id" where
  "count_provider r m = aput (provider_key r) (opt_or (map_of m (provider_key r)) 0 + 1) m"

definition providerCounts :: "(jstr \<Rightarrow> jstr \<Rightarrow> bool) \<Rightarrow> row list \<Rightarrow> nat by_id" where
  "providerCounts le rs =
     sort_by (\<lambda>a b. snd b < snd a \<or> (snd a = snd b \<and> le (fst a) (fst b))) (fold count_provider rs [])"

subsection \<open>The counts are those of the lists\<close>

lemma disabled_iff: "accountState clk a = Disabled \<longleftrightarrow> \<not> a_enabled a"
  by (auto simp: accountState_def split: if_splits)

lemma available_enabled: "isAvailable clk a \<Longrightarrow> a_enabled a"
  by (auto simp: isAvailable_def accountState_def split: if_splits)

lemma count_rows:
  "fold (count_row clk) rs c = c\<lparr>cn_available := cn_available c + length (filter (matches clk Available) rs),
     cn_attention := cn_attention c + length (filter (matches clk Attention) rs),
     cn_disabled := cn_disabled c + length (filter (matches clk Off) rs)\<rparr>"
proof (induction rs arbitrary: c)
  case (Cons r rs)
  have "count_row clk r c =
      c\<lparr>cn_available := cn_available c + (if matches clk Available r then 1 else 0),
        cn_attention := cn_attention c + (if matches clk Attention r then 1 else 0),
        cn_disabled := cn_disabled c + (if matches clk Off r then 1 else 0)\<rparr>"
    using disabled_iff [of clk "rw_account r"] by (auto simp: count_row_def Let_def matches_def isAvailable_def)
  with Cons show ?case by simp
qed simp

lemma one_status:
  "length (filter (matches clk Available) rs) + length (filter (matches clk Attention) rs)
     + length (filter (matches clk Off) rs) = length rs"
proof (induction rs)
  case (Cons r rs)
  have "(if matches clk Available r then 1 else 0) + (if matches clk Attention r then 1 else 0)
      + (if matches clk Off r then 1 else 0 :: nat) = 1"
    using available_enabled [of clk "rw_account r"] by (auto simp: matches_def disabled_iff)
  with Cons show ?case by (simp split: if_splits)
qed simp

text \<open>
  The numbers on the filters are the lengths of the lists the filters show, and every account is in
  exactly one of the three classes.
\<close>

theorem filter_counts:
  "cn_all (statusCounts clk rs) = length (filter (row_shown clk All [] []) rs)
   \<and> cn_available (statusCounts clk rs) = length (filter (row_shown clk Available [] []) rs)
   \<and> cn_attention (statusCounts clk rs) = length (filter (row_shown clk Attention [] []) rs)
   \<and> cn_disabled (statusCounts clk rs) = length (filter (row_shown clk Off [] []) rs)
   \<and> cn_all (statusCounts clk rs) = cn_available (statusCounts clk rs) + cn_attention (statusCounts clk rs)
       + cn_disabled (statusCounts clk rs)"
proof -
  have shown: "row_shown clk f [] [] = matches clk f" for f
    by (simp add: fun_eq_iff row_shown_def to_lower_def)
  have all: "filter (matches clk All) rs = rs" by (simp add: matches_def filter_id_conv)
  show ?thesis
    using one_status [of clk rs] by (simp add: shown all) (simp add: statusCounts_def count_rows)
qed

lemma insert_by_set [simp]: "set (insert_by le x xs) = insert x (set xs)"
  by (induction xs) auto

lemma sort_by_set [simp]: "set (sort_by le xs) = set xs"
  by (induction xs) (simp_all add: sort_by_def)

lemma count_provider_of:
  "opt_or (map_of (fold count_provider rs m) k) 0 = opt_or (map_of m k) 0 + length (filter (\<lambda>r. provider_key r = k) rs)"
  by (induction rs arbitrary: m) (simp_all add: count_provider_def)

text \<open>The menu of providers lists each provider of a row once, with the number of its rows.\<close>

theorem provider_menu_counts:
  "(k, n) \<in> set (providerCounts le rs) \<Longrightarrow> n = length (filter (\<lambda>r. provider_key r = k) rs)"
proof -
  assume "(k, n) \<in> set (providerCounts le rs)"
  then have kn: "(k, n) \<in> set (fold count_provider rs [])" by (simp add: providerCounts_def)
  have "distinct (map fst (fold count_provider rs m))" if "distinct (map fst m)" for m
    using that by (induction rs arbitrary: m) (simp_all add: count_provider_def distinct_aput)
  then have "map_of (fold count_provider rs []) k = Some n" using kn by (simp add: map_of_eq_Some_iff)
  with count_provider_of [of rs "[]" k] show ?thesis by simp
qed

theorem provider_menu_counts_witness:
  "let r = \<lparr>rw_id = js ''1'', rw_name = None, rw_provider = None, rw_region = None, rw_remote_uid = None, rw_auth_type = None,
      rw_max_inflight = None, rw_priority = None,
      rw_account = \<lparr>a_enabled = True, a_status = None, a_runtime = None, a_hot = False, a_ready = False, a_down_until = None,
        a_cooldown_until = None, a_model_cooldowns = [], a_quota = None\<rparr>\<rparr>
   in (1::nat) = length (filter (\<lambda>x. provider_key x = js ''qoder'') [r])"
  unfolding Let_def by (rule provider_menu_counts [where le = "\<lambda>_ _. True"]) code_simp

section \<open>The page\<close>

record accounts_page =
  ap_rows :: "row list"
  ap_loading :: bool
  ap_query :: jstr
  ap_filter :: account_filter
  ap_provider :: jstr
  ap_page :: int
  ap_per :: int
  ap_applied :: jstr
  ap_over :: overlays
  ap_busy :: "(jstr \<times> string) option"
  ap_notes :: "jstr by_id"
  ap_urls :: "jstr by_id"
  ap_pats :: "jstr by_id"
  ap_callbacks :: "jstr by_id"
  ap_auth_panel :: "jstr option"
  ap_confirm :: "jstr option"
  ap_toasts :: store
  ap_credits :: bool
  ap_bundle :: "jsval option"
  ap_detection :: "detection option"
  ap_file :: jstr
  ap_batch_open :: bool
  ap_importing :: bool

definition displayRows :: "accounts_page \<Rightarrow> row list" where
  "displayRows p = map (overlay (ap_over p)) (ap_rows p)"

definition filteredRows :: "front_clock \<Rightarrow> accounts_page \<Rightarrow> row list" where
  "filteredRows clk p = filter (row_shown clk (ap_filter p) (ap_provider p) (ap_query p)) (displayRows p)"

definition filter_text :: "account_filter \<Rightarrow> jstr" where
  "filter_text f = (case f of All \<Rightarrow> js ''all'' | Available \<Rightarrow> js ''available'' | Attention \<Rightarrow> js ''attention'' | Off \<Rightarrow> js ''disabled'')"

definition filterKey :: "accounts_page \<Rightarrow> jstr" where
  "filterKey p = filter_key [ap_query p, filter_text (ap_filter p), ap_provider p, dec_digits (ap_per p)]"

definition settle_accounts :: "front_clock \<Rightarrow> accounts_page \<Rightarrow> accounts_page" where
  "settle_accounts clk p =
     p\<lparr>ap_page := current_page (ap_applied p) (filterKey p) (ap_page p)
          (page_count (int (length (filteredRows clk p))) (ap_per p)),
       ap_applied := filterKey p\<rparr>"

definition pagedRows :: "front_clock \<Rightarrow> accounts_page \<Rightarrow> row list" where
  "pagedRows clk p = page_slice (ap_page p) (ap_per p) (filteredRows clk p)"

definition clear_filters :: "accounts_page \<Rightarrow> accounts_page" where
  "clear_filters p = p\<lparr>ap_query := [], ap_filter := All, ap_provider := []\<rparr>"

lemma settle_frame [simp]: "filteredRows clk (settle_accounts c p) = filteredRows clk p"
  "filterKey (settle_accounts c p) = filterKey p" "ap_per (settle_accounts c p) = ap_per p"
  by (simp_all add: settle_accounts_def filteredRows_def displayRows_def filterKey_def)

interpretation accounts_pager: pager ap_page "\<lambda>p. int (length (filteredRows clk p))" ap_per filterKey ap_applied
    "settle_accounts clk" for clk
  by unfold_locales (simp_all, simp_all add: settle_accounts_def)

text \<open>
  Whatever page was chosen and however the accounts and the filters have changed since, the page
  shows accounts as long as one matches the filters, and turning over all pages shows every
  matching account, in order.
\<close>

theorem account_pages_cover:
  assumes "0 < ap_per p"
  shows "(pagedRows clk (settle_accounts clk p) = [] \<longleftrightarrow> filteredRows clk p = [])
    \<and> concat (map (\<lambda>n. pagedRows clk (p\<lparr>ap_page := n\<rparr>)) [1..page_count (int (length (filteredRows clk p))) (ap_per p)])
        = filteredRows clk p"
proof
  have "filteredRows clk (p\<lparr>ap_page := n\<rparr>) = filteredRows clk p" for n by (simp add: filteredRows_def displayRows_def)
  then show "concat (map (\<lambda>n. pagedRows clk (p\<lparr>ap_page := n\<rparr>))
      [1..page_count (int (length (filteredRows clk p))) (ap_per p)]) = filteredRows clk p"
    using slices_cover [OF assms, of "filteredRows clk p"] by (simp add: pagedRows_def)
  show "pagedRows clk (settle_accounts clk p) = [] \<longleftrightarrow> filteredRows clk p = []"
  proof (cases "filteredRows clk p = []")
    case True
    then show ?thesis by (simp add: pagedRows_def page_slice_def)
  next
    case False
    with assms accounts_pager.offset_inside [of p clk]
    have "nat (page_offset (ap_page (settle_accounts clk p)) (ap_per p)) < length (filteredRows clk p)" by simp
    with assms False show ?thesis by (simp add: pagedRows_def page_slice_def)
  qed
qed

definition initial_accounts :: accounts_page where
  "initial_accounts = \<lparr>ap_rows = [], ap_loading = True, ap_query = [], ap_filter = All, ap_provider = [], ap_page = 1,
     ap_per = 20, ap_applied = filter_key [[], js ''all'', [], js ''20''],
     ap_over = \<lparr>ov_enabled = [], ov_name = [], ov_inflight = [], ov_priority = []\<rparr>, ap_busy = None, ap_notes = [],
     ap_urls = [], ap_pats = [], ap_callbacks = [], ap_auth_panel = None, ap_confirm = None, ap_toasts = initial_store,
     ap_credits = False, ap_bundle = None, ap_detection = None, ap_file = [], ap_batch_open = False, ap_importing = False\<rparr>"

theorem account_pages_cover_witness:
  "pagedRows clk (settle_accounts clk (initial_accounts\<lparr>ap_page := 7\<rparr>)) = []
    \<longleftrightarrow> filteredRows clk (initial_accounts\<lparr>ap_page := 7\<rparr>) = []"
  using account_pages_cover [of "initial_accounts\<lparr>ap_page := 7\<rparr>"] by (simp add: initial_accounts_def)

section \<open>Operations on an account\<close>

definition put_note :: "jstr \<Rightarrow> jstr \<Rightarrow> accounts_page \<Rightarrow> accounts_page" where
  "put_note i msg p = p\<lparr>ap_notes := aput i msg (ap_notes p)\<rparr>"

definition reload_answer :: "row list \<Rightarrow> accounts_page \<Rightarrow> accounts_page" where
  "reload_answer rs p = p\<lparr>ap_rows := rs, ap_loading := False\<rparr>"

definition reload_failed :: "accounts_page \<Rightarrow> accounts_page" where
  "reload_failed p = p\<lparr>ap_loading := False\<rparr>"

definition show_toast :: "string \<Rightarrow> toast_type \<Rightarrow> jstr \<Rightarrow> jstr option \<Rightarrow> accounts_page \<Rightarrow> accounts_page" where
  "show_toast key ty title desc p =
     p\<lparr>ap_toasts := snd (toast \<lparr>ti_id = Some (js key), ti_type = Some ty, ti_title = title, ti_description = desc,
        ti_duration = None\<rparr> (ap_toasts p))\<rparr>"

text \<open>\<open>run\<close>: its begin, and its end with the error of the action, if any.\<close>

definition run_begin :: "jstr \<Rightarrow> string \<Rightarrow> accounts_page \<Rightarrow> accounts_page" where
  "run_begin i kind p = put_note i [] (p\<lparr>ap_busy := Some (i, kind)\<rparr>)"

definition run_end :: "jstr \<Rightarrow> jstr option \<Rightarrow> accounts_page \<Rightarrow> accounts_page" where
  "run_end i err p = (case err of None \<Rightarrow> p | Some msg \<Rightarrow> put_note i msg p)\<lparr>ap_busy := None\<rparr>"

definition map_over :: "(overlays \<Rightarrow> overlays) \<Rightarrow> accounts_page \<Rightarrow> accounts_page" where
  "map_over f p = p\<lparr>ap_over := f (ap_over p)\<rparr>"

definition toggle_begin :: "jstr \<Rightarrow> bool \<Rightarrow> accounts_page \<Rightarrow> accounts_page" where
  "toggle_begin i e p = run_begin i ''toggle'' (map_over (\<lambda>ov. ov\<lparr>ov_enabled := aput i e (ov_enabled ov)\<rparr>) p)"

text \<open>How an update and the reload after it end: it is refused, the reload is, or the rows are there.\<close>

datatype saved = Refused jstr | Unreloaded jstr | Reloaded "row list"

definition saved_error :: "saved \<Rightarrow> jstr option" where
  "saved_error r = (case r of Refused msg \<Rightarrow> Some msg | Unreloaded msg \<Rightarrow> Some msg | Reloaded rs \<Rightarrow> None)"

definition reloaded :: "saved \<Rightarrow> accounts_page \<Rightarrow> accounts_page" where
  "reloaded r p = (case r of Refused msg \<Rightarrow> p | Unreloaded msg \<Rightarrow> reload_failed p | Reloaded rs \<Rightarrow> reload_answer rs p)"

definition saved_rows :: "jstr \<Rightarrow> saved \<Rightarrow> accounts_page \<Rightarrow> accounts_page" where
  "saved_rows i r p = run_end i (saved_error r) (reloaded r p)"

definition toggle_end :: "jstr \<Rightarrow> saved \<Rightarrow> accounts_page \<Rightarrow> accounts_page" where
  "toggle_end i r p = map_over (\<lambda>ov. ov\<lparr>ov_enabled := remove_id i (ov_enabled ov)\<rparr>) (saved_rows i r p)"

definition save_begin :: "jstr \<Rightarrow> jstr \<Rightarrow> jsnum \<Rightarrow> jsnum \<Rightarrow> accounts_page \<Rightarrow> accounts_page" where
  "save_begin i nm inflight priority p =
     (if i = [] then p
      else map_over (\<lambda>ov. ov\<lparr>ov_name := aput i nm (ov_name ov), ov_inflight := aput i inflight (ov_inflight ov),
          ov_priority := aput i priority (ov_priority ov)\<rparr>) (p\<lparr>ap_busy := Some (i, ''settings'')\<rparr>))"

definition save_end :: "jstr \<Rightarrow> saved \<Rightarrow> accounts_page \<Rightarrow> accounts_page" where
  "save_end i r p =
     map_over (\<lambda>ov. ov\<lparr>ov_name := remove_id i (ov_name ov), ov_inflight := remove_id i (ov_inflight ov),
         ov_priority := remove_id i (ov_priority ov)\<rparr>)
       ((reloaded r p)\<lparr>ap_busy := None\<rparr>)"

lemma overlay_id [simp]: "rw_id (overlay ov r) = rw_id r"
  by (simp add: overlay_def Let_def split: option.split)

lemma overlay_enabled:
  "map_of (ov_enabled ov) (rw_id r) = Some e \<Longrightarrow> a_enabled (rw_account (overlay ov r)) = e"
  by (simp add: overlay_def Let_def split: option.split)

text \<open>While a switch is saved the row shows the new value; when it has ended, for good or ill, it shows the server's.\<close>

lemma toggle_shown:
  assumes "r \<in> set (displayRows (toggle_begin i e p))" and "rw_id r = i"
  shows "a_enabled (rw_account r) = e"
proof -
  let ?ov = "(ap_over p)\<lparr>ov_enabled := aput i e (ov_enabled (ap_over p))\<rparr>"
  from assms(1) obtain x where x: "r = overlay ?ov x"
    by (auto simp: displayRows_def toggle_begin_def map_over_def run_begin_def put_note_def)
  with assms(2) have "map_of (ov_enabled ?ov) (rw_id x) = Some e" by simp
  then show ?thesis unfolding x by (rule overlay_enabled)
qed

lemma settings_settle:
  "map_of (ov_enabled (ap_over (toggle_end i r p))) i = None
   \<and> map_of (ov_name (ap_over (save_end i r p))) i = None \<and> map_of (ov_inflight (ap_over (save_end i r p))) i = None
   \<and> map_of (ov_priority (ap_over (save_end i r p))) i = None
   \<and> ap_busy (toggle_end i r p) = None \<and> ap_busy (save_end i r p) = None
   \<and> (ap_rows (toggle_end i r p) = (case r of Reloaded rs \<Rightarrow> rs | _ \<Rightarrow> ap_rows p))
   \<and> map_of (ap_notes (toggle_end i r p)) i = (case saved_error r of None \<Rightarrow> map_of (ap_notes p) i | Some msg \<Rightarrow> Some msg)"
  by (cases r) (simp_all add: toggle_end_def save_end_def map_over_def saved_rows_def saved_error_def reloaded_def run_end_def
      reload_answer_def reload_failed_def put_note_def)

text \<open>
  The page has one busy mark: when an operation ends, the mark of another account whose operation still
  runs is gone as well.
\<close>

lemma busy_mark_lost:
  "let p = run_begin (js ''b'') ''toggle'' (run_begin (js ''a'') ''delete'' initial_accounts);
       q = run_end (js ''b'') None p
   in ap_busy p = Some (js ''b'', ''toggle'') \<and> ap_busy q = None"
  by (simp add: run_begin_def run_end_def put_note_def Let_def)

subsection \<open>Signing in\<close>

definition device_begin :: "translate \<Rightarrow> jstr \<Rightarrow> accounts_page \<Rightarrow> accounts_page" where
  "device_begin t i p = put_note i (t ''wizardStartingSession'' []) (run_begin i ''device'' (p\<lparr>ap_auth_panel := Some i\<rparr>))"

definition device_started :: "jstr \<Rightarrow> jstr option \<Rightarrow> accounts_page \<Rightarrow> accounts_page" where
  "device_started i url p = (if str_or_empty url = [] then p else p\<lparr>ap_urls := aput i (str_or_empty url) (ap_urls p)\<rparr>)"

record login_status =
  ls_status :: "jstr option"
  ls_message :: "jstr option"

definition login_over :: "login_status \<Rightarrow> bool" where
  "login_over l \<longleftrightarrow> ls_status l = Some (js ''ok'') \<or> ls_status l = Some (js ''error'')"

text \<open>The polls of one sign-in: at most sixty answers, up to the first that ends it.\<close>

fun poll_login :: "translate \<Rightarrow> jstr \<Rightarrow> nat \<Rightarrow> login_status list \<Rightarrow> accounts_page \<Rightarrow> accounts_page" where
  "poll_login t i 0 ls p = p"
| "poll_login t i (Suc n) [] p = p"
| "poll_login t i (Suc n) (l # ls) p =
     (let q = put_note i (if str_or_empty (ls_message l) = [] then t ''waitingQoderLogin'' [] else str_or_empty (ls_message l)) p in
      if login_over l then q else poll_login t i n ls q)"

definition login_attempts :: nat where
  "login_attempts = 60"

definition callback_begin :: "translate \<Rightarrow> jstr \<Rightarrow> accounts_page \<Rightarrow> accounts_page" where
  "callback_begin t i p =
     (if trim (opt_or (map_of (ap_callbacks p) i) []) = [] then put_note i (t ''wizardCallbackPh'' []) p
      else put_note i (t ''wizardStartingSession'' []) (run_begin i ''callback'' p))"

text \<open>
  The callback was accepted; then the accounts are loaded again and this one is refreshed. At the end,
  which has an error when one of the first two requests was refused, the note is cleared.
\<close>

definition callback_sent :: "jstr \<Rightarrow> accounts_page \<Rightarrow> accounts_page" where
  "callback_sent i p = p\<lparr>ap_callbacks := aput i [] (ap_callbacks p)\<rparr>"

definition callback_end :: "jstr \<Rightarrow> jstr option \<Rightarrow> accounts_page \<Rightarrow> accounts_page" where
  "callback_end i err p = (case err of
     Some msg \<Rightarrow> run_end i err p
   | None \<Rightarrow>
       (let q = run_end i None p in
        put_note i [] (q\<lparr>ap_auth_panel := (if ap_auth_panel q = Some i then None else ap_auth_panel q)\<rparr>)))"

definition pat_begin :: "translate \<Rightarrow> jstr \<Rightarrow> accounts_page \<Rightarrow> accounts_page" where
  "pat_begin t i p =
     (if trim (opt_or (map_of (ap_pats p) i) []) = [] then put_note i (t ''pastePatFirst'' []) p
      else put_note i (t ''wizardStartingSession'' []) (run_begin i ''pat'' p))"

definition pat_sent :: "jstr \<Rightarrow> accounts_page \<Rightarrow> accounts_page" where
  "pat_sent i p = p\<lparr>ap_pats := aput i [] (ap_pats p)\<rparr>"

text \<open>The daily check-in reloads the accounts whether it worked or not; an error of the reload replaces its own.\<close>

definition checkin_end :: "jstr \<Rightarrow> jstr option \<Rightarrow> jstr + row list \<Rightarrow> accounts_page \<Rightarrow> accounts_page" where
  "checkin_end i err reload p = (case reload of
     Inr rs \<Rightarrow> run_end i err (reload_answer rs p)
   | Inl msg \<Rightarrow> run_end i (Some msg) (reload_failed p))"

definition delete_begin :: "accounts_page \<Rightarrow> accounts_page" where
  "delete_begin p = (case find (\<lambda>r. Some (rw_id r) = ap_confirm p) (displayRows p) of
     None \<Rightarrow> p | Some r \<Rightarrow> run_begin (rw_id r) ''delete'' (p\<lparr>ap_confirm := None\<rparr>))"

definition delete_end :: "translate \<Rightarrow> jstr \<Rightarrow> saved \<Rightarrow> accounts_page \<Rightarrow> accounts_page" where
  "delete_end t i r p =
     (if saved_error r \<noteq> None then saved_rows i r p
      else (saved_rows i r p)\<lparr>ap_toasts := snd (toast \<lparr>ti_id = None, ti_type = Some Success,
        ti_title = t ''toastAccountDeleted'' [], ti_description = None, ti_duration = None\<rparr> (ap_toasts p))\<rparr>)"

definition export_end :: "translate \<Rightarrow> jstr \<Rightarrow> jstr option \<Rightarrow> accounts_page \<Rightarrow> accounts_page" where
  "export_end t i err p = (case err of
     None \<Rightarrow> run_end i None (put_note i (t ''credentialCopied'' []) p) | Some msg \<Rightarrow> run_end i err p)"

section \<open>Refreshing in batches\<close>

definition ACCOUNT_REFRESH_BATCH_SIZE :: nat where
  "ACCOUNT_REFRESH_BATCH_SIZE = 2"

text \<open>\<open>[...new Set(ids)]\<close> keeps the first of equal ids.\<close>

definition unique_ids :: "jstr list \<Rightarrow> jstr list" where
  "unique_ids is = fold sadd is []"

function batches :: "nat \<Rightarrow> 'a list \<Rightarrow> 'a list list" where
  "batches n xs = (if n = 0 \<or> xs = [] then [] else take n xs # batches n (drop n xs))"
  by pat_completeness auto
termination
  by (relation "measure (\<lambda>(n, xs). length xs)") auto

declare batches.simps [simp del]

lemma concat_batches: "0 < n \<Longrightarrow> concat (batches n xs) = xs"
proof (induction n xs rule: batches.induct)
  case (1 n xs)
  then show ?case by (subst batches.simps) simp
qed

lemma batches_small: "b \<in> set (batches n xs) \<Longrightarrow> b \<noteq> [] \<and> length b \<le> n"
proof (induction n xs rule: batches.induct)
  case (1 n xs)
  from "1.prems" have "n \<noteq> 0 \<and> xs \<noteq> []" by (subst (asm) batches.simps) (simp split: if_splits)
  with 1 show ?case by (subst (asm) (2) batches.simps) auto
qed

text \<open>
  A run of \<open>refreshAccountsInBatches\<close>: the requests in flight (\<open>Promise.all\<close>), the batches to come, and
  as a log the ids asked for, in order.
\<close>

record refresh =
  rf_flying :: "jstr list"
  rf_rest :: "jstr list list"
  rf_asked :: "jstr list"

definition next_batch :: "refresh \<Rightarrow> refresh" where
  "next_batch r = (case rf_rest r of
     [] \<Rightarrow> r | b # bs \<Rightarrow> r\<lparr>rf_flying := b, rf_rest := bs, rf_asked := rf_asked r @ b\<rparr>)"

definition refresh_start :: "jstr list \<Rightarrow> refresh" where
  "refresh_start is =
     next_batch \<lparr>rf_flying = [], rf_rest = batches ACCOUNT_REFRESH_BATCH_SIZE (unique_ids is), rf_asked = []\<rparr>"

definition refresh_settled :: "jstr \<Rightarrow> refresh \<Rightarrow> refresh" where
  "refresh_settled i r =
     (if i \<notin> set (rf_flying r) then r
      else (let r1 = r\<lparr>rf_flying := remove1 i (rf_flying r)\<rparr> in if rf_flying r1 = [] then next_batch r1 else r1))"

definition refresh_done :: "refresh \<Rightarrow> bool" where
  "refresh_done r \<longleftrightarrow> rf_flying r = [] \<and> rf_rest r = []"

text \<open>What a settled request does to the page: the row is replaced, or the error becomes its note.\<close>

definition refresh_result :: "jstr \<Rightarrow> jstr + row \<Rightarrow> accounts_page \<Rightarrow> accounts_page" where
  "refresh_result i r p = (case r of
     Inr x \<Rightarrow> p\<lparr>ap_rows := map (\<lambda>y. if rw_id y = i then x else y) (ap_rows p)\<rparr>
   | Inl msg \<Rightarrow> put_note i msg p)"

inductive refreshing :: "jstr list \<Rightarrow> refresh \<Rightarrow> bool" for "is" where
  begun: "refreshing is (refresh_start is)"
| settled: "refreshing is r \<Longrightarrow> i \<in> set (rf_flying r) \<Longrightarrow> refreshing is (refresh_settled i r)"

definition refresh_ok :: "jstr list \<Rightarrow> refresh \<Rightarrow> bool" where
  "refresh_ok is r \<longleftrightarrow> rf_asked r @ concat (rf_rest r) = unique_ids is \<and> length (rf_flying r) \<le> ACCOUNT_REFRESH_BATCH_SIZE
     \<and> (\<forall>b \<in> set (rf_rest r). b \<noteq> [] \<and> length b \<le> ACCOUNT_REFRESH_BATCH_SIZE)
     \<and> (rf_flying r = [] \<longrightarrow> rf_rest r = [])"

lemma next_batch_ok:
  assumes "rf_asked r @ concat (rf_rest r) = unique_ids is"
    and "\<forall>b \<in> set (rf_rest r). b \<noteq> [] \<and> length b \<le> ACCOUNT_REFRESH_BATCH_SIZE" and "rf_flying r = []"
  shows "refresh_ok is (next_batch r)"
  using assms by (cases "rf_rest r") (simp_all add: next_batch_def refresh_ok_def)

lemma refreshing_ok: "refreshing is r \<Longrightarrow> refresh_ok is r"
proof (induction rule: refreshing.induct)
  case begun
  show ?case
    unfolding refresh_start_def
    by (rule next_batch_ok) (use batches_small in \<open>auto simp: concat_batches ACCOUNT_REFRESH_BATCH_SIZE_def\<close>)
next
  case (settled r i)
  let ?r = "r\<lparr>rf_flying := remove1 i (rf_flying r)\<rparr>"
  show ?case
  proof (cases "remove1 i (rf_flying r) = []")
    case True
    with settled have "refresh_settled i r = next_batch ?r" by (simp add: refresh_settled_def Let_def)
    moreover have "refresh_ok is (next_batch ?r)"
      by (rule next_batch_ok) (use settled.IH True in \<open>simp_all add: refresh_ok_def\<close>)
    ultimately show ?thesis by simp
  next
    case False
    with settled have "refresh_settled i r = ?r" by (simp add: refresh_settled_def Let_def)
    moreover have "length (remove1 i (rf_flying r)) \<le> length (rf_flying r)" by (simp add: length_remove1)
    ultimately show ?thesis using settled.IH False by (simp add: refresh_ok_def)
  qed
qed

lemma unique_ids_distinct: "distinct (unique_ids is)" "set (unique_ids is) = set is"
proof -
  have "distinct xs \<Longrightarrow> distinct (fold sadd ys xs)" "set (fold sadd ys xs) = set xs \<union> set ys" for xs ys :: "jstr list"
    by (induction ys arbitrary: xs) (auto simp: distinct_sadd)
  from this(1) [of "[]" "is"] this(2) [of "is" "[]"] show "distinct (unique_ids is)" "set (unique_ids is) = set is" by (simp_all add: unique_ids_def)
qed

definition refresh_left :: "refresh \<Rightarrow> nat" where
  "refresh_left r = length (rf_flying r) + length (concat (rf_rest r))"

text \<open>
  C37: A refresh of the accounts never has more than two requests in flight, asks for no account twice, has
  asked for every one when it ends, and every answer brings it closer to its end.
\<close>

theorem refresh_in_batches:
  assumes "refreshing is r"
  shows "length (rf_flying r) \<le> 2 \<and> distinct (rf_asked r) \<and> prefix (rf_asked r) (unique_ids is)
    \<and> (refresh_done r \<longrightarrow> set (rf_asked r) = set is)
    \<and> (\<not> refresh_done r \<longrightarrow> rf_flying r \<noteq> [])
    \<and> (\<forall>i \<in> set (rf_flying r). refresh_left (refresh_settled i r) < refresh_left r)"
proof -
  from refreshing_ok [OF assms] have ok: "refresh_ok is r" .
  then have asked: "rf_asked r @ concat (rf_rest r) = unique_ids is" by (simp add: refresh_ok_def)
  then have "distinct (rf_asked r)" "prefix (rf_asked r) (unique_ids is)"
    using unique_ids_distinct(1) [of "is"] by (metis distinct_append, metis prefixI)
  moreover have "set (rf_asked r) = set is" if "refresh_done r"
    using asked that unique_ids_distinct(2) [of "is"] by (simp add: refresh_done_def)
  moreover have "refresh_left (refresh_settled i r) < refresh_left r" if i: "i \<in> set (rf_flying r)" for i
  proof -
    have len: "length (remove1 i (rf_flying r)) < length (rf_flying r)"
      using i by (simp add: length_remove1) (metis One_nat_def diff_less length_pos_if_in_set zero_less_one)
    show ?thesis
    proof (cases "remove1 i (rf_flying r) = []")
      case True
      with i have "length (rf_flying r) = 1" by (metis One_nat_def Suc_pred length_pos_if_in_set length_remove1 list.size(3))
      with i True show ?thesis
        by (cases "rf_rest r") (simp_all add: refresh_settled_def next_batch_def refresh_left_def Let_def)
    next
      case False
      with i len show ?thesis by (simp add: refresh_settled_def refresh_left_def Let_def)
    qed
  qed
  ultimately show ?thesis
    using ok by (auto simp: refresh_ok_def refresh_done_def ACCOUNT_REFRESH_BATCH_SIZE_def)
qed

theorem refresh_in_batches_witness:
  "length (rf_flying (refresh_start [js ''a'', js ''b'', js ''a'', js ''c''])) \<le> 2
   \<and> distinct (rf_asked (refresh_start [js ''a'', js ''b'', js ''a'', js ''c'']))"
  using refresh_in_batches [OF refreshing.begun [of "[js ''a'', js ''b'', js ''a'', js ''c'']"]] by blast

text \<open>The two callers. No failure of a request reaches them: their last notice is always the one of success.\<close>

definition refresh_account_begin :: "translate \<Rightarrow> jstr \<Rightarrow> accounts_page \<Rightarrow> accounts_page" where
  "refresh_account_begin t i p =
     (let q = p\<lparr>ap_toasts := snd (toast \<lparr>ti_id = Some (js ''refresh-'' @ i), ti_type = Some Front_Toast.Loading,
          ti_title = t ''toastRefreshingAccount'' [], ti_description = None, ti_duration = None\<rparr> (ap_toasts p))\<rparr> in
      q\<lparr>ap_busy := Some (i, ''refresh''), ap_notes := remove_id i (ap_notes q)\<rparr>)"

definition refresh_account_end :: "translate \<Rightarrow> jstr \<Rightarrow> accounts_page \<Rightarrow> accounts_page" where
  "refresh_account_end t i p =
     p\<lparr>ap_toasts := snd (toast \<lparr>ti_id = Some (js ''refresh-'' @ i), ti_type = Some Success,
          ti_title = t ''toastAccountRefreshed'' [], ti_description = None, ti_duration = None\<rparr> (ap_toasts p)),
       ap_busy := None\<rparr>"

definition refresh_credits_begin :: "translate \<Rightarrow> accounts_page \<Rightarrow> accounts_page \<times> refresh" where
  "refresh_credits_begin t p =
     (show_toast ''refresh-credits'' Front_Toast.Loading (t ''toastRefreshingCredits'' []) None (p\<lparr>ap_credits := True\<rparr>),
      refresh_start (map rw_id (ap_rows p)))"

definition refresh_credits_end :: "translate \<Rightarrow> accounts_page \<Rightarrow> accounts_page" where
  "refresh_credits_end t p =
     (show_toast ''refresh-credits'' Success (t ''toastCreditsRefreshed'' []) None p)\<lparr>ap_credits := False\<rparr>"

text \<open>A refused refresh is announced as done, while the card shows the error.\<close>

lemma refused_refresh_announced:
  "let t = (\<lambda>k _. js k);
       p = refresh_account_end t (js ''a'') (refresh_result (js ''a'') (Inl (js ''refused''))
         (refresh_account_begin t (js ''a'') initial_accounts))
   in map_of (ap_notes p) (js ''a'') = Some (js ''refused'')
     \<and> map (\<lambda>i. (tt_id i, tt_type i, tt_title i)) (st_items (ap_toasts p))
         = [(js ''refresh-a'', Success, js ''toastAccountRefreshed'')]"
  by code_simp

section \<open>Importing a bundle\<close>

definition close_batch :: "accounts_page \<Rightarrow> accounts_page" where
  "close_batch p = p\<lparr>ap_batch_open := False, ap_detection := None, ap_bundle := None, ap_file := []\<rparr>"

definition closeBatchConfirm :: "accounts_page \<Rightarrow> accounts_page" where
  "closeBatchConfirm p = (if ap_importing p then p else close_batch p)"

definition plain_toast :: "toast_type \<Rightarrow> jstr \<Rightarrow> jstr option \<Rightarrow> accounts_page \<Rightarrow> accounts_page" where
  "plain_toast ty title desc p =
     p\<lparr>ap_toasts := snd (toast \<lparr>ti_id = None, ti_type = Some ty, ti_title = title, ti_description = desc,
        ti_duration = None\<rparr> (ap_toasts p))\<rparr>"

text \<open>A picked file: its name and its text, or the message of the error that reading it gave.\<close>

definition onBatchImportFile :: "translate \<Rightarrow> jstr \<Rightarrow> jstr + jstr \<Rightarrow> accounts_page \<Rightarrow> accounts_page" where
  "onBatchImportFile t nm content p = (case content of
     Inl msg \<Rightarrow>
       (if msg = js ''bad_json'' then plain_toast Error (t ''wizardBadJson'' []) None p
        else plain_toast Error (t ''batchImportUnrecognized'' []) (Some msg) p)
   | Inr raw \<Rightarrow> (case parseImportBundleText raw of
       None \<Rightarrow> plain_toast Error (t ''wizardBadJson'' []) None p
     | Some b \<Rightarrow>
         if str_or_empty (de_provider (detectImportBundle b)) = []
         then plain_toast Error (t ''batchImportUnrecognized'' []) None p
         else p\<lparr>ap_bundle := Some b, ap_detection := Some (detectImportBundle b), ap_file := nm, ap_batch_open := True\<rparr>))"

definition batch_ready :: "accounts_page \<Rightarrow> bool" where
  "batch_ready p \<longleftrightarrow> ap_bundle p \<noteq> None \<and> (case ap_detection p of None \<Rightarrow> False | Some d \<Rightarrow> de_supported d) \<and> \<not> ap_importing p"

definition batch_begin :: "translate \<Rightarrow> accounts_page \<Rightarrow> accounts_page" where
  "batch_begin t p =
     (if \<not> batch_ready p then p
      else show_toast ''batch-import-accounts'' Front_Toast.Loading (t ''batchImportLoading'' []) None (p\<lparr>ap_importing := True\<rparr>))"

definition import_toast :: "jsnum \<Rightarrow> jsnum \<Rightarrow> toast_type" where
  "import_toast succeeded failed =
     (if \<not> num_le failed (Fin 0) \<and> failed \<noteq> NaN \<and> succeeded = Fin 0 then Error
      else if \<not> num_le failed (Fin 0) \<and> failed \<noteq> NaN then Info else Success)"

definition batch_answered :: "(string \<Rightarrow> jstr) \<Rightarrow> jsval \<Rightarrow> accounts_page \<Rightarrow> accounts_page \<times> bool" where
  "batch_answered t v p =
     (let (succeeded, failed, message) = summarizeWorkbuddyImportResult v t in
      (close_batch (show_toast ''batch-import-accounts'' (import_toast succeeded failed) message None p),
       \<not> num_le succeeded (Fin 0) \<and> succeeded \<noteq> NaN))"

definition batch_failed :: "translate \<Rightarrow> jstr \<Rightarrow> accounts_page \<Rightarrow> accounts_page" where
  "batch_failed t msg p = show_toast ''batch-import-accounts'' Error (t ''toastFailed'' []) (Some msg) p"

definition batch_end :: "accounts_page \<Rightarrow> accounts_page" where
  "batch_end p = p\<lparr>ap_importing := False\<rparr>"

text \<open>A dialog that was opened has the bundle and what was detected of it, and cannot be closed while it imports.\<close>

definition batch_ok :: "accounts_page \<Rightarrow> bool" where
  "batch_ok p \<longleftrightarrow> (ap_batch_open p \<longrightarrow> (\<exists>b. ap_bundle p = Some b \<and> ap_detection p = Some (detectImportBundle b)
     \<and> str_or_empty (de_provider (detectImportBundle b)) \<noteq> []))"

lemma batch_file_ok: "batch_ok p \<Longrightarrow> batch_ok (onBatchImportFile t nm c p)"
  by (auto simp: batch_ok_def onBatchImportFile_def plain_toast_def split: sum.split option.split)

lemma batch_close_ok: "batch_ok p \<Longrightarrow> batch_ok (closeBatchConfirm p)" "ap_importing p \<Longrightarrow> closeBatchConfirm p = p"
  by (simp_all add: batch_ok_def closeBatchConfirm_def close_batch_def)

section \<open>The policy of the daily check-in\<close>

text \<open>A provider with its regions; a region may have a check-in in a time zone. Then the settings' own.\<close>

type_synonym provider_policies = "(jstr \<times> (jstr \<times> jstr option) list) list"

definition checkinPolicyFor :: "provider_policies \<Rightarrow> row \<Rightarrow> jstr option" where
  "checkinPolicyFor ps r =
     Option.bind (find (\<lambda>p. Some (fst p) = rw_provider r) ps) (\<lambda>p. Option.bind (find (\<lambda>g. Some (fst g) = rw_region r) (snd p)) snd)"

definition checkinTimezoneFor :: "provider_policies \<Rightarrow> jstr option \<Rightarrow> row \<Rightarrow> jstr option" where
  "checkinTimezoneFor ps settings r =
     (if checkinPolicyFor ps r = Some (js ''Local'') then settings else checkinPolicyFor ps r)"

text \<open>A refusal of the refresh that follows a callback is noted, and the end of the callback wipes it out.\<close>

lemma refused_refresh_wiped:
  "map_of (ap_notes (refresh_result i (Inl msg) p)) i = Some msg"
  "map_of (ap_notes (callback_end i None (refresh_result i (Inl msg) p))) i = Some []"
  by (simp_all add: refresh_result_def callback_end_def run_end_def put_note_def Let_def)

end
