(* ===== verification/Front_Overview.thy ===== *)
theory Front_Overview
  imports Front_Logs Front_Format
begin

text \<open>
  The overview page (\<open>frontend/src/pages/OverviewPage.tsx\<close>) with its hooks: the sign-in key
  (\<open>useApiKey\<close>), the loading of the summary (\<open>useOverview\<close>), the polling of the live numbers (\<open>useLive\<close>),
  the loads of the statistics and what the page derives from them. Answers of the interface are
  arguments of the steps; numbers of the statistics are the finite numbers JSON has.
\<close>

section \<open>Labels\<close>

definition familyLabel :: "translate \<Rightarrow> jstr option \<Rightarrow> jstr" where
  "familyLabel t p =
     (if str_or_empty p = [] \<or> p = Some (js ''(unknown)'') then t ''statsUnknown'' [] else accountProviderFamilyLabel t p)"

text \<open>An account of the page: the fields the page reads.\<close>

record pool_account =
  pa_id :: jstr
  pa_name :: "jstr option"
  pa_provider :: "jstr option"
  pa_ready :: bool
  pa_hot :: bool
  pa_down_until :: "jstr option"
  pa_cooldown_until :: "jstr option"
  pa_in_flight :: "jsnum option"
  pa_max_inflight :: "jsnum option"

definition accountLabel :: "pool_account list \<Rightarrow> jstr \<Rightarrow> jstr \<Rightarrow> jstr" where
  "accountLabel accs i unassigned =
     (if i = [] \<or> i = js ''(unassigned)'' then unassigned
      else (let nm = str_or_empty (Option.bind (find (\<lambda>a. pa_id a = i) accs) pa_name) in if nm = [] then i else nm))"

definition error_labels :: "(string \<times> string) list" where
  "error_labels =
     [(''quota'', ''logsKindQuota''), (''rate_limit'', ''logsKindRateLimit''), (''auth'', ''logsKindAuth''),
      (''not_ready'', ''logsKindNotReady''), (''unavailable'', ''logsKindUnavailable''),
      (''invalid_request'', ''logsKindInvalidRequest''), (''model_not_available'', ''logsKindModelNotAvailable'')]"

definition LOGS_ERROR_KINDS :: "string list" where
  "LOGS_ERROR_KINDS = [''quota'', ''rate_limit'', ''auth'', ''not_ready'', ''unavailable'', ''invalid_request'', ''model_not_available'']"

definition errorLabel :: "translate \<Rightarrow> jstr \<Rightarrow> jstr" where
  "errorLabel t kind = (case find (\<lambda>p. js (fst p) = kind) error_labels of None \<Rightarrow> kind | Some p \<Rightarrow> t (snd p) [])"

section \<open>Times and tones\<close>

definition ratio :: "rat \<Rightarrow> rat \<Rightarrow> rat option" where
  "ratio part whole = (if 0 < whole then Some (part / whole) else None)"

definition seconds_left :: "(jstr \<Rightarrow> rat option) \<Rightarrow> jstr option \<Rightarrow> rat \<Rightarrow> int option" where
  "seconds_left parse until now =
     (if str_or_empty until = [] then None
      else case parse (str_or_empty until) of
        None \<Rightarrow> None
      | Some e \<Rightarrow> (let left = max 0 (math_round ((e - now) / 1000)) in if left \<le> 0 then None else Some left))"

definition remaining_text :: "int \<Rightarrow> jstr" where
  "remaining_text left =
     (let h = left div 3600; m = (left mod 3600) div 60; sec = left mod 60 in
      if h \<noteq> 0 then dec_digits h @ js ''h '' @ dec_digits m @ js ''m''
      else if m \<noteq> 0 then dec_digits m @ js ''m '' @ pad2 (dec_digits sec) @ js ''s''
      else dec_digits sec @ js ''s'')"

definition formatRemaining :: "(jstr \<Rightarrow> rat option) \<Rightarrow> jstr option \<Rightarrow> rat \<Rightarrow> jstr option" where
  "formatRemaining parse until now = map_option remaining_text (seconds_left parse until now)"

definition cooling_candidates :: "(jstr \<Rightarrow> rat option) \<Rightarrow> rat \<Rightarrow> pool_account \<Rightarrow> jstr list" where
  "cooling_candidates parse now a =
     filter (\<lambda>u. case parse u of None \<Rightarrow> False | Some e \<Rightarrow> now < e)
       (filter (\<lambda>u. u \<noteq> []) [str_or_empty (pa_down_until a), str_or_empty (pa_cooldown_until a)])"

definition later :: "(jstr \<Rightarrow> rat option) \<Rightarrow> jstr \<Rightarrow> jstr \<Rightarrow> jstr" where
  "later parse a b = (if opt_or (parse b) 0 \<le> opt_or (parse a) 0 then a else b)"

definition coolingUntil :: "(jstr \<Rightarrow> rat option) \<Rightarrow> rat \<Rightarrow> pool_account \<Rightarrow> jstr option" where
  "coolingUntil parse now a = (case cooling_candidates parse now a of
     [] \<Rightarrow> None | u # us \<Rightarrow> Some (foldl (later parse) u us))"

text \<open>An account that cools until an instant cools until one that is to come, and the latest of those it has.\<close>

lemma coolingUntil_latest:
  assumes "coolingUntil parse now a = Some u"
  shows "\<exists>e. parse u = Some e \<and> now < e"
    "v \<in> set (cooling_candidates parse now a) \<Longrightarrow> opt_or (parse v) 0 \<le> opt_or (parse u) 0"
proof -
  have fold: "foldl (later parse) w ws \<in> set (w # ws)
      \<and> (\<forall>v \<in> set (w # ws). opt_or (parse v) 0 \<le> opt_or (parse (foldl (later parse) w ws)) 0)" for w ws
  proof (induction ws arbitrary: w)
    case (Cons x ws)
    let ?l = "later parse w x"
    have l: "?l = w \<or> ?l = x" "opt_or (parse w) 0 \<le> opt_or (parse ?l) 0" "opt_or (parse x) 0 \<le> opt_or (parse ?l) 0"
      by (auto simp: later_def)
    with Cons [of ?l] show ?case by (auto intro: order_trans)
  qed simp
  from assms obtain w ws where c: "cooling_candidates parse now a = w # ws" and u: "u = foldl (later parse) w ws"
    by (auto simp: coolingUntil_def split: list.splits)
  from fold [of w ws] have in_c: "u \<in> set (cooling_candidates parse now a)"
    and top: "\<And>v. v \<in> set (cooling_candidates parse now a) \<Longrightarrow> opt_or (parse v) 0 \<le> opt_or (parse u) 0"
    unfolding c u by auto
  from in_c show "\<exists>e. parse u = Some e \<and> now < e" by (auto simp: cooling_candidates_def split: option.splits)
  show "v \<in> set (cooling_candidates parse now a) \<Longrightarrow> opt_or (parse v) 0 \<le> opt_or (parse u) 0" by (rule top)
qed

text \<open>The text of a remaining time counts the seconds that are left, to the minute from an hour on.\<close>

lemma remaining_parts: "left = 3600 * (left div 3600) + 60 * ((left mod 3600) div 60) + left mod 60" for left :: int
proof -
  have "left mod 3600 mod 60 = left mod 60" by (simp add: mod_mod_cancel)
  then show ?thesis using mult_div_mod_eq [of 3600 left] mult_div_mod_eq [of 60 "left mod 3600"] by linarith
qed

definition quotaTone' :: "jsnum option \<Rightarrow> bool \<Rightarrow> tone" where
  "quotaTone' percentage exceeded =
     (if exceeded then Danger else if num_le (Fin 80) (opt_or percentage (Fin 0)) then Warn else Ok_tone)"

definition resourcesTone :: "rat \<Rightarrow> rat \<Rightarrow> tone" where
  "resourcesTone rss cpu =
     (if 2 * 1024 * 1024 * 1024 \<le> rss \<or> 200 \<le> cpu then Danger
      else if 1024 * 1024 * 1024 \<le> rss \<or> 100 \<le> cpu then Warn else Ok_tone)"

section \<open>The pool\<close>

definition cooling :: "(jstr \<Rightarrow> rat option) \<Rightarrow> rat \<Rightarrow> pool_account list \<Rightarrow> (pool_account \<times> jstr) list" where
  "cooling parse now accs =
     concat (map (\<lambda>a. case coolingUntil parse now a of None \<Rightarrow> [] | Some u \<Rightarrow> [(a, u)]) accs)"

definition poolAccounts :: "(jstr \<Rightarrow> rat option) \<Rightarrow> rat \<Rightarrow> pool_account list \<Rightarrow> pool_account list" where
  "poolAccounts parse now accs =
     (let ids = map (\<lambda>p. pa_id (fst p)) (cooling parse now accs) in
      take 6 (filter (\<lambda>a. pa_ready a \<and> pa_id a \<notin> set ids) accs @ filter (\<lambda>a. \<not> pa_ready a \<and> pa_id a \<notin> set ids) accs))"

lemma cooling_ids: "set (map (\<lambda>p. pa_id (fst p)) (cooling parse now accs)) = pa_id ` {a \<in> set accs. coolingUntil parse now a \<noteq> None}"
proof -
  have rows: "set (cooling parse now accs) = {(a, u). a \<in> set accs \<and> coolingUntil parse now a = Some u}"
    by (auto simp: cooling_def split: option.splits)
  show ?thesis by (simp only: set_map rows) force
qed

text \<open>
  The pool list shows at most six accounts, none that is cooling down, and an account that is not ready
  only when every ready one that does not cool is shown.
\<close>

theorem pool_list:
  assumes "distinct (map pa_id accs)"
  shows "length (poolAccounts parse now accs) \<le> 6
    \<and> (\<forall>a \<in> set (poolAccounts parse now accs). a \<in> set accs \<and> coolingUntil parse now a = None)
    \<and> (\<forall>a \<in> set (poolAccounts parse now accs). \<not> pa_ready a \<longrightarrow>
        (\<forall>b \<in> set accs. pa_ready b \<and> coolingUntil parse now b = None \<longrightarrow> b \<in> set (poolAccounts parse now accs)))"
proof -
  let ?idle = "\<lambda>a. pa_id a \<notin> set (map (\<lambda>p. pa_id (fst p)) (cooling parse now accs))"
  have idle: "?idle a \<longleftrightarrow> coolingUntil parse now a = None" if "a \<in> set accs" for a
    using assms that by (auto simp only: cooling_ids distinct_map inj_on_def image_iff mem_Collect_eq)
  let ?ready = "filter (\<lambda>a. pa_ready a \<and> ?idle a) accs" and ?rest = "filter (\<lambda>a. \<not> pa_ready a \<and> ?idle a) accs"
  have pool: "poolAccounts parse now accs = take 6 (?ready @ ?rest)" by (simp add: poolAccounts_def Let_def)
  have "b \<in> set (take 6 (?ready @ ?rest))"
    if a: "a \<in> set (take 6 (?ready @ ?rest))" "\<not> pa_ready a" and b: "b \<in> set ?ready" for a b
  proof (cases "length ?ready \<le> 6")
    case True
    with b show ?thesis by simp
  next
    case False
    with a(1) have "a \<in> set (take 6 ?ready)" by simp
    with a(2) show ?thesis by (auto dest: in_set_takeD)
  qed
  note filled = this
  have shown: "a \<in> set accs \<and> coolingUntil parse now a = None" if "a \<in> set (take 6 (?ready @ ?rest))" for a
    using in_set_takeD [OF that] idle by auto
  have "b \<in> set (take 6 (?ready @ ?rest))"
    if "a \<in> set (take 6 (?ready @ ?rest))" "\<not> pa_ready a" "b \<in> set accs" "pa_ready b" "coolingUntil parse now b = None" for a b
    using filled [OF that(1,2), of b] that(3-5) idle [OF that(3)] by simp
  with shown show ?thesis unfolding pool
    by (intro conjI ballI impI; (simp only: length_take min.cobounded2)?; blast?)
qed

theorem pool_list_witness:
  "let a = \<lparr>pa_id = js ''a'', pa_name = None, pa_provider = None, pa_ready = True, pa_hot = False, pa_down_until = None,
      pa_cooldown_until = None, pa_in_flight = None, pa_max_inflight = None\<rparr>
   in length (poolAccounts (\<lambda>_. None) 0 [a]) \<le> 6"
  using pool_list [of "[\<lparr>pa_id = js ''a'', pa_name = None, pa_provider = None, pa_ready = True, pa_hot = False, pa_down_until = None,
      pa_cooldown_until = None, pa_in_flight = None, pa_max_inflight = None\<rparr>]" "\<lambda>_. None" 0] by simp

definition row_load :: "pool_account \<Rightarrow> (jsnum option \<times> jsnum option) option \<Rightarrow> jsnum \<times> jsnum" where
  "row_load a live =
     (let n = (case live of Some (Some x, _) \<Rightarrow> x | _ \<Rightarrow> opt_or (pa_in_flight a) (Fin 0));
          truthy_num = (\<lambda>v. case v of Some x \<Rightarrow> num_truthy x | None \<Rightarrow> False);
          lm = (case live of Some (_, m) \<Rightarrow> m | None \<Rightarrow> None) in
      (n, if truthy_num lm then the lm else if truthy_num (pa_max_inflight a) then the (pa_max_inflight a) else Fin 4))"

section \<open>Numbers of the window\<close>

record stats_point =
  pt_requests :: rat
  pt_ok :: rat

definition sum_of :: "('p \<Rightarrow> rat) \<Rightarrow> 'p list \<Rightarrow> rat" where
  "sum_of f ps = foldl (\<lambda>n p. n + f p) 0 ps"

definition firstHalf :: "'p list \<Rightarrow> 'p list" where
  "firstHalf ps = take (length ps div 2) ps"

definition secondHalf :: "'p list \<Rightarrow> 'p list" where
  "secondHalf ps = drop (length ps div 2) ps"

definition change :: "rat \<Rightarrow> rat \<Rightarrow> rat option" where
  "change before after = (if 0 < before then Some ((after - before) / before) else None)"

definition requestTrend :: "stats_point list \<Rightarrow> rat option" where
  "requestTrend ps = change (sum_of pt_requests (firstHalf ps)) (sum_of pt_requests (secondHalf ps))"

definition half_rate :: "stats_point list \<Rightarrow> rat option" where
  "half_rate ps = (if sum_of pt_requests ps \<noteq> 0 then Some (sum_of pt_ok ps / sum_of pt_requests ps) else None)"

definition successTrend :: "stats_point list \<Rightarrow> rat option" where
  "successTrend ps = (case (half_rate (firstHalf ps), half_rate (secondHalf ps)) of
     (Some a, Some b) \<Rightarrow> Some (b - a) | _ \<Rightarrow> None)"

definition trend_tone :: "rat \<Rightarrow> string" where
  "trend_tone v = (if \<bar>v\<bar> < 5 / 1000 then ''flat'' else if 0 < v then ''up'' else ''down'')"

definition trend_text :: "rat \<Rightarrow> jstr" where
  "trend_text v = (if 0 < v then js ''+'' else []) @ to_fixed 1 (v * 100) @ js ''%''"

lemma sum_of_halves: "sum_of f (firstHalf ps) + sum_of f (secondHalf ps) = sum_of f ps"
proof -
  have shift: "foldl (\<lambda>n p. n + f p) x qs = x + foldl (\<lambda>n p. n + f p) 0 qs" for x qs
  proof (induction qs arbitrary: x)
    case (Cons q qs)
    from Cons [of "x + f q"] Cons [of "f q"] show ?case by simp
  qed simp
  have "sum_of f ps = sum_of f (firstHalf ps @ secondHalf ps)" by (simp add: firstHalf_def secondHalf_def)
  then show ?thesis using shift [of "sum_of f (firstHalf ps)"] by (simp add: sum_of_def)
qed

text \<open>With counts that are counts, a success rate is one and its change between the halves stays within one.\<close>

lemma successTrend_bounded:
  assumes "\<forall>p \<in> set ps. 0 \<le> pt_ok p \<and> pt_ok p \<le> pt_requests p" and "successTrend ps = Some d"
  shows "-1 \<le> d \<and> d \<le> 1"
proof -
  have sums: "0 \<le> sum_of pt_ok qs \<and> sum_of pt_ok qs \<le> sum_of pt_requests qs"
    if "\<forall>p \<in> set qs. 0 \<le> pt_ok p \<and> pt_ok p \<le> pt_requests p" for qs
    using that unfolding sum_of_def
    by (induction qs rule: rev_induct) (auto intro: add_nonneg_nonneg add_mono)
  have rate: "0 \<le> r \<and> r \<le> 1" if "half_rate qs = Some r" "\<forall>p \<in> set qs. 0 \<le> pt_ok p \<and> pt_ok p \<le> pt_requests p" for qs r
    using sums [OF that(2)] that(1) by (auto simp: half_rate_def divide_le_eq_1 split: if_splits)
  have "\<forall>p \<in> set (firstHalf ps). 0 \<le> pt_ok p \<and> pt_ok p \<le> pt_requests p"
    "\<forall>p \<in> set (secondHalf ps). 0 \<le> pt_ok p \<and> pt_ok p \<le> pt_requests p"
    using assms(1) by (auto simp: firstHalf_def secondHalf_def dest: in_set_takeD in_set_dropD)
  moreover obtain a b where "half_rate (firstHalf ps) = Some a" "half_rate (secondHalf ps) = Some b" "d = b - a"
    using assms(2) by (auto simp: successTrend_def split: option.splits)
  ultimately show ?thesis using rate [of "firstHalf ps" a] rate [of "secondHalf ps" b] by simp
qed

definition STATUS_ORDER :: "string list" where
  "STATUS_ORDER = [''ok'', ''incomplete'', ''error'', ''canceled'']"

definition overview_status_counts :: "(jstr \<times> rat) list \<Rightarrow> (string \<Rightarrow> rat option) \<Rightarrow> (string \<times> rat) list" where
  "overview_status_counts status totals =
     map (\<lambda>k. (k, case map_of status (js k) of Some n \<Rightarrow> n | None \<Rightarrow> opt_or (totals k) 0)) STATUS_ORDER"

text \<open>The bar of the states: the widths of the parts in percent.\<close>

definition status_widths :: "(string \<times> rat) list \<Rightarrow> (string \<times> rat) list" where
  "status_widths its =
     (let n = sum_of snd its in map (\<lambda>i. (fst i, snd i / n * 100)) (filter (\<lambda>i. 0 < snd i) its))"

lemma status_widths_total:
  assumes "\<forall>i \<in> set its. 0 \<le> snd i" and "0 < sum_of snd its"
  shows "(\<Sum>i\<leftarrow>status_widths its. snd i) = 100"
proof -
  have "sum_of snd xs = sum_list (map snd xs)" for xs :: "(string \<times> rat) list"
    by (induction xs rule: rev_induct) (simp_all add: sum_of_def)
  moreover have "sum_list (map snd (filter (\<lambda>i. 0 < snd i) its)) = sum_list (map snd its)"
    using assms(1) by (induction its) auto
  moreover have "(\<Sum>i\<leftarrow>xs. snd i / n * 100) = sum_list (map snd xs) / n * 100" for xs :: "(string \<times> rat) list" and n
    by (induction xs) (simp_all add: add_divide_distrib algebra_simps)
  ultimately show ?thesis using assms(2) by (simp add: status_widths_def Let_def comp_def)
qed

text \<open>The bar of a ranked entry; the peak is at least one.\<close>

definition rank_width :: "rat list \<Rightarrow> rat \<Rightarrow> rat" where
  "rank_width counts n = max 6 (n / max_over 1 counts * 100)"

definition drill_error :: "'d zone \<Rightarrow> jstr \<Rightarrow> jstr \<Rightarrow> jstr \<Rightarrow> jstr option" where
  "drill_error z from to kind =
     (if list_ex (\<lambda>k. js k = kind) LOGS_ERROR_KINDS then Some (logsHref z [(js ''error_kind'', Some kind)] from to) else None)"

text \<open>Every kind of error that is linked is one the log page filters by and one that has a label.\<close>

lemma linked_kinds:
  "set LOGS_ERROR_KINDS = kind_text ` (set ERROR_KINDS - {K_all})" "map fst error_labels = LOGS_ERROR_KINDS"
  by (auto simp: LOGS_ERROR_KINDS_def ERROR_KINDS_def error_labels_def)

section \<open>Loading the statistics\<close>

text \<open>
  A load has a version; \<open>so_flights\<close> are the loads in flight with their versions, whether they are quiet
  and what they asked for. \<open>so_query\<close> is the query of the selected window (\<open>None\<close> for a custom window
  that is not complete); \<open>so_stats\<close> carries, as a ghost, the query that it answers.
\<close>

record ('q, 'a) stats_loader =
  so_query :: "'q option"
  so_version :: nat
  so_flights :: "(nat \<times> bool \<times> 'q) list"
  so_stats :: "('q \<times> 'a) option"
  so_error :: jstr
  so_loading :: bool

definition loadStats :: "bool \<Rightarrow> ('q, 'a) stats_loader \<Rightarrow> ('q, 'a) stats_loader" where
  "loadStats quiet s = (case so_query s of
     None \<Rightarrow> s\<lparr>so_loading := False\<rparr>
   | Some q \<Rightarrow> s\<lparr>so_version := so_version s + 1, so_flights := so_flights s @ [(so_version s + 1, quiet, q)]\<rparr>)"

text \<open>Another window: the clean-up of the effect outdates the loads in flight, then the effect loads.\<close>

definition select_window :: "'q option \<Rightarrow> ('q, 'a) stats_loader \<Rightarrow> ('q, 'a) stats_loader" where
  "select_window q s = loadStats False (s\<lparr>so_query := q, so_version := so_version s + 1\<rparr>)"

definition window_busy :: "('q, 'a) stats_loader \<Rightarrow> ('q, 'a) stats_loader" where
  "window_busy s = s\<lparr>so_loading := True\<rparr>"

definition stats_flight :: "nat \<Rightarrow> ('q, 'a) stats_loader \<Rightarrow> (nat \<times> bool \<times> 'q) option" where
  "stats_flight v s = find (\<lambda>f. fst f = v) (so_flights s)"

definition stats_end :: "nat \<Rightarrow> ('q, 'a) stats_loader \<Rightarrow> ('q, 'a) stats_loader" where
  "stats_end v s =
     s\<lparr>so_flights := filter (\<lambda>f. fst f \<noteq> v) (so_flights s),
       so_loading := (if v = so_version s then False else so_loading s)\<rparr>"

definition stats_answer :: "nat \<Rightarrow> 'a \<Rightarrow> ('q, 'a) stats_loader \<Rightarrow> ('q, 'a) stats_loader" where
  "stats_answer v d s = (case stats_flight v s of
     None \<Rightarrow> s
   | Some (_, quiet, q) \<Rightarrow> stats_end v (if v \<noteq> so_version s then s else s\<lparr>so_stats := Some (q, d), so_error := []\<rparr>))"

definition stats_failed :: "nat \<Rightarrow> jstr \<Rightarrow> ('q, 'a) stats_loader \<Rightarrow> ('q, 'a) stats_loader" where
  "stats_failed v msg s = (case stats_flight v s of
     None \<Rightarrow> s
   | Some (_, quiet, q) \<Rightarrow>
       stats_end v (if v \<noteq> so_version s \<or> quiet then s else s\<lparr>so_stats := None, so_error := msg\<rparr>))"

definition initial_stats :: "'q option \<Rightarrow> ('q, 'a) stats_loader" where
  "initial_stats q = loadStats False \<lparr>so_query = q, so_version = 0, so_flights = [], so_stats = None, so_error = [], so_loading = True\<rparr>"

inductive stats_step :: "('q, 'a) stats_loader \<Rightarrow> ('q, 'a) stats_loader \<Rightarrow> bool" where
  chosen: "stats_step s (select_window q s)"
| busy: "stats_step s (window_busy s)"
| ticked: "stats_step s (loadStats True s)"
| answered: "stats_step s (stats_answer v d s)"
| failed: "stats_step s (stats_failed v msg s)"

inductive stats_reachable :: "('q, 'a) stats_loader \<Rightarrow> bool" where
  start: "stats_reachable (initial_stats q)"
| step: "stats_reachable s \<Longrightarrow> stats_step s s' \<Longrightarrow> stats_reachable s'"

definition stats_ok :: "('q, 'a) stats_loader \<Rightarrow> bool" where
  "stats_ok s \<longleftrightarrow> (\<forall>(v, quiet, q) \<in> set (so_flights s). v \<le> so_version s \<and> (v = so_version s \<longrightarrow> so_query s = Some q))"

lemma loadStats_ok: "\<forall>f \<in> set (so_flights s). fst f \<le> so_version s \<Longrightarrow> so_query s \<noteq> None \<Longrightarrow> stats_ok (loadStats quiet s)"
  by (fastforce simp: stats_ok_def loadStats_def)

lemma loadStats_none: "so_query s = None \<Longrightarrow> loadStats quiet s = s\<lparr>so_loading := False\<rparr>"
  by (simp add: loadStats_def)

lemma stats_end_ok: "stats_ok s \<Longrightarrow> stats_ok (stats_end v s)"
  by (auto simp: stats_ok_def stats_end_def)

lemma stats_reachable_ok: "stats_reachable s \<Longrightarrow> stats_ok s"
proof (induction rule: stats_reachable.induct)
  case (start q)
  show ?case by (cases q) (simp_all add: initial_stats_def loadStats_def stats_ok_def)
next
  case (step s s')
  from step(3) have old: "\<forall>f \<in> set (so_flights s). fst f \<le> so_version s" by (auto simp: stats_ok_def)
  from step(2) show ?case
  proof cases
    case (chosen q)
    show ?thesis
    proof (cases q)
      case None
      with old show ?thesis unfolding chosen select_window_def by (subst loadStats_none) (auto simp: stats_ok_def le_Suc_eq)
    next
      case (Some x)
      with old show ?thesis unfolding chosen select_window_def by (intro loadStats_ok) (auto simp: le_SucI)
    qed
  next
    case busy
    with step(3) show ?thesis by (simp add: stats_ok_def window_busy_def)
  next
    case ticked
    with old step(3) show ?thesis by (cases "so_query s") (simp_all add: loadStats_ok loadStats_none, simp add: stats_ok_def)
  next
    case (answered v d)
    with step(3) show ?thesis
      by (auto simp: stats_answer_def split: option.split intro!: stats_end_ok) (auto simp: stats_ok_def)
  next
    case (failed v msg)
    with step(3) show ?thesis
      by (auto simp: stats_failed_def split: option.split intro!: stats_end_ok) (auto simp: stats_ok_def)
  qed
qed

text \<open>
  C38: The page takes an answer only for the window that is selected: after any order of choices, refreshes
  and answers, statistics that change are those of the query of the window the page is at.
\<close>

theorem stats_for_selected_window:
  assumes "stats_reachable s"
  shows "so_stats (stats_answer v d s) = so_stats s
    \<or> (\<exists>q. so_query (stats_answer v d s) = Some q \<and> so_stats (stats_answer v d s) = Some (q, d))"
proof (cases "stats_flight v s")
  case None
  then show ?thesis by (simp add: stats_answer_def)
next
  case (Some f)
  obtain quiet q where f: "f = (v, quiet, q)" "f \<in> set (so_flights s)"
    using find_Some_in [OF Some [unfolded stats_flight_def]] by (cases f) auto
  with stats_reachable_ok [OF assms] show ?thesis
    using Some by (auto simp: stats_answer_def stats_end_def stats_ok_def)
qed

theorem stats_for_selected_window_witness:
  "so_stats (stats_answer 1 (5::nat) (initial_stats (Some (7::nat)))) = so_stats (initial_stats (Some (7::nat)))
    \<or> (\<exists>q. so_query (stats_answer 1 (5::nat) (initial_stats (Some (7::nat)))) = Some q
        \<and> so_stats (stats_answer 1 (5::nat) (initial_stats (Some (7::nat)))) = Some (q, (5::nat)))"
  by (rule stats_for_selected_window) (rule stats_reachable.start)

text \<open>
  A background refresh that overtakes the load of a newly selected window and fails leaves the numbers
  of the old window, with no error and no sign of loading.
\<close>

lemma old_window_kept:
  "let s1 = stats_answer 1 d (initial_stats (Some q));
       s2 = loadStats True (select_window (Some q') (window_busy s1));
       s3 = stats_answer 3 d' (stats_failed 4 msg s2)
   in so_query s3 = Some q' \<and> so_stats s3 = Some (q, d) \<and> so_error s3 = [] \<and> \<not> so_loading s3 \<and> so_flights s3 = []"
  by (simp add: initial_stats_def loadStats_def stats_answer_def stats_flight_def stats_end_def window_busy_def
      select_window_def stats_failed_def Let_def)

section \<open>The key and the summary\<close>

text \<open>\<open>au_stored\<close> is the entry of the browser's store, empty when there is none.\<close>

record auth =
  au_stored :: jstr
  au_key :: jstr

definition start_auth :: "jstr \<Rightarrow> auth" where
  "start_auth stored = \<lparr>au_stored = stored, au_key = stored\<rparr>"

definition setApiKey :: "jstr \<Rightarrow> auth \<Rightarrow> auth" where
  "setApiKey next a = a\<lparr>au_stored := trim next, au_key := trim next\<rparr>"

definition signOut :: "auth \<Rightarrow> auth" where
  "signOut a = a\<lparr>au_stored := [], au_key := []\<rparr>"

definition readStoredApiKey :: "auth \<Rightarrow> jstr" where
  "readStoredApiKey a = trim (au_stored a)"

record 'o summary =
  sm_auth :: auth
  sm_overview :: "'o option"
  sm_loading :: bool
  sm_error :: "jstr option"
  sm_calls :: nat
  sm_flights :: "(nat \<times> jstr \<times> bool) list"

text \<open>\<open>refresh\<close> up to its request; without a key it fails at once.\<close>

definition refresh_begin :: "jstr option \<Rightarrow> bool \<Rightarrow> 'o summary \<Rightarrow> 'o summary" where
  "refresh_begin override silent s =
     (let key = opt_or override (au_key (sm_auth s)) in
      if key = [] then s\<lparr>sm_overview := None, sm_error := None, sm_loading := False\<rparr>
      else s\<lparr>sm_loading := (if silent then sm_loading s else True), sm_calls := sm_calls s + 1,
             sm_flights := sm_flights s @ [(sm_calls s + 1, key, silent)]\<rparr>)"

definition refresh_flight :: "nat \<Rightarrow> 'o summary \<Rightarrow> (nat \<times> jstr \<times> bool) option" where
  "refresh_flight n s = find (\<lambda>f. fst f = n) (sm_flights s)"

definition refresh_over :: "nat \<Rightarrow> bool \<Rightarrow> 'o summary \<Rightarrow> 'o summary" where
  "refresh_over n silent s =
     s\<lparr>sm_flights := filter (\<lambda>f. fst f \<noteq> n) (sm_flights s), sm_loading := (if silent then sm_loading s else False)\<rparr>"

definition refresh_answer :: "nat \<Rightarrow> 'o \<Rightarrow> 'o summary \<Rightarrow> 'o summary" where
  "refresh_answer n d s = (case refresh_flight n s of
     None \<Rightarrow> s | Some (_, key, silent) \<Rightarrow> refresh_over n silent (s\<lparr>sm_overview := Some d, sm_error := None\<rparr>))"

definition thrown_text :: "thrown \<Rightarrow> jstr" where
  "thrown_text e = (case e of Api_error msg st code \<Rightarrow> msg | Other_error msg \<Rightarrow> msg)"

text \<open>The effect of the key: without one the summary is cleared, with one it is loaded.\<close>

definition key_effect :: "'o summary \<Rightarrow> 'o summary" where
  "key_effect s =
     (if au_key (sm_auth s) = [] then s\<lparr>sm_overview := None, sm_loading := False, sm_error := None\<rparr>
      else refresh_begin None False s)"

definition change_key :: "(auth \<Rightarrow> auth) \<Rightarrow> 'o summary \<Rightarrow> 'o summary" where
  "change_key f s =
     (let b = s\<lparr>sm_auth := f (sm_auth s)\<rparr> in if au_key (sm_auth b) = au_key (sm_auth s) then b else key_effect b)"

definition refresh_failed :: "nat \<Rightarrow> thrown \<Rightarrow> 'o summary \<Rightarrow> 'o summary" where
  "refresh_failed n e s = (case refresh_flight n s of
     None \<Rightarrow> s
   | Some (_, key, silent) \<Rightarrow>
      (let b = refresh_over n silent (s\<lparr>sm_overview := (if silent then sm_overview s else None), sm_error := Some (thrown_text e)\<rparr>) in
       if isUnauthorized e then change_key signOut b else b))"

definition start_summary :: "jstr \<Rightarrow> 'o summary" where
  "start_summary stored =
     key_effect \<lparr>sm_auth = start_auth stored, sm_overview = None, sm_loading = stored \<noteq> [], sm_error = None, sm_calls = 0,
       sm_flights = []\<rparr>"

text \<open>A key is stored and held alike, and without blanks around it once it was set.\<close>

lemma auth_in_step: "au_stored (setApiKey k a) = au_key (setApiKey k a) \<and> readStoredApiKey (setApiKey k a) = au_key (setApiKey k a)"
  "au_stored (signOut a) = au_key (signOut a)"
  by (simp_all add: setApiKey_def signOut_def readStoredApiKey_def)

text \<open>
  The answers are not told apart by the key they were asked with: one that arrives after signing out
  fills the summary again, and a refusal of the former key signs the new one out.
\<close>

lemma late_summary:
  "let s = change_key signOut (start_summary (js ''old''));
       u = refresh_answer 1 d s
   in au_key (sm_auth u) = [] \<and> sm_overview s = None \<and> sm_overview u = Some d"
  by (simp add: start_summary_def key_effect_def refresh_begin_def start_auth_def change_key_def signOut_def refresh_answer_def
      refresh_flight_def refresh_over_def Let_def)

lemma late_refusal:
  "let s = change_key (setApiKey (js ''new'')) (start_summary (js ''old'') :: nat summary);
       u = refresh_failed 1 (Api_error (js ''invalid api key'') 401 Undef) s
   in au_key (sm_auth s) = js ''new'' \<and> au_key (sm_auth u) = [] \<and> sm_overview u = None"
  by code_simp

section \<open>The live numbers\<close>

definition LIVE_POLL_MS :: rat where
  "LIVE_POLL_MS = 2500"

definition LIVE_SAMPLES :: int where
  "LIVE_SAMPLES = math_round (60000 / LIVE_POLL_MS)"

definition LIVE_POLL_EXPANDED_MS :: rat where
  "LIVE_POLL_EXPANDED_MS = 400"

definition take_last :: "nat \<Rightarrow> 'a list \<Rightarrow> 'a list" where
  "take_last n xs = drop (length xs - n) xs"

record 'l live_poll =
  lv_live :: "'l option"
  lv_samples :: "(rat \<times> rat) list"

definition samples_kept :: "rat \<Rightarrow> nat" where
  "samples_kept interval = nat (max LIVE_SAMPLES (math_round (60000 / interval)))"

definition live_answer :: "rat \<Rightarrow> rat \<Rightarrow> ('l \<Rightarrow> rat) \<Rightarrow> 'l \<Rightarrow> 'l live_poll \<Rightarrow> 'l live_poll" where
  "live_answer interval now in_flight d p =
     p\<lparr>lv_live := Some d, lv_samples := take_last (samples_kept interval) (lv_samples p @ [(now, in_flight d)])\<rparr>"

text \<open>There is always the newest sample, and no more of them than a minute of polls.\<close>

lemma live_samples_24: "LIVE_SAMPLES = 24"
  by code_simp

lemma live_samples_bounded:
  "lv_samples (live_answer interval now f d p) \<noteq> []" "last (lv_samples (live_answer interval now f d p)) = (now, f d)"
  "length (lv_samples (live_answer interval now f d p)) \<le> samples_kept interval"
proof -
  have "24 \<le> samples_kept interval"
    by (simp add: samples_kept_def live_samples_24)
  then have short: "length (lv_samples p @ [x]) - samples_kept interval < length (lv_samples p @ [x])" for x by simp
  then show "lv_samples (live_answer interval now f d p) \<noteq> []" "last (lv_samples (live_answer interval now f d p)) = (now, f d)"
    by (simp_all add: live_answer_def take_last_def)
  show "length (lv_samples (live_answer interval now f d p)) \<le> samples_kept interval"
    by (simp add: live_answer_def take_last_def)
qed

lemma live_samples_kept: "samples_kept LIVE_POLL_MS = 24 \<and> samples_kept LIVE_POLL_EXPANDED_MS = 150"
  by code_simp

text \<open>The strip: the load of the pool, at most full.\<close>

definition strip_load :: "rat option \<Rightarrow> rat \<Rightarrow> rat" where
  "strip_load in_flight capacity = (case in_flight of Some n \<Rightarrow> if 0 < capacity then n / capacity else 0 | None \<Rightarrow> 0)"

definition strip_saturated :: "rat option \<Rightarrow> rat \<Rightarrow> bool" where
  "strip_saturated in_flight capacity \<longleftrightarrow> 0 < capacity \<and> (case in_flight of Some n \<Rightarrow> capacity \<le> n | None \<Rightarrow> False)"

definition strip_width :: "rat option \<Rightarrow> rat \<Rightarrow> rat" where
  "strip_width in_flight capacity = min 100 (strip_load in_flight capacity * 100)"

lemma strip_full: "strip_saturated n c \<Longrightarrow> strip_width n c = 100"
  by (auto simp: strip_saturated_def strip_width_def strip_load_def min_def field_simps split: option.splits)

end
