(* ===== verification/Front_Card.thy ===== *)
theory Front_Card
  imports Front_Live Front_Paging
begin

text \<open>
  The card of the requests in progress (\<open>frontend/src/components/overview/InflightLiveCard.tsx\<close>): which
  board it shows (the live one, the demonstration or the idle one), its slot bars and rails, and the
  hand-over of a request from the queue to a cell: the gate that hides the contents of a cell until
  its pill has landed, the flights, their substitutes when there is nothing to fly, and the exits.
  Positions on the screen are a parameter (whether a flight can be drawn); the animations are not
  modelled, only when they start and what their end does to the state.
\<close>

section \<open>Texts and measures\<close>

definition formatElapsed :: "rat \<Rightarrow> jstr" where
  "formatElapsed ms =
     (let sec = max 0 (ms / 1000) in
      if 60 \<le> sec then dec_digits \<lfloor>sec / 60\<rfloor> @ js ''m '' @ pad2 (dec_digits \<lfloor>rat_rem sec 60\<rfloor>) @ js ''s''
      else if 10 \<le> sec then to_fixed 0 sec @ js ''s''
      else to_fixed 1 sec @ js ''s'')"

definition jobElapsedMs :: "job option \<Rightarrow> rat \<Rightarrow> rat" where
  "jobElapsedMs j clock = (case j of
     None \<Rightarrow> 0
   | Some j \<Rightarrow> (case j_started j of Some t \<Rightarrow> max 0 (clock - t) | None \<Rightarrow> max 0 (j_elapsed j)))"

text \<open>Just below a minute, and just below ten seconds, the rounded text is that of the next range.\<close>

lemma elapsed_round_up: "formatElapsed 59600 = js ''60s'' \<and> formatElapsed 9970 = js ''10.0s'' \<and> formatElapsed 60000 = js ''1m 00s''"
  by code_simp

subsection \<open>The bar of a slot\<close>

definition bar_occupied :: "slot \<Rightarrow> nat" where
  "bar_occupied w =
     min (slot_cap w) (case w_in_flight w of Some q \<Rightarrow> nat (max 0 \<lfloor>q\<rfloor>) | None \<Rightarrow> if w_busy w then 1 else 0)"

definition occCells :: "slot \<Rightarrow> cell list" where
  "occCells w = take (bar_occupied w) (w_cells w)"

definition cell_shown :: "jstr list \<Rightarrow> cell \<Rightarrow> bool" where
  "cell_shown landed c \<longleftrightarrow> \<not> c_pending c \<and> c_id c \<in> set landed"

definition bar_title :: "rat \<Rightarrow> jstr list \<Rightarrow> slot \<Rightarrow> jstr" where
  "bar_title clock landed w =
     (let bits = map (\<lambda>c. c_name c @ js '' '' @ formatElapsed (max 0 (clock - c_started c)))
            (filter (cell_shown landed) (occCells w)) in
      w_name w @ [32, 0xB7, 32] @ dec_digits (int (bar_occupied w)) @ js ''/'' @ dec_digits (int (slot_cap w))
      @ (if bits = [] then [] else [32, 0xB7, 32] @ join (js '', '') bits))"

text \<open>On a slot that fits, the bar shows the number the summary counts, and all of its cells.\<close>

lemma bar_matches_summary:
  assumes "slot_fits w"
  shows "int (bar_occupied w) = slot_occupied w" "occCells w = w_cells w"
  using assms by (simp_all add: slot_fits_def bar_occupied_def slot_occupied_def occCells_def)

subsection \<open>The rails\<close>

definition QUEUE_PILL_MAX :: nat where
  "QUEUE_PILL_MAX = 6"

definition WORKER_VISIBLE_MAX :: nat where
  "WORKER_VISIBLE_MAX = 4"

definition waiting :: "board \<Rightarrow> job list" where
  "waiting b = filter waits (b_jobs b)"

definition queuePills :: "board \<Rightarrow> job list" where
  "queuePills b = take QUEUE_PILL_MAX (waiting b)"

definition queueOverflow :: "board \<Rightarrow> job list" where
  "queueOverflow b = drop QUEUE_PILL_MAX (waiting b)"

text \<open>The loop over the slots in the order of the rail, with the ids seen, up to the limit.\<close>

fun pick_workers :: "nat \<Rightarrow> slot list \<Rightarrow> slot list \<Rightarrow> slot list" where
  "pick_workers n out [] = out"
| "pick_workers n out (w # ws) =
     (if w_id w \<in> w_id ` set out then pick_workers n out ws
      else if n \<le> length out + 1 then out @ [w]
      else pick_workers n (out @ [w]) ws)"

definition visibleWorkers :: "board \<Rightarrow> slot list" where
  "visibleWorkers b =
     pick_workers WORKER_VISIBLE_MAX [] (filter w_busy (b_workers b) @ filter (\<lambda>w. \<not> w_busy w) (b_workers b))"

definition waitAmber :: "board \<Rightarrow> bool" where
  "waitAmber b \<longleftrightarrow> b_backpressure b \<le> of_nat (s_waiting (summarizeMockInflight b))"

lemma pick_workers_ok:
  assumes "length out < n" and "distinct (map w_id out)"
  shows "length (pick_workers n out ws) \<le> n \<and> distinct (map w_id (pick_workers n out ws))
    \<and> set (pick_workers n out ws) \<subseteq> set out \<union> set ws"
  using assms
proof (induction n out ws rule: pick_workers.induct)
  case (2 n out w ws)
  show ?case
  proof (cases "w_id w \<in> w_id ` set out")
    case True
    with 2 show ?thesis by auto
  next
    case False
    with 2 show ?thesis by (auto simp: not_le)
  qed
qed auto

lemma visible_workers_short:
  "length (visibleWorkers b) \<le> 4" "distinct (map w_id (visibleWorkers b))" "set (visibleWorkers b) \<subseteq> set (b_workers b)"
  using pick_workers_ok [of "[]" WORKER_VISIBLE_MAX "filter w_busy (b_workers b) @ filter (\<lambda>w. \<not> w_busy w) (b_workers b)"]
  by (auto simp: visibleWorkers_def WORKER_VISIBLE_MAX_def)

section \<open>Which board is shown\<close>

text \<open>\<open>cd_pref\<close> is the stored preference for the demonstration, which cannot fail here.\<close>

record card =
  cd_expanded :: bool
  cd_demo :: bool
  cd_pref :: "jstr option"
  cd_board :: board
  cd_seq :: int
  cd_fallback :: bool
  cd_sticky :: "live_sticky option"
  cd_viewing :: bool
  cd_entered :: bool
  cd_landed :: "jstr list"
  cd_reveals :: "jstr list"

definition readMockDemoPref :: "jstr option \<Rightarrow> bool" where
  "readMockDemoPref stored \<longleftrightarrow> stored = Some (js ''1'')"

definition writeMockDemoPref :: "bool \<Rightarrow> jstr option" where
  "writeMockDemoPref on = Some (if on then js ''1'' else js ''0'')"

definition setMockDemo :: "bool \<Rightarrow> bool \<Rightarrow> card \<Rightarrow> card" where
  "setMockDemo force on c = c\<lparr>cd_demo := on, cd_pref := (if force then cd_pref c else writeMockDemoPref on)\<rparr>"

lemma pref_roundtrip: "readMockDemoPref (cd_pref (setMockDemo False on c)) = on"
  by (simp add: readMockDemoPref_def setMockDemo_def writeMockDemoPref_def)

text \<open>The base of the first projection after expanding: its totals are cleared and it does not count as live.\<close>

definition projection_base :: "card \<Rightarrow> board" where
  "projection_base c =
     (if cd_viewing c then cd_board c
      else (cloneMockInflight (cd_board c))\<lparr>b_wait_p95 := 1, b_done := 0, b_failed := 0\<rparr>)"

text \<open>The effect of \<open>expanded\<close>, the live snapshot and the demonstration, for a card without a given board.\<close>

definition choose_board :: "(jstr \<Rightarrow> rat option) \<Rightarrow> rat \<Rightarrow> live_input option \<Rightarrow> card \<Rightarrow> card" where
  "choose_board parse now live c =
     (if \<not> cd_expanded c then c\<lparr>cd_fallback := False, cd_viewing := False\<rparr>
      else case live of
        Some l \<Rightarrow> c\<lparr>cd_fallback := False, cd_sticky := Some (li_sticky l),
          cd_entered := (if cd_viewing c then cd_entered c else False),
          cd_board := applyLiveProjection parse now (projection_base c) l, cd_viewing := True\<rparr>
      | None \<Rightarrow>
          (let d = c\<lparr>cd_sticky := None, cd_viewing := False, cd_entered := False\<rparr> in
           if cd_demo c
           then d\<lparr>cd_fallback := True,
             cd_board := (if isIdleInflightSnapshot (cd_board c) then cloneMockInflight getMockInflightSnapshot else cd_board c)\<rparr>
           else d\<lparr>cd_fallback := False, cd_board := cloneMockInflight (getIdleInflightSnapshot now)\<rparr>))"

definition mock_runs :: "live_input option \<Rightarrow> card \<Rightarrow> bool" where
  "mock_runs live c \<longleftrightarrow> cd_expanded c \<and> cd_fallback c \<and> cd_demo c \<and> live = None"

definition mock_pace :: "jsnum \<Rightarrow> rat" where
  "mock_pace p = (case p of Fin q \<Rightarrow> min 1 (max (1 / 5) q) | _ \<Rightarrow> 1)"

definition mock_frame :: "(jstr \<Rightarrow> rat) \<Rightarrow> jsnum \<Rightarrow> rat \<Rightarrow> live_input option \<Rightarrow> card \<Rightarrow> card" where
  "mock_frame now pace dt live c =
     (if \<not> mock_runs live c \<or> dt < 260 then c
      else (let (b, q) = tickMockInflight now (dt * mock_pace pace) (cd_board c, cd_seq c) in c\<lparr>cd_board := b, cd_seq := q\<rparr>))"

text \<open>Collapsing drops the gate and the timers that would open it.\<close>

definition collapse :: "card \<Rightarrow> card" where
  "collapse c = c\<lparr>cd_expanded := False, cd_entered := False, cd_reveals := [], cd_landed := []\<rparr>"

definition expand :: "card \<Rightarrow> card" where
  "expand c = c\<lparr>cd_expanded := True\<rparr>"

definition liveBadge :: "live_input option \<Rightarrow> card \<Rightarrow> bool" where
  "liveBadge live c \<longleftrightarrow> \<not> cd_fallback c \<and> live \<noteq> None"

definition mockBadge :: "live_input option \<Rightarrow> card \<Rightarrow> bool" where
  "mockBadge live c \<longleftrightarrow> cd_fallback c \<and> cd_demo c \<and> live = None"

text \<open>
  An expanded card with live data shows exactly that data, whatever it showed before: never a frame of
  the demonstration, no slot over its capacity, and the totals of a session that is just opened at zero.
\<close>

theorem live_card_shows_live:
  fixes c :: card and l :: live_input and parse :: "jstr \<Rightarrow> rat option" and now :: rat
  defines "d \<equiv> choose_board parse now (Some l) c"
  assumes "cd_expanded c"
  shows "cd_board d = applyLiveProjection parse now (projection_base c) l \<and> liveBadge (Some l) d \<and> \<not> mockBadge (Some l) d
    \<and> \<not> mock_runs (Some l) d \<and> map w_id (b_workers (cd_board d)) = map lw_id (li_workers l)
    \<and> (\<forall>w \<in> set (b_workers (cd_board d)). int (bar_occupied w) = slot_occupied w \<and> occCells w = w_cells w)
    \<and> (\<not> cd_viewing c \<longrightarrow> b_done (cd_board d) = 0 \<and> b_failed (cd_board d) = 0)"
proof -
  have board: "cd_board d = applyLiveProjection parse now (projection_base c) l"
    using assms(2) by (simp add: d_def choose_board_def)
  have "int (bar_occupied w) = slot_occupied w \<and> occCells w = w_cells w" if "w \<in> set (b_workers (cd_board d))" for w
    using that live_fits [of parse now "projection_base c" l] bar_matches_summary [of w] by (simp add: board list_all_iff)
  moreover have "map w_id (b_workers (cd_board d)) = map lw_id (li_workers l)"
    by (simp add: board applyLiveProjection_def Let_def live_slot_def)
  moreover have "b_done (cd_board d) = 0 \<and> b_failed (cd_board d) = 0" if "\<not> cd_viewing c"
    using that by (simp add: board applyLiveProjection_def Let_def live_totals_def prior_is_live_def projection_base_def)
  ultimately show ?thesis
    using assms(2) board by (simp add: d_def choose_board_def liveBadge_def mockBadge_def mock_runs_def)
qed

definition sample_card :: card where
  "sample_card = \<lparr>cd_expanded = True, cd_demo = True, cd_pref = None, cd_board = getMockInflightSnapshot, cd_seq = initial_seq,
     cd_fallback = True, cd_sticky = None, cd_viewing = False, cd_entered = False, cd_landed = [], cd_reveals = []\<rparr>"

theorem live_card_shows_live_witness:
  "b_done (cd_board (choose_board Map.empty 0 (Some example_live) sample_card)) = 0
   \<and> \<not> mock_runs (Some example_live) (choose_board Map.empty 0 (Some example_live) sample_card)"
proof -
  have "cd_expanded sample_card" "\<not> cd_viewing sample_card" by (simp_all add: sample_card_def)
  with live_card_shows_live [of sample_card Map.empty 0 example_live] show ?thesis by blast
qed

section \<open>The gate of the cells\<close>

datatype gate_mode = All_cells | Stable

definition cells_of :: "board \<Rightarrow> cell list" where
  "cells_of b = concat (map w_cells (b_workers b))"

definition queued_ids :: "board \<Rightarrow> jstr list" where
  "queued_ids b = map j_id (waiting b)"

definition gate_opens :: "gate_mode \<Rightarrow> board \<Rightarrow> board \<Rightarrow> jstr list \<Rightarrow> cell \<Rightarrow> bool" where
  "gate_opens mode prev snap landed c \<longleftrightarrow>
     \<not> c_pending c \<and> (c_id c \<in> set landed \<or> mode = All_cells
       \<or> (c_id c \<notin> set (queued_ids snap) \<and> c_id c \<notin> set (queued_ids prev)))"

text \<open>The new set; the code keeps the old object when it has the same members.\<close>

definition syncLandGate :: "gate_mode \<Rightarrow> board \<Rightarrow> board \<Rightarrow> jstr list \<Rightarrow> jstr list" where
  "syncLandGate mode prev snap landed =
     (let next = remdups (map c_id (filter (gate_opens mode prev snap landed) (cells_of snap))) in
      if set next = set landed then landed else next)"

definition markCellLanded :: "jstr \<Rightarrow> card \<Rightarrow> card" where
  "markCellLanded i c =
     (let k = trim i in
      if k = [] then c
      else c\<lparr>cd_reveals := filter (\<lambda>r. r \<noteq> k) (cd_reveals c), cd_landed := sadd k (cd_landed c)\<rparr>)"

text \<open>A timer per cell, which a new one replaces; when it fires the cell counts as landed.\<close>

definition scheduleCellReveal :: "jstr \<Rightarrow> card \<Rightarrow> card" where
  "scheduleCellReveal i c = (let k = trim i in if k = [] then c else c\<lparr>cd_reveals := sadd k (cd_reveals c)\<rparr>)"

definition reveal_fires :: "jstr \<Rightarrow> card \<Rightarrow> card" where
  "reveal_fires k c =
     (if k \<notin> set (cd_reveals c) then c
      else markCellLanded k (c\<lparr>cd_reveals := filter (\<lambda>r. r \<noteq> k) (cd_reveals c)\<rparr>))"

lemma gate_members:
  "set (syncLandGate mode prev snap landed) = c_id ` {c \<in> set (cells_of snap). gate_opens mode prev snap landed c}"
  by (auto simp: syncLandGate_def Let_def)

text \<open>What has landed are cells of the board; without motion every cell that is not reserved has.\<close>

lemma gate_pruned: "set (syncLandGate mode prev snap landed) \<subseteq> c_id ` set (cells_of snap)"
  by (auto simp: gate_members)

lemma gate_all: "set (syncLandGate All_cells prev snap landed) = c_id ` {c \<in> set (cells_of snap). \<not> c_pending c}"
  by (auto simp: gate_members gate_opens_def)

text \<open>
  The gate of a cell whose request has left the queue is closed for one board only: the next run of
  the effect (every poll makes one, on the board that is still shown) opens it, while its pill may
  still be flying.
\<close>

lemma gate_opens_at_next_run:
  assumes "c \<in> set (cells_of snap)" and "\<not> c_pending c" and "c_id c \<notin> set (queued_ids snap)"
  shows "c_id c \<in> set (syncLandGate Stable snap snap landed)"
  using assms by (auto simp: gate_members gate_opens_def)

section \<open>Hand-over from the queue\<close>

text \<open>\<open>new Map(jobs.map(...))\<close>, and the accounts of cells.\<close>

definition job_map :: "board \<Rightarrow> (jstr \<times> job) list" where
  "job_map b = fold (\<lambda>j. aput (j_id j) j) (b_jobs b) []"

definition slot_keys :: "slot \<Rightarrow> jstr list" where
  "slot_keys w = (case w_job w of None \<Rightarrow> [] | Some k \<Rightarrow> if k = [] then [] else [k]) @ map c_id (w_cells w)"

definition worker_of :: "board \<Rightarrow> (jstr \<times> jstr) list" where
  "worker_of b = fold (\<lambda>w m. fold (\<lambda>k. aput k (w_id w)) (slot_keys w) m) (b_workers b) []"

datatype handover = Fly jstr jstr | Reveal jstr

definition handed :: "handover \<Rightarrow> jstr" where
  "handed h = (case h of Fly i w \<Rightarrow> i | Reveal i \<Rightarrow> i)"

definition or_str :: "jstr \<Rightarrow> jstr \<Rightarrow> jstr" where
  "or_str a b = (if a = [] then b else a)"

text \<open>\<open>flyQueueToSlot\<close>: one flight per request; \<open>can\<close> says whether there is something to fly from and to.\<close>

definition flyQueueToSlot :: "(jstr \<Rightarrow> jstr \<Rightarrow> bool) \<Rightarrow> jstr \<Rightarrow> jstr \<Rightarrow> handover list \<Rightarrow> handover list" where
  "flyQueueToSlot can i w hs =
     (if w = [] \<or> i \<in> handed ` set hs then hs else hs @ [if can i w then Fly i w else Reveal i])"

definition started_job :: "(jstr \<Rightarrow> jstr \<Rightarrow> bool) \<Rightarrow> board \<Rightarrow> board \<Rightarrow> jstr \<times> job \<Rightarrow> handover list \<Rightarrow> handover list" where
  "started_job can prev snap e hs = (case map_of (job_map prev) (fst e) of
     None \<Rightarrow> hs
   | Some before \<Rightarrow>
       if j_status before \<noteq> Queued \<or> j_status (snd e) \<noteq> Running then hs
       else flyQueueToSlot can (fst e)
         (or_str (opt_or (map_of (worker_of snap) (fst e)) [])
           (or_str (str_or_empty (j_account (snd e))) (str_or_empty (j_account before)))) hs)"

definition newlyBusy :: "board \<Rightarrow> board \<Rightarrow> slot list" where
  "newlyBusy prev snap =
     filter (\<lambda>w. w_busy w \<and> \<not> list_ex (\<lambda>p. w_id p = w_id w \<and> w_busy p) (b_workers prev)) (b_workers snap)"

definition left_target :: "board \<Rightarrow> board \<Rightarrow> job \<Rightarrow> jstr" where
  "left_target prev snap before =
     (let a = trim (str_or_empty (j_account before)) in
      if a \<noteq> [] then a else case newlyBusy prev snap of [w] \<Rightarrow> w_id w | _ \<Rightarrow> [])"

definition left_job :: "(jstr \<Rightarrow> jstr \<Rightarrow> bool) \<Rightarrow> board \<Rightarrow> board \<Rightarrow> jstr \<times> job \<Rightarrow> handover list \<Rightarrow> handover list" where
  "left_job can prev snap e hs =
     (if j_status (snd e) \<noteq> Queued \<or> map_of (job_map snap) (fst e) \<noteq> None then hs
      else (let t = left_target prev snap (snd e) in
        if t = [] then hs
        else case find (\<lambda>w. w_id w = t) (b_workers snap) of
          Some w \<Rightarrow> if \<not> w_busy w \<and> list_all (\<lambda>n. w_id n \<noteq> t) (newlyBusy prev snap) then hs
              else flyQueueToSlot can (fst e) t hs
        | None \<Rightarrow> flyQueueToSlot can (fst e) t hs))"

definition grace_job :: "board \<Rightarrow> handover list \<Rightarrow> jstr \<times> job \<Rightarrow> handover list" where
  "grace_job snap flew e =
     (if j_status (snd e) = Queued \<and> map_of (job_map snap) (fst e) = None \<and> fst e \<notin> handed ` set flew
         \<and> list_ex (\<lambda>c. c_id c = fst e) (cells_of snap)
      then [Reveal (fst e)] else [])"

definition handovers :: "(jstr \<Rightarrow> jstr \<Rightarrow> bool) \<Rightarrow> board \<Rightarrow> board \<Rightarrow> handover list" where
  "handovers can prev snap =
     (let flew = fold (left_job can prev snap) (job_map prev) (fold (started_job can prev snap) (job_map snap) []) in
      flew @ concat (map (grace_job snap flew) (job_map prev)))"

text \<open>A flight that lands, and a substitute for one that could not be drawn.\<close>

definition hand_over :: "handover \<Rightarrow> card \<Rightarrow> card" where
  "hand_over h c = (case h of Fly i w \<Rightarrow> c | Reveal i \<Rightarrow> scheduleCellReveal i c)"

definition land_flight :: "handover \<Rightarrow> card \<Rightarrow> card" where
  "land_flight h c = (case h of Fly i w \<Rightarrow> markCellLanded i c | Reveal i \<Rightarrow> reveal_fires (trim i) c)"

subsection \<open>No cell stays closed\<close>

lemma fly_keeps: "i \<in> handed ` set hs \<Longrightarrow> i \<in> handed ` set (flyQueueToSlot can j w hs)"
  by (auto simp: flyQueueToSlot_def)

lemma fly_adds: "w \<noteq> [] \<Longrightarrow> i \<in> handed ` set (flyQueueToSlot can i w hs)"
  by (auto simp: flyQueueToSlot_def handed_def)

lemma started_keeps: "i \<in> handed ` set hs \<Longrightarrow> i \<in> handed ` set (started_job can prev snap e hs)"
  by (simp add: started_job_def fly_keeps split: option.split)

lemma left_keeps: "i \<in> handed ` set hs \<Longrightarrow> i \<in> handed ` set (left_job can prev snap e hs)"
  by (simp add: left_job_def Let_def fly_keeps split: option.split)

lemma fold_keeps:
  assumes "\<And>e hs. i \<in> handed ` set hs \<Longrightarrow> i \<in> handed ` set (f e hs)"
  shows "i \<in> handed ` set hs \<Longrightarrow> i \<in> handed ` set (fold f es hs)"
  using assms by (induction es arbitrary: hs) simp_all

lemma fold_adds:
  assumes "\<And>e hs. i \<in> handed ` set hs \<Longrightarrow> i \<in> handed ` set (f e hs)"
    and "e \<in> set es" and "\<And>hs. i \<in> handed ` set (f e hs)"
  shows "i \<in> handed ` set (fold f es hs)"
  using assms(2)
proof (induction es arbitrary: hs)
  case (Cons x xs)
  then show ?case
    using fold_keeps [of i f "f x hs" xs] assms(1,3) by auto
qed simp

lemma job_map_of: "map_of (job_map b) k = job_by_id k (b_jobs b)"
proof -
  have "map_of (fold (\<lambda>j. aput (j_id j) j) js' m) k = (case job_by_id k js' of None \<Rightarrow> map_of m k | Some j \<Rightarrow> Some j)" for js' m
  proof (induction js' rule: rev_induct)
    case (snoc j js')
    then show ?case by (simp add: job_by_id_def last_with_def)
  qed (simp add: job_by_id_def last_with_def)
  from this [of "b_jobs b" "[]"] show ?thesis by (simp add: job_map_def split: option.split)
qed

lemma worker_of_cell:
  assumes "\<forall>w \<in> set (b_workers b). w_id w \<noteq> []" and "c \<in> set (cells_of b)"
  shows "\<exists>w. map_of (worker_of b) (c_id c) = Some w \<and> w \<noteq> []"
proof -
  let ?step = "\<lambda>w m. fold (\<lambda>k. aput k (w_id w)) (slot_keys w) m"
  have one: "map_of (fold (\<lambda>k. aput k v) ks m) x = (if x \<in> set ks then Some v else map_of m x)" for ks m and v x :: jstr
    by (induction ks arbitrary: m) auto
  have "x \<in> (\<Union>w \<in> set ws. set (slot_keys w)) \<or> (\<exists>v. map_of m x = Some v \<and> v \<noteq> []) \<Longrightarrow>
      \<exists>v. map_of (fold ?step ws m) x = Some v \<and> v \<noteq> []" if "\<forall>w \<in> set ws. w_id w \<noteq> []" for ws m x
    using that
  proof (induction ws arbitrary: m)
    case (Cons w ws)
    then have "x \<in> (\<Union>w \<in> set ws. set (slot_keys w)) \<or> (\<exists>v. map_of (?step w m) x = Some v \<and> v \<noteq> [])"
      by (auto simp: one)
    with Cons.IH [of "?step w m"] Cons.prems(2) show ?case by simp
  qed simp
  moreover have "c_id c \<in> (\<Union>w \<in> set (b_workers b). set (slot_keys w))"
    using assms(2) by (fastforce simp: cells_of_def slot_keys_def)
  ultimately show ?thesis using assms(1) unfolding worker_of_def by blast
qed

definition active_jobs :: "board \<Rightarrow> bool" where
  "active_jobs b \<longleftrightarrow> list_all (\<lambda>j. j_status j = Queued \<or> j_status j = Running) (b_jobs b)"

text \<open>
  C39: A cell that the gate keeps closed because its request has just left the queue is always handed over:
  its request flies to it or its contents are revealed by a timer. So no cell stays closed for good.
\<close>

theorem no_cell_stuck:
  assumes ids: "distinct (map j_id (b_jobs prev))" "\<forall>w \<in> set (b_workers snap). w_id w \<noteq> []"
    and snap: "active_jobs snap" "c \<in> set (cells_of snap)" "\<not> c_pending c" "c_id c \<notin> set (queued_ids snap)"
    and closed: "c_id c \<notin> set (syncLandGate Stable prev snap landed)"
  shows "c_id c \<in> handed ` set (handovers can prev snap)"
proof -
  let ?i = "c_id c"
  let ?started = "fold (started_job can prev snap) (job_map snap) []"
  let ?flew = "fold (left_job can prev snap) (job_map prev) ?started"
  from closed snap have "?i \<in> set (queued_ids prev)" by (auto simp: gate_members gate_opens_def)
  then obtain before where before: "before \<in> set (b_jobs prev)" "j_id before = ?i" "j_status before = Queued"
    by (auto simp: queued_ids_def waiting_def waits_def)
  then have prev_i: "map_of (job_map prev) ?i = Some before"
    using last_with_key [OF ids(1) before(1)] by (simp add: job_map_of job_by_id_def)
  have flew_sub: "handed ` set ?flew \<subseteq> handed ` set (handovers can prev snap)" by (auto simp: handovers_def Let_def)
  show ?thesis
  proof (cases "map_of (job_map snap) ?i")
    case None
    from prev_i have e: "(?i, before) \<in> set (job_map prev)" by (rule map_of_SomeD)
    show ?thesis
    proof (cases "?i \<in> handed ` set ?flew")
      case True
      with flew_sub show ?thesis by blast
    next
      case False
      with None before(3) snap(2) have "Reveal ?i \<in> set (grace_job snap ?flew (?i, before))"
        by (auto simp: grace_job_def list_ex_iff)
      with e have "Reveal ?i \<in> set (handovers can prev snap)" by (auto simp: handovers_def Let_def)
      then show ?thesis by (force simp: handed_def)
    qed
  next
    case (Some j)
    then have "job_by_id ?i (b_jobs snap) = Some j" by (simp add: job_map_of)
    then have j: "j \<in> set (b_jobs snap)" "j_id j = ?i" unfolding job_by_id_def by (auto dest: last_with_Some)
    from snap(1) j(1) have "j_status j = Queued \<or> j_status j = Running" by (simp add: active_jobs_def list_all_iff)
    moreover have "j_status j \<noteq> Queued"
    proof
      assume "j_status j = Queued"
      with j(1) have "j_id j \<in> set (queued_ids snap)" by (auto simp: queued_ids_def waiting_def waits_def)
      then have "?i \<in> set (queued_ids snap)" by (simp only: j(2))
      with snap(4) show False by blast
    qed
    ultimately have running: "j_status j = Running" by blast
    obtain w where w: "map_of (worker_of snap) ?i = Some w" "w \<noteq> []" using worker_of_cell [OF ids(2) snap(2)] by blast
    have added: "?i \<in> handed ` set (started_job can prev snap (?i, j) hs)" for hs
      using prev_i before(3) running w by (simp add: started_job_def or_str_def fly_adds)
    have "(?i, j) \<in> set (job_map snap)" using Some by (rule map_of_SomeD)
    then have "?i \<in> handed ` set ?started"
      by (intro fold_adds [where f = "started_job can prev snap" and e = "(?i, j)"] added) (erule started_keeps)
    then have "?i \<in> handed ` set ?flew" by (rule fold_keeps [rotated]) (rule left_keeps)
    with flew_sub show ?thesis by blast
  qed
qed

text \<open>The witness: a demo board on which a waiting request has just been placed into a cell.\<close>

definition placed_before :: board where
  "placed_before = MOCK_INFLIGHT\<lparr>b_jobs := [seed_queued ''q1'' ''m'' Chat 0 False None], b_workers := []\<rparr>"

definition placed_after :: board where
  "placed_after = MOCK_INFLIGHT\<lparr>b_jobs := [seed_running ''q1'' ''m'' Chat ''acc'' 0 0 False],
     b_workers := [seed_slot ''acc'' ''Acc'' ''kimi'' 0 False 2 [seed_cell ''q1'' ''m'' 0]]\<rparr>"

theorem no_cell_stuck_witness:
  "js ''q1'' \<in> handed ` set (handovers (\<lambda>_ _. False) placed_before placed_after)"
proof -
  let ?c = "seed_cell ''q1'' ''m'' 0"
  have "c_id ?c \<in> handed ` set (handovers (\<lambda>_ _. False) placed_before placed_after)"
    by (rule no_cell_stuck [where landed = "[]"])
      (simp_all add: placed_before_def placed_after_def seed_queued_def seed_running_def seed_slot_def seed_cell_def
        active_jobs_def cells_of_def queued_ids_def waiting_def waits_def syncLandGate_def gate_opens_def Let_def)
  then show ?thesis by (simp add: seed_cell_def)
qed

text \<open>What was handed over is landed at the end of its flight or when its timer fires.\<close>

lemma handed_lands:
  assumes "trim i \<noteq> []"
  shows "trim i \<in> set (cd_landed (land_flight (Fly i w) c))"
    "trim i \<in> set (cd_landed (land_flight (Reveal i) (hand_over (Reveal i) c)))"
  using assms by (simp_all add: land_flight_def hand_over_def markCellLanded_def scheduleCellReveal_def reveal_fires_def Let_def)

section \<open>Exits\<close>

record cell_exit =
  ex_id :: jstr
  ex_name :: jstr
  ex_kind :: job_kind
  ex_worker :: jstr
  ex_index :: nat

definition still_active :: "board \<Rightarrow> jstr \<Rightarrow> bool" where
  "still_active snap k = (case map_of (job_map snap) k of
     Some j \<Rightarrow> j_status j = Queued \<or> j_status j = Running | None \<Rightarrow> False)"

definition exit_of_cell :: "board \<Rightarrow> slot \<Rightarrow> nat \<times> cell \<Rightarrow> cell_exit" where
  "exit_of_cell prev w ic =
     (let job = map_of (job_map prev) (c_id (snd ic)) in
      \<lparr>ex_id = c_id (snd ic),
       ex_name = or_str (c_name (snd ic)) (or_str (case job of Some j \<Rightarrow> j_name j | None \<Rightarrow> []) (w_name w)),
       ex_kind = (case job of Some j \<Rightarrow> j_kind j | None \<Rightarrow> Chat), ex_worker = w_id w, ex_index = fst ic\<rparr>)"

definition add_cell_exit :: "board \<Rightarrow> board \<Rightarrow> slot \<Rightarrow> nat \<times> cell \<Rightarrow> cell_exit list \<Rightarrow> cell_exit list" where
  "add_cell_exit prev snap w ic es =
     (let k = c_id (snd ic) in
      if k \<in> c_id ` set (cells_of snap) \<or> k \<in> ex_id ` set es \<or> still_active snap k then es
      else es @ [exit_of_cell prev w ic])"

definition add_job_exit :: "board \<Rightarrow> board \<Rightarrow> jstr \<times> job \<Rightarrow> cell_exit list \<Rightarrow> cell_exit list" where
  "add_job_exit prev snap e es =
     (if j_status (snd e) \<noteq> Running \<or> fst e \<in> ex_id ` set es \<or> fst e \<in> c_id ` set (cells_of snap) \<or> still_active snap (fst e)
      then es
      else es @ [\<lparr>ex_id = fst e, ex_name = j_name (snd e), ex_kind = j_kind (snd e),
        ex_worker = opt_or (map_of (worker_of prev) (fst e)) [], ex_index = 0\<rparr>])"

definition exits :: "board \<Rightarrow> board \<Rightarrow> cell_exit list" where
  "exits prev snap =
     fold (add_job_exit prev snap) (job_map prev)
       (fold (\<lambda>w. fold (add_cell_exit prev snap w) (enumerate 0 (w_cells w))) (b_workers prev) [])"

definition exit_ok :: "board \<Rightarrow> board \<Rightarrow> jstr \<Rightarrow> bool" where
  "exit_ok prev snap k =
     (case find (\<lambda>f. f_id f = k) (b_completions snap) of
        Some f \<Rightarrow> f_ok f
      | None \<Rightarrow> (case map_of (job_map snap) k of
            Some j \<Rightarrow> if j_status j = Failed then False else if j_status j = Done then True
              else \<not> (b_failed prev < b_failed snap \<and> \<not> b_done prev < b_done snap)
          | None \<Rightarrow> \<not> (b_failed prev < b_failed snap \<and> \<not> b_done prev < b_done snap)))"

text \<open>Flights out of one slot follow each other by a tenth of a second in the order of its cells.\<close>

definition exits_of :: "jstr \<Rightarrow> cell_exit list \<Rightarrow> (cell_exit \<times> rat) list" where
  "exits_of w es = map (\<lambda>(i, e). (e, of_nat i / 10)) (enumerate 0 (sort_key ex_index (filter (\<lambda>e. ex_worker e = w) es)))"

definition retries :: "board \<Rightarrow> board \<Rightarrow> jstr list" where
  "retries prev snap =
     map fst (filter (\<lambda>e. j_status (snd e) = Running
       \<and> (case map_of (job_map snap) (fst e) of Some j \<Rightarrow> j_status j = Queued | None \<Rightarrow> False)) (job_map prev))"

definition leftQueue :: "board \<Rightarrow> board \<Rightarrow> jstr list" where
  "leftQueue prev snap =
     map fst (filter (\<lambda>e. j_status (snd e) = Queued
       \<and> (case map_of (job_map snap) (fst e) of Some j \<Rightarrow> j_status j \<noteq> Queued | None \<Rightarrow> True)) (job_map prev))"

definition exit_gone :: "board \<Rightarrow> jstr \<Rightarrow> bool" where
  "exit_gone snap k \<longleftrightarrow> k \<notin> c_id ` set (cells_of snap) \<and> \<not> still_active snap k"

definition exits_fine :: "board \<Rightarrow> cell_exit list \<Rightarrow> bool" where
  "exits_fine snap es \<longleftrightarrow> distinct (map ex_id es) \<and> list_all (\<lambda>e. exit_gone snap (ex_id e)) es"

lemma add_cell_fine: "exits_fine snap es \<Longrightarrow> exits_fine snap (add_cell_exit prev snap w ic es)"
  by (auto simp: exits_fine_def add_cell_exit_def exit_of_cell_def exit_gone_def Let_def)

lemma add_job_fine: "exits_fine snap es \<Longrightarrow> exits_fine snap (add_job_exit prev snap e es)"
  by (auto simp: exits_fine_def add_job_exit_def exit_gone_def)

lemma fold_fine: "(\<And>x es. exits_fine snap es \<Longrightarrow> exits_fine snap (f x es)) \<Longrightarrow> exits_fine snap es \<Longrightarrow> exits_fine snap (fold f xs es)"
  by (induction xs arbitrary: es) simp_all

lemma exits_fine: "exits_fine snap (exits prev snap)"
proof -
  have slot: "exits_fine snap es \<Longrightarrow> exits_fine snap (fold (add_cell_exit prev snap w) ics es)" for w ics es
    by (rule fold_fine [OF add_cell_fine])
  have "exits_fine snap []" by (simp add: exits_fine_def)
  then have "exits_fine snap (fold (\<lambda>w. fold (add_cell_exit prev snap w) (enumerate 0 (w_cells w))) (b_workers prev) [])"
    by (rule fold_fine [rotated]) (rule slot)
  then show ?thesis unfolding exits_def by (rule fold_fine [rotated]) (rule add_job_fine)
qed

text \<open>
  A request flies out at most once, only when it is gone from the board or has ended there, and it
  never flies out and back into the queue at the same time.
\<close>

theorem exits_once:
  "distinct (map ex_id (exits prev snap))
   \<and> (\<forall>e \<in> set (exits prev snap). ex_id e \<notin> c_id ` set (cells_of snap) \<and> ex_id e \<notin> set (retries prev snap))"
proof -
  have "\<not> still_active snap k" if "exit_gone snap k" for k using that by (simp add: exit_gone_def)
  moreover have "still_active snap k" if "k \<in> set (retries prev snap)" for k
    using that by (auto simp: retries_def still_active_def split: option.splits)
  ultimately show ?thesis
    using exits_fine [of snap prev] by (auto simp: exits_fine_def list_all_iff exit_gone_def)
qed

section \<open>The effect of a board\<close>

text \<open>
  \<open>handoff_effect\<close>: one run of the effect, for a page with or without motion. \<open>prev\<close> is the board of the
  run before; \<open>same\<close> says whether it is the very same object. Before the card is armed every cell is
  shown and nothing flies; it is armed by the first board of its session.
\<close>

definition bootstrapped :: "live_input option \<Rightarrow> card \<Rightarrow> bool" where
  "bootstrapped live c \<longleftrightarrow>
     cd_viewing c \<or> (live = None \<and> cd_demo c \<and> cd_fallback c) \<or> (live = None \<and> \<not> cd_demo c \<and> isIdleInflightSnapshot (cd_board c))"

definition run_gate :: "gate_mode \<Rightarrow> board \<Rightarrow> card \<Rightarrow> card" where
  "run_gate mode prev c = c\<lparr>cd_landed := syncLandGate mode prev (cd_board c) (cd_landed c)\<rparr>"

definition handoff_effect ::
  "bool \<Rightarrow> (jstr \<Rightarrow> jstr \<Rightarrow> bool) \<Rightarrow> board \<Rightarrow> bool \<Rightarrow> live_input option \<Rightarrow> card \<Rightarrow> card \<times> handover list" where
  "handoff_effect motion can prev same live c =
     (if \<not> motion \<or> \<not> cd_entered c
      then ((run_gate All_cells prev c)\<lparr>cd_entered :=
              cd_entered c \<or> (cd_expanded c \<and> motion \<and> bootstrapped live c)\<rparr>, [])
      else if same then (run_gate Stable prev c, [])
      else (let hs = handovers can prev (cd_board c) in (fold hand_over hs (run_gate Stable prev c), hs)))"

lemma hand_over_frame [simp]: "cd_landed (hand_over h c) = cd_landed c" "cd_board (hand_over h c) = cd_board c"
  by (cases h; simp add: hand_over_def scheduleCellReveal_def Let_def)+

lemma fold_hand_over_frame [simp]: "cd_landed (fold hand_over hs c) = cd_landed c"
  by (induction hs arbitrary: c) simp_all

text \<open>What an unarmed card shows: every cell that is not reserved, and no flights.\<close>

lemma first_paint:
  assumes "\<not> cd_entered c"
  shows "snd (handoff_effect motion can prev same live c) = []"
    "set (cd_landed (fst (handoff_effect motion can prev same live c))) = c_id ` {x \<in> set (cells_of (cd_board c)). \<not> c_pending x}"
  using assms gate_all [of prev "cd_board c" "cd_landed c"] by (simp_all add: handoff_effect_def run_gate_def)

section \<open>The cells of a bar and the depth curve\<close>

text \<open>A bar has as many cells as its account has slots: with what is in it, if that is shown.\<close>

definition bar_cells :: "rat \<Rightarrow> jstr list \<Rightarrow> slot \<Rightarrow> (jstr \<times> jstr) option list" where
  "bar_cells clock landed w =
     map (\<lambda>i. if i < length (occCells w) \<and> cell_shown landed (occCells w ! i)
        then Some (c_id (occCells w ! i), formatElapsed (max 0 (clock - c_started (occCells w ! i)))) else None)
       [0..<slot_cap w]"

lemma bar_cells_fit: "length (bar_cells clock landed w) = slot_cap w"
  by (simp add: bar_cells_def)

definition raw_peak :: "rat \<Rightarrow> rat list \<Rightarrow> rat" where
  "raw_peak backpressure series = max_over 1 (backpressure # series)"

text \<open>The eased peak \<open>ms\<close> milliseconds after a change; \<open>dur\<close> is the length of the ease.\<close>

definition peak_at :: "rat \<Rightarrow> rat \<Rightarrow> rat \<Rightarrow> rat \<Rightarrow> rat" where
  "peak_at dur from to ms = (let t = min 1 (ms / dur) in from + (to - from) * (1 - (1 - t) ^ 3))"

definition bandRows :: "nat \<Rightarrow> (rat \<times> rat) list \<Rightarrow> (rat \<times> rat) list" where
  "bandRows n bands =
     (let k = of_nat (max 1 (n - 1)) in map (\<lambda>(from, until). (from * k, max (from * k + 35 / 100) (until * k))) bands)"

definition yMax :: "rat \<Rightarrow> rat \<Rightarrow> rat" where
  "yMax peak backpressure = max (max peak backpressure) 1"

text \<open>The ease stays between its ends and reaches the new one.\<close>

lemma peak_between:
  assumes "0 < dur" and "0 \<le> ms"
  shows "min from to \<le> peak_at dur from to ms" "peak_at dur from to ms \<le> max from to"
    "dur \<le> ms \<Longrightarrow> peak_at dur from to ms = to"
proof -
  let ?t = "min 1 (ms / dur)"
  let ?e = "1 - (1 - ?t) ^ 3"
  have t: "0 \<le> 1 - ?t" "1 - ?t \<le> 1" using assms by simp_all
  have e: "0 \<le> ?e" "?e \<le> 1" using power_le_one [OF t, of 3] zero_le_power [OF t(1), of 3] by simp_all
  have bounds: "min from to \<le> from + (to - from) * ?e \<and> from + (to - from) * ?e \<le> max from to"
  proof (cases "from \<le> to")
    case True
    with e have "0 \<le> (to - from) * ?e" "(to - from) * ?e \<le> to - from" by (simp_all add: mult_left_le)
    with True show ?thesis by simp
  next
    case False
    with e have "0 \<le> (from - to) * ?e" "(from - to) * ?e \<le> from - to" by (simp_all add: mult_left_le)
    with False show ?thesis by (simp add: algebra_simps)
  qed
  then show "min from to \<le> peak_at dur from to ms" "peak_at dur from to ms \<le> max from to"
    unfolding peak_at_def Let_def by blast+
  show "peak_at dur from to ms = to" if "dur \<le> ms"
    using that assms by (simp add: peak_at_def)
qed

end
