(* ===== verification/Front_Add_Account.thy ===== *)
theory Front_Add_Account
  imports Front_Accounts_Page
begin

text \<open>
  The dialog that adds an account (\<open>frontend/src/components/AddAccountModal.tsx\<close>): the types of account it
  offers, the options and the bundles it sends, and its course as a machine: the sign-in in a browser
  with its polls, a pasted callback, a token, an imported bundle. A request in flight is a flow of the
  state; its answer is an argument of the step that takes it up. Fields of the form change freely.
\<close>

section \<open>Types of account\<close>

text \<open>A capability that is missing is not \<open>false\<close>.\<close>

record descriptor =
  ds_id :: jstr
  ds_label :: jstr
  ds_regions :: "(jstr \<times> jstr) list"
  ds_browser :: "bool option"
  ds_pat :: "bool option"
  ds_import :: "bool option"

record provider_option =
  po_id :: jstr
  po_provider :: jstr
  po_region :: jstr
  po_descriptor :: descriptor

definition loadProviderOptions :: "descriptor list option \<Rightarrow> provider_option list" where
  "loadProviderOptions ds =
     concat (map (\<lambda>d. map (\<lambda>(r, l). \<lparr>po_id = ds_id d @ js ''-'' @ r, po_provider = ds_id d, po_region = r, po_descriptor = d\<rparr>)
       (ds_regions d)) (opt_or ds []))"

definition regionLabels :: "(string \<times> string) list" where
  "regionLabels = [(''global'', ''Global''), (''cn'', ''CN'')]"

definition labelKeys :: "(string \<times> string) list" where
  "labelKeys =
     [(''qoder-global'', ''accountTypeQoderGlobal''), (''qoder-cn'', ''accountTypeQoderCN''),
      (''workbuddy-cn'', ''accountTypeWorkBuddyCN''), (''workbuddy-global'', ''accountTypeWorkBuddyGlobal''),
      (''trae-cn'', ''accountTypeTraeCN''), (''devin-global'', ''accountTypeDevinGlobal''),
      (''command-global'', ''accountTypeCommandGlobal''), (''codex-global'', ''accountTypeCodexGlobal''),
      (''zhipu-cn'', ''accountTypeZhipuCN''), (''qwenwork-global'', ''accountTypeQwenworkGlobal''),
      (''qwenwork-cn'', ''accountTypeQwenworkCN''), (''kimi-cn'', ''accountTypeKimiCN''),
      (''codearts-cn-north-4'', ''accountTypeCodeArtsCN''), (''meta-global'', ''accountTypeMetaGlobal'')]"

definition hintKeys :: "(string \<times> string) list" where
  "hintKeys = map (\<lambda>(k, v). (k, v @ ''Hint'')) labelKeys"

definition key_of :: "(string \<times> string) list \<Rightarrow> jstr \<Rightarrow> string option" where
  "key_of ks i = map_option snd (find (\<lambda>p. js (fst p) = i) ks)"

definition region_label :: "provider_option \<Rightarrow> jstr" where
  "region_label o' =
     (let own = opt_or (map_of (ds_regions (po_descriptor o')) (po_region o')) [] in
      if own \<noteq> [] then own else case key_of regionLabels (po_region o') of Some l \<Rightarrow> js l | None \<Rightarrow> [])"

definition optionLabel :: "translate \<Rightarrow> provider_option \<Rightarrow> jstr" where
  "optionLabel t o' =
     (let d = po_descriptor o';
          suffix = (if 1 < length (ds_regions d) \<and> region_label o' \<noteq> [] then js '' '' @ region_label o' else []);
          plain = trim (ds_label d @ suffix) in
      case key_of labelKeys (po_id o') of
        None \<Rightarrow> plain
      | Some k \<Rightarrow> if t k [] \<noteq> js k then t k [] else plain)"

definition optionHint :: "translate \<Rightarrow> provider_option option \<Rightarrow> jstr" where
  "optionHint t o' = (case o' of
     None \<Rightarrow> []
   | Some x \<Rightarrow> (case key_of hintKeys (po_id x) of None \<Rightarrow> [] | Some k \<Rightarrow> if t k [] = js k then [] else t k []))"

text \<open>Every type of account that has a label of its own has a hint, and the other way round.\<close>

lemma hints_for_labels: "key_of labelKeys i = None \<longleftrightarrow> key_of hintKeys i = None"
  by (auto simp: key_of_def hintKeys_def find_None_iff)

section \<open>What is sent\<close>

datatype tab_key = Browser | Pat | Import
datatype wizard_page = Method | Sign_in
datatype phase = Idle | Busy | Polling | Done
datatype zhipu_mode = Payg | Coding
datatype codex_login = Cli | Chatgpt

text \<open>What is typed in.\<close>

record wizard_form =
  fm_name :: jstr
  fm_max_inflight :: jsnum
  fm_priority :: jsnum
  fm_drop_system :: bool
  fm_proxy :: jstr
  fm_pat :: jstr
  fm_json :: jstr
  fm_mode :: zhipu_mode
  fm_key :: jstr
  fm_organization :: jstr
  fm_project :: jstr
  fm_callback :: jstr
  fm_codex :: codex_login

definition initial_form :: wizard_form where
  "initial_form = \<lparr>fm_name = [], fm_max_inflight = Fin 4, fm_priority = Fin 50, fm_drop_system = True, fm_proxy = [],
     fm_pat = [], fm_json = [], fm_mode = Payg, fm_key = [], fm_organization = [], fm_project = [], fm_callback = [],
     fm_codex = Cli\<rparr>"

text \<open>
  The functions that run and what each waits for: the answer of a request, or the timer between two polls,
  which has a number. \<open>wz_timers\<close> counts these timers, the last of which is \<open>pollTimer\<close>; \<open>wz_closings\<close> counts
  the timers that will close the dialog after it succeeded. Three fields are logs of this model: the requests
  sent, what was added to the gateway (an account that \<open>createAccount\<close> answered, with its id, or a bundle
  that \<open>importAccount\<close> took, which may hold several accounts), the calls of \<open>onAdded\<close>.
\<close>

datatype addition = Created jstr | Imported

datatype flow = B_creating "jstr option" | B_starting jstr | B_waiting jstr nat nat | B_asking jstr nat
  | C_creating jstr | C_sending | P_creating jstr | P_logging | Z_importing | I_importing

record wizard =
  wz_open :: bool
  wz_step :: wizard_page
  wz_tab :: tab_key
  wz_type :: jstr
  wz_options :: "provider_option list"
  wz_loading :: bool
  wz_form :: wizard_form
  wz_phase :: phase
  wz_message :: jstr
  wz_url :: jstr
  wz_created :: jstr
  wz_timers :: nat
  wz_closings :: nat
  wz_flows :: "flow list"
  wz_sent :: "outcome list"
  wz_accounts :: "addition list"
  wz_added :: nat

definition initial_wizard :: wizard where
  "initial_wizard = \<lparr>wz_open = False, wz_step = Method, wz_tab = Browser, wz_type = [], wz_options = [], wz_loading = False,
     wz_form = initial_form, wz_phase = Idle, wz_message = [], wz_url = [], wz_created = [], wz_timers = 0, wz_closings = 0,
     wz_flows = [], wz_sent = [], wz_accounts = [], wz_added = 0\<rparr>"

definition activeOption :: "wizard \<Rightarrow> provider_option option" where
  "activeOption w = find (\<lambda>o'. po_id o' = wz_type w) (wz_options w)"

definition active_provider :: "wizard \<Rightarrow> jstr option" where
  "active_provider w = map_option po_provider (activeOption w)"

definition capable :: "(descriptor \<Rightarrow> bool option) \<Rightarrow> wizard \<Rightarrow> bool" where
  "capable cap w \<longleftrightarrow> (case activeOption w of None \<Rightarrow> True | Some o' \<Rightarrow> cap (po_descriptor o') \<noteq> Some False)"

definition is_busy :: "wizard \<Rightarrow> bool" where
  "is_busy w \<longleftrightarrow> wz_phase w = Busy \<or> wz_phase w = Polling"

definition settingsLocked :: "wizard \<Rightarrow> bool" where
  "settingsLocked w \<longleftrightarrow> wz_created w \<noteq> [] \<or> is_busy w"

definition showDropSystem :: "wizard \<Rightarrow> bool" where
  "showDropSystem w \<longleftrightarrow> active_provider w \<in> Some ` {js ''workbuddy'', js ''trae''}"

definition showCallbackPaste :: "wizard \<Rightarrow> bool" where
  "showCallbackPaste w \<longleftrightarrow> active_provider w \<in> Some ` {js ''trae'', js ''devin'', js ''codex'', js ''codearts''}"

text \<open>A whole number between 1 and a limit, or the default.\<close>

definition parsed_number :: "int \<Rightarrow> int \<Rightarrow> jsnum \<Rightarrow> int" where
  "parsed_number hi d n = (case n of
     Fin q \<Rightarrow> if q = of_int \<lfloor>q\<rfloor> \<and> 1 \<le> q \<and> q \<le> of_int hi then \<lfloor>q\<rfloor> else d
   | _ \<Rightarrow> d)"

definition parsedMaxInFlight :: "wizard \<Rightarrow> int" where
  "parsedMaxInFlight w = parsed_number 32 4 (fm_max_inflight (wz_form w))"

definition parsedPriority :: "wizard \<Rightarrow> int" where
  "parsedPriority w = parsed_number 100 50 (fm_priority (wz_form w))"

definition drops_system :: "wizard \<Rightarrow> bool" where
  "drops_system w \<longleftrightarrow>
     (if showDropSystem w then fm_drop_system (wz_form w)
      else active_provider w \<noteq> Some (js ''kimi'') \<and> active_provider w \<noteq> Some (js ''codearts''))"

definition accountOptions :: "wizard \<Rightarrow> account_options" where
  "accountOptions w =
     \<lparr>ao_max_inflight = Some (Fin (of_int (parsedMaxInFlight w))), ao_priority = Some (Fin (of_int (parsedPriority w))),
      ao_drop_system = JBool (drops_system w), ao_workbuddy_checkin = Undef, ao_workbuddy_time = Undef,
      ao_auto_checkin = Undef, ao_checkin_time = Undef, ao_proxy = JStr (trim (fm_proxy (wz_form w)))\<rparr>"

definition name_or_default :: "jstr \<Rightarrow> wizard \<Rightarrow> jstr" where
  "name_or_default d w = (if trim (fm_name (wz_form w)) = [] then d else trim (fm_name (wz_form w)))"

definition creation :: "translate \<Rightarrow> provider_option \<Rightarrow> wizard \<Rightarrow> outcome" where
  "creation t o' w = createAccount (name_or_default (t ''account'' []) w) (po_provider o') (po_region o') (accountOptions w)"

lemma parsed_in_range: "1 \<le> d \<Longrightarrow> d \<le> hi \<Longrightarrow> 1 \<le> parsed_number hi d n \<and> parsed_number hi d n \<le> hi"
  by (cases n) (auto simp: parsed_number_def le_floor_iff floor_le_iff)

text \<open>Whatever was typed, the limits that are sent are those the gateway takes.\<close>

lemma limits_in_range: "1 \<le> parsedMaxInFlight w \<and> parsedMaxInFlight w \<le> 32 \<and> 1 \<le> parsedPriority w \<and> parsedPriority w \<le> 100"
  using parsed_in_range [of 4 32] parsed_in_range [of 50 100] by (simp add: parsedMaxInFlight_def parsedPriority_def)

definition mode_text :: "zhipu_mode \<Rightarrow> jsval" where
  "mode_text m = (case m of Payg \<Rightarrow> jlit ''payg'' | Coding \<Rightarrow> jlit ''coding'')"

definition zhipu_bundle :: "translate \<Rightarrow> provider_option \<Rightarrow> wizard \<Rightarrow> jsval" where
  "zhipu_bundle t o' w =
     (let coding = (\<lambda>s. JStr (if fm_mode (wz_form w) = Coding then trim s else [])) in
      obj [(''format'', jlit ''zhipu-key-v1''), (''api_key'', JStr (trim (fm_key (wz_form w)))), (''mode'', mode_text (fm_mode (wz_form w))),
        (''organization'', coding (fm_organization (wz_form w))), (''project'', coding (fm_project (wz_form w))),
        (''name'', JStr (name_or_default (t ''accountTypeZhipuCN'' []) w)), (''enabled'', JBool True),
        (''provider'', JStr (po_provider o')), (''region'', JStr (po_region o')),
        (''max_inflight'', jint (parsedMaxInFlight w)), (''priority'', jint (parsedPriority w)),
        (''drop_system_prompt'', JBool (drops_system w)), (''proxy_url'', JStr (trim (fm_proxy (wz_form w))))])"

definition default_format :: "jstr \<Rightarrow> string" where
  "default_format i =
     (if i = js ''trae'' then ''trae-oauth-v1'' else if i = js ''devin'' then ''devin-session-v1''
      else if i = js ''command'' then ''command-key-v1'' else if i = js ''qwenwork'' then ''qwenwork-oauth-v1''
      else ''qoder-native-v1'')"

text \<open>The bundle that is sent for a parsed one; \<open>None\<close> when it is refused.\<close>

definition qoder_bundle_ok :: "provider_option \<Rightarrow> jsval \<Rightarrow> bool" where
  "qoder_bundle_ok o' b \<longleftrightarrow>
     (po_provider o' = js ''qoder'' \<longrightarrow> is_string (pget b ''user_blob'') \<and> is_string (pget b ''machine_id''))"

definition workbuddy_options :: "provider_option \<Rightarrow> wizard \<Rightarrow> import_options" where
  "workbuddy_options o' w =
     \<lparr>io_region = (if po_region o' = js ''global'' then Global else Cn), io_name = str_opt (trim (fm_name (wz_form w))), io_enabled = Some True,
      io_max_inflight = Some (Fin (of_int (parsedMaxInFlight w))), io_priority = Some (Fin (of_int (parsedPriority w))),
      io_drop_system = Some (drops_system w), io_proxy = Some (trim (fm_proxy (wz_form w)))\<rparr>"

definition other_payload :: "provider_option \<Rightarrow> wizard \<Rightarrow> jsval \<Rightarrow> jsval" where
  "other_payload o' w b =
     (let b' = (if truthy (pget b ''format'') then b
                else spread_own b [(''format'', jlit (default_format (ds_id (po_descriptor o'))))]) in
      spread_own b' [(''name'', js_or (JStr (trim (fm_name (wz_form w)))) (pget b' ''name'')), (''enabled'', JBool True),
        (''provider'', JStr (po_provider o')), (''region'', JStr (po_region o')),
        (''max_inflight'', jint (parsedMaxInFlight w)), (''priority'', jint (parsedPriority w)),
        (''drop_system_prompt'', JBool (drops_system w))])"

definition import_payload :: "provider_option \<Rightarrow> wizard \<Rightarrow> jsval \<Rightarrow> jsval" where
  "import_payload o' w b =
     (if po_provider o' = js ''workbuddy'' then normalizeWorkbuddyImportBundle b (workbuddy_options o' w)
      else other_payload o' w b)"

text \<open>
  The proxy of the form is sent with an account that is created, with a key and with a WorkBuddy bundle;
  it is not sent with any other bundle.
\<close>

lemma import_drops_proxy:
  assumes "po_provider o' \<noteq> js ''workbuddy''"
  shows "pget (import_payload o' w b) ''proxy_url'' = lookup (js ''proxy_url'') (own_props b)"
proof -
  have "pget (other_payload o' w b) ''proxy_url'' = lookup (js ''proxy_url'') (own_props b)"
  proof (cases "truthy (pget b ''format'')")
    case True
    then show ?thesis by (simp add: other_payload_def pget_spread_own)
  next
    case False
    have "lookup (js ''proxy_url'') (own_props (spread_own b [(''format'', f)])) = lookup (js ''proxy_url'') (own_props b)" for f
      by (simp add: spread_own_def spread_def own_props_def [of "JObj _"])
    with False show ?thesis by (simp add: other_payload_def pget_spread_own)
  qed
  with assms show ?thesis by (simp add: import_payload_def)
qed

lemma workbuddy_keeps_proxy:
  assumes "po_provider o' = js ''workbuddy''" and "trim (fm_proxy (wz_form w)) \<noteq> []"
  shows "pget (import_payload o' w b) ''proxy_url'' = JStr (trim (fm_proxy (wz_form w)))"
  using assms by (simp add: import_payload_def normalizeWorkbuddyImportBundle_def workbuddy_options_def Let_def pget_spread str_or_empty_def)

section \<open>The course of the dialog\<close>

subsection \<open>Opening, closing, choosing\<close>

text \<open>\<open>reset\<close> leaves the log, the functions that run and the closing timers alone, and clears the timer of a poll.\<close>

definition stop_polling :: "wizard \<Rightarrow> wizard" where
  "stop_polling w = w\<lparr>wz_flows := filter (\<lambda>f. case f of B_waiting i n k \<Rightarrow> k \<noteq> wz_timers w | _ \<Rightarrow> True) (wz_flows w)\<rparr>"

definition reset :: "wizard \<Rightarrow> wizard" where
  "reset w = (stop_polling w)\<lparr>wz_step := Method, wz_tab := Browser, wz_type := [], wz_options := [], wz_loading := False,
     wz_form := initial_form, wz_phase := Idle, wz_message := [], wz_url := [], wz_created := []\<rparr>"

definition close :: "wizard \<Rightarrow> wizard" where
  "close w = (if is_busy w then w else (reset w)\<lparr>wz_open := False\<rparr>)"

definition finishAndClose :: "wizard \<Rightarrow> wizard" where
  "finishAndClose w = (reset w)\<lparr>wz_open := False, wz_closings := wz_closings w - 1\<rparr>"

definition opened :: "wizard \<Rightarrow> wizard" where
  "opened w = w\<lparr>wz_open := True, wz_loading := True, wz_options := [], wz_type := []\<rparr>"

text \<open>
  The two effects on the tab: the first after a render in which the tab or what the type offers changed, the
  second only when what it offers changed. Both read the values of that render; the second writes last.
\<close>

definition offers :: "wizard \<Rightarrow> bool \<times> bool \<times> bool" where
  "offers w = (capable ds_browser w, capable ds_pat w, capable ds_import w)"

definition tab_offered :: "tab_key \<Rightarrow> wizard \<Rightarrow> bool" where
  "tab_offered k w = (case k of Browser \<Rightarrow> capable ds_browser w | Pat \<Rightarrow> capable ds_pat w | Import \<Rightarrow> capable ds_import w)"

definition settle_tab :: "wizard \<Rightarrow> wizard \<Rightarrow> wizard" where
  "settle_tab old w =
     (let k = (if wz_tab w \<noteq> Browser \<and> \<not> tab_offered (wz_tab w) w then Browser else wz_tab w) in
      w\<lparr>wz_tab := (if offers w \<noteq> offers old \<and> \<not> capable ds_browser w
                   then (if capable ds_pat w then Pat else if capable ds_import w then Import else k) else k)\<rparr>)"

definition types_loaded :: "provider_option list \<Rightarrow> wizard \<Rightarrow> wizard" where
  "types_loaded os w = settle_tab w (w\<lparr>wz_options := os, wz_type := [], wz_tab := Browser, wz_loading := False\<rparr>)"

definition typesReady :: "wizard \<Rightarrow> bool" where
  "typesReady w \<longleftrightarrow> \<not> wz_loading w \<and> wz_options w \<noteq> []"

definition chosen_drop_system :: "jstr option \<Rightarrow> bool" where
  "chosen_drop_system p \<longleftrightarrow> p \<notin> Some ` {js ''trae'', js ''kimi'', js ''codearts''}"

definition chooseProvider :: "jstr \<Rightarrow> wizard \<Rightarrow> wizard" where
  "chooseProvider i w =
     (if is_busy w \<or> \<not> typesReady w then w
      else let p = map_option po_provider (find (\<lambda>o'. po_id o' = i) (wz_options w)) in
        settle_tab w (w\<lparr>wz_type := i, wz_tab := (if p = Some (js ''zhipu'') then Pat else Browser),
          wz_form := (wz_form w)\<lparr>fm_drop_system := chosen_drop_system p\<rparr>, wz_message := [], wz_step := Sign_in\<rparr>))"

definition step_back :: "wizard \<Rightarrow> wizard" where
  "step_back w = w\<lparr>wz_step := Method\<rparr>"

definition select_tab :: "tab_key \<Rightarrow> wizard \<Rightarrow> wizard" where
  "select_tab k w = (if is_busy w \<or> k = wz_tab w then w else settle_tab w (w\<lparr>wz_tab := k, wz_message := [], wz_url := []\<rparr>))"

subsection \<open>Signing in\<close>

definition with_flow :: "flow \<Rightarrow> wizard \<Rightarrow> wizard" where
  "with_flow f w = w\<lparr>wz_flows := f # wz_flows w\<rparr>"

definition without_flow :: "flow \<Rightarrow> wizard \<Rightarrow> wizard" where
  "without_flow f w = w\<lparr>wz_flows := remove1 f (wz_flows w)\<rparr>"

definition send_out :: "outcome \<Rightarrow> wizard \<Rightarrow> wizard" where
  "send_out q w = w\<lparr>wz_sent := wz_sent w @ [q]\<rparr>"

definition say :: "phase \<Rightarrow> jstr \<Rightarrow> wizard \<Rightarrow> wizard" where
  "say p m w = w\<lparr>wz_phase := p, wz_message := m\<rparr>"

definition succeed :: "jstr \<Rightarrow> wizard \<Rightarrow> wizard" where
  "succeed m w = (say Done m w)\<lparr>wz_added := wz_added w + 1, wz_closings := wz_closings w + 1\<rparr>"

text \<open>
  \<open>ensureAccount\<close>: the account of this dialog, or one is created. What follows is \<open>cont\<close>, with its id; while the
  request runs the function is the flow \<open>f\<close>. An answer is an error, or the id (no text when it has none).
\<close>

definition ensure_account :: "translate \<Rightarrow> flow \<Rightarrow> phase \<Rightarrow> (jstr \<Rightarrow> wizard \<Rightarrow> wizard) \<Rightarrow> wizard \<Rightarrow> wizard" where
  "ensure_account t f refused cont w =
     (if wz_created w \<noteq> [] then cont (wz_created w) w
      else case activeOption w of
        None \<Rightarrow> say refused (t ''accountTypeHint'' []) w
      | Some o' \<Rightarrow> with_flow f (send_out (creation t o' w) w))"

definition account_answer :: "flow \<Rightarrow> phase \<Rightarrow> (jstr \<Rightarrow> wizard \<Rightarrow> wizard) \<Rightarrow> jstr + jstr \<Rightarrow> wizard \<Rightarrow> wizard" where
  "account_answer f refused cont a w = (case a of
     Inl e \<Rightarrow> say refused e (without_flow f w)
   | Inr i \<Rightarrow> if i = [] then say refused (js ''create account returned no id'') (without_flow f w)
       else cont i ((without_flow f w)\<lparr>wz_created := i, wz_accounts := wz_accounts w @ [Created i]\<rparr>))"

text \<open>In a browser: the session, then at most ninety polls, with a timer before each.\<close>

definition POLL_ATTEMPTS :: nat where
  "POLL_ATTEMPTS = 90"

definition login_method :: "wizard \<Rightarrow> jstr option" where
  "login_method w =
     (if active_provider w = Some (js ''codex'')
      then Some (case fm_codex (wz_form w) of Cli \<Rightarrow> js ''cli'' | Chatgpt \<Rightarrow> js ''chatgpt'') else None)"

definition browser_session :: "translate \<Rightarrow> jstr option \<Rightarrow> jstr \<Rightarrow> wizard \<Rightarrow> wizard" where
  "browser_session t m i w =
     with_flow (B_starting i)
       (send_out (startDeviceLogin (Some i) m) (say Polling (t ''wizardStartingSession'' []) w))"

definition wait_poll :: "jstr \<Rightarrow> nat \<Rightarrow> wizard \<Rightarrow> wizard" where
  "wait_poll i n w = with_flow (B_waiting i n (wz_timers w + 1)) (w\<lparr>wz_timers := wz_timers w + 1\<rparr>)"

definition runBrowser :: "translate \<Rightarrow> wizard \<Rightarrow> wizard" where
  "runBrowser t w =
     ensure_account t (B_creating (login_method w)) Idle (browser_session t (login_method w))
       (w\<lparr>wz_message := [], wz_url := [], wz_phase := Busy\<rparr>)"

definition browser_created :: "translate \<Rightarrow> jstr option \<Rightarrow> jstr + jstr \<Rightarrow> wizard \<Rightarrow> wizard" where
  "browser_created t m a w = account_answer (B_creating m) Idle (browser_session t m) a w"

definition browser_started :: "translate \<Rightarrow> jstr \<Rightarrow> jstr + jstr option \<Rightarrow> wizard \<Rightarrow> wizard" where
  "browser_started t i a w = (case a of
     Inl e \<Rightarrow> say Idle e (without_flow (B_starting i) w)
   | Inr url \<Rightarrow> wait_poll i 0 ((without_flow (B_starting i) w)
       \<lparr>wz_url := (if str_or_empty url = [] then wz_url w else str_or_empty url), wz_message := t ''wizardWaitingBrowser'' []\<rparr>))"

definition browser_tick :: "jstr \<Rightarrow> nat \<Rightarrow> nat \<Rightarrow> wizard \<Rightarrow> wizard" where
  "browser_tick i n k w = with_flow (B_asking i n) (send_out (fetchLoginStatus (Some i)) (without_flow (B_waiting i n k) w))"

definition browser_status :: "translate \<Rightarrow> jstr \<Rightarrow> nat \<Rightarrow> jstr + login_status \<Rightarrow> wizard \<Rightarrow> wizard" where
  "browser_status t i n a w =
     (let v = without_flow (B_asking i n) w in
      case a of
        Inl e \<Rightarrow> say Idle e v
      | Inr l \<Rightarrow>
          (let m = str_or_empty (ls_message l); u = (if m = [] then v else v\<lparr>wz_message := m\<rparr>) in
           if ls_status l = Some (js ''ok'') then succeed (t ''wizardAccountReady'' []) u
           else if ls_status l = Some (js ''error'') then say Idle (if m = [] then js ''login failed'' else m) u
           else if n + 1 = POLL_ATTEMPTS then say Idle (t ''wizardLoginTimeout'' []) u
           else wait_poll i (n + 1) u))"

text \<open>A pasted callback. A refused one leaves the phase \<open>polling\<close>, whatever it was before.\<close>

definition send_callback :: "jstr \<Rightarrow> jstr \<Rightarrow> wizard \<Rightarrow> wizard" where
  "send_callback url i w = with_flow C_sending (send_out (completeLoginCallback (Some i) url) (stop_polling w))"

definition runCallback :: "translate \<Rightarrow> wizard \<Rightarrow> wizard" where
  "runCallback t w =
     (let url = trim (fm_callback (wz_form w)) in
      if url = [] then w\<lparr>wz_message := t ''wizardCallbackPh'' []\<rparr>
      else ensure_account t (C_creating url) Polling (send_callback url) (w\<lparr>wz_phase := Busy\<rparr>))"

definition callback_created :: "jstr \<Rightarrow> jstr + jstr \<Rightarrow> wizard \<Rightarrow> wizard" where
  "callback_created url a w = account_answer (C_creating url) Polling (send_callback url) a w"

definition callback_answer :: "translate \<Rightarrow> jstr option \<Rightarrow> wizard \<Rightarrow> wizard" where
  "callback_answer t e w =
     (let v = without_flow C_sending w in
      case e of None \<Rightarrow> succeed (t ''wizardAccountReady'' []) v | Some m \<Rightarrow> say Polling m v)"

text \<open>A token.\<close>

definition send_pat :: "translate \<Rightarrow> jstr \<Rightarrow> jstr \<Rightarrow> wizard \<Rightarrow> wizard" where
  "send_pat t token i w =
     with_flow P_logging (send_out (loginWithPat token (Some i)) (w\<lparr>wz_message := t ''wizardStartingSession'' []\<rparr>))"

definition runPat :: "translate \<Rightarrow> wizard \<Rightarrow> wizard" where
  "runPat t w =
     (let token = trim (fm_pat (wz_form w)) in
      if token = [] then w\<lparr>wz_message := t ''pastePatFirst'' []\<rparr>
      else ensure_account t (P_creating token) Idle (send_pat t token) (say Busy [] w))"

definition pat_created :: "translate \<Rightarrow> jstr \<Rightarrow> jstr + jstr \<Rightarrow> wizard \<Rightarrow> wizard" where
  "pat_created t token a w = account_answer (P_creating token) Idle (send_pat t token) a w"

definition pat_answer :: "translate \<Rightarrow> jstr option \<Rightarrow> wizard \<Rightarrow> wizard" where
  "pat_answer t e w =
     (let v = without_flow P_logging w in case e of None \<Rightarrow> succeed (t ''patDone'' []) v | Some m \<Rightarrow> say Idle m v)"

text \<open>A key, or a bundle of another gateway.\<close>

definition imported :: "wizard \<Rightarrow> wizard" where
  "imported w = w\<lparr>wz_accounts := wz_accounts w @ [Imported]\<rparr>"

definition runZhipu :: "translate \<Rightarrow> wizard \<Rightarrow> wizard" where
  "runZhipu t w =
     (if trim (fm_key (wz_form w)) = [] then w\<lparr>wz_message := t ''zhipuKeyRequired'' []\<rparr>
      else case activeOption w of
        None \<Rightarrow> w\<lparr>wz_message := t ''accountTypeHint'' []\<rparr>
      | Some o' \<Rightarrow> with_flow Z_importing (send_out (importAccount (zhipu_bundle t o' w)) (say Busy [] w)))"

definition zhipu_answer :: "translate \<Rightarrow> jstr option \<Rightarrow> wizard \<Rightarrow> wizard" where
  "zhipu_answer t e w =
     (let v = without_flow Z_importing w in
      case e of None \<Rightarrow> succeed (t ''wizardAccountReady'' []) (imported v) | Some m \<Rightarrow> say Idle m v)"

definition runImport :: "translate \<Rightarrow> wizard \<Rightarrow> wizard" where
  "runImport t w =
     (case json_parse (fm_json (wz_form w)) of
        None \<Rightarrow> w\<lparr>wz_message := t ''wizardBadJson'' []\<rparr>
      | Some b \<Rightarrow>
          if \<not> is_object b then w\<lparr>wz_message := t ''wizardBadJson'' []\<rparr>
          else case activeOption w of
            None \<Rightarrow> w\<lparr>wz_message := t ''accountTypeHint'' []\<rparr>
          | Some o' \<Rightarrow>
              if \<not> qoder_bundle_ok o' b then w\<lparr>wz_message := t ''wizardBadJson'' []\<rparr>
              else with_flow I_importing (send_out (importAccount (import_payload o' w b)) (say Busy [] w)))"

definition import_answer :: "translate \<Rightarrow> jstr + jsval \<Rightarrow> wizard \<Rightarrow> wizard" where
  "import_answer t a w =
     (let v = without_flow I_importing w in
      case a of
        Inl m \<Rightarrow> say Idle m v
      | Inr r \<Rightarrow> succeed (snd (snd (summarizeWorkbuddyImportResult r (\<lambda>k. t k [])))) (imported v))"

section \<open>Steps\<close>

definition is_zhipu :: "wizard \<Rightarrow> bool" where
  "is_zhipu w \<longleftrightarrow> active_provider w = Some (js ''zhipu'')"

text \<open>A button of the second page can be pressed; the tabs are those of the types that are not Zhipu.\<close>

definition pressable :: "wizard \<Rightarrow> bool" where
  "pressable w \<longleftrightarrow> wz_open w \<and> wz_step w = Sign_in \<and> wz_phase w \<noteq> Done"

definition on_tab :: "tab_key \<Rightarrow> wizard \<Rightarrow> bool" where
  "on_tab k w \<longleftrightarrow> pressable w \<and> \<not> is_zhipu w \<and> wz_tab w = k"

text \<open>Which fields can change: a file that is being read writes the bundle at any time.\<close>

definition form_change :: "wizard \<Rightarrow> wizard_form \<Rightarrow> bool" where
  "form_change w f \<longleftrightarrow>
     (settingsLocked w \<longrightarrow> fm_name f = fm_name (wz_form w) \<and> fm_max_inflight f = fm_max_inflight (wz_form w) \<and>
        fm_priority f = fm_priority (wz_form w) \<and> fm_drop_system f = fm_drop_system (wz_form w) \<and>
        fm_proxy f = fm_proxy (wz_form w) \<and> fm_codex f = fm_codex (wz_form w)) \<and>
     (is_busy w \<longrightarrow> fm_pat f = fm_pat (wz_form w) \<and> fm_mode f = fm_mode (wz_form w) \<and> fm_key f = fm_key (wz_form w) \<and>
        fm_organization f = fm_organization (wz_form w) \<and> fm_project f = fm_project (wz_form w)) \<and>
     (wz_phase w = Done \<longrightarrow> fm_callback f = fm_callback (wz_form w))"

inductive dialog_step :: "translate \<Rightarrow> wizard \<Rightarrow> wizard \<Rightarrow> bool" for t where
  Loaded: "wz_loading w \<Longrightarrow> dialog_step t w (types_loaded (loadProviderOptions ds) w)"
| Choose: "wz_open w \<Longrightarrow> wz_step w = Method \<Longrightarrow> \<not> settingsLocked w \<Longrightarrow> dialog_step t w (chooseProvider i w)"
| Back: "wz_open w \<Longrightarrow> \<not> is_busy w \<Longrightarrow> wz_created w = [] \<Longrightarrow> dialog_step t w (step_back w)"
| Tab: "wz_open w \<Longrightarrow> wz_step w = Sign_in \<Longrightarrow> \<not> is_zhipu w \<Longrightarrow> tab_offered k w \<Longrightarrow> dialog_step t w (select_tab k w)"
| Form: "form_change w f \<Longrightarrow> dialog_step t w (w\<lparr>wz_form := f\<rparr>)"
| Browser_press: "on_tab Browser w \<Longrightarrow> \<not> is_busy w \<Longrightarrow> dialog_step t w (runBrowser t w)"
| Browser_created: "B_creating m \<in> set (wz_flows w) \<Longrightarrow> dialog_step t w (browser_created t m a w)"
| Browser_started: "B_starting i \<in> set (wz_flows w) \<Longrightarrow> dialog_step t w (browser_started t i u w)"
| Browser_tick: "B_waiting i n k \<in> set (wz_flows w) \<Longrightarrow> dialog_step t w (browser_tick i n k w)"
| Browser_status: "B_asking i n \<in> set (wz_flows w) \<Longrightarrow> dialog_step t w (browser_status t i n l w)"
| Callback_press: "on_tab Browser w \<Longrightarrow> showCallbackPaste w \<Longrightarrow>
    \<not> (wz_phase w = Busy \<and> trim (fm_callback (wz_form w)) \<noteq> []) \<Longrightarrow> dialog_step t w (runCallback t w)"
| Callback_created: "C_creating url \<in> set (wz_flows w) \<Longrightarrow> dialog_step t w (callback_created url a w)"
| Callback_answer: "C_sending \<in> set (wz_flows w) \<Longrightarrow> dialog_step t w (callback_answer t e w)"
| Pat_press: "on_tab Pat w \<Longrightarrow> \<not> is_busy w \<Longrightarrow> dialog_step t w (runPat t w)"
| Pat_created: "P_creating token \<in> set (wz_flows w) \<Longrightarrow> dialog_step t w (pat_created t token a w)"
| Pat_answer: "P_logging \<in> set (wz_flows w) \<Longrightarrow> dialog_step t w (pat_answer t e w)"
| Zhipu_press: "pressable w \<Longrightarrow> is_zhipu w \<Longrightarrow> wz_phase w \<noteq> Busy \<Longrightarrow> dialog_step t w (runZhipu t w)"
| Zhipu_answer: "Z_importing \<in> set (wz_flows w) \<Longrightarrow> dialog_step t w (zhipu_answer t e w)"
| Import_press: "on_tab Import w \<Longrightarrow> \<not> is_busy w \<Longrightarrow> dialog_step t w (runImport t w)"
| Import_answer: "I_importing \<in> set (wz_flows w) \<Longrightarrow> dialog_step t w (import_answer t r w)"

text \<open>One session is what happens from an opening of a new dialog until it is closed.\<close>

inductive session :: "translate \<Rightarrow> wizard \<Rightarrow> bool" for t where
  session_opened: "session t (opened initial_wizard)"
| session_step: "session t w \<Longrightarrow> dialog_step t w w' \<Longrightarrow> session t w'"

text \<open>All that happens: the dialog is closed by its user or by a timer, and opened again.\<close>

inductive wizard_step :: "translate \<Rightarrow> wizard \<Rightarrow> wizard \<Rightarrow> bool" for t where
  Inside: "dialog_step t w w' \<Longrightarrow> wizard_step t w w'"
| Open: "\<not> wz_open w \<Longrightarrow> wizard_step t w (opened w)"
| Close: "wz_open w \<Longrightarrow> wizard_step t w (close w)"
| Finish: "0 < wz_closings w \<Longrightarrow> wizard_step t w (finishAndClose w)"

inductive wizard_reachable :: "translate \<Rightarrow> wizard \<Rightarrow> bool" for t where
  wizard_initial: "wizard_reachable t initial_wizard"
| wizard_next: "wizard_reachable t w \<Longrightarrow> wizard_step t w w' \<Longrightarrow> wizard_reachable t w'"

lemma session_reachable: "session t w \<Longrightarrow> wizard_reachable t w"
proof (induction rule: session.induct)
  case session_opened
  have "wizard_step t initial_wizard (opened initial_wizard)"
    by (rule Open) (simp add: initial_wizard_def)
  then show ?case by (rule wizard_next [OF wizard_initial])
next
  case (session_step w w')
  then show ?case by (blast intro: wizard_next Inside)
qed

subsection \<open>The tab of a chosen type\<close>

text \<open>
  When what the new type offers is not what the old one did, the dialog shows a tab that it offers, if there
  is one. Otherwise nothing moves it from the tab of the browser.
\<close>

definition other_tabs :: "wizard \<Rightarrow> bool" where
  "other_tabs w \<longleftrightarrow> capable ds_pat w \<or> capable ds_import w"

lemma capable_tab: "capable c (w\<lparr>wz_tab := k\<rparr>) = capable c w"
  by (simp add: capable_def activeOption_def)

lemma offered_tab: "tab_offered j (w\<lparr>wz_tab := k\<rparr>) = tab_offered j w"
  by (cases j) (simp_all add: tab_offered_def capable_tab)

lemma settled_tab:
  assumes "offers w \<noteq> offers old \<or> capable ds_browser w" and "capable ds_browser w \<or> other_tabs w"
  shows "tab_offered (wz_tab (settle_tab old w)) (settle_tab old w)"
proof (cases "capable ds_browser w")
  case True
  then have "tab_offered Browser w" by (simp add: tab_offered_def)
  with True show ?thesis by (cases "wz_tab w = Browser") (simp_all add: settle_tab_def offered_tab Let_def)
next
  case False
  with assms have "offers w \<noteq> offers old" and "other_tabs w" by simp_all
  with False have "wz_tab (settle_tab old w) = (if capable ds_pat w then Pat else Import)"
    by (auto simp: settle_tab_def other_tabs_def)
  moreover have "settle_tab old w = w\<lparr>wz_tab := wz_tab (settle_tab old w)\<rparr>" by (simp add: settle_tab_def Let_def)
  ultimately have "settle_tab old w = w\<lparr>wz_tab := if capable ds_pat w then Pat else Import\<rparr>" by metis
  with \<open>other_tabs w\<close> show ?thesis by (simp add: offered_tab other_tabs_def) (auto simp: tab_offered_def)
qed

text \<open>
  So the first type chosen shows what it offers, but the second of two types that offer the same, or the same
  type again, can stand on the tab of a browser it has not.
\<close>

lemma offers_unchosen: "activeOption w = None \<Longrightarrow> offers w = (True, True, True)"
  by (simp add: offers_def capable_def)

definition command_option :: provider_option where
  "command_option = \<lparr>po_id = js ''command-global'', po_provider = js ''command'', po_region = js ''global'',
     po_descriptor = \<lparr>ds_id = js ''command'', ds_label = js ''Command Code'', ds_regions = [(js ''global'', js ''Global'')],
       ds_browser = Some False, ds_pat = Some True, ds_import = Some True\<rparr>\<rparr>"

definition typed_dialog :: wizard where
  "typed_dialog = initial_wizard\<lparr>wz_open := True, wz_options := [command_option]\<rparr>"

lemma choice_lands_on_token_then_on_browser:
  "let w = chooseProvider (js ''command-global'') typed_dialog;
       v = chooseProvider (js ''command-global'') (step_back w)
   in wz_tab w = Pat \<and> wz_tab v = Browser \<and> \<not> tab_offered Browser v"
  by code_simp

lemma second_choice_lands_on_browser:
  "\<exists>w. session t w \<and> wz_step w = Sign_in \<and> wz_phase w = Idle \<and> wz_tab w = Browser \<and> \<not> tab_offered Browser w"
proof -
  define l where "l = types_loaded (loadProviderOptions (Some [po_descriptor command_option])) (opened initial_wizard)"
  have "session t l" unfolding l_def
    by (rule session_step [OF session_opened Loaded]) (simp add: opened_def)
  moreover have "js ''command'' @ js ''-'' @ js ''global'' = js ''command-global''" by code_simp
  then have l: "l = typed_dialog" unfolding l_def
    by (simp add: typed_dialog_def types_loaded_def opened_def initial_wizard_def command_option_def loadProviderOptions_def
        opt_or_def settle_tab_def offers_def capable_def activeOption_def)
  ultimately have s: "session t typed_dialog" by simp
  let ?w = "chooseProvider (js ''command-global'') typed_dialog"
  let ?b = "step_back ?w"
  let ?v = "chooseProvider (js ''command-global'') ?b"
  have "session t ?w"
    by (rule session_step [OF s Choose]) (simp_all add: typed_dialog_def initial_wizard_def settingsLocked_def is_busy_def)
  moreover have "wz_open ?w" "\<not> is_busy ?w" "wz_created ?w = []" by code_simp+
  ultimately have "session t ?b" by (blast intro: session_step Back)
  moreover have "wz_open ?b" "wz_step ?b = Method" "\<not> settingsLocked ?b" by code_simp+
  ultimately have "session t ?v" by (blast intro: session_step Choose)
  moreover have "wz_step ?v = Sign_in \<and> wz_phase ?v = Idle \<and> wz_tab ?v = Browser \<and> \<not> tab_offered Browser ?v" by code_simp
  ultimately show ?thesis by blast
qed

subsection \<open>A busy dialog has a request in flight\<close>

definition creating :: "flow \<Rightarrow> bool" where
  "creating f \<longleftrightarrow> (case f of B_creating m \<Rightarrow> True | C_creating u \<Rightarrow> True | P_creating p \<Rightarrow> True | _ \<Rightarrow> False)"

definition importing :: "flow \<Rightarrow> bool" where
  "importing f \<longleftrightarrow> f = Z_importing \<or> f = I_importing"

definition working :: "flow \<Rightarrow> bool" where
  "working f \<longleftrightarrow> creating f \<or> importing f \<or> f = C_sending \<or> f = P_logging"

lemma flow_kinds [simp]:
  "creating (B_creating m)" "creating (C_creating u)" "creating (P_creating p)" "\<not> creating (B_starting i)"
  "\<not> creating (B_waiting i n k)" "\<not> creating (B_asking i n)" "\<not> creating C_sending" "\<not> creating P_logging"
  "\<not> creating Z_importing" "\<not> creating I_importing" "importing Z_importing" "importing I_importing"
  "\<not> importing (B_creating m)" "\<not> importing (C_creating u)" "\<not> importing (P_creating p)" "\<not> importing (B_starting i)"
  "\<not> importing (B_waiting i n k)" "\<not> importing (B_asking i n)" "\<not> importing C_sending" "\<not> importing P_logging"
  by (simp_all add: creating_def importing_def)

text \<open>What the invariants are about: the phase, the flows, the account and those that were created.\<close>

definition core :: "wizard \<Rightarrow> phase \<times> flow list \<times> jstr \<times> addition list" where
  "core w = (wz_phase w, wz_flows w, wz_created w, wz_accounts w)"

lemma core_frame:
  "core (settle_tab old w) = core w" "core (step_back w) = core w" "core (w\<lparr>wz_form := f\<rparr>) = core w"
  "core (opened w) = core w" "core (types_loaded os w) = core w" "core (chooseProvider i w) = core w"
  "core (select_tab k w) = core w" "core (send_out q w) = core w"
  by (simp_all add: core_def settle_tab_def step_back_def opened_def types_loaded_def chooseProvider_def select_tab_def send_out_def Let_def)

definition busy_ok :: "wizard \<Rightarrow> bool" where
  "busy_ok w \<longleftrightarrow> (wz_phase w = Busy \<longrightarrow> list_ex working (wz_flows w))"

lemma busy_core: "core v = core w \<Longrightarrow> busy_ok v = busy_ok w"
  by (simp add: core_def busy_ok_def)

lemma working_kinds [simp]:
  "working (B_creating m)" "working (C_creating u)" "working (P_creating p)" "working C_sending" "working P_logging"
  "working Z_importing" "working I_importing" "\<not> working (B_starting i)" "\<not> working (B_waiting i n k)" "\<not> working (B_asking i n)"
  by (simp_all add: working_def)

lemma working_left: "\<not> working f \<Longrightarrow> list_ex working (remove1 f fs) = list_ex working fs"
  by (induction fs) auto

lemma working_stopped: "list_ex working (wz_flows (stop_polling w)) = list_ex working (wz_flows w)"
proof -
  have "list_ex working (filter (\<lambda>f. case f of B_waiting i n k \<Rightarrow> k \<noteq> m | _ \<Rightarrow> True) fs) = list_ex working fs" for m fs
    by (induction fs) (auto split: flow.splits)
  then show ?thesis by (simp add: stop_polling_def)
qed

lemma stop_polling_phase: "wz_phase (stop_polling w) = wz_phase w"
  by (simp add: stop_polling_def)

lemmas flow_defs = with_flow_def without_flow_def send_out_def say_def succeed_def

lemma busy_say: "p \<noteq> Busy \<Longrightarrow> busy_ok (say p m w)"
  by (simp add: busy_ok_def say_def)

lemma busy_succeed: "busy_ok (succeed m w)"
  by (simp add: busy_ok_def say_def succeed_def)

lemma busy_with: "working f \<Longrightarrow> busy_ok (with_flow f w)"
  by (simp add: busy_ok_def with_flow_def)

lemma busy_session: "busy_ok (browser_session t m i w)"
  by (simp add: busy_ok_def browser_session_def flow_defs)

lemma busy_wait: "busy_ok w \<Longrightarrow> busy_ok (wait_poll i n w)"
  by (simp add: busy_ok_def wait_poll_def with_flow_def)

lemma busy_without: "busy_ok w \<Longrightarrow> \<not> working f \<Longrightarrow> busy_ok (without_flow f w)"
  by (simp add: busy_ok_def without_flow_def working_left)

lemma busy_send_callback: "busy_ok (send_callback u i w)"
  by (simp add: send_callback_def busy_with)

lemma busy_send_pat: "busy_ok (send_pat t p i w)"
  by (simp add: send_pat_def busy_with)

lemma busy_ensure:
  assumes "working f" and "r \<noteq> Busy" and "\<And>i v. busy_ok (cont i v)"
  shows "busy_ok (ensure_account t f r cont w)"
  using assms by (auto simp: ensure_account_def busy_say busy_with split: option.split)

lemma busy_account:
  assumes "r \<noteq> Busy" and "\<And>i v. busy_ok (cont i v)"
  shows "busy_ok (account_answer f r cont a w)"
  using assms by (auto simp: account_answer_def busy_say split: sum.split)

lemmas busy_rules = busy_say busy_succeed busy_with busy_session busy_wait busy_without busy_send_callback busy_send_pat
  busy_ensure busy_account

lemma busy_message: "busy_ok (w\<lparr>wz_message := m\<rparr>) = busy_ok w" "busy_ok (w\<lparr>wz_url := u\<rparr>) = busy_ok w"
  by (simp_all add: busy_ok_def)

lemma busy_dialog: "dialog_step t w w' \<Longrightarrow> busy_ok w \<Longrightarrow> busy_ok w'"
proof (induction rule: dialog_step.induct)
  case (Browser_started i w u)
  then show ?case by (auto simp: browser_started_def busy_message busy_rules split: sum.split)
next
  case (Browser_tick i n k w)
  then show ?case
    by (simp add: browser_tick_def busy_ok_def flow_defs working_left)
next
  case (Browser_status i n w l)
  then show ?case by (auto simp: browser_status_def busy_message busy_rules Let_def split: sum.split)
qed (auto simp: busy_core [OF core_frame(1)] busy_core [OF core_frame(2)] busy_core [OF core_frame(3)] busy_core [OF core_frame(5)]
    busy_core [OF core_frame(6)] busy_core [OF core_frame(7)] runBrowser_def browser_created_def runCallback_def callback_created_def
    callback_answer_def runPat_def pat_created_def pat_answer_def runZhipu_def zhipu_answer_def runImport_def import_answer_def
    busy_message busy_rules Let_def split: option.split sum.split)

lemma busy_reset: "busy_ok (reset w)"
  by (simp add: busy_ok_def reset_def)

lemma busy_step: "wizard_step t w w' \<Longrightarrow> busy_ok w \<Longrightarrow> busy_ok w'"
proof (induction rule: wizard_step.induct)
  case (Inside w w')
  then show ?case by (rule busy_dialog)
next
  case (Open w)
  then show ?case by (simp add: busy_core [OF core_frame(4)])
next
  case (Close w)
  then show ?case using busy_reset [of w] by (simp add: close_def busy_ok_def)
next
  case (Finish w)
  then show ?case using busy_reset [of w] by (simp add: finishAndClose_def busy_ok_def)
qed

lemma busy_has_request: "wizard_reachable t w \<Longrightarrow> wz_phase w = Busy \<Longrightarrow> \<exists>f \<in> set (wz_flows w). working f"
proof -
  have "wizard_reachable t w \<Longrightarrow> busy_ok w"
  proof (induction rule: wizard_reachable.induct)
    case wizard_initial
    then show ?case by (simp add: busy_ok_def initial_wizard_def)
  next
    case (wizard_next w w')
    then show ?case by (blast intro: busy_step)
  qed
  then show "wizard_reachable t w \<Longrightarrow> wz_phase w = Busy \<Longrightarrow> \<exists>f \<in> set (wz_flows w). working f"
    by (simp add: busy_ok_def list_ex_iff)
qed

subsection \<open>One created account for a session\<close>

text \<open>
  Before it has an account, the dialog runs one request at most, which creates one or imports a bundle, and is
  busy while it does; when a bundle was taken it is done. When it has an account, nothing creates another and
  the browser's sign-in and its polls are for that account; bundles can still be imported.
\<close>

definition serves :: "jstr \<Rightarrow> flow \<Rightarrow> bool" where
  "serves i f \<longleftrightarrow> (case f of B_starting j \<Rightarrow> j = i | B_waiting j n k \<Rightarrow> j = i | B_asking j n \<Rightarrow> j = i | _ \<Rightarrow> \<not> creating f)"

lemma serves_kinds [simp]:
  "serves i (B_starting j) = (j = i)" "serves i (B_waiting j n k) = (j = i)" "serves i (B_asking j n) = (j = i)"
  "serves i C_sending" "serves i P_logging" "serves i Z_importing" "serves i I_importing"
  "\<not> serves i (B_creating m)" "\<not> serves i (C_creating u)" "\<not> serves i (P_creating p)"
  by (simp_all add: serves_def)

lemma serves_not_creating: "serves i f \<Longrightarrow> \<not> creating f"
  by (cases f) simp_all

definition made :: "wizard \<Rightarrow> bool" where
  "made w \<longleftrightarrow> wz_created w \<noteq> [] \<and> (\<exists>n. wz_accounts w = Created (wz_created w) # replicate n Imported)
     \<and> list_all (serves (wz_created w)) (wz_flows w)"

definition unmade :: "wizard \<Rightarrow> bool" where
  "unmade w \<longleftrightarrow> wz_created w = [] \<and> wz_accounts w = [] \<and> wz_flows w = []"

definition spent :: "wizard \<Rightarrow> bool" where
  "spent w \<longleftrightarrow> wz_created w = [] \<and> wz_accounts w = [Imported] \<and> wz_flows w = [] \<and> wz_phase w = Done"

definition one_account :: "wizard \<Rightarrow> bool" where
  "one_account w \<longleftrightarrow> made w \<or> unmade w \<or> spent w
     \<or> wz_created w = [] \<and> wz_accounts w = [] \<and> wz_phase w = Busy
        \<and> (\<exists>f. wz_flows w = [f] \<and> (creating f \<or> importing f))"

lemma one_core: "core v = core w \<Longrightarrow> one_account v = one_account w"
  by (simp add: core_def one_account_def made_def unmade_def spent_def)

lemma made_one: "made w \<Longrightarrow> one_account w"
  by (simp add: one_account_def)

lemma unmade_one: "unmade w \<Longrightarrow> one_account w"
  by (simp add: one_account_def)

lemma list_all_remove1: "list_all P fs \<Longrightarrow> list_all P (remove1 f fs)"
  by (induction fs) auto

lemma made_rules:
  "made (say p m w) = made w" "made (succeed m w) = made w" "made (send_out q w) = made w"
  "made (w\<lparr>wz_message := m\<rparr>) = made w" "made (w\<lparr>wz_url := u\<rparr>) = made w" "made (w\<lparr>wz_timers := n\<rparr>) = made w"
  "made (w\<lparr>wz_phase := p\<rparr>) = made w" "serves (wz_created w) f \<Longrightarrow> made (with_flow f w) = made w"
  by (simp_all add: made_def flow_defs)

lemma made_without: "made w \<Longrightarrow> made (without_flow f w)"
  by (simp add: made_def without_flow_def list_all_remove1)

lemma made_stop: "made w \<Longrightarrow> made (stop_polling w)"
  by (simp add: made_def stop_polling_def list_all_iff)

lemma created_frame: "wz_created (without_flow f w) = wz_created w" "wz_created (say p m w) = wz_created w"
  "wz_created (send_out q w) = wz_created w"
  by (simp_all add: without_flow_def say_def send_out_def)

lemma made_wait: "made w \<Longrightarrow> i = wz_created w \<Longrightarrow> made (wait_poll i n w)"
  by (simp add: wait_poll_def made_def flow_defs)

lemma made_next: "made w \<Longrightarrow> made (browser_session t m (wz_created w) w)" "made w \<Longrightarrow> made (send_callback u (wz_created w) w)"
  "made w \<Longrightarrow> made (send_pat t p (wz_created w) w)"
proof -
  assume m: "made w"
  then show "made (browser_session t m (wz_created w) w)"
    by (simp add: browser_session_def made_def flow_defs)
  show "made (send_pat t p (wz_created w) w)"
    using m by (simp add: send_pat_def made_def flow_defs)
  show "made (send_callback u (wz_created w) w)"
    using made_stop [OF m] by (simp add: send_callback_def made_def flow_defs)
qed

lemma made_imported: "made w \<Longrightarrow> made (imported w)"
  by (auto simp: made_def imported_def replicate_append_same intro: exI [of _ "Suc n" for n])

lemma unmade_rules:
  "unmade (say p m w) = unmade w" "unmade (succeed m w) = unmade w" "unmade (w\<lparr>wz_message := m\<rparr>) = unmade w"
  "unmade (w\<lparr>wz_phase := p\<rparr>) = unmade w" "unmade (w\<lparr>wz_url := u\<rparr>) = unmade w"
  by (simp_all add: unmade_def flow_defs)

lemma idle_one: "one_account w \<Longrightarrow> wz_phase w \<noteq> Busy \<Longrightarrow> wz_phase w \<noteq> Done \<Longrightarrow> made w \<or> unmade w"
  by (auto simp: one_account_def spent_def)

lemma flow_one:
  assumes "one_account w" and "f \<in> set (wz_flows w)"
  shows "if creating f then unmade (without_flow f w)
    else if importing f then made w \<or> unmade (without_flow f w) else made w \<and> serves (wz_created w) f"
  using assms
  by (auto simp: one_account_def made_def unmade_def spent_def without_flow_def list_all_iff dest: serves_not_creating)

lemma ensure_one:
  assumes "made w \<or> unmade w" and "wz_phase w = Busy" and "creating f" and "\<And>v. made v \<Longrightarrow> made (cont (wz_created v) v)"
  shows "one_account (ensure_account t f r cont w)"
proof (cases "wz_created w = []")
  case False
  with assms have "made w" by (simp add: unmade_def)
  with assms(4) False show ?thesis by (simp add: ensure_account_def made_one)
next
  case True
  with assms(1) have "unmade w" by (simp add: made_def)
  with assms True show ?thesis
    by (auto simp: ensure_account_def unmade_one unmade_rules one_account_def flow_defs unmade_def split: option.split)
qed

lemma account_one:
  assumes "unmade (without_flow f w)" and "\<And>v. made v \<Longrightarrow> made (cont (wz_created v) v)"
  shows "one_account (account_answer f r cont a w)"
proof (cases a)
  case (Inl e)
  with assms show ?thesis by (simp add: account_answer_def unmade_one unmade_rules)
next
  case (Inr i)
  let ?v = "(without_flow f w)\<lparr>wz_created := i, wz_accounts := wz_accounts w @ [Created i]\<rparr>"
  show ?thesis
  proof (cases "i = []")
    case True
    with Inr assms show ?thesis by (simp add: account_answer_def unmade_one unmade_rules)
  next
    case False
    have "wz_accounts w = [] \<and> wz_flows (without_flow f w) = []"
      using assms(1) by (simp add: unmade_def without_flow_def)
    with False have "made ?v" by (simp add: made_def)
    with assms(2) [of ?v] Inr False show ?thesis by (simp add: account_answer_def made_one)
  qed
qed

lemma import_one:
  assumes "made w \<or> unmade w" and "importing f"
  shows "one_account (with_flow f (send_out q (say Busy m w)))"
proof -
  from assms(2) have "serves i f" for i by (auto simp: importing_def)
  with assms show ?thesis by (auto simp: one_account_def made_def unmade_def flow_defs)
qed

lemma one_message: "one_account (w\<lparr>wz_message := m\<rparr>) = one_account w"
  by (rule one_core) (simp add: core_def)

lemma press_one:
  assumes "one_account w" and "wz_phase w \<noteq> Busy" and "wz_phase w \<noteq> Done"
  shows "one_account (runBrowser t w)" "one_account (runCallback t w)" "one_account (runPat t w)"
    "one_account (runZhipu t w)" "one_account (runImport t w)"
proof -
  note i = idle_one [OF assms]
  show "one_account (runBrowser t w)" unfolding runBrowser_def
    by (rule ensure_one) (use i in \<open>simp_all add: made_rules unmade_rules made_next\<close>)
  have "one_account (ensure_account t (C_creating u) Polling (send_callback u) (w\<lparr>wz_phase := Busy\<rparr>))" for u
    by (rule ensure_one) (use i in \<open>simp_all add: made_rules unmade_rules made_next\<close>)
  with assms show "one_account (runCallback t w)" by (simp add: runCallback_def one_message Let_def)
  have "one_account (ensure_account t (P_creating p) Idle (send_pat t p) (say Busy [] w))" for p
    by (rule ensure_one) (use i in \<open>simp_all add: made_rules unmade_rules made_next, simp add: say_def\<close>)
  with assms show "one_account (runPat t w)" by (simp add: runPat_def one_message Let_def)
  show "one_account (runZhipu t w)" using assms i by (auto simp: runZhipu_def one_message import_one split: option.split)
  show "one_account (runImport t w)" using assms i by (auto simp: runImport_def one_message import_one split: option.split)
qed

lemma answer_one:
  assumes "one_account w"
  shows "B_creating m \<in> set (wz_flows w) \<Longrightarrow> one_account (browser_created t m a w)"
    and "C_creating u \<in> set (wz_flows w) \<Longrightarrow> one_account (callback_created u a w)"
    and "P_creating p \<in> set (wz_flows w) \<Longrightarrow> one_account (pat_created t p a w)"
    and "B_starting i \<in> set (wz_flows w) \<Longrightarrow> one_account (browser_started t i s w)"
    and "B_waiting i n k \<in> set (wz_flows w) \<Longrightarrow> one_account (browser_tick i n k w)"
    and "B_asking i n \<in> set (wz_flows w) \<Longrightarrow> one_account (browser_status t i n l w)"
    and "C_sending \<in> set (wz_flows w) \<Longrightarrow> one_account (callback_answer t e w)"
    and "P_logging \<in> set (wz_flows w) \<Longrightarrow> one_account (pat_answer t e w)"
    and "Z_importing \<in> set (wz_flows w) \<Longrightarrow> one_account (zhipu_answer t e w)"
    and "I_importing \<in> set (wz_flows w) \<Longrightarrow> one_account (import_answer t r w)"
proof -
  note f = flow_one [OF assms]
  show "B_creating m \<in> set (wz_flows w) \<Longrightarrow> one_account (browser_created t m a w)"
    using f [of "B_creating m"] by (simp add: browser_created_def account_one made_next)
  show "C_creating u \<in> set (wz_flows w) \<Longrightarrow> one_account (callback_created u a w)"
    using f [of "C_creating u"] by (simp add: callback_created_def account_one made_next)
  show "P_creating p \<in> set (wz_flows w) \<Longrightarrow> one_account (pat_created t p a w)"
    using f [of "P_creating p"] by (simp add: pat_created_def account_one made_next)
  show "B_starting i \<in> set (wz_flows w) \<Longrightarrow> one_account (browser_started t i s w)"
    using f [of "B_starting i"]
    by (auto simp: browser_started_def made_rules made_wait created_frame made_without intro!: made_one split: sum.split)
  show "B_waiting i n k \<in> set (wz_flows w) \<Longrightarrow> one_account (browser_tick i n k w)"
    using f [of "B_waiting i n k"] by (auto simp: browser_tick_def made_rules created_frame made_without intro!: made_one)
  show "B_asking i n \<in> set (wz_flows w) \<Longrightarrow> one_account (browser_status t i n l w)"
    using f [of "B_asking i n"]
    by (auto simp: browser_status_def made_rules made_wait created_frame made_without Let_def intro!: made_one split: sum.split)
  show "C_sending \<in> set (wz_flows w) \<Longrightarrow> one_account (callback_answer t e w)"
    using f [of C_sending] by (auto simp: callback_answer_def made_rules made_without Let_def intro!: made_one split: option.split)
  show "P_logging \<in> set (wz_flows w) \<Longrightarrow> one_account (pat_answer t e w)"
    using f [of P_logging] by (auto simp: pat_answer_def made_rules made_without Let_def intro!: made_one split: option.split)
  have s: "made (without_flow h w) \<or> unmade (without_flow h w) \<Longrightarrow> one_account (say q x (without_flow h w))"
    "made (without_flow h w) \<or> unmade (without_flow h w) \<Longrightarrow> one_account (succeed x (without_flow h w))" for h q x
    by (elim disjE; simp add: made_one unmade_one made_rules unmade_rules)+
  have d: "made (without_flow h w) \<or> unmade (without_flow h w) \<Longrightarrow> one_account (succeed x (imported (without_flow h w)))" for h x
    by (elim disjE, simp add: made_one made_rules made_imported)
      (simp add: one_account_def spent_def unmade_def imported_def succeed_def say_def)
  show "Z_importing \<in> set (wz_flows w) \<Longrightarrow> one_account (zhipu_answer t e w)"
    using f [of Z_importing] s [of Z_importing] d [of Z_importing]
    by (auto simp: zhipu_answer_def made_without Let_def split: option.split)
  show "I_importing \<in> set (wz_flows w) \<Longrightarrow> one_account (import_answer t r w)"
    using f [of I_importing] s [of I_importing] d [of I_importing]
    by (auto simp: import_answer_def made_without Let_def split: sum.split)
qed

lemma one_step: "dialog_step t w w' \<Longrightarrow> one_account w \<Longrightarrow> one_account w'"
proof (induction rule: dialog_step.induct)
  case (Callback_press w)
  then show ?case
    by (cases "wz_phase w = Busy") (simp_all add: press_one on_tab_def pressable_def, simp add: runCallback_def one_message)
qed (simp_all add: press_one answer_one is_busy_def on_tab_def pressable_def one_core [OF core_frame(1)] one_core [OF core_frame(2)]
    one_core [OF core_frame(3)] one_core [OF core_frame(5)] one_core [OF core_frame(6)] one_core [OF core_frame(7)])

lemma session_one: "session t w \<Longrightarrow> one_account w"
proof (induction rule: session.induct)
  case session_opened
  then show ?case by (simp add: one_account_def unmade_def opened_def initial_wizard_def)
next
  case (session_step w w')
  then show ?case by (blast intro: one_step)
qed

lemma session_account:
  assumes "session t w" and "wz_created w \<noteq> []"
  obtains n where "wz_accounts w = Created (wz_created w) # replicate n Imported"
  using session_one [OF assms(1)] assms(2) by (auto simp: one_account_def made_def unmade_def spent_def)

subsection \<open>A refused callback\<close>

text \<open>
  When a callback was refused and no poll runs, the dialog stays busy: nothing closes it and no button but the
  one of the callback answers.
\<close>

definition locked :: "wizard \<Rightarrow> bool" where
  "locked w \<longleftrightarrow> wz_open w \<and> wz_phase w = Polling \<and> wz_flows w = [] \<and> wz_closings w = 0 \<and> \<not> wz_loading w
     \<and> wz_created w \<noteq> [] \<and> \<not> is_zhipu w"

lemma form_keeps_type: "active_provider (w\<lparr>wz_form := f, wz_message := m\<rparr>) = active_provider w"
  "active_provider (w\<lparr>wz_form := f\<rparr>) = active_provider w" "active_provider (w\<lparr>wz_message := m\<rparr>) = active_provider w"
  by (simp_all add: active_provider_def activeOption_def)

lemma locked_facts:
  assumes "locked w"
  shows "wz_open w" "is_busy w" "settingsLocked w" "wz_flows w = []" "wz_closings w = 0" "\<not> wz_loading w" "\<not> is_zhipu w"
  using assms by (simp_all add: locked_def is_busy_def settingsLocked_def)

lemma locked_edited: "locked (w\<lparr>wz_form := f\<rparr>) = locked w"
  by (simp add: locked_def is_zhipu_def form_keeps_type)

lemma locked_inside: "dialog_step t w w' \<Longrightarrow> locked w \<Longrightarrow> locked w' \<or> w' = runCallback t w"
proof (induction rule: dialog_step.induct)
  case (Form w f)
  then show ?case by (simp only: locked_edited simp_thms)
next
  case (Tab w k)
  then show ?case by (simp only: select_tab_def locked_facts simp_thms if_True)
next
  case (Callback_press w)
  then show ?case by simp
qed (simp_all only: locked_facts simp_thms list.set empty_iff)

lemma locked_until_callback: "wizard_step t w w' \<Longrightarrow> locked w \<Longrightarrow> locked w' \<or> w' = runCallback t w"
proof (induction rule: wizard_step.induct)
  case (Inside w w')
  then show ?case by (rule locked_inside)
next
  case (Close w)
  then show ?case by (simp only: close_def locked_facts simp_thms if_True)
qed (simp_all add: locked_facts)

text \<open>A course of the dialog that comes to this, and others, for an account of Trae.\<close>

definition trae_option :: provider_option where
  "trae_option = \<lparr>po_id = js ''trae-cn'', po_provider = js ''trae'', po_region = js ''cn'',
     po_descriptor = \<lparr>ds_id = js ''trae'', ds_label = js ''Trae'', ds_regions = [(js ''cn'', js ''CN'')],
       ds_browser = None, ds_pat = None, ds_import = None\<rparr>\<rparr>"

definition trae_dialog :: wizard where
  "trae_dialog = initial_wizard\<lparr>wz_open := True, wz_step := Sign_in, wz_type := js ''trae-cn'', wz_options := [trae_option],
     wz_form := initial_form\<lparr>fm_drop_system := False, fm_callback := js ''u''\<rparr>\<rparr>"

lemma trim_u: "trim (js ''u'') = js ''u''" "js ''u'' \<noteq> []"
  by code_simp+

lemma trae_is_active: "wz_type w = js ''trae-cn'' \<Longrightarrow> wz_options w = [trae_option] \<Longrightarrow> activeOption w = Some trae_option"
  by (simp add: activeOption_def trae_option_def)

lemma trae_session: "session t trae_dialog"
proof -
  define l where "l = types_loaded (loadProviderOptions (Some [po_descriptor trae_option])) (opened initial_wizard)"
  have "session t l" unfolding l_def by (rule session_step [OF session_opened Loaded]) (simp add: opened_def)
  moreover have id: "js ''trae'' @ js ''-'' @ js ''cn'' = js ''trae-cn''" by code_simp
  moreover have l: "l = initial_wizard\<lparr>wz_open := True, wz_options := [trae_option]\<rparr>" unfolding l_def
    using id by (simp add: types_loaded_def opened_def initial_wizard_def trae_option_def loadProviderOptions_def
        opt_or_def settle_tab_def offers_def capable_def activeOption_def)
  ultimately have s: "session t (initial_wizard\<lparr>wz_open := True, wz_options := [trae_option]\<rparr>)" by simp
  let ?w = "chooseProvider (js ''trae-cn'') (initial_wizard\<lparr>wz_open := True, wz_options := [trae_option]\<rparr>)"
  have "session t ?w"
    by (rule session_step [OF s Choose]) (simp_all add: initial_wizard_def settingsLocked_def is_busy_def)
  moreover have w: "?w = initial_wizard\<lparr>wz_open := True, wz_step := Sign_in, wz_type := js ''trae-cn'', wz_options := [trae_option],
     wz_form := initial_form\<lparr>fm_drop_system := False\<rparr>\<rparr>" by code_simp
  moreover have "form_change ?w ((initial_form)\<lparr>fm_drop_system := False, fm_callback := js ''u''\<rparr>)"
    unfolding w by (simp add: form_change_def initial_wizard_def)
  ultimately have "session t (?w\<lparr>wz_form := initial_form\<lparr>fm_drop_system := False, fm_callback := js ''u''\<rparr>\<rparr>)"
    by (blast intro: session_step Form)
  then show ?thesis unfolding w by (simp add: trae_dialog_def)
qed

lemma callback_in_flight:
  "\<exists>c. session t c \<and> wz_flows c = [C_sending] \<and> wz_open c \<and> wz_closings c = 0 \<and> \<not> wz_loading c \<and> wz_created c \<noteq> []
     \<and> \<not> is_zhipu c"
proof -
  let ?p = "runCallback t trae_dialog"
  let ?c = "callback_created (js ''u'') (Inr (js ''a'')) ?p"
  have o: "activeOption (trae_dialog\<lparr>wz_phase := Busy\<rparr>) = Some trae_option"
    by (simp add: activeOption_def trae_dialog_def trae_option_def initial_wizard_def)
  have a: "active_provider trae_dialog = Some (js ''trae'')"
    by (simp add: active_provider_def activeOption_def trae_dialog_def trae_option_def initial_wizard_def)
  have "dialog_step t trae_dialog ?p"
    by (rule Callback_press)
      (use a in \<open>simp_all add: on_tab_def pressable_def is_zhipu_def showCallbackPaste_def trae_dialog_def initial_wizard_def\<close>)
  then have "session t ?p" by (blast intro: session_step trae_session)
  moreover have p: "?p = with_flow (C_creating (js ''u'')) (send_out (creation t trae_option (trae_dialog\<lparr>wz_phase := Busy\<rparr>))
      (trae_dialog\<lparr>wz_phase := Busy\<rparr>))"
    using o by (simp add: runCallback_def ensure_account_def trae_dialog_def initial_wizard_def trim_u Let_def)
  moreover have "C_creating (js ''u'') \<in> set (wz_flows ?p)" unfolding p by (simp add: with_flow_def)
  ultimately have "session t ?c" by (blast intro: session_step Callback_created)
  moreover have "active_provider ?c = active_provider trae_dialog" unfolding p
    by (simp add: callback_created_def account_answer_def send_callback_def flow_defs stop_polling_def active_provider_def activeOption_def)
  moreover have "wz_flows ?c = [C_sending] \<and> wz_open ?c \<and> wz_closings ?c = 0 \<and> \<not> wz_loading ?c \<and> wz_created ?c \<noteq> []" unfolding p
    by (simp add: callback_created_def account_answer_def send_callback_def flow_defs stop_polling_def trae_dialog_def initial_wizard_def)
  ultimately show ?thesis using a by (auto simp: is_zhipu_def)
qed

lemma refused_callback_locks: "\<exists>w. session t w \<and> locked w"
proof -
  obtain c where c: "session t c" "wz_flows c = [C_sending]" "wz_open c" "wz_closings c = 0" "\<not> wz_loading c" "wz_created c \<noteq> []"
    "\<not> is_zhipu c" using callback_in_flight by blast
  let ?e = "callback_answer t (Some (js ''refused'')) c"
  have "session t ?e" using c(1,2) by (intro session_step [OF _ Callback_answer]; simp)
  moreover have "active_provider ?e = active_provider c"
    by (simp add: callback_answer_def flow_defs active_provider_def activeOption_def)
  then have "locked ?e" using c by (simp add: locked_def is_zhipu_def callback_answer_def flow_defs)
  ultimately show ?thesis by blast
qed



text \<open>The timer that closes the dialog is not stopped by closing it: it closes the dialog that was opened since.\<close>

lemma closing_timer_closes_the_next:
  "\<exists>w. wizard_reachable t w \<and> wz_open w \<and> wz_phase w = Idle \<and> wizard_step t w (finishAndClose w) \<and> \<not> wz_open (finishAndClose w)"
proof -
  obtain c where c: "session t c" "wz_flows c = [C_sending]" "wz_open c" "wz_closings c = 0"
    using callback_in_flight by blast
  let ?d = "callback_answer t None c"
  have "session t ?d" using c(1,2) by (intro session_step [OF _ Callback_answer]; simp)
  then have r: "wizard_reachable t ?d" by (rule session_reachable)
  moreover have o: "wz_open ?d" using c by (simp add: callback_answer_def flow_defs)
  ultimately have "wizard_reachable t (close ?d)" by (blast intro: wizard_next Close)
  moreover have l: "close ?d = (reset ?d)\<lparr>wz_open := False\<rparr>"
    by (simp add: close_def is_busy_def callback_answer_def flow_defs)
  then have "\<not> wz_open (close ?d)" by simp
  ultimately have "wizard_reachable t (opened (close ?d))" by (blast intro: wizard_next Open)
  moreover have "0 < wz_closings (opened (close ?d))" unfolding l
    using c by (simp add: opened_def reset_def stop_polling_def callback_answer_def flow_defs)
  then have "wizard_step t (opened (close ?d)) (finishAndClose (opened (close ?d)))" by (rule Finish)
  moreover have "wz_open (opened (close ?d))" "wz_phase (opened (close ?d)) = Idle" unfolding l
    by (simp_all add: opened_def reset_def)
  ultimately show ?thesis by (force simp: finishAndClose_def)
qed

text \<open>
  Accepting a callback stops the timer of a poll but not a poll in flight: when both succeed, the account is
  announced twice and two timers are set.
\<close>

lemma poll_in_flight: "\<exists>w. session t w \<and> wz_flows w = [B_asking (js ''a'') 0] \<and> wz_created w = js ''a'' \<and> wz_phase w = Polling
    \<and> wz_added w = 0 \<and> wz_accounts w = [Created (js ''a'')] \<and> on_tab Browser w \<and> showCallbackPaste w \<and> fm_callback (wz_form w) = js ''u'' \<and> activeOption w = Some trae_option"
proof -
  let ?p = "runBrowser t trae_dialog"
  let ?c = "browser_created t None (Inr (js ''a'')) ?p"
  let ?s = "browser_started t (js ''a'') (Inr None) ?c"
  let ?q = "browser_tick (js ''a'') 0 1 ?s"
  have o: "activeOption (trae_dialog\<lparr>wz_message := [], wz_url := [], wz_phase := Busy\<rparr>) = Some trae_option"
    by (simp add: activeOption_def trae_dialog_def trae_option_def initial_wizard_def)
  have a: "active_provider trae_dialog = Some (js ''trae'')"
    by (simp add: active_provider_def activeOption_def trae_dialog_def trae_option_def initial_wizard_def)
  have "dialog_step t trae_dialog ?p"
    by (rule Browser_press)
      (use a in \<open>simp_all add: on_tab_def pressable_def is_zhipu_def is_busy_def trae_dialog_def initial_wizard_def\<close>)
  then have "session t ?p" by (blast intro: session_step trae_session)
  moreover have p: "?p = with_flow (B_creating None)
      (send_out (creation t trae_option (trae_dialog\<lparr>wz_message := [], wz_url := [], wz_phase := Busy\<rparr>))
        (trae_dialog\<lparr>wz_message := [], wz_url := [], wz_phase := Busy\<rparr>))"
    using o a by (simp add: runBrowser_def ensure_account_def login_method_def trae_dialog_def initial_wizard_def)
  moreover have "B_creating None \<in> set (wz_flows ?p)" unfolding p by (simp add: with_flow_def)
  ultimately have "session t ?c" by (blast intro: session_step Browser_created)
  moreover have cf: "wz_flows ?c = [B_starting (js ''a'')]" unfolding p
    by (simp add: browser_created_def account_answer_def browser_session_def flow_defs trae_dialog_def initial_wizard_def)
  ultimately have "session t ?s" by (intro session_step [OF _ Browser_started]; simp)
  moreover have ct: "wz_timers ?c = 0" unfolding p
    by (simp add: browser_created_def account_answer_def browser_session_def flow_defs trae_dialog_def initial_wizard_def)
  have sf: "wz_flows ?s = [B_waiting (js ''a'') 0 1]"
    using cf ct by (simp add: browser_started_def wait_poll_def flow_defs)
  ultimately have "session t ?q" by (intro session_step [OF _ Browser_tick]; simp)
  moreover have "wz_flows ?q = [B_asking (js ''a'') 0]" using sf by (simp add: browser_tick_def flow_defs)
  moreover have "wz_created ?q = js ''a'' \<and> wz_phase ?q = Polling \<and> wz_added ?q = 0 \<and>
      wz_accounts ?q = [Created (js ''a'')] \<and> fm_callback (wz_form ?q) = js ''u'' \<and>
      wz_open ?q \<and> wz_step ?q = Sign_in \<and> wz_tab ?q = Browser" unfolding p
    by (simp add: browser_tick_def browser_started_def wait_poll_def str_or_empty_def browser_created_def account_answer_def
        browser_session_def flow_defs trae_dialog_def initial_wizard_def)
  moreover have "activeOption ?q = activeOption trae_dialog" unfolding p
    by (simp add: browser_tick_def browser_started_def wait_poll_def str_or_empty_def browser_created_def account_answer_def
        browser_session_def flow_defs activeOption_def)
  moreover have "activeOption trae_dialog = Some trae_option"
    by (simp add: activeOption_def trae_dialog_def trae_option_def initial_wizard_def)
  ultimately show ?thesis using a
    by (intro exI [of _ ?q]) (simp add: on_tab_def pressable_def is_zhipu_def showCallbackPaste_def active_provider_def)
qed

lemma announced_twice: "\<exists>w. session t w \<and> wz_accounts w = [Created (js ''a'')] \<and> wz_added w = 2"
proof -
  obtain w where w: "session t w" "wz_flows w = [B_asking (js ''a'') 0]" "wz_created w = js ''a''" "wz_phase w = Polling"
    "wz_added w = 0" "wz_accounts w = [Created (js ''a'')]" "on_tab Browser w" "showCallbackPaste w"
    "fm_callback (wz_form w) = js ''u''"
    using poll_in_flight by blast
  let ?r = "runCallback t w"
  let ?a = "callback_answer t None ?r"
  let ?v = "browser_status t (js ''a'') 0 (Inr \<lparr>ls_status = Some (js ''ok''), ls_message = None\<rparr>) ?a"
  have "dialog_step t w ?r" using w by (intro Callback_press) simp_all
  with w have "session t ?r" by (blast intro: session_step)
  moreover have r: "wz_flows ?r = [C_sending, B_asking (js ''a'') 0]" "wz_added ?r = 0" "wz_created ?r = js ''a''"
    using w by (simp_all add: runCallback_def ensure_account_def send_callback_def stop_polling_def flow_defs trim_u)
  ultimately have "session t ?a" by (intro session_step [OF _ Callback_answer]; simp)
  moreover have a: "wz_flows ?a = [B_asking (js ''a'') 0]" "wz_added ?a = 1" "wz_created ?a = js ''a''"
    "wz_accounts ?a = wz_accounts w"
    using r w by (simp_all add: callback_answer_def flow_defs runCallback_def ensure_account_def send_callback_def
        stop_polling_def trim_u)
  ultimately have v: "session t ?v" by (intro session_step [OF _ Browser_status]; simp)
  have "wz_added ?v = 2" "wz_created ?v = js ''a''"
    using a by (simp_all add: browser_status_def flow_defs str_or_empty_def Let_def)
  moreover have "wz_accounts ?v = [Created (js ''a'')]"
    using a(4) w by (simp add: browser_status_def flow_defs str_or_empty_def Let_def)
  ultimately show ?thesis using v by (intro exI [of _ ?v]) simp
qed

text \<open>
  An import does not look for the account of the dialog: after a sign-in that failed, the import tab adds a
  second one, and the first stays behind without a sign-in.
\<close>

lemma import_after_failed_sign_in: "\<exists>w. session t w \<and> wz_accounts w = [Created (js ''a''), Imported]"
proof -
  obtain w where w: "session t w" "wz_flows w = [B_asking (js ''a'') 0]" "wz_phase w = Polling"
    "wz_accounts w = [Created (js ''a'')]" "on_tab Browser w" "activeOption w = Some trae_option"
    using poll_in_flight by blast
  let ?e = "browser_status t (js ''a'') 0 (Inl (js ''no answer'')) w"
  let ?k = "select_tab Import ?e"
  let ?f = "?k\<lparr>wz_form := (wz_form ?k)\<lparr>fm_json := js ''{}''\<rparr>\<rparr>"
  let ?i = "runImport t ?f"
  let ?a = "import_answer t (Inr Undef) ?i"
  have p: "wz_open w" "wz_step w = Sign_in" "wz_tab w = Browser"
    using w(5) by (simp_all add: on_tab_def pressable_def)
  have e: "wz_phase ?e = Idle" "wz_flows ?e = []" "wz_accounts ?e = [Created (js ''a'')]" "activeOption ?e = Some trae_option"
    "wz_open ?e" "wz_step ?e = Sign_in" "wz_tab ?e = Browser"
    using w p by (simp_all add: browser_status_def flow_defs activeOption_def)
  have caps: "capable c v" if "activeOption v = Some trae_option" "c (po_descriptor trae_option) = None" for c v
    using that by (simp add: capable_def)
  have none: "ds_browser (po_descriptor trae_option) = None" "ds_pat (po_descriptor trae_option) = None"
    "ds_import (po_descriptor trae_option) = None" by (simp_all add: trae_option_def)
  have s: "session t ?e" using w(1,2) by (intro session_step [OF _ Browser_status]; simp)
  have z: "\<not> is_zhipu v" if "activeOption v = Some trae_option" for v
    using that by (simp add: is_zhipu_def active_provider_def trae_option_def)
  have "dialog_step t ?e ?k"
    by (rule Tab) (use e z caps none in \<open>simp_all add: tab_offered_def\<close>)
  with s have "session t ?k" by (blast intro: session_step)
  moreover have "form_change ?k ((wz_form ?k)\<lparr>fm_json := js ''{}''\<rparr>)" by (simp add: form_change_def)
  ultimately have "session t ?f" by (blast intro: session_step Form)
  moreover have ko: "activeOption ?k = Some trae_option"
    using e(4) by (simp add: select_tab_def settle_tab_def activeOption_def Let_def)
  have k: "wz_tab ?k = Import" "wz_phase ?k = Idle" "wz_flows ?k = []" "wz_accounts ?k = [Created (js ''a'')]"
    "wz_open ?k" "wz_step ?k = Sign_in"
    using e caps none by (simp_all add: select_tab_def settle_tab_def is_busy_def Let_def tab_offered_def capable_tab
        capable_def activeOption_def)
  have fo: "activeOption ?f = Some trae_option" using ko by (simp add: activeOption_def)
  then have "dialog_step t ?f ?i"
    by (intro Import_press) (use k z in \<open>simp_all add: on_tab_def pressable_def is_busy_def\<close>)
  ultimately have "session t ?i" by (blast intro: session_step)
  moreover have i: "wz_flows ?i = [I_importing]" "wz_accounts ?i = [Created (js ''a'')]"
  proof -
    have "json_parse (js ''{}'') = Some (JObj [])" by code_simp
    moreover have "qoder_bundle_ok trae_option b" for b
      by (simp add: qoder_bundle_ok_def trae_option_def)
    ultimately show "wz_flows ?i = [I_importing]" "wz_accounts ?i = [Created (js ''a'')]"
      using fo k by (simp_all add: runImport_def flow_defs)
  qed
  ultimately have "session t ?a" by (intro session_step [OF _ Import_answer]; simp)
  moreover have "wz_accounts ?a = [Created (js ''a''), Imported]"
    using i by (simp add: import_answer_def imported_def flow_defs)
  ultimately show ?thesis by blast
qed

section \<open>What the second page says\<close>

definition methodOptions :: "translate \<Rightarrow> wizard \<Rightarrow> (tab_key \<times> jstr) list" where
  "methodOptions t w =
     filter (\<lambda>(k, l). tab_offered k w) [(Browser, t ''tabBrowser'' []), (Pat, t ''tabPat'' []), (Import, t ''tabImport'' [])]"

definition tabLead :: "wizard \<Rightarrow> string" where
  "tabLead w = (case wz_tab w of
     Browser \<Rightarrow> if active_provider w = Some (js ''codex'') then ''wizardCodexBrowserLead'' else ''wizardBrowserLead''
   | Pat \<Rightarrow>
       if active_provider w = Some (js ''command'') then ''wizardPatLeadCommand''
       else if map_option po_region (activeOption w) = Some (js ''cn'') \<and> active_provider w = Some (js ''qoder'')
       then ''wizardPatLeadCN'' else ''wizardPatLead''
   | Import \<Rightarrow> ''wizardImportLead'')"

end
