(* ===== verification/Spec2Isabelle.thy ===== *)
theory Spec2Isabelle
  imports Worker_Usage Worker_Errors Worker_Catalog Worker_Normalize Worker_Stream Worker_Body
    Worker_Checkin Worker_Compat Worker_Upstream Worker_Diagnostics Worker_Requests Worker_Daemon_Runs
    Worker_Lock Worker_Chat Front_Live Front_Format Front_Account Front_Toast Front_Update Front_Import Front_Releases
    Front_Stream Front_Models Front_Log_Page Front_Access Front_Accounts_Page Front_Overview Front_Card
    Front_Add_Account
begin

text \<open>
  A verification development for the JavaScript and TypeScript code of cli2api: the worker that turns
  a coding command line tool into an OpenAI compatible server (\<open>src/worker/src\<close>), and the web console
  of the gateway (\<open>src/frontend/src\<close>). It models these programs as functions and step relations of
  HOL and proves what makes their components correct, and in some cases what makes them wrong.

  \<^bold>\<open>The programs.\<close> The gateway (in Go, not modelled) runs one worker for each account and serves the
  console. The worker loads the bundle of the command line tool with hooks inserted into it, gets from
  the hooks the tool's authentication manager, model catalog and request encoder, and answers chat
  requests: it normalizes the history, builds and encodes the upstream body, fetches the answer under
  a watchdog and rewrites the event stream, or collects it. Errors are classified for the gateway,
  which decides by the verdict whether it tries another account. The console calls the interface of
  the gateway and shows accounts, logs, statistics, the requests in progress and a chat.

  \<^bold>\<open>Layers.\<close> Each theory opens with what it holds.

  \<^item> JavaScript. \<open>Js_Prelude\<close> (lists, association lists as \<open>Map\<close> and objects, the collections of facts),
    \<open>Js_Value\<close> (strings of UTF-16 units, numbers, plain data and its conversions), \<open>Js_Json\<close>, \<open>Js_Regex\<close>,
    \<open>Js_Utf8\<close>, \<open>Js_Decimal\<close>, and \<open>Js_Async\<close> (sequential asynchronous code as actions on a log of calls, with
    Hoare triples). \<open>Async_Control\<close> and \<open>Line_Reader\<close> are interfaces as locales: a chain of promises, a
    promise kept in a variable, a reader of lines from pieces.
  \<^item> Worker, pure parts. \<open>Worker_Content\<close>, \<open>Worker_Filter\<close>, \<open>Worker_Normalize\<close>, \<open>Worker_Body\<close> and
    \<open>Worker_Diagnostics\<close> are \<open>plaintext.mjs\<close>; \<open>Worker_Usage\<close>, \<open>Worker_Errors\<close>, \<open>Worker_Catalog\<close> and
    \<open>Worker_Compat\<close> are \<open>usage.mjs\<close>, \<open>errors.mjs\<close>, \<open>catalog.mjs\<close>, and \<open>compat.mjs\<close> with
    \<open>rewrite-loader.mjs\<close>.
  \<^item> Worker, streams and requests. \<open>Worker_Sse\<close> and \<open>Worker_Stream\<close> are \<open>sse.mjs\<close>; \<open>Worker_Upstream\<close> is
    \<open>upstream.mjs\<close>; \<open>Worker_Checkin\<close> is \<open>checkin.mjs\<close>.
  \<^item> Worker, daemon (\<open>daemon.mjs\<close>). \<open>Worker_Requests\<close> (what computes without state), \<open>Worker_Daemon\<close> (the
    variables of the module as a record, one operation for each stretch of code between two awaits),
    \<open>Worker_Lock\<close> (the promises of its encode lock, with the outcomes of the jobs; \<open>chain_refines_lock\<close> shows
    that the list of jobs in \<open>Worker_Daemon\<close> is what they amount to), \<open>Worker_Daemon_Runs\<close> (all handlers
    interleaved, as a step relation), \<open>Worker_Chat\<close> (the chat calls).
  \<^item> Console, libraries. \<open>Front_Prelude\<close>, \<open>Front_Format\<close>, \<open>Front_Account\<close>, \<open>Front_Toast\<close>, \<open>Front_Import\<close>,
    \<open>Front_Releases\<close>, \<open>Front_Inflight\<close> and \<open>Front_Live\<close> are the files of \<open>lib\<close>; \<open>Front_Update\<close> is the hook
    \<open>useSystemUpdate\<close>; \<open>Front_Api\<close>, \<open>Front_Stream\<close> and \<open>Front_Models\<close> are the files of \<open>api\<close>.
  \<^item> Console, pages. \<open>Front_Paging\<close> (pagers), \<open>Front_Logs\<close> and \<open>Front_Log_Page\<close> (the log page and the links
    to it), \<open>Front_Access_Text\<close> and \<open>Front_Access\<close> (the page with the chat), \<open>Front_Accounts_Page\<close>,
    \<open>Front_Add_Account\<close> (the dialog that adds an account, with its sign-ins, as a step relation),
    \<open>Front_Overview\<close> (with the hooks for the key, the summary and the live numbers), \<open>Front_Card\<close> (the
    card of the requests in progress). A page is a record of its React state; an event handler is a
    function on it, cut where the code awaits; what is derived on a render is a function of the state.

  \<^bold>\<open>What is shown.\<close>

  \<^item> What goes upstream. Tool calls have unique identifiers, results answer calls made before and stand
    in their order, the body has one system message in front, a history that was filtered has only
    defined tools.
  \<^item> What comes back. However the network cuts a stream, the result is the same; what is written to the
    client is one well-formed stream with one end, retries and failures included, and reading it gives
    back the content, the reasoning and the calls of the result, unless a frame threw half way. The watchdog
    aborts a stream exactly when a whole window has passed since the answer of a read was last processed,
    and ends a silent one.
  \<^item> Verdicts and usage: types, bounds, which messages decide, units of times, what accumulates.
  \<^item> The daemon. Chats are counted exactly and limited; a rewarm runs alone in the chain of encoding
    jobs; jobs are called in order, failures included, and the chain can always empty; a context that was adopted is
    never lost; handlers need the key. Two defects are proved: a refresh of the catalog that fails early is never
    tried again, and a failed device login stays pending.
  \<^item> The check-in claims only what is listed and reports only what was confirmed. Patching is complete
    and idempotent.
  \<^item> The board: slots and running requests agree on every board of the demonstration and on every board
    made of an answer of the server; its card shows the live board when there is one, hides no cell for
    good and lets a request fly out once.
  \<^item> The console's own state: the notices and their timers, the memory of model lists, the update and
    its reload, the log page whose filters survive their address, whose pages exist and whose detail
    window follows the row opened last, the statistics of the selected window, refreshes in batches,
    chats that stay in their session and show the whole stream, a dialog that creates one account at most in
    a session, a shell command that passes every value literally.

  Lemmas that prove a defect are named for it (\<open>late_answer_shown\<close>, \<open>busy_mark_lost\<close>, \<open>old_window_kept\<close>,
  \<open>stale_error_shown\<close>, \<open>refused_callback_locks\<close>, \<open>import_after_failed_sign_in\<close> and others), and stand beside the definition that has it.

  \<^bold>\<open>Interfaces.\<close> \<open>serial_lock\<close> is interpreted on the daemon's encode lock; \<open>single_flight\<close> on its rewarm and
  on the check-in; \<open>line_reader\<close> on the worker's stream and on the console's; \<open>overriding_visitor\<close> on the
  walk over a usage frame; \<open>js_map\<close> on association lists; \<open>pager\<close> on the two lists of the log page and on
  the account page.

  \<^bold>\<open>Bounds and fuel.\<close> \<open>json_parse\<close> has fuel for every call and is given twice the length of the text and
  one more; \<open>parse_fuel_enough\<close> shows that more changes nothing. The visitor of \<open>usage.mjs\<close> has the depth
  the code has. The loop of the console that extends a list of tool calls up to an index is a partial function
  that can be undefined; \<open>stream_chat_ends\<close> shows that it never is, because an array has at most \<open>2 ^ 32 - 1\<close>
  elements and a further push throws. That memory runs out before is not modelled.
  Every other recursion is structural or has a measure. Steps of the daemon and of the pages are not
  bounded: their invariants are proved by induction over all runs.

  \<^bold>\<open>Numbers and texts.\<close> Numbers are rationals with the infinities and NaN: rounding to doubles, the
  negative zero, exponents in printed numbers from 1e21 on, and the range of exponents of a parsed
  number beyond 309 digits are not modelled. Lower case covers ASCII, Latin-1, Greek and Cyrillic.
  Objects are association lists of own properties; \<open>__proto__\<close> as a key and names inherited from
  \<open>Object.prototype\<close> are modelled where the code can be led to them (\<open>errors.mjs\<close>), not in the tables of
  labels. Values have no overridden \<open>toString\<close>.

  \<^bold>\<open>Parameters.\<close> Clocks and random identifiers, \<open>Date.parse\<close>, time zones and calendar formats,
  \<open>localeCompare\<close>, the texts of the interface, environment and files, \<open>fetch\<close> and what servers answer,
  the hooked objects of the command line tool, positions on the screen. Theorems hold for all of them;
  where one relies on a law of theirs it is a hypothesis, with a witness.

  \<^bold>\<open>Not modelled.\<close>

  \<^item> The gateway in Go, its plugins and its database, the built assets of the console, scripts,
    container and service files, tests: not of this language, generated, or not the program.
  \<^item> In the worker: printing to the console (\<open>emitDiagnostic\<close>, what the log line of \<open>prepareUpstream\<close> prints), the byte
    decoder (\<open>TextDecoder\<close>), header values that \<open>fetch\<close> would refuse, the decoration of a context by
    \<open>sealContext\<close>, the copy of the runtime information file in \<open>checkin.mjs\<close>.
  \<^item> In the console: markup, styles and animation (React elements, GSAP), focus and keyboard, the forms
    of the remaining pages (an account to be edited, providers, keys, system, usage), themes,
    icons, and the tables of texts in \<open>i18n/messages.ts\<close>. They have no state of their own beyond the
    fields of a form, or call the functions that are modelled.
  \<^item> The shell that runs a copied command is modelled by its quoting rules for the words the command
    has; a NUL in a value, which no shell can pass, is outside.
\<close>

end
